(* ===== verification/Prelude.thy ===== *)
theory Prelude
  imports Complex_Main "HOL-Library.AList" "HOL-Library.Product_Lexorder"
begin

text \<open>
  Shared vocabulary of the development: the platform's error classes as values, results that are
  either an error or a value, Python dictionaries as insertion-ordered association lists, JSON
  documents, principals, and the interfaces (locales) that several repositories implement.

  Conventions used in every theory. An instant is an \<open>int\<close>, the microseconds since the Unix epoch
  in UTC (the code stores aware UTC datetimes). A UUID is the \<open>nat\<close> that Python's \<open>UUID.int\<close> gives.
  A \<open>Decimal\<close> amount is a \<open>rat\<close>. A reading of the injected clock is an argument of the operation
  that reads it, one argument per reading. HOL values are immutable, so the defensive deep copies
  of the source are the identity. Each repository method holds one lock for its whole body, so it
  is one atomic state transformer.
\<close>

named_theorems keyed_laws "laws of dictionaries whose values carry their own key"

subsection \<open>Basic types\<close>

type_synonym uuid = nat
type_synonym instant = int

datatype json =
    JNull
  | JBool bool
  | JInt int
  | JReal rat
  | JStr string
  | JArr "json list"
  | JObj "(string \<times> json) list"

type_synonym ('k, 'v) dict = "('k \<times> 'v) list"
type_synonym document = "(string, json) dict"

datatype error =
    NotFoundError string
  | ConflictError string "string option"
  | ValueError string
  | RuntimeError string
  | NotImplementedError string
  | RunCancelledError string
  | BudgetExceededError string string
  | FolderNameError string
  | ToolValidationError string
  | KeyError
  | IndexError
  | AssertionError
  | RateLimitedError string string
  | ScheduleValidationError string string
  | DelegationValidationError string string
  | AuthorizationError string

type_synonym 'a res = "error + 'a"

subsection \<open>Results: an error or a value\<close>

text \<open>Sequencing two calls: an exception of the first one propagates.\<close>

definition rbind :: "'e + 'a \<Rightarrow> ('a \<Rightarrow> 'e + 'b) \<Rightarrow> 'e + 'b" where
  "rbind m f = (case m of Inl e \<Rightarrow> Inl e | Inr a \<Rightarrow> f a)"

lemma rbind_simps [simp]:
  "rbind (Inl e) f = Inl e"
  "rbind (Inr a) f = f a"
  by (simp_all add: rbind_def)

lemma rbind_Inr_iff: "rbind m f = Inr b \<longleftrightarrow> (\<exists>a. m = Inr a \<and> f a = Inr b)"
  by (cases m) auto

lemma rbind_InrE [elim]:
  assumes "rbind m f = Inr b"
  obtains a where "m = Inr a" and "f a = Inr b"
  using assms by (auto simp: rbind_Inr_iff)

lemma rbind_Inl_iff: "rbind m f = Inl e \<longleftrightarrow> m = Inl e \<or> (\<exists>a. m = Inr a \<and> f a = Inl e)"
  by (cases m) auto

lemma if_Inl_Inr_iff [simp]:
  "(if c then Inl e else r) = Inr b \<longleftrightarrow> \<not> c \<and> r = Inr b"
  "(if c then r else Inl e) = Inr b \<longleftrightarrow> c \<and> r = Inr b"
  by auto

lemma if_InlE [elim]:
  assumes "(if c then Inl e else r) = Inr b"
  obtains "\<not> c" and "r = Inr b"
  using assms by simp

text \<open>A comprehension whose element expression may raise: the first exception propagates.\<close>

fun map_res :: "('a \<Rightarrow> 'b res) \<Rightarrow> 'a list \<Rightarrow> 'b list res" where
  "map_res f [] = Inr []"
| "map_res f (x # xs) = rbind (f x) (\<lambda>y. rbind (map_res f xs) (\<lambda>ys. Inr (y # ys)))"

lemma map_res_set: "map_res f xs = Inr ys \<Longrightarrow> y \<in> set ys \<longleftrightarrow> (\<exists>x \<in> set xs. f x = Inr y)"
proof (induction xs arbitrary: ys)
  case (Cons x xs)
  then show ?case by (fastforce simp: rbind_Inr_iff)
qed simp

lemma map_res_distinct:
  assumes "distinct xs" and "map_res f xs = Inr ys" and "\<And>x x' y. f x = Inr y \<Longrightarrow> f x' = Inr y \<Longrightarrow> x = x'"
  shows "distinct ys"
  using assms(1,2)
proof (induction xs arbitrary: ys)
  case (Cons x xs)
  then obtain y zs where y: "f x = Inr y" and zs: "map_res f xs = Inr zs" and ys: "ys = y # zs"
    by (auto simp: rbind_Inr_iff)
  have "y \<notin> set zs"
  proof
    assume "y \<in> set zs"
    then obtain x' where "x' \<in> set xs" "f x' = Inr y" using map_res_set [OF zs] by blast
    then show False using assms(3) [OF y] Cons.prems(1) by auto
  qed
  then show ?case using Cons.IH [OF _ zs] Cons.prems(1) ys by simp
qed simp

lemma map_res_total: "\<forall>x \<in> set xs. \<exists>y. f x = Inr y \<Longrightarrow> \<exists>ys. map_res f xs = Inr ys \<and> length ys = length xs"
  by (induction xs) (force simp: rbind_Inr_iff)+

definition is_ok :: "'e + 'a \<Rightarrow> bool" where
  "is_ok r = (case r of Inl _ \<Rightarrow> False | Inr _ \<Rightarrow> True)"

lemma is_ok_simps [simp]: "is_ok (Inr a)" "\<not> is_ok (Inl e)"
  by (simp_all add: is_ok_def)

lemma is_ok_iff: "is_ok r \<longleftrightarrow> (\<exists>a. r = Inr a)"
  by (cases r) auto

subsection \<open>Python dictionaries\<close>

text \<open>
  A \<open>dict\<close> keeps the insertion order of its keys; storing an existing key updates it in place. This
  is \<open>AList.update\<close> on an association list with distinct keys.
\<close>

abbreviation dget :: "('k, 'v) dict \<Rightarrow> 'k \<Rightarrow> 'v option" where
  "dget d k \<equiv> map_of d k"

abbreviation dset :: "'k \<Rightarrow> 'v \<Rightarrow> ('k, 'v) dict \<Rightarrow> ('k, 'v) dict" where
  "dset k v d \<equiv> AList.update k v d"

abbreviation ddel :: "'k \<Rightarrow> ('k, 'v) dict \<Rightarrow> ('k, 'v) dict" where
  "ddel k d \<equiv> AList.delete k d"

abbreviation dvals :: "('k, 'v) dict \<Rightarrow> 'v list" where
  "dvals d \<equiv> map snd d"

definition dhas :: "('k, 'v) dict \<Rightarrow> 'k \<Rightarrow> bool" where
  "dhas d k \<longleftrightarrow> k \<in> fst ` set d"

lemma dhas_iff: "dhas d k \<longleftrightarrow> dget d k \<noteq> None"
  by (simp add: dhas_def map_of_eq_None_iff)

text \<open>\<open>try: d[k] except KeyError: raise e\<close>\<close>

definition dlookup :: "error \<Rightarrow> ('k, 'v) dict \<Rightarrow> 'k \<Rightarrow> 'v res" where
  "dlookup e d k = (case dget d k of None \<Rightarrow> Inl e | Some v \<Rightarrow> Inr v)"

lemma dlookup_Inr_iff [simp]: "dlookup e d k = Inr v \<longleftrightarrow> dget d k = Some v"
  by (simp add: dlookup_def split: option.splits)

lemma dlookup_Some [simp]: "dget d k = Some v \<Longrightarrow> dlookup e d k = Inr v"
  by simp

lemma dlookup_None [simp]: "dget d k = None \<Longrightarrow> dlookup e d k = Inl e"
  by (simp add: dlookup_def)

lemma dget_dset [simp]: "dget (dset k v d) k' = (if k' = k then Some v else dget d k')"
  by (simp add: update_conv')

lemma dget_ddel [simp]: "dget (ddel k d) k' = (if k' = k then None else dget d k')"
  by (simp add: delete_conv')

text \<open>\<open>keyed key d\<close>: distinct keys, and every value is stored under its own key.\<close>

definition keyed :: "('v \<Rightarrow> 'k) \<Rightarrow> ('k, 'v) dict \<Rightarrow> bool" where
  "keyed key d \<longleftrightarrow> distinct (map fst d) \<and> (\<forall>(k, v) \<in> set d. key v = k)"

lemma keyed_Nil [simp]: "keyed key []"
  by (simp add: keyed_def)

lemma keyed_distinct: "keyed key d \<Longrightarrow> distinct (map fst d)"
  by (simp add: keyed_def)

lemma set_dset:
  "distinct (map fst d) \<Longrightarrow> set (dset k v d) = insert (k, v) {p \<in> set d. fst p \<noteq> k}"
  by (induction d) force+

lemma distinct_dset [simp]: "distinct (map fst (dset k v d)) \<longleftrightarrow> distinct (map fst d)"
  by (simp only: update_keys) auto

lemma keyed_dset [keyed_laws, intro]: "keyed key d \<Longrightarrow> key v = k \<Longrightarrow> keyed key (dset k v d)"
  by (auto simp: keyed_def set_dset)

lemma keyed_ddel [keyed_laws, intro]: "keyed key d \<Longrightarrow> keyed key (ddel k d)"
  by (auto simp: keyed_def AList.delete_eq distinct_map_filter)

lemma keyed_dget: "keyed key d \<Longrightarrow> dget d k = Some v \<Longrightarrow> key v = k"
  by (auto simp: keyed_def dest: map_of_SomeD)

lemma keyed_vals: "keyed key d \<Longrightarrow> v \<in> set (dvals d) \<longleftrightarrow> dget d (key v) = Some v"
  by (force simp: keyed_def dest: map_of_SomeD)

lemma keyed_set_dset:
  assumes "keyed key d" and "key v = k"
  shows "set (dvals (dset k v d)) = insert v {w \<in> set (dvals d). key w \<noteq> k}"
  using assms by (force simp: keyed_def set_dset)

lemma keyed_set_ddel:
  assumes "keyed key d"
  shows "set (dvals (ddel k d)) = {w \<in> set (dvals d). key w \<noteq> k}"
  using assms by (force simp: keyed_def AList.delete_eq)

lemma dset_absent: "k \<notin> fst ` set d \<Longrightarrow> dset k v d = d @ [(k, v)]"
  by (induction d) auto

subsection \<open>Principals and owner-scoped records\<close>

record principal =
  tenant_id :: string
  principal_id :: string
  roles :: "string set"
  scopes :: "string set"

text \<open>
  \<open>owned_by\<close> of \<open>domain/agents.py\<close>, over the pair of owner identifiers that every owned record
  carries.
\<close>

definition owned_by :: "string \<times> string \<Rightarrow> principal \<Rightarrow> bool" where
  "owned_by owner p \<longleftrightarrow> fst owner = tenant_id p \<and> snd owner = principal_id p"

lemma owned_by_unique: "owned_by w p \<Longrightarrow> owned_by w q \<Longrightarrow>
    tenant_id p = tenant_id q \<and> principal_id p = principal_id q"
  by (auto simp: owned_by_def)

text \<open>
  The contract of every owner-scoped getter: it answers from one table, gives a record only to the
  principal that owns it, and answers a foreign record exactly as it answers an absent one.
\<close>

locale owner_scoped =
  fixes lookup :: "'st \<Rightarrow> 'k \<Rightarrow> 'r option"
    and owner :: "'r \<Rightarrow> string \<times> string"
    and missing :: "'k \<Rightarrow> error"
    and getter :: "'st \<Rightarrow> 'k \<Rightarrow> principal \<Rightarrow> 'r res"
  assumes getter_eq:
    "getter s k p = (case lookup s k of
        None \<Rightarrow> Inl (missing k)
      | Some r \<Rightarrow> if owned_by (owner r) p then Inr r else Inl (missing k))"
begin

lemma getter_owned: "getter s k p = Inr r \<Longrightarrow> owned_by (owner r) p \<and> lookup s k = Some r"
  by (auto simp: getter_eq split: option.splits if_splits)

lemma getter_complete: "lookup s k = Some r \<Longrightarrow> owned_by (owner r) p \<Longrightarrow> getter s k p = Inr r"
  by (simp add: getter_eq)

lemma getter_isolated:
  assumes "getter s k p = Inr r" and "getter s k q = Inr r'"
  shows "tenant_id p = tenant_id q \<and> principal_id p = principal_id q \<and> r = r'"
  using assms by (auto simp: getter_eq owned_by_def split: option.splits if_splits)

lemma getter_foreign_as_absent:
  assumes "lookup s k = Some r" and "\<not> owned_by (owner r) p" and "lookup s' k = None"
  shows "getter s k p = getter s' k p"
  using assms by (simp add: getter_eq)

end

subsection \<open>Lifecycles: guarded status changes\<close>

text \<open>
  A lifecycle is a relation of allowed status changes with terminal statuses that have no way out.
  A store follows a lifecycle when each of its steps changes a record's status only along an
  allowed edge, and drops a record only while its status is not terminal.
\<close>

locale lifecycle =
  fixes allowed :: "'s \<Rightarrow> 's \<Rightarrow> bool"
    and terminal :: "'s \<Rightarrow> bool"
  assumes terminal_stuck: "terminal a \<Longrightarrow> allowed a b \<Longrightarrow> a = b"
begin

lemma terminal_absorbing: "allowed\<^sup>*\<^sup>* a b \<Longrightarrow> terminal a \<Longrightarrow> b = a"
  by (induction rule: rtranclp_induct) (auto dest: terminal_stuck)

end

locale status_store = lifecycle +
  fixes status_of :: "'st \<Rightarrow> 'k \<Rightarrow> 's option"
    and step :: "'st \<Rightarrow> 'st \<Rightarrow> bool"
  assumes step_status: "step x y \<Longrightarrow> status_of x k = Some a \<Longrightarrow>
      (case status_of y k of None \<Rightarrow> \<not> terminal a | Some b \<Rightarrow> a = b \<or> allowed a b)"
begin

lemma step_terminal: "step x y \<Longrightarrow> status_of x k = Some a \<Longrightarrow> terminal a \<Longrightarrow> status_of y k = Some a"
  using step_status [of x y k a] by (auto split: option.splits dest: terminal_stuck)

lemma terminal_forever:
  assumes "step\<^sup>*\<^sup>* x y" and "status_of x k = Some a" and "terminal a"
  shows "status_of y k = Some a"
  using assms by (induction rule: rtranclp_induct) (auto dest: step_terminal)

end

text \<open>A store that never drops a record follows paths of the lifecycle.\<close>

locale retaining_store = status_store +
  assumes step_retains: "step x y \<Longrightarrow> status_of x k = Some a \<Longrightarrow> status_of y k \<noteq> None"
begin

lemma status_path:
  assumes "step\<^sup>*\<^sup>* x y" and "status_of x k = Some a"
  shows "\<exists>b. status_of y k = Some b \<and> allowed\<^sup>*\<^sup>* a b"
  using assms
proof (induction rule: rtranclp_induct)
  case base
  then show ?case by auto
next
  case (step y z)
  then obtain b where b: "status_of y k = Some b" "allowed\<^sup>*\<^sup>* a b" by auto
  with step.hyps(2) step_status [of y z k b] step_retains [of y z k b]
  show ?case by (auto split: option.splits intro: rtranclp.rtrancl_into_rtrancl)
qed

end

subsection \<open>Sorting by a key\<close>

text \<open>\<open>sorted(rows, key=f, reverse=True)\<close> keeps equal rows in their order: reverse, sort, reverse.\<close>

definition sort_key_desc :: "('a \<Rightarrow> 'b::linorder) \<Rightarrow> 'a list \<Rightarrow> 'a list" where
  "sort_key_desc f xs = rev (sort_key f (rev xs))"

lemma set_sort_key_desc [simp]: "set (sort_key_desc f xs) = set xs"
  by (simp add: sort_key_desc_def)

lemma length_sort_key_desc [simp]: "length (sort_key_desc f xs) = length xs"
  by (simp add: sort_key_desc_def)

lemma sorted_sort_key_desc: "sorted_wrt (\<ge>) (map f (sort_key_desc f xs))"
  by (simp add: sort_key_desc_def rev_map [symmetric] sorted_wrt_rev)

text \<open>\<open>next((x for x in xs if P x), None)\<close> is \<open>find\<close>; \<open>max(rows, key=f, default=None)\<close>:\<close>

fun max_by :: "('a \<Rightarrow> 'b::linorder) \<Rightarrow> 'a list \<Rightarrow> 'a option" where
  "max_by f [] = None"
| "max_by f (x # xs) = (case max_by f xs of
      None \<Rightarrow> Some x
    | Some y \<Rightarrow> if f x \<ge> f y then Some x else Some y)"

lemma max_by_None_iff [simp]: "max_by f xs = None \<longleftrightarrow> xs = []"
  by (cases xs) (auto split: option.splits)

lemma max_by_Some: "max_by f xs = Some m \<Longrightarrow> m \<in> set xs \<and> (\<forall>x \<in> set xs. f x \<le> f m)"
proof (induction xs arbitrary: m)
  case Nil
  then show ?case by simp
next
  case (Cons x xs)
  then show ?case
    by (cases "max_by f xs") (fastforce split: if_splits)+
qed

subsection \<open>Slices and keyset pages\<close>

text \<open>The slice \<open>xs[:n]\<close>; a negative bound counts from the end.\<close>

definition py_take :: "int \<Rightarrow> 'a list \<Rightarrow> 'a list" where
  "py_take n xs = (if n < 0 then take (length xs - nat (- n)) xs else take (nat n) xs)"

lemma py_take_nonneg [simp]: "0 \<le> n \<Longrightarrow> py_take n xs = take (nat n) xs"
  by (simp add: py_take_def)

lemma set_py_take: "x \<in> set (py_take n xs) \<Longrightarrow> x \<in> set xs"
  by (auto simp: py_take_def dest: in_set_takeD split: if_splits)

lemma filter_sort_key_desc: "filter P (sort_key_desc f xs) = sort_key_desc f (filter P xs)"
  by (metis sort_key_desc_def filter_sort rev_filter)

lemma sort_key_desc_strict:
  assumes "inj_on f (set xs)" and "distinct xs"
  shows "sorted_wrt (>) (map f (sort_key_desc f xs))"
proof -
  have "distinct (map f (sort_key f (rev xs)))"
    using assms by (simp add: distinct_map)
  then have "sorted_wrt (<) (map f (sort_key f (rev xs)))"
    by (simp add: strict_sorted_iff)
  then show ?thesis
    by (simp add: sort_key_desc_def rev_map [symmetric] sorted_wrt_rev)
qed

lemma filter_below_nth:
  assumes "sorted_wrt (>) (map f xs)" and "i < length xs"
  shows "filter (\<lambda>x. (f x :: 'b::linorder) < f (xs ! i)) xs = drop (Suc i) xs"
proof -
  have lt: "f (xs ! k) < f (xs ! j)" if "j < k" "k < length xs" for j k
    using assms(1) that by (simp add: sorted_wrt_iff_nth_less)
  have "filter (\<lambda>x. f x < f (xs ! i)) (take (Suc i) xs) = []"
  proof (rule filter_False, rule ballI)
    fix x assume "x \<in> set (take (Suc i) xs)"
    then obtain j where "j < Suc i" "x = xs ! j"
      by (auto simp: in_set_conv_nth)
    then show "\<not> f x < f (xs ! i)"
      using lt [of j i] assms(2) by (cases "j = i") auto
  qed
  moreover have "filter (\<lambda>x. f x < f (xs ! i)) (drop (Suc i) xs) = drop (Suc i) xs"
  proof (rule filter_True, rule ballI)
    fix x assume "x \<in> set (drop (Suc i) xs)"
    then obtain k where "k < length xs - Suc i" "x = xs ! (Suc i + k)"
      by (auto simp: in_set_conv_nth)
    then show "f x < f (xs ! i)" using lt [of i "Suc i + k"] by simp
  qed
  ultimately show ?thesis
    by (metis append_Nil append_take_drop_id filter_append)
qed

lemma filter_above_nth:
  assumes "sorted_wrt (<) (map f xs)" and "i < length xs"
  shows "filter (\<lambda>x. f (xs ! i) < (f x :: 'b::linorder)) xs = drop (Suc i) xs"
proof -
  have "sorted_wrt (>) (map f (rev xs))"
    using assms(1) by (simp add: sorted_wrt_rev rev_map [symmetric])
  then have lt: "f (xs ! j) < f (xs ! k)" if "j < k" "k < length xs" for j k
    using assms(1) that by (simp add: sorted_wrt_iff_nth_less)
  have "filter (\<lambda>x. f (xs ! i) < f x) (take (Suc i) xs) = []"
  proof (rule filter_False, rule ballI)
    fix x assume "x \<in> set (take (Suc i) xs)"
    then obtain j where "j < Suc i" "x = xs ! j" by (auto simp: in_set_conv_nth)
    then show "\<not> f (xs ! i) < f x" using lt [of j i] assms(2) by (cases "j = i") auto
  qed
  moreover have "filter (\<lambda>x. f (xs ! i) < f x) (drop (Suc i) xs) = drop (Suc i) xs"
  proof (rule filter_True, rule ballI)
    fix x assume "x \<in> set (drop (Suc i) xs)"
    then obtain k where "k < length xs - Suc i" "x = xs ! (Suc i + k)"
      by (auto simp: in_set_conv_nth)
    then show "f (xs ! i) < f x" using lt [of i "Suc i + k"] by simp
  qed
  ultimately show ?thesis by (metis append_Nil append_take_drop_id filter_append)
qed

text \<open>
  Keyset pagination, newest first: asking again for the rows strictly below the last row of a page
  continues the full listing exactly where the page ended.
\<close>

lemma keyset_next_page:
  assumes "inj_on f (set xs)" and "distinct xs" and "i < length xs"
  shows "sort_key_desc f (filter (\<lambda>x. f x < f (sort_key_desc f xs ! i)) xs)
       = drop (Suc i) (sort_key_desc f xs)"
  using filter_below_nth [OF sort_key_desc_strict [OF assms(1,2)], of i] assms(3)
  by (simp add: filter_sort_key_desc)

lemma keyed_distinct_vals:
  assumes "keyed key d"
  shows "distinct (dvals d)" and "inj_on key (set (dvals d))"
proof -
  have "map key (dvals d) = map fst d"
    using assms by (auto simp: keyed_def)
  then have "distinct (map key (dvals d))"
    using assms by (simp only: keyed_distinct)
  then show "distinct (dvals d)" and "inj_on key (set (dvals d))"
    by (simp_all only: distinct_map)
qed

subsection \<open>Uniqueness over a table\<close>

text \<open>
  ``At most one row with property \<open>P\<close> per value of \<open>k\<close>'' is injectivity of \<open>k\<close> on those rows. It
  survives storing a row that clashes with none, and replacing a row without gaining the property.
\<close>

lemma inj_on_insert_row:
  assumes "inj_on k {x \<in> A. P x}" and "P r \<Longrightarrow> \<forall>c \<in> A. P c \<longrightarrow> k c \<noteq> k r"
  shows "inj_on k {x \<in> insert r {w \<in> A. Q w}. P x}"
  using assms by (auto simp: inj_on_def)

lemma inj_on_replace_row:
  assumes "inj_on k {x \<in> A. P x}" and "a \<in> A" and "\<forall>c \<in> A. Q c \<longrightarrow> c \<noteq> a"
    and "k b = k a" and "P b \<Longrightarrow> P a"
  shows "inj_on k {x \<in> insert b {w \<in> A. Q w}. P x}"
  using assms by (auto simp: inj_on_def)

lemma filter_inj_on:
  assumes "distinct xs" and "inj_on k {x \<in> set xs. P x}"
  shows "length (filter (\<lambda>x. k x = v \<and> P x) xs) \<le> 1"
proof -
  have "card (set (filter (\<lambda>x. k x = v \<and> P x) xs)) \<le> 1"
    using assms(2) by (auto simp: card_le_Suc0_iff_eq inj_on_def)
  then show ?thesis
    using assms(1) by (simp only: distinct_card distinct_filter)
qed

lemma max_by_append1: "max_by f (xs @ [x]) = (case max_by f xs of
    None \<Rightarrow> Some x | Some y \<Rightarrow> if f x > f y then Some x else Some y)"
  by (induction xs) (auto split: option.splits)

end
