(* ===== verification/Py_Strings.thy ===== *)
theory Py_Strings
  imports Main
begin

text \<open>
  The string methods of Python that the modelled code calls: whitespace and separator splitting,
  joining, stripping, prefixes and suffixes, \<open>posixpath.normpath\<close>, and the texts of
  UUIDs and integers. A string is a
  list of characters with code points below 256; the whitespace set is that of \<open>str.isspace\<close>
  restricted to them.
\<close>

subsection \<open>Splitting on whitespace and joining\<close>

definition py_space :: "char \<Rightarrow> bool" where
  "py_space c \<longleftrightarrow> (let n = of_char c :: nat in
     (9 \<le> n \<and> n \<le> 13) \<or> (28 \<le> n \<and> n \<le> 32) \<or> n = 133 \<or> n = 160)"

fun py_words :: "string \<Rightarrow> string \<Rightarrow> string list" where
  "py_words w [] = (if w = [] then [] else [w])"
| "py_words w (c # cs) =
     (if py_space c then (if w = [] then py_words [] cs else w # py_words [] cs)
      else py_words (w @ [c]) cs)"

text \<open>\<open>text.split()\<close>\<close>

definition py_split :: "string \<Rightarrow> string list" where
  "py_split s = py_words [] s"

fun py_join :: "string \<Rightarrow> string list \<Rightarrow> string" where
  "py_join sep [] = []"
| "py_join sep [w] = w"
| "py_join sep (w # v # ws) = w @ sep @ py_join sep (v # ws)"

text \<open>\<open>text.strip()\<close>\<close>

definition py_strip :: "string \<Rightarrow> string" where
  "py_strip s = rev (dropWhile py_space (rev (dropWhile py_space s)))"

definition starts_with :: "string \<Rightarrow> string \<Rightarrow> bool" where
  "starts_with s p \<longleftrightarrow> take (length p) s = p"

definition ends_with :: "string \<Rightarrow> string \<Rightarrow> bool" where
  "ends_with s p \<longleftrightarrow> starts_with (rev s) (rev p)"

lemma starts_with_iff: "starts_with s p \<longleftrightarrow> (\<exists>t. s = p @ t)"
  by (metis append_eq_conv_conj append_take_drop_id starts_with_def)

lemma starts_with_append [simp]: "starts_with (p @ t) p"
  by (simp add: starts_with_def)

lemma py_space_blank [simp]: "py_space CHR '' ''"
  by (simp add: py_space_def)

definition word_ok :: "string \<Rightarrow> bool" where
  "word_ok w \<longleftrightarrow> w \<noteq> [] \<and> (\<forall>c \<in> set w. \<not> py_space c)"

lemma py_words_ok: "\<forall>c \<in> set w. \<not> py_space c \<Longrightarrow> v \<in> set (py_words w s) \<Longrightarrow> word_ok v"
proof (induction s arbitrary: w)
  case Nil
  then show ?case by (simp add: word_ok_def split: if_splits)
next
  case (Cons c s)
  show ?case
  proof (cases "py_space c")
    case True
    with Cons.prems consider "v \<in> set (py_words [] s)" | "v = w" "w \<noteq> []"
      by (auto split: if_splits)
    then show ?thesis
      using Cons.IH [of "[]"] Cons.prems by cases (simp_all add: word_ok_def)
  next
    case False
    with Cons.prems have "v \<in> set (py_words (w @ [c]) s)" and "\<forall>c \<in> set (w @ [c]). \<not> py_space c"
      by simp_all
    then show ?thesis using Cons.IH by blast
  qed
qed

lemma py_split_ok: "v \<in> set (py_split s) \<Longrightarrow> word_ok v"
  using py_words_ok [of "[]" v s] by (simp add: py_split_def)

lemma py_words_no_space:
  "\<forall>c \<in> set v. \<not> py_space c \<Longrightarrow> py_words w (v @ s) = py_words (w @ v) s"
  by (induction v arbitrary: w) auto

lemma py_words_word: "word_ok v \<Longrightarrow> py_words [] v = [v]"
  using py_words_no_space [of v "[]" "[]"] by (simp add: word_ok_def)

lemma py_split_join: "\<forall>w \<in> set ws. word_ok w \<Longrightarrow> py_split (py_join '' '' ws) = ws"
proof (induction ws rule: induct_list012)
  case 1
  then show ?case by (simp add: py_split_def)
next
  case (2 w)
  then show ?case by (simp add: py_split_def py_words_word)
next
  case (3 w v ws)
  then have w: "word_ok w" and ih: "py_split (py_join '' '' (v # ws)) = v # ws" by auto
  then show ?case
    by (simp add: py_split_def py_words_no_space word_ok_def)
qed

text \<open>Collapsing whitespace (\<open>" ".join(text.split())\<close>) is idempotent.\<close>

definition collapse :: "string \<Rightarrow> string" where
  "collapse s = py_join '' '' (py_split s)"

lemma collapse_idem: "collapse (collapse s) = collapse s"
  using py_split_ok by (simp add: collapse_def py_split_join)

lemma collapse_empty_iff: "collapse s = [] \<longleftrightarrow> py_split s = []"
proof
  assume "collapse s = []"
  then show "py_split s = []"
    using py_split_ok [of _ s]
    by (cases "(''x'', py_split s)" rule: py_join.cases) (auto simp: collapse_def word_ok_def)
qed (simp add: collapse_def)

subsection \<open>Splitting on a separator character\<close>

fun split_on :: "char \<Rightarrow> string \<Rightarrow> string list" where
  "split_on d [] = [[]]"
| "split_on d (c # cs) =
     (if c = d then [] # split_on d cs
      else (case split_on d cs of [] \<Rightarrow> [[c]] | w # ws \<Rightarrow> (c # w) # ws))"

lemma split_on_nonempty [simp]: "split_on d s \<noteq> []"
  by (induction s) (auto split: list.splits)

lemma split_on_no_sep: "w \<in> set (split_on d s) \<Longrightarrow> d \<notin> set w"
  by (induction s arbitrary: w) (auto split: list.splits if_splits)

lemma split_on_plain: "d \<notin> set w \<Longrightarrow> split_on d w = [w]"
  by (induction w) auto

lemma split_on_append: "d \<notin> set w \<Longrightarrow> split_on d (w @ d # s) = w # split_on d s"
  by (induction w) auto

lemma split_on_join:
  "ws \<noteq> [] \<Longrightarrow> \<forall>w \<in> set ws. d \<notin> set w \<Longrightarrow> split_on d (py_join [d] ws) = ws"
proof (induction ws rule: induct_list012)
  case (3 w v ws)
  then show ?case by (simp add: split_on_append)
qed (simp_all add: split_on_plain)

text \<open>\<open>s.replace(a, b)\<close> for single characters.\<close>

definition replace_char :: "char \<Rightarrow> char \<Rightarrow> string \<Rightarrow> string" where
  "replace_char a b s = map (\<lambda>c. if c = a then b else c) s"

subsection \<open>POSIX path normalisation\<close>

abbreviation slash :: char where
  "slash \<equiv> CHR ''/''"

text \<open>The component loop of \<open>posixpath.normpath\<close>; \<open>rooted\<close> says that the path starts with a slash.\<close>

fun norm_comps :: "bool \<Rightarrow> string list \<Rightarrow> string list \<Rightarrow> string list" where
  "norm_comps rooted acc [] = acc"
| "norm_comps rooted acc (c # cs) =
     (if c = [] \<or> c = ''.'' then norm_comps rooted acc cs
      else if c \<noteq> ''..'' \<or> (\<not> rooted \<and> acc = []) \<or> (acc \<noteq> [] \<and> last acc = ''..'')
      then norm_comps rooted (acc @ [c]) cs
      else if acc \<noteq> [] then norm_comps rooted (butlast acc) cs
      else norm_comps rooted acc cs)"

definition initial_slashes :: "string \<Rightarrow> nat" where
  "initial_slashes p =
     (if starts_with p ''/'' then
        (if starts_with p ''//'' \<and> \<not> starts_with p ''///'' then 2 else 1)
      else 0)"

definition normpath :: "string \<Rightarrow> string" where
  "normpath p =
     (if p = [] then ''.''
      else (let n = initial_slashes p;
                q = replicate n slash @ py_join ''/'' (norm_comps (n > 0) [] (split_on slash p))
            in if q = [] then ''.'' else q))"

text \<open>On a rooted path the loop keeps only ordinary names: no empty, dot or dot-dot component.\<close>

definition plain_comp :: "string \<Rightarrow> bool" where
  "plain_comp c \<longleftrightarrow> c \<noteq> [] \<and> c \<noteq> ''.'' \<and> c \<noteq> ''..'' \<and> slash \<notin> set c"

lemma norm_comps_rooted:
  assumes "\<forall>c \<in> set acc. plain_comp c" and "\<forall>c \<in> set cs. slash \<notin> set c"
  shows "\<forall>c \<in> set (norm_comps True acc cs). plain_comp c"
  using assms
proof (induction cs arbitrary: acc)
  case Nil
  then show ?case by simp
next
  case (Cons c cs)
  have l: "acc = [] \<or> last acc \<noteq> ''..''"
    using Cons.prems(1) last_in_set [of acc] by (force simp: plain_comp_def)
  have acc: "\<forall>c \<in> set (butlast acc). plain_comp c"
    using Cons.prems(1) by (meson in_set_butlastD)
  consider "c = [] \<or> c = ''.''" | "c = ''..''" | "plain_comp c"
    using Cons.prems(2) by (auto simp: plain_comp_def)
  then show ?case
  proof cases
    case 3
    then have eq: "norm_comps True acc (c # cs) = norm_comps True (acc @ [c]) cs"
      by (simp add: plain_comp_def)
    from 3 Cons.prems show ?thesis
      unfolding eq by (intro Cons.IH) auto
  next
    case 2
    have eq: "norm_comps True acc (''..'' # cs) = norm_comps True (butlast acc) cs"
      using l by auto
    from acc Cons.prems(2) show ?thesis
      unfolding 2 eq by (intro Cons.IH) auto
  qed (use Cons.prems Cons.IH [of acc] in simp)
qed

lemma norm_comps_plain:
  "\<forall>c \<in> set cs. plain_comp c \<Longrightarrow> norm_comps r acc cs = acc @ cs"
proof (induction cs arbitrary: acc)
  case (Cons c cs)
  then have eq: "norm_comps r acc (c # cs) = norm_comps r (acc @ [c]) cs"
    by (simp add: plain_comp_def)
  show ?case
    unfolding eq using Cons.prems by (subst Cons.IH) auto
qed simp

subsection \<open>The text of a UUID\<close>

definition hex_digit :: "nat \<Rightarrow> char" where
  "hex_digit n = ''0123456789abcdef'' ! n"

fun hex_digits :: "nat \<Rightarrow> nat \<Rightarrow> string" where
  "hex_digits 0 n = []"
| "hex_digits (Suc k) n = hex_digits k (n div 16) @ [hex_digit (n mod 16)]"

definition uuid_str :: "nat \<Rightarrow> string" where
  "uuid_str n = (let h = hex_digits 32 n in
     take 8 h @ ''-'' @ take 4 (drop 8 h) @ ''-'' @ take 4 (drop 12 h) @ ''-''
     @ take 4 (drop 16 h) @ ''-'' @ drop 20 h)"

subsection \<open>The decimal text of an integer\<close>

fun str_nat :: "nat \<Rightarrow> string" where
  "str_nat n = (if n < 10 then [hex_digit n] else str_nat (n div 10) @ [hex_digit (n mod 10)])"

declare str_nat.simps [simp del]

definition str_int :: "int \<Rightarrow> string" where
  "str_int k = (if k < 0 then CHR ''-'' # str_nat (nat (- k)) else str_nat (nat k))"

end
