(* ===== verification/Sessions.thy ===== *)
theory Sessions
  imports Prelude Py_Strings
begin

text \<open>
  Conversation sessions: the records and title rule of \<open>domain/sessions.py\<close> and every operation of
  \<open>InMemorySessionRepository\<close> (\<open>adapters/persistence/memory.py\<close>). The state is the repository's
  tables: sessions, the sessions known to be chats, where each title came from, and the pending
  title requests. An operation returns its value with the new tables, or the error it raises.
\<close>

subsection \<open>Session values\<close>

datatype session_status = Session_ACTIVE | Session_CLOSED

datatype title_source = Title_FIRST_MESSAGE | Title_GENERATED | Title_FIXED

definition REGENERABLE_TITLE_SOURCES :: "title_source set" where
  "REGENERABLE_TITLE_SOURCES = {Title_FIRST_MESSAGE, Title_GENERATED}"

record title_request =
  tr_session_id :: uuid
  tr_title :: string
  tr_title_source :: title_source
  tr_requested_at :: instant

record session =
  s_id :: uuid
  s_tenant_id :: string
  s_principal_id :: string
  s_agent_id :: uuid
  s_agent_version :: string
  s_status :: session_status
  s_title :: "string option"
  s_metadata :: document
  s_created_at :: instant
  s_updated_at :: instant

record session_cursor =
  sc_updated_at :: instant
  sc_id :: uuid

definition SESSION_TITLE_MAX_LENGTH :: nat where
  "SESSION_TITLE_MAX_LENGTH = 64"

definition DEFAULT_PROJECT_SCOPE :: string where
  "DEFAULT_PROJECT_SCOPE = ''general''"

definition PEOPLE_OPERATIONAL_SESSION_PURPOSES :: "string list" where
  "PEOPLE_OPERATIONAL_SESSION_PURPOSES = [''people-management'', ''people-import'']"

definition project_scope :: "document \<Rightarrow> string" where
  "project_scope metadata = (case dget metadata ''project_scope'' of
      Some (JStr scope) \<Rightarrow> if py_strip scope \<noteq> [] then py_strip scope else DEFAULT_PROJECT_SCOPE
    | _ \<Rightarrow> DEFAULT_PROJECT_SCOPE)"

definition conversation_title :: "string \<Rightarrow> string option" where
  "conversation_title text =
     (let collapsed = py_join '' '' (py_split text)
      in if collapsed = [] then None else Some (take SESSION_TITLE_MAX_LENGTH collapsed))"

subsection \<open>The repository\<close>

record session_repo =
  sr_sessions :: "(uuid, session) dict"
  sr_chat_sessions :: "uuid set"
  sr_title_sources :: "(uuid, title_source) dict"
  sr_title_requests :: "(uuid, instant) dict"

definition empty_session_repo :: session_repo where
  "empty_session_repo = \<lparr> sr_sessions = [], sr_chat_sessions = {}, sr_title_sources = [],
     sr_title_requests = [] \<rparr>"

definition session_owner :: "session \<Rightarrow> string \<times> string" where
  "session_owner s = (s_tenant_id s, s_principal_id s)"

abbreviation session_missing :: error where
  "session_missing \<equiv> NotFoundError ''session not found''"

definition session_create :: "session_repo \<Rightarrow> session \<Rightarrow> session_repo res" where
  "session_create R s =
     (if dhas (sr_sessions R) (s_id s) then Inl (ConflictError ''session already exists'' None)
      else Inr (R\<lparr> sr_sessions := dset (s_id s) s (sr_sessions R),
                   sr_title_sources := (if s_title s \<noteq> None
                     then dset (s_id s) Title_FIXED (sr_title_sources R)
                     else sr_title_sources R) \<rparr>))"

definition session_owned :: "session_repo \<Rightarrow> uuid \<Rightarrow> principal \<Rightarrow> session option" where
  "session_owned R i p = (case dget (sr_sessions R) i of
      None \<Rightarrow> None
    | Some s \<Rightarrow> if s_tenant_id s \<noteq> tenant_id p \<or> s_principal_id s \<noteq> principal_id p then None else Some s)"

definition session_get :: "session_repo \<Rightarrow> uuid \<Rightarrow> principal \<Rightarrow> session res" where
  "session_get R i p =
     rbind (dlookup session_missing (sr_sessions R) i) (\<lambda>s.
       if s_tenant_id s \<noteq> tenant_id p \<or> s_principal_id s \<noteq> principal_id p then Inl session_missing
       else Inr s)"

definition bind_browser_profile ::
    "session_repo \<Rightarrow> uuid \<Rightarrow> principal \<Rightarrow> uuid \<Rightarrow> (session \<times> session_repo) res" where
  "bind_browser_profile R i p profile = (case session_owned R i p of
      None \<Rightarrow> Inl session_missing
    | Some s \<Rightarrow>
        let s' = s\<lparr> s_metadata := dset ''browser_profile_id'' (JStr (uuid_str profile)) (s_metadata s) \<rparr>
        in Inr (s', R\<lparr> sr_sessions := dset i s' (sr_sessions R) \<rparr>))"

definition set_title_if_missing ::
    "session_repo \<Rightarrow> uuid \<Rightarrow> principal \<Rightarrow> string \<Rightarrow> (session \<times> session_repo) res" where
  "set_title_if_missing R i p title = (case conversation_title title of
      None \<Rightarrow> Inl (ValueError ''session title must contain text'')
    | Some normalized \<Rightarrow>
        rbind (dlookup session_missing (sr_sessions R) i) (\<lambda>s.
          if s_tenant_id s \<noteq> tenant_id p \<or> s_principal_id s \<noteq> principal_id p
          then Inl session_missing
          else if s_title s = None then
            (let s' = s\<lparr> s_title := Some normalized \<rparr>
             in Inr (s', R\<lparr> sr_sessions := dset i s' (sr_sessions R),
                            sr_title_sources := dset i Title_FIRST_MESSAGE (sr_title_sources R) \<rparr>))
          else Inr (s, R)))"

definition regenerable :: "session_repo \<Rightarrow> uuid \<Rightarrow> bool" where
  "regenerable R i \<longleftrightarrow> (case dget (sr_title_sources R) i of
      None \<Rightarrow> False | Some src \<Rightarrow> src \<in> REGENERABLE_TITLE_SOURCES)"

definition request_title ::
    "session_repo \<Rightarrow> uuid \<Rightarrow> principal \<Rightarrow> instant \<Rightarrow> bool \<times> session_repo" where
  "request_title R i p requested_at = (case session_owned R i p of
      None \<Rightarrow> (False, R)
    | Some s \<Rightarrow>
        if s_title s = None \<or> \<not> regenerable R i then (False, R)
        else (True, R\<lparr> sr_title_requests := dset i requested_at (sr_title_requests R) \<rparr>))"

definition pending_title_requests ::
    "session_repo \<Rightarrow> principal \<Rightarrow> int \<Rightarrow> title_request list" where
  "pending_title_requests R p limit =
     py_take limit (sort_key (\<lambda>q. (tr_requested_at q, tr_session_id q))
       (concat (map (\<lambda>(i, requested_at).
          case session_owned R i p of
            None \<Rightarrow> []
          | Some s \<Rightarrow> (case (s_title s, dget (sr_title_sources R) i) of
                (Some t, Some src) \<Rightarrow>
                  if src \<in> REGENERABLE_TITLE_SOURCES
                  then [\<lparr> tr_session_id = i, tr_title = t, tr_title_source = src,
                          tr_requested_at = requested_at \<rparr>]
                  else []
              | _ \<Rightarrow> []))
          (sr_title_requests R))))"

definition write_generated_title ::
    "session_repo \<Rightarrow> uuid \<Rightarrow> principal \<Rightarrow> string \<Rightarrow> string \<Rightarrow> (bool \<times> session_repo) res" where
  "write_generated_title R i p expected_title title = (case conversation_title title of
      None \<Rightarrow> Inl (ValueError ''session title must contain text'')
    | Some normalized \<Rightarrow> (case session_owned R i p of
          None \<Rightarrow> Inr (False, R)
        | Some s \<Rightarrow>
            if s_title s \<noteq> Some expected_title \<or> \<not> regenerable R i then Inr (False, R)
            else Inr (True, R\<lparr> sr_sessions := dset i (s\<lparr> s_title := Some normalized \<rparr>) (sr_sessions R),
                               sr_title_sources := dset i Title_GENERATED (sr_title_sources R) \<rparr>)))"

definition clear_title_request ::
    "session_repo \<Rightarrow> uuid \<Rightarrow> principal \<Rightarrow> instant \<Rightarrow> bool \<times> session_repo" where
  "clear_title_request R i p requested_at =
     (if session_owned R i p = None \<or> dget (sr_title_requests R) i \<noteq> Some requested_at then (False, R)
      else (True, R\<lparr> sr_title_requests := ddel i (sr_title_requests R) \<rparr>))"

definition operational_session :: "session_repo \<Rightarrow> session \<Rightarrow> bool" where
  "operational_session R s \<longleftrightarrow>
     \<not> (dget (s_metadata s) ''email_operational'' \<noteq> Some (JBool True)
        \<and> dget (s_metadata s) ''cockpit_refresh'' \<noteq> Some (JBool True)
        \<and> (\<forall>w \<in> set PEOPLE_OPERATIONAL_SESSION_PURPOSES.
              dget (s_metadata s) ''purpose'' \<noteq> Some (JStr w))
        \<and> (\<not> dhas (s_metadata s) ''email_thread_id'' \<or> s_id s \<in> sr_chat_sessions R))"

definition session_list ::
    "session_repo \<Rightarrow> principal \<Rightarrow> int \<Rightarrow> session_cursor option \<Rightarrow> bool \<Rightarrow> session list" where
  "session_list R p limit cursor exclude_operational =
     py_take limit (sort_key_desc (\<lambda>s. (s_updated_at s, s_id s))
       (filter (\<lambda>s.
           s_tenant_id s = tenant_id p \<and> s_principal_id s = principal_id p
           \<and> (\<not> exclude_operational \<or> \<not> operational_session R s)
           \<and> (case cursor of
                None \<Rightarrow> True
              | Some c \<Rightarrow> s_updated_at s < sc_updated_at c
                  \<or> (s_updated_at s = sc_updated_at c \<and> s_id s < sc_id c)))
         (dvals (sr_sessions R))))"

definition session_touch :: "session_repo \<Rightarrow> uuid \<Rightarrow> instant \<Rightarrow> session_repo res" where
  "session_touch R i touched_at =
     rbind (dlookup session_missing (sr_sessions R) i) (\<lambda>s.
       Inr (R\<lparr> sr_sessions :=
         dset i (s\<lparr> s_updated_at := max (s_updated_at s) touched_at \<rparr>) (sr_sessions R) \<rparr>))"

definition session_close ::
    "session_repo \<Rightarrow> uuid \<Rightarrow> principal \<Rightarrow> instant \<Rightarrow> (session \<times> bool \<times> session_repo) res" where
  "session_close R i p closed_at =
     rbind (dlookup session_missing (sr_sessions R) i) (\<lambda>s.
       if s_tenant_id s \<noteq> tenant_id p \<or> s_principal_id s \<noteq> principal_id p then Inl session_missing
       else if s_status s \<noteq> Session_ACTIVE then Inr (s, False, R)
       else (let s' = s\<lparr> s_status := Session_CLOSED, s_updated_at := closed_at \<rparr>
             in Inr (s', True, R\<lparr> sr_sessions := dset i s' (sr_sessions R) \<rparr>)))"

subsection \<open>Owner scope\<close>

lemma session_owned_eq: "session_owned R i p = (case dget (sr_sessions R) i of
    None \<Rightarrow> None | Some s \<Rightarrow> if owned_by (session_owner s) p then Some s else None)"
  by (auto simp: session_owned_def session_owner_def owned_by_def split: option.splits)

interpretation session_scope: owner_scoped
  "\<lambda>R i. dget (sr_sessions R) i" session_owner "\<lambda>_. session_missing" session_get
  by unfold_locales
    (auto simp: session_get_def session_owner_def owned_by_def dlookup_def split: option.splits)

lemma session_get_Inl: "session_get R i p = Inl e \<Longrightarrow> e = session_missing"
  by (auto simp: session_scope.getter_eq split: option.splits if_splits)

lemma session_owned_iff_get: "session_owned R i p = Some s \<longleftrightarrow> session_get R i p = Inr s"
  by (auto simp: session_owned_eq session_scope.getter_eq split: option.splits)

subsection \<open>Steps of the repository\<close>

inductive session_step :: "session_repo \<Rightarrow> session_repo \<Rightarrow> bool" where
  step_create: "session_create R s = Inr R' \<Longrightarrow> session_step R R'"
| step_bind: "bind_browser_profile R i p f = Inr (s, R') \<Longrightarrow> session_step R R'"
| step_set_title: "set_title_if_missing R i p t = Inr (s, R') \<Longrightarrow> session_step R R'"
| step_request: "request_title R i p at_time = (b, R') \<Longrightarrow> session_step R R'"
| step_write: "write_generated_title R i p e t = Inr (b, R') \<Longrightarrow> session_step R R'"
| step_clear: "clear_title_request R i p at_time = (b, R') \<Longrightarrow> session_step R R'"
| step_touch: "session_touch R i at_time = Inr R' \<Longrightarrow> session_step R R'"
| step_close: "session_close R i p at_time = Inr (s, b, R') \<Longrightarrow> session_step R R'"

text \<open>
  What every operation does to the tables: it creates one absent session, or rewrites one stored
  session without touching its identity, owner, agent or creation time, or leaves the sessions
  alone. This is the only fact about the operations that the proofs below use.
\<close>

definition same_identity :: "session \<Rightarrow> session \<Rightarrow> bool" where
  "same_identity a b \<longleftrightarrow> s_id a = s_id b \<and> session_owner a = session_owner b
     \<and> s_agent_id a = s_agent_id b \<and> s_agent_version a = s_agent_version b
     \<and> s_created_at a = s_created_at b"

definition status_kept_or_closed :: "session \<Rightarrow> session \<Rightarrow> bool" where
  "status_kept_or_closed a b \<longleftrightarrow> s_status b = s_status a
     \<or> (s_status a = Session_ACTIVE \<and> s_status b = Session_CLOSED)"

inductive title_change ::
    "session_repo \<Rightarrow> session_repo \<Rightarrow> uuid \<Rightarrow> session \<Rightarrow> session \<Rightarrow> bool" where
  title_kept: "s_title b = s_title a \<Longrightarrow> sr_title_sources R' = sr_title_sources R \<Longrightarrow>
    title_change R R' i a b"
| title_first: "s_title a = None \<Longrightarrow> s_title b = Some t \<Longrightarrow>
    sr_title_sources R' = dset i Title_FIRST_MESSAGE (sr_title_sources R) \<Longrightarrow> title_change R R' i a b"
| title_generated: "regenerable R i \<Longrightarrow> s_title a \<noteq> None \<Longrightarrow> s_title b = Some t \<Longrightarrow>
    sr_title_sources R' = dset i Title_GENERATED (sr_title_sources R) \<Longrightarrow> title_change R R' i a b"

inductive session_change :: "session_repo \<Rightarrow> session_repo \<Rightarrow> bool" where
  added: "dget (sr_sessions R) (s_id s) = None \<Longrightarrow>
    sr_sessions R' = dset (s_id s) s (sr_sessions R) \<Longrightarrow>
    sr_title_sources R' = (if s_title s = None then sr_title_sources R
       else dset (s_id s) Title_FIXED (sr_title_sources R)) \<Longrightarrow> session_change R R'"
| rewritten: "dget (sr_sessions R) i = Some a \<Longrightarrow>
    sr_sessions R' = dset i b (sr_sessions R) \<Longrightarrow> same_identity a b \<Longrightarrow>
    status_kept_or_closed a b \<Longrightarrow> title_change R R' i a b \<Longrightarrow> session_change R R'"
| untouched: "sr_sessions R' = sr_sessions R \<Longrightarrow> sr_title_sources R' = sr_title_sources R \<Longrightarrow>
    session_change R R'"

lemmas session_shape_simps =
  same_identity_def session_owner_def status_kept_or_closed_def title_change.simps

lemma session_step_shape:
  assumes "session_step R R'"
  shows "session_change R R'"
  using assms
proof cases
  case (step_create s)
  then show ?thesis
    by (intro added [where s = s]) (auto simp: session_create_def dhas_iff split: if_splits)
next
  case (step_bind i p f s)
  then obtain a where "dget (sr_sessions R) i = Some a"
    by (auto simp: bind_browser_profile_def session_owned_def split: option.splits)
  with step_bind show ?thesis
    by (intro rewritten [where i = i and a = a and b = s])
      (auto simp: bind_browser_profile_def session_owned_def session_shape_simps Let_def
        split: option.splits if_splits)
next
  case (step_set_title i p t s)
  then obtain a where a: "dget (sr_sessions R) i = Some a"
    by (auto simp: set_title_if_missing_def rbind_Inr_iff split: option.splits)
  show ?thesis
  proof (cases "s_title a")
    case None
    with step_set_title a show ?thesis
      by (intro rewritten [where i = i and a = a and b = s])
        (auto simp: set_title_if_missing_def rbind_Inr_iff session_shape_simps Let_def
          split: option.splits if_splits)
  next
    case (Some u)
    with step_set_title a show ?thesis
      by (intro untouched)
        (auto simp: set_title_if_missing_def rbind_Inr_iff split: option.splits if_splits)
  qed
next
  case (step_request i p t b)
  then show ?thesis
    by (intro untouched) (auto simp: request_title_def split: option.splits if_splits)
next
  case (step_write i p e t b)
  show ?thesis
  proof (cases b)
    case True
    with step_write obtain a where "dget (sr_sessions R) i = Some a"
      by (auto simp: write_generated_title_def session_owned_def split: option.splits)
    with step_write True show ?thesis
      by (intro rewritten [where i = i and a = a and b = "the (dget (sr_sessions R') i)"])
        (auto simp: write_generated_title_def session_owned_def session_shape_simps
          split: option.splits if_splits)
  next
    case False
    with step_write show ?thesis
      by (intro untouched)
        (auto simp: write_generated_title_def split: option.splits if_splits)
  qed
next
  case (step_clear i p t b)
  then show ?thesis
    by (intro untouched) (auto simp: clear_title_request_def split: if_splits)
next
  case (step_touch i t)
  then obtain a where "dget (sr_sessions R) i = Some a"
    by (auto simp: session_touch_def rbind_Inr_iff)
  with step_touch show ?thesis
    by (intro rewritten [where i = i and a = a and b = "the (dget (sr_sessions R') i)"])
      (auto simp: session_touch_def rbind_Inr_iff session_shape_simps)
next
  case (step_close i p t s b)
  then obtain a where a: "dget (sr_sessions R) i = Some a"
    by (auto simp: session_close_def rbind_Inr_iff)
  show ?thesis
  proof (cases b)
    case True
    with step_close a show ?thesis
      by (intro rewritten [where i = i and a = a and b = s])
        (auto simp: session_close_def rbind_Inr_iff session_shape_simps Let_def split: if_splits)
  next
    case False
    with step_close a show ?thesis
      by (intro untouched) (auto simp: session_close_def rbind_Inr_iff Let_def split: if_splits)
  qed
qed

definition session_repo_ok :: "session_repo \<Rightarrow> bool" where
  "session_repo_ok R \<longleftrightarrow> keyed s_id (sr_sessions R)
     \<and> (\<forall>i s. dget (sr_sessions R) i = Some s \<longrightarrow>
           (s_title s \<noteq> None \<longleftrightarrow> dget (sr_title_sources R) i \<noteq> None))
     \<and> (\<forall>i. dget (sr_sessions R) i = None \<longrightarrow> dget (sr_title_sources R) i = None)"

lemma empty_session_repo_ok: "session_repo_ok empty_session_repo"
  by (simp add: session_repo_ok_def empty_session_repo_def)

lemma session_step_ok:
  assumes "session_step R R'" and "session_repo_ok R"
  shows "session_repo_ok R'"
  using session_step_shape [OF assms(1)] assms(2)
proof cases
  case (added s)
  with assms(2) show ?thesis
    by (auto simp: session_repo_ok_def intro!: keyed_dset)
next
  case (rewritten i a b)
  then have "s_id b = i"
    using assms(2) by (auto simp: session_repo_ok_def same_identity_def dest: keyed_dget)
  with rewritten assms(2) show ?thesis
    by (auto simp: session_repo_ok_def title_change.simps intro!: keyed_dset) metis
qed (simp add: session_repo_ok_def)

definition session_edge :: "session_status \<Rightarrow> session_status \<Rightarrow> bool" where
  "session_edge a b \<longleftrightarrow> a = Session_ACTIVE \<and> b = Session_CLOSED"

interpretation session_store: retaining_store session_edge "\<lambda>a. a = Session_CLOSED"
  "\<lambda>R i. map_option s_status (dget (sr_sessions R) i)" session_step
proof
  fix R R' i a
  assume step: "session_step R R'"
    and a: "map_option s_status (dget (sr_sessions R) i) = Some a"
  show "case map_option s_status (dget (sr_sessions R') i) of
      None \<Rightarrow> a \<noteq> Session_CLOSED | Some b \<Rightarrow> a = b \<or> session_edge a b"
    using session_step_shape [OF step] a
    by cases (auto simp: status_kept_or_closed_def session_edge_def)
  show "map_option s_status (dget (sr_sessions R') i) \<noteq> None"
    using session_step_shape [OF step] a by cases auto
qed (simp add: session_edge_def)

lemma session_step_owner:
  assumes "session_step R R'" and "dget (sr_sessions R) i = Some a"
  shows "\<exists>b. dget (sr_sessions R') i = Some b \<and> same_identity a b"
  using session_step_shape [OF assms(1)] assms(2)
  by cases (auto simp: same_identity_def)

lemma session_steps_owner:
  assumes "session_step\<^sup>*\<^sup>* R R'" and "dget (sr_sessions R) i = Some a"
  shows "\<exists>b. dget (sr_sessions R') i = Some b \<and> same_identity a b"
  using assms
proof (induction rule: rtranclp_induct)
  case base
  then show ?case by (auto simp: same_identity_def)
next
  case (step S T)
  then obtain b where "dget (sr_sessions S) i = Some b" "same_identity a b" by auto
  with session_step_owner [OF step.hyps(2)] show ?case
    by (auto simp: same_identity_def)
qed

lemma fixed_title_step:
  assumes "session_step R R'" and "dget (sr_sessions R) i = Some a" and "s_title a = Some t"
    and "dget (sr_title_sources R) i = Some Title_FIXED"
  shows "\<exists>b. dget (sr_sessions R') i = Some b \<and> s_title b = Some t
      \<and> dget (sr_title_sources R') i = Some Title_FIXED"
  using session_step_shape [OF assms(1)] assms(2-)
  by cases (auto simp: regenerable_def REGENERABLE_TITLE_SOURCES_def title_change.simps)

lemma fixed_title_steps:
  assumes "session_step\<^sup>*\<^sup>* R R'" and "dget (sr_sessions R) i = Some a" and "s_title a = Some t"
    and "dget (sr_title_sources R) i = Some Title_FIXED"
  shows "\<exists>b. dget (sr_sessions R') i = Some b \<and> s_title b = Some t
      \<and> dget (sr_title_sources R') i = Some Title_FIXED"
  using assms
proof (induction rule: rtranclp_induct)
  case base
  then show ?case by simp
next
  case (step S T)
  then show ?case using fixed_title_step [OF step.hyps(2)] by blast
qed

lemma session_steps_ok: "session_step\<^sup>*\<^sup>* R R' \<Longrightarrow> session_repo_ok R \<Longrightarrow> session_repo_ok R'"
  by (induction rule: rtranclp_induct) (auto dest: session_step_ok)

subsection \<open>Pages of the session listing\<close>

definition cursor_of :: "session \<Rightarrow> session_cursor" where
  "cursor_of s = \<lparr> sc_updated_at = s_updated_at s, sc_id = s_id s \<rparr>"

definition visible_sessions :: "session_repo \<Rightarrow> principal \<Rightarrow> bool \<Rightarrow> session list" where
  "visible_sessions R p ex = filter (\<lambda>s. s_tenant_id s = tenant_id p
      \<and> s_principal_id s = principal_id p \<and> (\<not> ex \<or> \<not> operational_session R s)) (dvals (sr_sessions R))"

abbreviation session_recency :: "session \<Rightarrow> instant \<times> uuid" where
  "session_recency s \<equiv> (s_updated_at s, s_id s)"

lemma session_list_first: "session_list R p n None ex
    = py_take n (sort_key_desc session_recency (visible_sessions R p ex))"
  by (simp add: session_list_def visible_sessions_def)

lemma session_list_next: "session_list R p n (Some (cursor_of c)) ex
    = py_take n (sort_key_desc session_recency
        (filter (\<lambda>s. session_recency s < session_recency c) (visible_sessions R p ex)))"
  by (simp add: session_list_def visible_sessions_def cursor_of_def less_prod_def' conj_ac
      cong: conj_cong)

lemma visible_sessions_keys:
  assumes "session_repo_ok R"
  shows "distinct (visible_sessions R p ex)"
    and "inj_on session_recency (set (visible_sessions R p ex))"
proof -
  have k: "keyed s_id (sr_sessions R)" using assms by (simp add: session_repo_ok_def)
  then show "distinct (visible_sessions R p ex)"
    unfolding visible_sessions_def by (intro distinct_filter keyed_distinct_vals(1)) 
  have "inj_on s_id (set (visible_sessions R p ex))"
    using keyed_distinct_vals(2) [OF k] unfolding visible_sessions_def
    by (rule inj_on_subset) auto
  then show "inj_on session_recency (set (visible_sessions R p ex))"
    by (auto simp: inj_on_def)
qed

subsection \<open>Properties\<close>

text \<open>
  Owner isolation over time: once a principal has read a session, then after any sequence of
  repository operations another read of that session succeeds for exactly the principals with the
  same tenant and principal id, whoever asks; nothing ever moves a session to another owner.
\<close>

theorem session_owner_isolation:
  assumes "session_step\<^sup>*\<^sup>* R R'" and "session_get R i p = Inr s"
  shows "is_ok (session_get R' i q) \<longleftrightarrow> tenant_id q = tenant_id p \<and> principal_id q = principal_id p"
proof -
  have s: "dget (sr_sessions R) i = Some s" "owned_by (session_owner s) p"
    using session_scope.getter_owned [OF assms(2)] by simp_all
  then obtain b where "dget (sr_sessions R') i = Some b" "same_identity s b"
    using session_steps_owner [OF assms(1)] by blast
  with s show ?thesis
    by (auto simp: session_scope.getter_eq owned_by_def same_identity_def)
qed

text \<open>
  Closing is final: a closed session is still stored and still closed after any sequence of
  repository operations.
\<close>

theorem session_closed_forever:
  assumes "session_step\<^sup>*\<^sup>* R R'" and "dget (sr_sessions R) i = Some s"
    and "s_status s = Session_CLOSED"
  shows "\<exists>s'. dget (sr_sessions R') i = Some s' \<and> s_status s' = Session_CLOSED"
  using session_store.terminal_forever [OF assms(1), of i Session_CLOSED] assms(2,3) by auto

text \<open>
  A title given when the session was created (a fixed title) is never replaced: neither the
  first-message rule nor the title generator, nor any other operation, changes it.
\<close>

theorem session_fixed_title_kept:
  assumes "session_create R s = Inr R1" and "s_title s = Some t" and "session_step\<^sup>*\<^sup>* R1 R2"
  shows "\<exists>b. dget (sr_sessions R2) (s_id s) = Some b \<and> s_title b = Some t
      \<and> \<not> regenerable R2 (s_id s)"
proof -
  have "dget (sr_sessions R1) (s_id s) = Some s"
    "dget (sr_title_sources R1) (s_id s) = Some Title_FIXED"
    using assms(1,2) by (auto simp: session_create_def)
  from fixed_title_steps [OF assms(3) this(1) assms(2) this(2)] show ?thesis
    by (auto simp: regenerable_def REGENERABLE_TITLE_SOURCES_def)
qed

text \<open>
  Keyset pagination of the session listing is complete and repeats nothing: asking for \<open>m\<close> more
  rows with the cursor of the \<open>n\<close>-th row of the first page yields exactly rows \<open>n + 1\<close> to \<open>n + m\<close> of
  the full listing, operational sessions filtered alike on both pages.
\<close>

theorem session_list_pages:
  assumes "session_repo_ok R" and "session_list R p (int n) None ex = page" and "length page = n"
    and "0 < n"
  shows "page @ session_list R p (int m) (Some (cursor_of (last page))) ex
      = session_list R p (int (n + m)) None ex"
proof -
  define full where "full = sort_key_desc session_recency (visible_sessions R p ex)"
  have page: "page = take n full"
    using assms(2) by (simp add: session_list_first full_def)
  have n: "n \<le> length full" using assms(3) page by simp
  have last: "last page = full ! (n - 1)"
    using assms(4) n by (subst last_conv_nth) (auto simp: page min_def)
  have "session_list R p (int m) (Some (cursor_of (last page))) ex = take m (drop n full)"
    using keyset_next_page [OF visible_sessions_keys(2,1) [OF assms(1)], of "n - 1" p ex] n assms(4)
    by (simp add: session_list_next last full_def)
  then show ?thesis
    by (simp add: session_list_first page take_add nat_add_distrib flip: full_def)
qed

subsection \<open>Witnesses\<close>

definition alice :: principal where
  "alice = \<lparr> tenant_id = ''t1'', principal_id = ''alice'', roles = {}, scopes = {} \<rparr>"

definition bob :: principal where
  "bob = \<lparr> tenant_id = ''t1'', principal_id = ''bob'', roles = {}, scopes = {} \<rparr>"

definition sample_session :: "uuid \<Rightarrow> string option \<Rightarrow> instant \<Rightarrow> session" where
  "sample_session i title t = \<lparr> s_id = i, s_tenant_id = ''t1'', s_principal_id = ''alice'',
     s_agent_id = 9, s_agent_version = ''1'', s_status = Session_ACTIVE, s_title = title,
     s_metadata = [], s_created_at = t, s_updated_at = t \<rparr>"

definition sample_sessions :: session_repo where
  "sample_sessions = \<lparr> sr_sessions = [(1, sample_session 1 (Some ''plan'') 10),
       (2, sample_session 2 None 30), (3, sample_session 3 None 20)],
     sr_chat_sessions = {}, sr_title_sources = [(1, Title_FIXED)], sr_title_requests = [] \<rparr>"

definition sample_sessions_closed :: session_repo where
  "sample_sessions_closed = sample_sessions\<lparr> sr_sessions :=
     [(1, (sample_session 1 (Some ''plan'') 10)\<lparr> s_status := Session_CLOSED, s_updated_at := 40 \<rparr>),
      (2, sample_session 2 None 30), (3, sample_session 3 None 20)] \<rparr>"

lemmas sample_session_defs = sample_sessions_def sample_sessions_closed_def sample_session_def
  alice_def bob_def

lemma sample_close_step: "session_step sample_sessions sample_sessions_closed"
proof (rule step_close [of _ 1 alice 40])
  show "session_close sample_sessions 1 alice 40
      = Inr ((sample_session 1 (Some ''plan'') 10)\<lparr> s_status := Session_CLOSED, s_updated_at := 40 \<rparr>,
             True, sample_sessions_closed)"
    by (simp add: session_close_def dlookup_def Let_def sample_session_defs)
qed

theorem session_owner_isolation_witness:
  "is_ok (session_get sample_sessions_closed 1 alice) \<and> \<not> is_ok (session_get sample_sessions_closed 1 bob)"
proof -
  have "session_get sample_sessions 1 alice = Inr (sample_session 1 (Some ''plan'') 10)"
    by (simp add: session_get_def dlookup_def sample_session_defs)
  from session_owner_isolation [OF r_into_rtranclp [of session_step, OF sample_close_step] this]
  show ?thesis by (simp add: alice_def bob_def)
qed

theorem session_closed_forever_witness:
  "\<exists>R' s'. session_touch sample_sessions_closed 1 90 = Inr R' \<and> dget (sr_sessions R') 1 = Some s'
      \<and> s_status s' = Session_CLOSED"
proof -
  obtain R' where R': "session_touch sample_sessions_closed 1 90 = Inr R'"
    by (simp add: session_touch_def dlookup_def sample_session_defs)
  have "\<exists>s. dget (sr_sessions sample_sessions_closed) 1 = Some s \<and> s_status s = Session_CLOSED"
    by (simp add: sample_session_defs)
  with session_closed_forever [OF r_into_rtranclp [of session_step, OF step_touch [OF R']]]
  show ?thesis using R' by blast
qed

theorem session_fixed_title_kept_witness:
  "\<exists>R1 R2. session_create empty_session_repo (sample_session 1 (Some ''plan'') 10) = Inr R1
      \<and> session_touch R1 1 50 = Inr R2 \<and> \<not> regenerable R2 1"
proof -
  define R1 where "R1 = empty_session_repo\<lparr> sr_sessions := [(1, sample_session 1 (Some ''plan'') 10)],
    sr_title_sources := [(1, Title_FIXED)] \<rparr>"
  have create: "session_create empty_session_repo (sample_session 1 (Some ''plan'') 10) = Inr R1"
    by (simp add: session_create_def empty_session_repo_def sample_session_def dhas_def R1_def)
  obtain R2 where touch: "session_touch R1 1 50 = Inr R2"
    by (simp add: session_touch_def dlookup_def R1_def)
  have "s_title (sample_session 1 (Some ''plan'') 10) = Some ''plan''"
    by (simp add: sample_session_def)
  from session_fixed_title_kept [OF create this r_into_rtranclp [of session_step, OF step_touch [OF touch]]]
  show ?thesis using create touch by (auto simp: sample_session_def)
qed

theorem session_list_pages_witness:
  "session_list sample_sessions alice 1 None False = [sample_session 2 None 30]
   \<and> session_list sample_sessions alice 1 (Some (cursor_of (sample_session 2 None 30))) False
       = [sample_session 3 None 20]"
proof -
  have ok: "session_repo_ok sample_sessions"
    by (auto simp: session_repo_ok_def keyed_def sample_session_defs)
  have list: "session_list sample_sessions alice 1 None False = [sample_session 2 None 30]"
    "session_list sample_sessions alice 2 None False
       = [sample_session 2 None 30, sample_session 3 None 20]"
    by (simp_all add: session_list_def sort_key_desc_def sample_session_defs)
  from session_list_pages [OF ok, of alice 1 False "[sample_session 2 None 30]" 1] list
  show ?thesis by simp
qed

end
