(* ===== verification/Runs.thy ===== *)
theory Runs
  imports Prelude
begin

text \<open>
  Run state of \<open>domain/runs.py\<close> and the canonical run diagram of \<open>runtime/state_machine.py\<close>: the
  enumerations, the limit, usage, failure, checkpoint and run records with the validators that
  guard their construction, and the table of legal status changes. Nested documents that no
  modelled operation looks into (conversation items, tool specifications, skills, provider
  continuations) are carried as JSON values.
\<close>

subsection \<open>Enumerations\<close>

datatype run_status =
    Run_QUEUED
  | Run_RUNNING
  | Run_WAITING_FOR_APPROVAL
  | Run_WAITING_FOR_USER
  | Run_COMPLETED
  | Run_FAILED
  | Run_CANCELLED

fun run_status_value :: "run_status \<Rightarrow> string" where
  "run_status_value Run_QUEUED = ''QUEUED''"
| "run_status_value Run_RUNNING = ''RUNNING''"
| "run_status_value Run_WAITING_FOR_APPROVAL = ''WAITING_FOR_APPROVAL''"
| "run_status_value Run_WAITING_FOR_USER = ''WAITING_FOR_USER''"
| "run_status_value Run_COMPLETED = ''COMPLETED''"
| "run_status_value Run_FAILED = ''FAILED''"
| "run_status_value Run_CANCELLED = ''CANCELLED''"

datatype run_kind = INTERACTIVE | JOB | SKILL_REVIEW | DELEGATED

datatype cancel_reason = Cancel_REQUESTED | Cancel_DEADLINE | Cancel_FENCED

fun cancel_reason_value :: "cancel_reason \<Rightarrow> string" where
  "cancel_reason_value Cancel_REQUESTED = ''requested''"
| "cancel_reason_value Cancel_DEADLINE = ''deadline''"
| "cancel_reason_value Cancel_FENCED = ''fenced''"

datatype budget_scope = Scope_ADMISSION | Scope_STEP | Scope_ATTEMPT | Scope_TOOL_CALL

definition TERMINAL_RUN_STATUSES :: "run_status set" where
  "TERMINAL_RUN_STATUSES = {Run_COMPLETED, Run_FAILED, Run_CANCELLED}"

datatype failure_reason =
    MAX_ATTEMPTS_EXCEEDED | BUDGET_EXCEEDED | DEADLINE_EXCEEDED | MAX_STEPS_EXCEEDED
  | TOOL_LOOP_DETECTED | REPEATED_DENIAL | APPROVAL_EXPIRED | INPUT_DEADLINE_EXCEEDED
  | CONTEXT_OVERFLOW | MODEL_PERMANENT_ERROR | EMPTY_MODEL_TURN | AUTHORIZATION_ERROR
  | CHILD_RUN_FAILED | INTERNAL_ERROR | DEPENDENCY_UNAVAILABLE

datatype trust_level =
    Trust_PLATFORM | Trust_TRUSTED_CONFIGURATION | Trust_USER | Trust_INTERNAL_TOOL
  | Trust_EXTERNAL_UNTRUSTED | Trust_MEMORY | Trust_KNOWLEDGE

subsection \<open>Limits, usage and failures\<close>

record run_limits =
  max_steps :: int
  max_model_calls :: int
  max_tool_calls :: int
  max_input_tokens :: "int option"
  max_output_tokens :: "int option"
  max_cost :: "rat option"
  limit_deadline_at :: "instant option"
  synthesis_reserve_steps :: int
  synthesis_reserve_model_calls :: int
  synthesis_reserve_tool_calls :: int
  synthesis_reserve_cost :: rat
  execution_seconds :: "int option"

definition default_run_limits :: run_limits where
  "default_run_limits = \<lparr> max_steps = 12, max_model_calls = 12, max_tool_calls = 24,
     max_input_tokens = None, max_output_tokens = None, max_cost = None,
     limit_deadline_at = None, synthesis_reserve_steps = 0, synthesis_reserve_model_calls = 0,
     synthesis_reserve_tool_calls = 0, synthesis_reserve_cost = 0, execution_seconds = None \<rparr>"

text \<open>The declared field bounds (\<open>ge\<close>, \<open>gt\<close>, \<open>le\<close>) of \<open>RunLimits\<close>.\<close>

definition run_limits_fields_ok :: "run_limits \<Rightarrow> bool" where
  "run_limits_fields_ok l \<longleftrightarrow>
     synthesis_reserve_steps l \<ge> 0 \<and> synthesis_reserve_model_calls l \<ge> 0 \<and>
     synthesis_reserve_tool_calls l \<ge> 0 \<and> synthesis_reserve_cost l \<ge> 0 \<and>
     (case execution_seconds l of None \<Rightarrow> True | Some s \<Rightarrow> 0 < s \<and> s \<le> 86400)"

definition synthesis_reserve_fits :: "run_limits \<Rightarrow> run_limits res" where
  "synthesis_reserve_fits l =
     (if synthesis_reserve_steps l > 0 \<and> synthesis_reserve_steps l \<ge> max_steps l
      then Inl (ValueError ''the synthesis step reserve must be below max_steps'')
      else if synthesis_reserve_model_calls l > 0
           \<and> synthesis_reserve_model_calls l \<ge> max_model_calls l
      then Inl (ValueError ''the synthesis model-call reserve must be below max_model_calls'')
      else if synthesis_reserve_tool_calls l > 0
           \<and> synthesis_reserve_tool_calls l \<ge> max_tool_calls l
      then Inl (ValueError ''the synthesis tool-call reserve must be below max_tool_calls'')
      else (case max_cost l of
          None \<Rightarrow> if synthesis_reserve_cost l \<noteq> 0
                  then Inl (ValueError ''a synthesis cost reserve requires max_cost'')
                  else Inr l
        | Some c \<Rightarrow> if synthesis_reserve_cost l > 0 \<and> synthesis_reserve_cost l \<ge> c
                  then Inl (ValueError ''the synthesis cost reserve must be below max_cost'')
                  else Inr l))"

record run_usage =
  u_input_tokens :: int
  u_cached_input_tokens :: int
  u_cache_write_input_tokens :: int
  u_output_tokens :: int
  u_reasoning_tokens :: "int option"
  u_model_calls :: int
  u_tool_calls :: int
  u_cost :: rat

definition zero_usage :: run_usage where
  "zero_usage = \<lparr> u_input_tokens = 0, u_cached_input_tokens = 0, u_cache_write_input_tokens = 0,
     u_output_tokens = 0, u_reasoning_tokens = None, u_model_calls = 0, u_tool_calls = 0,
     u_cost = 0 \<rparr>"

record run_failure =
  fail_reason :: failure_reason
  fail_error_class :: string
  fail_message :: string
  fail_step_number :: "int option"
  fail_attempt_number :: "int option"
  fail_occurred_at :: instant
  fail_details :: document

record provider_pin =
  pin_run_id :: uuid
  pin_provider :: string
  pin_model :: string
  pin_registry_version :: string
  pin_pinned_at :: instant

subsection \<open>Runs\<close>

record run =
  r_id :: uuid
  r_session_id :: uuid
  r_parent_run_id :: "uuid option"
  r_kind :: run_kind
  r_tenant_id :: string
  r_principal_scopes :: "string set"
  r_agent_id :: uuid
  r_agent_version :: string
  r_status :: run_status
  r_step_count :: int
  r_model_call_count :: int
  r_tool_call_count :: int
  r_limits :: run_limits
  r_usage :: run_usage
  r_lease_owner :: "string option"
  r_lease_expires_at :: "instant option"
  r_lease_epoch :: int
  r_attempts :: int
  r_lease_expirations :: int
  r_priority :: int
  r_scheduled_for :: "instant option"
  r_deadline_at :: "instant option"
  r_cancel_requested_at :: "instant option"
  r_failure :: "run_failure option"
  r_final_message :: "string option"
  r_export_consent :: bool
  r_provider_pin :: "provider_pin option"
  r_seed_event_sequence :: int
  r_created_at :: instant
  r_updated_at :: instant

definition deadline_matches_limits :: "run \<Rightarrow> run res" where
  "deadline_matches_limits r =
     (if r_deadline_at r \<noteq> limit_deadline_at (r_limits r)
      then Inl (ValueError ''run.deadline_at must equal run.limits.deadline_at'')
      else Inr r)"

subsection \<open>The run diagram\<close>

fun ALLOWED_TRANSITIONS :: "run_status \<Rightarrow> run_status set" where
  "ALLOWED_TRANSITIONS Run_QUEUED = {Run_RUNNING, Run_CANCELLED, Run_FAILED}"
| "ALLOWED_TRANSITIONS Run_RUNNING =
     {Run_WAITING_FOR_APPROVAL, Run_WAITING_FOR_USER, Run_QUEUED, Run_COMPLETED, Run_FAILED,
      Run_CANCELLED}"
| "ALLOWED_TRANSITIONS Run_WAITING_FOR_APPROVAL = {Run_QUEUED, Run_CANCELLED, Run_FAILED}"
| "ALLOWED_TRANSITIONS Run_WAITING_FOR_USER = {Run_QUEUED, Run_CANCELLED, Run_FAILED}"
| "ALLOWED_TRANSITIONS Run_COMPLETED = {}"
| "ALLOWED_TRANSITIONS Run_FAILED = {}"
| "ALLOWED_TRANSITIONS Run_CANCELLED = {}"

definition require_transition :: "run_status \<Rightarrow> run_status \<Rightarrow> unit res" where
  "require_transition current requested =
     (if requested \<notin> ALLOWED_TRANSITIONS current
      then Inl (ConflictError (''invalid run transition '' @ run_status_value current @ ''->''
             @ run_status_value requested) None)
      else Inr ())"

definition run_edge :: "run_status \<Rightarrow> run_status \<Rightarrow> bool" where
  "run_edge a b \<longleftrightarrow> b \<in> ALLOWED_TRANSITIONS a"

definition run_terminal :: "run_status \<Rightarrow> bool" where
  "run_terminal a \<longleftrightarrow> a \<in> TERMINAL_RUN_STATUSES"

lemma require_transition_iff [simp]: "require_transition a b = Inr () \<longleftrightarrow> run_edge a b"
  by (simp add: require_transition_def run_edge_def)

interpretation run_lifecycle: lifecycle run_edge run_terminal
  by unfold_locales
    (auto simp: run_terminal_def TERMINAL_RUN_STATUSES_def run_edge_def)

lemma run_terminal_simps [simp]:
  "\<not> run_terminal Run_QUEUED" "\<not> run_terminal Run_RUNNING"
  "\<not> run_terminal Run_WAITING_FOR_APPROVAL" "\<not> run_terminal Run_WAITING_FOR_USER"
  "run_terminal Run_COMPLETED" "run_terminal Run_FAILED" "run_terminal Run_CANCELLED"
  by (simp_all add: run_terminal_def TERMINAL_RUN_STATUSES_def)

lemma run_edge_from_terminal [simp]: "run_terminal a \<Longrightarrow> \<not> run_edge a b"
  by (auto simp: run_terminal_def TERMINAL_RUN_STATUSES_def run_edge_def)

lemma run_edge_irrefl [simp]: "\<not> run_edge a a"
  by (cases a) (simp_all add: run_edge_def)

text \<open>
  No edge enters \<open>Run_RUNNING\<close> but the one from \<open>Run_QUEUED\<close>, so a run that left the queue and was
  suspended goes back through the queue before it runs again.
\<close>

lemma run_edge_into_running: "run_edge a Run_RUNNING \<longleftrightarrow> a = Run_QUEUED"
  by (cases a) (simp_all add: run_edge_def)

lemma run_edge_to_completed: "run_edge a Run_COMPLETED \<longleftrightarrow> a = Run_RUNNING"
  by (cases a) (simp_all add: run_edge_def)

lemma run_edge_to_cancelled_failed:
  "\<not> run_terminal a \<Longrightarrow> run_edge a Run_CANCELLED \<and> run_edge a Run_FAILED"
  by (cases a) (simp_all add: run_edge_def)

end
