(* ===== verification/Run_Repo.thy ===== *)
theory Run_Repo
  imports Runs Sessions
begin

text \<open>
  \<open>InMemoryRunRepository\<close> of \<open>adapters/persistence/memory.py\<close>, the in-process tier of the run
  repository port. The session repository it was built on is the argument \<open>S\<close>; the clock readings
  an operation takes are its last arguments, in the order the code takes them. The repository
  refuses worker leases, so the \<open>lease\<close> argument is present and every non-null lease is an error.
\<close>

record run_repo =
  rr_runs :: "(uuid, run) dict"
  rr_people_erased :: "(uuid, instant) dict"

definition empty_run_repo :: run_repo where
  "empty_run_repo = \<lparr> rr_runs = [], rr_people_erased = [] \<rparr>"

abbreviation run_missing :: error where
  "run_missing \<equiv> NotFoundError ''run not found''"

abbreviation no_leases :: error where
  "no_leases \<equiv> NotImplementedError ''the in-memory repository does not support worker leases''"

text \<open>The lease token of \<open>domain/persistence.py\<close>; the in-memory tier only tests its presence.\<close>

record worker_lease =
  wl_run_id :: uuid
  wl_worker_id :: string
  wl_lease_epoch :: int

subsection \<open>Operations\<close>

text \<open>Scanning the waiting runs stops as soon as \<open>limit\<close> owned rows were collected.\<close>

fun collect_owned :: "session_repo \<Rightarrow> principal \<Rightarrow> nat \<Rightarrow> run list \<Rightarrow> run list" where
  "collect_owned S p n [] = []"
| "collect_owned S p n (row # rest) =
     (if is_ok (session_get S (r_session_id row) p)
      then row # (if n \<le> 1 then [] else collect_owned S p (n - 1) rest)
      else collect_owned S p n rest)"

definition waiting_for_user ::
    "session_repo \<Rightarrow> run_repo \<Rightarrow> principal \<Rightarrow> int \<Rightarrow> uuid option \<Rightarrow> run list" where
  "waiting_for_user S R p limit after_id =
     (if limit \<le> 0 then []
      else collect_owned S p (nat limit) (sort_key r_id
        (filter (\<lambda>row. r_status row = Run_WAITING_FOR_USER
             \<and> (case after_id of None \<Rightarrow> True | Some a \<Rightarrow> r_id row > a))
          (dvals (rr_runs R)))))"

definition run_active :: "run \<Rightarrow> bool" where
  "run_active r \<longleftrightarrow> r_status r \<notin> TERMINAL_RUN_STATUSES"

definition run_create :: "run_repo \<Rightarrow> run \<Rightarrow> run_repo res" where
  "run_create R run =
     (if dhas (rr_runs R) (r_id run) then Inl (ConflictError ''run already exists'' None)
      else if r_status run \<notin> TERMINAL_RUN_STATUSES
           \<and> (\<exists>c \<in> set (dvals (rr_runs R)). r_session_id c = r_session_id run
                 \<and> r_status c \<notin> TERMINAL_RUN_STATUSES)
      then Inl (ConflictError ''session already has an active run'' None)
      else if r_parent_run_id run \<noteq> None \<and> r_kind run = SKILL_REVIEW
           \<and> (\<exists>c \<in> set (dvals (rr_runs R)). r_parent_run_id c = r_parent_run_id run
                 \<and> r_kind c = r_kind run)
      then Inl (ConflictError ''parent already has a child run of this kind'' None)
      else Inr (R\<lparr> rr_runs := dset (r_id run) run (rr_runs R) \<rparr>))"

definition run_get :: "session_repo \<Rightarrow> run_repo \<Rightarrow> uuid \<Rightarrow> principal \<Rightarrow> run res" where
  "run_get S R i p =
     rbind (dlookup run_missing (rr_runs R) i) (\<lambda>run.
       rbind (session_get S (r_session_id run) p) (\<lambda>_. Inr run))"

definition has_higher_priority_work ::
    "session_repo \<Rightarrow> run_repo \<Rightarrow> principal \<Rightarrow> int \<Rightarrow> instant \<Rightarrow> bool" where
  "has_higher_priority_work S R p priority now =
     (\<exists>i \<in> r_session_id ` {row \<in> set (dvals (rr_runs R)).
          r_priority row < priority \<and> r_status row \<in> {Run_QUEUED, Run_RUNNING}
          \<and> (case r_scheduled_for row of None \<Rightarrow> True | Some t \<Rightarrow> t \<le> now)}.
        is_ok (session_get S i p))"

definition active_for_session ::
    "session_repo \<Rightarrow> run_repo \<Rightarrow> uuid \<Rightarrow> principal \<Rightarrow> run option res" where
  "active_for_session S R sid p =
     rbind (session_get S sid p) (\<lambda>_.
       let rows = filter (\<lambda>r. r_session_id r = sid \<and> r_status r \<notin> TERMINAL_RUN_STATUSES)
                    (dvals (rr_runs R))
       in if length rows > 1 then Inl (ConflictError ''session has multiple active runs'' None)
          else Inr (if rows = [] then None else Some (hd rows)))"

abbreviation run_recency :: "run \<Rightarrow> instant \<times> uuid" where
  "run_recency r \<equiv> (r_created_at r, r_id r)"

definition latest_for_session ::
    "session_repo \<Rightarrow> run_repo \<Rightarrow> uuid \<Rightarrow> principal \<Rightarrow> run option res" where
  "latest_for_session S R sid p =
     rbind (session_get S sid p) (\<lambda>_.
       Inr (max_by run_recency (filter (\<lambda>r. r_session_id r = sid) (dvals (rr_runs R)))))"

text \<open>One pass over all runs that keeps, per authorised session, the newest run seen so far.\<close>

definition keep_latest :: "uuid set \<Rightarrow> run \<Rightarrow> (uuid, run) dict \<Rightarrow> (uuid, run) dict" where
  "keep_latest authorized run latest =
     (if r_session_id run \<notin> authorized then latest
      else (case dget latest (r_session_id run) of
          None \<Rightarrow> dset (r_session_id run) run latest
        | Some current \<Rightarrow> if run_recency run > run_recency current
                          then dset (r_session_id run) run latest else latest))"

definition latest_for_sessions ::
    "session_repo \<Rightarrow> run_repo \<Rightarrow> uuid list \<Rightarrow> principal \<Rightarrow> (uuid, run) dict" where
  "latest_for_sessions S R sids p =
     fold (keep_latest {i \<in> set sids. is_ok (session_get S i p)}) (dvals (rr_runs R)) []"

definition child_for_parent ::
    "session_repo \<Rightarrow> run_repo \<Rightarrow> uuid \<Rightarrow> run_kind \<Rightarrow> principal \<Rightarrow> run option res" where
  "child_for_parent S R parent kind p =
     (let matching = filter (\<lambda>r. r_parent_run_id r = Some parent \<and> r_kind r = kind)
                       (dvals (rr_runs R))
      in if matching = [] then Inr None
         else if length matching > 1
         then Inl (ConflictError ''parent has multiple child runs of one kind'' None)
         else rbind (session_get S (r_session_id (hd matching)) p) (\<lambda>_. Inr (Some (hd matching))))"

definition request_cancellation ::
    "run_repo \<Rightarrow> uuid \<Rightarrow> run_status \<Rightarrow> instant \<Rightarrow> instant \<Rightarrow> (run \<times> run_repo) res" where
  "request_cancellation R i expected now1 now2 =
     rbind (dlookup run_missing (rr_runs R) i) (\<lambda>current.
       if r_status current \<noteq> expected
       then Inl (ConflictError (''cancellation request expected '' @ run_status_value expected
              @ '', found '' @ run_status_value (r_status current)) None)
       else let updated = current\<lparr>
                r_cancel_requested_at := (case r_cancel_requested_at current of
                    None \<Rightarrow> Some now1 | Some t \<Rightarrow> Some t),
                r_updated_at := now2 \<rparr>
            in Inr (updated, R\<lparr> rr_runs := dset i updated (rr_runs R) \<rparr>))"

definition run_transition ::
    "run_repo \<Rightarrow> uuid \<Rightarrow> run_status \<Rightarrow> run_status \<Rightarrow> run_failure option \<Rightarrow> string option \<Rightarrow>
       worker_lease option \<Rightarrow> instant \<Rightarrow> (run \<times> run_repo) res" where
  "run_transition R i expected new_status failure final_message lease now =
     (if lease \<noteq> None then Inl no_leases
      else rbind (dlookup run_missing (rr_runs R) i) (\<lambda>current.
        if r_status current \<noteq> expected
        then Inl (ConflictError (''expected '' @ run_status_value expected @ '', found ''
               @ run_status_value (r_status current)) None)
        else rbind (require_transition (r_status current) new_status) (\<lambda>_.
          let erased = dhas (rr_people_erased R) i;
              updated = current\<lparr> r_status := new_status,
                r_failure := (if erased then None else failure),
                r_final_message := (if erased then None else final_message),
                r_updated_at := now \<rparr>
          in Inr (updated, R\<lparr> rr_runs := dset i updated (rr_runs R) \<rparr>))))"

definition update_counters ::
    "run_repo \<Rightarrow> run \<Rightarrow> worker_lease option \<Rightarrow> run_repo res" where
  "update_counters R run lease =
     (if lease \<noteq> None then Inl no_leases
      else rbind (dlookup run_missing (rr_runs R) (r_id run)) (\<lambda>current.
        if r_status current \<noteq> r_status run
        then Inl (ConflictError ''counter update may not change run status'' None)
        else let updated = current\<lparr> r_step_count := r_step_count run,
                   r_model_call_count := r_model_call_count run,
                   r_tool_call_count := r_tool_call_count run,
                   r_usage := r_usage run,
                   r_updated_at := r_updated_at run \<rparr>;
                 supplied = (if r_cancel_requested_at run = None
                       \<and> r_cancel_requested_at current \<noteq> None
                     then run\<lparr> r_cancel_requested_at := r_cancel_requested_at current \<rparr>
                     else run)
             in if supplied \<noteq> updated
                then Inl (ConflictError ''counter update may change only counters and usage'' None)
                else Inr (R\<lparr> rr_runs := dset (r_id run) updated (rr_runs R) \<rparr>)))"

definition set_waiting_limits ::
    "run_repo \<Rightarrow> uuid \<Rightarrow> run_limits \<Rightarrow> instant \<Rightarrow> (run \<times> run_repo) res" where
  "set_waiting_limits R i limits now =
     rbind (dlookup run_missing (rr_runs R) i) (\<lambda>current.
       if r_status current \<noteq> Run_WAITING_FOR_USER
       then Inl (ConflictError ''only a run waiting for its owner takes new limits'' None)
       else if limit_deadline_at limits \<noteq> r_deadline_at current
       then Inl (ConflictError ''new limits cannot move the run's deadline'' None)
       else let updated = current\<lparr> r_limits := limits, r_updated_at := now \<rparr>
            in Inr (updated, R\<lparr> rr_runs := dset i updated (rr_runs R) \<rparr>))"

definition set_seed_event_sequence ::
    "run_repo \<Rightarrow> uuid \<Rightarrow> int \<Rightarrow> instant \<Rightarrow> run_repo res" where
  "set_seed_event_sequence R i sequence now =
     rbind (dlookup run_missing (rr_runs R) i) (\<lambda>current.
       if r_seed_event_sequence current \<noteq> 0
       then Inl (ConflictError ''run seed sequence was already assigned'' None)
       else Inr (R\<lparr> rr_runs := dset i
              (current\<lparr> r_seed_event_sequence := sequence, r_updated_at := now \<rparr>) (rr_runs R) \<rparr>))"

definition set_provider_pin ::
    "run_repo \<Rightarrow> uuid \<Rightarrow> provider_pin \<Rightarrow> instant \<Rightarrow> run_repo res" where
  "set_provider_pin R i pin now =
     rbind (dlookup run_missing (rr_runs R) i) (\<lambda>current.
       if r_provider_pin current \<noteq> None \<and> r_provider_pin current \<noteq> Some pin
       then Inl (ConflictError ''run provider pin is immutable'' None)
       else Inr (R\<lparr> rr_runs := dset i
              (current\<lparr> r_provider_pin := Some pin, r_updated_at := now \<rparr>) (rr_runs R) \<rparr>))"

subsection \<open>Steps of the repository\<close>

text \<open>
  A run handed to \<open>create\<close> is a constructed model, so its validator has accepted it.
\<close>

inductive run_step :: "run_repo \<Rightarrow> run_repo \<Rightarrow> bool" where
  rstep_create: "deadline_matches_limits r = Inr r \<Longrightarrow> run_create R r = Inr R' \<Longrightarrow> run_step R R'"
| rstep_cancel: "request_cancellation R i e t u = Inr (r, R') \<Longrightarrow> run_step R R'"
| rstep_transition: "run_transition R i e n f m l t = Inr (r, R') \<Longrightarrow> run_step R R'"
| rstep_counters: "update_counters R r l = Inr R' \<Longrightarrow> run_step R R'"
| rstep_limits: "set_waiting_limits R i ls t = Inr (r, R') \<Longrightarrow> run_step R R'"
| rstep_seed: "set_seed_event_sequence R i n t = Inr R' \<Longrightarrow> run_step R R'"
| rstep_pin: "set_provider_pin R i pin t = Inr R' \<Longrightarrow> run_step R R'"

text \<open>
  What may happen to one stored run: its identity, owner tenant, kind, session, parent, agent,
  deadline and creation never change; its status moves along the diagram; a requested
  cancellation, an assigned seed sequence and a provider pin are kept for ever.
\<close>

definition run_evolves :: "run \<Rightarrow> run \<Rightarrow> bool" where
  "run_evolves a b \<longleftrightarrow>
     r_id b = r_id a \<and> r_session_id b = r_session_id a \<and> r_parent_run_id b = r_parent_run_id a
     \<and> r_kind b = r_kind a \<and> r_tenant_id b = r_tenant_id a
     \<and> r_principal_scopes b = r_principal_scopes a \<and> r_agent_id b = r_agent_id a
     \<and> r_agent_version b = r_agent_version a \<and> r_priority b = r_priority a
     \<and> r_deadline_at b = r_deadline_at a \<and> r_created_at b = r_created_at a
     \<and> r_export_consent b = r_export_consent a
     \<and> run_edge\<^sup>*\<^sup>* (r_status a) (r_status b)
     \<and> (r_cancel_requested_at a \<noteq> None \<longrightarrow> r_cancel_requested_at b = r_cancel_requested_at a)
     \<and> (r_provider_pin a \<noteq> None \<longrightarrow> r_provider_pin b = r_provider_pin a)
     \<and> (r_seed_event_sequence a \<noteq> 0 \<longrightarrow> r_seed_event_sequence b = r_seed_event_sequence a)"

lemma run_evolves_refl [simp]: "run_evolves a a"
  by (simp add: run_evolves_def)

lemma run_evolves_trans: "run_evolves a b \<Longrightarrow> run_evolves b c \<Longrightarrow> run_evolves a c"
  unfolding run_evolves_def by (elim conjE, intro conjI) auto

lemma run_evolves_active: "run_evolves a b \<Longrightarrow> run_active b \<Longrightarrow> run_active a"
  using run_lifecycle.terminal_absorbing [of "r_status a" "r_status b"]
  by (auto simp: run_evolves_def run_active_def run_terminal_def)

inductive run_change :: "run_repo \<Rightarrow> run_repo \<Rightarrow> bool" where
  run_added: "run_create R r = Inr R' \<Longrightarrow> r_deadline_at r = limit_deadline_at (r_limits r) \<Longrightarrow>
    run_change R R'"
| run_rewritten: "dget (rr_runs R) i = Some a \<Longrightarrow> rr_runs R' = dset i b (rr_runs R) \<Longrightarrow>
    run_evolves a b \<Longrightarrow> r_status b = r_status a \<or> run_edge (r_status a) (r_status b) \<Longrightarrow>
    r_limits b = r_limits a \<or> limit_deadline_at (r_limits b) = r_deadline_at a \<Longrightarrow> run_change R R'"

lemma run_step_shape:
  assumes "run_step R R'"
  shows "run_change R R'"
  using assms
proof cases
  case (rstep_create r)
  then show ?thesis
    by (intro run_added [of R r]) (auto simp: deadline_matches_limits_def split: if_splits)
next
  case (rstep_cancel i e t u r)
  then obtain a where "dget (rr_runs R) i = Some a"
    by (auto simp: request_cancellation_def rbind_Inr_iff)
  with rstep_cancel show ?thesis
    by (intro run_rewritten [of R i a R' r])
      (auto simp: request_cancellation_def rbind_Inr_iff run_evolves_def Let_def split: option.splits)
next
  case (rstep_transition i e n f m l t r)
  then obtain a where "dget (rr_runs R) i = Some a"
    by (auto simp: run_transition_def rbind_Inr_iff)
  with rstep_transition show ?thesis
    by (intro run_rewritten [of R i a R' r])
      (auto simp: run_transition_def rbind_Inr_iff run_evolves_def Let_def)
next
  case (rstep_counters r l)
  then obtain a where "dget (rr_runs R) (r_id r) = Some a"
    by (auto simp: update_counters_def rbind_Inr_iff)
  with rstep_counters show ?thesis
    by (intro run_rewritten [of R "r_id r" a R' "the (dget (rr_runs R') (r_id r))"])
      (auto simp: update_counters_def rbind_Inr_iff run_evolves_def Let_def)
next
  case (rstep_limits i ls t r)
  then obtain a where "dget (rr_runs R) i = Some a"
    by (auto simp: set_waiting_limits_def rbind_Inr_iff)
  with rstep_limits show ?thesis
    by (intro run_rewritten [of R i a R' r])
      (auto simp: set_waiting_limits_def rbind_Inr_iff run_evolves_def Let_def)
next
  case (rstep_seed i n t)
  then obtain a where "dget (rr_runs R) i = Some a"
    by (auto simp: set_seed_event_sequence_def rbind_Inr_iff)
  with rstep_seed show ?thesis
    by (intro run_rewritten [of R i a R' "the (dget (rr_runs R') i)"])
      (auto simp: set_seed_event_sequence_def rbind_Inr_iff run_evolves_def)
next
  case (rstep_pin i pin t)
  then obtain a where "dget (rr_runs R) i = Some a"
    by (auto simp: set_provider_pin_def rbind_Inr_iff)
  with rstep_pin show ?thesis
    by (intro run_rewritten [of R i a R' "the (dget (rr_runs R') i)"])
      (auto simp: set_provider_pin_def rbind_Inr_iff run_evolves_def)
qed

subsection \<open>The repository invariant\<close>

definition one_active_run :: "run_repo \<Rightarrow> bool" where
  "one_active_run R \<longleftrightarrow> inj_on r_session_id {r \<in> set (dvals (rr_runs R)). run_active r}"

definition skill_child :: "run \<Rightarrow> bool" where
  "skill_child r \<longleftrightarrow> r_parent_run_id r \<noteq> None \<and> r_kind r = SKILL_REVIEW"

definition one_skill_review :: "run_repo \<Rightarrow> bool" where
  "one_skill_review R \<longleftrightarrow> inj_on r_parent_run_id {r \<in> set (dvals (rr_runs R)). skill_child r}"

definition deadlines_ok :: "run_repo \<Rightarrow> bool" where
  "deadlines_ok R \<longleftrightarrow>
     (\<forall>a \<in> set (dvals (rr_runs R)). r_deadline_at a = limit_deadline_at (r_limits a))"

definition run_repo_ok :: "run_repo \<Rightarrow> bool" where
  "run_repo_ok R \<longleftrightarrow> keyed r_id (rr_runs R) \<and> one_active_run R \<and> one_skill_review R \<and> deadlines_ok R"

lemma empty_run_repo_ok [simp]: "run_repo_ok empty_run_repo"
  by (simp add: run_repo_ok_def empty_run_repo_def one_active_run_def one_skill_review_def
      deadlines_ok_def)

lemma run_create_ok:
  assumes "run_create R r = Inr R'" and "r_deadline_at r = limit_deadline_at (r_limits r)"
    and "run_repo_ok R"
  shows "run_repo_ok R'"
proof -
  have keyed: "keyed r_id (rr_runs R)" using assms(3) by (simp add: run_repo_ok_def)
  have R': "R' = R\<lparr> rr_runs := dset (r_id r) r (rr_runs R) \<rparr>"
    using assms(1) by (simp add: run_create_def)
  have runs: "set (dvals (rr_runs R')) = insert r {w \<in> set (dvals (rr_runs R)). r_id w \<noteq> r_id r}"
    using keyed_set_dset [OF keyed refl, of r] by (simp add: R')
  have "keyed r_id (rr_runs R')" using keyed by (auto simp: R')
  moreover have "one_active_run R'"
    using assms(1,3) unfolding one_active_run_def runs run_repo_ok_def
    by (intro inj_on_insert_row) (auto simp: run_create_def run_active_def)
  moreover have "one_skill_review R'"
    using assms(1,3) unfolding one_skill_review_def runs run_repo_ok_def
    by (intro inj_on_insert_row) (auto simp: run_create_def skill_child_def)
  moreover have "deadlines_ok R'"
    using assms(2,3) unfolding deadlines_ok_def runs run_repo_ok_def by auto
  ultimately show ?thesis by (simp add: run_repo_ok_def)
qed

lemma run_rewrite_ok:
  assumes "dget (rr_runs R) i = Some a" and "rr_runs R' = dset i b (rr_runs R)"
    and "run_evolves a b"
    and "r_limits b = r_limits a \<or> limit_deadline_at (r_limits b) = r_deadline_at a"
    and "run_repo_ok R"
  shows "run_repo_ok R'"
proof -
  have keyed: "keyed r_id (rr_runs R)" using assms(5) by (simp add: run_repo_ok_def)
  then have ids: "r_id a = i" "r_id b = i"
    using assms(1,3) by (auto simp: run_evolves_def dest: keyed_dget)
  have a: "a \<in> set (dvals (rr_runs R))"
    using keyed_vals [OF keyed, of a] assms(1) ids by simp
  have only_a: "c = a" if "c \<in> set (dvals (rr_runs R))" "r_id c = i" for c
    using keyed_vals [OF keyed, of c] that assms(1) by simp
  have runs: "set (dvals (rr_runs R')) = insert b {w \<in> set (dvals (rr_runs R)). r_id w \<noteq> i}"
    using keyed_set_dset [OF keyed ids(2)] by (simp add: assms(2))
  have "keyed r_id (rr_runs R')" using keyed ids by (auto simp: assms(2))
  moreover have "one_active_run R'"
    using assms(3,5) a ids run_evolves_active [OF assms(3)]
    unfolding one_active_run_def runs run_repo_ok_def
    by (intro inj_on_replace_row [of _ _ _ a]) (auto simp: run_evolves_def)
  moreover have "one_skill_review R'"
    using assms(3,5) a ids unfolding one_skill_review_def runs run_repo_ok_def
    by (intro inj_on_replace_row [of _ _ _ a]) (auto simp: run_evolves_def skill_child_def)
  moreover have "deadlines_ok R'"
    using assms(3,4,5) a unfolding deadlines_ok_def runs run_repo_ok_def run_evolves_def by auto
  ultimately show ?thesis by (simp add: run_repo_ok_def)
qed

lemma run_step_ok:
  assumes "run_step R R'" and "run_repo_ok R"
  shows "run_repo_ok R'"
  using run_step_shape [OF assms(1)]
  by cases (use assms(2) in \<open>blast intro: run_create_ok run_rewrite_ok\<close>)+

lemma run_steps_ok: "run_step\<^sup>*\<^sup>* R R' \<Longrightarrow> run_repo_ok R \<Longrightarrow> run_repo_ok R'"
  by (induction rule: rtranclp_induct) (auto dest: run_step_ok)

subsection \<open>Evolution of one run\<close>

lemma run_step_evolves:
  assumes "run_step R R'" and "dget (rr_runs R) i = Some a"
  shows "\<exists>b. dget (rr_runs R') i = Some b \<and> run_evolves a b
      \<and> (r_status b = r_status a \<or> run_edge (r_status a) (r_status b))"
  using run_step_shape [OF assms(1)] assms(2)
  by cases (auto simp: run_create_def dhas_iff)

lemma run_steps_evolve:
  assumes "run_step\<^sup>*\<^sup>* R R'" and "dget (rr_runs R) i = Some a"
  shows "\<exists>b. dget (rr_runs R') i = Some b \<and> run_evolves a b"
  using assms
proof (induction rule: rtranclp_induct)
  case base
  then show ?case by auto
next
  case (step S T)
  then obtain b where "dget (rr_runs S) i = Some b" "run_evolves a b" by auto
  with run_step_evolves [OF step.hyps(2)] show ?case by (metis run_evolves_trans)
qed

interpretation run_store: retaining_store run_edge run_terminal
  "\<lambda>R i. map_option r_status (dget (rr_runs R) i)" run_step
proof
  fix R R' i a
  assume step: "run_step R R'"
    and a: "map_option r_status (dget (rr_runs R) i) = Some a"
  then obtain r where r: "dget (rr_runs R) i = Some r" "r_status r = a" by auto
  from run_step_evolves [OF step r(1)] r(2)
  show "case map_option r_status (dget (rr_runs R') i) of
      None \<Rightarrow> \<not> run_terminal a | Some b \<Rightarrow> a = b \<or> run_edge a b"
    and "map_option r_status (dget (rr_runs R') i) \<noteq> None"
    by auto
qed

subsection \<open>Queries under the invariant\<close>

lemma active_run_unique:
  assumes "run_repo_ok R"
  shows "length (filter (\<lambda>r. r_session_id r = sid \<and> r_status r \<notin> TERMINAL_RUN_STATUSES)
           (dvals (rr_runs R))) \<le> 1"
  using assms
  by (intro filter_inj_on)
    (auto simp: run_repo_ok_def one_active_run_def run_active_def keyed_distinct_vals(1))

lemma skill_review_unique:
  assumes "run_repo_ok R"
  shows "length (filter (\<lambda>r. r_parent_run_id r = Some parent \<and> r_kind r = SKILL_REVIEW)
           (dvals (rr_runs R))) \<le> 1"
proof -
  have "length (filter (\<lambda>r. r_parent_run_id r = Some parent \<and> skill_child r)
           (dvals (rr_runs R))) \<le> 1"
    using assms
    by (intro filter_inj_on) (auto simp: run_repo_ok_def one_skill_review_def keyed_distinct_vals(1))
  moreover have "(\<lambda>r. r_parent_run_id r = Some parent \<and> skill_child r)
      = (\<lambda>r. r_parent_run_id r = Some parent \<and> r_kind r = SKILL_REVIEW)"
    by (auto simp: skill_child_def)
  ultimately show ?thesis by simp
qed

lemma active_for_session_answer:
  assumes "run_repo_ok R" and "session_get S sid p = Inr s"
  shows "\<exists>ans. active_for_session S R sid p = Inr ans
      \<and> (\<forall>r \<in> set (dvals (rr_runs R)). r_session_id r = sid \<and> run_active r \<longleftrightarrow> ans = Some r)"
proof -
  define rows where "rows = filter (\<lambda>r. r_session_id r = sid \<and> r_status r \<notin> TERMINAL_RUN_STATUSES)
    (dvals (rr_runs R))"
  have "length rows \<le> 1"
    using active_run_unique [OF assms(1), of sid] by (simp only: rows_def)
  then have "\<exists>ans. active_for_session S R sid p = Inr ans \<and> (\<forall>r. r \<in> set rows \<longleftrightarrow> ans = Some r)"
    using assms(2) unfolding active_for_session_def Let_def rows_def [symmetric]
    by (cases rows) auto
  moreover have "r \<in> set rows \<longleftrightarrow> r_session_id r = sid \<and> run_active r"
    if "r \<in> set (dvals (rr_runs R))" for r
    using that by (simp only: rows_def set_filter mem_Collect_eq run_active_def simp_thms)
  ultimately show ?thesis by metis
qed

lemma skill_review_no_conflict:
  assumes "run_repo_ok R"
  shows "child_for_parent S R parent SKILL_REVIEW p
      \<noteq> Inl (ConflictError ''parent has multiple child runs of one kind'' None)"
proof -
  define rows where "rows = filter (\<lambda>r. r_parent_run_id r = Some parent \<and> r_kind r = SKILL_REVIEW)
    (dvals (rr_runs R))"
  have "length rows \<le> 1"
    using skill_review_unique [OF assms, of parent] by (simp only: rows_def)
  then have "rows = [] \<or> (\<exists>r. rows = [r])" by (cases rows) auto
  then show ?thesis
    unfolding child_for_parent_def Let_def rows_def [symmetric]
    by (auto simp: rbind_Inl_iff dest: session_get_Inl)
qed

text \<open>The single pass of \<open>latest_for_sessions\<close> agrees with the per-session maximum.\<close>

lemma keep_latest_fold:
  "dget (fold (keep_latest A) rows []) sid =
     (if sid \<in> A then max_by run_recency (filter (\<lambda>r. r_session_id r = sid) rows) else None)"
proof (induction rows rule: rev_induct)
  case Nil
  then show ?case by simp
next
  case (snoc r rows)
  then show ?case
    by (auto simp: keep_latest_def max_by_append1 split: option.splits)
qed

lemma collect_owned_eq:
  assumes "0 < n"
  shows "collect_owned S p n rows
       = take n (filter (\<lambda>r. is_ok (session_get S (r_session_id r) p)) rows)"
  using assms by (induction rows arbitrary: n) (auto simp: take_Cons')

subsection \<open>Properties\<close>

text \<open>
  C7. In every state the repository can reach, a session has at most one run that is not terminal
  and a parent run has at most one skill-review child, so the consistency errors of
  \<open>active_for_session\<close> and of the skill-review lookup are never raised: the owner of a session gets an
  answer, and if the answer is a run, it is the session's only active run.
\<close>

theorem active_run_lookup_total:
  assumes "run_step\<^sup>*\<^sup>* empty_run_repo R" and "session_get S sid p = Inr s"
  shows "\<exists>ans. active_for_session S R sid p = Inr ans
      \<and> (\<forall>r \<in> set (dvals (rr_runs R)). r_session_id r = sid \<and> run_active r \<longleftrightarrow> ans = Some r)
      \<and> child_for_parent S R par SKILL_REVIEW p
          \<noteq> Inl (ConflictError ''parent has multiple child runs of one kind'' None)"
proof -
  have ok: "run_repo_ok R" using run_steps_ok [OF assms(1)] by simp
  obtain ans where "active_for_session S R sid p = Inr ans"
    "\<forall>r \<in> set (dvals (rr_runs R)). r_session_id r = sid \<and> run_active r \<longleftrightarrow> ans = Some r"
    using active_for_session_answer [OF ok assms(2)] by blast
  then show ?thesis
    using skill_review_no_conflict [OF ok, of S par p] by (intro exI [of _ ans] conjI)
qed

text \<open>
  C8. A run that has completed, failed or been cancelled keeps that status through every later
  operation of the repository; before that its status only follows edges of the run diagram.
\<close>

theorem run_terminal_forever:
  assumes "run_step\<^sup>*\<^sup>* R R'" and "dget (rr_runs R) i = Some r"
  shows "\<exists>r'. dget (rr_runs R') i = Some r' \<and> run_edge\<^sup>*\<^sup>* (r_status r) (r_status r')
      \<and> (run_terminal (r_status r) \<longrightarrow> r_status r' = r_status r)"
  using run_store.status_path [OF assms(1), of i "r_status r"]
    run_store.terminal_forever [OF assms(1), of i "r_status r"] assms(2)
  by auto

text \<open>
  A cancellation request survives everything that happens later, including counter updates made
  from a copy of the run that was read before the request; the provider pin and the seed sequence
  are likewise never replaced once set, and no operation moves a run to another session, tenant,
  agent or deadline.
\<close>

theorem run_cancellation_sticks:
  assumes "request_cancellation R i e t u = Inr (r, R1)" and "run_step\<^sup>*\<^sup>* R1 R2"
  shows "\<exists>r'. dget (rr_runs R2) i = Some r' \<and> r_cancel_requested_at r' = r_cancel_requested_at r
      \<and> r_cancel_requested_at r' \<noteq> None
      \<and> r_session_id r' = r_session_id r \<and> r_tenant_id r' = r_tenant_id r
      \<and> r_agent_id r' = r_agent_id r \<and> r_deadline_at r' = r_deadline_at r
      \<and> (r_provider_pin r \<noteq> None \<longrightarrow> r_provider_pin r' = r_provider_pin r)
      \<and> (r_seed_event_sequence r \<noteq> 0 \<longrightarrow> r_seed_event_sequence r' = r_seed_event_sequence r)"
proof -
  have r: "dget (rr_runs R1) i = Some r" "r_cancel_requested_at r \<noteq> None"
    using assms(1) by (auto simp: request_cancellation_def rbind_Inr_iff Let_def split: option.splits)
  obtain r' where "dget (rr_runs R2) i = Some r'" "run_evolves r r'"
    using run_steps_evolve [OF assms(2) r(1)] by blast
  with r(2) show ?thesis by (intro exI [of _ r']) (simp add: run_evolves_def)
qed

text \<open>
  What a counter update does: it succeeds exactly when no lease is given, the run is stored in
  the supplied status and the supplied run differs from the stored one at most in its counters, its
  usage, its update time, and in missing a cancellation request that is already stored; the stored
  run is then the supplied one, with the stored cancellation request.
\<close>

theorem update_counters_effect:
  "update_counters R run lease = Inr R' \<longleftrightarrow>
     lease = None \<and> (\<exists>current. dget (rr_runs R) (r_id run) = Some current
       \<and> run\<lparr> r_step_count := 0, r_model_call_count := 0, r_tool_call_count := 0,
              r_usage := zero_usage, r_updated_at := 0,
              r_cancel_requested_at := r_cancel_requested_at current \<rparr>
         = current\<lparr> r_step_count := 0, r_model_call_count := 0, r_tool_call_count := 0,
              r_usage := zero_usage, r_updated_at := 0 \<rparr>
       \<and> (r_cancel_requested_at run = None \<or> r_cancel_requested_at run = r_cancel_requested_at current)
       \<and> R' = R\<lparr> rr_runs := dset (r_id run)
             (run\<lparr> r_cancel_requested_at := r_cancel_requested_at current \<rparr>) (rr_runs R) \<rparr>)"
proof (cases "dget (rr_runs R) (r_id run)")
  case None
  then show ?thesis by (simp add: update_counters_def)
next
  case (Some current)
  then show ?thesis
    by (cases run; cases current)
      (auto simp: update_counters_def Let_def)
qed

text \<open>
  The single-pass projection over many sessions is equivalent to asking for each session: it
  holds an entry for exactly the requested sessions the principal owns and that have a run, and the
  entry is what \<open>latest_for_session\<close> answers.
\<close>

theorem latest_for_sessions_agrees:
  "dget (latest_for_sessions S R sids p) sid =
     (if sid \<in> set sids then (case latest_for_session S R sid p of Inl _ \<Rightarrow> None | Inr ans \<Rightarrow> ans)
      else None)"
  by (cases "session_get S sid p")
    (auto simp: latest_for_sessions_def latest_for_session_def keep_latest_fold)

text \<open>
  Paging through the runs that wait for their owner loses and repeats nothing: continuing after
  the id of the last row of a full page gives exactly the next rows of the unpaged listing.
\<close>

theorem waiting_for_user_pages:
  assumes "run_repo_ok R" and "waiting_for_user S R p (int n) None = page" and "length page = n"
    and "0 < n" and "0 < m"
  shows "page @ waiting_for_user S R p (int m) (Some (r_id (last page)))
      = waiting_for_user S R p (int (n + m)) None"
proof -
  define owned :: "run \<Rightarrow> bool" where "owned = (\<lambda>r. is_ok (session_get S (r_session_id r) p))"
  define base where "base = filter (\<lambda>r. r_status r = Run_WAITING_FOR_USER) (dvals (rr_runs R))"
  define full where "full = filter owned (sort_key r_id base)"
  have keyed: "keyed r_id (rr_runs R)" using assms(1) by (simp add: run_repo_ok_def)
  have "distinct base" "inj_on r_id (set base)"
    using keyed_distinct_vals [OF keyed] by (auto simp: base_def intro: inj_on_subset)
  then have strict: "sorted_wrt (<) (map r_id full)"
    by (simp add: full_def strict_sorted_iff distinct_map sorted_filter inj_on_subset [of r_id "set base"])
  have first: "waiting_for_user S R p (int k) None = take k full" if "0 < k" for k
    using that by (simp add: waiting_for_user_def collect_owned_eq full_def base_def owned_def)
  have nxt: "waiting_for_user S R p (int k) (Some a) = take k (filter (\<lambda>r. a < r_id r) full)"
    if "0 < k" for k a
    using that
    by (simp add: waiting_for_user_def collect_owned_eq full_def base_def owned_def filter_sort
        conj_ac)
  have page: "page = take n full" using assms(2,4) by (simp add: first)
  have n: "n \<le> length full" using assms(3) page by simp
  have last: "last page = full ! (n - 1)"
    using assms(4) n by (subst last_conv_nth) (auto simp: page min_def)
  have "filter (\<lambda>r. r_id (full ! (n - 1)) < r_id r) full = drop n full"
    using filter_above_nth [OF strict, of "n - 1"] n assms(4) by simp
  then have "waiting_for_user S R p (int m) (Some (r_id (last page))) = take m (drop n full)"
    using assms(5) by (simp add: nxt last)
  then show ?thesis
    using assms(4) first [of "n + m"] by (simp add: page take_add)
qed

subsection \<open>Witnesses\<close>

definition sample_run :: "uuid \<Rightarrow> run_status \<Rightarrow> run" where
  "sample_run i st = \<lparr> r_id = i, r_session_id = i, r_parent_run_id = None, r_kind = INTERACTIVE,
     r_tenant_id = ''t1'', r_principal_scopes = {}, r_agent_id = 9, r_agent_version = ''1'',
     r_status = st, r_step_count = 0, r_model_call_count = 0, r_tool_call_count = 0,
     r_limits = default_run_limits, r_usage = zero_usage, r_lease_owner = None,
     r_lease_expires_at = None, r_lease_epoch = 0, r_attempts = 0, r_lease_expirations = 0,
     r_priority = 0, r_scheduled_for = None, r_deadline_at = None, r_cancel_requested_at = None,
     r_failure = None, r_final_message = None, r_export_consent = False, r_provider_pin = None,
     r_seed_event_sequence = 0, r_created_at = 1, r_updated_at = 1 \<rparr>"

definition sample_runs :: run_repo where
  "sample_runs = \<lparr> rr_runs = [(1, sample_run 1 Run_QUEUED)], rr_people_erased = [] \<rparr>"

definition sample_cancelled :: run where
  "sample_cancelled = (sample_run 1 Run_QUEUED)\<lparr> r_cancel_requested_at := Some 5, r_updated_at := 6 \<rparr>"

definition sample_runs_cancelled :: run_repo where
  "sample_runs_cancelled = \<lparr> rr_runs = [(1, sample_cancelled)], rr_people_erased = [] \<rparr>"

lemma sample_create: "run_step empty_run_repo sample_runs"
  by (rule rstep_create [of "sample_run 1 Run_QUEUED"])
    (simp_all add: deadline_matches_limits_def run_create_def empty_run_repo_def sample_runs_def
      sample_run_def default_run_limits_def dhas_def TERMINAL_RUN_STATUSES_def)

lemma sample_cancel:
  "request_cancellation sample_runs 1 Run_QUEUED 5 6 = Inr (sample_cancelled, sample_runs_cancelled)"
  by (simp add: request_cancellation_def sample_runs_def sample_runs_cancelled_def
      sample_cancelled_def sample_run_def dlookup_def Let_def)

theorem active_run_lookup_total_witness:
  "active_for_session sample_sessions sample_runs 1 alice = Inr (Some (sample_run 1 Run_QUEUED))"
proof -
  have get: "session_get sample_sessions 1 alice = Inr (sample_session 1 (Some ''plan'') 10)"
    by (simp add: session_get_def dlookup_def sample_session_defs)
  have "sample_run 1 Run_QUEUED \<in> set (dvals (rr_runs sample_runs))"
    "r_session_id (sample_run 1 Run_QUEUED) = 1 \<and> run_active (sample_run 1 Run_QUEUED)"
    by (simp_all add: sample_runs_def sample_run_def run_active_def TERMINAL_RUN_STATUSES_def)
  moreover obtain ans where "active_for_session sample_sessions sample_runs 1 alice = Inr ans"
    "\<forall>r \<in> set (dvals (rr_runs sample_runs)). r_session_id r = 1 \<and> run_active r \<longleftrightarrow> ans = Some r"
    using active_run_lookup_total [OF r_into_rtranclp [of run_step, OF sample_create] get, of 7]
    by blast
  ultimately show ?thesis by metis
qed

theorem run_terminal_forever_witness:
  "\<exists>R' r'. run_transition sample_runs 1 Run_QUEUED Run_CANCELLED None None None 3 = Inr (r', R')
      \<and> dget (rr_runs R') 1 = Some r' \<and> run_edge\<^sup>*\<^sup>* Run_QUEUED (r_status r')"
proof -
  define r' where "r' = (sample_run 1 Run_CANCELLED)\<lparr> r_updated_at := 3 \<rparr>"
  define R' where "R' = sample_runs\<lparr> rr_runs := [(1, r')] \<rparr>"
  have t: "run_transition sample_runs 1 Run_QUEUED Run_CANCELLED None None None 3 = Inr (r', R')"
    by (simp add: run_transition_def sample_runs_def sample_run_def dlookup_def Let_def r'_def R'_def
        require_transition_def dhas_def)
  have "dget (rr_runs sample_runs) 1 = Some (sample_run 1 Run_QUEUED)"
    by (simp add: sample_runs_def)
  from run_terminal_forever [OF r_into_rtranclp [of run_step, OF rstep_transition [OF t]] this]
  show ?thesis using t by (auto simp: R'_def sample_run_def)
qed

theorem run_cancellation_sticks_witness:
  "\<exists>R2. update_counters sample_runs_cancelled
       ((sample_run 1 Run_QUEUED)\<lparr> r_step_count := 1, r_updated_at := 8 \<rparr>) None = Inr R2
     \<and> (\<exists>r'. dget (rr_runs R2) 1 = Some r' \<and> r_cancel_requested_at r' = Some 5)"
proof -
  obtain R2 where R2: "update_counters sample_runs_cancelled
       ((sample_run 1 Run_QUEUED)\<lparr> r_step_count := 1, r_updated_at := 8 \<rparr>) None = Inr R2"
    by (simp add: update_counters_def sample_runs_cancelled_def sample_cancelled_def sample_run_def
        dlookup_def Let_def)
  from run_cancellation_sticks [OF sample_cancel
      r_into_rtranclp [of run_step, OF rstep_counters [OF R2]]]
  show ?thesis using R2 by (auto simp: sample_cancelled_def)
qed

definition sample_waiting :: run_repo where
  "sample_waiting = \<lparr> rr_runs = [(3, sample_run 3 Run_WAITING_FOR_USER),
     (1, sample_run 1 Run_WAITING_FOR_USER)], rr_people_erased = [] \<rparr>"

theorem waiting_for_user_pages_witness:
  "waiting_for_user sample_sessions sample_waiting alice 1 None = [sample_run 1 Run_WAITING_FOR_USER]
   \<and> waiting_for_user sample_sessions sample_waiting alice 1 (Some 1)
       = [sample_run 3 Run_WAITING_FOR_USER]"
proof -
  have ok: "run_repo_ok sample_waiting"
    by (auto simp: run_repo_ok_def keyed_def sample_waiting_def sample_run_def one_active_run_def
        one_skill_review_def deadlines_ok_def default_run_limits_def inj_on_def skill_child_def)
  have get: "session_get sample_sessions 1 alice = Inr (sample_session 1 (Some ''plan'') 10)"
    "session_get sample_sessions 3 alice = Inr (sample_session 3 None 20)"
    by (simp_all add: session_get_def dlookup_def sample_session_defs)
  have page: "waiting_for_user sample_sessions sample_waiting alice 1 None
      = [sample_run 1 Run_WAITING_FOR_USER]"
    "waiting_for_user sample_sessions sample_waiting alice 2 None
      = [sample_run 1 Run_WAITING_FOR_USER, sample_run 3 Run_WAITING_FOR_USER]"
    using get by (simp_all add: waiting_for_user_def sample_waiting_def sample_run_def)
  from waiting_for_user_pages [OF ok, of sample_sessions alice 1 "[sample_run 1 Run_WAITING_FOR_USER]" 1]
  show ?thesis using page by (simp add: sample_run_def)
qed

end
