(* ===== verification/Budgets.thy ===== *)
theory Budgets
  imports Run_Repo
begin

text \<open>
  Budget enforcement of \<open>runtime/budgets.py\<close>, the usage repository of
  \<open>adapters/persistence/memory.py\<close> it records attempts in, and the cancellation token of
  \<open>runtime/cancellation.py\<close>. The ledgers mutate the \<open>Run\<close> object they are given, so each operation
  returns its result, the run as it was left and the store as it was left. The unit-of-work ledger
  runs over the in-memory tier, whose unit of work does not undo what a repository already stored.
\<close>

subsection \<open>Values\<close>

datatype cost_source =
  PROVIDER_COST_API | GENERATION_USAGE | MODEL_CATALOG | DOCS_SNAPSHOT | CONFIG_OVERRIDE

datatype stop_reason =
  END_TURN | TOOL_USE | MAX_TOKENS | STOP_SEQUENCE | CONTENT_FILTER | INCOMPLETE | Stop_CANCELLED

datatype model_error_kind = Error_TRANSIENT | Error_PERMANENT | Error_PROTOCOL

record model_usage =
  mu_input_tokens :: int
  mu_cached_input_tokens :: int
  mu_cache_write_input_tokens :: int
  mu_cache_write_1h_input_tokens :: int
  mu_output_tokens :: int
  mu_reasoning_tokens :: "int option"
  mu_cost :: rat
  mu_cost_source :: cost_source
  mu_provider :: string
  mu_model :: string

record model_attempt =
  at_attempt_id :: uuid
  at_run_id :: uuid
  at_step_number :: int
  at_attempt_number :: int
  at_started_at :: instant

record run_loop_step =
  st_run_id :: uuid
  st_step_number :: int
  st_started_at :: instant
  st_attempt_count :: int
  st_tool_call_count :: int
  st_compactions :: int

text \<open>
  Of a resolved model and of a request the ledger reads only these parts; of the model turn only
  the provider metadata, which it stores unopened.
\<close>

record resolved_model =
  rm_provider :: string
  rm_model :: string
  rm_policy_name :: string

type_synonym request_metadata = "(string, string) dict"

record model_call_record =
  mc_attempt_id :: uuid
  mc_run_id :: uuid
  mc_session_id :: uuid
  mc_tenant_id :: string
  mc_step_number :: int
  mc_attempt_number :: int
  mc_provider :: string
  mc_model :: string
  mc_model_policy :: string
  mc_registry_version :: string
  mc_prefix_sha256 :: string
  mc_usage :: model_usage
  mc_cost :: rat
  mc_cost_source :: cost_source
  mc_price_id :: "string option"
  mc_stop_reason :: "stop_reason option"
  mc_error_kind :: "model_error_kind option"
  mc_metadata :: "json option"
  mc_started_at :: instant
  mc_finished_at :: "instant option"

record usage_rollup =
  ro_input_tokens :: int
  ro_cached_input_tokens :: int
  ro_cache_write_input_tokens :: int
  ro_output_tokens :: int
  ro_reasoning_tokens :: "int option"
  ro_cost :: rat

subsection \<open>The usage repository\<close>

type_synonym usage_repo = "(uuid, model_call_record) dict"

text \<open>\<open>dict.setdefault\<close>: a stored attempt is kept.\<close>

definition record_attempt :: "usage_repo \<Rightarrow> model_call_record \<Rightarrow> usage_repo" where
  "record_attempt U call =
     (if dhas U (mc_attempt_id call) then U else dset (mc_attempt_id call) call U)"

definition sum_reasoning :: "model_call_record list \<Rightarrow> int option" where
  "sum_reasoning calls =
     (let reasoning = List.map_filter (\<lambda>c. mu_reasoning_tokens (mc_usage c)) calls
      in if reasoning = [] then None else Some (sum_list reasoning))"

definition run_usage_of :: "usage_repo \<Rightarrow> uuid \<Rightarrow> run_usage" where
  "run_usage_of U run_id =
     (let calls = filter (\<lambda>c. mc_run_id c = run_id) (dvals U)
      in \<lparr> u_input_tokens = sum_list (map (\<lambda>c. mu_input_tokens (mc_usage c)) calls),
           u_cached_input_tokens = sum_list (map (\<lambda>c. mu_cached_input_tokens (mc_usage c)) calls),
           u_cache_write_input_tokens =
             sum_list (map (\<lambda>c. mu_cache_write_input_tokens (mc_usage c)) calls),
           u_output_tokens = sum_list (map (\<lambda>c. mu_output_tokens (mc_usage c)) calls),
           u_reasoning_tokens = sum_reasoning calls,
           u_model_calls = int (length calls),
           u_tool_calls = 0,
           u_cost = sum_list (map mc_cost calls) \<rparr>)"

definition tenant_usage :: "usage_repo \<Rightarrow> string \<Rightarrow> instant \<Rightarrow> instant \<Rightarrow> usage_rollup" where
  "tenant_usage U tenant since until =
     (let calls = filter (\<lambda>c. mc_tenant_id c = tenant \<and> since \<le> mc_started_at c
                            \<and> mc_started_at c < until) (dvals U)
      in \<lparr> ro_input_tokens = sum_list (map (\<lambda>c. mu_input_tokens (mc_usage c)) calls),
           ro_cached_input_tokens = sum_list (map (\<lambda>c. mu_cached_input_tokens (mc_usage c)) calls),
           ro_cache_write_input_tokens =
             sum_list (map (\<lambda>c. mu_cache_write_input_tokens (mc_usage c)) calls),
           ro_output_tokens = sum_list (map (\<lambda>c. mu_output_tokens (mc_usage c)) calls),
           ro_reasoning_tokens = sum_reasoning calls,
           ro_cost = sum_list (map mc_cost calls) \<rparr>)"

subsection \<open>Checks\<close>

definition reaches :: "'a::linorder \<Rightarrow> 'a option \<Rightarrow> bool" where
  "reaches x limit = (case limit of None \<Rightarrow> False | Some l \<Rightarrow> x \<ge> l)"

definition exceeds :: "'a::linorder \<Rightarrow> 'a option \<Rightarrow> bool" where
  "exceeds x limit = (case limit of None \<Rightarrow> False | Some l \<Rightarrow> x > l)"

abbreviation budget_exceeded :: "string \<Rightarrow> error" where
  "budget_exceeded msg \<equiv> BudgetExceededError ''budget_exceeded'' msg"

definition check_before_operation :: "run \<Rightarrow> budget_scope \<Rightarrow> instant \<Rightarrow> unit res" where
  "check_before_operation run sc now =
     (if reaches now (r_deadline_at run)
      then Inl (BudgetExceededError ''deadline_exceeded'' ''the run deadline elapsed'')
      else if (r_kind run \<noteq> JOB \<or> sc = Scope_ATTEMPT)
           \<and> reaches (u_cost (r_usage run)) (max_cost (r_limits run))
      then Inl (budget_exceeded ''the run cost limit was reached'')
      else if sc = Scope_STEP \<and> r_step_count run \<ge> max_steps (r_limits run)
      then Inl (BudgetExceededError ''max_steps_exceeded'' ''the run step limit was reached'')
      else if sc = Scope_TOOL_CALL \<and> r_tool_call_count run \<ge> max_tool_calls (r_limits run)
      then Inl (budget_exceeded ''the run tool-call limit was reached'')
      else if sc = Scope_ATTEMPT then
        (if r_model_call_count run \<ge> max_model_calls (r_limits run)
         then Inl (budget_exceeded ''the run model-call limit was reached'')
         else if reaches (u_input_tokens (r_usage run)) (max_input_tokens (r_limits run))
         then Inl (budget_exceeded ''the run input-token limit was reached'')
         else if reaches (u_output_tokens (r_usage run)) (max_output_tokens (r_limits run))
         then Inl (budget_exceeded ''the run output-token limit was reached'')
         else Inr ())
      else Inr ())"

definition check_after_record :: "run \<Rightarrow> unit res" where
  "check_after_record run =
     (if r_model_call_count run > max_model_calls (r_limits run)
      then Inl (budget_exceeded ''model-call budget exceeded'')
      else if r_tool_call_count run > max_tool_calls (r_limits run)
      then Inl (budget_exceeded ''tool-call budget exceeded'')
      else if exceeds (u_input_tokens (r_usage run)) (max_input_tokens (r_limits run))
      then Inl (budget_exceeded ''input-token budget exceeded'')
      else if exceeds (u_output_tokens (r_usage run)) (max_output_tokens (r_limits run))
      then Inl (budget_exceeded ''output-token budget exceeded'')
      else if exceeds (u_cost (r_usage run)) (max_cost (r_limits run))
      then Inl (budget_exceeded ''cost budget exceeded'')
      else Inr ())"

text \<open>
  What \<open>int(s, 16)\<close> accepts: surrounding white space, a sign, a \<open>0x\<close> prefix, and single
  underscores between digits (and after the prefix).
\<close>

definition is_hex_char :: "char \<Rightarrow> bool" where
  "is_hex_char c \<longleftrightarrow> c \<in> set ''0123456789abcdefABCDEF''"

definition hex_groups :: "string \<Rightarrow> bool" where
  "hex_groups s \<longleftrightarrow> (\<forall>g \<in> set (split_on (CHR ''_'') s). g \<noteq> [] \<and> list_all is_hex_char g)"

definition drop_sign :: "string \<Rightarrow> string" where
  "drop_sign s = (case s of [] \<Rightarrow> [] | c # r \<Rightarrow> if c = CHR ''+'' \<or> c = CHR ''-'' then r else s)"

definition int_base16_ok :: "string \<Rightarrow> bool" where
  "int_base16_ok s =
     (let t = drop_sign (py_strip s)
      in if starts_with t ''0x'' \<or> starts_with t ''0X''
         then hex_groups (let r = drop 2 t in if starts_with r ''_'' then tl r else r)
         else hex_groups t)"

definition require_prefix_hash :: "request_metadata \<Rightarrow> string res" where
  "require_prefix_hash metadata = (case dget metadata ''prefix_sha256'' of
      None \<Rightarrow> Inl (RuntimeError ''durable model usage requires a 64-character prefix_sha256'')
    | Some h \<Rightarrow>
        if length h \<noteq> 64
        then Inl (RuntimeError ''durable model usage requires a 64-character prefix_sha256'')
        else if \<not> int_base16_ok h
        then Inl (RuntimeError ''durable model usage requires a hexadecimal prefix_sha256'')
        else Inr h)"

subsection \<open>The in-memory ledger\<close>

definition add_model_usage :: "run_usage \<Rightarrow> model_usage \<Rightarrow> run_usage" where
  "add_model_usage u m = \<lparr>
     u_input_tokens = u_input_tokens u + mu_input_tokens m,
     u_cached_input_tokens = u_cached_input_tokens u + mu_cached_input_tokens m,
     u_cache_write_input_tokens = u_cache_write_input_tokens u + mu_cache_write_input_tokens m,
     u_output_tokens = u_output_tokens u + mu_output_tokens m,
     u_reasoning_tokens = (case mu_reasoning_tokens m of
         None \<Rightarrow> u_reasoning_tokens u
       | Some r \<Rightarrow> Some ((case u_reasoning_tokens u of None \<Rightarrow> 0 | Some q \<Rightarrow> q) + r)),
     u_model_calls = u_model_calls u + 1,
     u_tool_calls = u_tool_calls u,
     u_cost = u_cost u + mu_cost m \<rparr>"

definition charge_model :: "run \<Rightarrow> model_usage \<Rightarrow> instant \<Rightarrow> run" where
  "charge_model run m now = run\<lparr> r_usage := add_model_usage (r_usage run) m,
     r_model_call_count := r_model_call_count run + 1, r_updated_at := now \<rparr>"

definition charge_tools :: "run \<Rightarrow> int \<Rightarrow> instant \<Rightarrow> run" where
  "charge_tools run count now = run\<lparr> r_tool_call_count := r_tool_call_count run + count,
     r_usage := (r_usage run)\<lparr> u_tool_calls := u_tool_calls (r_usage run) + count \<rparr>,
     r_updated_at := now \<rparr>"

definition refund_turn :: "run \<Rightarrow> instant \<Rightarrow> run" where
  "refund_turn run now = run\<lparr>
     r_step_count := (if r_step_count run > 0 then r_step_count run - 1 else r_step_count run),
     r_model_call_count :=
       (if r_model_call_count run > 0 then r_model_call_count run - 1 else r_model_call_count run),
     r_updated_at := now \<rparr>"

definition mem_record_model_usage ::
    "run_repo \<Rightarrow> run \<Rightarrow> model_usage \<Rightarrow> instant \<Rightarrow> unit res \<times> run \<times> run_repo" where
  "mem_record_model_usage R run m now =
     (let run' = charge_model run m now
      in case update_counters R run' None of
           Inl e \<Rightarrow> (Inl e, run', R)
         | Inr R' \<Rightarrow> (check_after_record run', run', R'))"

definition mem_record_tool_usage ::
    "run_repo \<Rightarrow> run \<Rightarrow> int \<Rightarrow> instant \<Rightarrow> unit res \<times> run \<times> run_repo" where
  "mem_record_tool_usage R run count now =
     (let run' = charge_tools run count now
      in case update_counters R run' None of
           Inl e \<Rightarrow> (Inl e, run', R)
         | Inr R' \<Rightarrow> (check_after_record run', run', R'))"

definition mem_refund_orchestration_turn ::
    "run_repo \<Rightarrow> run \<Rightarrow> instant \<Rightarrow> unit res \<times> run \<times> run_repo" where
  "mem_refund_orchestration_turn R run now =
     (let run' = refund_turn run now
      in case update_counters R run' None of
           Inl e \<Rightarrow> (Inl e, run', R)
         | Inr R' \<Rightarrow> (Inr (), run', R'))"

subsection \<open>The unit-of-work ledger\<close>

record ledger_store =
  ls_usage :: usage_repo
  ls_runs :: run_repo

definition restore_run_accounting :: "run \<Rightarrow> run \<Rightarrow> run" where
  "restore_run_accounting run snapshot = run\<lparr> r_usage := r_usage snapshot,
     r_step_count := r_step_count snapshot, r_model_call_count := r_model_call_count snapshot,
     r_tool_call_count := r_tool_call_count snapshot, r_updated_at := r_updated_at snapshot \<rparr>"

text \<open>The recorded call: \<open>finished\<close> is the second reading of the clock.\<close>

definition model_call_of ::
    "run \<Rightarrow> model_usage \<Rightarrow> run_loop_step \<Rightarrow> model_attempt \<Rightarrow> resolved_model \<Rightarrow> string \<Rightarrow>
       json option \<Rightarrow> string option \<Rightarrow> stop_reason option \<Rightarrow> model_error_kind option \<Rightarrow> instant \<Rightarrow>
       model_call_record" where
  "model_call_of run m step attempt resolved prefix turn_metadata registry stop err finished = \<lparr>
     mc_attempt_id = at_attempt_id attempt, mc_run_id = r_id run, mc_session_id = r_session_id run,
     mc_tenant_id = r_tenant_id run, mc_step_number = st_step_number step,
     mc_attempt_number = at_attempt_number attempt, mc_provider = rm_provider resolved,
     mc_model = rm_model resolved, mc_model_policy = rm_policy_name resolved,
     mc_registry_version = (case registry of Some (c # v) \<Rightarrow> c # v | _ \<Rightarrow> ''fake-model-catalog@1''),
     mc_prefix_sha256 = prefix, mc_usage = m, mc_cost = mu_cost m,
     mc_cost_source = mu_cost_source m, mc_price_id = None, mc_stop_reason = stop,
     mc_error_kind = err, mc_metadata = turn_metadata, mc_started_at = at_started_at attempt,
     mc_finished_at = Some finished \<rparr>"

definition uow_record_model_usage ::
    "ledger_store \<Rightarrow> worker_lease option \<Rightarrow> run \<Rightarrow> model_usage \<Rightarrow> run_loop_step \<Rightarrow>
       model_attempt option \<Rightarrow> request_metadata option \<Rightarrow> resolved_model option \<Rightarrow> json option \<Rightarrow>
       string option \<Rightarrow> stop_reason option \<Rightarrow> model_error_kind option \<Rightarrow> instant \<Rightarrow> instant \<Rightarrow>
       unit res \<times> run \<times> ledger_store" where
  "uow_record_model_usage L lease run m step attempt request resolved turn_metadata registry stop err
     now finished =
     (case (attempt, request, resolved) of
        (Some a, Some q, Some v) \<Rightarrow>
          (let run' = charge_model run m now;
               restored = restore_run_accounting run' run
           in case require_prefix_hash q of
                Inl e \<Rightarrow> (Inl e, restored, L)
              | Inr prefix \<Rightarrow>
                  (let U' = record_attempt (ls_usage L)
                         (model_call_of run' m step a v prefix turn_metadata registry stop err finished)
                   in case update_counters (ls_runs L) run' lease of
                        Inl e \<Rightarrow> (Inl e, restored, L\<lparr> ls_usage := U' \<rparr>)
                      | Inr R' \<Rightarrow>
                          (check_after_record run', run', L\<lparr> ls_usage := U', ls_runs := R' \<rparr>)))
      | _ \<Rightarrow> (Inl (RuntimeError ''durable model usage requires attempt, request, and resolution''),
              run, L))"

definition uow_record_tool_usage ::
    "ledger_store \<Rightarrow> worker_lease option \<Rightarrow> run \<Rightarrow> int \<Rightarrow> instant \<Rightarrow>
       unit res \<times> run \<times> ledger_store" where
  "uow_record_tool_usage L lease run count now =
     (let run' = charge_tools run count now
      in case update_counters (ls_runs L) run' lease of
           Inl e \<Rightarrow> (Inl e, restore_run_accounting run' run, L)
         | Inr R' \<Rightarrow> (check_after_record run', run', L\<lparr> ls_runs := R' \<rparr>))"

definition uow_refund_orchestration_turn ::
    "ledger_store \<Rightarrow> worker_lease option \<Rightarrow> run \<Rightarrow> instant \<Rightarrow> unit res \<times> run \<times> ledger_store" where
  "uow_refund_orchestration_turn L lease run now =
     (let run' = refund_turn run now
      in case update_counters (ls_runs L) run' lease of
           Inl e \<Rightarrow> (Inl e, restore_run_accounting run' run, L)
         | Inr R' \<Rightarrow> (Inr (), run', L\<lparr> ls_runs := R' \<rparr>))"

subsection \<open>The cancellation token\<close>

record cancellation_token =
  ct_deadline_at :: "instant option"
  ct_reason :: "cancel_reason option"

definition token_cancel :: "cancellation_token \<Rightarrow> cancel_reason \<Rightarrow> cancellation_token" where
  "token_cancel tok reason =
     (if ct_reason tok = None then tok\<lparr> ct_reason := Some reason \<rparr> else tok)"

definition token_reason ::
    "cancellation_token \<Rightarrow> instant \<Rightarrow> cancel_reason option \<times> cancellation_token" where
  "token_reason tok now =
     (let tok' = (if ct_reason tok = None \<and> reaches now (ct_deadline_at tok)
                  then token_cancel tok Cancel_DEADLINE else tok)
      in (ct_reason tok', tok'))"

definition raise_if_cancelled ::
    "cancellation_token \<Rightarrow> instant \<Rightarrow> unit res \<times> cancellation_token" where
  "raise_if_cancelled tok now =
     (let (reason, tok') = token_reason tok now
      in case reason of
           None \<Rightarrow> (Inr (), tok')
         | Some r \<Rightarrow> (Inl (RunCancelledError (cancel_reason_value r)), tok'))"

subsection \<open>The contract the ledgers rely on\<close>

text \<open>
  A counter store saves a run's accounting or refuses; what it saved is what it was given, except
  that a cancellation request it already holds is kept, and no other run is touched.
\<close>

locale counter_store =
  fixes save :: "'st \<Rightarrow> run \<Rightarrow> 'st res"
    and stored :: "'st \<Rightarrow> uuid \<Rightarrow> run option"
  assumes save_stored: "save s r = Inr s' \<Longrightarrow> \<exists>cur. stored s (r_id r) = Some cur
      \<and> stored s' (r_id r) = Some (r\<lparr> r_cancel_requested_at := r_cancel_requested_at cur \<rparr>)"
    and save_other: "save s r = Inr s' \<Longrightarrow> i \<noteq> r_id r \<Longrightarrow> stored s' i = stored s i"
begin

definition saved_as :: "'st \<Rightarrow> run \<Rightarrow> 'st \<Rightarrow> bool" where
  "saved_as s r s' \<longleftrightarrow> (\<exists>cur. stored s (r_id r) = Some cur
      \<and> stored s' (r_id r) = Some (r\<lparr> r_cancel_requested_at := r_cancel_requested_at cur \<rparr>))
    \<and> (\<forall>i. i \<noteq> r_id r \<longrightarrow> stored s' i = stored s i)"

lemma saved: "save s r = Inr s' \<Longrightarrow> saved_as s r s'"
  using save_stored [of s r s'] save_other [of s r s'] by (auto simp: saved_as_def)

lemma counters_read_back:
  "saved_as s r s' \<Longrightarrow> \<exists>r'. stored s' (r_id r) = Some r' \<and> r_usage r' = r_usage r
     \<and> r_step_count r' = r_step_count r \<and> r_model_call_count r' = r_model_call_count r
     \<and> r_tool_call_count r' = r_tool_call_count r"
  by (auto simp: saved_as_def)

end

lemma update_counters_saves:
  assumes "update_counters R r l = Inr R'"
  shows "\<exists>cur. dget (rr_runs R) (r_id r) = Some cur
      \<and> R' = R\<lparr> rr_runs := dset (r_id r)
            (r\<lparr> r_cancel_requested_at := r_cancel_requested_at cur \<rparr>) (rr_runs R) \<rparr>"
proof -
  obtain cur where cur: "dget (rr_runs R) (r_id r) = Some cur"
    using assms by (auto simp: update_counters_def rbind_Inr_iff)
  with assms show ?thesis
    by (cases r; cases cur) (auto simp: update_counters_def Let_def split: if_splits)
qed

interpretation run_counters: counter_store "\<lambda>R r. update_counters R r l"
  "\<lambda>R i. dget (rr_runs R) i" for l
  by unfold_locales (auto dest: update_counters_saves)

subsection \<open>All or nothing\<close>

definition all_or_nothing ::
    "ledger_store \<Rightarrow> run \<Rightarrow> run \<Rightarrow> unit res \<times> run \<times> ledger_store \<Rightarrow> bool" where
  "all_or_nothing L run charged out = (case out of (result, run', L') \<Rightarrow>
     (\<not> is_ok result \<and> run' = run \<and> ls_runs L' = ls_runs L)
     \<or> (run' = charged \<and> run_counters.saved_as (ls_runs L) charged (ls_runs L')))"

lemma restore_charged [simp]:
  "restore_run_accounting (charge_model run m now) run = run"
  "restore_run_accounting (charge_tools run c now) run = run"
  "restore_run_accounting (refund_turn run now) run = run"
  by (simp_all add: restore_run_accounting_def charge_model_def charge_tools_def refund_turn_def)

lemma uow_model_all_or_nothing: "all_or_nothing L run (charge_model run m now)
    (uow_record_model_usage L lease run m step a q v tm reg stop err now fin)"
  by (auto simp: uow_record_model_usage_def all_or_nothing_def Let_def
      split: option.splits sum.splits intro: run_counters.saved)

lemma uow_tools_all_or_nothing: "all_or_nothing L run (charge_tools run c now)
    (uow_record_tool_usage L lease run c now)"
  by (auto simp: uow_record_tool_usage_def all_or_nothing_def Let_def
      split: sum.splits intro: run_counters.saved)

lemma uow_refund_all_or_nothing: "all_or_nothing L run (refund_turn run now)
    (uow_refund_orchestration_turn L lease run now)"
  by (auto simp: uow_refund_orchestration_turn_def all_or_nothing_def Let_def
      split: sum.splits intro: run_counters.saved)

lemma all_or_nothing_run:
  "all_or_nothing L run charged (result, run', L') \<Longrightarrow> run' = run \<or> run' = charged"
  by (auto simp: all_or_nothing_def)

subsection \<open>Spending under the checks\<close>

inductive spend :: "run \<times> ledger_store \<Rightarrow> run \<times> ledger_store \<Rightarrow> bool" where
  spend_attempt: "check_before_operation run Scope_ATTEMPT t = Inr () \<Longrightarrow>
    uow_record_model_usage L lease run m step a q v tm reg stop err now fin = (result, run', L') \<Longrightarrow>
    spend (run, L) (run', L')"
| spend_tools: "uow_record_tool_usage L lease run c now = (result, run', L') \<Longrightarrow>
    spend (run, L) (run', L')"
| spend_refund: "uow_refund_orchestration_turn L lease run now = (result, run', L') \<Longrightarrow>
    spend (run, L) (run', L')"

definition model_calls_within :: "run \<Rightarrow> bool" where
  "model_calls_within run \<longleftrightarrow>
     0 \<le> r_model_call_count run \<and> r_model_call_count run \<le> max_model_calls (r_limits run)"

lemma spend_model_calls:
  assumes "spend (run, L) (run', L')" and "model_calls_within run"
  shows "model_calls_within run' \<and> r_limits run' = r_limits run \<and> r_id run' = r_id run"
  using assms(1)
proof cases
  case (spend_attempt t lease m step a q v tm reg stop err now fin result)
  have "run' = run \<or> run' = charge_model run m now"
    using uow_model_all_or_nothing [of L run m now lease step a q v tm reg stop err fin]
    by (auto simp: spend_attempt(2) dest: all_or_nothing_run)
  then show ?thesis
    using assms(2) spend_attempt(1)
    by (auto simp: charge_model_def model_calls_within_def check_before_operation_def
        split: if_splits)
next
  case (spend_tools lease c now result)
  have "run' = run \<or> run' = charge_tools run c now"
    using uow_tools_all_or_nothing [of L run c now lease]
    by (auto simp: spend_tools dest: all_or_nothing_run)
  then show ?thesis using assms(2) by (auto simp: charge_tools_def model_calls_within_def)
next
  case (spend_refund lease now result)
  have "run' = run \<or> run' = refund_turn run now"
    using uow_refund_all_or_nothing [of L run now lease]
    by (auto simp: spend_refund dest: all_or_nothing_run)
  then show ?thesis using assms(2) by (auto simp: refund_turn_def model_calls_within_def)
qed

lemma spends_model_calls:
  assumes "spend\<^sup>*\<^sup>* c c'" and "model_calls_within (fst c)"
  shows "model_calls_within (fst c') \<and> r_limits (fst c') = r_limits (fst c)"
  using assms
proof (induction rule: rtranclp_induct)
  case base
  then show ?case by simp
next
  case (step d e)
  then show ?case
    using spend_model_calls [of "fst d" "snd d" "fst e" "snd e"] by auto
qed

subsection \<open>The usage repository refines the run's own accounting\<close>

lemma sum_reasoning_snoc: "sum_reasoning (cs @ [c]) = (case mu_reasoning_tokens (mc_usage c) of
    None \<Rightarrow> sum_reasoning cs
  | Some r \<Rightarrow> Some ((case sum_reasoning cs of None \<Rightarrow> 0 | Some q \<Rightarrow> q) + r))"
  by (auto simp: sum_reasoning_def Let_def map_filter_simps map_filter_def split: option.splits)

lemma run_usage_of_fresh:
  assumes "\<not> dhas U (mc_attempt_id c)" and "mc_run_id c = i" and "mc_cost c = mu_cost (mc_usage c)"
  shows "run_usage_of (record_attempt U c) i = add_model_usage (run_usage_of U i) (mc_usage c)"
proof -
  have "record_attempt U c = U @ [(mc_attempt_id c, c)]"
    using assms(1) by (simp add: record_attempt_def dhas_def dset_absent)
  then show ?thesis
    using assms(2,3)
    by (cases "mu_reasoning_tokens (mc_usage c)")
      (simp_all add: run_usage_of_def add_model_usage_def sum_reasoning_snoc Let_def)
qed

subsection \<open>Steps of the cancellation token\<close>

inductive token_step :: "cancellation_token \<Rightarrow> cancellation_token \<Rightarrow> bool" where
  "token_step tok (token_cancel tok r)"
| "token_step tok (snd (token_reason tok now))"
| "token_step tok (snd (raise_if_cancelled tok now))"

lemma raise_if_cancelled_snd [simp]:
  "snd (raise_if_cancelled tok now) = snd (token_reason tok now)"
  by (simp add: raise_if_cancelled_def split: prod.splits option.splits)

lemma token_step_reason: "token_step tok tok' \<Longrightarrow> ct_reason tok = Some r \<Longrightarrow> tok' = tok"
  by (auto simp: token_cancel_def token_reason_def Let_def elim!: token_step.cases)

lemma token_steps_reason: "token_step\<^sup>*\<^sup>* tok tok' \<Longrightarrow> ct_reason tok = Some r \<Longrightarrow> tok' = tok"
  by (induction rule: rtranclp_induct) (auto dest: token_step_reason)

subsection \<open>Properties\<close>


text \<open>
  C10. As long as every model attempt is admitted by the pre-operation check, no sequence of model
  calls, tool charges and refunds, whether or not storing fails in between, takes a run's
  model-call count above its limit or below zero.
\<close>

theorem model_call_budget_respected:
  assumes "spend\<^sup>*\<^sup>* (run, L) (run', L')" and "0 \<le> r_model_call_count run"
    and "r_model_call_count run \<le> max_model_calls (r_limits run)"
  shows "0 \<le> r_model_call_count run' \<and> r_model_call_count run' \<le> max_model_calls (r_limits run')
      \<and> r_limits run' = r_limits run"
  using spends_model_calls [OF assms(1)] assms(2,3) by (auto simp: model_calls_within_def)

text \<open>
  The per-attempt records and the run's own usage agree: if the usage repository's rollup of a
  run equals the usage on the run (tool calls apart, which the rollup does not count), it still
  does after a recorded model call whose attempt id was not recorded before.
\<close>

theorem usage_rollup_agrees:
  assumes "run_usage_of (ls_usage L) (r_id run) = (r_usage run)\<lparr> u_tool_calls := 0 \<rparr>"
    and "\<not> dhas (ls_usage L) (at_attempt_id att)"
    and "uow_record_model_usage L lease run m step (Some att) (Some q) (Some v) tm reg stop err now fin
          = (result, run', L')"
    and "run' \<noteq> run"
  shows "run_usage_of (ls_usage L') (r_id run') = (r_usage run')\<lparr> u_tool_calls := 0 \<rparr>"
proof -
  obtain prefix R' where p: "require_prefix_hash q = Inr prefix"
    "update_counters (ls_runs L) (charge_model run m now) lease = Inr R'"
    using assms(3,4) by (auto simp: uow_record_model_usage_def Let_def split: sum.splits)
  define c where
    "c = model_call_of (charge_model run m now) m step att v prefix tm reg stop err fin"
  have L': "run' = charge_model run m now" "ls_usage L' = record_attempt (ls_usage L) c"
    using assms(3) p by (auto simp: uow_record_model_usage_def Let_def c_def)
  have c: "mc_attempt_id c = at_attempt_id att" "mc_run_id c = r_id run" "mc_usage c = m"
    "mc_cost c = mu_cost m"
    by (simp_all add: c_def model_call_of_def charge_model_def)
  have "run_usage_of (record_attempt (ls_usage L) c) (r_id run)
      = add_model_usage (run_usage_of (ls_usage L) (r_id run)) m"
    using run_usage_of_fresh [of "ls_usage L" c "r_id run"] assms(2) c by simp
  then show ?thesis
    by (cases "mu_reasoning_tokens m")
      (simp_all add: L' assms(1) charge_model_def add_model_usage_def)
qed

text \<open>
  Cancellation is one-shot and the first reason wins: once a token has a reason, every later
  call, at any clock reading, raises with that same reason; a token without a reason raises exactly
  when its deadline has been reached, with the deadline as the reason.
\<close>

theorem cancellation_first_reason_wins:
  "(token_step\<^sup>*\<^sup>* tok tok' \<and> ct_reason tok = Some r \<longrightarrow>
      fst (raise_if_cancelled tok' now) = Inl (RunCancelledError (cancel_reason_value r)))
   \<and> (ct_reason tok = None \<longrightarrow> fst (raise_if_cancelled tok now) =
        (if reaches now (ct_deadline_at tok) then Inl (RunCancelledError ''deadline'') else Inr ()))"
  by (auto simp: raise_if_cancelled_def token_reason_def token_cancel_def Let_def
      dest: token_steps_reason)

text \<open>
  A job with a zero cost limit and no other limit in the way is admitted for steps and tool
  calls and refused for every model attempt; any other kind of run with that limit is refused
  everything.
\<close>

theorem zero_cost_job_admission:
  assumes "max_cost (r_limits run) = Some 0" and "u_cost (r_usage run) = 0"
    and "r_deadline_at run = None"
    and "r_step_count run < max_steps (r_limits run)"
    and "r_tool_call_count run < max_tool_calls (r_limits run)"
  shows "is_ok (check_before_operation run sc now) \<longleftrightarrow> r_kind run = JOB \<and> sc \<noteq> Scope_ATTEMPT"
  using assms by (cases sc) (auto simp: check_before_operation_def reaches_def)

subsection \<open>Witnesses\<close>

definition sample_usage :: model_usage where
  "sample_usage = \<lparr> mu_input_tokens = 10, mu_cached_input_tokens = 0, mu_cache_write_input_tokens = 0,
     mu_cache_write_1h_input_tokens = 0, mu_output_tokens = 5, mu_reasoning_tokens = Some 2,
     mu_cost = 1 / 2, mu_cost_source = CONFIG_OVERRIDE, mu_provider = ''fake'',
     mu_model = ''scripted'' \<rparr>"

definition sample_step :: run_loop_step where
  "sample_step = \<lparr> st_run_id = 1, st_step_number = 1, st_started_at = 1, st_attempt_count = 0,
     st_tool_call_count = 0, st_compactions = 0 \<rparr>"

definition sample_attempt :: model_attempt where
  "sample_attempt = \<lparr> at_attempt_id = 77, at_run_id = 1, at_step_number = 1, at_attempt_number = 1,
     at_started_at = 1 \<rparr>"

definition sample_resolved :: resolved_model where
  "sample_resolved = \<lparr> rm_provider = ''fake'', rm_model = ''scripted'', rm_policy_name = ''balanced'' \<rparr>"

definition sample_request :: request_metadata where
  "sample_request = [(''prefix_sha256'', replicate 64 CHR ''a'')]"

definition sample_ledger :: ledger_store where
  "sample_ledger = \<lparr> ls_usage = [], ls_runs = sample_runs \<rparr>"

lemma sample_prefix: "require_prefix_hash sample_request = Inr (replicate 64 CHR ''a'')"
  by code_simp

lemma sample_saved:
  "is_ok (update_counters sample_runs (charge_model (sample_run 1 Run_QUEUED) sample_usage 2) None)"
  by (simp add: update_counters_def sample_runs_def charge_model_def sample_run_def dlookup_def
      Let_def)

lemma sample_model_call:
  obtains L' where "uow_record_model_usage sample_ledger None (sample_run 1 Run_QUEUED) sample_usage
      sample_step (Some sample_attempt) (Some sample_request) (Some sample_resolved) None None
      None None 2 3 = (Inr (), charge_model (sample_run 1 Run_QUEUED) sample_usage 2, L')"
proof -
  obtain R' where "update_counters sample_runs
      (charge_model (sample_run 1 Run_QUEUED) sample_usage 2) None = Inr R'"
    using sample_saved by (auto simp: is_ok_iff)
  moreover have "check_after_record (charge_model (sample_run 1 Run_QUEUED) sample_usage 2) = Inr ()"
    by (simp add: check_after_record_def charge_model_def add_model_usage_def sample_run_def
        sample_usage_def default_run_limits_def zero_usage_def exceeds_def)
  ultimately show thesis
    by (intro that) (simp add: uow_record_model_usage_def sample_prefix sample_ledger_def Let_def)
qed

theorem model_call_budget_respected_witness:
  "r_model_call_count (charge_model (sample_run 1 Run_QUEUED) sample_usage 2) \<le> 12"
proof -
  obtain L' where u: "uow_record_model_usage sample_ledger None (sample_run 1 Run_QUEUED) sample_usage
      sample_step (Some sample_attempt) (Some sample_request) (Some sample_resolved) None None
      None None 2 3 = (Inr (), charge_model (sample_run 1 Run_QUEUED) sample_usage 2, L')"
    by (rule sample_model_call)
  have "check_before_operation (sample_run 1 Run_QUEUED) Scope_ATTEMPT 1 = Inr ()"
    by (simp add: check_before_operation_def sample_run_def default_run_limits_def reaches_def)
  from model_call_budget_respected [OF r_into_rtranclp [of spend, OF spend_attempt [OF this u]]]
  show ?thesis by (simp add: sample_run_def default_run_limits_def charge_model_def)
qed

theorem usage_rollup_agrees_witness:
  "\<exists>L' :: ledger_store. run_usage_of (ls_usage L') 1
      = (r_usage (charge_model (sample_run 1 Run_QUEUED) sample_usage 2))\<lparr> u_tool_calls := 0 \<rparr>"
proof -
  obtain L' where u: "uow_record_model_usage sample_ledger None (sample_run 1 Run_QUEUED) sample_usage
      sample_step (Some sample_attempt) (Some sample_request) (Some sample_resolved) None None
      None None 2 3 = (Inr (), charge_model (sample_run 1 Run_QUEUED) sample_usage 2, L')"
    by (rule sample_model_call)
  have "run_usage_of (ls_usage sample_ledger) (r_id (sample_run 1 Run_QUEUED))
      = (r_usage (sample_run 1 Run_QUEUED))\<lparr> u_tool_calls := 0 \<rparr>"
    by (simp add: run_usage_of_def sample_ledger_def sample_run_def zero_usage_def sum_reasoning_def
        Let_def map_filter_simps)
  moreover have "charge_model (sample_run 1 Run_QUEUED) sample_usage 2 \<noteq> sample_run 1 Run_QUEUED"
    by (simp add: charge_model_def sample_run_def)
  moreover have "\<not> dhas (ls_usage sample_ledger) (at_attempt_id sample_attempt)"
    by (simp add: dhas_def sample_ledger_def)
  ultimately have "run_usage_of (ls_usage L') (r_id (charge_model (sample_run 1 Run_QUEUED) sample_usage 2))
      = (r_usage (charge_model (sample_run 1 Run_QUEUED) sample_usage 2))\<lparr> u_tool_calls := 0 \<rparr>"
    using usage_rollup_agrees [OF _ _ u] by blast
  then show ?thesis by (intro exI [of _ L']) (simp add: charge_model_def sample_run_def)
qed

theorem cancellation_first_reason_wins_witness:
  "fst (raise_if_cancelled (token_cancel (token_cancel \<lparr> ct_deadline_at = Some 5, ct_reason = None \<rparr>
     Cancel_REQUESTED) Cancel_FENCED) 9) = Inl (RunCancelledError ''requested'')"
proof -
  define tok where "tok = token_cancel \<lparr> ct_deadline_at = Some 5, ct_reason = None \<rparr> Cancel_REQUESTED"
  have "token_step\<^sup>*\<^sup>* tok (token_cancel tok Cancel_FENCED)"
    by (intro r_into_rtranclp token_step.intros)
  moreover have "ct_reason tok = Some Cancel_REQUESTED" by (simp add: tok_def token_cancel_def)
  ultimately show ?thesis
    using cancellation_first_reason_wins [of tok "token_cancel tok Cancel_FENCED" Cancel_REQUESTED 9]
    by (simp add: tok_def)
qed

theorem zero_cost_job_admission_witness:
  "is_ok (check_before_operation ((sample_run 1 Run_RUNNING)\<lparr> r_kind := JOB,
       r_limits := default_run_limits\<lparr> max_cost := Some 0 \<rparr> \<rparr>) Scope_STEP 7)
   \<and> \<not> is_ok (check_before_operation ((sample_run 1 Run_RUNNING)\<lparr> r_kind := JOB,
       r_limits := default_run_limits\<lparr> max_cost := Some 0 \<rparr> \<rparr>) Scope_ATTEMPT 7)"
  using zero_cost_job_admission [of "(sample_run 1 Run_RUNNING)\<lparr> r_kind := JOB,
       r_limits := default_run_limits\<lparr> max_cost := Some 0 \<rparr> \<rparr>" _ 7]
  by (simp add: sample_run_def default_run_limits_def zero_usage_def)

end
