(* ===== verification/Events.thy ===== *)
theory Events
  imports Run_Repo
begin

text \<open>
  The append-only event log: the values and the conversation projection of \<open>domain/events.py\<close>, the
  erasure filter of \<open>adapters/persistence/people_erasure.py\<close>, and \<open>InMemoryEventRepository\<close>,
  \<open>InMemoryProcessEventRepository\<close> and the two projections over the log
  (\<open>InMemorySessionHistoryRepository\<close>, \<open>InMemoryTrajectoryProjectionRepository\<close>) of
  \<open>adapters/persistence/memory.py\<close>.

  Parameters: \<open>detectors\<close> bundles the text scanners and the hash that \<open>domain/memory_sources.py\<close>
  calls (regular expressions and SHA-256), and \<open>adapters\<close> bundles the pydantic validators of the
  message models; both are arguments of the operations that use them.
\<close>

subsection \<open>Events\<close>

record new_event =
  ne_session_id :: uuid
  ne_run_id :: "uuid option"
  ne_event_type :: string
  ne_payload_schema_version :: int
  ne_actor_type :: string
  ne_actor_id :: "string option"
  ne_payload :: document
  ne_trace_id :: "string option"
  ne_derivation_key :: "string option"

record event_envelope =
  ev_id :: nat
  ev_session_id :: uuid
  ev_run_id :: "uuid option"
  ev_sequence :: int
  ev_event_type :: string
  ev_payload_schema_version :: int
  ev_actor_type :: string
  ev_actor_id :: "string option"
  ev_payload :: document
  ev_trace_id :: "string option"
  ev_derivation_key :: "string option"
  ev_created_at :: instant

record process_event =
  pe_id :: uuid
  pe_event_type :: string
  pe_payload_schema_version :: int
  pe_actor_type :: string
  pe_actor_id :: "string option"
  pe_payload :: document
  pe_derivation_key :: string
  pe_created_at :: instant

definition CONVERSATION_MESSAGE_EVENTS :: "string set" where
  "CONVERSATION_MESSAGE_EVENTS = {''user.message.created'', ''assistant.message.completed''}"

definition TOOL_RESULT_EVENTS :: "string set" where
  "TOOL_RESULT_EVENTS =
     {''tool.call.completed'', ''tool.call.failed'', ''tool.call.denied'', ''tool.call.uncertain''}"

definition advances_session_activity :: "new_event \<Rightarrow> bool" where
  "advances_session_activity e \<longleftrightarrow>
     \<not> (ne_event_type e \<in> {''memory.decayed'', ''memory.retired''} \<and> ne_actor_type e = ''memory''
        \<and> ne_run_id e = None)"

definition is_schedule_instruction_event :: "event_envelope \<Rightarrow> bool" where
  "is_schedule_instruction_event e \<longleftrightarrow>
     ev_event_type e = ''user.message.created'' \<and> ev_actor_type e = ''scheduler''"

text \<open>Instants are aware and a limit is an integer by type, so those tests of the code are absent.\<close>

definition validate_event_window ::
    "uuid list \<Rightarrow> instant \<Rightarrow> instant \<Rightarrow> (instant \<times> int) option \<Rightarrow> int \<Rightarrow> unit res" where
  "validate_event_window sids since until after limit =
     (if \<not> (1 \<le> length sids \<and> length sids \<le> 100) \<or> card (set sids) \<noteq> length sids
         \<or> \<not> (1 \<le> limit \<and> limit \<le> 256)
      then Inl (ValueError ''invalid bounded event window'')
      else if since \<ge> until
      then Inl (ValueError ''event window requires an aware positive date range'')
      else if (case after of None \<Rightarrow> False | Some (_, i) \<Rightarrow> i < 1)
      then Inl (ValueError ''invalid event window cursor'')
      else Inr ())"

subsection \<open>Erasure\<close>

definition MARKER :: string where
  "MARKER = ''[People memory erased]''"

definition ORIGINAL_EVENTS :: "string set" where
  "ORIGINAL_EVENTS = {''user.message.created'', ''people.owner_assertion''}"

definition STRUCTURED_KEYS :: "string list" where
  "STRUCTURED_KEYS = [''arguments'', ''normalized_arguments'', ''modified_arguments'', ''structured'',
     ''structured_result'', ''data'', ''working_state'', ''details'']"

definition TEXT_KEYS :: "string list" where
  "TEXT_KEYS = [''content'', ''text'', ''statement'', ''subject'', ''display_name'', ''narrative'',
     ''final_message'', ''summary'', ''compacted_summary'', ''memory_snapshot'', ''reason'',
     ''explanation'', ''message'', ''error'', ''rendered'']"

fun redact :: "json \<Rightarrow> json"
  and redact_items :: "json list \<Rightarrow> json list"
  and redact_fields :: "(string \<times> json) list \<Rightarrow> (string \<times> json) list" where
  "redact (JArr xs) = JArr (redact_items xs)"
| "redact (JObj d) = JObj (redact_fields d)"
| "redact v = v"
| "redact_items [] = []"
| "redact_items (x # xs) = redact x # redact_items xs"
| "redact_fields [] = []"
| "redact_fields ((key, item) # d) =
     (key,
       if key = ''raw_arguments'' then JStr ''{}''
       else if key \<in> set STRUCTURED_KEYS then (if item = JNull then JNull else JObj [])
       else if key \<in> set TEXT_KEYS then
         (case item of
            JArr _ \<Rightarrow> JArr [JObj [(''type'', JStr ''text''), (''text'', JStr MARKER)]]
          | JObj _ \<Rightarrow> redact item
          | JNull \<Rightarrow> JNull
          | _ \<Rightarrow> JStr MARKER)
       else redact item) # redact_fields d"

text \<open>\<open>references\<close>: does an identifier occur in any string of the value?\<close>

fun references :: "string list \<Rightarrow> json \<Rightarrow> bool"
  and references_items :: "string list \<Rightarrow> json list \<Rightarrow> bool"
  and references_fields :: "string list \<Rightarrow> (string \<times> json) list \<Rightarrow> bool" where
  "references ids (JStr s) = (\<exists>k \<in> set ids. \<exists>n \<in> set [0..<Suc (length s)]. starts_with (drop n s) k)"
| "references ids (JObj d) = references_fields ids d"
| "references ids (JArr xs) = references_items ids xs"
| "references ids _ = False"
| "references_items ids [] = False"
| "references_items ids (x # xs) = (references ids x \<or> references_items ids xs)"
| "references_fields ids [] = False"
| "references_fields ids ((key, x) # d) = (references ids x \<or> references_fields ids d)"

subsection \<open>Admission of owner text as a memory source\<close>

record text_detectors =
  td_secret :: "string \<Rightarrow> bool"
  td_injection :: "string \<Rightarrow> bool"
  td_credential :: "string \<Rightarrow> bool"
  td_sha256_hex :: "string \<Rightarrow> string"

definition utf8_length :: "string \<Rightarrow> nat" where
  "utf8_length s = sum_list (map (\<lambda>c. if (of_char c :: nat) < 128 then 1 else 2) s)"

definition source_admission_digest ::
    "text_detectors \<Rightarrow> string \<Rightarrow> string \<Rightarrow> string option \<Rightarrow> document \<Rightarrow> string \<Rightarrow> string option" where
  "source_admission_digest det event_type actor_type actor_id payload owner_id =
     (case dget payload ''content'' of
        Some (JStr content) \<Rightarrow>
          if event_type \<noteq> ''user.message.created'' \<or> actor_type \<noteq> ''principal''
             \<or> actor_id \<noteq> Some owner_id
             \<or> \<not> (dget payload ''origin'' = None \<or> dget payload ''origin'' = Some JNull)
             \<or> \<not> (dget payload ''trust'' = None \<or> dget payload ''trust'' = Some (JStr ''user''))
             \<or> py_strip content = [] \<or> length content > 8192
             \<or> td_secret det content \<or> td_injection det content \<or> td_credential det content
          then None
          else if utf8_length content \<le> 8192 then Some (td_sha256_hex det content) else None
      | _ \<Rightarrow> None)"

record owner_source_excerpt =
  ox_session_id :: uuid
  ox_event_sequence :: int
  ox_created_at :: instant
  ox_text :: string
  ox_text_sha256 :: string

definition admitted_excerpt ::
    "text_detectors \<Rightarrow> event_envelope \<Rightarrow> string \<Rightarrow> string option \<Rightarrow> owner_source_excerpt option" where
  "admitted_excerpt det e owner_id digest =
     (case digest of
        None \<Rightarrow> None
      | Some h \<Rightarrow>
          if source_admission_digest det (ev_event_type e) (ev_actor_type e) (ev_actor_id e)
               (ev_payload e) owner_id \<noteq> Some h
          then None
          else Some \<lparr> ox_session_id = ev_session_id e, ox_event_sequence = ev_sequence e,
                 ox_created_at = ev_created_at e,
                 ox_text = (case dget (ev_payload e) ''content'' of Some (JStr t) \<Rightarrow> t | _ \<Rightarrow> []),
                 ox_text_sha256 = h \<rparr>)"

subsection \<open>The event repository\<close>

type_synonym source_key = "string \<times> string \<times> uuid \<times> int"

record source_index =
  si_permits :: "(source_key, string) dict"
  si_fences :: "(source_key, bool) dict"
  si_deadlines :: "(source_key, instant) dict"

record event_repo =
  er_events :: "(uuid, event_envelope list) dict"
  er_derived :: "(string, event_envelope) dict"
  er_people_erased :: "(uuid, instant) dict"
  er_next_id :: nat
  er_source_index :: "source_index option"

definition empty_event_repo :: event_repo where
  "empty_event_repo = \<lparr> er_events = [], er_derived = [], er_people_erased = [], er_next_id = 1,
     er_source_index = None \<rparr>"

text \<open>Reading the \<open>defaultdict(list)\<close> of streams.\<close>

definition stream :: "event_repo \<Rightarrow> uuid \<Rightarrow> event_envelope list" where
  "stream E sid = (case dget (er_events E) sid of None \<Rightarrow> [] | Some l \<Rightarrow> l)"

definition dreaming_cutover_event_id :: "event_repo \<Rightarrow> int" where
  "dreaming_cutover_event_id E = int (er_next_id E) - 1"

definition envelope_of :: "new_event \<Rightarrow> nat \<Rightarrow> int \<Rightarrow> instant \<Rightarrow> event_envelope" where
  "envelope_of e i n t = \<lparr> ev_id = i, ev_session_id = ne_session_id e, ev_run_id = ne_run_id e,
     ev_sequence = n, ev_event_type = ne_event_type e,
     ev_payload_schema_version = ne_payload_schema_version e, ev_actor_type = ne_actor_type e,
     ev_actor_id = ne_actor_id e, ev_payload = ne_payload e, ev_trace_id = ne_trace_id e,
     ev_derivation_key = ne_derivation_key e, ev_created_at = t \<rparr>"

text \<open>Writing the permit of an admitted source, when a source index is bound.\<close>

definition permit_source ::
    "text_detectors \<Rightarrow> new_event \<Rightarrow> session \<Rightarrow> int \<Rightarrow> source_index option \<Rightarrow> source_index option" where
  "permit_source det e owner n index =
     (case (source_admission_digest det (ne_event_type e) (ne_actor_type e) (ne_actor_id e)
              (ne_payload e) (s_principal_id owner), index) of
        (Some h, Some si) \<Rightarrow> Some (si\<lparr> si_permits := dset
            (s_tenant_id owner, s_principal_id owner, ne_session_id e, n) h (si_permits si) \<rparr>)
      | _ \<Rightarrow> index)"

definition erased_event :: "event_repo \<Rightarrow> new_event \<Rightarrow> new_event" where
  "erased_event E e =
     (if (case ne_run_id e of None \<Rightarrow> False | Some i \<Rightarrow> dhas (er_people_erased E) i)
         \<and> ne_event_type e \<notin> ORIGINAL_EVENTS
      then e\<lparr> ne_payload := redact_fields (ne_payload e) \<rparr> else e)"

definition event_append ::
    "text_detectors \<Rightarrow> event_repo \<times> session_repo \<Rightarrow> new_event \<Rightarrow> worker_lease option \<Rightarrow> instant \<Rightarrow>
       (event_envelope \<times> event_repo \<times> session_repo) res" where
  "event_append det ES event lease now =
     (case ES of (E, S) \<Rightarrow>
      if lease \<noteq> None
      then Inl (NotImplementedError ''the in-memory repository does not support worker leases'')
      else
        let e = erased_event E event
        in case (case ne_derivation_key e of None \<Rightarrow> None | Some k \<Rightarrow> dget (er_derived E) k) of
             Some existing \<Rightarrow> Inr (existing, E, S)
           | None \<Rightarrow> (case dget (sr_sessions S) (ne_session_id e) of
                 None \<Rightarrow> Inl session_missing
               | Some owner \<Rightarrow>
                   let st = stream E (ne_session_id e);
                       env = envelope_of e (er_next_id E) (int (length st) + 1) now;
                       E' = E\<lparr> er_next_id := er_next_id E + 1,
                         er_events := dset (ne_session_id e) (st @ [env]) (er_events E),
                         er_source_index :=
                           permit_source det e owner (ev_sequence env) (er_source_index E),
                         er_derived := (case ne_derivation_key e of
                             None \<Rightarrow> er_derived E | Some k \<Rightarrow> dset k env (er_derived E)) \<rparr>;
                       S1 = (if ne_actor_type e = ''principal''
                             \<and> ne_event_type e \<in> {''email.discussion.opened'', ''user.message.created''}
                           then S\<lparr> sr_chat_sessions := insert (ne_session_id e) (sr_chat_sessions S) \<rparr>
                           else S)
                   in rbind (if advances_session_activity e
                             then session_touch S1 (ne_session_id e) now else Inr S1) (\<lambda>S2.
                        Inr (env, E', S2))))"

text \<open>Owner lookups over a list of sessions stop at the first error.\<close>

fun require_owned :: "session_repo \<Rightarrow> principal \<Rightarrow> uuid list \<Rightarrow> unit res" where
  "require_owned S p [] = Inr ()"
| "require_owned S p (sid # rest) = rbind (session_get S sid p) (\<lambda>_. require_owned S p rest)"

definition list_window ::
    "event_repo \<times> session_repo \<Rightarrow> principal \<Rightarrow> uuid list \<Rightarrow> instant \<Rightarrow> instant \<Rightarrow>
       (instant \<times> int) option \<Rightarrow> int \<Rightarrow> event_envelope list res" where
  "list_window ES p sids since until after limit =
     rbind (validate_event_window sids since until after limit) (\<lambda>_.
     rbind (require_owned (snd ES) p sids) (\<lambda>_.
       Inr (py_take limit (sort_key (\<lambda>e. (ev_created_at e, ev_id e))
         (filter (\<lambda>e. since \<le> ev_created_at e \<and> ev_created_at e < until
              \<and> (case after of None \<Rightarrow> True
                 | Some (t, i) \<Rightarrow> (ev_created_at e, int (ev_id e)) > (t, i)))
           (concat (map (stream (fst ES)) sids)))))))"

definition list_after ::
    "event_repo \<times> session_repo \<Rightarrow> uuid \<Rightarrow> int \<Rightarrow> principal \<Rightarrow> uuid option \<Rightarrow> instant option \<Rightarrow>
       instant option \<Rightarrow> int option \<Rightarrow> event_envelope list res" where
  "list_after ES sid sequence p run_id at_or_after before limit =
     (if (case limit of None \<Rightarrow> False | Some l \<Rightarrow> l < 0)
      then Inl (ValueError ''limit must be nonnegative'')
      else rbind (session_get (snd ES) sid p) (\<lambda>_.
        let matching = filter (\<lambda>e. ev_sequence e > sequence
              \<and> (run_id = None \<or> ev_run_id e = run_id)
              \<and> (case at_or_after of None \<Rightarrow> True | Some t \<Rightarrow> ev_created_at e \<ge> t)
              \<and> (case before of None \<Rightarrow> True | Some t \<Rightarrow> ev_created_at e < t))
              (stream (fst ES) sid)
        in Inr (case limit of None \<Rightarrow> matching | Some l \<Rightarrow> py_take l matching)))"

definition latest_before ::
    "event_repo \<times> session_repo \<Rightarrow> uuid \<Rightarrow> int \<Rightarrow> string \<Rightarrow> principal \<Rightarrow> uuid option \<Rightarrow>
       event_envelope option res" where
  "latest_before ES sid sequence event_type p run_id =
     rbind (session_get (snd ES) sid p) (\<lambda>_.
       Inr (List.find (\<lambda>e. ev_sequence e < sequence \<and> ev_event_type e = event_type
            \<and> (run_id = None \<or> ev_run_id e = run_id)) (rev (stream (fst ES) sid))))"

definition list_conversation_after ::
    "event_repo \<times> session_repo \<Rightarrow> uuid \<Rightarrow> int \<Rightarrow> principal \<Rightarrow> int \<Rightarrow> event_envelope list res" where
  "list_conversation_after ES sid sequence p limit =
     (if limit < 0 then Inl (ValueError ''limit must be nonnegative'')
      else rbind (session_get (snd ES) sid p) (\<lambda>_.
        Inr (py_take limit (filter (\<lambda>e. ev_sequence e > sequence
             \<and> ev_event_type e \<in> CONVERSATION_MESSAGE_EVENTS
             \<and> \<not> is_schedule_instruction_event e) (stream (fst ES) sid)))))"

definition existing_sequences ::
    "event_repo \<times> session_repo \<Rightarrow> uuid \<Rightarrow> int set \<Rightarrow> principal \<Rightarrow> int set res" where
  "existing_sequences ES sid sequences p =
     rbind (session_get (snd ES) sid p) (\<lambda>_.
       Inr {n \<in> ev_sequence ` set (stream (fst ES) sid). n \<in> sequences})"

definition event_by_derivation ::
    "event_repo \<times> session_repo \<Rightarrow> string \<Rightarrow> principal \<Rightarrow> event_envelope option res" where
  "event_by_derivation ES key p = (case dget (er_derived (fst ES)) key of
      None \<Rightarrow> Inr None
    | Some e \<Rightarrow> rbind (session_get (snd ES) (ev_session_id e) p) (\<lambda>_. Inr (Some e)))"

definition raw_list :: "event_repo \<Rightarrow> uuid \<Rightarrow> int \<Rightarrow> event_envelope list" where
  "raw_list E sid sequence = filter (\<lambda>e. ev_sequence e > sequence) (stream E sid)"

definition raw_for_run :: "event_repo \<Rightarrow> uuid \<Rightarrow> event_envelope list" where
  "raw_for_run E run_id = sort_key (\<lambda>e. (ev_sequence e, ev_id e))
     (filter (\<lambda>e. ev_run_id e = Some run_id) (concat (dvals (er_events E))))"

definition memory_source ::
    "text_detectors \<Rightarrow> event_repo \<times> session_repo \<Rightarrow> uuid \<Rightarrow> int \<Rightarrow> principal \<Rightarrow> string \<Rightarrow> bool \<Rightarrow>
       instant \<Rightarrow> owner_source_excerpt option" where
  "memory_source det ES sid sequence p surface_id ceiling_restricted now =
     (case er_source_index (fst ES) of
        None \<Rightarrow> None
      | Some si \<Rightarrow>
          if surface_id \<noteq> ''private'' \<or> \<not> ceiling_restricted then None
          else
            let key = (tenant_id p, principal_id p, sid, sequence)
            in case dget (si_permits si) key of
                 None \<Rightarrow> None
               | Some digest \<Rightarrow>
                   if dget (si_fences si) key = Some True
                      \<or> (case dget (si_deadlines si) key of None \<Rightarrow> False | Some d \<Rightarrow> d \<le> now)
                      \<or> \<not> is_ok (session_get (snd ES) sid p)
                   then None
                   else (case List.find (\<lambda>e. ev_sequence e = sequence) (stream (fst ES) sid) of
                       None \<Rightarrow> None
                     | Some e \<Rightarrow> admitted_excerpt det e (principal_id p) (Some digest)))"

definition bind_memory_sources :: "event_repo \<Rightarrow> source_index \<Rightarrow> event_repo res" where
  "bind_memory_sources E si =
     (if er_source_index E \<noteq> None \<and> er_source_index E \<noteq> Some si
      then Inl (ValueError ''Memory source admission is already bound'')
      else Inr (E\<lparr> er_source_index := Some si \<rparr>))"

subsection \<open>Process events\<close>

type_synonym process_repo = "(string, process_event) dict"

definition process_append :: "process_repo \<Rightarrow> process_event \<Rightarrow> (process_event \<times> process_repo) res" where
  "process_append P e = (case dget P (pe_derivation_key e) of
      Some existing \<Rightarrow>
        if existing\<lparr> pe_created_at := 0 \<rparr> \<noteq> e\<lparr> pe_created_at := 0 \<rparr>
        then Inl (ConflictError ''process event derivation identifies different content'' None)
        else Inr (existing, P)
    | None \<Rightarrow> Inr (e, dset (pe_derivation_key e) e P))"

definition process_list :: "process_repo \<Rightarrow> string option \<Rightarrow> process_event list" where
  "process_list P event_type = sort_key (\<lambda>e. (pe_created_at e, pe_id e))
     (filter (\<lambda>e. event_type = None \<or> Some (pe_event_type e) = event_type) (dvals P))"

definition process_list_filtered ::
    "process_repo \<Rightarrow> string \<Rightarrow> string \<Rightarrow> uuid option \<Rightarrow> string set \<Rightarrow> int \<Rightarrow>
       process_event list res" where
  "process_list_filtered P tenant owner_id sid types limit =
     (if types = {} then Inl (ValueError ''process event types cannot be empty'')
      else if limit \<le> 0 then Inl (ValueError ''process event limit must be positive'')
      else Inr (rev (py_take limit (sort_key_desc (\<lambda>e. (pe_created_at e, pe_id e))
        (filter (\<lambda>e. pe_event_type e \<in> types
             \<and> dget (pe_payload e) ''tenant_id'' = Some (JStr tenant)
             \<and> dget (pe_payload e) ''principal_id'' = Some (JStr owner_id)
             \<and> (case sid of None \<Rightarrow> True
                | Some i \<Rightarrow> dget (pe_payload e) ''session_id'' = Some (JStr (uuid_str i))))
          (dvals P))))))"

subsection \<open>The conversation projection\<close>

datatype conversation_item =
    UserItem "json list" trust_level "string option" int
  | AssistantItem json int
  | ToolCallIt string json int
  | ToolResultIt string "json list" bool trust_level int
  | RecordedResult json int
  | RecordedItem json int

record message_adapters =
  ma_content :: "json list \<Rightarrow> json list res"
  ma_assistant :: "document \<Rightarrow> json res"
  ma_tool_call :: "document \<Rightarrow> (string \<times> json) res"
  ma_item :: "json \<Rightarrow> json res"
  ma_tool_result :: "document \<Rightarrow> json res"

text \<open>\<open>json.dumps\<close> of a string with \<open>ensure_ascii=False\<close>.\<close>

definition json_escape :: "char \<Rightarrow> string" where
  "json_escape c =
     (if c = CHR 0x22 then [CHR 0x5C, CHR 0x22]
      else if c = CHR 0x5C then [CHR 0x5C, CHR 0x5C]
      else if c = CHR 0x0A then [CHR 0x5C, CHR ''n'']
      else if c = CHR 0x0D then [CHR 0x5C, CHR ''r'']
      else if c = CHR 0x09 then [CHR 0x5C, CHR ''t'']
      else if c = CHR 0x08 then [CHR 0x5C, CHR ''b'']
      else if c = CHR 0x0C then [CHR 0x5C, CHR ''f'']
      else if (of_char c :: nat) < 32 then [CHR 0x5C, CHR ''u''] @ hex_digits 4 (of_char c)
      else [c])"

definition json_string :: "string \<Rightarrow> string" where
  "json_string s = [CHR 0x22] @ concat (map json_escape s) @ [CHR 0x22]"

definition text_part :: "string \<Rightarrow> json" where
  "text_part t = JObj [(''type'', JStr ''text''), (''text'', JStr t)]"

definition recorded_text :: "event_envelope \<Rightarrow> string \<Rightarrow> string res" where
  "recorded_text e key = (case dget (ev_payload e) key of
      Some (JStr (c # v)) \<Rightarrow> Inr (c # v)
    | _ \<Rightarrow> Inl (ValueError ''tool.call.denied has no result item''))"

definition unrecorded_denial_result :: "event_envelope \<Rightarrow> conversation_item res" where
  "unrecorded_denial_result e =
     rbind (recorded_text e ''call_id'') (\<lambda>call_id.
     rbind (recorded_text e ''name'') (\<lambda>name.
     rbind (recorded_text e ''reason_code'') (\<lambda>reason_code.
       Inr (ToolResultIt call_id
         [text_part (''{'' @ json_string ''status'' @ '':'' @ json_string ''denied'' @ '',''
            @ json_string ''action'' @ '':'' @ json_string name @ '',''
            @ json_string ''reason_code'' @ '':'' @ json_string reason_code @ ''}'')]
         True Trust_EXTERNAL_UNTRUSTED (ev_sequence e)))))"

definition browser_triggers :: "string \<Rightarrow> string set option" where
  "browser_triggers trigger =
     (if trigger = ''browser_auth_resume'' then Some {''browser.navigate'', ''browser.observe''}
      else if trigger = ''browser_recovery'' then Some {''browser.observe'', ''conversation.ask_user''}
      else if trigger = ''browser_workflow''
      then Some {''browser.navigate'', ''browser.observe'', ''browser.act''}
      else None)"

definition checkpoint_trigger :: "event_envelope \<Rightarrow> string set option" where
  "checkpoint_trigger e =
     (if ev_event_type e = ''run.checkpointed'' \<and> ev_actor_type e = ''runtime''
      then (case dget (ev_payload e) ''trigger'' of Some (JStr t) \<Rightarrow> browser_triggers t | _ \<Rightarrow> None)
      else None)"

fun validated_items :: "(json \<Rightarrow> json res) \<Rightarrow> int \<Rightarrow> json list \<Rightarrow> conversation_item list res" where
  "validated_items val n [] = Inr []"
| "validated_items val n (x # xs) =
     rbind (val x) (\<lambda>y. rbind (validated_items val n xs) (\<lambda>ys. Inr (RecordedItem y n # ys)))"

definition conversation_items ::
    "message_adapters \<Rightarrow> event_envelope \<Rightarrow> conversation_item list res" where
  "conversation_items ad e =
     (let payload = ev_payload e; n = ev_sequence e
      in if ev_event_type e = ''user.message.created'' then
           rbind (case dget payload ''content'' of
               Some (JStr t) \<Rightarrow> Inr [text_part t]
             | Some (JArr parts) \<Rightarrow> ma_content ad parts
             | _ \<Rightarrow> Inl (ValueError ''user.message.created payload has no content'')) (\<lambda>parts.
             Inr [UserItem parts
               (if dget payload ''trust'' = Some (JStr ''external_untrusted'')
                then Trust_EXTERNAL_UNTRUSTED else Trust_USER) (ev_actor_id e) n])
         else if ev_event_type e = ''assistant.message.completed'' then
           (case dget payload ''message'' of
              Some (JObj message) \<Rightarrow> rbind (ma_assistant ad message) (\<lambda>v. Inr [AssistantItem v n])
            | _ \<Rightarrow> Inl (ValueError ''assistant.message.completed payload has no message''))
         else (case checkpoint_trigger e of
             Some permitted \<Rightarrow>
               (case dget payload ''runtime_tool_call'' of
                  Some (JObj raw) \<Rightarrow> rbind (ma_tool_call ad raw) (\<lambda>(name, call).
                    if name \<notin> permitted
                    then Inl (ValueError ''browser recovery cannot queue an effect'')
                    else Inr [ToolCallIt name call n])
                | _ \<Rightarrow> Inl (ValueError ''browser recovery checkpoint has no queued call''))
           | None \<Rightarrow>
               if ev_event_type e = ''model.response.completed'' then
                 (case dget payload ''conversation_items'' of
                    Some (JArr items) \<Rightarrow> validated_items (ma_item ad) n items
                  | _ \<Rightarrow> Inl (ValueError ''model.response.completed has no conversation items''))
               else if ev_event_type e \<in> TOOL_RESULT_EVENTS then
                 (if ev_event_type e = ''tool.call.denied''
                     \<and> dget payload ''result_item'' = Some JNull
                  then rbind (unrecorded_denial_result e) (\<lambda>r. Inr [r])
                  else (case dget payload ''result_item'' of
                      Some (JObj raw) \<Rightarrow> rbind (ma_tool_result ad raw) (\<lambda>v. Inr [RecordedResult v n])
                    | _ \<Rightarrow> Inl (ValueError ''event has no result item'')))
               else Inr []))"

subsection \<open>Projections over the log\<close>

record session_history =
  sh_session_id :: uuid
  sh_through_sequence :: int
  sh_items :: "conversation_item list"
  sh_builder_version :: string

fun project_items ::
    "message_adapters \<Rightarrow> event_envelope list \<Rightarrow> conversation_item list res" where
  "project_items ad [] = Inr []"
| "project_items ad (e # es) =
     rbind (conversation_items ad e) (\<lambda>xs. rbind (project_items ad es) (\<lambda>ys. Inr (xs @ ys)))"

definition history_project ::
    "message_adapters \<Rightarrow> uuid \<Rightarrow> event_envelope list \<Rightarrow> session_history res" where
  "history_project ad sid es = rbind (project_items ad es) (\<lambda>items.
     Inr \<lparr> sh_session_id = sid,
           sh_through_sequence = (if es = [] then 0 else ev_sequence (last es)),
           sh_items = items, sh_builder_version = ''session-history-memory@2'' \<rparr>)"

definition history_catch_up :: "message_adapters \<Rightarrow> event_repo \<Rightarrow> uuid \<Rightarrow> session_history res" where
  "history_catch_up ad E sid = history_project ad sid (raw_list E sid 0)"

definition history_read ::
    "message_adapters \<Rightarrow> event_repo \<Rightarrow> uuid \<Rightarrow> int option \<Rightarrow> session_history res" where
  "history_read ad E sid through =
     (let events = raw_list E sid 0
      in rbind (history_project ad sid events) (\<lambda>history.
        case through of
          None \<Rightarrow> Inr history
        | Some n \<Rightarrow>
            if n \<ge> sh_through_sequence history then Inr history
            else rbind (history_project ad sid (filter (\<lambda>e. ev_sequence e \<le> n) events)) (\<lambda>truncated.
              Inr (truncated\<lparr> sh_through_sequence := n \<rparr>))))"

record trajectory_projection =
  tp_run_id :: uuid
  tp_first_sequence :: int
  tp_last_sequence :: int
  tp_terminal :: bool
  tp_builder_version :: string
  tp_updated_at :: instant

definition terminal_event_types :: "string set" where
  "terminal_event_types = {''run.completed'', ''run.failed'', ''run.cancelled''}"

definition trajectory_catch_up :: "event_repo \<Rightarrow> uuid \<Rightarrow> trajectory_projection option" where
  "trajectory_catch_up E run_id =
     (let events = raw_for_run E run_id
      in if events = [] then None
         else Some \<lparr> tp_run_id = run_id, tp_first_sequence = ev_sequence (hd events),
                tp_last_sequence = ev_sequence (last events),
                tp_terminal = (\<exists>e \<in> set events. ev_event_type e \<in> terminal_event_types),
                tp_builder_version = ''trajectory@1'',
                tp_updated_at = ev_created_at (last events) \<rparr>)"

subsection \<open>The log invariant\<close>

inductive event_step :: "event_repo \<times> session_repo \<Rightarrow> event_repo \<times> session_repo \<Rightarrow> bool" where
  estep_append: "event_append det (E, S) e l t = Inr (env, E', S') \<Longrightarrow> event_step (E, S) (E', S')"
| estep_bind: "bind_memory_sources E si = Inr E' \<Longrightarrow> event_step (E, S) (E', S)"
| estep_session: "session_step S S' \<Longrightarrow> event_step (E, S) (E, S')"

definition log_extended :: "event_repo \<Rightarrow> event_envelope \<Rightarrow> event_repo \<Rightarrow> bool" where
  "log_extended E env E' \<longleftrightarrow>
     (\<forall>sid. stream E' sid = stream E sid @ (if sid = ev_session_id env then [env] else []))
     \<and> ev_sequence env = int (length (stream E (ev_session_id env))) + 1
     \<and> ev_id env = er_next_id E \<and> er_next_id E' = er_next_id E + 1
     \<and> (\<forall>k. dget (er_derived E') k =
           (if ev_derivation_key env = Some k then Some env else dget (er_derived E) k))
     \<and> (\<forall>k. ev_derivation_key env = Some k \<longrightarrow> dget (er_derived E) k = None)"

lemma event_append_effect:
  assumes "event_append det (E, S) e l t = Inr (env, E', S')"
  shows "(E' = E \<and> S' = S \<and> (\<exists>k. ne_derivation_key e = Some k \<and> dget (er_derived E) k = Some env))
       \<or> (log_extended E env E' \<and> ev_payload env = ne_payload (erased_event E e)
           \<and> ev_derivation_key env = ne_derivation_key e \<and> ev_session_id env = ne_session_id e
           \<and> ev_run_id env = ne_run_id e \<and> ev_created_at env = t
           \<and> dget (sr_sessions S) (ne_session_id e) \<noteq> None)"
proof (cases "case ne_derivation_key e of None \<Rightarrow> None | Some k \<Rightarrow> dget (er_derived E) k")
  case (Some x)
  then show ?thesis
    using assms
    by (auto simp: event_append_def erased_event_def Let_def split: option.splits if_splits)
next
  case None
  obtain owner where owner: "dget (sr_sessions S) (ne_session_id e) = Some owner"
    using assms None
    by (auto simp: event_append_def erased_event_def Let_def split: option.splits if_splits)
  define f where "f = erased_event E e"
  have f: "ne_session_id f = ne_session_id e" "ne_derivation_key f = ne_derivation_key e"
    by (simp_all add: f_def erased_event_def)
  define st where "st = stream E (ne_session_id e)"
  have env: "env = envelope_of f (er_next_id E) (int (length st) + 1) t"
    and E': "er_next_id E' = er_next_id E + 1"
      "er_events E' = dset (ne_session_id e) (st @ [env]) (er_events E)"
      "er_derived E' = (case ne_derivation_key e of
          None \<Rightarrow> er_derived E | Some k \<Rightarrow> dset k env (er_derived E))"
    using assms None owner f
    by (auto simp: event_append_def Let_def st_def rbind_Inr_iff f_def [symmetric]
        split: option.splits if_splits)
  have "log_extended E env E'"
    using None f by (auto simp: log_extended_def stream_def E' env envelope_of_def st_def
        split: option.splits)
  then show ?thesis
    using owner by (simp add: env envelope_of_def f f_def) (simp add: erased_event_def)
qed

definition all_events :: "event_repo \<Rightarrow> event_envelope set" where
  "all_events E = (\<Union>sid. set (stream E sid))"

definition event_repo_ok :: "event_repo \<Rightarrow> bool" where
  "event_repo_ok E \<longleftrightarrow>
     (\<forall>sid. map ev_sequence (stream E sid) = map int [1..<Suc (length (stream E sid))])
     \<and> (\<forall>sid. \<forall>e \<in> set (stream E sid). ev_session_id e = sid)
     \<and> (\<forall>sid. sorted_wrt (<) (map ev_id (stream E sid)))
     \<and> (\<forall>e \<in> all_events E. ev_id e < er_next_id E)
     \<and> inj_on ev_id (all_events E)
     \<and> (\<forall>k e. dget (er_derived E) k = Some e \<longleftrightarrow> e \<in> all_events E \<and> ev_derivation_key e = Some k)"

lemma empty_event_repo_ok [simp]: "event_repo_ok empty_event_repo"
  by (simp add: event_repo_ok_def empty_event_repo_def stream_def all_events_def)

lemma log_extended_all: "log_extended E env E' \<Longrightarrow> all_events E' = insert env (all_events E)"
  by (auto simp: log_extended_def all_events_def split: if_splits)

lemma log_extended_ok:
  assumes "log_extended E env E'" and "event_repo_ok E"
  shows "event_repo_ok E'"
proof -
  have all: "all_events E' = insert env (all_events E)" by (rule log_extended_all [OF assms(1)])
  have below: "ev_id e < er_next_id E" if "e \<in> all_events E" for e
    using assms(2) that by (simp add: event_repo_ok_def)
  have env: "ev_id env = er_next_id E" "er_next_id E' = er_next_id E + 1"
    using assms(1) by (simp_all add: log_extended_def)
  have fresh: "env \<notin> all_events E" using below env by fastforce
  have "map ev_sequence (stream E' sid) = map int [1..<Suc (length (stream E' sid))]" for sid
    using assms by (auto simp: log_extended_def event_repo_ok_def)
  moreover have "\<forall>e \<in> set (stream E' sid). ev_session_id e = sid" for sid
    using assms by (auto simp: log_extended_def event_repo_ok_def)
  moreover have "sorted_wrt (<) (map ev_id (stream E' sid))" for sid
    using assms below env
    by (auto simp: log_extended_def event_repo_ok_def sorted_wrt_append all_events_def)
  moreover have "\<forall>e \<in> all_events E'. ev_id e < er_next_id E'"
    using below env by (auto simp: all dest: less_SucI)
  moreover have "inj_on ev_id (all_events E')"
    using assms(2) below env by (force simp: all event_repo_ok_def)
  moreover have "dget (er_derived E') k = Some e \<longleftrightarrow> e \<in> all_events E' \<and> ev_derivation_key e = Some k"
    for k e
  proof -
    have "dget (er_derived E) k = Some e \<longleftrightarrow> e \<in> all_events E \<and> ev_derivation_key e = Some k"
      using assms(2) by (simp add: event_repo_ok_def)
    moreover have "dget (er_derived E') k =
        (if ev_derivation_key env = Some k then Some env else dget (er_derived E) k)"
      "ev_derivation_key env = Some k \<Longrightarrow> dget (er_derived E) k = None"
      using assms(1) by (simp_all add: log_extended_def)
    ultimately show ?thesis by (auto simp: all)
  qed
  ultimately show ?thesis by (simp add: event_repo_ok_def)
qed

lemma bind_effect:
  assumes "bind_memory_sources E si = Inr E'"
  shows "stream E' = stream E" "er_derived E' = er_derived E" "er_next_id E' = er_next_id E"
  using assms by (auto simp: bind_memory_sources_def stream_def fun_eq_iff split: if_splits)

lemma event_step_cases:
  assumes "event_step (E, S) (E', S')"
  shows "(\<exists>env. log_extended E env E')
       \<or> (stream E' = stream E \<and> er_derived E' = er_derived E \<and> er_next_id E' = er_next_id E)"
  using assms
proof cases
  case (estep_append det e l t env)
  then show ?thesis using event_append_effect [OF estep_append] by blast
next
  case (estep_bind si)
  then show ?thesis by (simp add: bind_effect)
qed simp

lemma event_step_ok:
  assumes "event_step (E, S) (E', S')" and "event_repo_ok E"
  shows "event_repo_ok E'"
  using event_step_cases [OF assms(1)]
proof
  assume "\<exists>env. log_extended E env E'"
  then show ?thesis using assms(2) log_extended_ok by blast
next
  assume "stream E' = stream E \<and> er_derived E' = er_derived E \<and> er_next_id E' = er_next_id E"
  then show ?thesis using assms(2) by (simp add: event_repo_ok_def all_events_def)
qed

definition log_grows :: "event_repo \<Rightarrow> event_repo \<Rightarrow> bool" where
  "log_grows E E' \<longleftrightarrow> (\<forall>sid. \<exists>new. stream E' sid = stream E sid @ new)
     \<and> (\<forall>k e. dget (er_derived E) k = Some e \<longrightarrow> dget (er_derived E') k = Some e)"

lemma event_step_grows:
  assumes "event_step (E, S) (E', S')"
  shows "log_grows E E'"
  using event_step_cases [OF assms]
  by (auto simp: log_extended_def log_grows_def)

lemma log_grows_trans: "log_grows A B \<Longrightarrow> log_grows B C \<Longrightarrow> log_grows A C"
  unfolding log_grows_def by (metis append.assoc)

lemma event_steps:
  assumes "event_step\<^sup>*\<^sup>* c d"
  shows "log_grows (fst c) (fst d) \<and> (event_repo_ok (fst c) \<longrightarrow> event_repo_ok (fst d))"
  using assms
proof (induction rule: rtranclp_induct)
  case base
  then show ?case by (simp add: log_grows_def)
next
  case (step x y)
  then show ?case
    using event_step_grows [of "fst x" "snd x" "fst y" "snd y"]
      event_step_ok [of "fst x" "snd x" "fst y" "snd y"]
    by (auto intro: log_grows_trans)
qed

lemma reachable_log_ok:
  "event_step\<^sup>*\<^sup>* (empty_event_repo, S) (E, S') \<Longrightarrow> event_repo_ok E"
  using event_steps [of "(empty_event_repo, S)" "(E, S')"] by simp

lemma stream_nth:
  assumes "event_repo_ok E" and "i < length (stream E sid)"
  shows "ev_sequence (stream E sid ! i) = int i + 1"
proof -
  have "map ev_sequence (stream E sid) ! i = map int [1..<Suc (length (stream E sid))] ! i"
    using assms(1) by (simp only: event_repo_ok_def)
  then show ?thesis using assms(2) by (simp del: upt_Suc)
qed

lemma stream_sequences_sorted:
  assumes "event_repo_ok E"
  shows "sorted_wrt (<) (map ev_sequence (stream E sid))"
  using stream_nth [OF assms] by (simp add: sorted_wrt_iff_nth_less)

subsection \<open>Erased payloads\<close>

fun erased :: "json \<Rightarrow> bool"
  and erased_items :: "json list \<Rightarrow> bool"
  and erased_fields :: "(string \<times> json) list \<Rightarrow> bool" where
  "erased (JArr xs) = erased_items xs"
| "erased (JObj d) = erased_fields d"
| "erased _ = True"
| "erased_items [] = True"
| "erased_items (x # xs) = (erased x \<and> erased_items xs)"
| "erased_fields [] = True"
| "erased_fields ((key, item) # d) =
     ((if key = ''raw_arguments'' then item = JStr ''{}''
       else if key \<in> set STRUCTURED_KEYS then item = JNull \<or> item = JObj []
       else if key \<in> set TEXT_KEYS then
         item = JNull \<or> item = JStr MARKER
         \<or> item = JArr [JObj [(''type'', JStr ''text''), (''text'', JStr MARKER)]]
         \<or> (\<exists>f. item = JObj f) \<and> erased item
       else erased item) \<and> erased_fields d)"

lemma redact_erased:
  "erased (redact v)" "erased_items (redact_items vs)" "erased_fields (redact_fields d)"
proof (induction v and vs and d rule: redact_redact_items_redact_fields.induct)
  case (7 key item d)
  then show ?case by (cases item) (auto split: if_splits)
qed simp_all

lemma erased_redact:
  "erased v \<Longrightarrow> redact v = v" "erased_items vs \<Longrightarrow> redact_items vs = vs"
  "erased_fields d \<Longrightarrow> redact_fields d = d"
proof (induction v and vs and d rule: redact_redact_items_redact_fields.induct)
  case (7 key item d)
  then show ?case by (cases item) (auto split: if_splits)
qed simp_all

subsection \<open>Reading the projection of a prefix\<close>

lemma raw_list_0: "event_repo_ok E \<Longrightarrow> raw_list E sid 0 = stream E sid"
  unfolding raw_list_def by (rule filter_True) (auto simp: in_set_conv_nth stream_nth)

lemma stream_upto:
  assumes "event_repo_ok E" and "0 \<le> n"
  shows "filter (\<lambda>e. ev_sequence e \<le> n) (stream E sid) = take (nat n) (stream E sid)"
proof -
  define xs where "xs = stream E sid"
  have nth: "ev_sequence (xs ! i) = int i + 1" if "i < length xs" for i
    using stream_nth [OF assms(1)] that by (simp add: xs_def)
  have "filter (\<lambda>e. ev_sequence e \<le> n) (take (nat n) xs) = take (nat n) xs"
    by (rule filter_True) (auto simp: in_set_conv_nth nth)
  moreover have "filter (\<lambda>e. ev_sequence e \<le> n) (drop (nat n) xs) = []"
    using assms(2) by (intro filter_False) (auto simp: in_set_conv_nth nth)
  ultimately show ?thesis
    unfolding xs_def [symmetric] by (metis append_Nil2 append_take_drop_id filter_append)
qed

lemma history_read_prefix:
  assumes "event_repo_ok E" and "0 \<le> n" and "n \<le> int (length (stream E sid))"
    and "history_read ad E sid (Some n) = Inr h"
  shows "project_items ad (take (nat n) (stream E sid)) = Inr (sh_items h) \<and> sh_session_id h = sid
      \<and> sh_through_sequence h = n \<and> sh_builder_version h = ''session-history-memory@2''"
proof -
  have through: "(if stream E sid = [] then 0 else ev_sequence (last (stream E sid)))
      = int (length (stream E sid))"
    using stream_nth [OF assms(1), of "length (stream E sid) - 1" sid]
    by (auto simp: last_conv_nth)
  show ?thesis
  proof (cases "n = int (length (stream E sid))")
    case True
    then show ?thesis
      using assms(4) through
      by (auto simp: history_read_def history_project_def Let_def raw_list_0 [OF assms(1)] rbind_Inr_iff
          split: if_splits)
  next
    case False
    then show ?thesis
      using assms(2-4) through stream_upto [OF assms(1,2), of sid]
      by (auto simp: history_read_def history_project_def Let_def raw_list_0 [OF assms(1)] rbind_Inr_iff
          split: if_splits)
  qed
qed

subsection \<open>Properties\<close>


text \<open>
  Derivation keys make appends idempotent for ever: once an event with a derivation key has
  been appended, a later append that carries the same key, whatever else it says, returns the
  stored event and changes neither the log nor the sessions.
\<close>

theorem event_append_idempotent:
  assumes "event_append det (E, S) e l t = Inr (env, E1, S1)" and "ne_derivation_key e = Some k"
    and "event_step\<^sup>*\<^sup>* (E1, S1) (E2, S2)" and "ne_derivation_key e' = Some k"
  shows "event_append det' (E2, S2) e' None t' = Inr (env, E2, S2)"
proof -
  have "dget (er_derived E1) k = Some env"
    using event_append_effect [OF assms(1)] assms(2)
    by (auto simp: log_extended_def)
  then have "dget (er_derived E2) k = Some env"
    using event_steps [OF assms(3)] by (simp add: log_grows_def)
  then show ?thesis
    using assms(4) by (simp add: event_append_def erased_event_def Let_def)
qed

text \<open>
  A reader that resumes after the last event it received misses nothing and sees nothing
  twice: a limited page of \<open>list_after\<close> followed by the unlimited listing after the page's last
  sequence number is the unlimited listing, under any run and time filter.
\<close>

theorem list_after_resumes:
  assumes "event_repo_ok (fst ES)"
    and "list_after ES sid n p run_id from before (Some l) = Inr page" and "page \<noteq> []"
    and "list_after ES sid (ev_sequence (last page)) p run_id from before None = Inr rest"
  shows "list_after ES sid n p run_id from before None = Inr (page @ rest)"
proof -
  define Q :: "event_envelope \<Rightarrow> bool" where "Q = (\<lambda>e. (run_id = None \<or> ev_run_id e = run_id)
    \<and> (case from of None \<Rightarrow> True | Some t \<Rightarrow> ev_created_at e \<ge> t)
    \<and> (case before of None \<Rightarrow> True | Some t \<Rightarrow> ev_created_at e < t))"
  define full where "full = filter (\<lambda>e. ev_sequence e > n \<and> Q e) (stream (fst ES) sid)"
  have get: "\<exists>s. session_get (snd ES) sid p = Inr s"
    using assms(2) by (auto simp: list_after_def rbind_Inr_iff split: if_splits)
  then have listing: "list_after ES sid m p run_id from before None
      = Inr (filter (\<lambda>e. ev_sequence e > m \<and> Q e) (stream (fst ES) sid))" for m
    by (auto simp: list_after_def Q_def)
  have page: "page = take (nat l) full"
    using assms(2) get by (auto simp: list_after_def full_def Q_def split: if_splits)
  have sorted: "sorted_wrt (<) (map ev_sequence full)"
    using stream_sequences_sorted [OF assms(1), of sid]
    by (simp add: full_def sorted_wrt_map sorted_wrt_filter)
  define k where "k = length page"
  have k: "page = take k full" "k \<le> length full" "0 < k"
    using assms(3) by (auto simp: k_def page min_def)
  have last: "last page = full ! (k - 1)"
    using k(2,3) by (subst k(1), subst last_conv_nth) (auto simp: min_def)
  have "last page \<in> set full"
    using last_in_set [OF assms(3)] by (auto simp: page dest: in_set_takeD)
  then have above: "n < ev_sequence (last page)" by (simp add: full_def)
  have "rest = filter (\<lambda>e. ev_sequence (last page) < ev_sequence e) full"
    using assms(4) above by (auto simp: listing full_def intro!: filter_cong)
  also have "\<dots> = drop k full"
    using filter_above_nth [OF sorted, of "k - 1"] k(2,3) by (simp add: last)
  finally have "page @ rest = full" using k(1) by simp
  then show ?thesis by (simp add: listing full_def)
qed

text \<open>
  A history read at a sequence number is reproducible: whatever is appended later, reading the
  session's history through that number again returns the same history (as long as the later
  events themselves can be projected, without which the code raises).
\<close>

theorem history_read_reproducible:
  assumes "event_step\<^sup>*\<^sup>* (empty_event_repo, S0) (E, S)" and "event_step\<^sup>*\<^sup>* (E, S) (E', S')"
    and "0 \<le> n" and "n \<le> int (length (stream E sid))"
    and "history_read ad E sid (Some n) = Inr h" and "history_read ad E' sid (Some n) = Inr h'"
  shows "h' = h"
proof -
  have ok: "event_repo_ok E" by (rule reachable_log_ok [OF assms(1)])
  then have ok': "event_repo_ok E'" and "log_grows E E'"
    using event_steps [OF assms(2)] by simp_all
  then obtain new where new: "stream E' sid = stream E sid @ new" unfolding log_grows_def by blast
  have take: "take (nat n) (stream E' sid) = take (nat n) (stream E sid)"
    using assms(4) by (simp add: new)
  have "n \<le> int (length (stream E' sid))" using assms(4) new by simp
  from history_read_prefix [OF ok assms(3,4,5)] history_read_prefix [OF ok' assms(3) this assms(6)]
  show ?thesis by (simp add: take)
qed

text \<open>
  What is appended for a run whose people data was erased carries no erased content: unless the
  event is one of the original owner events, every text field of the stored payload, at any depth,
  is absent, null or the erasure marker, every structured field is empty, and redacting the stored
  payload again changes nothing.
\<close>

theorem erased_run_append_redacted:
  assumes "event_append det (E, S) e l t = Inr (env, E', S')" and "ne_run_id e = Some i"
    and "dhas (er_people_erased E) i" and "ne_event_type e \<notin> ORIGINAL_EVENTS"
    and "env \<notin> all_events E" and "event_repo_ok E"
  shows "erased (JObj (ev_payload env)) \<and> redact (JObj (ev_payload env)) = JObj (ev_payload env)"
proof -
  have "ev_payload env = ne_payload (erased_event E e)"
    using event_append_effect [OF assms(1)] assms(5,6) by (auto simp: event_repo_ok_def)
  then have "ev_payload env = redact_fields (ne_payload e)"
    using assms(2-4) by (simp add: erased_event_def)
  then show ?thesis by (simp add: redact_erased erased_redact(3))
qed

subsection \<open>Witnesses\<close>

definition plain_detectors :: text_detectors where
  "plain_detectors = \<lparr> td_secret = (\<lambda>_. False), td_injection = (\<lambda>_. False),
     td_credential = (\<lambda>_. False), td_sha256_hex = (\<lambda>_. replicate 64 CHR ''0'') \<rparr>"

definition plain_adapters :: message_adapters where
  "plain_adapters = \<lparr> ma_content = Inr, ma_assistant = (\<lambda>d. Inr (JObj d)),
     ma_tool_call = (\<lambda>d. Inr ([], JObj d)), ma_item = Inr, ma_tool_result = (\<lambda>d. Inr (JObj d)) \<rparr>"

definition sample_event :: "string option \<Rightarrow> string \<Rightarrow> new_event" where
  "sample_event key txt = \<lparr> ne_session_id = 1, ne_run_id = Some 4, ne_event_type = ''user.message.created'',
     ne_payload_schema_version = 1, ne_actor_type = ''principal'', ne_actor_id = Some ''alice'',
     ne_payload = [(''content'', JStr txt)], ne_trace_id = None, ne_derivation_key = key \<rparr>"

lemma sample_append:
  assumes "dget (er_derived E) k = None" and "dget (sr_sessions S) 1 \<noteq> None"
  shows "\<exists>env E' S'. event_append plain_detectors (E, S) (sample_event (Some k) txt) None t
      = Inr (env, E', S') \<and> dget (sr_sessions S') 1 \<noteq> None \<and> length (stream E' 1) = Suc (length (stream E 1))"
proof -
  obtain s where s: "dget (sr_sessions S) 1 = Some s" using assms(2) by auto
  have e: "erased_event E (sample_event (Some k) txt) = sample_event (Some k) txt"
    by (simp add: erased_event_def sample_event_def ORIGINAL_EVENTS_def)
  show ?thesis
    using assms(1) s e
    by (auto simp: event_append_def e Let_def sample_event_def session_touch_def dlookup_def
        advances_session_activity_def stream_def envelope_of_def split: option.splits)
qed

lemma sample_log:
  obtains env E S env' E' S' where
    "event_append plain_detectors (empty_event_repo, sample_sessions) (sample_event (Some ''k1'') ''hi'')
       None 5 = Inr (env, E, S)"
    "event_append plain_detectors (E, S) (sample_event (Some ''k2'') ''again'') None 6 = Inr (env', E', S')"
    "length (stream E 1) = 1" "length (stream E' 1) = 2"
proof -
  have "dget (er_derived empty_event_repo) ''k1'' = None" "dget (sr_sessions sample_sessions) 1 \<noteq> None"
    by (simp_all add: empty_event_repo_def sample_sessions_def)
  from sample_append [OF this, of "''hi''" 5] obtain env E S where 1:
    "event_append plain_detectors (empty_event_repo, sample_sessions) (sample_event (Some ''k1'') ''hi'')
       None 5 = Inr (env, E, S)" "dget (sr_sessions S) 1 \<noteq> None"
    "length (stream E 1) = Suc (length (stream empty_event_repo 1))"
    by blast
  have "ev_derivation_key env = Some ''k1''" and "log_extended empty_event_repo env E"
    using event_append_effect [OF 1(1)] by (auto simp: sample_event_def empty_event_repo_def)
  then have "dget (er_derived E) ''k2'' = None"
    by (simp add: log_extended_def empty_event_repo_def)
  from sample_append [OF this 1(2), of "''again''" 6] 1 that show thesis
    by (auto simp: stream_def empty_event_repo_def)
qed


theorem event_append_idempotent_witness:
  "\<exists>env E S. event_append plain_detectors (empty_event_repo, sample_sessions)
       (sample_event (Some ''k1'') ''hi'') None 5 = Inr (env, E, S)
     \<and> event_append plain_detectors (E, S) (sample_event (Some ''k1'') ''changed'') None 9 = Inr (env, E, S)"
proof -
  obtain env E S where 1:
    "event_append plain_detectors (empty_event_repo, sample_sessions) (sample_event (Some ''k1'') ''hi'')
       None 5 = Inr (env, E, S)"
    by (rule sample_log) blast
  have "ne_derivation_key (sample_event (Some ''k1'') t) = Some ''k1''" for t
    by (simp add: sample_event_def)
  from event_append_idempotent [OF 1 this rtranclp.rtrancl_refl this] 1
  show ?thesis by blast
qed

theorem list_after_resumes_witness:
  "\<exists>ES page rest. list_after ES 1 0 alice None None None (Some 1) = Inr page \<and> length page = 1
     \<and> list_after ES 1 0 alice None None None None = Inr (page @ rest) \<and> length rest = 1"
proof -
  define mk where "mk = (\<lambda>i. envelope_of (sample_event None ''x'') i (int i) 5)"
  define E where "E = empty_event_repo\<lparr> er_events := [(1, [mk 1, mk 2])], er_next_id := 3 \<rparr>"
  have mk: "ev_id (mk i) = i" "ev_sequence (mk i) = int i" "ev_session_id (mk i) = 1"
    "ev_derivation_key (mk i) = None" for i
    by (simp_all add: mk_def envelope_of_def sample_event_def)
  have st: "stream E sid = (if sid = 1 then [mk 1, mk 2] else [])" for sid
    by (simp add: E_def stream_def)
  have all: "all_events E = {mk 1, mk 2}" by (auto simp: all_events_def st)
  have ok: "event_repo_ok E"
    by (auto simp: event_repo_ok_def st all mk inj_on_def) (simp_all add: E_def empty_event_repo_def)
  have get: "session_get sample_sessions 1 alice = Inr (sample_session 1 (Some ''plan'') 10)"
    by (simp add: session_get_def dlookup_def sample_session_defs)
  have "list_after (E, sample_sessions) 1 0 alice None None None (Some 1) = Inr [mk 1]"
    "list_after (E, sample_sessions) 1 (ev_sequence (last [mk 1])) alice None None None None = Inr [mk 2]"
    using get by (simp_all add: list_after_def st mk)
  with list_after_resumes [of "(E, sample_sessions)" 1 0 alice None None None 1 "[mk 1]" "[mk 2]"] ok
  have "list_after (E, sample_sessions) 1 0 alice None None None (Some 1) = Inr [mk 1]
     \<and> length [mk 1] = 1
     \<and> list_after (E, sample_sessions) 1 0 alice None None None None = Inr ([mk 1] @ [mk 2])
     \<and> length [mk 2] = 1"
    by simp
  then show ?thesis by blast
qed

theorem history_read_reproducible_witness:
  "\<exists>E S E' S' h. event_step\<^sup>*\<^sup>* (E, S) (E', S') \<and> E' \<noteq> E
     \<and> history_read plain_adapters E 1 (Some 0) = Inr h \<and> history_read plain_adapters E' 1 (Some 0) = Inr h"
proof -
  obtain env E S where 1:
    "event_append plain_detectors (empty_event_repo, sample_sessions) (sample_event (Some ''k1'') ''hi'')
       None 5 = Inr (env, E, S)" "length (stream E 1) = 1"
    by (rule sample_log) blast
  define S0 where "S0 = sample_sessions"
  have step: "event_step\<^sup>*\<^sup>* (empty_event_repo, S0) (E, S)"
    using estep_append [OF 1(1)] by (auto simp: S0_def)
  have ok: "event_repo_ok E" by (rule reachable_log_ok [OF step])
  have env: "stream E 1 = [env]" "ev_payload env = [(''content'', JStr ''hi'')]"
    "ev_event_type env = ''user.message.created''" "ev_sequence env = 1"
    using 1(1) by (auto simp: event_append_def erased_event_def sample_event_def ORIGINAL_EVENTS_def
        stream_def empty_event_repo_def envelope_of_def rbind_Inr_iff Let_def
        split: option.splits if_splits)
  define h where "h = \<lparr> sh_session_id = 1, sh_through_sequence = 0, sh_items = [],
    sh_builder_version = ''session-history-memory@2'' \<rparr>"
  have h: "history_read plain_adapters empty_event_repo 1 (Some 0) = Inr h"
    by (simp add: history_read_def history_project_def raw_list_def stream_def empty_event_repo_def
        h_def Let_def)
  have "\<exists>h'. history_read plain_adapters E 1 (Some 0) = Inr h'"
    using raw_list_0 [OF ok, of 1]
    by (simp add: history_read_def history_project_def env conversation_items_def Let_def
        del: One_nat_def)
  then obtain h' where h': "history_read plain_adapters E 1 (Some 0) = Inr h'" by blast
  have "h' = h"
    using history_read_reproducible [OF rtranclp.rtrancl_refl step _ _ h h'] by simp
  moreover have "E \<noteq> empty_event_repo" using 1(2) by (auto simp: stream_def empty_event_repo_def)
  ultimately show ?thesis using step h h' by blast
qed

theorem erased_run_append_redacted_witness:
  "\<exists>env E' S'. event_append plain_detectors
       (empty_event_repo\<lparr> er_people_erased := [(4, 0)] \<rparr>, sample_sessions)
       ((sample_event None ''secret'')\<lparr> ne_event_type := ''assistant.message.completed'' \<rparr>) None 5
       = Inr (env, E', S') \<and> ev_payload env = [(''content'', JStr MARKER)]
     \<and> erased (JObj (ev_payload env))"
proof -
  define E0 where "E0 = empty_event_repo\<lparr> er_people_erased := [(4, 0)] \<rparr>"
  define e where "e = (sample_event None ''secret'')\<lparr> ne_event_type := ''assistant.message.completed'' \<rparr>"
  have "\<exists>env E' S'. event_append plain_detectors (E0, sample_sessions) e None 5 = Inr (env, E', S')
      \<and> ev_payload env = [(''content'', JStr MARKER)]"
    by (simp add: event_append_def erased_event_def E0_def e_def sample_event_def ORIGINAL_EVENTS_def
        dhas_def empty_event_repo_def stream_def session_touch_def dlookup_def sample_sessions_def
        advances_session_activity_def Let_def envelope_of_def STRUCTURED_KEYS_def TEXT_KEYS_def)
  then obtain env E' S' where a: "event_append plain_detectors (E0, sample_sessions) e None 5 = Inr (env, E', S')"
    "ev_payload env = [(''content'', JStr MARKER)]" by blast
  have "event_repo_ok E0" "env \<notin> all_events E0"
    by (simp_all add: E0_def event_repo_ok_def empty_event_repo_def stream_def all_events_def)
  moreover have "ne_run_id e = Some 4" "dhas (er_people_erased E0) 4" "ne_event_type e \<notin> ORIGINAL_EVENTS"
    by (simp_all add: e_def sample_event_def E0_def dhas_def ORIGINAL_EVENTS_def)
  ultimately have "erased (JObj (ev_payload env))"
    using erased_run_append_redacted [OF a(1)] by blast
  with a show ?thesis unfolding E0_def e_def by blast
qed

end
