(* ===== verification/Policy.thy ===== *)
theory Policy
  imports Runs Py_Strings
begin

text \<open>
  Policy evaluation: the vocabulary of \<open>domain/policies.py\<close>, the hardline rules of
  \<open>policy/hardline.py\<close>, the deterministic engine of \<open>policy/engine.py\<close>, the advisory layer of
  \<open>policy/advised.py\<close>, the jobs engine of \<open>policy/jobs.py\<close>, the scope vocabulary of
  \<open>policy/scopes.py\<close> and the mail-server predicates of \<open>mcp/configuration.py\<close>.

  Parameters, bundled in \<open>policy_env\<close>: the regular-expression search for the patterns a ruleset
  brings along, the test of an address against network ranges, and the validator of a browser
  postcondition. Everything else is computed here.
\<close>

subsection \<open>Vocabulary\<close>

datatype side_effect_class =
    NO_EFFECT | WORKSPACE_READ | WORKSPACE_WRITE | NETWORK_READ | CODE_EXECUTION
  | PACKAGE_INSTALL | SANDBOX_NETWORK | EXTERNAL_MESSAGE | EXTERNAL_WRITE | EXTERNAL_DELETE
  | FINANCIAL | PUBLICATION | CREDENTIAL_ACCESS | HOST_ACCESS | PRIVILEGED

fun side_effect_value :: "side_effect_class \<Rightarrow> string" where
  "side_effect_value NO_EFFECT = ''none''"
| "side_effect_value WORKSPACE_READ = ''workspace_read''"
| "side_effect_value WORKSPACE_WRITE = ''workspace_write''"
| "side_effect_value NETWORK_READ = ''network_read''"
| "side_effect_value CODE_EXECUTION = ''code_execution''"
| "side_effect_value PACKAGE_INSTALL = ''package_install''"
| "side_effect_value SANDBOX_NETWORK = ''sandbox_network''"
| "side_effect_value EXTERNAL_MESSAGE = ''external_message''"
| "side_effect_value EXTERNAL_WRITE = ''external_write''"
| "side_effect_value EXTERNAL_DELETE = ''external_delete''"
| "side_effect_value FINANCIAL = ''financial''"
| "side_effect_value PUBLICATION = ''publication''"
| "side_effect_value CREDENTIAL_ACCESS = ''credential_access''"
| "side_effect_value HOST_ACCESS = ''host_access''"
| "side_effect_value PRIVILEGED = ''privileged''"

definition SideEffectClass :: "side_effect_class list" where
  "SideEffectClass = [NO_EFFECT, WORKSPACE_READ, WORKSPACE_WRITE, NETWORK_READ, CODE_EXECUTION,
     PACKAGE_INSTALL, SANDBOX_NETWORK, EXTERNAL_MESSAGE, EXTERNAL_WRITE, EXTERNAL_DELETE,
     FINANCIAL, PUBLICATION, CREDENTIAL_ACCESS, HOST_ACCESS, PRIVILEGED]"

datatype risk_level = Risk_LOW | Risk_MEDIUM | Risk_HIGH | Risk_CRITICAL

datatype idempotency_class =
  READ_ONLY | IDEMPOTENT | CONDITIONALLY_IDEMPOTENT | NON_IDEMPOTENT

record execution_target =
  tg_kind :: string
  tg_isolated :: bool
  tg_network_enabled :: bool
  tg_device_id :: "string option"
  tg_server_id :: "string option"

datatype decision_type = ALLOW | ALLOW_WITH_MODIFICATIONS | REQUIRE_APPROVAL | DENY

fun POLICY_DECISION_RANK :: "decision_type \<Rightarrow> nat" where
  "POLICY_DECISION_RANK ALLOW = 0"
| "POLICY_DECISION_RANK ALLOW_WITH_MODIFICATIONS = 1"
| "POLICY_DECISION_RANK REQUIRE_APPROVAL = 2"
| "POLICY_DECISION_RANK DENY = 3"

datatype policy_condition =
  PATH_INSIDE_WORKSPACE | HOST_ON_ALLOWLIST | TARGET_ISOLATED | BOUNDED_BROWSER_SCROLL

datatype hardline_kind = SIDE_EFFECT | COMMAND_REGEX | PROTECTED_PATH | NETWORK_RANGE | TRUST_FLOW

datatype action_kind = TOOL_CALL | MEMORY_WRITE | SKILL_AUTHORING | ARTIFACT_EXPORT

record proposed_action =
  ac_kind :: action_kind
  ac_action_id :: uuid
  ac_tenant_id :: string
  ac_session_id :: uuid
  ac_run_id :: uuid
  ac_step_number :: int
  ac_name :: string
  ac_version :: "string option"
  ac_summary :: string
  ac_side_effect :: side_effect_class
  ac_risk :: risk_level
  ac_idempotency :: idempotency_class
  ac_required_scopes :: "string set"
  ac_arguments :: document
  ac_normalized_arguments_hash :: string
  ac_argument_trust :: "(string, trust_level) dict"
  ac_origin_trust :: trust_level
  ac_newest_user_trust :: "trust_level option"
  ac_target :: execution_target
  ac_evaluated_at :: instant

record policy_decision =
  pd_decision :: decision_type
  pd_reason_code :: string
  pd_explanation :: string
  pd_modified_arguments :: "document option"
  pd_policy_version :: string
  pd_untrusted_escalation :: bool

datatype verdict_type = Verdict_ABSTAIN | Verdict_REQUIRE_APPROVAL | Verdict_DENY

record advisory_verdict =
  av_verdict :: verdict_type
  av_signals :: "string list"
  av_advisor_version :: string

record policy_rule =
  pr_side_effect :: side_effect_class
  pr_decision :: decision_type
  pr_condition :: "policy_condition option"
  pr_otherwise :: "decision_type option"

record tool_policy_rule =
  tpr_tool_name :: string
  tpr_decision :: decision_type
  tpr_condition :: "policy_condition option"
  tpr_otherwise :: "decision_type option"
  tpr_human_confirms_arguments :: bool

record hardline_rule =
  hr_id :: string
  hr_kind :: hardline_kind
  hr_applies_to :: "side_effect_class list"
  hr_message_code :: string
  hr_near_miss :: string
  hr_pattern :: "string option"
  hr_paths :: "string list"
  hr_cidrs :: "string list"
  hr_source :: "string option"

record loaded_ruleset =
  rs_policy_version :: string
  rs_profile_name :: string
  rs_profile_sha256 :: string
  rs_hardline_sha256 :: string
  rs_rules :: "policy_rule list"
  rs_tool_rules :: "tool_policy_rule list"
  rs_hardline :: "hardline_rule list"
  rs_default_effect :: decision_type
  rs_unknown_tool_decision :: decision_type
  rs_external_untrusted_requires_approval :: bool
  rs_self_approval_enabled :: bool
  rs_advisory_enabled :: bool
  rs_approval_expiry_seconds :: "(risk_level \<times> int) list"

record policy_env =
  env_regex_search :: "string \<Rightarrow> string \<Rightarrow> bool"
  env_in_networks :: "string list \<Rightarrow> string \<Rightarrow> bool"
  env_condition_valid :: "json \<Rightarrow> bool"

subsection \<open>Hardline rules\<close>

fun strings_of :: "json \<Rightarrow> string list"
  and strings_of_items :: "json list \<Rightarrow> string list"
  and strings_of_fields :: "(string \<times> json) list \<Rightarrow> string list" where
  "strings_of (JStr s) = [s]"
| "strings_of (JObj d) = strings_of_fields d"
| "strings_of (JArr xs) = strings_of_items xs"
| "strings_of _ = []"
| "strings_of_items [] = []"
| "strings_of_items (x # xs) = strings_of x @ strings_of_items xs"
| "strings_of_fields [] = []"
| "strings_of_fields ((k, x) # d) = k # strings_of x @ strings_of_fields d"

definition canonical_path :: "string \<Rightarrow> string" where
  "canonical_path value_text =
     (let n0 = normpath (replace_char (CHR 0x5C) (CHR ''/'') value_text);
          n1 = (if starts_with n0 ''~/'' then ''/home/'' @ drop 2 n0 else n0);
          n2 = (if \<not> starts_with n1 ''/'' then ''/'' @ n1 else n1)
      in normpath n2)"

definition is_within :: "string \<Rightarrow> string \<Rightarrow> bool" where
  "is_within candidate protected =
     (let normalized = canonical_path candidate; target = canonical_path protected
      in normalized = target \<or> starts_with normalized (target @ ''/''))"

definition protected_path_hit :: "string list \<Rightarrow> string \<Rightarrow> bool" where
  "protected_path_hit paths text =
     (let normalized = canonical_path text;
          components = filter (\<lambda>part. part \<noteq> []) (split_on (CHR ''/'') normalized);
          basename = (if components = [] then [] else last components)
      in \<exists>protected \<in> set paths.
           (protected = ''.env'' \<and> (basename = ''.env''
              \<or> (starts_with basename ''.env.'' \<and> basename \<noteq> ''.env.example'')))
           \<or> is_within normalized protected
           \<or> (protected = ''~/.ssh'' \<and> ''.ssh'' \<in> set components))"

text \<open>
  The credential shape \<open>(?:api[_-]?key|secret|password|token|bearer)\s*[:=]\s*\S+\<close>, ignoring case:
  a keyword, blanks, a colon or equals sign, blanks, and one more non-blank character.
\<close>

definition lower_char :: "char \<Rightarrow> char" where
  "lower_char c = (let n = of_char c :: nat
     in if 65 \<le> n \<and> n \<le> 90 then char_of (n + 32) else c)"

definition credential_keywords :: "string list" where
  "credential_keywords = [''api_key'', ''api-key'', ''apikey'', ''secret'', ''password'', ''token'',
     ''bearer'']"

definition credential_tail :: "string \<Rightarrow> bool" where
  "credential_tail s = (case dropWhile py_space s of
      [] \<Rightarrow> False
    | c # rest \<Rightarrow> (c = CHR '':'' \<or> c = CHR ''='') \<and> dropWhile py_space rest \<noteq> [])"

definition credential_shape :: "string \<Rightarrow> bool" where
  "credential_shape s \<longleftrightarrow>
     (\<exists>n \<in> set [0..<length s]. \<exists>k \<in> set credential_keywords.
        starts_with (map lower_char (drop n s)) k \<and> credential_tail (drop (n + length k) s))"

definition hardline_matches :: "policy_env \<Rightarrow> hardline_rule \<Rightarrow> proposed_action \<Rightarrow> bool" where
  "hardline_matches env rule action =
     (if ac_side_effect action \<notin> set (hr_applies_to rule) then False
      else
        let texts = strings_of_fields (ac_arguments action)
        in case hr_kind rule of
             SIDE_EFFECT \<Rightarrow> True
           | COMMAND_REGEX \<Rightarrow> (case hr_pattern rule of
                 Some (c # pat) \<Rightarrow> (\<exists>t \<in> set texts. env_regex_search env (c # pat) t)
               | _ \<Rightarrow> False)
           | PROTECTED_PATH \<Rightarrow> (\<exists>t \<in> set texts. protected_path_hit (hr_paths rule) t)
           | NETWORK_RANGE \<Rightarrow> (\<exists>t \<in> set texts. env_in_networks env (hr_cidrs rule) t)
           | TRUST_FLOW \<Rightarrow> (\<exists>t \<in> set texts. credential_shape t))"

subsection \<open>Mail servers\<close>

definition lower_az :: "char \<Rightarrow> bool" where
  "lower_az c \<longleftrightarrow> (let n = of_char c :: nat in 97 \<le> n \<and> n \<le> 122)"

definition ident_char :: "char \<Rightarrow> bool" where
  "ident_char c \<longleftrightarrow> lower_az c \<or> (let n = of_char c :: nat in 48 \<le> n \<and> n \<le> 57) \<or> c = CHR ''_''"

definition account_infix :: "string \<Rightarrow> bool" where
  "account_infix s \<longleftrightarrow> s = [] \<or> (last s = CHR ''_'' \<and> (case butlast s of
      [] \<Rightarrow> False | c # r \<Rightarrow> lower_az c \<and> length r \<le> 31 \<and> list_all ident_char r))"

text \<open>\<open>^gmail_(?:[a-z][a-z0-9_]{0,31}_)?(?:read|write|send)$\<close>, matched as a whole\<close>

definition is_email_server_id :: "string option \<Rightarrow> bool" where
  "is_email_server_id server = (case server of
      None \<Rightarrow> False
    | Some s \<Rightarrow> starts_with s ''gmail_'' \<and> (\<exists>mode \<in> set [''read'', ''write'', ''send''].
         ends_with (drop 6 s) mode \<and> account_infix (take (length (drop 6 s) - length mode) (drop 6 s))))"

definition is_mutating_email_server_id :: "string option \<Rightarrow> bool" where
  "is_mutating_email_server_id server = (is_email_server_id server \<and> (case server of
      None \<Rightarrow> False | Some s \<Rightarrow> ends_with s ''_write'' \<or> ends_with s ''_send''))"

definition is_email_attachment_tool :: "string option \<Rightarrow> string \<Rightarrow> bool" where
  "is_email_attachment_tool server remote_name = (is_email_server_id server \<and> (case server of
      None \<Rightarrow> False | Some s \<Rightarrow> ends_with s ''_read'')
      \<and> remote_name \<in> {''fetch_attachment'', ''save_attachment''})"

definition is_model_email_attachment_action :: "string option \<Rightarrow> string \<Rightarrow> bool" where
  "is_model_email_attachment_action server action_name =
     (is_email_attachment_tool server ''save_attachment'' \<and> (case server of
        None \<Rightarrow> False | Some s \<Rightarrow> action_name = ''mcp.'' @ s @ ''.save_attachment''))"

subsection \<open>The deterministic engine\<close>

definition combine_decision_types :: "decision_type \<Rightarrow> decision_type option \<Rightarrow> decision_type" where
  "combine_decision_types deterministic advisory = (case advisory of
      None \<Rightarrow> deterministic
    | Some a \<Rightarrow> if POLICY_DECISION_RANK deterministic \<ge> POLICY_DECISION_RANK a then deterministic else a)"

definition path_inside_workspace :: "proposed_action \<Rightarrow> bool" where
  "path_inside_workspace action = (case dget (ac_arguments action) ''path'' of
      Some (JStr text) \<Rightarrow>
        if starts_with text ''/'' \<or> CHR 0x5C \<in> set text then False
        else tg_kind (ac_target action) \<in> {''in_process'', ''sandbox''}
          \<and> (text = [] \<or> list_all (\<lambda>part. part \<notin> {[], ''.'', ''..''}) (split_on (CHR ''/'') text))
    | _ \<Rightarrow> False)"

definition text_between :: "nat \<Rightarrow> nat \<Rightarrow> json option \<Rightarrow> bool" where
  "text_between lo hi v = (case v of Some (JStr s) \<Rightarrow> lo \<le> length s \<and> length s \<le> hi | _ \<Rightarrow> False)"

text \<open>
  The keys are limited to those of a scroll, so \<open>BrowserAction\<close> accepts the arguments with kind
  \<open>scroll\<close> exactly under the last four conditions.
\<close>

definition bounded_browser_scroll :: "policy_env \<Rightarrow> proposed_action \<Rightarrow> bool" where
  "bounded_browser_scroll env action =
     (let a = ac_arguments action; t = ac_target action
      in ac_kind action = TOOL_CALL \<and> ac_name action = ''browser.act''
         \<and> tg_kind t = ''browser_provider'' \<and> tg_isolated t \<and> tg_network_enabled t
         \<and> ac_side_effect action = EXTERNAL_WRITE \<and> ac_risk action = Risk_HIGH
         \<and> ac_idempotency action = NON_IDEMPOTENT
         \<and> list_all (\<lambda>k. k \<in> {''kind'', ''expected_revision'', ''ref'', ''delta_y'', ''postcondition''})
             (map fst a)
         \<and> (case dget a ''postcondition'' of None \<Rightarrow> True | Some c \<Rightarrow> env_condition_valid env c)
         \<and> dget a ''kind'' = Some (JStr ''scroll'')
         \<and> text_between 1 128 (dget a ''expected_revision'') \<and> text_between 1 128 (dget a ''ref'')
         \<and> (case dget a ''delta_y'' of
              Some (JInt d) \<Rightarrow> -2000 \<le> d \<and> d \<le> 2000 \<and> d \<noteq> 0 | _ \<Rightarrow> False))"

definition condition_holds ::
    "policy_env \<Rightarrow> policy_condition option \<Rightarrow> proposed_action \<Rightarrow> bool" where
  "condition_holds env condition action = (case condition of
      None \<Rightarrow> True
    | Some PATH_INSIDE_WORKSPACE \<Rightarrow> path_inside_workspace action
    | Some HOST_ON_ALLOWLIST \<Rightarrow>
        let t = ac_target action
        in ((tg_kind t = ''web_provider'' \<and> tg_network_enabled t
               \<and> ac_name action \<in> {''web.search'', ''web.fetch'', ''web.fetch_json'', ''web.inspect_image''})
            \<or> (tg_kind t = ''browser_provider'' \<and> tg_isolated t \<and> tg_network_enabled t
               \<and> ac_name action \<in> {''browser.navigate'', ''browser.observe''})
            \<or> tg_kind t = ''mcp'')
           \<and> ac_side_effect action = NETWORK_READ \<and> ac_idempotency action = READ_ONLY
    | Some TARGET_ISOLATED \<Rightarrow> tg_isolated (ac_target action)
    | Some BOUNDED_BROWSER_SCROLL \<Rightarrow> bounded_browser_scroll env action)"

definition AUTHORIZING_ORIGINS :: "trust_level set" where
  "AUTHORIZING_ORIGINS = {Trust_PLATFORM, Trust_TRUSTED_CONFIGURATION, Trust_USER}"

text \<open>The approval floor for mailbox changes, sends, calls, unsubscribing and saving attachments.\<close>

definition approval_floor :: "proposed_action \<Rightarrow> bool" where
  "approval_floor action \<longleftrightarrow>
     (tg_kind (ac_target action) = ''mcp''
       \<and> (is_mutating_email_server_id (tg_server_id (ac_target action))
          \<or> tg_server_id (ac_target action) = Some ''bland_call''
          \<or> is_model_email_attachment_action (tg_server_id (ac_target action)) (ac_name action)))
     \<or> ac_name action = ''email.unsubscribe''"

definition deny_decision :: "loaded_ruleset \<Rightarrow> string \<Rightarrow> string \<Rightarrow> policy_decision" where
  "deny_decision ruleset reason explanation = \<lparr> pd_decision = DENY, pd_reason_code = reason,
     pd_explanation = explanation, pd_modified_arguments = None,
     pd_policy_version = rs_policy_version ruleset, pd_untrusted_escalation = False \<rparr>"

definition evaluate_deterministic ::
    "policy_env \<Rightarrow> proposed_action \<Rightarrow> loaded_ruleset \<Rightarrow> policy_decision" where
  "evaluate_deterministic env action ruleset =
     (if ac_kind action = SKILL_AUTHORING \<and> ac_origin_trust action \<noteq> Trust_USER
      then deny_decision ruleset ''policy.skill.origin_untrusted''
             ''Skill authoring requires a user-trusted turn.''
      else (case List.find (\<lambda>rule. hardline_matches env rule action) (rs_hardline ruleset) of
        Some rule \<Rightarrow> deny_decision ruleset (hr_message_code rule)
             (''Hardline rule '' @ hr_id rule @ '' denied the action.'')
      | None \<Rightarrow>
        (let tool_rules = filter (\<lambda>r. tpr_tool_name r = ac_name action) (rs_tool_rules ruleset);
             matching = filter (\<lambda>r. pr_side_effect r = ac_side_effect action) (rs_rules ruleset)
         in if length tool_rules > 1 \<or> length matching \<noteq> 1
            then \<lparr> pd_decision = rs_unknown_tool_decision ruleset,
                   pd_reason_code = ''policy.unclassifiable_action'',
                   pd_explanation =
                     ''The action could not be classified by the loaded policy profile.'',
                   pd_modified_arguments = None, pd_policy_version = rs_policy_version ruleset,
                   pd_untrusted_escalation = False \<rparr>
            else
              let has_tool = tool_rules \<noteq> [];
                  condition = (if has_tool then tpr_condition (hd tool_rules)
                               else pr_condition (hd matching));
                  rule_decision = (if has_tool then tpr_decision (hd tool_rules)
                                   else pr_decision (hd matching));
                  otherwise = (if has_tool then tpr_otherwise (hd tool_rules)
                               else pr_otherwise (hd matching));
                  allowed = condition_holds env condition action;
                  decision0 = (if allowed then rule_decision
                    else (case otherwise of None \<Rightarrow> rs_default_effect ruleset | Some d \<Rightarrow> d));
                  confirmed_by_human = (has_tool \<and> tpr_human_confirms_arguments (hd tool_rules));
                  permitted_scroll = (condition = Some BOUNDED_BROWSER_SCROLL \<and> allowed);
                  origin_untrusted =
                    (if permitted_scroll
                     then (case ac_newest_user_trust action of
                         None \<Rightarrow> ac_origin_trust action | Some t \<Rightarrow> t) \<notin> AUTHORIZING_ORIGINS
                     else if has_tool then ac_origin_trust action \<notin> AUTHORIZING_ORIGINS
                     else ac_origin_trust action = Trust_EXTERNAL_UNTRUSTED);
                  untrusted_input = (origin_untrusted
                    \<or> (\<not> (confirmed_by_human \<or> permitted_scroll)
                        \<and> Trust_EXTERNAL_UNTRUSTED \<in> set (dvals (ac_argument_trust action))));
                  decision1 = (if approval_floor action
                      \<and> POLICY_DECISION_RANK decision0 < POLICY_DECISION_RANK REQUIRE_APPROVAL
                    then REQUIRE_APPROVAL else decision0);
                  escalated = (decision1 \<in> {ALLOW, ALLOW_WITH_MODIFICATIONS}
                    \<and> rs_external_untrusted_requires_approval ruleset \<and> untrusted_input
                    \<and> ac_side_effect action \<notin> {NO_EFFECT, WORKSPACE_READ, NETWORK_READ})
              in \<lparr> pd_decision = (if escalated then REQUIRE_APPROVAL else decision1),
                   pd_reason_code = (if has_tool then ''policy.tool.'' @ ac_name action
                     else ''policy.matrix.'' @ side_effect_value (ac_side_effect action)),
                   pd_explanation = ''The '' @ rs_profile_name ruleset @ '' profile evaluated ''
                     @ side_effect_value (ac_side_effect action) @ ''.'',
                   pd_modified_arguments = None, pd_policy_version = rs_policy_version ruleset,
                   pd_untrusted_escalation = escalated \<rparr>)))"

subsection \<open>The advisory layer\<close>

definition advisable :: "proposed_action \<Rightarrow> bool" where
  "advisable action \<longleftrightarrow> ac_side_effect action = NETWORK_READ
     \<and> tg_kind (ac_target action) \<in> {''web_provider'', ''browser_provider''}"

fun VERDICT_DECISIONS :: "verdict_type \<Rightarrow> decision_type option" where
  "VERDICT_DECISIONS Verdict_ABSTAIN = None"
| "VERDICT_DECISIONS Verdict_REQUIRE_APPROVAL = Some REQUIRE_APPROVAL"
| "VERDICT_DECISIONS Verdict_DENY = Some DENY"

text \<open>
  \<open>advise\<close> answers \<open>None\<close> when the advisor times out or raises: the layer then abstains.
\<close>

definition advised_evaluate ::
    "(proposed_action \<Rightarrow> policy_decision) \<Rightarrow> (proposed_action \<Rightarrow> advisory_verdict option) \<Rightarrow> bool \<Rightarrow>
       proposed_action \<Rightarrow> policy_decision" where
  "advised_evaluate deterministic advise enforce action =
     (let decision = deterministic action
      in if pd_decision decision \<noteq> ALLOW \<or> \<not> advisable action then decision
         else (case advise action of
           None \<Rightarrow> decision
         | Some verdict \<Rightarrow> (case VERDICT_DECISIONS (av_verdict verdict) of
             None \<Rightarrow> decision
           | Some advised \<Rightarrow>
               if \<not> enforce then decision
               else if combine_decision_types (pd_decision decision) (Some advised)
                       = pd_decision decision then decision
               else \<lparr> pd_decision = advised, pd_reason_code = ''policy.advisory.escalated'',
                      pd_explanation = ''Advisory signals ''
                        @ (let j = py_join '', '' (av_signals verdict)
                           in if j = [] then ''unspecified'' else j)
                        @ '' ('' @ av_advisor_version verdict @ '').'',
                      pd_modified_arguments = None,
                      pd_policy_version = pd_policy_version decision,
                      pd_untrusted_escalation = False \<rparr>)))"

subsection \<open>The jobs engine\<close>

definition job_evaluate ::
    "(proposed_action \<Rightarrow> policy_decision) \<Rightarrow> (proposed_action \<Rightarrow> policy_decision) \<Rightarrow>
       proposed_action \<Rightarrow> policy_decision" where
  "job_evaluate base publication action =
     (let decision = (if ac_name action \<in> {''job.manage'', ''cockpit.install''}
                      then publication action else base action)
      in if ac_name action = ''job.manage''
            \<and> dget (ac_arguments action) ''operation'' = Some (JStr ''trial'')
            \<and> dhas (ac_arguments action) ''grant_id'' \<and> pd_decision decision = ALLOW
         then decision\<lparr> pd_decision := REQUIRE_APPROVAL,
                        pd_reason_code := ''job.trial.execution_authority'',
                        pd_explanation :=
                          ''Live trials require approval or an exact code-bound grant.'' \<rparr>
         else decision)"

subsection \<open>Scopes\<close>

definition PLATFORM_SCOPES :: "string set" where
  "PLATFORM_SCOPES = {''session.read'', ''session.write'', ''run.read'', ''run.write'', ''run.cancel'',
     ''run.delegate'', ''approval.read'', ''approval.resolve'', ''artifact.read'', ''artifact.write'',
     ''media.generate'', ''workspace.read'', ''workspace.write'', ''sandbox.execute'', ''skill.write'',
     ''demo.write'', ''knowledge.write'', ''browser.profile.read'', ''browser.profile.write'',
     ''browser.grant.read'', ''browser.grant.write'', ''schedule.read'', ''schedule.write'',
     ''schedule.cancel'', ''schedule.run'', ''device.read'', ''device.write'', ''notification.read'',
     ''notification.write'', ''surface.read'', ''surface.write'', ''memory.read'', ''memory.write'',
     ''people.read'', ''people.write'', ''records.read'', ''records.write'', ''cockpit.read'',
     ''cockpit.write'', ''jobs.write'', ''jobs.run'', ''code.read'', ''code.write'', ''persona.read'',
     ''persona.write'', ''settings.read'', ''settings.write'', ''email.read'', ''email.write'',
     ''call.read'', ''call.cancel'', ''call.delete''}"

definition ident_word :: "string \<Rightarrow> bool" where
  "ident_word w = (case w of [] \<Rightarrow> False | c # r \<Rightarrow> lower_az c \<and> list_all ident_char r)"

text \<open>\<open>^[a-z][a-z0-9_]*(?:\.[a-z][a-z0-9_]*)+$\<close>, matched as a whole\<close>

definition scope_syntax :: "string \<Rightarrow> bool" where
  "scope_syntax s = (let parts = split_on (CHR ''.'') s in length parts \<ge> 2 \<and> list_all ident_word parts)"

text \<open>The loop over a set of scopes, in the order \<open>scopes\<close> in which the set is iterated.\<close>

fun validate_required_scopes :: "string list \<Rightarrow> string option \<Rightarrow> unit res" where
  "validate_required_scopes [] server = Inr ()"
| "validate_required_scopes (sc # rest) server =
     (if \<not> scope_syntax sc then Inl (ToolValidationError (''invalid required scope '' @ sc))
      else (case server of
          None \<Rightarrow> if sc \<notin> PLATFORM_SCOPES
                  then Inl (ToolValidationError (''unknown platform scope '' @ sc))
                  else validate_required_scopes rest server
        | Some sid \<Rightarrow> if \<not> starts_with sc (''mcp.'' @ sid @ ''.'')
                  then Inl (ToolValidationError
                    ''MCP tools may require only their server scope namespace'')
                  else validate_required_scopes rest server))"

definition missing_scopes :: "string set \<Rightarrow> string set \<Rightarrow> string set" where
  "missing_scopes required granted = required - granted"

subsection \<open>Decisions and their ranks\<close>

abbreviation rank :: "policy_decision \<Rightarrow> nat" where
  "rank d \<equiv> POLICY_DECISION_RANK (pd_decision d)"

lemma rank_le_3: "POLICY_DECISION_RANK d \<le> 3"
  by (cases d) simp_all

lemma rank_inj: "POLICY_DECISION_RANK a = POLICY_DECISION_RANK b \<longleftrightarrow> a = b"
  by (cases a; cases b) simp_all

lemma rank_deny [simp]: "3 \<le> POLICY_DECISION_RANK d \<longleftrightarrow> d = DENY"
  by (cases d) simp_all

lemma rank_floor [simp]:
  "2 \<le> POLICY_DECISION_RANK (if esc then REQUIRE_APPROVAL
      else if POLICY_DECISION_RANK d < 2 then REQUIRE_APPROVAL else d)"
  by simp

lemma not_allow_rank: "2 \<le> POLICY_DECISION_RANK d \<longleftrightarrow> d \<notin> {ALLOW, ALLOW_WITH_MODIFICATIONS}"
  by (cases d) simp_all

lemma combine_is_max: "POLICY_DECISION_RANK (combine_decision_types d a) =
    (case a of None \<Rightarrow> POLICY_DECISION_RANK d
     | Some b \<Rightarrow> max (POLICY_DECISION_RANK d) (POLICY_DECISION_RANK b))"
  by (auto simp: combine_decision_types_def split: option.splits)

subsection \<open>The deterministic engine\<close>

lemma find_hit: "rule \<in> set rules \<Longrightarrow> P rule \<Longrightarrow> \<exists>r. List.find P rules = Some r"
  by (induction rules) auto

lemma evaluate_hardline:
  assumes "rule \<in> set (rs_hardline ruleset)" and "hardline_matches env rule action"
  shows "pd_decision (evaluate_deterministic env action ruleset) = DENY"
  using find_hit [of rule "rs_hardline ruleset" "\<lambda>r. hardline_matches env r action"] assms
  by (auto simp: evaluate_deterministic_def deny_decision_def)

lemma evaluate_floor:
  assumes "approval_floor action" and "rs_unknown_tool_decision ruleset = DENY"
  shows "2 \<le> rank (evaluate_deterministic env action ruleset)"
  using assms
  by (simp add: evaluate_deterministic_def deny_decision_def Let_def split: option.split)

lemma evaluate_untrusted:
  assumes "ac_origin_trust action = Trust_EXTERNAL_UNTRUSTED"
    and "\<forall>t. ac_newest_user_trust action = Some t \<longrightarrow> t \<notin> AUTHORIZING_ORIGINS"
    and "ac_side_effect action \<notin> {NO_EFFECT, WORKSPACE_READ, NETWORK_READ}"
    and "rs_external_untrusted_requires_approval ruleset"
    and "rs_unknown_tool_decision ruleset = DENY"
  shows "2 \<le> rank (evaluate_deterministic env action ruleset)"
proof -
  have origin: "(case ac_newest_user_trust action of None \<Rightarrow> ac_origin_trust action | Some t \<Rightarrow> t)
      \<notin> AUTHORIZING_ORIGINS"
    using assms(1,2) by (auto simp: AUTHORIZING_ORIGINS_def split: option.splits)
  have ext: "Trust_EXTERNAL_UNTRUSTED \<notin> AUTHORIZING_ORIGINS" by (simp add: AUTHORIZING_ORIGINS_def)
  show ?thesis
    using assms origin ext
    by (auto simp: evaluate_deterministic_def deny_decision_def Let_def not_allow_rank
        split: option.split)
qed

subsection \<open>Layers over the engine\<close>

text \<open>
  A layer over an engine may only make decisions more restrictive. Whatever lower bound holds for
  the inner decision then holds for the outer one, and layers compose.
\<close>

locale escalating_layer =
  fixes inner outer :: "proposed_action \<Rightarrow> policy_decision"
  assumes escalates: "rank (inner a) \<le> rank (outer a)"
begin

lemma keeps_floor: "n \<le> rank (inner a) \<Longrightarrow> n \<le> rank (outer a)"
  using escalates [of a] by simp

lemma keeps_deny: "pd_decision (inner a) = DENY \<Longrightarrow> pd_decision (outer a) = DENY"
  using keeps_floor [of 3 a] by simp

lemma allow_is_inner_allow: "pd_decision (outer a) = ALLOW \<Longrightarrow> pd_decision (inner a) = ALLOW"
  using escalates [of a] rank_inj [of "pd_decision (inner a)" ALLOW] by simp

end

interpretation advisory_layer: escalating_layer det "advised_evaluate det adv enforce"
  for det adv enforce
  by unfold_locales
    (auto simp: advised_evaluate_def combine_decision_types_def Let_def split: option.split)

lemma job_evaluate_rank:
  "rank (if ac_name a \<in> {''job.manage'', ''cockpit.install''} then publication a else base a)
     \<le> rank (job_evaluate base publication a)"
  by (auto simp: job_evaluate_def Let_def)

interpretation job_layer: escalating_layer
  "\<lambda>a. if ac_name a \<in> {''job.manage'', ''cockpit.install''} then publication a else base a"
  "job_evaluate base publication" for base publication
  by unfold_locales (rule job_evaluate_rank)

subsection \<open>Canonical paths\<close>

lemma initial_slashes_rooted:
  "starts_with p ''/'' \<Longrightarrow> initial_slashes p = 1 \<or> initial_slashes p = 2"
  by (simp add: initial_slashes_def)

lemma normpath_rooted:
  assumes "starts_with p ''/''"
  obtains cs where "normpath p = replicate (initial_slashes p) slash @ py_join ''/'' cs"
    and "\<forall>c \<in> set cs. plain_comp c"
proof -
  have n: "0 < initial_slashes p" "p \<noteq> []"
    using assms by (auto simp: initial_slashes_def starts_with_def)
  have "\<forall>c \<in> set (norm_comps True [] (split_on slash p)). plain_comp c"
    by (rule norm_comps_rooted) (auto dest: split_on_no_sep)
  moreover have "normpath p = replicate (initial_slashes p) slash
      @ py_join ''/'' (norm_comps True [] (split_on slash p))"
    using n by (auto simp: normpath_def Let_def)
  ultimately show thesis by (rule that [rotated])
qed

lemma canonical_path_form:
  obtains n cs where "canonical_path v = replicate n slash @ py_join ''/'' cs"
    and "n = 1 \<or> n = 2" and "\<forall>c \<in> set cs. plain_comp c"
proof -
  obtain q where q: "canonical_path v = normpath q" "starts_with q ''/''"
    by (auto simp: canonical_path_def Let_def starts_with_def)
  obtain cs where "normpath q = replicate (initial_slashes q) slash @ py_join ''/'' cs"
    "\<forall>c \<in> set cs. plain_comp c"
    using normpath_rooted [OF q(2)] by blast
  with initial_slashes_rooted [OF q(2)] q(1) show thesis by (metis that)
qed

definition path_comps :: "string \<Rightarrow> string list" where
  "path_comps v = filter (\<lambda>part. part \<noteq> []) (split_on slash (canonical_path v))"

lemma split_slashes: "split_on slash (replicate n slash @ s) = replicate n [] @ split_on slash s"
  by (induction n) simp_all

lemma split_only_slashes: "split_on slash (replicate n slash) = replicate n [] @ [[]]"
  using split_slashes [of n "[]"] by simp

lemma plain_filter: "\<forall>c \<in> set cs. plain_comp c \<Longrightarrow> filter (\<lambda>part. part \<noteq> []) cs = cs"
  by (rule filter_True) (simp add: plain_comp_def)

lemma plain_split:
  "xs \<noteq> [] \<Longrightarrow> \<forall>c \<in> set xs. plain_comp c \<Longrightarrow> split_on slash (py_join ''/'' xs) = xs"
  by (intro split_on_join) (auto simp: plain_comp_def)

lemma path_comps_form:
  assumes "canonical_path v = replicate n slash @ py_join ''/'' cs" and "\<forall>c \<in> set cs. plain_comp c"
  shows "path_comps v = cs"
  using plain_filter [OF assms(2)] plain_split [OF _ assms(2)]
  by (cases "cs = []") (simp_all add: path_comps_def assms(1) split_slashes split_only_slashes)

lemma py_join_append:
  "xs \<noteq> [] \<Longrightarrow> ys \<noteq> [] \<Longrightarrow> py_join d (xs @ ys) = py_join d xs @ d @ py_join d ys"
  by (induction xs rule: induct_list012) (auto simp: neq_Nil_conv)

lemma split_join_append:
  "ps \<noteq> [] \<Longrightarrow> \<forall>c \<in> set ps. plain_comp c \<Longrightarrow>
    split_on slash (py_join ''/'' ps @ slash # t) = ps @ split_on slash t"
proof (induction ps rule: induct_list012)
  case (3 x y zs)
  then show ?case by (simp add: split_on_append plain_comp_def)
qed (simp_all add: split_on_append plain_comp_def)

lemma join_prefix_iff:
  assumes "\<forall>c \<in> set cs. plain_comp c" and "\<forall>c \<in> set ps. plain_comp c" and "ps \<noteq> []"
  shows "py_join ''/'' cs = py_join ''/'' ps \<or> starts_with (py_join ''/'' cs) (py_join ''/'' ps @ ''/'')
     \<longleftrightarrow> (\<exists>ds. cs = ps @ ds)" (is "?L \<longleftrightarrow> ?R")
proof
  have join_ne: "py_join ''/'' ps \<noteq> []"
    using assms(2,3) by (induction ps rule: induct_list012) (auto simp: plain_comp_def)
  assume ?L
  then show ?R
  proof
    assume eq: "py_join ''/'' cs = py_join ''/'' ps"
    then have "cs \<noteq> []" using join_ne by (metis py_join.simps(1))
    then have "cs = ps" using plain_split [OF _ assms(1)] plain_split [OF assms(3,2)] eq by metis
    then show ?R by simp
  next
    assume "starts_with (py_join ''/'' cs) (py_join ''/'' ps @ ''/'')"
    then obtain t where t: "py_join ''/'' cs = py_join ''/'' ps @ slash # t"
      by (auto simp: starts_with_iff)
    then have "cs \<noteq> []" by (metis py_join.simps(1) append_is_Nil_conv list.distinct(1))
    then have "cs = ps @ split_on slash t"
      using plain_split [OF _ assms(1)] split_join_append [OF assms(3,2), of t] t by metis
    then show ?R by blast
  qed
next
  assume ?R
  then obtain ds where "cs = ps @ ds" by blast
  then show ?L
    using assms(3) by (cases "ds = []") (simp_all add: py_join_append starts_with_iff)
qed

lemma join_first:
  assumes "cs \<noteq> []" and "\<forall>c \<in> set cs. plain_comp c"
  shows "\<exists>d t. py_join ''/'' cs = d # t \<and> d \<noteq> slash"
proof -
  obtain c rest where cs: "cs = c # rest" using assms(1) by (cases cs) auto
  obtain d u where c: "c = d # u" "d \<noteq> slash"
    using assms(2) cs by (cases c) (auto simp: plain_comp_def)
  then show ?thesis by (cases rest) (auto simp: cs)
qed

lemma py_join_chars: "x \<in> set (py_join d xs) \<Longrightarrow> x \<in> set d \<or> (\<exists>y \<in> set xs. x \<in> set y)"
  by (induction xs rule: induct_list012) auto

lemma normpath_plain:
  assumes "cs \<noteq> []" and "\<forall>c \<in> set cs. plain_comp c" and "n = 1 \<or> n = 2"
  shows "normpath (replicate n slash @ py_join ''/'' cs) = replicate n slash @ py_join ''/'' cs"
proof -
  obtain d t where j: "py_join ''/'' cs = d # t" "d \<noteq> slash" using join_first [OF assms(1,2)] by blast
  have n: "initial_slashes (replicate n slash @ py_join ''/'' cs) = n"
    using assms(3) j by (auto simp: initial_slashes_def starts_with_def numeral_2_eq_2)
  have "norm_comps True [] (replicate n [] @ cs) = cs"
    using norm_comps_plain [OF assms(2), of True "[]"] by (induction n) simp_all
  then have comps: "norm_comps True [] (split_on slash (replicate n slash @ py_join ''/'' cs)) = cs"
    by (simp add: split_slashes plain_split [OF assms(1,2)])
  have "replicate n slash @ py_join ''/'' cs \<noteq> []" "0 < n" using assms(3) j by auto
  then show ?thesis unfolding normpath_def Let_def n by (simp only: comps) simp
qed

lemma canonical_path_plain:
  assumes "cs \<noteq> []" and "\<forall>c \<in> set cs. plain_comp c \<and> CHR 0x5C \<notin> set c" and "n = 1 \<or> n = 2"
  shows "canonical_path (replicate n slash @ py_join ''/'' cs) = replicate n slash @ py_join ''/'' cs"
proof -
  define v where "v = replicate n slash @ py_join ''/'' cs"
  have "CHR 0x5C \<notin> set v"
    using assms(2) by (auto simp: v_def dest!: py_join_chars)
  then have "replace_char (CHR 0x5C) slash v = v"
    unfolding replace_char_def by (intro map_idI) auto
  moreover have "normpath v = v"
    unfolding v_def using assms by (intro normpath_plain) auto
  moreover have "starts_with v ''/''" "\<not> starts_with v ''~/''"
    using assms(3) by (auto simp: v_def starts_with_def numeral_2_eq_2)
  ultimately show ?thesis by (simp add: canonical_path_def v_def [symmetric] Let_def)
qed

subsection \<open>Properties\<close>

text \<open>
  C1. Hardline rules cannot be overridden: an action that matches any hardline rule of the loaded
  ruleset is denied by the deterministic engine, and still denied when the advisory layer is
  composed on top, whatever the profile, the tool rules, the trust labels or the advisor say.
\<close>

theorem hardline_always_denies:
  assumes "rule \<in> set (rs_hardline ruleset)" and "hardline_matches env rule action"
  shows "pd_decision (evaluate_deterministic env action ruleset) = DENY
    \<and> pd_decision (advised_evaluate (\<lambda>a. evaluate_deterministic env a ruleset) advise enforce action)
        = DENY"
  using evaluate_hardline [OF assms]
    advisory_layer.keeps_deny [of "\<lambda>a. evaluate_deterministic env a ruleset" action advise enforce]
  by simp

text \<open>
  C2. The approval floor holds under every profile whose unknown-tool decision is deny (the loader
  accepts no other): mailbox changes and sends, telephone calls, saving a mail attachment and
  unsubscribing are never allowed without approval, neither by the engine nor with the advisory and
  the jobs layer on top.
\<close>

theorem approval_floor_respected:
  assumes "approval_floor action" and "rs_unknown_tool_decision ruleset = DENY"
    and "rs_unknown_tool_decision jobs_ruleset = DENY"
  shows "pd_decision (job_evaluate
      (advised_evaluate (\<lambda>a. evaluate_deterministic env a ruleset) advise enforce)
      (advised_evaluate (\<lambda>a. evaluate_deterministic env a jobs_ruleset) advise enforce) action)
    \<in> {REQUIRE_APPROVAL, DENY}"
proof -
  have "2 \<le> rank (advised_evaluate (\<lambda>a. evaluate_deterministic env a rs) advise enforce action)"
    if "rs_unknown_tool_decision rs = DENY" for rs
    using advisory_layer.keeps_floor [of 2 "\<lambda>a. evaluate_deterministic env a rs" action advise enforce]
      evaluate_floor [OF assms(1) that, of env]
    by simp
  then have "2 \<le> rank (job_evaluate
      (advised_evaluate (\<lambda>a. evaluate_deterministic env a ruleset) advise enforce)
      (advised_evaluate (\<lambda>a. evaluate_deterministic env a jobs_ruleset) advise enforce) action)"
    using assms(2,3) by (intro job_layer.keeps_floor) simp
  then show ?thesis
    using decision_type.exhaust by (auto simp: not_allow_rank)
qed


text \<open>
  C4. The advisor can only escalate, and only when asked: the advised decision is at least as
  restrictive as the deterministic one; it differs only for a plain allow of an outward network
  read, with enforcement on and a verdict that is not an abstention; an advisor that fails leaves
  the deterministic decision exactly as it is.
\<close>

theorem advisor_only_escalates:
  "rank (det a) \<le> rank (advised_evaluate det advise enforce a)
   \<and> (advised_evaluate det advise enforce a \<noteq> det a \<longrightarrow>
        enforce \<and> advisable a \<and> pd_decision (det a) = ALLOW
        \<and> (\<exists>v. advise a = Some v \<and> av_verdict v \<noteq> Verdict_ABSTAIN))
   \<and> (advise a = None \<longrightarrow> advised_evaluate det advise enforce a = det a)"
  using advisory_layer.escalates [of det a advise enforce]
  by (auto simp: advised_evaluate_def Let_def split: option.splits)

text \<open>
  Protected-path matching is component-wise prefix matching after normalisation: for canonical
  paths without a double leading slash, a value is inside a protected path exactly when the
  protected path's components, with empty, dot and dot-dot components resolved, are a prefix of the
  value's. So neither dot segments nor sibling names with a common string prefix fool the rule.
\<close>

theorem is_within_prefix:
  assumes "\<not> starts_with (canonical_path v) ''//''" and "\<not> starts_with (canonical_path p) ''//''"
    and "path_comps p \<noteq> []"
  shows "is_within v p \<longleftrightarrow> (\<exists>ds. path_comps v = path_comps p @ ds)"
proof -
  obtain n cs where v: "canonical_path v = replicate n slash @ py_join ''/'' cs" "n = 1 \<or> n = 2"
    "\<forall>c \<in> set cs. plain_comp c"
    by (rule canonical_path_form)
  obtain m ps where p: "canonical_path p = replicate m slash @ py_join ''/'' ps" "m = 1 \<or> m = 2"
    "\<forall>c \<in> set ps. plain_comp c"
    by (rule canonical_path_form)
  have "n = 1" "m = 1"
    using v p assms(1,2) by (auto simp: starts_with_def numeral_2_eq_2)
  moreover have "path_comps v = cs" "path_comps p = ps"
    using path_comps_form v p by blast+
  ultimately show ?thesis
    using join_prefix_iff [OF v(3) p(3)] assms(3)
    by (simp add: is_within_def v(1) p(1) starts_with_def)
qed

text \<open>
  C6. The excluded case is real: \<open>posixpath.normpath\<close> keeps exactly two leading slashes, so a file
  named with a double leading slash, \<open>//a/b\<close>, is inside no protected path that is itself written with
  a single one, although it has the same components as \<open>/a/b\<close>, which is inside its own path.
\<close>

theorem double_slash_escapes:
  assumes "cs \<noteq> []" and "\<forall>c \<in> set cs. plain_comp c \<and> CHR 0x5C \<notin> set c"
    and "\<not> starts_with (canonical_path p) ''//''" and "path_comps p \<noteq> []"
  shows "\<not> is_within (''//'' @ py_join ''/'' cs) p
    \<and> path_comps (''//'' @ py_join ''/'' cs) = cs \<and> path_comps (''/'' @ py_join ''/'' cs) = cs
    \<and> is_within (''/'' @ py_join ''/'' cs) (''/'' @ py_join ''/'' cs)"
proof -
  have plain: "\<forall>c \<in> set cs. plain_comp c" using assms(2) by blast
  have two: "canonical_path (replicate 2 slash @ py_join ''/'' cs) = replicate 2 slash @ py_join ''/'' cs"
    and one: "canonical_path (replicate 1 slash @ py_join ''/'' cs) = replicate 1 slash @ py_join ''/'' cs"
    by (rule canonical_path_plain [OF assms(1,2)]; simp)+
  obtain m ps where p: "canonical_path p = replicate m slash @ py_join ''/'' ps" "m = 1 \<or> m = 2"
    "\<forall>c \<in> set ps. plain_comp c"
    by (rule canonical_path_form)
  have "m = 1" using p assms(3) by (auto simp: starts_with_def numeral_2_eq_2)
  moreover have "path_comps p = ps" using path_comps_form p by blast
  ultimately obtain d t where target: "canonical_path p = slash # d # t" "d \<noteq> slash"
    using join_first [OF _ p(3)] assms(4) p(1) by auto
  have "\<not> is_within (''//'' @ py_join ''/'' cs) p"
    using two target by (auto simp: is_within_def starts_with_def numeral_2_eq_2)
  moreover have "path_comps (''//'' @ py_join ''/'' cs) = cs" "path_comps (''/'' @ py_join ''/'' cs) = cs"
    using path_comps_form [OF two plain] path_comps_form [OF one plain]
    by (simp_all add: numeral_2_eq_2)
  ultimately show ?thesis by (simp add: is_within_def)
qed

subsection \<open>Witnesses\<close>

definition sample_env :: policy_env where
  "sample_env = \<lparr> env_regex_search = (\<lambda>pat text. pat = text), env_in_networks = (\<lambda>_ _. False),
     env_condition_valid = (\<lambda>_. True) \<rparr>"

definition sample_target :: "string \<Rightarrow> string option \<Rightarrow> execution_target" where
  "sample_target kind server = \<lparr> tg_kind = kind, tg_isolated = True, tg_network_enabled = True,
     tg_device_id = None, tg_server_id = server \<rparr>"

definition sample_action :: "string \<Rightarrow> side_effect_class \<Rightarrow> document \<Rightarrow> execution_target \<Rightarrow> proposed_action" where
  "sample_action name effect args target = \<lparr> ac_kind = TOOL_CALL, ac_action_id = 1, ac_tenant_id = ''t1'',
     ac_session_id = 1, ac_run_id = 1, ac_step_number = 1, ac_name = name, ac_version = None,
     ac_summary = [], ac_side_effect = effect, ac_risk = Risk_HIGH,
     ac_idempotency = NON_IDEMPOTENT, ac_required_scopes = {}, ac_arguments = args,
     ac_normalized_arguments_hash = [], ac_argument_trust = [],
     ac_origin_trust = Trust_EXTERNAL_UNTRUSTED, ac_newest_user_trust = None, ac_target = target,
     ac_evaluated_at = 0 \<rparr>"

definition host_path_rule :: hardline_rule where
  "host_path_rule = \<lparr> hr_id = ''protected_host_path'', hr_kind = PROTECTED_PATH,
     hr_applies_to = [WORKSPACE_WRITE, CODE_EXECUTION],
     hr_message_code = ''policy.hardline.host_path'', hr_near_miss = ''./.env.example'',
     hr_pattern = None, hr_paths = [''/etc'', ''/usr'', ''~/.ssh'', ''.git/config'', ''.env''],
     hr_cidrs = [], hr_source = None \<rparr>"

text \<open>A ruleset that allows everything its hardline rules do not stop.\<close>

definition lax_ruleset :: loaded_ruleset where
  "lax_ruleset = \<lparr> rs_policy_version = ''v'', rs_profile_name = ''lax'', rs_profile_sha256 = [],
     rs_hardline_sha256 = [],
     rs_rules = map (\<lambda>e. \<lparr> pr_side_effect = e, pr_decision = ALLOW, pr_condition = None,
       pr_otherwise = None \<rparr>) SideEffectClass,
     rs_tool_rules = [], rs_hardline = [host_path_rule], rs_default_effect = DENY,
     rs_unknown_tool_decision = DENY, rs_external_untrusted_requires_approval = True,
     rs_self_approval_enabled = True, rs_advisory_enabled = False, rs_approval_expiry_seconds = [] \<rparr>"

theorem hardline_always_denies_witness:
  "pd_decision (evaluate_deterministic sample_env (sample_action ''shell'' CODE_EXECUTION
     [(''cmd'', JStr ''/tmp/../etc/passwd'')] (sample_target ''sandbox'' None)) lax_ruleset) = DENY"
proof -
  have "hardline_matches sample_env host_path_rule (sample_action ''shell'' CODE_EXECUTION
     [(''cmd'', JStr ''/tmp/../etc/passwd'')] (sample_target ''sandbox'' None))"
    by code_simp
  moreover have "host_path_rule \<in> set (rs_hardline lax_ruleset)" by (simp add: lax_ruleset_def)
  ultimately show ?thesis using hardline_always_denies by blast
qed

theorem approval_floor_respected_witness:
  "pd_decision (job_evaluate
      (advised_evaluate (\<lambda>a. evaluate_deterministic sample_env a lax_ruleset) (\<lambda>_. None) True)
      (advised_evaluate (\<lambda>a. evaluate_deterministic sample_env a lax_ruleset) (\<lambda>_. None) True)
      (sample_action ''mcp.gmail_home_send.send'' EXTERNAL_MESSAGE [] (sample_target ''mcp'' (Some ''gmail_home_send''))))
    \<in> {REQUIRE_APPROVAL, DENY}"
proof -
  have "approval_floor (sample_action ''mcp.gmail_home_send.send'' EXTERNAL_MESSAGE []
      (sample_target ''mcp'' (Some ''gmail_home_send'')))"
    by code_simp
  moreover have "rs_unknown_tool_decision lax_ruleset = DENY" by (simp add: lax_ruleset_def)
  ultimately show ?thesis using approval_floor_respected by blast
qed


theorem advisor_only_escalates_witness:
  "rank (evaluate_deterministic sample_env (sample_action ''web.search'' NETWORK_READ []
       (sample_target ''web_provider'' None)) lax_ruleset)
     \<le> rank (advised_evaluate (\<lambda>a. evaluate_deterministic sample_env a lax_ruleset)
         (\<lambda>_. Some \<lparr> av_verdict = Verdict_DENY, av_signals = [''s1''], av_advisor_version = ''1'' \<rparr>) True
         (sample_action ''web.search'' NETWORK_READ [] (sample_target ''web_provider'' None)))"
  using advisor_only_escalates [of "\<lambda>a. evaluate_deterministic sample_env a lax_ruleset"] by simp

theorem is_within_prefix_witness:
  "is_within ''/tmp/../etc/./passwd'' ''/etc'' \<and> \<not> is_within ''/etcetera'' ''/etc''"
proof -
  have c: "\<not> starts_with (canonical_path ''/tmp/../etc/./passwd'') ''//''"
    "\<not> starts_with (canonical_path ''/etcetera'') ''//''"
    "\<not> starts_with (canonical_path ''/etc'') ''//''"
    by code_simp+
  have p: "path_comps ''/tmp/../etc/./passwd'' = [''etc'', ''passwd'']"
    "path_comps ''/etcetera'' = [''etcetera'']" "path_comps ''/etc'' = [''etc'']"
    by code_simp+
  show ?thesis
    using is_within_prefix [OF c(1) c(3)] is_within_prefix [OF c(2) c(3)] by (simp add: p)
qed

theorem double_slash_escapes_witness:
  "\<not> is_within ''//etc/passwd'' ''/etc'' \<and> path_comps ''//etc/passwd'' = [''etc'', ''passwd'']"
proof -
  have "\<not> starts_with (canonical_path ''/etc'') ''//''" "path_comps ''/etc'' \<noteq> []"
    by code_simp+
  moreover have "\<forall>c \<in> set [''etc'', ''passwd'']. plain_comp c \<and> CHR 0x5C \<notin> set c"
    by (simp add: plain_comp_def)
  ultimately show ?thesis
    using double_slash_escapes [of "[''etc'', ''passwd'']" "''/etc''"] by simp
qed

end
