(* ===== verification/Policy_Loader.thy ===== *)
theory Policy_Loader
  imports Policy "HOL-Library.List_Lexorder" "HOL-Library.Char_ord"
begin

text \<open>
  The strict ruleset loader of \<open>policy/loader.py\<close>, from the parsed profile and hardline documents on
  (YAML parsing and hashing come before it; the two digests are arguments). The validator of one hardline row is a parameter: it is
  the pydantic validation of the \<open>HardlineRule\<close> model.
\<close>

subsection \<open>Enumerations by value\<close>

definition decision_of :: "json \<Rightarrow> decision_type res" where
  "decision_of v =
     (if v = JStr ''allow'' then Inr ALLOW
      else if v = JStr ''allow_with_modifications'' then Inr ALLOW_WITH_MODIFICATIONS
      else if v = JStr ''require_approval'' then Inr REQUIRE_APPROVAL
      else if v = JStr ''deny'' then Inr DENY
      else Inl (ValueError ''not a valid PolicyDecisionType''))"

definition condition_of :: "json \<Rightarrow> policy_condition res" where
  "condition_of v =
     (if v = JStr ''path_inside_workspace'' then Inr PATH_INSIDE_WORKSPACE
      else if v = JStr ''host_on_allowlist'' then Inr HOST_ON_ALLOWLIST
      else if v = JStr ''target_isolated'' then Inr TARGET_ISOLATED
      else if v = JStr ''bounded_browser_scroll'' then Inr BOUNDED_BROWSER_SCROLL
      else Inl (ValueError ''not a valid PolicyCondition''))"

definition RiskLevel :: "risk_level list" where
  "RiskLevel = [Risk_LOW, Risk_MEDIUM, Risk_HIGH, Risk_CRITICAL]"

fun risk_value :: "risk_level \<Rightarrow> string" where
  "risk_value Risk_LOW = ''low''"
| "risk_value Risk_MEDIUM = ''medium''"
| "risk_value Risk_HIGH = ''high''"
| "risk_value Risk_CRITICAL = ''critical''"

text \<open>\<open>row.get(key)\<close> that is absent or null gives no value, anything else goes through \<open>conv\<close>.\<close>

definition optional_field :: "(json \<Rightarrow> 'a res) \<Rightarrow> document \<Rightarrow> string \<Rightarrow> 'a option res" where
  "optional_field conv row key = (case dget row key of
      None \<Rightarrow> Inr None | Some JNull \<Rightarrow> Inr None | Some v \<Rightarrow> rbind (conv v) (\<lambda>x. Inr (Some x)))"

definition require_exact_keys :: "document \<Rightarrow> string set \<Rightarrow> string \<Rightarrow> unit res" where
  "require_exact_keys d expected location =
     (if \<not> fst ` set d \<subseteq> expected then Inl (ValueError (location @ '' contains unknown fields''))
      else Inr ())"

definition PROFILE_KEYS :: "string set" where
  "PROFILE_KEYS = {''schema_version'', ''name'', ''default_effect'', ''rules'', ''tool_rules'',
     ''unknown_tool'', ''trust_overlay'', ''approval_expiry_seconds'', ''self_approval'', ''advisory''}"

definition RULE_KEYS :: "string set" where
  "RULE_KEYS = {''decision'', ''condition'', ''otherwise''}"

subsection \<open>Rows\<close>

definition matrix_row :: "document \<Rightarrow> side_effect_class \<Rightarrow> policy_rule res" where
  "matrix_row profile_rules effect = (case dget profile_rules (side_effect_value effect) of
      Some (JObj row) \<Rightarrow>
        rbind (require_exact_keys row RULE_KEYS (''policy rule '' @ side_effect_value effect)) (\<lambda>_.
        case dget row ''decision'' of
          None \<Rightarrow> Inl (ValueError (''policy rule '' @ side_effect_value effect @ '' requires a decision''))
        | Some d \<Rightarrow>
            rbind (decision_of d) (\<lambda>dec.
            rbind (optional_field condition_of row ''condition'') (\<lambda>cond.
            rbind (optional_field decision_of row ''otherwise'') (\<lambda>other.
              Inr \<lparr> pr_side_effect = effect, pr_decision = dec, pr_condition = cond,
                    pr_otherwise = other \<rparr>))))
    | Some _ \<Rightarrow> Inl (ValueError (''policy rule '' @ side_effect_value effect @ '' must be a mapping''))
    | None \<Rightarrow> Inl KeyError)"

definition tool_row :: "document \<Rightarrow> string \<Rightarrow> tool_policy_rule res" where
  "tool_row rows tool_name =
     (if \<not> scope_syntax tool_name
      then Inl (ValueError (''policy tool rule '' @ tool_name @ '' is not a valid tool name''))
      else (case dget rows tool_name of
        Some (JObj row) \<Rightarrow>
          rbind (require_exact_keys row (RULE_KEYS \<union> {''human_confirms_arguments''})
              (''policy tool rule '' @ tool_name)) (\<lambda>_.
          case dget row ''decision'' of
            None \<Rightarrow> Inl (ValueError (''policy tool rule '' @ tool_name @ '' requires a decision''))
          | Some d \<Rightarrow>
              rbind (case dget row ''human_confirms_arguments'' of
                  None \<Rightarrow> Inr False
                | Some (JBool b) \<Rightarrow> Inr b
                | Some _ \<Rightarrow> Inl (ValueError (''policy tool rule '' @ tool_name
                    @ ''.human_confirms_arguments must be boolean''))) (\<lambda>confirms.
              rbind (decision_of d) (\<lambda>dec.
              rbind (optional_field condition_of row ''condition'') (\<lambda>cond.
              rbind (optional_field decision_of row ''otherwise'') (\<lambda>other.
                if length tool_name > 96 then Inl (ValueError ''tool_name is too long'')
                else Inr \<lparr> tpr_tool_name = tool_name, tpr_decision = dec, tpr_condition = cond,
                           tpr_otherwise = other, tpr_human_confirms_arguments = confirms \<rparr>)))))
      | Some _ \<Rightarrow> Inl (ValueError (''policy tool rule '' @ tool_name @ '' must be a mapping''))
      | None \<Rightarrow> Inl KeyError))"

definition tool_rules_of :: "json option \<Rightarrow> tool_policy_rule list res" where
  "tool_rules_of v = (case v of
      None \<Rightarrow> Inr []
    | Some JNull \<Rightarrow> Inr []
    | Some (JObj rows) \<Rightarrow> map_res (tool_row rows) (sort (map fst rows))
    | Some _ \<Rightarrow> Inl (ValueError ''policy tool rules must be a mapping keyed on tool name''))"

definition enabled_section :: "document \<Rightarrow> string \<Rightarrow> bool res" where
  "enabled_section profile section_name = (case dget profile section_name of
      Some (JObj d) \<Rightarrow>
        if fst ` set d \<noteq> {''enabled''}
        then Inl (ValueError (section_name @ '' policy has an invalid shape''))
        else (case dget d ''enabled'' of
            Some (JBool b) \<Rightarrow> Inr b
          | _ \<Rightarrow> Inl (ValueError (section_name @ ''.enabled must be boolean'')))
    | _ \<Rightarrow> Inl (ValueError (section_name @ '' policy has an invalid shape'')))"

definition expiry_of :: "json option \<Rightarrow> (risk_level \<times> int) list res" where
  "expiry_of v = (case v of
      Some (JObj d) \<Rightarrow>
        if fst ` set d \<noteq> set (map risk_value RiskLevel)
        then Inl (ValueError ''approval expiry must define every risk level exactly once'')
        else rbind (map_res (\<lambda>r. case dget d (risk_value r) of
              Some (JInt n) \<Rightarrow> Inr (r, n)
            | _ \<Rightarrow> Inl (ValueError ''approval expiry values must be integers'')) RiskLevel) (\<lambda>rows.
          if \<exists>(r, n) \<in> set rows. n \<le> 0
          then Inl (ValueError ''approval expiry values must be positive'') else Inr rows)
    | _ \<Rightarrow> Inl (ValueError ''approval expiry must define every risk level exactly once''))"

text \<open>\<open>x == 1\<close> in Python also holds of \<open>True\<close> and of \<open>1.0\<close>.\<close>

definition version_one :: "json option \<Rightarrow> bool" where
  "version_one v \<longleftrightarrow> v = Some (JInt 1) \<or> v = Some (JBool True) \<or> v = Some (JReal 1)"

definition hardline_rules_of ::
    "(json \<Rightarrow> hardline_rule res) \<Rightarrow> json option \<Rightarrow> hardline_rule list res" where
  "hardline_rules_of vh v = (case v of
      Some (JArr rows) \<Rightarrow> rbind (map_res vh rows) (\<lambda>rules.
        if \<not> distinct (map hr_id rules) then Inl (ValueError ''hardline rule ids must be unique'')
        else if \<exists>r \<in> set rules. py_strip (hr_near_miss r) = []
        then Inl (ValueError ''every hardline rule requires a near_miss'')
        else Inr rules)
    | _ \<Rightarrow> Inl (ValueError ''hardline rules must be a list''))"

definition trust_overlay_of :: "json option \<Rightarrow> bool res" where
  "trust_overlay_of v = (case v of
      Some (JObj d) \<Rightarrow>
        if fst ` set d \<noteq> {''external_untrusted_requires_approval''}
        then Inl (ValueError ''trust overlay has an invalid shape'')
        else (case dget d ''external_untrusted_requires_approval'' of
            Some (JBool b) \<Rightarrow> Inr b
          | _ \<Rightarrow> Inl (ValueError ''external untrusted approval overlay must be boolean''))
    | _ \<Rightarrow> Inl (ValueError ''trust overlay has an invalid shape''))"

definition unknown_tool_of :: "json option \<Rightarrow> decision_type res" where
  "unknown_tool_of v = (case v of
      Some (JObj d) \<Rightarrow>
        if fst ` set d \<noteq> {''decision''}
        then Inl (ValueError ''unknown-tool policy has an invalid shape'')
        else (case dget d ''decision'' of
            None \<Rightarrow> Inl KeyError
          | Some x \<Rightarrow> rbind (decision_of x) (\<lambda>dec.
              if dec \<noteq> DENY
              then Inl (ValueError ''unknown-tool policy must fail closed with deny'')
              else Inr dec))
    | _ \<Rightarrow> Inl (ValueError ''unknown-tool policy has an invalid shape''))"

definition profile_name_of :: "document \<Rightarrow> string res" where
  "profile_name_of profile = (case dget profile ''name'' of
      None \<Rightarrow> Inl KeyError
    | Some (JStr (c # n)) \<Rightarrow> Inr (c # n)
    | Some _ \<Rightarrow> Inl (ValueError ''policy profile name must be a non-empty string''))"

subsection \<open>Building a ruleset\<close>

definition build_ruleset ::
    "(json \<Rightarrow> hardline_rule res) \<Rightarrow> document \<Rightarrow> document \<Rightarrow> string \<Rightarrow> string \<Rightarrow> loaded_ruleset res" where
  "build_ruleset vh profile hardline profile_sha hardline_sha =
     rbind (require_exact_keys profile PROFILE_KEYS ''policy profile'') (\<lambda>_.
     rbind (require_exact_keys hardline {''schema_version'', ''rules''} ''hardline policy'') (\<lambda>_.
     if \<not> version_one (dget profile ''schema_version'') \<or> \<not> version_one (dget hardline ''schema_version'')
     then Inl (ValueError ''unsupported policy schema version'')
     else (case dget profile ''rules'' of
       Some (JObj profile_rules) \<Rightarrow>
         if fst ` set profile_rules \<noteq> set (map side_effect_value SideEffectClass)
         then Inl (ValueError ''policy matrix must be total'')
         else
           rbind (map_res (matrix_row profile_rules) SideEffectClass) (\<lambda>rules.
           rbind (tool_rules_of (dget profile ''tool_rules'')) (\<lambda>tool_rules.
           rbind (hardline_rules_of vh (dget hardline ''rules'')) (\<lambda>hardline_rules.
           rbind (expiry_of (dget profile ''approval_expiry_seconds'')) (\<lambda>expiry.
           rbind (trust_overlay_of (dget profile ''trust_overlay'')) (\<lambda>overlay.
           rbind (unknown_tool_of (dget profile ''unknown_tool'')) (\<lambda>unknown.
           rbind (enabled_section profile ''self_approval'') (\<lambda>self_approval.
           rbind (enabled_section profile ''advisory'') (\<lambda>advisory.
           rbind (profile_name_of profile) (\<lambda>name.
           rbind (case dget profile ''default_effect'' of
               None \<Rightarrow> Inr DENY | Some v \<Rightarrow> decision_of v) (\<lambda>default.
             Inr \<lparr> rs_policy_version =
                     name @ ''@'' @ take 12 profile_sha @ ''+h'' @ take 8 hardline_sha,
                   rs_profile_name = name, rs_profile_sha256 = profile_sha,
                   rs_hardline_sha256 = hardline_sha, rs_rules = rules,
                   rs_tool_rules = tool_rules, rs_hardline = hardline_rules,
                   rs_default_effect = default, rs_unknown_tool_decision = unknown,
                   rs_external_untrusted_requires_approval = overlay,
                   rs_self_approval_enabled = self_approval, rs_advisory_enabled = advisory,
                   rs_approval_expiry_seconds = expiry \<rparr>))))))))))
     | _ \<Rightarrow> Inl (ValueError ''policy profile rules must be a mapping''))))"

subsection \<open>What a loaded ruleset guarantees\<close>

definition ruleset_ok :: "loaded_ruleset \<Rightarrow> bool" where
  "ruleset_ok rs \<longleftrightarrow> map pr_side_effect (rs_rules rs) = SideEffectClass
     \<and> distinct (map tpr_tool_name (rs_tool_rules rs)) \<and> distinct (map hr_id (rs_hardline rs))
     \<and> rs_unknown_tool_decision rs = DENY
     \<and> map fst (rs_approval_expiry_seconds rs) = RiskLevel
     \<and> (\<forall>(r, n) \<in> set (rs_approval_expiry_seconds rs). 0 < n)"

lemma map_res_map:
  assumes "map_res f xs = Inr ys" and "\<And>x y. f x = Inr y \<Longrightarrow> g y = x"
  shows "map g ys = xs"
  using assms by (induction xs arbitrary: ys) (auto simp: rbind_Inr_iff)

lemma matrix_row_effect: "matrix_row d e = Inr r \<Longrightarrow> pr_side_effect r = e"
  by (auto simp: matrix_row_def rbind_Inr_iff split: option.splits json.splits)

lemma tool_row_name: "tool_row d n = Inr r \<Longrightarrow> tpr_tool_name r = n"
  by (auto simp: tool_row_def rbind_Inr_iff split: option.splits json.splits if_splits)

lemma tool_rules_distinct:
  assumes "tool_rules_of v = Inr rules" and "\<And>d. v = Some (JObj d) \<Longrightarrow> distinct (map fst d)"
  shows "distinct (map tpr_tool_name rules)"
proof (cases "\<exists>d. v = Some (JObj d)")
  case True
  then obtain d where d: "v = Some (JObj d)" by blast
  then have "map tpr_tool_name rules = sort (map fst d)"
    using assms(1) map_res_map [of "tool_row d" _ rules tpr_tool_name] tool_row_name
    by (auto simp: tool_rules_of_def)
  then show ?thesis using assms(2) [OF d] by simp
next
  case False
  then show ?thesis
    using assms(1) by (auto simp: tool_rules_of_def split: option.splits json.splits)
qed

lemma expiry_of_ok:
  assumes "expiry_of v = Inr rows"
  shows "map fst rows = RiskLevel \<and> (\<forall>(r, n) \<in> set rows. 0 < n)"
proof -
  obtain d where d: "map_res (\<lambda>r. case dget d (risk_value r) of
              Some (JInt n) \<Rightarrow> Inr (r, n)
            | _ \<Rightarrow> Inl (ValueError ''approval expiry values must be integers'')) RiskLevel = Inr rows"
    and pos: "\<not> (\<exists>(r, n) \<in> set rows. n \<le> 0)"
    using assms by (auto simp: expiry_of_def rbind_Inr_iff split: option.splits json.splits if_splits)
  have "map fst rows = RiskLevel"
    by (rule map_res_map [OF d]) (auto split: option.splits json.splits)
  with pos show ?thesis by force
qed

lemma unknown_tool_deny: "unknown_tool_of v = Inr d \<Longrightarrow> d = DENY"
  by (auto simp: unknown_tool_of_def rbind_Inr_iff split: option.splits json.splits if_splits)

lemma hardline_rules_distinct: "hardline_rules_of vh v = Inr rules \<Longrightarrow> distinct (map hr_id rules)"
  by (auto simp: hardline_rules_of_def rbind_Inr_iff split: option.splits json.splits if_splits)

lemma build_ruleset_ok:
  assumes "build_ruleset vh profile hardline psha hsha = Inr rs"
    and "\<And>d. dget profile ''tool_rules'' = Some (JObj d) \<Longrightarrow> distinct (map fst d)"
  shows "ruleset_ok rs"
proof -
  obtain profile_rules where
    rows: "map_res (matrix_row profile_rules) SideEffectClass = Inr (rs_rules rs)"
    and parts: "tool_rules_of (dget profile ''tool_rules'') = Inr (rs_tool_rules rs)"
    "hardline_rules_of vh (dget hardline ''rules'') = Inr (rs_hardline rs)"
    "expiry_of (dget profile ''approval_expiry_seconds'') = Inr (rs_approval_expiry_seconds rs)"
    "unknown_tool_of (dget profile ''unknown_tool'') = Inr (rs_unknown_tool_decision rs)"
  proof -
    obtain profile_rules where rules: "dget profile ''rules'' = Some (JObj profile_rules)"
      using assms(1) unfolding build_ruleset_def
      by (cases "dget profile ''rules''"; cases "the (dget profile ''rules'')")
        (simp_all add: rbind_Inr_iff)
    show thesis
      using assms(1) unfolding build_ruleset_def rules option.case json.case
      by (elim rbind_InrE if_InlE) (rule that [of profile_rules], auto)
  qed
  from rows have matrix: "map pr_side_effect (rs_rules rs) = SideEffectClass"
    by (rule map_res_map) (rule matrix_row_effect)
  have "distinct (map tpr_tool_name (rs_tool_rules rs))"
    by (rule tool_rules_distinct [OF parts(1) assms(2)])
  moreover have "distinct (map hr_id (rs_hardline rs))"
    by (rule hardline_rules_distinct [OF parts(2)])
  moreover note matrix expiry_of_ok [OF parts(3)] unknown_tool_deny [OF parts(4)]
  ultimately show ?thesis unfolding ruleset_ok_def by blast
qed

lemma ruleset_classifies:
  assumes "ruleset_ok rs"
  shows "length (filter (\<lambda>r. pr_side_effect r = e) (rs_rules rs)) = 1"
    and "length (filter (\<lambda>r. tpr_tool_name r = n) (rs_tool_rules rs)) \<le> 1"
proof -
  have eq: "map pr_side_effect (filter (\<lambda>r. pr_side_effect r = e) (rs_rules rs))
      = filter (\<lambda>x. x = e) (map pr_side_effect (rs_rules rs))"
    by (simp add: filter_map o_def)
  also have "\<dots> = [e]"
    using assms by (cases e) (simp_all add: ruleset_ok_def SideEffectClass_def)
  finally show "length (filter (\<lambda>r. pr_side_effect r = e) (rs_rules rs)) = 1"
    by (metis length_map length_Cons list.size(3) One_nat_def)
  have "inj_on tpr_tool_name {r \<in> set (rs_tool_rules rs). True}" "distinct (rs_tool_rules rs)"
    using assms by (simp_all add: ruleset_ok_def distinct_map)
  then show "length (filter (\<lambda>r. tpr_tool_name r = n) (rs_tool_rules rs)) \<le> 1"
    using filter_inj_on [of "rs_tool_rules rs" tpr_tool_name "\<lambda>_. True" n] by simp
qed

lemma evaluate_loaded_reason:
  assumes "ruleset_ok rs" and "\<forall>r \<in> set (rs_hardline rs). \<not> hardline_matches env r action"
    and "ac_kind action \<noteq> SKILL_AUTHORING"
  shows "pd_reason_code (evaluate_deterministic env action rs)
    \<in> {''policy.tool.'' @ ac_name action, ''policy.matrix.'' @ side_effect_value (ac_side_effect action)}"
proof -
  have "List.find (\<lambda>r. hardline_matches env r action) (rs_hardline rs) = None"
    using assms(2) by (simp add: find_None_iff)
  then show ?thesis
    using ruleset_classifies [OF assms(1)] assms(3)
    by (simp add: evaluate_deterministic_def Let_def not_less)
qed

subsection \<open>Properties\<close>

text \<open>
  C5. Whatever loads is total and fails closed: a ruleset that the loader accepts has exactly one
  matrix row per side-effect class, at most one rule per tool name, unique hardline ids, a positive
  expiry for every risk level and deny for unknown tools; so an action that no hardline rule stops
  and that is not skill authoring is always decided by its tool rule or its matrix row, never by
  the unclassifiable fallback, and the approval floor holds with no further assumption.
\<close>

theorem loaded_ruleset_total:
  assumes "build_ruleset vh profile hardline psha hsha = Inr rs"
    and "\<forall>d. dget profile ''tool_rules'' = Some (JObj d) \<longrightarrow> distinct (map fst d)"
  shows "ruleset_ok rs
    \<and> ((\<forall>r \<in> set (rs_hardline rs). \<not> hardline_matches env r action) \<and> ac_kind action \<noteq> SKILL_AUTHORING
        \<longrightarrow> pd_reason_code (evaluate_deterministic env action rs)
          \<in> {''policy.tool.'' @ ac_name action,
             ''policy.matrix.'' @ side_effect_value (ac_side_effect action)})
    \<and> (approval_floor action \<longrightarrow>
        pd_decision (evaluate_deterministic env action rs) \<in> {REQUIRE_APPROVAL, DENY})"
proof -
  have ok: "ruleset_ok rs"
    by (rule build_ruleset_ok [OF assms(1)]) (use assms(2) in blast)
  then have "rs_unknown_tool_decision rs = DENY" by (simp add: ruleset_ok_def)
  then have "pd_decision (evaluate_deterministic env action rs) \<in> {REQUIRE_APPROVAL, DENY}"
    if "approval_floor action"
    using evaluate_floor [OF that, of rs env] decision_type.exhaust by (auto simp: not_allow_rank)
  with ok evaluate_loaded_reason [OF ok] show ?thesis by blast
qed

subsection \<open>Witnesses\<close>

definition matrix_document :: "document" where
  "matrix_document = map (\<lambda>e. (side_effect_value e, JObj [(''decision'', JStr ''allow'')])) SideEffectClass"

definition sample_profile :: document where
  "sample_profile = [(''schema_version'', JInt 1), (''name'', JStr ''lax''),
     (''default_effect'', JStr ''deny''), (''rules'', JObj matrix_document),
     (''unknown_tool'', JObj [(''decision'', JStr ''deny'')]),
     (''trust_overlay'', JObj [(''external_untrusted_requires_approval'', JBool True)]),
     (''approval_expiry_seconds'', JObj [(''low'', JInt 60), (''medium'', JInt 60), (''high'', JInt 60),
        (''critical'', JInt 60)]),
     (''self_approval'', JObj [(''enabled'', JBool True)]), (''advisory'', JObj [(''enabled'', JBool False)])]"

definition sample_hardline :: document where
  "sample_hardline = [(''schema_version'', JInt 1), (''rules'', JArr [JNull])]"

lemma sample_loads:
  "\<exists>rs. build_ruleset (\<lambda>_. Inr host_path_rule) sample_profile sample_hardline [] [] = Inr rs"
proof -
  have "is_ok (build_ruleset (\<lambda>_. Inr host_path_rule) sample_profile sample_hardline [] [])"
    by code_simp
  then show ?thesis by (simp add: is_ok_iff)
qed

theorem loaded_ruleset_total_witness:
  "\<exists>rs. build_ruleset (\<lambda>_. Inr host_path_rule) sample_profile sample_hardline [] [] = Inr rs
    \<and> ruleset_ok rs"
proof -
  obtain rs where rs: "build_ruleset (\<lambda>_. Inr host_path_rule) sample_profile sample_hardline [] [] = Inr rs"
    using sample_loads by blast
  have "dget sample_profile ''tool_rules'' = None" by (simp add: sample_profile_def)
  then have "ruleset_ok rs"
    using loaded_ruleset_total [OF rs, of sample_env "sample_action [] NO_EFFECT [] (sample_target [] None)"]
    by simp
  with rs show ?thesis by blast
qed

end
