(* ===== verification/Tool_Calls.thy ===== *)
theory Tool_Calls
  imports Policy Run_Repo
begin

text \<open>
  Tool invocations: the values and the table of legal status changes of \<open>domain/tools.py\<close> and
  \<open>InMemoryToolInvocationRepository\<close> of \<open>adapters/persistence/memory.py\<close>. Result items, structured
  results and outcomes are carried as JSON documents: no operation modelled here looks into them.
\<close>

subsection \<open>Values\<close>

datatype tool_source = Source_BUILTIN | Source_MCP | Source_DEVICE | Source_SANDBOX

datatype tool_status =
    Tool_PROPOSED | Tool_AUTHORIZED | Tool_WAITING_FOR_APPROVAL | Tool_RUNNING
  | Tool_SUCCEEDED | Tool_FAILED | Tool_DENIED | Tool_UNCERTAIN

fun tool_status_value :: "tool_status \<Rightarrow> string" where
  "tool_status_value Tool_PROPOSED = ''PROPOSED''"
| "tool_status_value Tool_AUTHORIZED = ''AUTHORIZED''"
| "tool_status_value Tool_WAITING_FOR_APPROVAL = ''WAITING_FOR_APPROVAL''"
| "tool_status_value Tool_RUNNING = ''RUNNING''"
| "tool_status_value Tool_SUCCEEDED = ''SUCCEEDED''"
| "tool_status_value Tool_FAILED = ''FAILED''"
| "tool_status_value Tool_DENIED = ''DENIED''"
| "tool_status_value Tool_UNCERTAIN = ''UNCERTAIN''"

fun ALLOWED_TOOL_TRANSITIONS :: "tool_status \<Rightarrow> tool_status set" where
  "ALLOWED_TOOL_TRANSITIONS Tool_PROPOSED =
     {Tool_AUTHORIZED, Tool_WAITING_FOR_APPROVAL, Tool_DENIED}"
| "ALLOWED_TOOL_TRANSITIONS Tool_AUTHORIZED = {Tool_RUNNING, Tool_WAITING_FOR_APPROVAL}"
| "ALLOWED_TOOL_TRANSITIONS Tool_WAITING_FOR_APPROVAL = {Tool_AUTHORIZED, Tool_DENIED}"
| "ALLOWED_TOOL_TRANSITIONS Tool_RUNNING =
     {Tool_RUNNING, Tool_SUCCEEDED, Tool_FAILED, Tool_UNCERTAIN}"
| "ALLOWED_TOOL_TRANSITIONS Tool_SUCCEEDED = {}"
| "ALLOWED_TOOL_TRANSITIONS Tool_FAILED = {}"
| "ALLOWED_TOOL_TRANSITIONS Tool_DENIED = {}"
| "ALLOWED_TOOL_TRANSITIONS Tool_UNCERTAIN = {}"

record tool_invocation =
  ti_id :: uuid
  ti_run_id :: uuid
  ti_session_id :: uuid
  ti_step_number :: int
  ti_call_id :: string
  ti_tool_name :: string
  ti_tool_version :: string
  ti_tool_source :: tool_source
  ti_server_id :: "string option"
  ti_idempotency_class :: idempotency_class
  ti_side_effect :: side_effect_class
  ti_risk :: risk_level
  ti_attempt_number :: int
  ti_status :: tool_status
  ti_raw_arguments :: string
  ti_normalized_arguments :: "document option"
  ti_normalized_arguments_hash :: "string option"
  ti_effective_arguments_hash :: "string option"
  ti_idempotency_key :: string
  ti_effect_sent_at :: "instant option"
  ti_suspended_kind :: "string option"
  ti_suspended_ref :: "string option"
  ti_output_bytes :: "int option"
  ti_truncated :: bool
  ti_artifact_id :: "uuid option"
  ti_origin_trust :: trust_level
  ti_parallel_group :: "uuid option"
  ti_outcome :: "json option"
  ti_policy_decision :: "policy_decision option"
  ti_structured_result :: "document option"
  ti_result_item :: "json option"
  ti_created_at :: instant
  ti_updated_at :: instant

subsection \<open>The repository\<close>

record tool_repo =
  tr_invocations :: "(uuid, tool_invocation) dict"
  tr_people_erased :: "(uuid, instant) dict"
  tr_idempotency :: "(uuid \<times> string, uuid) dict"

definition empty_tool_repo :: tool_repo where
  "empty_tool_repo = \<lparr> tr_invocations = [], tr_people_erased = [], tr_idempotency = [] \<rparr>"

abbreviation writes_fenced :: error where
  "writes_fenced \<equiv> RunCancelledError ''People erasure fenced tool invocation writes''"

definition tool_create ::
    "tool_repo \<Rightarrow> tool_invocation \<Rightarrow> worker_lease option \<Rightarrow> (tool_invocation \<times> tool_repo) res" where
  "tool_create T call lease =
     (if lease \<noteq> None then Inl no_leases
      else if dhas (tr_people_erased T) (ti_run_id call) then Inl writes_fenced
      else if dhas (tr_invocations T) (ti_id call)
      then Inl (ConflictError ''tool invocation already exists'' None)
      else (case dget (tr_idempotency T) (ti_run_id call, ti_idempotency_key call) of
          Some existing_id \<Rightarrow>
            rbind (dlookup KeyError (tr_invocations T) existing_id) (\<lambda>existing. Inr (existing, T))
        | None \<Rightarrow>
            Inr (call, T\<lparr> tr_invocations := dset (ti_id call) call (tr_invocations T),
                         tr_idempotency := dset (ti_run_id call, ti_idempotency_key call) (ti_id call)
                           (tr_idempotency T) \<rparr>)))"

definition find_by_idempotency_key ::
    "tool_repo \<Rightarrow> uuid \<Rightarrow> string \<Rightarrow> tool_invocation option res" where
  "find_by_idempotency_key T run_id key = (case dget (tr_idempotency T) (run_id, key) of
      None \<Rightarrow> Inr None
    | Some i \<Rightarrow> rbind (dlookup KeyError (tr_invocations T) i) (\<lambda>call. Inr (Some call)))"

definition has_uncertain_non_idempotent ::
    "session_repo \<Rightarrow> run_repo \<Rightarrow> tool_repo \<Rightarrow> uuid \<Rightarrow> string \<Rightarrow> string \<Rightarrow> principal \<Rightarrow> bool res" where
  "has_uncertain_non_idempotent S R T run_id tool_name arguments_hash p =
     rbind (run_get S R run_id p) (\<lambda>_.
       Inr (\<exists>call \<in> set (dvals (tr_invocations T)).
         ti_run_id call = run_id \<and> ti_status call = Tool_UNCERTAIN
         \<and> ti_idempotency_class call \<notin> {READ_ONLY, IDEMPOTENT} \<and> ti_tool_name call = tool_name
         \<and> ti_normalized_arguments_hash call = Some arguments_hash))"

definition tool_updated :: "tool_invocation \<Rightarrow> tool_invocation \<Rightarrow> tool_invocation" where
  "tool_updated current call = current\<lparr>
     ti_status := ti_status call, ti_effect_sent_at := ti_effect_sent_at call,
     ti_effective_arguments_hash := ti_effective_arguments_hash call,
     ti_suspended_kind := ti_suspended_kind call, ti_suspended_ref := ti_suspended_ref call,
     ti_policy_decision := ti_policy_decision call,
     ti_structured_result := ti_structured_result call, ti_output_bytes := ti_output_bytes call,
     ti_truncated := ti_truncated call, ti_artifact_id := ti_artifact_id call,
     ti_outcome := ti_outcome call, ti_result_item := ti_result_item call,
     ti_updated_at := ti_updated_at call \<rparr>"

definition tool_transition ::
    "tool_repo \<Rightarrow> uuid \<Rightarrow> tool_status \<Rightarrow> tool_invocation \<Rightarrow> worker_lease option \<Rightarrow>
       (tool_invocation \<times> tool_repo) res" where
  "tool_transition T i expected call lease =
     (if lease \<noteq> None then Inl no_leases
      else rbind (dlookup (NotFoundError ''tool invocation not found'') (tr_invocations T) i) (\<lambda>current.
        if ti_status current \<noteq> expected
        then Inl (ConflictError (''expected '' @ tool_status_value expected @ '', found ''
               @ tool_status_value (ti_status current)) None)
        else if ti_id call \<noteq> i \<or> ti_run_id call \<noteq> ti_run_id current
        then Inl (ConflictError ''tool invocation identity cannot change'' None)
        else if dhas (tr_people_erased T) (ti_run_id current) then Inl writes_fenced
        else if ti_status call \<notin> ALLOWED_TOOL_TRANSITIONS (ti_status current)
        then Inl (ConflictError (''invalid tool transition '' @ tool_status_value (ti_status current)
               @ ''->'' @ tool_status_value (ti_status call)) None)
        else if call \<noteq> tool_updated current call
        then Inl (ConflictError ''tool transition may not change immutable fields'' None)
        else Inr (tool_updated current call,
               T\<lparr> tr_invocations := dset i (tool_updated current call) (tr_invocations T) \<rparr>)))"

definition tool_list_for_run ::
    "session_repo \<Rightarrow> run_repo \<Rightarrow> tool_repo \<Rightarrow> uuid \<Rightarrow> principal \<Rightarrow> tool_invocation list res" where
  "tool_list_for_run S R T run_id p =
     rbind (run_get S R run_id p) (\<lambda>_.
       Inr (sort_key (\<lambda>row. (ti_step_number row, ti_created_at row, ti_id row))
         (filter (\<lambda>call. ti_run_id call = run_id) (dvals (tr_invocations T)))))"

subsection \<open>The invocation diagram\<close>

definition tool_edge :: "tool_status \<Rightarrow> tool_status \<Rightarrow> bool" where
  "tool_edge a b \<longleftrightarrow> b \<in> ALLOWED_TOOL_TRANSITIONS a"

definition tool_terminal :: "tool_status \<Rightarrow> bool" where
  "tool_terminal a \<longleftrightarrow> a \<in> {Tool_SUCCEEDED, Tool_FAILED, Tool_DENIED, Tool_UNCERTAIN}"

lemma tool_edge_from_terminal [simp]: "tool_terminal a \<Longrightarrow> \<not> tool_edge a b"
  by (auto simp: tool_terminal_def tool_edge_def)

interpretation tool_lifecycle: lifecycle tool_edge tool_terminal
  by unfold_locales simp

text \<open>Every way into execution leads through an authorisation: only \<open>AUTHORIZED\<close> enters \<open>RUNNING\<close>.\<close>

lemma tool_edge_into_running: "tool_edge a Tool_RUNNING \<longleftrightarrow> a = Tool_AUTHORIZED \<or> a = Tool_RUNNING"
  by (cases a) (simp_all add: tool_edge_def)

lemma tool_denied_never_ran: "tool_edge a Tool_DENIED \<Longrightarrow> a = Tool_PROPOSED \<or> a = Tool_WAITING_FOR_APPROVAL"
  by (cases a) (simp_all add: tool_edge_def)

subsection \<open>Steps and invariant\<close>

inductive tool_step :: "tool_repo \<Rightarrow> tool_repo \<Rightarrow> bool" where
  tstep_create: "tool_create T call l = Inr (r, T') \<Longrightarrow> tool_step T T'"
| tstep_transition: "tool_transition T i e call l = Inr (r, T') \<Longrightarrow> tool_step T T'"

text \<open>The fields no operation changes.\<close>

definition same_call :: "tool_invocation \<Rightarrow> tool_invocation \<Rightarrow> bool" where
  "same_call a b \<longleftrightarrow> ti_id b = ti_id a \<and> ti_run_id b = ti_run_id a \<and> ti_session_id b = ti_session_id a
     \<and> ti_step_number b = ti_step_number a \<and> ti_call_id b = ti_call_id a
     \<and> ti_tool_name b = ti_tool_name a \<and> ti_tool_version b = ti_tool_version a
     \<and> ti_tool_source b = ti_tool_source a \<and> ti_server_id b = ti_server_id a
     \<and> ti_idempotency_class b = ti_idempotency_class a \<and> ti_side_effect b = ti_side_effect a
     \<and> ti_risk b = ti_risk a \<and> ti_raw_arguments b = ti_raw_arguments a
     \<and> ti_normalized_arguments b = ti_normalized_arguments a
     \<and> ti_normalized_arguments_hash b = ti_normalized_arguments_hash a
     \<and> ti_idempotency_key b = ti_idempotency_key a \<and> ti_origin_trust b = ti_origin_trust a
     \<and> ti_created_at b = ti_created_at a"

lemma same_call_refl [simp]: "same_call a a"
  by (simp add: same_call_def)

lemma same_call_trans: "same_call a b \<Longrightarrow> same_call b c \<Longrightarrow> same_call a c"
  by (simp add: same_call_def)

lemma tool_updated_same [simp]: "same_call current (tool_updated current call)"
  "ti_status (tool_updated current call) = ti_status call"
  by (simp_all add: same_call_def tool_updated_def)

inductive tool_change :: "tool_repo \<Rightarrow> tool_repo \<Rightarrow> bool" where
  tool_added: "dget (tr_invocations T) (ti_id call) = None \<Longrightarrow>
    dget (tr_idempotency T) (ti_run_id call, ti_idempotency_key call) = None \<Longrightarrow>
    T' = T\<lparr> tr_invocations := dset (ti_id call) call (tr_invocations T),
            tr_idempotency := dset (ti_run_id call, ti_idempotency_key call) (ti_id call)
              (tr_idempotency T) \<rparr> \<Longrightarrow> tool_change T T'"
| tool_kept: "tool_change T T"
| tool_moved: "dget (tr_invocations T) i = Some a \<Longrightarrow> same_call a b \<Longrightarrow>
    tool_edge (ti_status a) (ti_status b) \<Longrightarrow>
    T' = T\<lparr> tr_invocations := dset i b (tr_invocations T) \<rparr> \<Longrightarrow> tool_change T T'"

lemma tool_step_shape:
  assumes "tool_step T T'"
  shows "tool_change T T'"
  using assms
proof cases
  case (tstep_create call l r)
  then consider
      (new) "dget (tr_invocations T) (ti_id call) = None"
        "dget (tr_idempotency T) (ti_run_id call, ti_idempotency_key call) = None"
        "T' = T\<lparr> tr_invocations := dset (ti_id call) call (tr_invocations T),
            tr_idempotency := dset (ti_run_id call, ti_idempotency_key call) (ti_id call)
              (tr_idempotency T) \<rparr>"
    | (old) "T' = T"
    by (auto simp: tool_create_def dhas_iff rbind_Inr_iff split: option.splits)
  then show ?thesis by cases (blast intro: tool_added tool_kept)+
next
  case (tstep_transition i e call l r)
  then obtain a where "dget (tr_invocations T) i = Some a"
    "tool_edge (ti_status a) (ti_status call)"
    "T' = T\<lparr> tr_invocations := dset i (tool_updated a call) (tr_invocations T) \<rparr>"
    by (auto simp: tool_transition_def rbind_Inr_iff tool_edge_def)
  then show ?thesis by (intro tool_moved [of T i a "tool_updated a call"]) simp_all
qed

definition tool_repo_ok :: "tool_repo \<Rightarrow> bool" where
  "tool_repo_ok T \<longleftrightarrow> keyed ti_id (tr_invocations T)
     \<and> (\<forall>r k i. dget (tr_idempotency T) (r, k) = Some i \<longleftrightarrow>
          (\<exists>call. dget (tr_invocations T) i = Some call \<and> ti_run_id call = r \<and> ti_idempotency_key call = k))"

lemma empty_tool_repo_ok [simp]: "tool_repo_ok empty_tool_repo"
  by (simp add: tool_repo_ok_def empty_tool_repo_def)

lemma tool_step_ok:
  assumes "tool_step T T'" and "tool_repo_ok T"
  shows "tool_repo_ok T'"
  using tool_step_shape [OF assms(1)]
proof cases
  case (tool_added call)
  have "dget (tr_idempotency T') (r, k) = Some i \<longleftrightarrow>
      (\<exists>call. dget (tr_invocations T') i = Some call \<and> ti_run_id call = r \<and> ti_idempotency_key call = k)"
    for r k i
  proof -
    have "dget (tr_idempotency T) (r, k) = Some i \<longleftrightarrow>
        (\<exists>call. dget (tr_invocations T) i = Some call \<and> ti_run_id call = r \<and> ti_idempotency_key call = k)"
      using assms(2) by (simp add: tool_repo_ok_def)
    with tool_added show ?thesis by auto
  qed
  moreover have "keyed ti_id (tr_invocations T')"
    using assms(2) tool_added by (auto simp: tool_repo_ok_def)
  ultimately show ?thesis by (simp add: tool_repo_ok_def)
next
  case (tool_moved i a b)
  have "keyed ti_id (tr_invocations T)" using assms(2) by (simp add: tool_repo_ok_def)
  then have "ti_id b = i" using tool_moved by (auto simp: same_call_def dest: keyed_dget)
  with assms(2) tool_moved show ?thesis
    by (auto simp: tool_repo_ok_def same_call_def)
qed (use assms(2) in simp)

lemma tool_steps_ok: "tool_step\<^sup>*\<^sup>* T T' \<Longrightarrow> tool_repo_ok T \<Longrightarrow> tool_repo_ok T'"
  by (induction rule: rtranclp_induct) (auto dest: tool_step_ok)

lemma tool_step_call:
  assumes "tool_step T T'" and "dget (tr_invocations T) i = Some a"
  shows "\<exists>b. dget (tr_invocations T') i = Some b \<and> same_call a b
      \<and> (b = a \<or> tool_edge (ti_status a) (ti_status b))"
  using tool_step_shape [OF assms(1)] assms(2) by cases auto

interpretation tool_store: retaining_store tool_edge tool_terminal
  "\<lambda>T i. map_option ti_status (dget (tr_invocations T) i)" tool_step
proof
  fix T T' i a
  assume step: "tool_step T T'"
    and a: "map_option ti_status (dget (tr_invocations T) i) = Some a"
  then obtain v where v: "dget (tr_invocations T) i = Some v" "ti_status v = a" by auto
  from tool_step_call [OF step v(1)] v(2)
  show "case map_option ti_status (dget (tr_invocations T') i) of
      None \<Rightarrow> \<not> tool_terminal a | Some b \<Rightarrow> a = b \<or> tool_edge a b"
    and "map_option ti_status (dget (tr_invocations T') i) \<noteq> None"
    by auto
qed

lemma tool_steps_call:
  assumes "tool_step\<^sup>*\<^sup>* T T'" and "dget (tr_invocations T) i = Some a"
  shows "\<exists>b. dget (tr_invocations T') i = Some b \<and> same_call a b"
  using assms
proof (induction rule: rtranclp_induct)
  case base
  then show ?case by simp
next
  case (step U V)
  then obtain b where "dget (tr_invocations U) i = Some b" "same_call a b" by blast
  with tool_step_call [OF step.hyps(2)] show ?case by (metis same_call_trans)
qed

text \<open>A terminal invocation is frozen: not even a repeated identical transition is accepted.\<close>

lemma tool_terminal_frozen:
  assumes "tool_step\<^sup>*\<^sup>* T T'" and "dget (tr_invocations T) i = Some a" and "tool_terminal (ti_status a)"
  shows "dget (tr_invocations T') i = Some a"
  using assms(1)
proof (induction rule: rtranclp_induct)
  case base
  then show ?case using assms(2) by simp
next
  case (step U V)
  then show ?case using tool_step_call [OF step.hyps(2) step.IH] assms(3) by auto
qed

subsection \<open>Properties\<close>

text \<open>
  Idempotency keys identify calls: in every reachable state, creating an invocation of a run
  under a key the run already used returns the stored invocation and changes nothing, and looking a
  key up finds exactly the invocation of that run created under it, so no lookup meets a dangling
  entry.
\<close>

theorem tool_idempotency_key_identifies:
  assumes "tool_step\<^sup>*\<^sup>* empty_tool_repo T"
  shows "(find_by_idempotency_key T r k = Inr (Some call) \<longleftrightarrow>
      dget (tr_invocations T) (ti_id call) = Some call \<and> ti_run_id call = r \<and> ti_idempotency_key call = k)
    \<and> is_ok (find_by_idempotency_key T r k)
    \<and> (find_by_idempotency_key T r k = Inr (Some call) \<longrightarrow>
        tool_create T new None = Inr res' \<and> ti_run_id new = r \<and> ti_idempotency_key new = k \<longrightarrow>
          res' = (call, T))"
proof -
  have ok: "tool_repo_ok T" using tool_steps_ok [OF assms] by simp
  then have keyed: "keyed ti_id (tr_invocations T)"
    and index: "dget (tr_idempotency T) (r, k) = Some i \<longleftrightarrow>
      (\<exists>call. dget (tr_invocations T) i = Some call \<and> ti_run_id call = r \<and> ti_idempotency_key call = k)"
    for r k i
    by (simp_all add: tool_repo_ok_def)
  have found: "find_by_idempotency_key T r k = Inr (Some call) \<longleftrightarrow>
      dget (tr_invocations T) (ti_id call) = Some call \<and> ti_run_id call = r \<and> ti_idempotency_key call = k"
  proof
    assume "find_by_idempotency_key T r k = Inr (Some call)"
    then obtain i where i: "dget (tr_idempotency T) (r, k) = Some i" "dget (tr_invocations T) i = Some call"
      by (auto simp: find_by_idempotency_key_def rbind_Inr_iff split: option.splits)
    with index [of r k i] keyed_dget [OF keyed i(2)]
    show "dget (tr_invocations T) (ti_id call) = Some call \<and> ti_run_id call = r \<and> ti_idempotency_key call = k"
      by auto
  next
    assume "dget (tr_invocations T) (ti_id call) = Some call \<and> ti_run_id call = r \<and> ti_idempotency_key call = k"
    then show "find_by_idempotency_key T r k = Inr (Some call)"
      using index [of r k "ti_id call"] by (simp add: find_by_idempotency_key_def)
  qed
  moreover have "is_ok (find_by_idempotency_key T r k)"
    using index by (fastforce simp: find_by_idempotency_key_def is_ok_iff split: option.splits)
  moreover have "res' = (call, T)"
    if "find_by_idempotency_key T r k = Inr (Some call)" "tool_create T new None = Inr res'"
      "ti_run_id new = r" "ti_idempotency_key new = k"
    using that
    by (auto simp: find_by_idempotency_key_def tool_create_def rbind_Inr_iff split: option.splits)
  ultimately show ?thesis by blast
qed


text \<open>
  What was authorised is what is on record: however an invocation moves, its run, session,
  tool, version, source, class, risk, raw and normalised arguments, their hash, its idempotency key
  and its origin trust stay those of its creation, and its status follows the diagram.
\<close>

theorem tool_call_identity_kept:
  assumes "tool_create T call l = Inr (call, T1)"
    and "dget (tr_idempotency T) (ti_run_id call, ti_idempotency_key call) = None"
    and "tool_step\<^sup>*\<^sup>* T1 T2"
  shows "\<exists>b. dget (tr_invocations T2) (ti_id call) = Some b \<and> same_call call b
      \<and> tool_edge\<^sup>*\<^sup>* (ti_status call) (ti_status b)"
proof -
  have a: "dget (tr_invocations T1) (ti_id call) = Some call"
    using assms(1,2) by (auto simp: tool_create_def split: if_splits)
  then show ?thesis
    using tool_steps_call [OF assms(3) a]
      tool_store.status_path [OF assms(3), of "ti_id call" "ti_status call"]
    by auto
qed

subsection \<open>Witnesses\<close>

definition sample_call :: "tool_status \<Rightarrow> tool_invocation" where
  "sample_call st = \<lparr> ti_id = 21, ti_run_id = 1, ti_session_id = 1, ti_step_number = 1,
     ti_call_id = ''c1'', ti_tool_name = ''web.search'', ti_tool_version = ''1'',
     ti_tool_source = Source_BUILTIN, ti_server_id = None, ti_idempotency_class = READ_ONLY,
     ti_side_effect = NETWORK_READ, ti_risk = Risk_LOW, ti_attempt_number = 1, ti_status = st,
     ti_raw_arguments = ''{}'', ti_normalized_arguments = None, ti_normalized_arguments_hash = None,
     ti_effective_arguments_hash = None, ti_idempotency_key = ''k'', ti_effect_sent_at = None,
     ti_suspended_kind = None, ti_suspended_ref = None, ti_output_bytes = None,
     ti_truncated = False, ti_artifact_id = None, ti_origin_trust = Trust_USER,
     ti_parallel_group = None, ti_outcome = None, ti_policy_decision = None,
     ti_structured_result = None, ti_result_item = None, ti_created_at = 1, ti_updated_at = 1 \<rparr>"

definition sample_tools :: "tool_status \<Rightarrow> tool_repo" where
  "sample_tools st = \<lparr> tr_invocations = [(21, sample_call st)], tr_people_erased = [],
     tr_idempotency = [((1, ''k''), 21)] \<rparr>"

lemma sample_tool_create:
  "tool_create empty_tool_repo (sample_call Tool_PROPOSED) None
     = Inr (sample_call Tool_PROPOSED, sample_tools Tool_PROPOSED)"
  by (simp add: tool_create_def empty_tool_repo_def sample_call_def sample_tools_def dhas_def)

lemma sample_tool_deny:
  "tool_transition (sample_tools Tool_PROPOSED) 21 Tool_PROPOSED (sample_call Tool_DENIED) None
     = Inr (sample_call Tool_DENIED, sample_tools Tool_DENIED)"
  by (simp add: tool_transition_def sample_tools_def sample_call_def dlookup_def dhas_def
      tool_updated_def)

theorem tool_idempotency_key_identifies_witness:
  "find_by_idempotency_key (sample_tools Tool_PROPOSED) 1 ''k'' = Inr (Some (sample_call Tool_PROPOSED))"
proof -
  have "tool_step\<^sup>*\<^sup>* empty_tool_repo (sample_tools Tool_PROPOSED)"
    by (intro r_into_rtranclp tstep_create [OF sample_tool_create])
  moreover have "dget (tr_invocations (sample_tools Tool_PROPOSED)) (ti_id (sample_call Tool_PROPOSED))
      = Some (sample_call Tool_PROPOSED)"
    by (simp add: sample_tools_def sample_call_def)
  ultimately show ?thesis
    using tool_idempotency_key_identifies [of "sample_tools Tool_PROPOSED" 1 "''k''"
        "sample_call Tool_PROPOSED"]
    by (simp add: sample_call_def)
qed


theorem tool_call_identity_kept_witness:
  "\<exists>b. dget (tr_invocations (sample_tools Tool_DENIED)) 21 = Some b
     \<and> same_call (sample_call Tool_PROPOSED) b \<and> tool_edge\<^sup>*\<^sup>* Tool_PROPOSED (ti_status b)"
proof -
  have "dget (tr_idempotency empty_tool_repo)
      (ti_run_id (sample_call Tool_PROPOSED), ti_idempotency_key (sample_call Tool_PROPOSED)) = None"
    by (simp add: empty_tool_repo_def)
  from tool_call_identity_kept [OF sample_tool_create this
      r_into_rtranclp [of tool_step, OF tstep_transition [OF sample_tool_deny]]]
  show ?thesis by (simp add: sample_call_def)
qed

end
