(* ===== verification/Approvals.thy ===== *)
theory Approvals
  imports Policy
begin

text \<open>
  Approvals: the values of \<open>domain/approvals.py\<close>, the revalidation table of
  \<open>policy/revalidation.py\<close>, and \<open>InMemoryApprovalRepository\<close> of \<open>adapters/persistence/memory.py\<close>. The
  browser grant offers shown on a card are carried as JSON documents.
\<close>

subsection \<open>Values\<close>

datatype approval_status =
  Approval_PENDING | Approval_APPROVED | Approval_DENIED | Approval_EXPIRED | Approval_CANCELLED

datatype resolution_type = APPROVE_ONCE | APPROVE_FOR_TASK | APPROVE_FOR_REQUEST | Resolve_DENY

fun resolution_value :: "resolution_type \<Rightarrow> string" where
  "resolution_value APPROVE_ONCE = ''approve_once''"
| "resolution_value APPROVE_FOR_TASK = ''approve_for_task''"
| "resolution_value APPROVE_FOR_REQUEST = ''approve_for_request''"
| "resolution_value Resolve_DENY = ''deny''"

definition APPROVING_RESOLUTIONS :: "resolution_type set" where
  "APPROVING_RESOLUTIONS = {APPROVE_ONCE, APPROVE_FOR_TASK, APPROVE_FOR_REQUEST}"

definition approval_status_for :: "resolution_type \<Rightarrow> approval_status" where
  "approval_status_for r = (if r \<in> APPROVING_RESOLUTIONS then Approval_APPROVED else Approval_DENIED)"

definition approval_resolution_document ::
    "resolution_type \<Rightarrow> string option \<Rightarrow> uuid option \<Rightarrow> document" where
  "approval_resolution_document r reason grant =
     [(''resolution'', JStr (resolution_value r)),
      (''reason'', case reason of None \<Rightarrow> JNull | Some t \<Rightarrow> JStr t)]
     @ (case grant of None \<Rightarrow> [] | Some g \<Rightarrow> [(''task_grant_id'', JStr (uuid_str g))])"

datatype resolution_state =
  APPLIED | ALREADY_RESOLVED_IDENTICALLY | ALREADY_RESOLVED_DIFFERENTLY

record approval_request =
  ap_id :: uuid
  ap_tenant_id :: string
  ap_principal_id :: string
  ap_session_id :: uuid
  ap_run_id :: uuid
  ap_action_kind :: action_kind
  ap_action_id :: uuid
  ap_tool_invocation_id :: "uuid option"
  ap_status :: approval_status
  ap_action_summary :: string
  ap_tool_name :: "string option"
  ap_arguments :: document
  ap_argument_digests :: "(string, string) dict"
  ap_normalized_arguments_hash :: string
  ap_required_scopes :: "string set"
  ap_agent_version :: string
  ap_risk :: risk_level
  ap_policy_reason :: string
  ap_policy_reason_text :: "string option"
  ap_policy_decision :: policy_decision
  ap_policy_version :: string
  ap_revalidated_policy_version :: "string option"
  ap_resolution :: "resolution_type option"
  ap_resolution_reason :: "string option"
  ap_expires_at :: "instant option"
  ap_created_at :: instant
  ap_resolved_at :: "instant option"
  ap_resolved_by :: "string option"
  ap_task_grant_offer :: "json option"
  ap_task_grant_not_covered :: "json option"
  ap_task_grant_id :: "uuid option"
  ap_request_grant_offer :: "json option"
  ap_research_not_covered :: "string option"

record approval_cursor =
  acr_created_at :: instant
  acr_id :: uuid

subsection \<open>Revalidation\<close>

definition revalidation_denial_reason ::
    "approval_request \<Rightarrow> string \<Rightarrow> string set \<Rightarrow> string \<Rightarrow> string \<Rightarrow> decision_type \<Rightarrow> string option" where
  "revalidation_denial_reason a arguments_hash principal_scopes agent_version policy_version decision =
     (if arguments_hash \<noteq> ap_normalized_arguments_hash a
         \<or> \<not> ap_required_scopes a \<subseteq> principal_scopes \<or> agent_version \<noteq> ap_agent_version a
      then Some ''policy.revalidation.changed''
      else if decision = DENY then Some ''policy.revalidation.escalated''
      else if ap_policy_version a \<noteq> policy_version \<and> decision \<noteq> ALLOW
      then Some ''policy.revalidation.escalated''
      else if decision = ALLOW_WITH_MODIFICATIONS then Some ''policy.revalidation.escalated''
      else None)"

subsection \<open>The repository\<close>

record approval_repo =
  apr_approvals :: "(uuid, approval_request) dict"
  apr_actions :: "(uuid, uuid) dict"

definition empty_approval_repo :: approval_repo where
  "empty_approval_repo = \<lparr> apr_approvals = [], apr_actions = [] \<rparr>"

abbreviation approval_missing :: error where
  "approval_missing \<equiv> NotFoundError ''approval not found''"

definition approval_create ::
    "approval_repo \<Rightarrow> approval_request \<Rightarrow> (approval_request \<times> approval_repo) res" where
  "approval_create A r =
     (if dhas (apr_approvals A) (ap_id r) \<or> dhas (apr_actions A) (ap_action_id r)
      then Inl (ConflictError ''approval already exists for action'' None)
      else Inr (r, A\<lparr> apr_approvals := dset (ap_id r) r (apr_approvals A),
                      apr_actions := dset (ap_action_id r) (ap_id r) (apr_actions A) \<rparr>))"

definition discard_pending :: "approval_repo \<Rightarrow> uuid \<Rightarrow> approval_repo res" where
  "discard_pending A i = (case dget (apr_approvals A) i of
      None \<Rightarrow> Inr A
    | Some r \<Rightarrow>
        if ap_status r \<noteq> Approval_PENDING
        then Inl (ConflictError ''only a pending approval can be discarded'' None)
        else Inr (A\<lparr> apr_approvals := ddel i (apr_approvals A),
                     apr_actions := ddel (ap_action_id r) (apr_actions A) \<rparr>))"

definition approval_visible :: "approval_request \<Rightarrow> principal \<Rightarrow> bool" where
  "approval_visible r p \<longleftrightarrow> ap_tenant_id r = tenant_id p"

definition approval_get :: "approval_repo \<Rightarrow> uuid \<Rightarrow> principal \<Rightarrow> approval_request res" where
  "approval_get A i p = (case dget (apr_approvals A) i of
      None \<Rightarrow> Inl approval_missing
    | Some r \<Rightarrow> if \<not> approval_visible r p then Inl approval_missing else Inr r)"

definition approval_get_by_action :: "approval_repo \<Rightarrow> uuid \<Rightarrow> approval_request option res" where
  "approval_get_by_action A action = (case dget (apr_actions A) action of
      None \<Rightarrow> Inr None
    | Some i \<Rightarrow> rbind (dlookup KeyError (apr_approvals A) i) (\<lambda>r. Inr (Some r)))"

definition record_revalidation ::
    "approval_repo \<Rightarrow> uuid \<Rightarrow> string \<Rightarrow> (approval_request \<times> approval_repo) res" where
  "record_revalidation A action version = (case dget (apr_actions A) action of
      None \<Rightarrow> Inl approval_missing
    | Some i \<Rightarrow> rbind (dlookup KeyError (apr_approvals A) i) (\<lambda>r.
        let r' = r\<lparr> ap_revalidated_policy_version := Some version \<rparr>
        in Inr (r', A\<lparr> apr_approvals := dset i r' (apr_approvals A) \<rparr>)))"

definition list_pending ::
    "approval_repo \<Rightarrow> principal \<Rightarrow> uuid option \<Rightarrow> uuid option \<Rightarrow> int \<Rightarrow> approval_cursor option \<Rightarrow>
       approval_request list" where
  "list_pending A p run_id session_id limit cursor =
     py_take limit (sort_key_desc (\<lambda>r. (ap_created_at r, ap_id r))
       (filter (\<lambda>r. ap_status r = Approval_PENDING \<and> approval_visible r p
            \<and> (run_id = None \<or> Some (ap_run_id r) = run_id)
            \<and> (session_id = None \<or> Some (ap_session_id r) = session_id)
            \<and> (case cursor of None \<Rightarrow> True
               | Some c \<Rightarrow> (ap_created_at r, ap_id r) < (acr_created_at c, acr_id c)))
         (dvals (apr_approvals A))))"

definition approval_resolve ::
    "approval_repo \<Rightarrow> uuid \<Rightarrow> principal \<Rightarrow> resolution_type \<Rightarrow> string option \<Rightarrow> uuid option \<Rightarrow> instant \<Rightarrow>
       (resolution_state \<times> approval_request \<times> approval_repo) res" where
  "approval_resolve A i p resolution reason grant now = (case dget (apr_approvals A) i of
      None \<Rightarrow> Inl approval_missing
    | Some r \<Rightarrow>
        if \<not> approval_visible r p then Inl approval_missing
        else if ap_status r \<noteq> Approval_PENDING
        then Inr (if ap_resolution r = Some resolution then ALREADY_RESOLVED_IDENTICALLY
                  else ALREADY_RESOLVED_DIFFERENTLY, r, A)
        else let r' = r\<lparr> ap_status := approval_status_for resolution,
                 ap_resolution := Some resolution, ap_resolution_reason := reason,
                 ap_task_grant_id := grant, ap_resolved_at := Some now,
                 ap_resolved_by := Some (principal_id p) \<rparr>
             in Inr (APPLIED, r', A\<lparr> apr_approvals := dset i r' (apr_approvals A) \<rparr>))"

definition approval_due :: "instant \<Rightarrow> string \<Rightarrow> approval_request \<Rightarrow> bool" where
  "approval_due now tenant r \<longleftrightarrow> ap_status r = Approval_PENDING \<and> ap_tenant_id r = tenant
     \<and> (case ap_expires_at r of None \<Rightarrow> False | Some t \<Rightarrow> t \<le> now)"

definition expired :: "instant \<Rightarrow> approval_request \<Rightarrow> approval_request" where
  "expired now r = r\<lparr> ap_status := Approval_EXPIRED, ap_resolved_at := Some now \<rparr>"

definition expire_due ::
    "approval_repo \<Rightarrow> instant \<Rightarrow> int \<Rightarrow> string \<Rightarrow> approval_request list \<times> approval_repo" where
  "expire_due A now limit tenant =
     (let due = py_take limit (sort_key (\<lambda>r.
            (case ap_expires_at r of None \<Rightarrow> ap_created_at r | Some t \<Rightarrow> t, ap_id r))
            (filter (approval_due now tenant) (dvals (apr_approvals A))))
      in (map (expired now) due,
          A\<lparr> apr_approvals := fold (\<lambda>r d. dset (ap_id r) (expired now r) d) due (apr_approvals A) \<rparr>))"

text \<open>
  \<open>cancel_for_run\<close> walks over a snapshot of the table and rewrites the pending approvals of the run in
  place; the clock is read once per rewritten row, \<open>now i\<close> for the row with key \<open>i\<close>.
\<close>

definition cancel_row ::
    "uuid \<Rightarrow> (uuid \<Rightarrow> instant) \<Rightarrow> uuid \<times> approval_request \<Rightarrow> uuid \<times> approval_request" where
  "cancel_row run_id now row = (case row of (i, r) \<Rightarrow>
     (i, if ap_run_id r = run_id \<and> ap_status r = Approval_PENDING
         then r\<lparr> ap_status := Approval_CANCELLED, ap_resolved_at := Some (now i) \<rparr> else r))"

definition cancel_for_run ::
    "approval_repo \<Rightarrow> uuid \<Rightarrow> (uuid \<Rightarrow> instant) \<Rightarrow> nat \<times> approval_repo" where
  "cancel_for_run A run_id now =
     (length (filter (\<lambda>r. ap_run_id r = run_id \<and> ap_status r = Approval_PENDING)
        (dvals (apr_approvals A))),
      A\<lparr> apr_approvals := map (cancel_row run_id now) (apr_approvals A) \<rparr>)"

subsection \<open>Steps\<close>

inductive approval_step :: "approval_repo \<Rightarrow> approval_repo \<Rightarrow> bool" where
  astep_create: "approval_create A r = Inr (r', A') \<Longrightarrow> approval_step A A'"
| astep_discard: "discard_pending A i = Inr A' \<Longrightarrow> approval_step A A'"
| astep_revalidate: "record_revalidation A a v = Inr (r, A') \<Longrightarrow> approval_step A A'"
| astep_resolve: "approval_resolve A i p x reason g t = Inr (st, r, A') \<Longrightarrow> approval_step A A'"
| astep_expire: "expire_due A t n tenant = (rs, A') \<Longrightarrow> approval_step A A'"
| astep_cancel: "cancel_for_run A run now = (n, A') \<Longrightarrow> approval_step A A'"

definition approval_edge :: "approval_status \<Rightarrow> approval_status \<Rightarrow> bool" where
  "approval_edge a b \<longleftrightarrow> a = Approval_PENDING \<and> b \<noteq> Approval_PENDING"

definition approval_resolved :: "approval_status \<Rightarrow> bool" where
  "approval_resolved a \<longleftrightarrow> a \<noteq> Approval_PENDING"

text \<open>The fields of the request itself, and the outcome once there is one.\<close>

definition same_request :: "approval_request \<Rightarrow> approval_request \<Rightarrow> bool" where
  "same_request a b \<longleftrightarrow> ap_id b = ap_id a \<and> ap_tenant_id b = ap_tenant_id a
     \<and> ap_principal_id b = ap_principal_id a \<and> ap_session_id b = ap_session_id a
     \<and> ap_run_id b = ap_run_id a \<and> ap_action_id b = ap_action_id a \<and> ap_arguments b = ap_arguments a
     \<and> ap_normalized_arguments_hash b = ap_normalized_arguments_hash a
     \<and> ap_required_scopes b = ap_required_scopes a \<and> ap_agent_version b = ap_agent_version a
     \<and> ap_policy_version b = ap_policy_version a \<and> ap_expires_at b = ap_expires_at a
     \<and> ap_created_at b = ap_created_at a"

definition same_outcome :: "approval_request \<Rightarrow> approval_request \<Rightarrow> bool" where
  "same_outcome a b \<longleftrightarrow> ap_status b = ap_status a \<and> ap_resolution b = ap_resolution a
     \<and> ap_resolution_reason b = ap_resolution_reason a \<and> ap_resolved_at b = ap_resolved_at a
     \<and> ap_resolved_by b = ap_resolved_by a \<and> ap_task_grant_id b = ap_task_grant_id a"

definition approval_moves :: "approval_request \<Rightarrow> approval_request \<Rightarrow> bool" where
  "approval_moves a b \<longleftrightarrow> same_request a b
     \<and> (same_outcome a b \<or> approval_edge (ap_status a) (ap_status b))"

lemma approval_moves_refl [simp]: "approval_moves a a"
  by (simp add: approval_moves_def same_request_def same_outcome_def)

lemma approval_moves_resolved:
  "approval_moves a b \<Longrightarrow> ap_status a \<noteq> Approval_PENDING \<Longrightarrow> same_outcome a b"
  by (auto simp: approval_moves_def approval_edge_def)

definition approval_repo_ok :: "approval_repo \<Rightarrow> bool" where
  "approval_repo_ok A \<longleftrightarrow> keyed ap_id (apr_approvals A)
     \<and> (\<forall>a i. dget (apr_actions A) a = Some i \<longleftrightarrow>
          (\<exists>r. dget (apr_approvals A) i = Some r \<and> ap_action_id r = a))"

lemma empty_approval_repo_ok [simp]: "approval_repo_ok empty_approval_repo"
  by (simp add: approval_repo_ok_def empty_approval_repo_def)

text \<open>Rewriting rows in place, each along a legal move, keeps the repository consistent.\<close>

lemma rewrite_rows_ok:
  assumes "approval_repo_ok A" and "apr_actions A' = apr_actions A"
    and "keyed ap_id (apr_approvals A')"
    and "\<And>i. dget (apr_approvals A) i = None \<Longrightarrow> dget (apr_approvals A') i = None"
    and "\<And>i r. dget (apr_approvals A) i = Some r \<Longrightarrow>
        \<exists>r'. dget (apr_approvals A') i = Some r' \<and> approval_moves r r'"
  shows "approval_repo_ok A'"
proof -
  have "(\<exists>r. dget (apr_approvals A') i = Some r \<and> ap_action_id r = a) \<longleftrightarrow>
      (\<exists>r. dget (apr_approvals A) i = Some r \<and> ap_action_id r = a)" for i a
  proof (cases "dget (apr_approvals A) i")
    case None
    then show ?thesis using assms(4) by simp
  next
    case (Some r)
    then show ?thesis
      using assms(5) [OF Some] by (auto simp: approval_moves_def same_request_def)
  qed
  then show ?thesis using assms(1-3) by (simp add: approval_repo_ok_def)
qed

lemma expire_fold:
  assumes "distinct (map ap_id due)"
  shows "dget (fold (\<lambda>r d. dset (ap_id r) (expired now r) d) due d) i =
     (case List.find (\<lambda>r. ap_id r = i) due of None \<Rightarrow> dget d i | Some r \<Rightarrow> Some (expired now r))"
  using assms
proof (induction due arbitrary: d)
  case Nil
  then show ?case by simp
next
  case (Cons r due)
  have "List.find (\<lambda>x. ap_id x = ap_id r) due = None"
    using Cons.prems by (simp add: find_None_iff image_iff) metis
  then show ?case
    using Cons.IH [of "dset (ap_id r) (expired now r) d"] Cons.prems
    by (cases "ap_id r = i") (simp_all split: option.split)
qed

lemma expire_fold_keyed:
  "keyed ap_id d \<Longrightarrow> keyed ap_id (fold (\<lambda>r d. dset (ap_id r) (expired now r) d) due d)"
proof (induction due arbitrary: d)
  case (Cons r due)
  have "ap_id (expired now r) = ap_id r" by (simp add: expired_def)
  with Cons show ?case by (simp add: keyed_dset)
qed simp

lemma cancel_rows_get:
  "dget (map (cancel_row run now) d) i = map_option (\<lambda>r. snd (cancel_row run now (i, r))) (dget d i)"
proof (induction d)
  case (Cons row d)
  then show ?case by (cases row) (simp add: cancel_row_def)
qed simp

lemma cancel_row_key: "fst (cancel_row run now row) = fst row" "ap_id (snd (cancel_row run now row)) = ap_id (snd row)"
  by (simp_all add: cancel_row_def split: prod.splits)

lemma cancel_rows_keyed:
  assumes "keyed ap_id d"
  shows "keyed ap_id (map (cancel_row run now) d)"
proof -
  have "map fst (map (cancel_row run now) d) = map fst d"
    by (simp add: cancel_row_key o_def)
  moreover have "ap_id (snd (cancel_row run now x)) = fst (cancel_row run now x)" if "x \<in> set d" for x
    using assms that by (auto simp: cancel_row_key keyed_def)
  ultimately show ?thesis
    using assms unfolding keyed_def by (auto simp del: map_map simp: split_beta)
qed

text \<open>What the expiry pass does: it rewrites exactly the rows it selected, all of them due.\<close>

definition selected_due :: "approval_repo \<Rightarrow> instant \<Rightarrow> int \<Rightarrow> string \<Rightarrow> approval_request list" where
  "selected_due A now limit tenant = py_take limit (sort_key (\<lambda>r.
     (case ap_expires_at r of None \<Rightarrow> ap_created_at r | Some t \<Rightarrow> t, ap_id r))
     (filter (approval_due now tenant) (dvals (apr_approvals A))))"

lemma expire_due_eq: "expire_due A now limit tenant =
   (map (expired now) (selected_due A now limit tenant),
    A\<lparr> apr_approvals := fold (\<lambda>r d. dset (ap_id r) (expired now r) d) (selected_due A now limit tenant)
         (apr_approvals A) \<rparr>)"
  by (simp add: expire_due_def selected_due_def Let_def)

lemma selected_due_sound:
  "r \<in> set (selected_due A now n tenant) \<Longrightarrow> r \<in> set (dvals (apr_approvals A)) \<and> approval_due now tenant r"
  unfolding selected_due_def by (drule set_py_take) auto

lemma selected_due_distinct:
  assumes "keyed ap_id (apr_approvals A)"
  shows "distinct (map ap_id (selected_due A now n tenant))"
proof -
  have "distinct (selected_due A now n tenant)"
    unfolding selected_due_def py_take_def using keyed_distinct_vals(1) [OF assms] by simp
  moreover have "inj_on ap_id (set (selected_due A now n tenant))"
    using keyed_distinct_vals(2) [OF assms] selected_due_sound by (metis inj_on_subset subsetI)
  ultimately show ?thesis by (simp add: distinct_map)
qed

lemma expire_due_row:
  assumes "keyed ap_id (apr_approvals A)" and "dget (apr_approvals A) i = Some r"
  shows "dget (apr_approvals (snd (expire_due A now n tenant))) i =
     Some (if r \<in> set (selected_due A now n tenant) then expired now r else r)"
proof -
  define due where "due = selected_due A now n tenant"
  have id: "ap_id r = i" using keyed_dget [OF assms] .
  have same: "x = r" if "x \<in> set due" "ap_id x = i" for x
    using that selected_due_sound [of x A now n tenant] keyed_vals [OF assms(1), of x] assms(2)
    by (simp add: due_def)
  have "(case List.find (\<lambda>x. ap_id x = i) due of
        None \<Rightarrow> dget (apr_approvals A) i | Some x \<Rightarrow> Some (expired now x))
      = Some (if r \<in> set due then expired now r else r)"
  proof (cases "List.find (\<lambda>x. ap_id x = i) due")
    case None
    then have "r \<notin> set due" using id by (auto simp: find_None_iff)
    with None assms(2) show ?thesis by simp
  next
    case (Some x)
    then have "x \<in> set due" "ap_id x = i" by (auto simp: find_Some_iff)
    with Some same show ?thesis by auto
  qed
  then show ?thesis
    using expire_fold [OF selected_due_distinct [OF assms(1), of now n tenant], of now "apr_approvals A" i]
    by (simp add: expire_due_eq due_def)
qed

lemma expire_due_absent:
  assumes "keyed ap_id (apr_approvals A)" and "dget (apr_approvals A) i = None"
  shows "dget (apr_approvals (snd (expire_due A now n tenant))) i = None"
proof -
  have "List.find (\<lambda>x. ap_id x = i) (selected_due A now n tenant) = None"
    using selected_due_sound keyed_vals [OF assms(1)] assms(2) by (fastforce simp: find_None_iff)
  then show ?thesis
    using expire_fold [OF selected_due_distinct [OF assms(1), of now n tenant], of now "apr_approvals A" i]
      assms(2)
    by (simp add: expire_due_eq)
qed

lemma expired_moves: "approval_due now tenant r \<Longrightarrow> approval_moves r (expired now r)"
  by (simp add: approval_moves_def same_request_def approval_edge_def expired_def approval_due_def)

text \<open>Every step either adds a request, drops a pending one, or rewrites rows in place.\<close>

inductive approval_change :: "approval_repo \<Rightarrow> approval_repo \<Rightarrow> bool" where
  approval_added: "dget (apr_approvals A) (ap_id r) = None \<Longrightarrow> dget (apr_actions A) (ap_action_id r) = None \<Longrightarrow>
    A' = A\<lparr> apr_approvals := dset (ap_id r) r (apr_approvals A),
            apr_actions := dset (ap_action_id r) (ap_id r) (apr_actions A) \<rparr> \<Longrightarrow> approval_change A A'"
| approval_dropped: "dget (apr_approvals A) i = Some r \<Longrightarrow> ap_status r = Approval_PENDING \<Longrightarrow>
    A' = A\<lparr> apr_approvals := ddel i (apr_approvals A),
            apr_actions := ddel (ap_action_id r) (apr_actions A) \<rparr> \<Longrightarrow> approval_change A A'"
| approval_rewritten: "apr_actions A' = apr_actions A \<Longrightarrow> keyed ap_id (apr_approvals A') \<Longrightarrow>
    (\<And>i. dget (apr_approvals A) i = None \<Longrightarrow> dget (apr_approvals A') i = None) \<Longrightarrow>
    (\<And>i r. dget (apr_approvals A) i = Some r \<Longrightarrow>
        \<exists>r'. dget (apr_approvals A') i = Some r' \<and> approval_moves r r') \<Longrightarrow> approval_change A A'"

lemma rewrite_one:
  assumes "approval_repo_ok A" and "dget (apr_approvals A) i = Some r" and "approval_moves r r'"
  shows "approval_change A (A\<lparr> apr_approvals := dset i r' (apr_approvals A) \<rparr>)"
proof (rule approval_rewritten)
  have keyed: "keyed ap_id (apr_approvals A)" using assms(1) by (simp add: approval_repo_ok_def)
  then have "ap_id r' = i"
    using keyed_dget [OF keyed assms(2)] assms(3) by (simp add: approval_moves_def same_request_def)
  with keyed show "keyed ap_id (apr_approvals (A\<lparr> apr_approvals := dset i r' (apr_approvals A) \<rparr>))"
    by auto
qed (use assms in auto)

lemma approval_step_shape:
  assumes "approval_step A A'" and ok: "approval_repo_ok A"
  shows "approval_change A A'"
proof -
  have keyed: "keyed ap_id (apr_approvals A)" using ok by (simp add: approval_repo_ok_def)
  have same: "approval_change A A"
    by (rule approval_rewritten) (use keyed in auto)
  show ?thesis
    using assms(1)
  proof cases
    case (astep_create r r')
    then show ?thesis
      by (intro approval_added [of A r]) (auto simp: approval_create_def dhas_iff split: if_splits)
  next
    case (astep_discard i)
    then show ?thesis
      using same
      by (auto simp: discard_pending_def split: option.splits if_splits intro: approval_dropped)
  next
    case (astep_revalidate a v r)
    then obtain i x where "dget (apr_approvals A) i = Some x"
      "A' = A\<lparr> apr_approvals := dset i (x\<lparr> ap_revalidated_policy_version := Some v \<rparr>) (apr_approvals A) \<rparr>"
      by (auto simp: record_revalidation_def rbind_Inr_iff Let_def split: option.splits)
    then show ?thesis
      by (auto intro!: rewrite_one [OF ok] simp: approval_moves_def same_request_def same_outcome_def)
  next
    case (astep_resolve i p x reason g t st r)
    then show ?thesis
      using same
      by (auto simp: approval_resolve_def Let_def approval_moves_def same_request_def
          approval_edge_def approval_status_for_def split: option.splits if_splits
          intro!: rewrite_one [OF ok])
  next
    case (astep_expire t n tenant rs)
    then have A': "A' = snd (expire_due A t n tenant)" by simp
    show ?thesis
    proof (rule approval_rewritten)
      show "apr_actions A' = apr_actions A" "keyed ap_id (apr_approvals A')"
        using keyed by (simp_all add: A' expire_due_eq expire_fold_keyed)
    next
      fix i r assume "dget (apr_approvals A) i = Some r"
      then show "\<exists>r'. dget (apr_approvals A') i = Some r' \<and> approval_moves r r'"
        using expire_due_row [OF keyed] selected_due_sound expired_moves by (fastforce simp: A')
    qed (simp add: A' expire_due_absent [OF keyed])
  next
    case (astep_cancel run now n)
    then have A': "apr_approvals A' = map (cancel_row run now) (apr_approvals A)"
      "apr_actions A' = apr_actions A"
      by (auto simp: cancel_for_run_def)
    show ?thesis
    proof (rule approval_rewritten)
      fix i r assume "dget (apr_approvals A) i = Some r"
      then show "\<exists>r'. dget (apr_approvals A') i = Some r' \<and> approval_moves r r'"
        by (auto simp: A' cancel_rows_get cancel_row_def approval_moves_def same_request_def
            approval_edge_def same_outcome_def)
    qed (use keyed in \<open>simp_all add: A' cancel_rows_keyed cancel_rows_get\<close>)
  qed
qed

lemma approval_step_ok:
  assumes "approval_step A A'" and ok: "approval_repo_ok A"
  shows "approval_repo_ok A'"
  using approval_step_shape [OF assms]
proof cases
  case (approval_added r)
  have "dget (apr_actions A') a = Some i \<longleftrightarrow>
      (\<exists>r. dget (apr_approvals A') i = Some r \<and> ap_action_id r = a)" for a i
  proof -
    have "dget (apr_actions A) a = Some i \<longleftrightarrow>
        (\<exists>r. dget (apr_approvals A) i = Some r \<and> ap_action_id r = a)"
      using ok by (simp add: approval_repo_ok_def)
    with approval_added show ?thesis by auto
  qed
  moreover have "keyed ap_id (apr_approvals A')"
    using ok approval_added by (auto simp: approval_repo_ok_def)
  ultimately show ?thesis by (simp add: approval_repo_ok_def)
next
  case (approval_dropped i r)
  have index: "dget (apr_actions A) a = Some j \<longleftrightarrow>
      (\<exists>r. dget (apr_approvals A) j = Some r \<and> ap_action_id r = a)" for a j
    using ok by (simp add: approval_repo_ok_def)
  have "dget (apr_actions A') a = Some j \<longleftrightarrow>
      (\<exists>r. dget (apr_approvals A') j = Some r \<and> ap_action_id r = a)" for a j
    using index [of a j] index [of "ap_action_id r" i] index [of "ap_action_id r" j] approval_dropped
    by auto
  moreover have "keyed ap_id (apr_approvals A')"
    using ok approval_dropped by (auto simp: approval_repo_ok_def)
  ultimately show ?thesis by (simp add: approval_repo_ok_def)
next
  case approval_rewritten
  then show ?thesis by (rule rewrite_rows_ok [OF ok])
qed

lemma approval_steps_ok: "approval_step\<^sup>*\<^sup>* A A' \<Longrightarrow> approval_repo_ok A \<Longrightarrow> approval_repo_ok A'"
  by (induction rule: rtranclp_induct) (auto dest: approval_step_ok)

lemma approval_step_row:
  assumes "approval_step A A'" and "approval_repo_ok A" and "dget (apr_approvals A) i = Some r"
  shows "(\<exists>r'. dget (apr_approvals A') i = Some r' \<and> approval_moves r r')
    \<or> (dget (apr_approvals A') i = None \<and> ap_status r = Approval_PENDING)"
  using approval_step_shape [OF assms(1,2)] assms(3) by cases auto

definition ok_step :: "approval_repo \<Rightarrow> approval_repo \<Rightarrow> bool" where
  "ok_step A A' \<longleftrightarrow> approval_repo_ok A \<and> approval_step A A'"

interpretation approval_store: status_store approval_edge approval_resolved
  "\<lambda>A i. map_option ap_status (dget (apr_approvals A) i)" ok_step
proof
  fix A A' i a
  assume step: "ok_step A A'"
    and "map_option ap_status (dget (apr_approvals A) i) = Some a"
  then obtain r where r: "dget (apr_approvals A) i = Some r" "ap_status r = a" by auto
  have "approval_step A A'" "approval_repo_ok A" using step by (simp_all add: ok_step_def)
  from approval_step_row [OF this r(1)] r(2)
  show "case map_option ap_status (dget (apr_approvals A') i) of
      None \<Rightarrow> \<not> approval_resolved a | Some b \<Rightarrow> a = b \<or> approval_edge a b"
    by (auto simp: approval_moves_def same_outcome_def approval_resolved_def)
qed (simp add: approval_edge_def approval_resolved_def)

lemma resolved_kept:
  assumes "approval_step\<^sup>*\<^sup>* A A'" and "approval_repo_ok A" and "dget (apr_approvals A) i = Some r"
    and "ap_status r \<noteq> Approval_PENDING"
  shows "\<exists>r'. dget (apr_approvals A') i = Some r' \<and> same_request r r' \<and> same_outcome r r'"
  using assms(1)
proof (induction rule: rtranclp_induct)
  case base
  then show ?case using assms(3) by (auto simp: same_request_def same_outcome_def)
next
  case (step B C)
  then obtain r' where r': "dget (apr_approvals B) i = Some r'" "same_request r r'" "same_outcome r r'"
    by blast
  have "ap_status r' \<noteq> Approval_PENDING" using r'(3) assms(4) by (simp add: same_outcome_def)
  then obtain r'' where "dget (apr_approvals C) i = Some r''" "approval_moves r' r''"
    using approval_step_row [OF step.hyps(2) approval_steps_ok [OF step.hyps(1) assms(2)] r'(1)] by blast
  with r' \<open>ap_status r' \<noteq> Approval_PENDING\<close> show ?case
    using approval_moves_resolved [of r' r'']
    by (auto simp: approval_moves_def same_request_def same_outcome_def)
qed

subsection \<open>Properties\<close>

text \<open>
  C13. An approval is resolved once: after a resolution was applied, whatever happens later (other
  resolutions, expiry, cancellation of the run, revalidation), the stored request keeps that
  status, resolution, reason, grant, resolver and time, and every further attempt by a principal of
  the tenant reports that it was already resolved, identically or differently, and changes nothing.
\<close>

theorem approval_resolved_once:
  assumes "approval_step\<^sup>*\<^sup>* empty_approval_repo A"
    and "approval_resolve A i p x reason g t = Inr (APPLIED, r, A1)" and "approval_step\<^sup>*\<^sup>* A1 A2"
    and "tenant_id q = tenant_id p"
  shows "\<exists>r'. dget (apr_approvals A2) i = Some r' \<and> same_outcome r r'
      \<and> ap_resolution r' = Some x \<and> ap_resolved_by r' = Some (principal_id p)
      \<and> approval_resolve A2 i q y reason' g' t' =
          Inr (if y = x then ALREADY_RESOLVED_IDENTICALLY else ALREADY_RESOLVED_DIFFERENTLY, r', A2)"
proof -
  have ok: "approval_repo_ok A" using approval_steps_ok [OF assms(1)] by simp
  have ok1: "approval_repo_ok A1" by (rule approval_step_ok [OF astep_resolve [OF assms(2)] ok])
  have r: "dget (apr_approvals A1) i = Some r" "ap_status r \<noteq> Approval_PENDING"
    "ap_resolution r = Some x" "ap_resolved_by r = Some (principal_id p)" "ap_tenant_id r = tenant_id p"
    using assms(2)
    by (auto simp: approval_resolve_def approval_visible_def approval_status_for_def Let_def
        split: option.splits if_splits)
  obtain r' where r': "dget (apr_approvals A2) i = Some r'" "same_request r r'" "same_outcome r r'"
    using resolved_kept [OF assms(3) ok1 r(1,2)] by blast
  then have "ap_status r' \<noteq> Approval_PENDING" "ap_resolution r' = Some x"
    "ap_resolved_by r' = Some (principal_id p)" "ap_tenant_id r' = tenant_id q"
    using r assms(4) by (simp_all add: same_outcome_def same_request_def)
  with r' show ?thesis by (auto simp: approval_resolve_def approval_visible_def)
qed

text \<open>
  The action index is exact in every reachable state: looking an approval up by its action never
  meets a dangling entry, and it finds a request exactly when that request is stored and was made
  for that action.
\<close>

theorem approval_action_index_exact:
  assumes "approval_step\<^sup>*\<^sup>* empty_approval_repo A"
  shows "\<exists>found. approval_get_by_action A act = Inr found
    \<and> (\<forall>r. found = Some r \<longleftrightarrow> dget (apr_approvals A) (ap_id r) = Some r \<and> ap_action_id r = act)"
proof -
  have ok: "approval_repo_ok A" using approval_steps_ok [OF assms] by simp
  then have keyed: "keyed ap_id (apr_approvals A)"
    and index: "dget (apr_actions A) a = Some i \<longleftrightarrow>
      (\<exists>r. dget (apr_approvals A) i = Some r \<and> ap_action_id r = a)" for a i
    by (simp_all add: approval_repo_ok_def)
  show ?thesis
  proof (cases "dget (apr_actions A) act")
    case None
    then have "approval_get_by_action A act = Inr None" by (simp add: approval_get_by_action_def)
    moreover have "\<not> (dget (apr_approvals A) (ap_id r) = Some r \<and> ap_action_id r = act)" for r
      using None index [of act "ap_id r"] by auto
    ultimately show ?thesis by blast
  next
    case (Some i)
    then obtain r where r: "dget (apr_approvals A) i = Some r" "ap_action_id r = act"
      using index by blast
    have "approval_get_by_action A act = Inr (Some r)"
      using Some r(1) by (simp add: approval_get_by_action_def)
    moreover have "r' = r" if "dget (apr_approvals A) (ap_id r') = Some r'" "ap_action_id r' = act" for r'
      using index [of act "ap_id r'"] that Some r(1) by auto
    ultimately show ?thesis
      using r keyed_dget [OF keyed r(1)] by blast
  qed
qed

text \<open>
  An expiry pass with a sufficient limit is complete and precise: afterwards no pending request
  of the tenant is past its expiry, the requests that were due are exactly the ones reported and
  stored as expired, and every other request is untouched.
\<close>

theorem expire_due_complete:
  assumes "approval_repo_ok A" and "expire_due A now (int n) tenant = (rs, A')"
    and "length (filter (approval_due now tenant) (dvals (apr_approvals A))) \<le> n"
    and "dget (apr_approvals A) i = Some r"
  shows "dget (apr_approvals A') i = Some (if approval_due now tenant r then expired now r else r)
    \<and> (approval_due now tenant r \<longrightarrow> expired now r \<in> set rs)
    \<and> \<not> approval_due now tenant (the (dget (apr_approvals A') i))"
proof -
  have keyed: "keyed ap_id (apr_approvals A)" using assms(1) by (simp add: approval_repo_ok_def)
  have "set (selected_due A now (int n) tenant)
      = set (filter (approval_due now tenant) (dvals (apr_approvals A)))"
    using assms(3) by (simp add: selected_due_def)
  moreover have "r \<in> set (dvals (apr_approvals A))"
    using keyed_vals [OF keyed, of r] keyed_dget [OF keyed assms(4)] assms(4) by simp
  ultimately have sel: "r \<in> set (selected_due A now (int n) tenant) \<longleftrightarrow> approval_due now tenant r"
    by simp
  have "A' = snd (expire_due A now (int n) tenant)" "rs = map (expired now) (selected_due A now (int n) tenant)"
    using assms(2) by (simp_all add: expire_due_eq)
  then show ?thesis
    using expire_due_row [OF keyed assms(4), of now "int n" tenant] sel
    by (auto simp: approval_due_def expired_def)
qed

text \<open>
  Exactly when an approval survives revalidation: the arguments, the agent version and the
  required scopes are still those that were approved, and policy now either allows the action
  outright or still asks for approval under the very same policy version. Everything else is
  refused, with one reason for changed inputs and another for an escalated policy.
\<close>

theorem revalidation_accepts_iff:
  "(revalidation_denial_reason a h granted agent version d = None \<longleftrightarrow>
      h = ap_normalized_arguments_hash a \<and> ap_required_scopes a \<subseteq> granted \<and> agent = ap_agent_version a
      \<and> (d = ALLOW \<or> (d = REQUIRE_APPROVAL \<and> version = ap_policy_version a)))
   \<and> (\<forall>reason. revalidation_denial_reason a h granted agent version d = Some reason \<longrightarrow>
      reason = (if h = ap_normalized_arguments_hash a \<and> ap_required_scopes a \<subseteq> granted
          \<and> agent = ap_agent_version a then ''policy.revalidation.escalated''
        else ''policy.revalidation.changed''))"
  by (cases d) (auto simp: revalidation_denial_reason_def)

subsection \<open>Witnesses\<close>

definition sample_decision :: policy_decision where
  "sample_decision = \<lparr> pd_decision = REQUIRE_APPROVAL, pd_reason_code = ''r'', pd_explanation = [],
     pd_modified_arguments = None, pd_policy_version = ''v'', pd_untrusted_escalation = False \<rparr>"

definition sample_approval :: approval_request where
  "sample_approval = \<lparr> ap_id = 31, ap_tenant_id = ''t1'', ap_principal_id = ''alice'', ap_session_id = 1,
     ap_run_id = 1, ap_action_kind = TOOL_CALL, ap_action_id = 21, ap_tool_invocation_id = Some 21,
     ap_status = Approval_PENDING, ap_action_summary = [], ap_tool_name = None, ap_arguments = [],
     ap_argument_digests = [], ap_normalized_arguments_hash = ''h'', ap_required_scopes = {},
     ap_agent_version = ''1'', ap_risk = Risk_HIGH, ap_policy_reason = ''r'',
     ap_policy_reason_text = None, ap_policy_decision = sample_decision, ap_policy_version = ''v'',
     ap_revalidated_policy_version = None, ap_resolution = None, ap_resolution_reason = None,
     ap_expires_at = Some 50, ap_created_at = 1, ap_resolved_at = None, ap_resolved_by = None,
     ap_task_grant_offer = None, ap_task_grant_not_covered = None, ap_task_grant_id = None,
     ap_request_grant_offer = None, ap_research_not_covered = None \<rparr>"

definition sample_approvals :: approval_repo where
  "sample_approvals = \<lparr> apr_approvals = [(31, sample_approval)], apr_actions = [(21, 31)] \<rparr>"

definition tenant_user :: "string \<Rightarrow> principal" where
  "tenant_user name = \<lparr> tenant_id = ''t1'', principal_id = name, roles = {}, scopes = {} \<rparr>"

lemma sample_approvals_reachable: "approval_step\<^sup>*\<^sup>* empty_approval_repo sample_approvals"
proof (intro r_into_rtranclp astep_create)
  show "approval_create empty_approval_repo sample_approval = Inr (sample_approval, sample_approvals)"
    by (simp add: approval_create_def empty_approval_repo_def sample_approvals_def sample_approval_def
        dhas_def)
qed

theorem approval_resolved_once_witness:
  "\<exists>r A1 r'. approval_resolve sample_approvals 31 (tenant_user ''alice'') APPROVE_ONCE None None 5
        = Inr (APPLIED, r, A1)
     \<and> approval_resolve A1 31 (tenant_user ''bob'') Resolve_DENY None None 6
        = Inr (ALREADY_RESOLVED_DIFFERENTLY, r', A1)"
proof -
  obtain r A1 where a: "approval_resolve sample_approvals 31 (tenant_user ''alice'') APPROVE_ONCE None None 5
        = Inr (APPLIED, r, A1)"
    by (simp add: approval_resolve_def sample_approvals_def sample_approval_def approval_visible_def
        tenant_user_def Let_def)
  have "tenant_id (tenant_user ''bob'') = tenant_id (tenant_user ''alice'')"
    by (simp add: tenant_user_def)
  from approval_resolved_once [OF sample_approvals_reachable a rtranclp.rtrancl_refl this,
      of Resolve_DENY None None 6] a
  show ?thesis by auto
qed

theorem approval_action_index_exact_witness:
  "approval_get_by_action sample_approvals 21 = Inr (Some sample_approval)"
proof -
  have "dget (apr_approvals sample_approvals) (ap_id sample_approval) = Some sample_approval
      \<and> ap_action_id sample_approval = 21"
    by (simp add: sample_approvals_def sample_approval_def)
  with approval_action_index_exact [OF sample_approvals_reachable, of 21] show ?thesis by metis
qed

theorem expire_due_complete_witness:
  "dget (apr_approvals (snd (expire_due sample_approvals 60 10 ''t1''))) 31 = Some (expired 60 sample_approval)"
proof -
  have ok: "approval_repo_ok sample_approvals"
    using approval_steps_ok [OF sample_approvals_reachable] by simp
  have due: "approval_due 60 ''t1'' sample_approval"
    by (simp add: approval_due_def sample_approval_def)
  have "dget (apr_approvals sample_approvals) 31 = Some sample_approval"
    "length (filter (approval_due 60 ''t1'') (dvals (apr_approvals sample_approvals))) \<le> 10"
    by (simp_all add: sample_approvals_def)
  with expire_due_complete [OF ok, of 60 10 "''t1''" _ _ 31 sample_approval] due
  show ?thesis by (simp add: prod_eq_iff)
qed

theorem revalidation_accepts_iff_witness:
  "revalidation_denial_reason sample_approval ''h'' {} ''1'' ''v'' REQUIRE_APPROVAL = None
   \<and> revalidation_denial_reason sample_approval ''h'' {} ''1'' ''w'' REQUIRE_APPROVAL \<noteq> None"
  using revalidation_accepts_iff [of sample_approval "''h''" "{}" "''1''" _ REQUIRE_APPROVAL]
  by (simp add: sample_approval_def)

end
