(* ===== verification/Checkpoints.thy ===== *)
theory Checkpoints
  imports Events Run_Repo
begin

text \<open>
  The durable bookkeeping of a run: checkpoints, idempotency records and the policy versions that
  decided its actions. The values come from \<open>domain/runs.py\<close>, \<open>domain/persistence.py\<close> and
  \<open>domain/policies.py\<close>, the operations from \<open>InMemoryCheckpointRepository\<close>,
  \<open>InMemoryIdempotencyRepository\<close> and \<open>InMemoryPolicyProfileRepository\<close> of
  \<open>adapters/persistence/memory.py\<close>, and the part of \<open>erase_memory_copies_locked\<close> that touches
  checkpoints from \<open>adapters/persistence/people_erasure.py\<close>. Tool specifications, loaded skills and
  elided spans are carried as JSON: no operation modelled here looks into them. Reading a
  \<open>defaultdict\<close> stores an empty list under a new key; every operation treats an empty list and an
  absent key alike, so the model does not store it.
\<close>

subsection \<open>First writer wins\<close>

text \<open>
  The contract of a store that keeps the first record written under a key: a successful write
  returns what the key holds afterwards, and no step of the store changes an occupied key.
\<close>

locale first_writer_wins =
  fixes look :: "'st \<Rightarrow> 'k \<Rightarrow> 'r option"
    and key_of :: "'r \<Rightarrow> 'k"
    and put :: "'st \<Rightarrow> 'r \<Rightarrow> ('r \<times> 'st) res"
    and step :: "'st \<Rightarrow> 'st \<Rightarrow> bool"
  assumes put_result: "put s r = Inr (x, s') \<Longrightarrow> look s' (key_of r) = Some x"
    and put_is_step: "put s r = Inr (x, s') \<Longrightarrow> step s s'"
    and step_keeps: "step s s' \<Longrightarrow> look s k = Some y \<Longrightarrow> look s' k = Some y"
begin

lemma first_kept: "step\<^sup>*\<^sup>* s s' \<Longrightarrow> look s k = Some y \<Longrightarrow> look s' k = Some y"
  by (induction rule: rtranclp_induct) (auto dest: step_keeps)

text \<open>Whoever writes later under the same key is answered with the first record.\<close>

lemma later_put_returns_first:
  assumes "put s r = Inr (x, s1)" and "step\<^sup>*\<^sup>* s1 s2" and "put s2 r' = Inr (x', s3)"
    and "key_of r' = key_of r"
  shows "x' = x"
proof -
  have "look s2 (key_of r) = Some x"
    using first_kept [OF assms(2) put_result [OF assms(1)]] .
  then have "look s3 (key_of r) = Some x" by (rule step_keeps [OF put_is_step [OF assms(3)]])
  then show ?thesis using put_result [OF assms(3)] assms(4) by simp
qed

end

subsection \<open>Checkpoint values\<close>

record provider_continuation =
  pc_provider :: string
  pc_previous_response_id :: "string option"
  pc_opaque_items :: "document list"
  pc_valid_for_provider_only :: bool

record recall_work_budget =
  rw_searches :: int
  rw_rounds :: int
  rw_deadline_at :: instant
  rw_automatic :: bool

definition recall_work_valid :: "recall_work_budget \<Rightarrow> bool" where
  "recall_work_valid w \<longleftrightarrow> 1 \<le> rw_searches w \<and> rw_searches w \<le> 4
     \<and> 0 \<le> rw_rounds w \<and> rw_rounds w \<le> 2"

record run_checkpoint =
  ck_run_id :: uuid
  ck_version :: int
  ck_status :: run_status
  ck_conversation :: "conversation_item list"
  ck_pending_tool_calls :: "json list"
  ck_pending_approval_ids :: "uuid list"
  ck_tool_pins_initialized :: bool
  ck_pinned_tool_names :: "string list"
  ck_pinned_tool_versions :: "(string, string) dict"
  ck_pinned_tool_specs :: "(string, json) dict"
  ck_working_state :: document
  ck_loaded_skills :: "json list"
  ck_compacted_summary :: "string option"
  ck_summary_source_event_ids :: "int list"
  ck_summary_elided :: "json list"
  ck_replaced_through_sequence :: int
  ck_summary_depth :: int
  ck_compactor_version :: "string option"
  ck_budget_state :: document
  ck_recall_work :: "recall_work_budget option"
  ck_last_event_sequence :: int
  ck_provider_continuation :: "provider_continuation option"
  ck_provider_pin :: "provider_pin option"
  ck_context_origin_trust :: trust_level
  ck_created_at :: instant

text \<open>The field bounds of the checkpoint and its validator \<open>pinned_tools_match\<close>.\<close>

definition pinned_tools_match :: "run_checkpoint \<Rightarrow> run_checkpoint res" where
  "pinned_tools_match c =
     (if \<not> set (map fst (ck_pinned_tool_versions c)) \<subseteq> set (ck_pinned_tool_names c)
         \<or> \<not> set (map fst (ck_pinned_tool_specs c)) \<subseteq> set (ck_pinned_tool_names c)
      then Inl (ValueError ''checkpoint pinned tool metadata does not match its pinned tool names'')
      else Inr c)"

definition checkpoint_fields_valid :: "run_checkpoint \<Rightarrow> bool" where
  "checkpoint_fields_valid c \<longleftrightarrow> (\<forall>i \<in> set (ck_summary_source_event_ids c). 0 < i)
     \<and> 0 \<le> ck_replaced_through_sequence c \<and> 0 \<le> ck_summary_depth c \<and> ck_summary_depth c \<le> 2
     \<and> (case ck_recall_work c of None \<Rightarrow> True | Some w \<Rightarrow> recall_work_valid w)"

subsection \<open>The checkpoint repository\<close>

record checkpoint_repo =
  cr_checkpoints :: "(uuid, (run_checkpoint \<times> bool) list) dict"
  cr_people_erased :: "(uuid, instant) dict"

definition empty_checkpoint_repo :: checkpoint_repo where
  "empty_checkpoint_repo = \<lparr> cr_checkpoints = [], cr_people_erased = [] \<rparr>"

definition chain :: "checkpoint_repo \<Rightarrow> uuid \<Rightarrow> (run_checkpoint \<times> bool) list" where
  "chain C i = (case dget (cr_checkpoints C) i of None \<Rightarrow> [] | Some rows \<Rightarrow> rows)"

definition expected_version :: "(run_checkpoint \<times> bool) list \<Rightarrow> int" where
  "expected_version rows = (if rows \<noteq> [] then ck_version (fst (last rows)) + 1 else 1)"

definition checkpoint_write ::
    "checkpoint_repo \<Rightarrow> uuid \<Rightarrow> run_checkpoint \<Rightarrow> bool \<Rightarrow> worker_lease option \<Rightarrow>
       (int \<times> checkpoint_repo) res" where
  "checkpoint_write C i c full lease =
     (if lease \<noteq> None then Inl no_leases
      else if dhas (cr_people_erased C) i then
        (if ck_status c \<in> TERMINAL_RUN_STATUSES then Inr (ck_version c, C)
         else Inl (RunCancelledError ''People erasure fenced checkpoint writes''))
      else let rows = chain C i in
        if ck_version c \<noteq> expected_version rows
        then Inl (ConflictError (''checkpoint version must be '' @ str_int (expected_version rows)) None)
        else Inr (ck_version c,
               C\<lparr> cr_checkpoints := dset i (rows @ [(c, full)]) (cr_checkpoints C) \<rparr>))"

definition checkpoint_latest :: "checkpoint_repo \<Rightarrow> uuid \<Rightarrow> run_checkpoint option" where
  "checkpoint_latest C i =
     (let rows = chain C i in if rows = [] then None else Some (fst (last rows)))"

text \<open>\<open>next((index for index in range(len(rows) - 1, -1, -1) if rows[index][1]), None)\<close>\<close>

definition latest_full :: "(run_checkpoint \<times> bool) list \<Rightarrow> nat option" where
  "latest_full rows = find (\<lambda>k. snd (rows ! k)) (rev [0..<length rows])"

definition checkpoint_prune ::
    "checkpoint_repo \<Rightarrow> uuid \<Rightarrow> bool \<Rightarrow> (nat \<times> checkpoint_repo) res" where
  "checkpoint_prune C i terminal =
     (let rows = chain C i in
      if length rows \<le> 1 then Inr (0, C)
      else (case latest_full rows of
          None \<Rightarrow> Inl (ConflictError ''checkpoint chain has no full snapshot'' None)
        | Some k \<Rightarrow>
            let (c, full) = last rows in
            if terminal \<and> (\<not> full \<or> ck_status c \<notin> TERMINAL_RUN_STATUSES)
            then Inl (ConflictError ''terminal checkpoint retention requires a final full snapshot'' None)
            else let keep_from = (if terminal then length rows - 1 else k) in
              Inr (keep_from,
                C\<lparr> cr_checkpoints := dset i (drop keep_from rows) (cr_checkpoints C) \<rparr>)))"

definition delete_nonterminal ::
    "checkpoint_repo \<Rightarrow> uuid \<Rightarrow> (nat \<times> checkpoint_repo) res" where
  "delete_nonterminal C i =
     (let rows = chain C i in
      if rows \<noteq> [] \<and> ck_status (fst (last rows)) \<in> TERMINAL_RUN_STATUSES
      then Inl (ConflictError ''delete_nonterminal refuses a terminal run'' None)
      else Inr (length rows, C\<lparr> cr_checkpoints := ddel i (cr_checkpoints C) \<rparr>))"

text \<open>
  What erasing people data does to the checkpoints of the runs it found: it fences each run, keeping
  the instant of an earlier fence, and drops the whole chain.
\<close>

fun fence_runs :: "instant \<Rightarrow> uuid list \<Rightarrow> (uuid, instant) dict \<Rightarrow> (uuid, instant) dict" where
  "fence_runs t [] d = d"
| "fence_runs t (i # is) d = fence_runs t is (if dhas d i then d else dset i t d)"

definition erase_checkpoints ::
    "checkpoint_repo \<Rightarrow> uuid list \<Rightarrow> instant \<Rightarrow> nat \<times> checkpoint_repo" where
  "erase_checkpoints C runs erased_at =
     (sum_list (map (\<lambda>i. length (chain C i)) (remdups runs)),
      C\<lparr> cr_checkpoints := fold ddel runs (cr_checkpoints C),
         cr_people_erased := fence_runs erased_at runs (cr_people_erased C) \<rparr>)"

subsection \<open>Idempotency records\<close>

record idempotency_record =
  ir_key :: string
  ir_tenant_id :: string
  ir_principal_id :: string
  ir_request_hash :: string
  ir_run_id :: uuid
  ir_created_at :: instant
  ir_expires_at :: instant

type_synonym idempotency_repo = "(string \<times> string \<times> string, idempotency_record) dict"

definition scoped_key :: "idempotency_record \<Rightarrow> string \<times> string \<times> string" where
  "scoped_key r = (ir_tenant_id r, ir_principal_id r, ir_key r)"

definition idempotency_get ::
    "idempotency_repo \<Rightarrow> instant \<Rightarrow> string \<Rightarrow> string \<Rightarrow> string \<Rightarrow> idempotency_record option" where
  "idempotency_get I now key tenant owner = (case dget I (tenant, owner, key) of
      None \<Rightarrow> None
    | Some r \<Rightarrow> if ir_expires_at r \<le> now then None else Some r)"

definition idempotency_create ::
    "idempotency_repo \<Rightarrow> instant \<Rightarrow> idempotency_record \<Rightarrow>
       (idempotency_record \<times> idempotency_repo) res" where
  "idempotency_create I now r =
     (let k = scoped_key r;
          (existing, J) = (case dget I k of
             Some old \<Rightarrow> if ir_expires_at old \<le> now then (None, ddel k I) else (Some old, I)
           | None \<Rightarrow> (None, I))
      in case existing of
          Some old \<Rightarrow>
            if ir_request_hash old \<noteq> ir_request_hash r
            then Inl (ConflictError ''idempotency key was reused with a different request'' None)
            else Inr (old, J)
        | None \<Rightarrow> Inr (r, dset k r J))"

subsection \<open>Policy versions\<close>

record policy_profile_record =
  pp_policy_version :: string
  pp_profile_name :: string
  pp_profile_sha256 :: string
  pp_hardline_sha256 :: string
  pp_rule_count :: int
  pp_loaded_at :: instant
  pp_loaded_by :: string

type_synonym profile_repo = "(string, policy_profile_record) dict"

text \<open>Equality of the dumps without \<open>loaded_at\<close> and \<open>loaded_by\<close>.\<close>

definition same_rules :: "policy_profile_record \<Rightarrow> policy_profile_record \<Rightarrow> bool" where
  "same_rules a b \<longleftrightarrow> pp_policy_version a = pp_policy_version b
     \<and> pp_profile_name a = pp_profile_name b \<and> pp_profile_sha256 a = pp_profile_sha256 b
     \<and> pp_hardline_sha256 a = pp_hardline_sha256 b \<and> pp_rule_count a = pp_rule_count b"

definition profile_record ::
    "profile_repo \<Rightarrow> policy_profile_record \<Rightarrow> (policy_profile_record \<times> profile_repo) res" where
  "profile_record D profile = (case dget D (pp_policy_version profile) of
      Some existing \<Rightarrow>
        if existing \<noteq> profile then
          (if \<not> same_rules existing profile
           then Inl (ConflictError ''policy version identifies different rules'' None)
           else Inr (existing, D))
        else Inr (profile, dset (pp_policy_version profile) profile D)
    | None \<Rightarrow> Inr (profile, dset (pp_policy_version profile) profile D))"

definition profile_get :: "profile_repo \<Rightarrow> string \<Rightarrow> policy_profile_record option" where
  "profile_get D v = dget D v"

subsection \<open>Chains\<close>

text \<open>Consecutive versions, starting anywhere from 1: pruning moves the start.\<close>

definition chain_ok :: "(run_checkpoint \<times> bool) list \<Rightarrow> bool" where
  "chain_ok rows \<longleftrightarrow> (\<exists>v \<ge> 1. \<forall>k < length rows. ck_version (fst (rows ! k)) = v + int k)"

lemma chain_ok_Nil [simp]: "chain_ok []"
  by (auto simp: chain_ok_def)

lemma chain_ok_write:
  assumes "chain_ok rows" and "ck_version c = expected_version rows"
  shows "chain_ok (rows @ [(c, full)])"
proof (cases "rows = []")
  case True
  then show ?thesis using assms(2) by (auto simp: chain_ok_def expected_version_def)
next
  case False
  obtain v where v: "1 \<le> v" "\<forall>k < length rows. ck_version (fst (rows ! k)) = v + int k"
    using assms(1) by (auto simp: chain_ok_def)
  then have "ck_version c = v + int (length rows)"
    using False assms(2) spec [OF v(2), of "length rows - 1"]
    by (cases rows rule: rev_cases) (simp_all add: expected_version_def)
  with v show ?thesis by (auto simp: chain_ok_def nth_append less_Suc_eq)
qed

lemma chain_ok_drop: "chain_ok rows \<Longrightarrow> chain_ok (drop n rows)"
proof (cases "n < length rows")
  case True
  assume "chain_ok rows"
  then obtain v where "1 \<le> v" "\<forall>k < length rows. ck_version (fst (rows ! k)) = v + int k"
    by (auto simp: chain_ok_def)
  then show ?thesis
    unfolding chain_ok_def by (intro exI [of _ "v + int n"]) simp
qed simp

lemma latest_full_Some:
  assumes "latest_full rows = Some k"
  shows "k < length rows \<and> snd (rows ! k) \<and> (\<forall>j. k < j \<longrightarrow> j < length rows \<longrightarrow> \<not> snd (rows ! j))"
proof -
  obtain i where i: "i < length rows" "snd (rows ! (rev [0..<length rows] ! i))"
      "k = rev [0..<length rows] ! i" "\<forall>j < i. \<not> snd (rows ! (rev [0..<length rows] ! j))"
    using assms by (auto simp: latest_full_def find_Some_iff)
  have rev_at: "rev [0..<length rows] ! m = length rows - Suc m" if "m < length rows" for m
    using that by (simp add: rev_nth)
  have "\<not> snd (rows ! j)" if "k < j" "j < length rows" for j
  proof -
    have "length rows - Suc j < i" using that i(1,3) rev_at [OF i(1)] by simp
    then have "\<not> snd (rows ! (rev [0..<length rows] ! (length rows - Suc j)))" using i(4) by blast
    then show ?thesis using that by (simp add: rev_at)
  qed
  then show ?thesis using i(1-3) rev_at [OF i(1)] by simp
qed

subsection \<open>Steps of the checkpoint repository\<close>

inductive checkpoint_step :: "checkpoint_repo \<Rightarrow> checkpoint_repo \<Rightarrow> bool" where
  cstep_write: "checkpoint_write C i c full l = Inr (v, C') \<Longrightarrow> checkpoint_step C C'"
| cstep_prune: "checkpoint_prune C i t = Inr (n, C') \<Longrightarrow> checkpoint_step C C'"
| cstep_delete: "delete_nonterminal C i = Inr (n, C') \<Longrightarrow> checkpoint_step C C'"
| cstep_erase: "erase_checkpoints C runs at_time = (n, C') \<Longrightarrow> checkpoint_step C C'"

lemma chain_dset [simp]:
  "chain (C\<lparr> cr_checkpoints := dset i rows (cr_checkpoints C) \<rparr>) j = (if j = i then rows else chain C j)"
  by (simp add: chain_def)

lemma chain_ddel [simp]:
  "chain (C\<lparr> cr_checkpoints := ddel i (cr_checkpoints C) \<rparr>) j = (if j = i then [] else chain C j)"
  by (simp add: chain_def)

lemma dget_fold_ddel: "dget (fold ddel is d) j = (if j \<in> set is then None else dget d j)"
  by (induction "is" arbitrary: d) auto

lemma chain_erase:
  "chain (snd (erase_checkpoints C runs t)) j = (if j \<in> set runs then [] else chain C j)"
  by (simp add: chain_def erase_checkpoints_def dget_fold_ddel)

lemma dget_fence_runs: "dget (fence_runs t is d) j = (case dget d j of
    Some u \<Rightarrow> Some u | None \<Rightarrow> if j \<in> set is then Some t else None)"
  by (induction "is" arbitrary: d) (auto simp: dhas_iff split: option.splits)

lemma dhas_fence_runs [simp]: "dhas (fence_runs t is d) j \<longleftrightarrow> dhas d j \<or> j \<in> set is"
  by (auto simp: dhas_iff dget_fence_runs split: option.splits)

lemma checkpoint_write_change:
  assumes "checkpoint_write C i c full l = Inr (v, C')"
  shows "v = ck_version c \<and> cr_people_erased C' = cr_people_erased C
    \<and> (dhas (cr_people_erased C) i \<and> C' = C \<and> ck_status c \<in> TERMINAL_RUN_STATUSES
       \<or> \<not> dhas (cr_people_erased C) i \<and> ck_version c = expected_version (chain C i)
         \<and> (\<forall>j. chain C' j = (if j = i then chain C i @ [(c, full)] else chain C j)))"
  using assms by (auto simp: checkpoint_write_def Let_def split: if_splits)

lemma checkpoint_prune_change:
  assumes "checkpoint_prune C i t = Inr (n, C')"
  shows "cr_people_erased C' = cr_people_erased C \<and> chain C' i = drop n (chain C i)
    \<and> (\<forall>j. j \<noteq> i \<longrightarrow> chain C' j = chain C j)
    \<and> (if length (chain C i) \<le> 1 then n = 0 else n < length (chain C i) \<and> snd (chain C i ! n)
         \<and> (\<forall>j. n < j \<longrightarrow> j < length (chain C i) \<longrightarrow> \<not> snd (chain C i ! j))
         \<and> (t \<longrightarrow> n = length (chain C i) - 1 \<and> ck_status (fst (last (chain C i))) \<in> TERMINAL_RUN_STATUSES))"
proof (cases "length (chain C i) \<le> 1")
  case True
  with assms show ?thesis by (auto simp: checkpoint_prune_def Let_def)
next
  case False
  then obtain k where k: "latest_full (chain C i) = Some k"
    using assms by (auto simp: checkpoint_prune_def Let_def split: option.splits)
  define rows where "rows = chain C i"
  have "rows \<noteq> []" and long: "1 < length rows" using False by (auto simp: rows_def)
  then have last_nth: "last rows = rows ! (length rows - 1)" by (simp add: last_conv_nth)
  show ?thesis
    using assms False k latest_full_Some [OF k] long last_nth
    by (auto simp: checkpoint_prune_def Let_def case_prod_unfold rows_def [symmetric] split: if_splits)
qed

lemma delete_nonterminal_change:
  assumes "delete_nonterminal C i = Inr (n, C')"
  shows "cr_people_erased C' = cr_people_erased C
    \<and> (\<forall>j. chain C' j = (if j = i then [] else chain C j))"
  using assms by (auto simp: delete_nonterminal_def Let_def split: if_splits)

text \<open>Every stored chain is contiguous, and an erased run has none.\<close>

definition checkpoint_inv :: "checkpoint_repo \<Rightarrow> bool" where
  "checkpoint_inv C \<longleftrightarrow> (\<forall>i. chain_ok (chain C i) \<and> (dhas (cr_people_erased C) i \<longrightarrow> chain C i = []))"

lemma checkpoint_inv_step:
  assumes "checkpoint_step C C'" and "checkpoint_inv C"
  shows "checkpoint_inv C'"
  using assms
proof (cases rule: checkpoint_step.cases)
  case (cstep_write i c full l v)
  then show ?thesis
    using assms(2) checkpoint_write_change [OF cstep_write]
    by (auto simp: checkpoint_inv_def chain_ok_write)
next
  case (cstep_prune i t n)
  have "chain_ok (chain C' j) \<and> (dhas (cr_people_erased C') j \<longrightarrow> chain C' j = [])" for j
    using assms(2) checkpoint_prune_change [OF cstep_prune]
    by (cases "j = i") (auto simp: checkpoint_inv_def chain_ok_drop)
  then show ?thesis by (simp add: checkpoint_inv_def)
next
  case (cstep_delete i n)
  then show ?thesis
    using assms(2) delete_nonterminal_change [OF cstep_delete] by (auto simp: checkpoint_inv_def)
next
  case (cstep_erase runs t n)
  then have C': "C' = snd (erase_checkpoints C runs t)" by simp
  show ?thesis
    using assms(2) unfolding checkpoint_inv_def C' chain_erase
    by (simp add: erase_checkpoints_def)
qed

lemma checkpoint_inv_reachable: "checkpoint_step\<^sup>*\<^sup>* empty_checkpoint_repo C \<Longrightarrow> checkpoint_inv C"
proof (induction rule: rtranclp_induct)
  case base
  then show ?case by (simp add: checkpoint_inv_def empty_checkpoint_repo_def chain_def dhas_def)
qed (rule checkpoint_inv_step)

lemma checkpoint_fence_kept:
  "checkpoint_step C C' \<Longrightarrow> dhas (cr_people_erased C) i \<Longrightarrow> dhas (cr_people_erased C') i"
  by (erule checkpoint_step.cases)
    (auto simp: erase_checkpoints_def dest!: checkpoint_write_change checkpoint_prune_change
      delete_nonterminal_change)

lemma checkpoint_fence_reachable:
  "checkpoint_step\<^sup>*\<^sup>* C C' \<Longrightarrow> dhas (cr_people_erased C) i \<Longrightarrow> dhas (cr_people_erased C') i"
  by (induction rule: rtranclp_induct) (auto dest: checkpoint_fence_kept)

subsection \<open>Properties of checkpoints\<close>

definition sample_checkpoint :: "int \<Rightarrow> run_status \<Rightarrow> run_checkpoint" where
  "sample_checkpoint v status = \<lparr> ck_run_id = 1, ck_version = v, ck_status = status,
     ck_conversation = [], ck_pending_tool_calls = [], ck_pending_approval_ids = [],
     ck_tool_pins_initialized = False, ck_pinned_tool_names = [], ck_pinned_tool_versions = [],
     ck_pinned_tool_specs = [], ck_working_state = [], ck_loaded_skills = [],
     ck_compacted_summary = None, ck_summary_source_event_ids = [], ck_summary_elided = [],
     ck_replaced_through_sequence = 0, ck_summary_depth = 0, ck_compactor_version = None,
     ck_budget_state = [], ck_recall_work = None, ck_last_event_sequence = 0,
     ck_provider_continuation = None, ck_provider_pin = None,
     ck_context_origin_trust = Trust_USER, ck_created_at = 0 \<rparr>"

definition sample_checkpoints :: checkpoint_repo where
  "sample_checkpoints = \<lparr> cr_checkpoints = [(1, [(sample_checkpoint 1 Run_RUNNING, True),
     (sample_checkpoint 2 Run_RUNNING, True), (sample_checkpoint 3 Run_RUNNING, False)])],
     cr_people_erased = [] \<rparr>"

lemma sample_checkpoints_reachable: "checkpoint_step\<^sup>*\<^sup>* empty_checkpoint_repo sample_checkpoints"
proof -
  define C1 where "C1 = empty_checkpoint_repo\<lparr> cr_checkpoints := [(1, [(sample_checkpoint 1 Run_RUNNING, True)])] \<rparr>"
  define C2 where "C2 = C1\<lparr> cr_checkpoints := [(1, [(sample_checkpoint 1 Run_RUNNING, True),
     (sample_checkpoint 2 Run_RUNNING, True)])] \<rparr>"
  have "checkpoint_write empty_checkpoint_repo 1 (sample_checkpoint 1 Run_RUNNING) True None = Inr (1, C1)"
    by (simp add: checkpoint_write_def C1_def empty_checkpoint_repo_def chain_def dhas_def
        expected_version_def sample_checkpoint_def)
  moreover have "checkpoint_write C1 1 (sample_checkpoint 2 Run_RUNNING) True None = Inr (2, C2)"
    by (simp add: checkpoint_write_def C1_def C2_def empty_checkpoint_repo_def chain_def dhas_def
        expected_version_def sample_checkpoint_def)
  moreover have "checkpoint_write C2 1 (sample_checkpoint 3 Run_RUNNING) False None = Inr (3, sample_checkpoints)"
    by (simp add: checkpoint_write_def C1_def C2_def empty_checkpoint_repo_def chain_def dhas_def
        expected_version_def sample_checkpoint_def sample_checkpoints_def)
  ultimately show ?thesis
    by (blast intro: cstep_write rtranclp.rtrancl_into_rtrancl rtranclp.rtrancl_refl)
qed

text \<open>
  C14. Pruning never loses the state a run resumes from. In every reachable state the versions of a
  run's chain are consecutive. A pruning that succeeds removes exactly a prefix of the chain, reports
  its length, and leaves the latest checkpoint, the version the next write must carry, and every
  other run's chain as they were. A chain of two or more checkpoints is cut at its newest full
  snapshot, so what remains starts with a full snapshot and holds no other one; for a terminal run a
  single full, terminal checkpoint remains.
\<close>

theorem checkpoint_prune_keeps_resume_point:
  assumes "checkpoint_step\<^sup>*\<^sup>* empty_checkpoint_repo C" and "checkpoint_prune C i terminal = Inr (n, C')"
  shows "chain_ok (chain C i) \<and> chain C' i = drop n (chain C i)
    \<and> checkpoint_latest C' i = checkpoint_latest C i
    \<and> expected_version (chain C' i) = expected_version (chain C i)
    \<and> (\<forall>j. j \<noteq> i \<longrightarrow> chain C' j = chain C j)
    \<and> (2 \<le> length (chain C i) \<longrightarrow> snd (hd (chain C' i)) \<and> (\<forall>row \<in> set (tl (chain C' i)). \<not> snd row))
    \<and> (2 \<le> length (chain C i) \<and> terminal \<longrightarrow>
         (\<exists>c. chain C' i = [(c, True)] \<and> ck_status c \<in> TERMINAL_RUN_STATUSES))"
proof -
  have inv: "chain_ok (chain C i)"
    using checkpoint_inv_reachable [OF assms(1)] by (simp add: checkpoint_inv_def)
  define rows where "rows = chain C i"
  note change = checkpoint_prune_change [OF assms(2), folded rows_def]
  show ?thesis
  proof (cases "length rows \<le> 1")
    case True
    then have "n = 0" using change by simp
    with change inv True show ?thesis by (auto simp: checkpoint_latest_def rows_def)
  next
    case False
    with change have n: "n < length rows" "snd (rows ! n)"
        "\<forall>j. n < j \<longrightarrow> j < length rows \<longrightarrow> \<not> snd (rows ! j)" by simp_all
    then have tl: "tl (drop n rows) = drop (Suc n) rows" and hd: "hd (drop n rows) = rows ! n"
      by (simp_all add: drop_Suc tl_drop hd_drop_conv_nth)
    have rest: "\<not> snd row" if "row \<in> set (drop (Suc n) rows)" for row
      using that n(3) by (auto simp: in_set_conv_nth)
    have single: "\<exists>c. drop n rows = [(c, True)] \<and> ck_status c \<in> TERMINAL_RUN_STATUSES" if terminal
    proof -
      have "n = length rows - 1" "ck_status (fst (last rows)) \<in> TERMINAL_RUN_STATUSES"
        using change False that by simp_all
      moreover have last: "last rows = rows ! (length rows - 1)" using n(1) by (cases rows) (simp_all add: last_conv_nth)
      moreover from calculation n(1) have "drop n rows = [last rows]"
        by (simp add: Cons_nth_drop_Suc [symmetric])
      moreover have "snd (last rows)" using n(2) calculation(1) last by simp
      ultimately show ?thesis by (intro exI [of _ "fst (last rows)"]) (simp add: prod_eq_iff)
    qed
    have "rows \<noteq> []" using n(1) by auto
    then show ?thesis
      using change inv n(1,2) tl hd rest single False
      by (simp add: rows_def [symmetric] checkpoint_latest_def expected_version_def)
  qed
qed

theorem checkpoint_prune_keeps_resume_point_witness:
  "\<exists>C'. checkpoint_prune sample_checkpoints 1 False = Inr (1, C')
     \<and> checkpoint_latest C' 1 = Some (sample_checkpoint 3 Run_RUNNING)"
proof -
  define C' where "C' = snd (case checkpoint_prune sample_checkpoints 1 False of Inr r \<Rightarrow> r)"
  have p: "checkpoint_prune sample_checkpoints 1 False = Inr (1, C')"
    by (simp add: C'_def checkpoint_prune_def sample_checkpoints_def chain_def latest_full_def
        upt_rec [of 0] upt_rec [of 1] upt_rec [of 2])
  then show ?thesis
    using checkpoint_prune_keeps_resume_point [OF sample_checkpoints_reachable p]
    by (simp add: checkpoint_latest_def sample_checkpoints_def chain_def)
qed

text \<open>
  Erasing people data removes a run's checkpoints for good: after the erasure no sequence of
  writes, prunings, deletions and further erasures brings a checkpoint back, a write of a resumable
  state is refused, and a finishing run's terminal write reports its version without storing anything.
\<close>

theorem checkpoint_erased_for_good:
  assumes "checkpoint_step\<^sup>*\<^sup>* empty_checkpoint_repo C"
    and "erase_checkpoints C runs erased_at = (n, C1)" and "i \<in> set runs"
    and "checkpoint_step\<^sup>*\<^sup>* C1 C2"
  shows "checkpoint_latest C2 i = None
    \<and> checkpoint_write C2 i c full None =
        (if ck_status c \<in> TERMINAL_RUN_STATUSES then Inr (ck_version c, C2)
         else Inl (RunCancelledError ''People erasure fenced checkpoint writes''))"
proof -
  have "checkpoint_step C C1" using assms(2) by (rule cstep_erase)
  then have "checkpoint_inv C2"
    using assms(1,4) by (blast intro: checkpoint_inv_reachable rtranclp_trans r_into_rtranclp)
  moreover have "dhas (cr_people_erased C2) i"
  proof (rule checkpoint_fence_reachable [OF assms(4)])
    show "dhas (cr_people_erased C1) i"
      using assms(2,3) by (auto simp: erase_checkpoints_def)
  qed
  ultimately show ?thesis
    by (simp add: checkpoint_inv_def checkpoint_latest_def checkpoint_write_def)
qed

theorem checkpoint_erased_for_good_witness:
  "checkpoint_latest (snd (erase_checkpoints sample_checkpoints [1] 50)) 1 = None"
  using checkpoint_erased_for_good [OF sample_checkpoints_reachable, of "[1]" 50 _ _ 1,
      OF prod.collapse [symmetric], OF _ rtranclp.rtrancl_refl] by simp

subsection \<open>Properties of idempotency records\<close>

text \<open>Creations whose clock reads before the instant \<open>d\<close>.\<close>

definition create_before :: "instant \<Rightarrow> idempotency_repo \<Rightarrow> idempotency_repo \<Rightarrow> bool" where
  "create_before d I J \<longleftrightarrow> (\<exists>now r x. now < d \<and> idempotency_create I now r = Inr (x, J))"

lemma idempotency_create_result:
  "idempotency_create I now r = Inr (x, J) \<Longrightarrow> dget J (scoped_key r) = Some x
     \<and> ir_request_hash x = ir_request_hash r"
  by (auto simp: idempotency_create_def Let_def split: option.splits if_splits)

lemma idempotency_create_keeps:
  assumes "idempotency_create I now r = Inr (x, J)" and "dget I k = Some old" and "now < ir_expires_at old"
  shows "dget J k = Some old"
  using assms by (auto simp: idempotency_create_def Let_def split: option.splits if_splits)

lemma idempotency_live_kept:
  "(create_before d)\<^sup>*\<^sup>* I J \<Longrightarrow> dget I k = Some old \<Longrightarrow> d \<le> ir_expires_at old \<Longrightarrow> dget J k = Some old"
  by (induction rule: rtranclp_induct)
    (auto simp: create_before_def dest!: idempotency_create_keeps)

text \<open>
  An idempotency key names one request until it expires. Once a record was created, then as
  long as every clock reading lies before its expiry, whatever else is created in between, a lookup
  under its key, tenant and principal finds it; a repetition of the request is answered with it and
  changes nothing; and the same key with another request hash is a conflict.
\<close>

theorem idempotency_key_first_request:
  assumes "idempotency_create I t r = Inr (x, I1)" and "(create_before (ir_expires_at x))\<^sup>*\<^sup>* I1 I2"
    and "now < ir_expires_at x" and "scoped_key r' = scoped_key r"
  shows "idempotency_get I2 now (ir_key r) (ir_tenant_id r) (ir_principal_id r) = Some x
    \<and> idempotency_create I2 now r' =
        (if ir_request_hash r' = ir_request_hash r then Inr (x, I2)
         else Inl (ConflictError ''idempotency key was reused with a different request'' None))"
proof -
  note stored = idempotency_create_result [OF assms(1)]
  have live: "dget I2 (scoped_key r) = Some x"
    using idempotency_live_kept [OF assms(2) conjunct1 [OF stored]] by simp
  then show ?thesis
    using assms(3,4) stored
    by (auto simp: idempotency_get_def idempotency_create_def scoped_key_def Let_def)
qed

definition sample_idempotency :: idempotency_record where
  "sample_idempotency = \<lparr> ir_key = ''k'', ir_tenant_id = ''t'', ir_principal_id = ''alice'',
     ir_request_hash = ''h'', ir_run_id = 1, ir_created_at = 0, ir_expires_at = 100 \<rparr>"

theorem idempotency_key_first_request_witness:
  "idempotency_get [(scoped_key sample_idempotency, sample_idempotency)] 50 ''k'' ''t'' ''alice''
     = Some sample_idempotency"
proof -
  have "idempotency_create [] 0 sample_idempotency
      = Inr (sample_idempotency, [(scoped_key sample_idempotency, sample_idempotency)])"
    by (simp add: idempotency_create_def)
  from idempotency_key_first_request [OF this rtranclp.rtrancl_refl, of 50 sample_idempotency]
  show ?thesis by (simp add: sample_idempotency_def)
qed

subsection \<open>Properties of policy versions\<close>

definition profile_step :: "profile_repo \<Rightarrow> profile_repo \<Rightarrow> bool" where
  "profile_step D D' \<longleftrightarrow> (\<exists>profile stored. profile_record D profile = Inr (stored, D'))"

lemma profile_record_keeps:
  "profile_record D r = Inr (x, D') \<Longrightarrow> dget D k = Some y \<Longrightarrow> dget D' k = Some y"
  by (auto simp: profile_record_def split: option.splits if_splits)

interpretation policy_versions: first_writer_wins profile_get pp_policy_version profile_record profile_step
proof
  fix s r x s' k y
  show "profile_get s' (pp_policy_version r) = Some x" if "profile_record s r = Inr (x, s')"
    using that by (auto simp: profile_record_def profile_get_def split: option.splits if_splits)
  show "profile_step s s'" if "profile_record s r = Inr (x, s')"
    using that by (auto simp: profile_step_def)
  show "profile_get s' k = Some y" if "profile_step s s'" "profile_get s k = Some y"
    using that by (auto simp: profile_step_def profile_get_def dest: profile_record_keeps)
qed

text \<open>
  A policy version names one set of rules for ever: after a profile was recorded, any later
  sequence of recordings leaves it stored exactly as it was, and recording the version again returns
  the first record when the rules are the same and is refused when they differ, so an audit that reads
  a decision's policy version finds the rules that decided it.
\<close>

theorem policy_version_immutable:
  assumes "profile_record D profile = Inr (stored, D1)" and "profile_step\<^sup>*\<^sup>* D1 D2"
    and "pp_policy_version other = pp_policy_version profile"
  shows "profile_get D2 (pp_policy_version profile) = Some stored \<and> same_rules stored profile
    \<and> profile_record D2 other =
        (if same_rules stored other then Inr (stored, D2)
         else Inl (ConflictError ''policy version identifies different rules'' None))"
proof -
  have kept: "profile_get D2 (pp_policy_version profile) = Some stored"
    using policy_versions.first_kept [OF assms(2) policy_versions.put_result [OF assms(1)]] .
  moreover have "same_rules stored profile"
    using assms(1) by (auto simp: profile_record_def same_rules_def split: option.splits if_splits)
  moreover have "dset (pp_policy_version profile) stored D2 = D2"
    using kept by (simp add: profile_get_def update_triv)
  ultimately show ?thesis
    using assms(3) by (auto simp: profile_record_def profile_get_def same_rules_def)
qed

definition sample_profile_record :: policy_profile_record where
  "sample_profile_record = \<lparr> pp_policy_version = ''v1'', pp_profile_name = ''default'',
     pp_profile_sha256 = ''a'', pp_hardline_sha256 = ''b'', pp_rule_count = 3, pp_loaded_at = 0,
     pp_loaded_by = ''boot'' \<rparr>"

theorem policy_version_immutable_witness:
  "profile_record [(''v1'', sample_profile_record)] (sample_profile_record\<lparr> pp_rule_count := 4 \<rparr>)
     = Inl (ConflictError ''policy version identifies different rules'' None)"
proof -
  have "profile_record [] sample_profile_record
      = Inr (sample_profile_record, [(''v1'', sample_profile_record)])"
    by (simp add: profile_record_def sample_profile_record_def)
  from policy_version_immutable [OF this rtranclp.rtrancl_refl,
      of "sample_profile_record\<lparr> pp_rule_count := 4 \<rparr>"]
  show ?thesis by (simp add: same_rules_def sample_profile_record_def)
qed

end
