(* ===== verification/Artifacts.thy ===== *)
theory Artifacts
  imports Checkpoints
begin

text \<open>
  Artifacts, their retention and their erasure: the values and rules of \<open>domain/artifacts.py\<close> and
  \<open>domain/trajectory.py\<close>; \<open>InMemoryArtifactRepository\<close>, \<open>InMemoryTrajectoryExportRepository\<close> and
  \<open>InMemoryExportConsentRepository\<close> of \<open>adapters/persistence/memory.py\<close>; the part of
  \<open>erase_memory_copies_locked\<close> (\<open>adapters/persistence/people_erasure.py\<close>) that touches artifacts and
  exports; and the choice of a reply's files in \<open>complete_reply\<close> of \<open>runtime/loop.py\<close>. The ISO
  timestamp reader \<open>datetime.fromisoformat\<close> is an argument, with \<open>None\<close> for the \<open>ValueError\<close> the code
  catches.
\<close>

subsection \<open>Values\<close>

datatype artifact_origin =
    SANDBOX_EXPORT | TOOL_OUTPUT | MODEL_OUTPUT | UPLOAD | TRAJECTORY_EXPORT | KNOWLEDGE_SOURCE
  | EMAIL_ATTACHMENT

definition REPLY_ATTACHMENT_ORIGINS :: "artifact_origin set" where
  "REPLY_ATTACHMENT_ORIGINS = {SANDBOX_EXPORT, MODEL_OUTPUT, EMAIL_ATTACHMENT}"

definition AUTO_INGEST_ORIGINS :: "artifact_origin set" where
  "AUTO_INGEST_ORIGINS = {UPLOAD, EMAIL_ATTACHMENT}"

record artifact_ref =
  ar_id :: uuid
  ar_tenant_id :: string
  ar_principal_id :: string
  ar_session_id :: uuid
  ar_run_id :: "uuid option"
  ar_name :: string
  ar_media_type :: string
  ar_storage_uri :: string
  ar_sha256 :: string
  ar_size_bytes :: int
  ar_origin :: artifact_origin
  ar_trust :: trust_level
  ar_expires_at :: "instant option"
  ar_created_at :: instant
  ar_metadata :: document

text \<open>The validator \<open>_run_required_outside_uploads\<close>.\<close>

definition run_required_outside_uploads :: "artifact_ref \<Rightarrow> artifact_ref res" where
  "run_required_outside_uploads a =
     (if ar_run_id a = None \<and> ar_origin a \<notin> {UPLOAD, KNOWLEDGE_SOURCE}
      then Inl (ValueError ''only an upload or a knowledge source may have no run'') else Inr a)"

record file_reference_part =
  fr_artifact_id :: uuid
  fr_media_type :: string
  fr_filename :: "string option"
  fr_size_bytes :: "int option"
  fr_page_count :: "int option"

definition reply_file_reference :: "artifact_ref \<Rightarrow> file_reference_part" where
  "reply_file_reference a = \<lparr> fr_artifact_id = ar_id a, fr_media_type = ar_media_type a,
     fr_filename = Some (ar_name a), fr_size_bytes = Some (ar_size_bytes a),
     fr_page_count = None \<rparr>"

subsection \<open>Rules over artifact metadata\<close>

text \<open>The message a saved file was copied from.\<close>

definition saved_from :: "document \<Rightarrow> string option" where
  "saved_from metadata = (case dget metadata ''email_source'' of
      Some (JObj source) \<Rightarrow> (case dget source ''message_id'' of
          Some (JStr m) \<Rightarrow> if m \<noteq> [] then Some m else None
        | _ \<Rightarrow> None)
    | _ \<Rightarrow> None)"

definition outlives_source_erasure :: "document \<Rightarrow> string set \<Rightarrow> bool" where
  "outlives_source_erasure metadata message_ids = (case saved_from metadata of
      None \<Rightarrow> False | Some m \<Rightarrow> m \<notin> message_ids)"

definition expired_by :: "artifact_ref \<Rightarrow> instant \<Rightarrow> bool" where
  "expired_by a now = (case ar_expires_at a of None \<Rightarrow> False | Some e \<Rightarrow> e \<le> now)"

definition attachment_key :: "artifact_ref \<Rightarrow> string \<times> string \<times> string option" where
  "attachment_key a = (ar_name a, ar_sha256 a, saved_from (ar_metadata a))"

fun choose_attachments ::
    "instant \<Rightarrow> (string \<times> string \<times> string option) list \<Rightarrow> artifact_ref list \<Rightarrow> artifact_ref list" where
  "choose_attachments now seen [] = []"
| "choose_attachments now seen (a # rest) =
     (if ar_origin a \<notin> REPLY_ATTACHMENT_ORIGINS \<or> attachment_key a \<in> set seen \<or> expired_by a now
      then choose_attachments now seen rest
      else a # choose_attachments now (attachment_key a # seen) rest)"

definition reply_attachments :: "artifact_ref list \<Rightarrow> instant \<Rightarrow> artifact_ref list" where
  "reply_attachments artifacts now =
     choose_attachments now [] (sort_key (\<lambda>a. (ar_created_at a, ar_id a)) artifacts)"

text \<open>The first claim binds the run and ends the expiry.\<close>

definition claimed_upload :: "artifact_ref \<Rightarrow> uuid \<Rightarrow> bool \<Rightarrow> artifact_ref" where
  "claimed_upload a run_id auto_ingest =
     (let a1 = (if ar_run_id a = None
                then (let b = a\<lparr> ar_run_id := Some run_id \<rparr>
                      in if ar_origin a = UPLOAD then b\<lparr> ar_expires_at := None \<rparr> else b)
                else a)
      in if auto_ingest \<and> \<not> dhas (ar_metadata a) ''auto_ingest''
         then a1\<lparr> ar_metadata := dset ''auto_ingest'' (JStr ''pending'') (ar_metadata a) \<rparr>
         else a1)"

definition retry_refusal :: "artifact_ref \<Rightarrow> string option" where
  "retry_refusal a =
     (if ar_origin a \<notin> AUTO_INGEST_ORIGINS then Some ''only a chat upload can be retried''
      else let state = dget (ar_metadata a) ''auto_ingest'' in
        if state = Some (JStr ''failed'') \<or> state = Some (JStr ''refused'') then None
        else if state = Some (JStr ''ingested'') then Some ''the upload is already in knowledge''
        else Some ''the upload is still pending ingestion'')"

definition auto_ingest_due :: "(string \<Rightarrow> instant option) \<Rightarrow> document \<Rightarrow> instant \<Rightarrow> bool" where
  "auto_ingest_due fromisoformat metadata now = (case dget metadata ''auto_ingest_not_before'' of
      Some (JStr recorded) \<Rightarrow>
        (case fromisoformat recorded of Some t \<Rightarrow> t \<le> now | None \<Rightarrow> True)
    | _ \<Rightarrow> True)"

definition auto_ingest_metadata ::
    "document \<Rightarrow> string \<Rightarrow> string option \<Rightarrow> int \<Rightarrow> string option \<Rightarrow> document" where
  "auto_ingest_metadata metadata state reason attempts not_before =
     (let m0 = filter (\<lambda>(k, _). k \<notin> {''auto_ingest_reason'', ''auto_ingest_attempts'',
                                      ''auto_ingest_not_before''}) metadata;
          m1 = dset ''auto_ingest'' (JStr state) m0;
          m2 = (case reason of None \<Rightarrow> m1 | Some r \<Rightarrow> dset ''auto_ingest_reason'' (JStr r) m1);
          m3 = (if attempts \<noteq> 0 then dset ''auto_ingest_attempts'' (JInt attempts) m2 else m2)
      in (case not_before of None \<Rightarrow> m3
          | Some t \<Rightarrow> dset ''auto_ingest_not_before'' (JStr t) m3))"

subsection \<open>The artifact repository\<close>

record artifact_repo =
  ax_rows :: "(uuid, artifact_ref) dict"
  ax_people_erased :: "(uuid, instant) dict"

definition empty_artifact_repo :: artifact_repo where
  "empty_artifact_repo = \<lparr> ax_rows = [], ax_people_erased = [] \<rparr>"

abbreviation artifact_missing :: error where
  "artifact_missing \<equiv> NotFoundError ''artifact not found''"

definition artifact_owner :: "artifact_ref \<Rightarrow> string \<times> string" where
  "artifact_owner a = (ar_tenant_id a, ar_principal_id a)"

text \<open>The instant at which the run of an artifact was erased, if it was.\<close>

definition erased_at_of :: "artifact_repo \<Rightarrow> artifact_ref \<Rightarrow> instant option" where
  "erased_at_of A a = (case ar_run_id a of
      None \<Rightarrow> None | Some i \<Rightarrow> if ar_origin a = UPLOAD then None else dget (ax_people_erased A) i)"

definition artifact_create :: "artifact_repo \<Rightarrow> artifact_ref \<Rightarrow> (artifact_ref \<times> artifact_repo) res" where
  "artifact_create A artifact =
     (let a = (case erased_at_of A artifact of
                 None \<Rightarrow> artifact | Some t \<Rightarrow> artifact\<lparr> ar_expires_at := Some t \<rparr>)
      in if (case dget (ax_rows A) (ar_id a) of None \<Rightarrow> False | Some existing \<Rightarrow> existing \<noteq> a)
         then Inl (ConflictError ''artifact id already exists with different metadata'' None)
         else Inr (a, A\<lparr> ax_rows := dset (ar_id a) a (ax_rows A) \<rparr>))"

definition artifact_exists :: "artifact_repo \<Rightarrow> uuid \<Rightarrow> bool" where
  "artifact_exists A i = dhas (ax_rows A) i"

definition artifact_get :: "artifact_repo \<Rightarrow> uuid \<Rightarrow> principal \<Rightarrow> artifact_ref res" where
  "artifact_get A i p = (case dget (ax_rows A) i of
      Some a \<Rightarrow> if ar_tenant_id a = tenant_id p \<and> ar_principal_id a = principal_id p
                then Inr a else Inl artifact_missing
    | None \<Rightarrow> Inl artifact_missing)"

definition artifact_list_for_run :: "artifact_repo \<Rightarrow> uuid \<Rightarrow> principal \<Rightarrow> artifact_ref list" where
  "artifact_list_for_run A run_id p =
     sort_key (\<lambda>a. (ar_created_at a, ar_id a))
       (filter (\<lambda>a. ar_run_id a = Some run_id \<and> ar_tenant_id a = tenant_id p
          \<and> ar_principal_id a = principal_id p) (dvals (ax_rows A)))"

definition retain_for_knowledge ::
    "artifact_repo \<Rightarrow> uuid \<Rightarrow> principal \<Rightarrow> instant option \<Rightarrow> artifact_ref option \<Rightarrow>
       (artifact_ref \<times> artifact_repo) res" where
  "retain_for_knowledge A i p now unchanged_from = (case dget (ax_rows A) i of
      None \<Rightarrow> Inl artifact_missing
    | Some a \<Rightarrow>
        if ar_tenant_id a \<noteq> tenant_id p \<or> ar_principal_id a \<noteq> principal_id p
           \<or> (case now of None \<Rightarrow> False | Some n \<Rightarrow> expired_by a n)
           \<or> (case unchanged_from of None \<Rightarrow> False | Some u \<Rightarrow> ar_expires_at a \<noteq> ar_expires_at u)
        then Inl artifact_missing
        else if erased_at_of A a \<noteq> None
        then Inl (RunCancelledError ''People erasure fenced knowledge retention'')
        else let r = a\<lparr> ar_origin := KNOWLEDGE_SOURCE, ar_expires_at := None \<rparr>
             in Inr (r, A\<lparr> ax_rows := dset i r (ax_rows A) \<rparr>))"

text \<open>\<open>dict.fromkeys\<close>: the first occurrence of every item.\<close>

definition unique_keys :: "'a list \<Rightarrow> 'a list" where
  "unique_keys xs = rev (remdups (rev xs))"

fun retained_rows ::
    "artifact_repo \<Rightarrow> principal \<Rightarrow> uuid \<Rightarrow> uuid list \<Rightarrow> artifact_ref list res" where
  "retained_rows A p run_id [] = Inr []"
| "retained_rows A p run_id (i # is) = (case dget (ax_rows A) i of
      None \<Rightarrow> Inl artifact_missing
    | Some a \<Rightarrow>
        if ar_tenant_id a \<noteq> tenant_id p \<or> ar_principal_id a \<noteq> principal_id p
           \<or> ar_run_id a \<noteq> Some run_id \<or> ar_origin a \<notin> REPLY_ATTACHMENT_ORIGINS
        then Inl artifact_missing
        else rbind (retained_rows A p run_id is) (\<lambda>rest. Inr (a\<lparr> ar_expires_at := None \<rparr> # rest)))"

definition store_rows :: "artifact_ref list \<Rightarrow> (uuid, artifact_ref) dict \<Rightarrow> (uuid, artifact_ref) dict" where
  "store_rows as d = fold (\<lambda>a. dset (ar_id a) a) as d"

definition retain_for_reply ::
    "artifact_repo \<Rightarrow> uuid list \<Rightarrow> principal \<Rightarrow> uuid \<Rightarrow> (artifact_ref list \<times> artifact_repo) res" where
  "retain_for_reply A ids p run_id =
     (if dhas (ax_people_erased A) run_id
      then Inl (RunCancelledError ''People erasure fenced reply attachments'')
      else rbind (retained_rows A p run_id (unique_keys ids)) (\<lambda>retained.
        Inr (retained, A\<lparr> ax_rows := store_rows retained (ax_rows A) \<rparr>)))"

definition artifact_expire ::
    "artifact_repo \<Rightarrow> uuid \<Rightarrow> principal \<Rightarrow> instant \<Rightarrow> (artifact_ref \<times> artifact_repo) res" where
  "artifact_expire A i p expired_at = (case dget (ax_rows A) i of
      None \<Rightarrow> Inl artifact_missing
    | Some a \<Rightarrow>
        if ar_tenant_id a \<noteq> tenant_id p \<or> ar_principal_id a \<noteq> principal_id p
        then Inl artifact_missing
        else let t = (case erased_at_of A a of None \<Rightarrow> expired_at | Some u \<Rightarrow> min expired_at u);
                 r = a\<lparr> ar_expires_at := Some t \<rparr>
             in Inr (r, A\<lparr> ax_rows := dset i r (ax_rows A) \<rparr>))"

definition expiry_key :: "artifact_ref \<Rightarrow> instant \<times> uuid" where
  "expiry_key a = ((case ar_expires_at a of None \<Rightarrow> 0 | Some e \<Rightarrow> e), ar_id a)"

definition artifact_list_expired :: "artifact_repo \<Rightarrow> instant \<Rightarrow> int \<Rightarrow> artifact_ref list" where
  "artifact_list_expired A now limit =
     py_take limit (sort_key expiry_key
       (filter (\<lambda>a. ar_origin a \<noteq> TRAJECTORY_EXPORT \<and> expired_by a now) (dvals (ax_rows A))))"

definition artifact_delete_expired :: "artifact_repo \<Rightarrow> uuid \<Rightarrow> instant \<Rightarrow> bool \<times> artifact_repo" where
  "artifact_delete_expired A i now = (case dget (ax_rows A) i of
      None \<Rightarrow> (False, A)
    | Some a \<Rightarrow>
        if ar_origin a = TRAJECTORY_EXPORT \<or> \<not> expired_by a now then (False, A)
        else (True, A\<lparr> ax_rows := ddel i (ax_rows A) \<rparr>))"

definition claim_upload ::
    "artifact_repo \<Rightarrow> uuid \<Rightarrow> principal \<Rightarrow> uuid \<Rightarrow> uuid \<Rightarrow> bool \<Rightarrow> (artifact_ref \<times> artifact_repo) res" where
  "claim_upload A i p session_id run_id auto_ingest = (case dget (ax_rows A) i of
      None \<Rightarrow> Inl artifact_missing
    | Some a \<Rightarrow>
        if ar_tenant_id a \<noteq> tenant_id p \<or> ar_principal_id a \<noteq> principal_id p
           \<or> ar_session_id a \<noteq> session_id \<or> ar_origin a \<notin> {UPLOAD, KNOWLEDGE_SOURCE}
        then Inl artifact_missing
        else let c = claimed_upload a run_id auto_ingest
             in Inr (c, A\<lparr> ax_rows := dset i c (ax_rows A) \<rparr>))"

definition pending_auto_ingest ::
    "(string \<Rightarrow> instant option) \<Rightarrow> artifact_repo \<Rightarrow> principal \<Rightarrow> instant \<Rightarrow> int \<Rightarrow> artifact_ref list" where
  "pending_auto_ingest fromisoformat A p now limit =
     py_take limit (sort_key (\<lambda>a. (ar_created_at a, ar_id a))
       (filter (\<lambda>a. ar_tenant_id a = tenant_id p \<and> ar_principal_id a = principal_id p
          \<and> ar_origin a \<in> AUTO_INGEST_ORIGINS
          \<and> dget (ar_metadata a) ''auto_ingest'' = Some (JStr ''pending'')
          \<and> (case ar_expires_at a of None \<Rightarrow> True | Some e \<Rightarrow> now < e)
          \<and> auto_ingest_due fromisoformat (ar_metadata a) now) (dvals (ax_rows A))))"

definition record_auto_ingest ::
    "artifact_repo \<Rightarrow> uuid \<Rightarrow> principal \<Rightarrow> string \<Rightarrow> string option \<Rightarrow> int \<Rightarrow> string option \<Rightarrow>
       (artifact_ref \<times> artifact_repo) res" where
  "record_auto_ingest A i p state reason attempts not_before = (case dget (ax_rows A) i of
      None \<Rightarrow> Inl artifact_missing
    | Some a \<Rightarrow>
        if ar_tenant_id a \<noteq> tenant_id p \<or> ar_principal_id a \<noteq> principal_id p
        then Inl artifact_missing
        else let r = a\<lparr> ar_metadata :=
                   auto_ingest_metadata (ar_metadata a) state reason attempts not_before \<rparr>
             in Inr (r, A\<lparr> ax_rows := dset i r (ax_rows A) \<rparr>))"

text \<open>What erasing people data does to artifacts: fence the runs and expire what they produced.\<close>

definition expire_early :: "instant \<Rightarrow> artifact_ref \<Rightarrow> artifact_ref" where
  "expire_early t a = a\<lparr> ar_expires_at :=
     Some (case ar_expires_at a of None \<Rightarrow> t | Some e \<Rightarrow> min e t) \<rparr>"

definition erase_artifacts :: "artifact_repo \<Rightarrow> uuid list \<Rightarrow> instant \<Rightarrow> artifact_repo" where
  "erase_artifacts A runs erased_at =
     A\<lparr> ax_people_erased := fence_runs erased_at runs (ax_people_erased A),
        ax_rows := map (\<lambda>(k, a).
          (k, if (case ar_run_id a of None \<Rightarrow> False | Some i \<Rightarrow> i \<in> set runs) \<and> ar_origin a \<noteq> UPLOAD
              then expire_early erased_at a else a)) (ax_rows A) \<rparr>"

text \<open>The files of a final reply, from \<open>complete_reply\<close>: choose, retain, refer.\<close>

definition reply_files ::
    "artifact_repo \<Rightarrow> uuid \<Rightarrow> principal \<Rightarrow> instant \<Rightarrow> (file_reference_part list \<times> artifact_repo) res" where
  "reply_files A run_id p now =
     (let exported = reply_attachments (artifact_list_for_run A run_id p) now
      in if exported = [] then Inr ([], A)
         else rbind (retain_for_reply A (map ar_id exported) p run_id) (\<lambda>(retained, A').
           Inr (map reply_file_reference retained, A')))"

subsection \<open>Trajectory exports and their consent\<close>

record export_consent =
  ec_tenant_id :: string
  ec_principal_id :: string
  ec_granted_at :: instant
  ec_withdrawn_at :: "instant option"

type_synonym consent_repo = "(string \<times> string, export_consent) dict"

definition consent_get :: "consent_repo \<Rightarrow> string \<Rightarrow> string \<Rightarrow> export_consent option" where
  "consent_get D tenant owner = dget D (tenant, owner)"

definition consent_grant :: "consent_repo \<Rightarrow> export_consent \<Rightarrow> export_consent \<times> consent_repo" where
  "consent_grant D consent =
     (let key = (ec_tenant_id consent, ec_principal_id consent) in
      case dget D key of
        Some existing \<Rightarrow> if ec_withdrawn_at existing = None then (existing, D)
                         else (consent, dset key consent D)
      | None \<Rightarrow> (consent, dset key consent D))"

definition consent_withdraw ::
    "consent_repo \<Rightarrow> string \<Rightarrow> string \<Rightarrow> instant \<Rightarrow> (export_consent \<times> consent_repo) res" where
  "consent_withdraw D tenant owner withdrawn_at = (case dget D (tenant, owner) of
      None \<Rightarrow> Inl (NotFoundError ''export consent not found'')
    | Some existing \<Rightarrow>
        if ec_withdrawn_at existing \<noteq> None then Inr (existing, D)
        else let u = existing\<lparr> ec_withdrawn_at := Some withdrawn_at \<rparr>
             in Inr (u, dset (tenant, owner) u D))"

record trajectory_export =
  te_export_id :: uuid
  te_tenant_id :: string
  te_principal_id :: string
  te_run_id :: uuid
  te_artifact :: artifact_ref
  te_builder_version :: string
  te_ruleset_version :: string
  te_created_at :: instant

record export_repo =
  xr_rows :: "(uuid, trajectory_export) dict"
  xr_people_erased :: "(uuid, instant) dict"

definition empty_export_repo :: export_repo where
  "empty_export_repo = \<lparr> xr_rows = [], xr_people_erased = [] \<rparr>"

definition expire_export :: "instant \<Rightarrow> trajectory_export \<Rightarrow> trajectory_export" where
  "expire_export t x = x\<lparr> te_artifact := (te_artifact x)\<lparr> ar_expires_at := Some t \<rparr> \<rparr>"

definition export_get_for_run :: "export_repo \<Rightarrow> uuid \<Rightarrow> trajectory_export option" where
  "export_get_for_run X i = dget (xr_rows X) i"

definition export_create :: "export_repo \<Rightarrow> trajectory_export \<Rightarrow> trajectory_export \<times> export_repo" where
  "export_create X export0 =
     (let export = (case dget (xr_people_erased X) (te_run_id export0) of
                 None \<Rightarrow> export0 | Some t \<Rightarrow> expire_export t export0)
      in case dget (xr_rows X) (te_run_id export) of
          Some existing \<Rightarrow> (existing, X)
        | None \<Rightarrow> (export, X\<lparr> xr_rows := dset (te_run_id export) export (xr_rows X) \<rparr>))"

definition export_get_artifact :: "export_repo \<Rightarrow> uuid \<Rightarrow> principal \<Rightarrow> artifact_ref res" where
  "export_get_artifact X i p =
     (case find (\<lambda>a. ar_id a = i \<and> ar_tenant_id a = tenant_id p \<and> ar_principal_id a = principal_id p)
             (map te_artifact (dvals (xr_rows X))) of
        None \<Rightarrow> Inl artifact_missing | Some a \<Rightarrow> Inr a)"

text \<open>An export with no expiry is kept: the loop skips it, as it skips one that expires earlier.\<close>

definition expires_for :: "string \<Rightarrow> string \<Rightarrow> instant \<Rightarrow> trajectory_export \<Rightarrow> bool" where
  "expires_for tenant owner t x \<longleftrightarrow> te_tenant_id x = tenant \<and> te_principal_id x = owner
     \<and> (case ar_expires_at (te_artifact x) of None \<Rightarrow> False | Some e \<Rightarrow> t < e)"

definition expire_for_principal ::
    "export_repo \<Rightarrow> string \<Rightarrow> string \<Rightarrow> instant \<Rightarrow> nat \<times> export_repo" where
  "expire_for_principal X tenant owner expired_at =
     (length (filter (expires_for tenant owner expired_at) (dvals (xr_rows X))),
      X\<lparr> xr_rows := map (\<lambda>(k, x).
        (k, if expires_for tenant owner expired_at x then expire_export expired_at x else x))
          (xr_rows X) \<rparr>)"

fun take_expired :: "instant \<Rightarrow> int \<Rightarrow> artifact_ref list \<Rightarrow> trajectory_export list \<Rightarrow> artifact_ref list" where
  "take_expired now limit out [] = out"
| "take_expired now limit out (x # xs) =
     (if limit \<le> int (length out) then out
      else take_expired now limit
        (if expired_by (te_artifact x) now then out @ [te_artifact x] else out) xs)"

definition export_list_expired :: "export_repo \<Rightarrow> instant \<Rightarrow> int \<Rightarrow> artifact_ref list" where
  "export_list_expired X now limit = take_expired now limit [] (dvals (xr_rows X))"

definition export_delete_expired :: "export_repo \<Rightarrow> uuid \<Rightarrow> instant \<Rightarrow> bool \<times> export_repo" where
  "export_delete_expired X i now =
     (case find (\<lambda>(_, x). ar_id (te_artifact x) = i \<and> expired_by (te_artifact x) now) (xr_rows X) of
        None \<Rightarrow> (False, X)
      | Some (run_id, _) \<Rightarrow> (True, X\<lparr> xr_rows := ddel run_id (xr_rows X) \<rparr>))"

definition erase_exports :: "export_repo \<Rightarrow> uuid list \<Rightarrow> instant \<Rightarrow> export_repo" where
  "erase_exports X runs erased_at =
     X\<lparr> xr_people_erased := fence_runs erased_at runs (xr_people_erased X),
        xr_rows := map (\<lambda>(k, x).
          (k, if te_run_id x \<in> set runs
              then x\<lparr> te_artifact := expire_early erased_at (te_artifact x) \<rparr> else x)) (xr_rows X) \<rparr>"

subsection \<open>The erasure fence\<close>

text \<open>
  The contract of a store behind the erasure fence: it remembers when a run was erased, and whatever
  it does, a row the fence covers never outlives that instant.
\<close>

definition capped :: "instant \<Rightarrow> instant option \<Rightarrow> bool" where
  "capped t e = (case e of None \<Rightarrow> False | Some u \<Rightarrow> u \<le> t)"

locale erasure_fence =
  fixes fences :: "'st \<Rightarrow> uuid \<Rightarrow> instant option"
    and covered :: "'st \<Rightarrow> (uuid \<times> instant option) set"
    and step :: "'st \<Rightarrow> 'st \<Rightarrow> bool"
    and start :: "'st"
  assumes fence_kept: "step s s' \<Longrightarrow> fences s i = Some t \<Longrightarrow> fences s' i = Some t"
    and cap_kept: "step s s' \<Longrightarrow>
      \<forall>(i, e) \<in> covered s. \<forall>t. fences s i = Some t \<longrightarrow> capped t e \<Longrightarrow>
      (i, e) \<in> covered s' \<Longrightarrow> fences s' i = Some t \<Longrightarrow> capped t e"
    and start_empty: "covered start = {}"
begin

lemma capped_reachable:
  assumes "step\<^sup>*\<^sup>* start s"
  shows "\<forall>(i, e) \<in> covered s. \<forall>t. fences s i = Some t \<longrightarrow> capped t e"
  using assms
proof (induction rule: rtranclp_induct)
  case base
  then show ?case by (simp add: start_empty)
next
  case (step s s')
  then show ?case using cap_kept [OF step.hyps(2) step.IH] by blast
qed

lemma fence_forever: "step\<^sup>*\<^sup>* s s' \<Longrightarrow> fences s i = Some t \<Longrightarrow> fences s' i = Some t"
  by (induction rule: rtranclp_induct) (auto dest: fence_kept)

lemma expired_for_good:
  assumes "step\<^sup>*\<^sup>* start s" and "fences s i = Some t" and "step\<^sup>*\<^sup>* s s'" and "(i, e) \<in> covered s'"
  shows "capped t e"
proof -
  have "step\<^sup>*\<^sup>* start s'" using assms(1,3) by (rule rtranclp_trans)
  from capped_reachable [OF this] assms(4) fence_forever [OF assms(3,2)]
  show ?thesis by blast
qed

end

subsection \<open>Artifacts behind the fence\<close>

inductive artifact_step :: "artifact_repo \<Rightarrow> artifact_repo \<Rightarrow> bool" where
  astep_create: "artifact_create A a = Inr (r, A') \<Longrightarrow> artifact_step A A'"
| astep_knowledge: "retain_for_knowledge A i p now u = Inr (r, A') \<Longrightarrow> artifact_step A A'"
| astep_reply: "retain_for_reply A ids p run_id = Inr (rs, A') \<Longrightarrow> artifact_step A A'"
| astep_expire: "artifact_expire A i p t = Inr (r, A') \<Longrightarrow> artifact_step A A'"
| astep_delete: "artifact_delete_expired A i now = (b, A') \<Longrightarrow> artifact_step A A'"
| astep_claim: "claim_upload A i p sid rid auto = Inr (r, A') \<Longrightarrow> artifact_step A A'"
| astep_record: "record_auto_ingest A i p state reason n nb = Inr (r, A') \<Longrightarrow> artifact_step A A'"
| astep_erase: "A' = erase_artifacts A runs t \<Longrightarrow> artifact_step A A'"

lemma dvals_dset: "v \<in> set (dvals (dset k w d)) \<Longrightarrow> v = w \<or> v \<in> set (dvals d)"
  by (induction d) (auto split: if_splits)

lemma dvals_ddel: "v \<in> set (dvals (ddel k d)) \<Longrightarrow> v \<in> set (dvals d)"
  by (auto simp: AList.delete_eq)

lemma dget_vals: "dget d k = Some v \<Longrightarrow> v \<in> set (dvals d)"
  by (force dest: map_of_SomeD)

lemma dvals_map: "set (dvals (map (\<lambda>(k, v). (k, f v)) d)) = f ` set (dvals d)"
  by (induction d) auto

lemma dvals_store_rows: "v \<in> set (dvals (store_rows as d)) \<Longrightarrow> v \<in> set as \<or> v \<in> set (dvals d)"
proof (induction as arbitrary: d)
  case Nil
  then show ?case by (simp add: store_rows_def)
next
  case (Cons a as)
  then show ?case by (auto simp: store_rows_def simp del: set_map dest!: dvals_dset)
qed

lemma retained_rows_member:
  "retained_rows A p run_id ids = Inr rs \<Longrightarrow> r \<in> set rs \<Longrightarrow>
     \<exists>a \<in> set (dvals (ax_rows A)). r = a\<lparr> ar_expires_at := None \<rparr> \<and> ar_run_id a = Some run_id
       \<and> ar_origin a \<in> REPLY_ATTACHMENT_ORIGINS"
  by (induction ids arbitrary: rs)
    (auto simp: rbind_Inr_iff simp del: set_map split: option.splits if_splits dest!: dget_vals)

text \<open>Files other than uploads and knowledge sources: what a run itself produced.\<close>

definition produced :: "artifact_ref \<Rightarrow> bool" where
  "produced a \<longleftrightarrow> ar_origin a \<notin> {UPLOAD, KNOWLEDGE_SOURCE}"

definition artifact_fence :: "artifact_repo \<Rightarrow> uuid \<Rightarrow> instant option" where
  "artifact_fence A i = dget (ax_people_erased A) i"

definition artifact_covered :: "artifact_repo \<Rightarrow> (uuid \<times> instant option) set" where
  "artifact_covered A = {(i, e). \<exists>a \<in> set (dvals (ax_rows A)).
     ar_run_id a = Some i \<and> ar_expires_at a = e \<and> produced a}"

definition row_capped :: "artifact_repo \<Rightarrow> artifact_ref \<Rightarrow> bool" where
  "row_capped A a \<longleftrightarrow> (\<forall>i t. ar_run_id a = Some i \<longrightarrow> produced a \<longrightarrow> artifact_fence A i = Some t \<longrightarrow>
     capped t (ar_expires_at a))"

lemma row_capped_covered:
  "(\<forall>(i, e) \<in> artifact_covered A. \<forall>t. artifact_fence A i = Some t \<longrightarrow> capped t e)
     \<longleftrightarrow> (\<forall>a \<in> set (dvals (ax_rows A)). row_capped A a)"
  by (fastforce simp: artifact_covered_def row_capped_def)

text \<open>Every operation but the erasure itself keeps the fence and stores only capped rows.\<close>

lemma artifact_store_capped:
  assumes "\<forall>a \<in> set (dvals (ax_rows A)). row_capped A a" and "row_capped A r"
  shows "\<forall>a \<in> set (dvals (ax_rows (A\<lparr> ax_rows := dset k r (ax_rows A) \<rparr>))).
    row_capped (A\<lparr> ax_rows := dset k r (ax_rows A) \<rparr>) a"
  using assms by (auto simp: row_capped_def artifact_fence_def simp del: set_map dest!: dvals_dset)

lemma erase_capped:
  assumes "\<forall>a \<in> set (dvals (ax_rows A)). row_capped A a"
  shows "\<forall>a \<in> set (dvals (ax_rows (erase_artifacts A runs t))). row_capped (erase_artifacts A runs t) a"
proof
  fix b assume "b \<in> set (dvals (ax_rows (erase_artifacts A runs t)))"
  then obtain a where a: "a \<in> set (dvals (ax_rows A))"
    and b: "b = (if (case ar_run_id a of None \<Rightarrow> False | Some i \<Rightarrow> i \<in> set runs) \<and> ar_origin a \<noteq> UPLOAD
              then expire_early t a else a)"
    by (auto simp: erase_artifacts_def dvals_map simp del: set_map map_map)
  have old: "row_capped A a" using assms a by blast
  show "row_capped (erase_artifacts A runs t) b"
  proof (unfold row_capped_def, intro allI impI)
    fix i u
    assume h: "ar_run_id b = Some i" "produced b" "artifact_fence (erase_artifacts A runs t) i = Some u"
    then have run: "ar_run_id a = Some i" and prod: "produced a"
      by (auto simp: b expire_early_def produced_def split: if_splits)
    have fence: "artifact_fence A i = Some u \<or> artifact_fence A i = None \<and> i \<in> set runs \<and> u = t"
      using h(3) by (auto simp: artifact_fence_def erase_artifacts_def dget_fence_runs
          split: option.splits if_splits)
    show "capped u (ar_expires_at b)"
      using fence old run prod
      by (auto simp: b row_capped_def capped_def expire_early_def produced_def split: option.splits if_splits)
  qed
qed

lemma artifact_step_capped:
  assumes "artifact_step A A'" and "\<forall>a \<in> set (dvals (ax_rows A)). row_capped A a"
  shows "\<forall>a \<in> set (dvals (ax_rows A')). row_capped A' a"
  using assms(1)
proof (cases rule: artifact_step.cases)
  case (astep_create a r)
  then have "row_capped A r" and "A' = A\<lparr> ax_rows := dset (ar_id r) r (ax_rows A) \<rparr>"
    by (auto simp: artifact_create_def Let_def row_capped_def artifact_fence_def erased_at_of_def
        produced_def capped_def split: if_splits option.splits)
  then show ?thesis using artifact_store_capped [OF assms(2)] by simp
next
  case (astep_knowledge i p now u r)
  then have "row_capped A r" and "A' = A\<lparr> ax_rows := dset i r (ax_rows A) \<rparr>"
    by (auto simp: retain_for_knowledge_def Let_def row_capped_def produced_def
        split: if_splits option.splits)
  then show ?thesis using artifact_store_capped [OF assms(2)] by simp
next
  case (astep_reply ids p run_id rs)
  then have rows: "retained_rows A p run_id (unique_keys ids) = Inr rs"
    and A': "A' = A\<lparr> ax_rows := store_rows rs (ax_rows A) \<rparr>" and free: "artifact_fence A run_id = None"
    by (auto simp: retain_for_reply_def artifact_fence_def dhas_iff elim!: rbind_InrE)
  have "row_capped A r" if "r \<in> set rs" for r
    using retained_rows_member [OF rows that] free by (auto simp: row_capped_def)
  then show ?thesis
    using assms(2) by (auto simp: A' row_capped_def artifact_fence_def simp del: set_map
        dest!: dvals_store_rows)
next
  case (astep_expire i p t r)
  then have "row_capped A r" and "A' = A\<lparr> ax_rows := dset i r (ax_rows A) \<rparr>"
    by (auto simp: artifact_expire_def Let_def row_capped_def artifact_fence_def erased_at_of_def
        produced_def capped_def split: if_splits option.splits)
  then show ?thesis using artifact_store_capped [OF assms(2)] by simp
next
  case (astep_delete i now b)
  then show ?thesis
    using assms(2) by (auto simp: artifact_delete_expired_def row_capped_def artifact_fence_def
        simp del: set_map dest!: dvals_ddel split: option.splits if_splits)
next
  case (astep_claim i p sid rid auto r)
  then have "row_capped A r" and "A' = A\<lparr> ax_rows := dset i r (ax_rows A) \<rparr>"
    by (auto simp: claim_upload_def claimed_upload_def Let_def row_capped_def produced_def
        split: if_splits option.splits)
  then show ?thesis using artifact_store_capped [OF assms(2)] by simp
next
  case (astep_record i p state reason n nb r)
  then obtain a where a: "dget (ax_rows A) i = Some a" "ar_run_id r = ar_run_id a"
      "ar_origin r = ar_origin a" "ar_expires_at r = ar_expires_at a"
    and A': "A' = A\<lparr> ax_rows := dset i r (ax_rows A) \<rparr>"
    by (auto simp: record_auto_ingest_def Let_def split: if_splits option.splits)
  have "row_capped A a" using assms(2) dget_vals [OF a(1)] by blast
  then have "row_capped A r" using a by (simp add: row_capped_def produced_def)
  then show ?thesis using artifact_store_capped [OF assms(2)] A' by simp
next
  case (astep_erase runs t)
  then show ?thesis using erase_capped [OF assms(2)] by simp
qed

lemma artifact_fence_kept:
  "artifact_step A A' \<Longrightarrow> artifact_fence A i = Some t \<Longrightarrow> artifact_fence A' i = Some t"
  by (erule artifact_step.cases)
    (auto simp: artifact_fence_def artifact_create_def retain_for_knowledge_def retain_for_reply_def
      artifact_expire_def artifact_delete_expired_def claim_upload_def record_auto_ingest_def
      erase_artifacts_def dget_fence_runs Let_def split: if_splits option.splits elim!: rbind_InrE)

interpretation artifact_fencing: erasure_fence artifact_fence artifact_covered artifact_step empty_artifact_repo
proof
  fix A A' i e t
  show "artifact_fence A' i = Some t" if "artifact_step A A'" "artifact_fence A i = Some t"
    using that by (rule artifact_fence_kept)
  show "capped t e" if "artifact_step A A'"
      "\<forall>(i, e) \<in> artifact_covered A. \<forall>t. artifact_fence A i = Some t \<longrightarrow> capped t e"
      "(i, e) \<in> artifact_covered A'" "artifact_fence A' i = Some t"
    using artifact_step_capped [OF that(1)] that(2-4) unfolding row_capped_covered
    by (auto simp: artifact_covered_def row_capped_def)
  show "artifact_covered empty_artifact_repo = {}"
    by (simp add: artifact_covered_def empty_artifact_repo_def)
qed

subsection \<open>Exports behind the fence\<close>

inductive export_step :: "export_repo \<Rightarrow> export_repo \<Rightarrow> bool" where
  xstep_create: "export_create X x = (r, X') \<Longrightarrow> export_step X X'"
| xstep_expire: "expire_for_principal X tenant owner t = (n, X') \<Longrightarrow> export_step X X'"
| xstep_delete: "export_delete_expired X i now = (b, X') \<Longrightarrow> export_step X X'"
| xstep_erase: "X' = erase_exports X runs t \<Longrightarrow> export_step X X'"

definition export_fence :: "export_repo \<Rightarrow> uuid \<Rightarrow> instant option" where
  "export_fence X i = dget (xr_people_erased X) i"

definition export_covered :: "export_repo \<Rightarrow> (uuid \<times> instant option) set" where
  "export_covered X = {(te_run_id x, ar_expires_at (te_artifact x)) | x. x \<in> set (dvals (xr_rows X))}"

lemma export_rows_step:
  assumes "export_step X X'" and "x' \<in> set (dvals (xr_rows X'))"
  shows "(\<exists>x \<in> set (dvals (xr_rows X)). te_run_id x' = te_run_id x
            \<and> (\<forall>u. capped u (ar_expires_at (te_artifact x)) \<longrightarrow> capped u (ar_expires_at (te_artifact x')))
            \<and> (\<forall>u. export_fence X (te_run_id x) = None \<longrightarrow> export_fence X' (te_run_id x) = Some u \<longrightarrow>
                 capped u (ar_expires_at (te_artifact x'))))
    \<or> export_fence X' = export_fence X
      \<and> (\<forall>u. export_fence X (te_run_id x') = Some u \<longrightarrow> capped u (ar_expires_at (te_artifact x')))"
  (is "?old \<or> ?new")
  using assms(1)
proof (cases rule: export_step.cases)
  case (xstep_create x r)
  then have same: "export_fence X' = export_fence X"
    by (auto simp: export_create_def Let_def export_fence_def fun_eq_iff split: option.splits)
  have "x' \<in> set (dvals (xr_rows X)) \<or> x' = r
      \<and> (\<forall>u. export_fence X (te_run_id r) = Some u \<longrightarrow> capped u (ar_expires_at (te_artifact r)))"
    using xstep_create assms(2)
    by (auto simp: export_create_def Let_def export_fence_def expire_export_def capped_def
        simp del: set_map dest!: dvals_dset split: option.splits)
  then show ?thesis using same by fastforce
next
  case (xstep_expire tenant owner t n)
  then obtain x where "x \<in> set (dvals (xr_rows X))"
      "x' = (if expires_for tenant owner t x then expire_export t x else x)"
      "export_fence X' = export_fence X"
    using assms(2)
    by (auto simp: expire_for_principal_def export_fence_def fun_eq_iff dvals_map simp del: set_map map_map)
  then show ?thesis
    by (auto intro!: bexI [of _ x] simp: expires_for_def expire_export_def capped_def split: option.splits)
next
  case (xstep_delete i now b)
  then have "x' \<in> set (dvals (xr_rows X))" and "export_fence X' = export_fence X"
    using assms(2) by (auto simp: export_delete_expired_def export_fence_def fun_eq_iff simp del: set_map
        dest!: dvals_ddel split: option.splits)
  then show ?thesis by fastforce
next
  case (xstep_erase runs t)
  then obtain x where x: "x \<in> set (dvals (xr_rows X))"
      "x' = (if te_run_id x \<in> set runs then x\<lparr> te_artifact := expire_early t (te_artifact x) \<rparr> else x)"
    using assms(2) by (auto simp: erase_exports_def dvals_map simp del: set_map map_map)
  have run: "te_run_id x' = te_run_id x" by (simp add: x(2))
  have keep: "capped u (ar_expires_at (te_artifact x')) "
    if "capped u (ar_expires_at (te_artifact x))" for u
    using that by (auto simp: x(2) capped_def expire_early_def split: option.splits)
  have gained: "capped u (ar_expires_at (te_artifact x'))"
    if "export_fence X (te_run_id x) = None" "export_fence X' (te_run_id x) = Some u" for u
  proof -
    have "te_run_id x \<in> set runs" "u = t"
      using that xstep_erase
      by (auto simp: erase_exports_def export_fence_def dget_fence_runs split: if_splits)
    then show ?thesis by (simp add: x(2) capped_def expire_early_def split: option.splits)
  qed
  show ?thesis using x(1) run keep gained by blast
qed

lemma export_fence_kept:
  "export_step X X' \<Longrightarrow> export_fence X i = Some t \<Longrightarrow> export_fence X' i = Some t"
  by (erule export_step.cases)
    (auto simp: export_fence_def export_create_def expire_for_principal_def export_delete_expired_def
      erase_exports_def dget_fence_runs Let_def split: if_splits option.splits)

interpretation export_fencing: erasure_fence export_fence export_covered export_step empty_export_repo
proof
  fix X X' i e t
  show "export_fence X' i = Some t" if "export_step X X'" "export_fence X i = Some t"
    using that by (rule export_fence_kept)
  show "capped t e" if step: "export_step X X'"
      and old: "\<forall>(i, e) \<in> export_covered X. \<forall>t. export_fence X i = Some t \<longrightarrow> capped t e"
      and row: "(i, e) \<in> export_covered X'" and fence: "export_fence X' i = Some t"
  proof -
    obtain x' where x': "x' \<in> set (dvals (xr_rows X'))" "i = te_run_id x'"
        "e = ar_expires_at (te_artifact x')"
      using row by (auto simp: export_covered_def)
    have old': "capped u (ar_expires_at (te_artifact x))"
      if "x \<in> set (dvals (xr_rows X))" "export_fence X (te_run_id x) = Some u" for x u
      using old that by (auto simp: export_covered_def)
    show ?thesis
    proof (cases "export_fence X i")
      case None
      then show ?thesis using export_rows_step [OF step x'(1)] x'(2,3) fence by auto
    next
      case (Some u)
      then have "u = t" using export_fence_kept [OF step Some] fence by simp
      then show ?thesis using export_rows_step [OF step x'(1)] x'(2,3) Some old' by metis
    qed
  qed
  show "export_covered empty_export_repo = {}"
    by (simp add: export_covered_def empty_export_repo_def)
qed

lemma erased_export_expires:
  assumes "export_step\<^sup>*\<^sup>* empty_export_repo X" and "i \<in> set runs" and "export_fence X i = None"
    and "export_step\<^sup>*\<^sup>* (erase_exports X runs t) X'" and "x \<in> set (dvals (xr_rows X'))"
    and "te_run_id x = i"
  shows "capped t (ar_expires_at (te_artifact x))"
proof -
  have "export_step X (erase_exports X runs t)" by (rule xstep_erase) simp
  with assms(1) have "export_step\<^sup>*\<^sup>* empty_export_repo (erase_exports X runs t)"
    by (rule rtranclp.rtrancl_into_rtrancl)
  moreover have "export_fence (erase_exports X runs t) i = Some t"
    using assms(2,3) by (simp add: export_fence_def erase_exports_def dget_fence_runs)
  ultimately show ?thesis
    by (rule export_fencing.expired_for_good [OF _ _ assms(4)])
      (use assms(5,6) in \<open>auto simp: export_covered_def\<close>)
qed

subsection \<open>Owner scope of artifacts\<close>

interpretation artifact_scope: owner_scoped
  "\<lambda>A i. dget (ax_rows A) i" artifact_owner "\<lambda>_. artifact_missing" artifact_get
  by unfold_locales (auto simp: artifact_get_def artifact_owner_def owned_by_def split: option.splits)

subsection \<open>Choosing the files of a reply\<close>

lemma choose_attachments_mem:
  "a \<in> set (choose_attachments now seen as) \<Longrightarrow> a \<in> set as \<and> ar_origin a \<in> REPLY_ATTACHMENT_ORIGINS
     \<and> \<not> expired_by a now \<and> attachment_key a \<notin> set seen"
proof (induction as arbitrary: seen)
  case (Cons b as)
  from Cons.IH [of seen] Cons.IH [of "attachment_key b # seen"] Cons.prems show ?case
    by (auto split: if_splits)
qed simp

lemma choose_attachments_distinct: "distinct (map attachment_key (choose_attachments now seen as))"
proof (induction as arbitrary: seen)
  case (Cons a as)
  have "attachment_key a \<notin> attachment_key ` set (choose_attachments now (attachment_key a # seen) as)"
    by (auto dest: choose_attachments_mem)
  with Cons show ?case by auto
qed simp

lemma choose_attachments_complete:
  "a \<in> set as \<Longrightarrow> ar_origin a \<in> REPLY_ATTACHMENT_ORIGINS \<Longrightarrow> \<not> expired_by a now \<Longrightarrow>
     attachment_key a \<in> set seen \<union> attachment_key ` set (choose_attachments now seen as)"
proof (induction as arbitrary: seen)
  case (Cons b as)
  show ?case
  proof (cases "a = b")
    case True
    then show ?thesis using Cons.prems by auto
  next
    case False
    then have "a \<in> set as" using Cons.prems(1) by simp
    from Cons.IH [OF this Cons.prems(2,3), of seen]
      Cons.IH [OF this Cons.prems(2,3), of "attachment_key b # seen"]
    show ?thesis by auto
  qed
qed simp

lemma unique_keys_distinct: "distinct xs \<Longrightarrow> unique_keys xs = xs"
  by (simp add: unique_keys_def distinct_remdups_id)

lemma store_rows_other: "k \<notin> ar_id ` set as \<Longrightarrow> dget (store_rows as d) k = dget d k"
  unfolding store_rows_def by (induction as arbitrary: d) auto

lemma store_rows_stored:
  "distinct (map ar_id as) \<Longrightarrow> a \<in> set as \<Longrightarrow> dget (store_rows as d) (ar_id a) = Some a"
proof (induction as arbitrary: d)
  case (Cons b as)
  have "dget (store_rows as (dset (ar_id b) b d)) (ar_id a) = Some a"
  proof (cases "a \<in> set as")
    case True
    then show ?thesis using Cons by simp
  next
    case False
    then have "a = b" using Cons.prems(2) by simp
    moreover have "ar_id b \<notin> ar_id ` set as" using Cons.prems(1) by simp
    ultimately show ?thesis by (simp add: store_rows_other)
  qed
  then show ?case by (simp add: store_rows_def)
qed simp

text \<open>The rows of a reachable repository are stored under their own ids.\<close>

lemma keyed_store_rows: "keyed ar_id d \<Longrightarrow> keyed ar_id (store_rows as d)"
  unfolding store_rows_def by (induction as arbitrary: d) (auto intro: keyed_dset)

lemma keyed_map_vals: "keyed key d \<Longrightarrow> (\<And>v. key (f v) = key v) \<Longrightarrow> keyed key (map (\<lambda>(k, v). (k, f v)) d)"
  by (auto simp: keyed_def comp_def case_prod_unfold)

lemma claimed_upload_id [simp]: "ar_id (claimed_upload a r b) = ar_id a"
  by (simp add: claimed_upload_def Let_def)

lemma expire_early_id [simp]: "ar_id (expire_early t a) = ar_id a"
  by (simp add: expire_early_def)

lemma artifact_keyed_step:
  assumes "artifact_step A A'" and "keyed ar_id (ax_rows A)"
  shows "keyed ar_id (ax_rows A')"
  using assms(1)
proof (cases rule: artifact_step.cases)
  case (astep_erase runs t)
  show ?thesis
    unfolding astep_erase erase_artifacts_def using assms(2) by (simp add: keyed_map_vals)
qed (use assms(2) in \<open>auto simp: artifact_create_def retain_for_knowledge_def retain_for_reply_def
      artifact_expire_def artifact_delete_expired_def claim_upload_def record_auto_ingest_def Let_def
      intro!: keyed_dset keyed_ddel keyed_store_rows dest!: keyed_dget [OF assms(2)] elim!: rbind_InrE
      split: if_splits option.splits\<close>)

lemma artifact_keyed: "artifact_step\<^sup>*\<^sup>* empty_artifact_repo A \<Longrightarrow> keyed ar_id (ax_rows A)"
  by (induction rule: rtranclp_induct) (auto simp: empty_artifact_repo_def intro: artifact_keyed_step)

lemma list_for_run_mem: "a \<in> set (artifact_list_for_run A i p) \<longleftrightarrow> a \<in> set (dvals (ax_rows A))
    \<and> ar_run_id a = Some i \<and> ar_tenant_id a = tenant_id p \<and> ar_principal_id a = principal_id p"
  by (auto simp: artifact_list_for_run_def)

lemma retained_rows_all:
  assumes "keyed ar_id (ax_rows A)"
    and "\<forall>a \<in> set as. a \<in> set (artifact_list_for_run A i p) \<and> ar_origin a \<in> REPLY_ATTACHMENT_ORIGINS"
  shows "retained_rows A p i (map ar_id as) = Inr (map (\<lambda>a. a\<lparr> ar_expires_at := None \<rparr>) as)"
  using assms(2)
proof (induction as)
  case (Cons a as)
  then have a: "a \<in> set (artifact_list_for_run A i p)" "ar_origin a \<in> REPLY_ATTACHMENT_ORIGINS" by auto
  then have "dget (ax_rows A) (ar_id a) = Some a"
    using keyed_vals [OF assms(1)] by (simp add: list_for_run_mem del: set_map)
  then show ?case using Cons a by (simp add: list_for_run_mem)
qed simp

lemma reply_attachments_spec:
  fixes A i p now
  defines "chosen \<equiv> reply_attachments (artifact_list_for_run A i p) now"
  assumes "keyed ar_id (ax_rows A)"
  shows "\<forall>a \<in> set chosen. a \<in> set (artifact_list_for_run A i p)
           \<and> ar_origin a \<in> REPLY_ATTACHMENT_ORIGINS \<and> \<not> expired_by a now"
    and "distinct (map attachment_key chosen)" and "distinct (map ar_id chosen)"
proof -
  show all: "\<forall>a \<in> set chosen. a \<in> set (artifact_list_for_run A i p)
           \<and> ar_origin a \<in> REPLY_ATTACHMENT_ORIGINS \<and> \<not> expired_by a now"
    by (auto simp: chosen_def reply_attachments_def dest!: choose_attachments_mem)
  show keys: "distinct (map attachment_key chosen)"
    by (simp only: chosen_def reply_attachments_def choose_attachments_distinct)
  have "inj_on ar_id (set chosen)"
    using keyed_distinct_vals(2) [OF assms(2)] all
    by (auto simp: inj_on_def list_for_run_mem simp del: set_map)
  then show "distinct (map ar_id chosen)" using keys by (simp add: distinct_map)
qed

subsection \<open>Properties of artifacts\<close>

text \<open>
  The final reply carries every file the run produced. In every reachable state, unless the run
  was erased, choosing and retaining a reply's files succeeds. The references are those of the chosen
  artifacts, in creation order; each chosen artifact stays owned by the principal and no longer
  expires; all other artifacts are untouched. Every unexpired file of the run with an attachable
  origin is represented by a chosen file of the same name, content and source email, and no two
  chosen files agree in all three.
\<close>

theorem reply_files_complete:
  assumes "artifact_step\<^sup>*\<^sup>* empty_artifact_repo A" and "\<not> dhas (ax_people_erased A) i"
  shows "\<exists>A'. let chosen = reply_attachments (artifact_list_for_run A i p) now in
      reply_files A i p now = Inr (map reply_file_reference chosen, A')
    \<and> distinct (map attachment_key chosen)
    \<and> (\<forall>a \<in> set chosen. artifact_get A' (ar_id a) p = Inr (a\<lparr> ar_expires_at := None \<rparr>))
    \<and> (\<forall>k. k \<notin> ar_id ` set chosen \<longrightarrow> dget (ax_rows A') k = dget (ax_rows A) k)
    \<and> (\<forall>a \<in> set (artifact_list_for_run A i p).
         ar_origin a \<in> REPLY_ATTACHMENT_ORIGINS \<and> \<not> expired_by a now \<longrightarrow>
         (\<exists>b \<in> set chosen. attachment_key b = attachment_key a))"
proof -
  define chosen where "chosen = reply_attachments (artifact_list_for_run A i p) now"
  define kept where "kept = map (\<lambda>a. a\<lparr> ar_expires_at := None \<rparr>) chosen"
  define A' where "A' = A\<lparr> ax_rows := store_rows kept (ax_rows A) \<rparr>"
  have keyed: "keyed ar_id (ax_rows A)" using assms(1) by (rule artifact_keyed)
  note spec = reply_attachments_spec [OF keyed, of i p now, folded chosen_def]
  have ids: "map ar_id kept = map ar_id chosen" by (simp add: kept_def)
  have "retain_for_reply A (map ar_id chosen) p i = Inr (kept, A')"
    using assms(2) spec(1) retained_rows_all [OF keyed, of chosen i p] unique_keys_distinct [OF spec(3)]
    by (simp add: retain_for_reply_def kept_def A'_def)
  moreover have "A' = A" if "chosen = []" using that by (simp add: A'_def kept_def store_rows_def)
  moreover have "map reply_file_reference kept = map reply_file_reference chosen"
    by (simp add: kept_def reply_file_reference_def)
  ultimately have "reply_files A i p now = Inr (map reply_file_reference chosen, A')"
    by (auto simp: reply_files_def Let_def chosen_def [symmetric])
  moreover have "artifact_get A' (ar_id a) p = Inr (a\<lparr> ar_expires_at := None \<rparr>)" if "a \<in> set chosen" for a
  proof -
    have "dget (ax_rows A') (ar_id (a\<lparr> ar_expires_at := None \<rparr>)) = Some (a\<lparr> ar_expires_at := None \<rparr>)"
      using store_rows_stored [of kept "a\<lparr> ar_expires_at := None \<rparr>" "ax_rows A"] spec(3) that
      unfolding ids A'_def by (simp add: kept_def)
    then show ?thesis using spec(1) that by (simp add: artifact_get_def list_for_run_mem)
  qed
  moreover have "dget (ax_rows A') k = dget (ax_rows A) k" if "k \<notin> ar_id ` set chosen" for k
    using that ids store_rows_other [of k kept] by (simp add: A'_def kept_def image_image)
  moreover have "\<exists>b \<in> set chosen. attachment_key b = attachment_key a"
    if "a \<in> set (artifact_list_for_run A i p)" "ar_origin a \<in> REPLY_ATTACHMENT_ORIGINS" "\<not> expired_by a now" for a
    using choose_attachments_complete [of a "sort_key (\<lambda>a. (ar_created_at a, ar_id a)) (artifact_list_for_run A i p)" now "[]"] that
    by (auto simp: chosen_def reply_attachments_def)
  ultimately show ?thesis
    using spec(2) unfolding chosen_def [symmetric] Let_def by blast
qed

definition sample_artifact :: "uuid \<Rightarrow> artifact_ref" where
  "sample_artifact i = \<lparr> ar_id = i, ar_tenant_id = tenant_id alice, ar_principal_id = principal_id alice,
     ar_session_id = 1, ar_run_id = Some 1, ar_name = ''report.pdf'', ar_media_type = ''application/pdf'',
     ar_storage_uri = ''store'', ar_sha256 = ''d'', ar_size_bytes = 3, ar_origin = SANDBOX_EXPORT,
     ar_trust = Trust_USER, ar_expires_at = Some 1000, ar_created_at = 5, ar_metadata = [] \<rparr>"

definition sample_artifacts :: artifact_repo where
  "sample_artifacts = \<lparr> ax_rows = [(7, sample_artifact 7)], ax_people_erased = [] \<rparr>"

lemma sample_artifacts_reachable: "artifact_step\<^sup>*\<^sup>* empty_artifact_repo sample_artifacts"
proof (rule r_into_rtranclp, rule astep_create)
  show "artifact_create empty_artifact_repo (sample_artifact 7) = Inr (sample_artifact 7, sample_artifacts)"
    by (simp add: artifact_create_def empty_artifact_repo_def sample_artifacts_def sample_artifact_def
        erased_at_of_def Let_def)
qed

theorem reply_files_complete_witness:
  "\<exists>A'. reply_files sample_artifacts 1 alice 10 = Inr ([reply_file_reference (sample_artifact 7)], A')"
proof -
  have free: "\<not> dhas (ax_people_erased sample_artifacts) 1"
    by (simp add: sample_artifacts_def dhas_def)
  have "reply_attachments (artifact_list_for_run sample_artifacts 1 alice) 10 = [sample_artifact 7]"
    by (simp add: reply_attachments_def artifact_list_for_run_def sample_artifacts_def sample_artifact_def
        REPLY_ATTACHMENT_ORIGINS_def expired_by_def)
  then show ?thesis
    using reply_files_complete [OF sample_artifacts_reachable free, of alice 10]
    by (auto simp: Let_def)
qed

text \<open>
  What an erased run produced is gone for good. When a run is erased for the first time at an
  instant \<open>t\<close>, then after any further operations every stored file of that run, other than the owner's
  uploads and knowledge sources, expires no later than \<open>t\<close>: it is expired for every later clock
  reading, is never offered for automatic ingestion, and can neither be attached to a reply nor be
  retained for knowledge.
\<close>

theorem erased_run_files_expire:
  assumes "artifact_step\<^sup>*\<^sup>* empty_artifact_repo A" and "artifact_fence A i = None" and "i \<in> set runs"
    and "artifact_step\<^sup>*\<^sup>* (erase_artifacts A runs t) A'"
    and "dget (ax_rows A') k = Some a" and "ar_run_id a = Some i"
    and "ar_origin a \<notin> {UPLOAD, KNOWLEDGE_SOURCE}" and "t \<le> now"
  shows "expired_by a now \<and> a \<notin> set (pending_auto_ingest fromiso A' p now limit)
    \<and> retain_for_reply A' ids p i = Inl (RunCancelledError ''People erasure fenced reply attachments'')
    \<and> \<not> is_ok (retain_for_knowledge A' k p clock unchanged)"
proof -
  have "artifact_step A (erase_artifacts A runs t)" by (rule astep_erase) simp
  with assms(1) have reach: "artifact_step\<^sup>*\<^sup>* empty_artifact_repo (erase_artifacts A runs t)"
    by (rule rtranclp.rtrancl_into_rtrancl)
  have fence: "artifact_fence (erase_artifacts A runs t) i = Some t"
    using assms(2,3) by (simp add: artifact_fence_def erase_artifacts_def dget_fence_runs)
  have "(i, ar_expires_at a) \<in> artifact_covered A'"
    using dget_vals [OF assms(5)] assms(6,7) by (auto simp: artifact_covered_def produced_def)
  then have "capped t (ar_expires_at a)"
    by (rule artifact_fencing.expired_for_good [OF reach fence assms(4)])
  then have expired: "expired_by a now"
    using assms(8) by (auto simp: capped_def expired_by_def split: option.splits)
  have fence': "dget (ax_people_erased A') i = Some t"
    using artifact_fencing.fence_forever [OF assms(4) fence] by (simp add: artifact_fence_def)
  then have "\<not> is_ok (retain_for_knowledge A' k p clock unchanged)"
    using assms(5-7) by (simp add: retain_for_knowledge_def erased_at_of_def)
  moreover have "a \<notin> set (pending_auto_ingest fromiso A' p now limit)"
    using expired by (auto simp: pending_auto_ingest_def expired_by_def dest!: set_py_take split: option.splits)
  ultimately show ?thesis
    using expired fence' by (simp add: retain_for_reply_def dhas_iff)
qed

theorem erased_run_files_expire_witness:
  "expired_by (expire_early 50 (sample_artifact 7)) 60"
proof -
  have free: "artifact_fence sample_artifacts 1 = None"
    by (simp add: artifact_fence_def sample_artifacts_def)
  have row: "dget (ax_rows (erase_artifacts sample_artifacts [1] 50)) 7 = Some (expire_early 50 (sample_artifact 7))"
    by (simp add: erase_artifacts_def sample_artifacts_def sample_artifact_def)
  show ?thesis
    using erased_run_files_expire [OF sample_artifacts_reachable free _ rtranclp.rtrancl_refl row, of 60]
    by (simp add: expire_early_def sample_artifact_def)
qed

end
