(* ===== verification/Calendar.thy ===== *)
theory Calendar
  imports Complex_Main
begin

text \<open>
  The part of Python's \<open>datetime.date\<close> and \<open>calendar.monthrange\<close> that the recurrence code relies on. A
  date is its proleptic Gregorian ordinal (day 1 is 1 January of year 1, as in \<open>date.toordinal\<close>); a
  month has the index \<open>12 * (year - 1) + (month - 1)\<close>, as in \<open>_month_index\<close>. The range limits of the
  Python types (years 1 to 9999) are not part of the arithmetic here.
\<close>

subsection \<open>Years\<close>

definition is_leap :: "int \<Rightarrow> bool" where
  "is_leap y \<longleftrightarrow> y mod 4 = 0 \<and> (y mod 100 \<noteq> 0 \<or> y mod 400 = 0)"

text \<open>The number of leap years among the years 1 to \<open>y\<close>: \<open>_leaps_through\<close>.\<close>

definition leaps_through :: "int \<Rightarrow> int" where
  "leaps_through y = y div 4 - y div 100 + y div 400"

lemma div_pred: "0 < n \<Longrightarrow> (y::int) div n - (y - 1) div n = (if y mod n = 0 then 1 else 0)"
proof -
  assume n: "0 < n"
  have "(y - 1) div n = (if y mod n = 0 then y div n - 1 else y div n)"
  proof (cases "y mod n = 0")
    case True
    then have "y - 1 = n * (y div n - 1) + (n - 1)" by (auto simp: algebra_simps)
    then have "(y - 1) div n = (n * (y div n - 1) + (n - 1)) div n" by (rule arg_cong)
    also have "\<dots> = y div n - 1" using n by (simp add: div_pos_pos_trivial)
    finally show ?thesis using True by simp
  next
    case False
    have "y - 1 = n * (y div n) + (y mod n - 1)" by (simp add: algebra_simps)
    then have "(y - 1) div n = (n * (y div n) + (y mod n - 1)) div n" by (rule arg_cong)
    also have "\<dots> = y div n + (y mod n - 1) div n" using n by simp
    also have "(y mod n - 1) div n = 0"
      using n False pos_mod_bound [OF n, of y] pos_mod_sign [OF n, of y]
      by (simp add: div_pos_pos_trivial)
    finally show ?thesis using False by simp
  qed
  then show ?thesis by simp
qed

lemma mod_400: "(y::int) mod 400 = 0 \<Longrightarrow> y mod 100 = 0" "(y::int) mod 100 = 0 \<Longrightarrow> y mod 4 = 0"
proof -
  assume "y mod 400 = 0"
  then have "400 dvd y" by (simp add: dvd_eq_mod_eq_0)
  then have "100 dvd y" by (rule dvd_trans [rotated]) simp
  then show "y mod 100 = 0" by (simp add: dvd_eq_mod_eq_0)
next
  assume "y mod 100 = 0"
  then have "100 dvd y" by (simp add: dvd_eq_mod_eq_0)
  then have "4 dvd y" by (rule dvd_trans [rotated]) simp
  then show "y mod 4 = 0" by (simp add: dvd_eq_mod_eq_0)
qed

lemma leaps_through_step: "leaps_through y - leaps_through (y - 1) = (if is_leap y then 1 else 0)"
proof -
  have pos4: "0 < (4::int)" and pos100: "0 < (100::int)" and pos400: "0 < (400::int)" by simp_all
  have "leaps_through y - leaps_through (y - 1)
      = (y div 4 - (y - 1) div 4) - (y div 100 - (y - 1) div 100) + (y div 400 - (y - 1) div 400)"
    by (simp add: leaps_through_def)
  also have "\<dots> = (if is_leap y then 1 else 0)"
    unfolding div_pred [OF pos4] div_pred [OF pos100] div_pred [OF pos400] is_leap_def
    using mod_400 [of y] by (cases "y mod 400 = 0"; cases "y mod 100 = 0"; cases "y mod 4 = 0") auto
  finally show ?thesis .
qed

text \<open>The ordinal of the last day before year \<open>y\<close>.\<close>

definition before_year :: "int \<Rightarrow> int" where
  "before_year y = 365 * (y - 1) + leaps_through (y - 1)"

definition year_length :: "int \<Rightarrow> int" where
  "year_length y = (if is_leap y then 366 else 365)"

lemma before_year_step: "before_year (y + 1) = before_year y + year_length y"
  using leaps_through_step [of y] by (simp add: before_year_def year_length_def split: if_splits)

lemma before_year_bounds:
  "400 * before_year (k + 1) \<le> 146097 * k + 396" "146097 * k - 699 \<le> 400 * before_year (k + 1)"
proof -
  have "4 * (k div 4) \<le> k" "k \<le> 4 * (k div 4) + 3" "100 * (k div 100) \<le> k" "k \<le> 100 * (k div 100) + 99"
    "400 * (k div 400) \<le> k" "k \<le> 400 * (k div 400) + 399"
    by presburger+
  then show "400 * before_year (k + 1) \<le> 146097 * k + 396" "146097 * k - 699 \<le> 400 * before_year (k + 1)"
    by (simp_all add: before_year_def leaps_through_def)
qed

text \<open>The year of an ordinal: the average year length gives it or the year before it.\<close>

definition year_of :: "int \<Rightarrow> int" where
  "year_of n = (let k = (400 * (n - 1)) div 146097 in if n \<le> before_year (k + 2) then k + 1 else k + 2)"

lemma year_of_bounds: "before_year (year_of n) < n" "n \<le> before_year (year_of n + 1)"
proof -
  define k where "k = (400 * (n - 1)) div 146097"
  have k: "146097 * k \<le> 400 * (n - 1)" "400 * (n - 1) < 146097 * (k + 1)"
    using mult_div_mod_eq [of 146097 "400 * (n - 1)"] pos_mod_sign [of 146097 "400 * (n - 1)"]
      pos_mod_bound [of 146097 "400 * (n - 1)"] unfolding k_def by simp_all
  have "400 * before_year (k + 1) < 400 * n" using before_year_bounds(1) [of k] k by simp
  then have low: "before_year (k + 1) < n" by simp
  have high: "n \<le> before_year (k + 2 + 1)" using before_year_bounds(2) [of "k + 2"] k by simp
  show "before_year (year_of n) < n" "n \<le> before_year (year_of n + 1)"
    using low high unfolding year_of_def k_def [symmetric] Let_def by (auto simp: add.commute add.assoc)
qed

subsection \<open>Months\<close>

text \<open>\<open>calendar.monthrange(year, month)[1]\<close>\<close>

definition monthrange :: "int \<Rightarrow> int \<Rightarrow> int" where
  "monthrange y m = (if m = 2 then (if is_leap y then 29 else 28)
     else if m \<in> {4, 6, 9, 11} then 30 else 31)"

definition before_month :: "int \<Rightarrow> int \<Rightarrow> int" where
  "before_month y m = sum_list (map (monthrange y) [1..m - 1])"

lemma before_month_step: "1 \<le> m \<Longrightarrow> before_month y (m + 1) = before_month y m + monthrange y m"
  by (simp add: before_month_def upto_rec2)

lemma before_month_first: "before_month y 1 = 0"
  by (simp add: before_month_def)

lemma before_month_end: "before_month y 13 = year_length y"
proof -
  have "[1..12] = [1, 2, 3, 4, 5, 6, 7, 8, 9, 10, 11, 12 :: int]" by (simp add: upto_rec1)
  then show ?thesis by (simp add: before_month_def monthrange_def year_length_def)
qed

lemma monthrange_pos: "28 \<le> monthrange y m" "monthrange y m \<le> 31"
  by (auto simp: monthrange_def)

text \<open>\<open>date(y, m, d).toordinal()\<close>\<close>

definition ymd_ordinal :: "int \<Rightarrow> int \<Rightarrow> int \<Rightarrow> int" where
  "ymd_ordinal y m d = before_year y + before_month y m + d"

definition month_of :: "int \<Rightarrow> int" where
  "month_of n = (let y = year_of n; d = n - before_year y in
     case List.find (\<lambda>m. d \<le> before_month y (m + 1)) [1..12] of Some m \<Rightarrow> m | None \<Rightarrow> 12)"

lemma upto_12: "[1..12] = [1, 2, 3, 4, 5, 6, 7, 8, 9, 10, 11, 12 :: int]"
  by (simp add: upto_rec1)

lemma month_of_range: "1 \<le> month_of n" "month_of n \<le> 12"
proof -
  have "month_of n \<in> set [1..12]"
    by (auto simp: month_of_def Let_def find_Some_iff split: option.splits) 
  then show "1 \<le> month_of n" "month_of n \<le> 12" by simp_all
qed

text \<open>The month index, the first day of a month, and the index of a date's month.\<close>

definition month_index :: "int \<Rightarrow> int \<Rightarrow> int" where
  "month_index y m = (y - 1) * 12 + (m - 1)"

definition index_length :: "int \<Rightarrow> int" where
  "index_length i = monthrange (i div 12 + 1) (i mod 12 + 1)"

definition before_index :: "int \<Rightarrow> int" where
  "before_index i = before_year (i div 12 + 1) + before_month (i div 12 + 1) (i mod 12 + 1)"

definition index_of :: "int \<Rightarrow> int" where
  "index_of n = month_index (year_of n) (month_of n)"

lemma month_index_inverse:
  assumes "1 \<le> m" and "m \<le> 12"
  shows "month_index y m div 12 + 1 = y" and "month_index y m mod 12 + 1 = m"
  using assms unfolding month_index_def by presburger+

lemma before_index_step: "before_index (i + 1) = before_index i + index_length i"
proof -
  define y m where "y = i div 12 + 1" and "m = i mod 12 + 1"
  have here: "before_index i = before_year y + before_month y m" "index_length i = monthrange y m"
    by (simp_all add: before_index_def index_length_def y_def m_def)
  have m: "1 \<le> m" by (simp add: m_def)
  show ?thesis
  proof (cases "m = 12")
    case True
    then have "(i + 1) div 12 + 1 = y + 1" "(i + 1) mod 12 + 1 = 1"
      unfolding y_def m_def by presburger+
    then have "before_index (i + 1) = before_year (y + 1)"
      by (simp only: before_index_def before_month_first)
    then show ?thesis
      using True before_month_end [of y] before_month_step [of 12 y] by (simp add: here before_year_step)
  next
    case False
    then have "(i + 1) div 12 + 1 = y" "(i + 1) mod 12 + 1 = m + 1"
      unfolding y_def m_def by presburger+
    then have "before_index (i + 1) = before_year y + before_month y (m + 1)"
      by (simp only: before_index_def)
    then show ?thesis by (simp add: here before_month_step [OF m])
  qed
qed

lemma index_length_pos: "28 \<le> index_length i" "index_length i \<le> 31"
  by (simp_all add: index_length_def monthrange_pos)

lemma before_index_mono: "i \<le> j \<Longrightarrow> before_index i \<le> before_index j"
proof (induction j rule: int_ge_induct [where k = i, case_names base step])
  case (step j)
  then show ?case using index_length_pos(1) [of j] by (simp add: before_index_step)
qed simp_all

lemma month_of_bounds:
  "before_month (year_of n) (month_of n) < n - before_year (year_of n)"
  "n - before_year (year_of n) \<le> before_month (year_of n) (month_of n + 1)"
proof -
  define y d where "y = year_of n" and "d = n - before_year y"
  have d: "1 \<le> d" "d \<le> before_month y 13"
    using year_of_bounds [of n] before_year_step [of y] by (simp_all add: y_def d_def before_month_end)
  then have "List.find (\<lambda>m. d \<le> before_month y (m + 1)) [1..12] \<noteq> None"
    by (auto simp: find_None_iff intro!: bexI [of _ 12])
  then obtain m where m: "List.find (\<lambda>m. d \<le> before_month y (m + 1)) [1..12] = Some m" by auto
  then obtain k where k: "k < 12" "m = [1..12] ! k" "d \<le> before_month y (m + 1)"
      "\<forall>j < k. \<not> d \<le> before_month y ([1..12] ! j + 1)"
    by (auto simp: find_Some_iff)
  have "before_month y m < d"
  proof (cases k)
    case 0
    then show ?thesis using k d by (simp add: before_month_first)
  next
    case (Suc j)
    then have "[1..12] ! j + 1 = m" using k by simp
    then show ?thesis using k(4) Suc by force
  qed
  moreover have "month_of n = m"
    using m by (simp add: month_of_def y_def d_def Let_def)
  ultimately show "before_month (year_of n) (month_of n) < n - before_year (year_of n)"
    "n - before_year (year_of n) \<le> before_month (year_of n) (month_of n + 1)"
    using k(3) by (simp_all add: y_def d_def)
qed

text \<open>A date lies in exactly one month, and that is its index.\<close>

lemma index_of_bounds: "before_index (index_of n) < n" "n \<le> before_index (index_of n + 1)"
proof -
  have inverse: "index_of n div 12 + 1 = year_of n" "index_of n mod 12 + 1 = month_of n"
    unfolding index_of_def using month_index_inverse [OF month_of_range [of n]] by simp_all
  show low: "before_index (index_of n) < n"
    using month_of_bounds(1) [of n] by (simp add: before_index_def inverse)
  have "before_index (index_of n + 1) = before_index (index_of n) + index_length (index_of n)"
    by (rule before_index_step)
  also have "\<dots> = before_year (year_of n) + before_month (year_of n) (month_of n + 1)"
    by (simp add: before_month_step [OF month_of_range(1)] before_index_def index_length_def inverse)
  finally have "before_index (index_of n + 1)
      = before_year (year_of n) + before_month (year_of n) (month_of n + 1)" .
  then show "n \<le> before_index (index_of n + 1)" using month_of_bounds(2) [of n] by simp
qed

lemma index_of_unique: "before_index i < n \<Longrightarrow> n \<le> before_index (i + 1) \<Longrightarrow> index_of n = i"
proof -
  assume n: "before_index i < n" "n \<le> before_index (i + 1)"
  have "\<not> index_of n < i"
    using before_index_mono [of "index_of n + 1" i] index_of_bounds(2) [of n] n by auto
  moreover have "\<not> i < index_of n"
    using before_index_mono [of "i + 1" "index_of n"] index_of_bounds(1) [of n] n by auto
  ultimately show ?thesis by simp
qed

lemma index_of_mono: "n \<le> k \<Longrightarrow> index_of n \<le> index_of k"
proof (rule ccontr)
  assume "n \<le> k" and "\<not> index_of n \<le> index_of k"
  then have "before_index (index_of k + 1) \<le> before_index (index_of n)"
    by (intro before_index_mono) simp
  then show False using \<open>n \<le> k\<close> index_of_bounds [of n] index_of_bounds [of k] by simp
qed

lemma before_month_index:
  assumes "1 \<le> m" and "m \<le> 12"
  shows "before_index (month_index y m) = before_year y + before_month y m"
    and "index_length (month_index y m) = monthrange y m"
  by (simp_all only: before_index_def index_length_def month_index_inverse [OF assms])

lemma ymd_index:
  assumes "1 \<le> m" and "m \<le> 12" and "1 \<le> d" and "d \<le> monthrange y m"
  shows "index_of (ymd_ordinal y m d) = month_index y m"
proof (rule index_of_unique)
  show "before_index (month_index y m) < ymd_ordinal y m d"
    using assms by (simp add: before_month_index ymd_ordinal_def)
  show "ymd_ordinal y m d \<le> before_index (month_index y m + 1)"
    unfolding before_index_step using assms by (simp add: before_month_index ymd_ordinal_def)
qed

lemma year_of_index: "year_of n = index_of n div 12 + 1"
  unfolding index_of_def using month_index_inverse(1) [OF month_of_range [of n]] by simp

lemma month_of_index: "month_of n = index_of n mod 12 + 1"
  unfolding index_of_def using month_index_inverse(2) [OF month_of_range [of n]] by simp

lemma year_of_mono: "n \<le> k \<Longrightarrow> year_of n \<le> year_of k"
  using index_of_mono [of n k] by (simp add: year_of_index zdiv_mono1)

text \<open>Round trip: the ordinal of the year, month and day of a date is the date.\<close>

definition day_of :: "int \<Rightarrow> int" where
  "day_of n = n - before_index (index_of n)"

lemma ymd_of_ordinal: "ymd_ordinal (year_of n) (month_of n) (day_of n) = n"
  by (simp add: ymd_ordinal_def day_of_def before_index_def year_of_index month_of_index)

lemma day_of_range: "1 \<le> day_of n" "day_of n \<le> monthrange (year_of n) (month_of n)"
  using index_of_bounds [of n] before_index_step [of "index_of n"]
  by (simp_all add: day_of_def index_length_def year_of_index month_of_index)

lemma ymd_components:
  assumes "1 \<le> m" and "m \<le> 12" and "1 \<le> d" and "d \<le> monthrange y m"
  shows "year_of (ymd_ordinal y m d) = y" and "month_of (ymd_ordinal y m d) = m"
    and "day_of (ymd_ordinal y m d) = d"
  using month_index_inverse [OF assms(1,2), of y] before_month_index(1) [OF assms(1,2), of y]
  by (simp_all add: year_of_index month_of_index day_of_def ymd_index [OF assms])
    (simp add: ymd_ordinal_def)

text \<open>\<open>date.isoweekday()\<close>: Monday is 1.\<close>

definition isoweekday :: "int \<Rightarrow> int" where
  "isoweekday n = (n - 1) mod 7 + 1"

end
