(* ===== verification/Recurrence.thy ===== *)
theory Recurrence
  imports Prelude Calendar
begin

text \<open>
  Recurring schedules: the cadence values and validators of \<open>domain/schedules.py\<close> and the calculator of
  \<open>domain/recurrence.py\<close>. The time zone database is an argument: a zone gives the wall clock at an
  instant and, for a wall clock reading and a fold, the instant Python's \<open>replace(tzinfo=zone,
  fold=...).astimezone(UTC)\<close> computes. Wall clock readings are microseconds since 1970-01-01 00:00 on
  that clock. References are aware by type. The message of the error for a date without any valid
  instant leaves out the zone and the date.
\<close>

subsection \<open>Cadences\<close>

datatype cadence =
    OnceCadence instant
  | DailyCadence int string
  | WeeklyCadence int "int list" string
  | MonthlyCadence int "int list" bool string
  | YearlyCadence int "(int \<times> int) list" string
  | IntervalCadence int string

definition weekdays_are_unique_iso_values :: "int list \<Rightarrow> int list res" where
  "weekdays_are_unique_iso_values ws =
     (if ws = [] \<or> (\<exists>d \<in> set ws. d < 1 \<or> 7 < d)
      then Inl (ValueError ''weekdays must contain values 1 through 7'')
      else if card (set ws) \<noteq> length ws then Inl (ValueError ''weekdays must be unique'')
      else Inr (sort ws))"

definition days_are_unique_calendar_values :: "int list \<Rightarrow> int list res" where
  "days_are_unique_calendar_values ds =
     (if \<exists>d \<in> set ds. d < 1 \<or> 31 < d
      then Inl (ValueError ''days_of_month must contain values 1 through 31'')
      else if card (set ds) \<noteq> length ds then Inl (ValueError ''days_of_month must be unique'')
      else Inr (sort ds))"

definition selector_is_present :: "int list \<Rightarrow> bool \<Rightarrow> unit res" where
  "selector_is_present ds last_day =
     (if ds = [] \<and> \<not> last_day
      then Inl (ValueError ''monthly cadence requires a numbered-day or last-day selector'')
      else Inr ())"

text \<open>\<open>MonthDay\<close>: the field bounds and \<open>date_is_possible\<close>.\<close>

definition date_is_possible :: "int \<times> int \<Rightarrow> (int \<times> int) res" where
  "date_is_possible md = (case md of (m, d) \<Rightarrow>
     if m < 1 \<or> 12 < m \<or> d < 1 \<or> 31 < d then Inl (ValueError ''month or day out of range'')
     else if d > monthrange 2000 m
     then Inl (ValueError ''yearly date must be a possible Gregorian date'') else Inr md)"

definition dates_are_unique_and_sorted :: "(int \<times> int) list \<Rightarrow> (int \<times> int) list res" where
  "dates_are_unique_and_sorted ds =
     (if ds = [] then Inl (ValueError ''yearly cadence requires at least one date selector'')
      else if card (set ds) \<noteq> length ds then Inl (ValueError ''yearly dates must be unique'')
      else Inr (sort ds))"

text \<open>Whole seconds of a day, in microseconds, for \<open>_validate_local_time\<close>.\<close>

definition day_us :: int where
  "day_us = 86400000000"

definition local_time_ok :: "int \<Rightarrow> bool" where
  "local_time_ok t \<longleftrightarrow> 0 \<le> t \<and> t < day_us \<and> t mod 1000000 = 0"

text \<open>A cadence as its validators leave it.\<close>

fun cadence_ok :: "cadence \<Rightarrow> bool" where
  "cadence_ok (OnceCadence t) = True"
| "cadence_ok (DailyCadence t z) = local_time_ok t"
| "cadence_ok (WeeklyCadence t ws z) =
     (local_time_ok t \<and> weekdays_are_unique_iso_values ws = Inr ws)"
| "cadence_ok (MonthlyCadence t ds last_day z) =
     (local_time_ok t \<and> days_are_unique_calendar_values ds = Inr ds
      \<and> selector_is_present ds last_day = Inr ())"
| "cadence_ok (YearlyCadence t ds z) =
     (local_time_ok t \<and> (\<forall>d \<in> set ds. date_is_possible d = Inr d)
      \<and> dates_are_unique_and_sorted ds = Inr ds)"
| "cadence_ok (IntervalCadence n z) = (1 \<le> n \<and> n \<le> 1440)"

subsection \<open>Time zones\<close>

record zone_info =
  zi_wall :: "instant \<Rightarrow> int"
  zi_utc :: "int \<Rightarrow> bool \<Rightarrow> instant"

type_synonym zone_db = "string \<Rightarrow> zone_info"

definition wall_date :: "int \<Rightarrow> int" where
  "wall_date l = 719163 + l div day_us"

definition date_at :: "zone_info \<Rightarrow> instant \<Rightarrow> int" where
  "date_at z u = wall_date (zi_wall z u)"

definition valid_instants :: "zone_info \<Rightarrow> int \<Rightarrow> instant list" where
  "valid_instants z l = filter (\<lambda>u. zi_wall z u = l) [zi_utc z l False, zi_utc z l True]"

abbreviation no_valid_instant :: error where
  "no_valid_instant \<equiv> ValueError ''timezone has no valid instant on the date''"

text \<open>The loop of \<open>_resolve_civil\<close>: second by second until the wall clock leaves the date.\<close>

function resolve_from :: "zone_info \<Rightarrow> int \<Rightarrow> int \<Rightarrow> instant res" where
  "resolve_from z d l =
     (if wall_date l = d
      then (if valid_instants z l \<noteq> [] then Inr (Min (set (valid_instants z l)))
            else resolve_from z d (l + 1000000))
      else Inl no_valid_instant)"
  by pat_completeness auto

termination
proof (relation "measure (\<lambda>(z, d, l). nat ((d - 719162) * day_us - l))")
  fix z :: zone_info and d l :: int
  assume "wall_date l = d"
  then have d: "d = l div day_us + 719163" by (simp add: wall_date_def)
  have "l < day_us * (l div day_us) + day_us"
    using mult_div_mod_eq [of day_us l] pos_mod_bound [of day_us l] by (simp add: day_us_def)
  then have "l < (d - 719162) * day_us" by (simp add: d algebra_simps)
  then show "((z, d, l + 1000000), z, d, l) \<in> measure (\<lambda>(z, d, l). nat ((d - 719162) * day_us - l))"
    by simp
qed simp

declare resolve_from.simps [simp del]

definition resolve_civil :: "zone_info \<Rightarrow> int \<Rightarrow> int \<Rightarrow> instant res" where
  "resolve_civil z t d = resolve_from z d ((d - 719163) * day_us + t)"

subsection \<open>Selected dates\<close>

definition matches :: "int list option \<Rightarrow> int \<Rightarrow> bool" where
  "matches weekdays d = (case weekdays of None \<Rightarrow> True | Some ws \<Rightarrow> isoweekday d \<in> set ws)"

definition monthly_dates :: "int list \<Rightarrow> bool \<Rightarrow> int \<times> int \<Rightarrow> int list" where
  "monthly_dates days last_day ym = (case ym of (y, m) \<Rightarrow>
     let last_one = monthrange y m;
         selected = filter (\<lambda>d. d \<le> last_one) days @ (if last_day then [last_one] else [])
     in map (ymd_ordinal y m) (sort (remdups selected)))"

definition yearly_dates :: "(int \<times> int) list \<Rightarrow> int \<Rightarrow> int list" where
  "yearly_dates dates y =
     map (\<lambda>(m, d). ymd_ordinal y m d) (filter (\<lambda>(m, d). d \<le> monthrange y m) dates)"

definition shift_month :: "int \<Rightarrow> int \<Rightarrow> int \<Rightarrow> (int \<times> int) option" where
  "shift_month y m offset =
     (let i = (y - 1) * 12 + (m - 1) + offset
      in if i < 0 \<or> i \<ge> 9999 * 12 then None else Some (i div 12 + 1, i mod 12 + 1))"

definition shift_year :: "int \<Rightarrow> int \<Rightarrow> int option" where
  "shift_year y offset = (if y + offset > 9999 \<or> y + offset < 1 then None else Some (y + offset))"

subsection \<open>Searching\<close>

fun search_days ::
    "(int \<Rightarrow> bool) \<Rightarrow> (int \<Rightarrow> instant res) \<Rightarrow> (instant \<Rightarrow> bool) \<Rightarrow> int list \<Rightarrow> instant option res" where
  "search_days match resolve eligible [] = Inr None"
| "search_days match resolve eligible (d # ds) =
     (if match d
      then rbind (resolve d) (\<lambda>c. if eligible c then Inr (Some c)
             else search_days match resolve eligible ds)
      else search_days match resolve eligible ds)"

fun search_periods ::
    "(int \<Rightarrow> int list option) \<Rightarrow> (int \<Rightarrow> instant res) \<Rightarrow> (instant \<Rightarrow> bool) \<Rightarrow>
       (instant list \<Rightarrow> instant) \<Rightarrow> int list \<Rightarrow> instant option res" where
  "search_periods dates resolve eligible pick [] = Inr None"
| "search_periods dates resolve eligible pick (k # ks) = (case dates k of
      None \<Rightarrow> Inr None
    | Some ds \<Rightarrow> rbind (map_res resolve ds) (\<lambda>candidates.
        let chosen = filter eligible candidates
        in if chosen \<noteq> [] then Inr (Some (pick chosen))
           else search_periods dates resolve eligible pick ks))"

definition earliest :: "instant list \<Rightarrow> instant" where
  "earliest us = Min (set us)"

definition newest :: "instant list \<Rightarrow> instant" where
  "newest us = Max (set us)"

definition month_period :: "zone_info \<Rightarrow> int list \<Rightarrow> bool \<Rightarrow> instant \<Rightarrow> int \<Rightarrow> int list option" where
  "month_period z days last_day ref offset = map_option (monthly_dates days last_day)
     (shift_month (year_of (date_at z ref)) (month_of (date_at z ref)) offset)"

definition year_period :: "zone_info \<Rightarrow> (int \<times> int) list \<Rightarrow> instant \<Rightarrow> int \<Rightarrow> int list option" where
  "year_period z dates ref offset = map_option (yearly_dates dates)
     (shift_year (year_of (date_at z ref)) offset)"

definition next_monthly ::
    "int \<Rightarrow> int list \<Rightarrow> bool \<Rightarrow> instant \<Rightarrow> zone_info \<Rightarrow> instant option res" where
  "next_monthly t days last_day ref z =
     search_periods (month_period z days last_day ref) (resolve_civil z t) (\<lambda>c. c > ref) earliest [0..23]"

definition latest_monthly ::
    "int \<Rightarrow> int list \<Rightarrow> bool \<Rightarrow> instant \<Rightarrow> zone_info \<Rightarrow> instant option res" where
  "latest_monthly t days last_day ref z =
     search_periods (\<lambda>k. month_period z days last_day ref (- k)) (resolve_civil z t) (\<lambda>c. c \<le> ref) newest [0..23]"

definition next_yearly ::
    "int \<Rightarrow> (int \<times> int) list \<Rightarrow> instant \<Rightarrow> zone_info \<Rightarrow> instant option res" where
  "next_yearly t dates ref z =
     search_periods (year_period z dates ref) (resolve_civil z t) (\<lambda>c. c > ref) earliest [0..9]"

definition latest_yearly ::
    "int \<Rightarrow> (int \<times> int) list \<Rightarrow> instant \<Rightarrow> zone_info \<Rightarrow> instant option res" where
  "latest_yearly t dates ref z =
     search_periods (\<lambda>k. year_period z dates ref (- k)) (resolve_civil z t) (\<lambda>c. c \<le> ref) newest [0..9]"

subsection \<open>Intervals\<close>

definition interval_index :: "int \<Rightarrow> instant \<Rightarrow> int" where
  "interval_index every ref = ref div (every * 60000000)"

definition interval_at :: "int \<Rightarrow> int \<Rightarrow> instant" where
  "interval_at every index = index * (every * 60000000)"

subsection \<open>The calculator\<close>

fun next_after :: "zone_db \<Rightarrow> cadence \<Rightarrow> instant \<Rightarrow> instant option res" where
  "next_after db (OnceCadence t) ref = Inr (if t > ref then Some t else None)"
| "next_after db (IntervalCadence n _) ref = Inr (Some (interval_at n (interval_index n ref + 1)))"
| "next_after db (MonthlyCadence t days last_day tz) ref = next_monthly t days last_day ref (db tz)"
| "next_after db (YearlyCadence t dates tz) ref = next_yearly t dates ref (db tz)"
| "next_after db (DailyCadence t tz) ref =
     (let z = db tz; today = date_at z ref
      in search_days (matches None) (resolve_civil z t) (\<lambda>c. c > ref) [today, today + 1])"
| "next_after db (WeeklyCadence t ws tz) ref =
     (let z = db tz; today = date_at z ref
      in search_days (matches (Some ws)) (resolve_civil z t) (\<lambda>c. c > ref) [today..today + 7])"

fun latest_at_or_before :: "zone_db \<Rightarrow> cadence \<Rightarrow> instant \<Rightarrow> instant option res" where
  "latest_at_or_before db (OnceCadence t) ref = Inr (if t \<le> ref then Some t else None)"
| "latest_at_or_before db (IntervalCadence n _) ref = Inr (Some (interval_at n (interval_index n ref)))"
| "latest_at_or_before db (MonthlyCadence t days last_day tz) ref =
     latest_monthly t days last_day ref (db tz)"
| "latest_at_or_before db (YearlyCadence t dates tz) ref = latest_yearly t dates ref (db tz)"
| "latest_at_or_before db (DailyCadence t tz) ref =
     (let z = db tz; today = date_at z ref
      in search_days (matches None) (resolve_civil z t) (\<lambda>c. c \<le> ref) [today, today - 1])"
| "latest_at_or_before db (WeeklyCadence t ws tz) ref =
     (let z = db tz; today = date_at z ref
      in search_days (matches (Some ws)) (resolve_civil z t) (\<lambda>c. c \<le> ref) (rev [today - 7..today]))"

subsection \<open>Counting\<close>

definition count_month_numbers :: "int \<Rightarrow> int \<Rightarrow> int list \<Rightarrow> int" where
  "count_month_numbers start stop months = sum_list (map (\<lambda>month.
     let first = start + ((month - 1 - start) mod 12)
     in if first \<le> stop then (stop - first) div 12 + 1 else 0) months)"

definition count_leap_years :: "int \<Rightarrow> int \<Rightarrow> int" where
  "count_leap_years first_year last_year =
     (if last_year < first_year then 0 else leaps_through last_year - leaps_through (first_year - 1))"

definition count_leap_februaries :: "int \<Rightarrow> int \<Rightarrow> int" where
  "count_leap_februaries start stop =
     (let first = start + ((1 - start) mod 12)
      in if first > stop then 0
         else let final = stop - ((stop - 1) mod 12)
              in count_leap_years (first div 12 + 1) (final div 12 + 1))"

text \<open>The closed form over whole months, before the boundary months are corrected.\<close>

definition whole_months :: "int list \<Rightarrow> bool \<Rightarrow> int \<Rightarrow> int \<Rightarrow> int" where
  "whole_months days last_day start stop =
     (let total = stop - start + 1;
          february = count_month_numbers start stop [2];
          leap_february = count_leap_februaries start stop;
          thirty_day = count_month_numbers start stop [4, 6, 9, 11];
          thirty_one_day = count_month_numbers start stop [1, 3, 5, 7, 8, 10, 12];
          count = sum_list (map (\<lambda>day.
            if day \<le> 28 then total
            else if day = 29 then total - (february - leap_february)
            else if day = 30 then total - february
            else thirty_one_day) days)
      in if last_day
         then count + total
           - (if 28 \<in> set days then february - leap_february else 0)
           - (if 29 \<in> set days then leap_february else 0)
           - (if 30 \<in> set days then thirty_day else 0)
           - (if 31 \<in> set days then thirty_one_day else 0)
         else count)"

definition count_outside :: "instant \<Rightarrow> instant \<Rightarrow> instant list \<Rightarrow> int" where
  "count_outside first final candidates =
     int (length (filter (\<lambda>c. c < first \<or> c > final) candidates))"

definition outside_boundary_months ::
    "int \<Rightarrow> int list \<Rightarrow> bool \<Rightarrow> instant \<Rightarrow> instant \<Rightarrow> zone_info \<Rightarrow> int res" where
  "outside_boundary_months t days last_day first final z =
     rbind (map_res (\<lambda>ym. map_res (resolve_civil z t) (monthly_dates days last_day ym))
         (remdups [(year_of (date_at z first), month_of (date_at z first)),
                   (year_of (date_at z final), month_of (date_at z final))]))
       (\<lambda>groups. Inr (sum_list (map (count_outside first final) groups)))"

definition count_monthly ::
    "int \<Rightarrow> int list \<Rightarrow> bool \<Rightarrow> instant \<Rightarrow> instant \<Rightarrow> zone_info \<Rightarrow> int res" where
  "count_monthly t days last_day first final z =
     rbind (outside_boundary_months t days last_day first final z) (\<lambda>outside.
       Inr (whole_months days last_day (index_of (date_at z first)) (index_of (date_at z final)) - outside))"

definition whole_years :: "(int \<times> int) list \<Rightarrow> int \<Rightarrow> int \<Rightarrow> int" where
  "whole_years dates first_year last_year =
     sum_list (map (\<lambda>md. if md = (2, 29) then count_leap_years first_year last_year
       else last_year - first_year + 1) dates)"

definition count_yearly ::
    "int \<Rightarrow> (int \<times> int) list \<Rightarrow> instant \<Rightarrow> instant \<Rightarrow> zone_info \<Rightarrow> int res" where
  "count_yearly t dates first final z =
     (let first_year = year_of (date_at z first); last_year = year_of (date_at z final)
      in rbind (map_res (\<lambda>y. map_res (resolve_civil z t) (yearly_dates dates y))
             (remdups [first_year, last_year]))
           (\<lambda>groups. Inr (whole_years dates first_year last_year
              - sum_list (map (count_outside first final) groups))))"

definition count_weekdays :: "int list \<Rightarrow> int \<Rightarrow> int \<Rightarrow> int" where
  "count_weekdays ws first_date day_count =
     day_count div 7 * int (length ws)
     + int (length (filter (\<lambda>offset. isoweekday (first_date + offset) \<in> set ws) [0..day_count mod 7 - 1]))"

definition count_between :: "zone_db \<Rightarrow> cadence \<Rightarrow> instant \<Rightarrow> instant \<Rightarrow> int res" where
  "count_between db c first final =
     (if final < first then Inr 0
      else case c of
        OnceCadence t \<Rightarrow> Inr (if first \<le> t \<and> t \<le> final then 1 else 0)
      | IntervalCadence n _ \<Rightarrow> Inr (interval_index n final - interval_index n (first - 1))
      | DailyCadence t tz \<Rightarrow> Inr (date_at (db tz) final - date_at (db tz) first + 1)
      | WeeklyCadence t ws tz \<Rightarrow>
          Inr (count_weekdays ws (date_at (db tz) first)
            (date_at (db tz) final - date_at (db tz) first + 1))
      | MonthlyCadence t days last_day tz \<Rightarrow> count_monthly t days last_day first final (db tz)
      | YearlyCadence t dates tz \<Rightarrow> count_yearly t dates first final (db tz))"

subsection \<open>Civil dates and instants\<close>

text \<open>
  A zone is steady when its calendar date never moves backwards as time passes. Every zone whose
  offset changes do not set the clock back across midnight is steady.
\<close>

definition steady :: "zone_info \<Rightarrow> bool" where
  "steady z \<longleftrightarrow> (\<forall>u v. u \<le> v \<longrightarrow> date_at z u \<le> date_at z v)"

lemma steady_mono: "steady z \<Longrightarrow> u \<le> v \<Longrightarrow> date_at z u \<le> date_at z v"
  by (simp add: steady_def)

lemma steady_less: "steady z \<Longrightarrow> date_at z u < date_at z v \<Longrightarrow> u < v"
  by (meson linorder_not_less steady_mono)

lemma resolve_from_date: "resolve_from z d l = Inr u \<Longrightarrow> date_at z u = d"
proof (induction z d l rule: resolve_from.induct)
  case (1 z d l)
  show ?case
  proof (cases "valid_instants z l = []")
    case True
    then show ?thesis using 1 by (simp add: resolve_from.simps [of z d l] split: if_splits)
  next
    case False
    then have "Min (set (valid_instants z l)) \<in> set (valid_instants z l)" by (intro Min_in) auto
    then show ?thesis
      using 1(2) False by (auto simp: resolve_from.simps [of z d l] valid_instants_def date_at_def min_def split: if_splits)
  qed
qed

lemma resolve_civil_date: "resolve_civil z t d = Inr u \<Longrightarrow> date_at z u = d"
  unfolding resolve_civil_def by (rule resolve_from_date)

subsection \<open>Searching finds the nearest instant\<close>

text \<open>
  The calendar is cut into consecutive periods (days, months, years) numbered by \<open>per\<close>. The search
  looks at the selected dates of one period after the other.
\<close>

definition hits :: "(int \<Rightarrow> bool) \<Rightarrow> (int \<Rightarrow> instant res) \<Rightarrow> instant set" where
  "hits sel R = {u. \<exists>d. sel d \<and> R d = Inr u}"

definition least_after :: "instant set \<Rightarrow> instant \<Rightarrow> instant \<Rightarrow> bool" where
  "least_after N ref u \<longleftrightarrow> u \<in> N \<and> ref < u \<and> (\<forall>v \<in> N. ref < v \<longrightarrow> u \<le> v)"

definition greatest_upto :: "instant set \<Rightarrow> instant \<Rightarrow> instant \<Rightarrow> bool" where
  "greatest_upto N ref u \<longleftrightarrow> u \<in> N \<and> u \<le> ref \<and> (\<forall>v \<in> N. v \<le> ref \<longrightarrow> v \<le> u)"

lemma search_periods_sound:
  assumes "search_periods dates R eligible pick ks = Inr (Some u)"
    and "\<And>us. us \<noteq> [] \<Longrightarrow> pick us \<in> set us"
  shows "\<exists>ks1 k ks2 ds. ks = ks1 @ k # ks2 \<and> dates k = Some ds
    \<and> (\<exists>us. u = pick us \<and> u \<in> set us
          \<and> set us = {v. eligible v \<and> (\<exists>d \<in> set ds. R d = Inr v)})
    \<and> (\<forall>j \<in> set ks1. \<exists>es. dates j = Some es \<and> (\<forall>d \<in> set es. \<forall>v. R d = Inr v \<longrightarrow> \<not> eligible v))"
  using assms(1)
proof (induction ks)
  case (Cons k ks)
  obtain ds where ds: "dates k = Some ds" using Cons.prems by (auto split: option.splits)
  then obtain cs where cs: "map_res R ds = Inr cs"
    using Cons.prems by (auto elim: rbind_InrE)
  note cset = map_res_set [OF cs]
  show ?case
  proof (cases "filter eligible cs = []")
    case False
    define us where "us = filter eligible cs"
    have "u = pick us" using Cons.prems ds cs False by (simp add: us_def)
    moreover have "u \<in> set us" using calculation assms(2) [of us] False by (simp add: us_def)
    moreover have "set us = {v. eligible v \<and> (\<exists>d \<in> set ds. R d = Inr v)}"
      using cset by (auto simp: us_def)
    ultimately show ?thesis
      using ds by (intro exI [of _ "[]"] exI [of _ k] exI [of _ ks] exI [of _ ds]) (auto intro!: exI [of _ us])
  next
    case True
    then have "search_periods dates R eligible pick ks = Inr (Some u)"
      using Cons.prems ds cs by simp
    from Cons.IH [OF this] obtain ks1 k' ks2 ds' where IH: "ks = ks1 @ k' # ks2" "dates k' = Some ds'"
        "\<exists>us. u = pick us \<and> u \<in> set us
          \<and> set us = {v. eligible v \<and> (\<exists>d \<in> set ds'. R d = Inr v)}"
        "\<forall>j \<in> set ks1. \<exists>es. dates j = Some es \<and> (\<forall>d \<in> set es. \<forall>v. R d = Inr v \<longrightarrow> \<not> eligible v)"
      by blast
    moreover have "\<forall>d \<in> set ds. \<forall>v. R d = Inr v \<longrightarrow> \<not> eligible v"
      using True cset by (auto simp: filter_empty_conv)
    ultimately show ?thesis
      using ds by (intro exI [of _ "k # ks1"] exI [of _ k'] exI [of _ ks2] exI [of _ ds']) auto
  qed
qed simp

lemma upto_split:
  assumes "[0..n] = ks1 @ k # ks2"
  shows "0 \<le> k" and "k \<le> n" and "set ks1 = {0..<k}"
proof -
  have sorted: "sorted_wrt (<) (ks1 @ k # ks2)" unfolding assms [symmetric] by (rule sorted_wrt_upto)
  have set: "set ks1 \<union> insert k (set ks2) = {0..n}" using arg_cong [OF assms, of set] by simp
  show range: "0 \<le> k" "k \<le> n" using set by auto
  show "set ks1 = {0..<k}"
  proof
    show "set ks1 \<subseteq> {0..<k}" using sorted set by (auto simp: sorted_wrt_append)
    show "{0..<k} \<subseteq> set ks1"
    proof
      fix j assume j: "j \<in> {0..<k}"
      then have "j \<in> set ks1 \<union> insert k (set ks2)" using range unfolding set by auto
      then show "j \<in> set ks1" using j sorted by (auto simp: sorted_wrt_append)
    qed
  qed
qed

lemma search_up_least:
  assumes "steady z" and date: "\<And>d u. R d = Inr u \<Longrightarrow> date_at z u = d"
    and mono: "\<And>d e. d \<le> e \<Longrightarrow> (per d :: int) \<le> per e"
    and dates: "\<And>k ds. dates k = Some ds \<Longrightarrow> set ds = {d. sel d \<and> per d = per (date_at z ref) + k}"
    and found: "search_periods dates R (\<lambda>c. ref < c) earliest [0..n] = Inr (Some u)"
  shows "least_after (hits sel R) ref u"
proof -
  have "earliest us \<in> set us" if "us \<noteq> []" for us :: "instant list"
    using that by (simp add: earliest_def)
  from search_periods_sound [OF found this] obtain ks1 k ks2 ds us where
      ks: "[0..n] = ks1 @ k # ks2" and ds: "dates k = Some ds"
      and us: "u = earliest us" "u \<in> set us" "set us = {v. ref < v \<and> (\<exists>d \<in> set ds. R d = Inr v)}"
      and skipped: "\<forall>j \<in> set ks1. \<exists>es. dates j = Some es
        \<and> (\<forall>d \<in> set es. \<forall>v. R d = Inr v \<longrightarrow> \<not> ref < v)"
    by blast
  obtain d where d: "d \<in> set ds" "R d = Inr u" "ref < u" using us(2,3) by auto
  have "u \<le> v" if v: "sel e" "R e = Inr v" "ref < v" for e v
  proof -
    define j where "j = per e - per (date_at z ref)"
    have "0 \<le> j"
      using mono [OF steady_mono [OF assms(1), of ref v]] v(3) date [OF v(2)] by (simp add: j_def)
    then consider "j \<in> set ks1" | "j = k" | "k < j" using upto_split(3) [OF ks] by fastforce
    then show ?thesis
    proof cases
      case 1
      then show ?thesis using skipped dates [of j] v by (auto simp: j_def)
    next
      case 2
      then have "v \<in> set us" using us(3) dates [OF ds] v by (auto simp: j_def)
      then show ?thesis by (simp add: us(1) earliest_def)
    next
      case 3
      then have "per d < per e" using dates [OF ds] d(1) by (auto simp: j_def)
      then have "d < e" using mono [of e d] by linarith
      then show ?thesis using steady_less [OF assms(1), of u v] date d(2) v(2) by auto
    qed
  qed
  then show ?thesis using d dates [OF ds] by (auto simp: least_after_def hits_def)
qed

lemma search_down_greatest:
  assumes "steady z" and date: "\<And>d u. R d = Inr u \<Longrightarrow> date_at z u = d"
    and mono: "\<And>d e. d \<le> e \<Longrightarrow> (per d :: int) \<le> per e"
    and dates: "\<And>k ds. dates k = Some ds \<Longrightarrow> set ds = {d. sel d \<and> per d = per (date_at z ref) - k}"
    and found: "search_periods dates R (\<lambda>c. c \<le> ref) newest [0..n] = Inr (Some u)"
  shows "greatest_upto (hits sel R) ref u"
proof -
  have "newest us \<in> set us" if "us \<noteq> []" for us :: "instant list"
    using that by (simp add: newest_def)
  from search_periods_sound [OF found this] obtain ks1 k ks2 ds us where
      ks: "[0..n] = ks1 @ k # ks2" and ds: "dates k = Some ds"
      and us: "u = newest us" "u \<in> set us" "set us = {v. v \<le> ref \<and> (\<exists>d \<in> set ds. R d = Inr v)}"
      and skipped: "\<forall>j \<in> set ks1. \<exists>es. dates j = Some es
        \<and> (\<forall>d \<in> set es. \<forall>v. R d = Inr v \<longrightarrow> \<not> v \<le> ref)"
    by blast
  obtain d where d: "d \<in> set ds" "R d = Inr u" "u \<le> ref" using us(2,3) by auto
  have "v \<le> u" if v: "sel e" "R e = Inr v" "v \<le> ref" for e v
  proof -
    define j where "j = per (date_at z ref) - per e"
    have "0 \<le> j"
      using mono [OF steady_mono [OF assms(1), of v ref]] v(3) date [OF v(2)] by (simp add: j_def)
    then consider "j \<in> set ks1" | "j = k" | "k < j" using upto_split(3) [OF ks] by fastforce
    then show ?thesis
    proof cases
      case 1
      then show ?thesis using skipped dates [of j] v by (auto simp: j_def)
    next
      case 2
      then have "v \<in> set us" using us(3) dates [OF ds] v by (auto simp: j_def)
      then show ?thesis by (simp add: us(1) newest_def)
    next
      case 3
      then have "per e < per d" using dates [OF ds] d(1) by (auto simp: j_def)
      then have "e < d" using mono [of d e] by linarith
      then show ?thesis using steady_less [OF assms(1), of v u] date d(2) v(2) by auto
    qed
  qed
  then show ?thesis using d dates [OF ds] by (auto simp: greatest_upto_def hits_def)
qed

text \<open>A search that meets an eligible date before it meets an error returns.\<close>

lemma search_periods_returns:
  assumes "\<forall>j \<in> set ks1. \<exists>es. dates j = Some es \<and> (\<forall>d \<in> set es. \<exists>v. R d = Inr v)"
    and "dates k = Some ds" and "\<forall>d \<in> set ds. \<exists>v. R d = Inr v"
    and "d \<in> set ds" and "R d = Inr v" and "eligible v"
  shows "\<exists>u. search_periods dates R eligible pick (ks1 @ k # ks2) = Inr (Some u)"
  using assms(1)
proof (induction ks1)
  case Nil
  obtain cs where "map_res R ds = Inr cs" using map_res_total [OF assms(3)] by auto
  moreover from this have "filter eligible cs \<noteq> []"
    using map_res_set [of R ds cs v] assms(4-6) by (auto simp: filter_empty_conv)
  ultimately show ?case using assms(2) by simp
next
  case (Cons j ks1)
  then obtain es where es: "dates j = Some es" "\<forall>d \<in> set es. \<exists>v. R d = Inr v" by auto
  obtain cs where "map_res R es = Inr cs" using map_res_total [OF es(2)] by auto
  then show ?case using Cons es by (simp add: Let_def)
qed

text \<open>Searching day by day is searching periods of one day.\<close>

lemma search_days_periods:
  assumes "\<And>c. pick [c] = c"
  shows "search_days match R eligible (map f ks)
       = search_periods (\<lambda>k. Some (if match (f k) then [f k] else [])) R eligible pick ks"
proof (induction ks)
  case (Cons k ks)
  then show ?case by (cases "R (f k)") (simp_all add: assms)
qed simp

subsection \<open>The dates of a period\<close>

definition monthly_sel :: "int list \<Rightarrow> bool \<Rightarrow> int \<Rightarrow> bool" where
  "monthly_sel days last_day n \<longleftrightarrow> day_of n \<in> set days
     \<or> last_day \<and> day_of n = monthrange (year_of n) (month_of n)"

definition yearly_sel :: "(int \<times> int) list \<Rightarrow> int \<Rightarrow> bool" where
  "yearly_sel dates n \<longleftrightarrow> (month_of n, day_of n) \<in> set dates"

lemma month_of_pair: "1 \<le> i mod 12 + 1 \<and> i mod 12 + 1 \<le> (12::int)"
  using pos_mod_sign [of 12 i] pos_mod_bound [of 12 i] by simp

lemma month_index_pair: "month_index (i div 12 + 1) (i mod 12 + 1) = i"
  by (simp add: month_index_def)

lemma monthly_dates_set:
  assumes "\<forall>d \<in> set days. 1 \<le> d"
  shows "set (monthly_dates days last_day (i div 12 + 1, i mod 12 + 1))
       = {n. monthly_sel days last_day n \<and> index_of n = i}"
proof -
  define y m where "y = i div 12 + 1" and "m = i mod 12 + 1"
  have m: "1 \<le> m" "m \<le> 12" using month_of_pair [of i] by (simp_all add: m_def)
  have index: "month_index y m = i" by (simp add: y_def m_def month_index_pair)
  define S where "S = {d. (d \<in> set days \<and> d \<le> monthrange y m) \<or> last_day \<and> d = monthrange y m}"
  have S: "1 \<le> d \<and> d \<le> monthrange y m" if "d \<in> S" for d
    using that assms monthrange_pos(1) [of y m] by (auto simp: S_def)
  have "set (monthly_dates days last_day (y, m)) = ymd_ordinal y m ` S"
    by (auto simp: monthly_dates_def Let_def S_def)
  also have "\<dots> = {n. monthly_sel days last_day n \<and> index_of n = i}"
  proof (intro set_eqI iffI)
    fix n assume "n \<in> ymd_ordinal y m ` S"
    then obtain d where d: "d \<in> S" "n = ymd_ordinal y m d" by auto
    note parts = ymd_components [OF m conjunct1 [OF S [OF d(1)]] conjunct2 [OF S [OF d(1)]]]
    have "index_of n = i" using ymd_index [OF m] S [OF d(1)] index d(2) by simp
    then show "n \<in> {n. monthly_sel days last_day n \<and> index_of n = i}"
      using d(1) by (auto simp: d(2) monthly_sel_def parts S_def)
  next
    fix n assume "n \<in> {n. monthly_sel days last_day n \<and> index_of n = i}"
    then have n: "monthly_sel days last_day n" "index_of n = i" by auto
    have "year_of n = y" "month_of n = m"
      using n(2) by (simp_all add: year_of_index month_of_index y_def m_def)
    then have "day_of n \<in> S" "n = ymd_ordinal y m (day_of n)"
      using n(1) ymd_of_ordinal [of n] day_of_range(2) [of n] by (auto simp: monthly_sel_def S_def)
    then show "n \<in> ymd_ordinal y m ` S" by blast
  qed
  finally show ?thesis by (simp add: y_def m_def)
qed

lemma yearly_dates_set:
  assumes "\<forall>md \<in> set dates. date_is_possible md = Inr md"
  shows "set (yearly_dates dates y) = {n. yearly_sel dates n \<and> year_of n = y}"
proof (intro set_eqI iffI)
  fix n assume "n \<in> set (yearly_dates dates y)"
  then obtain m d where md: "(m, d) \<in> set dates" "d \<le> monthrange y m" "n = ymd_ordinal y m d"
    by (auto simp: yearly_dates_def)
  then have "1 \<le> m" "m \<le> 12" "1 \<le> d"
    using assms by (auto simp: date_is_possible_def split: if_splits dest!: bspec)
  from ymd_components [OF this md(2)] show "n \<in> {n. yearly_sel dates n \<and> year_of n = y}"
    using md by (simp add: yearly_sel_def)
next
  fix n assume "n \<in> {n. yearly_sel dates n \<and> year_of n = y}"
  then have n: "(month_of n, day_of n) \<in> set dates" "year_of n = y" by (auto simp: yearly_sel_def)
  then show "n \<in> set (yearly_dates dates y)"
    using ymd_of_ordinal [of n] day_of_range(2) [of n] unfolding yearly_dates_def
    by (auto intro!: rev_image_eqI [of "(month_of n, day_of n)"])
qed

lemma month_period_dates:
  assumes "\<forall>d \<in> set days. 1 \<le> d" and "month_period z days last_day ref k = Some ds"
  shows "set ds = {d. monthly_sel days last_day d \<and> index_of d = index_of (date_at z ref) + k}"
  using assms(2) monthly_dates_set [OF assms(1)]
  by (auto simp: month_period_def shift_month_def Let_def index_of_def month_index_def split: if_splits)

lemma year_period_dates:
  assumes "\<forall>md \<in> set dates. date_is_possible md = Inr md" and "year_period z dates ref k = Some ds"
  shows "set ds = {d. yearly_sel dates d \<and> year_of d = year_of (date_at z ref) + k}"
  using assms(2) yearly_dates_set [OF assms(1)]
  by (auto simp: year_period_def shift_year_def split: if_splits)

subsection \<open>Nominal instants\<close>

text \<open>The specification: the set of all instants of a cadence.\<close>

fun nominal :: "zone_db \<Rightarrow> cadence \<Rightarrow> instant set" where
  "nominal db (OnceCadence t) = {t}"
| "nominal db (IntervalCadence n tz) = range (interval_at n)"
| "nominal db (DailyCadence t tz) = hits (matches None) (resolve_civil (db tz) t)"
| "nominal db (WeeklyCadence t ws tz) = hits (matches (Some ws)) (resolve_civil (db tz) t)"
| "nominal db (MonthlyCadence t days last_day tz) =
     hits (monthly_sel days last_day) (resolve_civil (db tz) t)"
| "nominal db (YearlyCadence t dates tz) = hits (yearly_sel dates) (resolve_civil (db tz) t)"

fun cadence_zone :: "cadence \<Rightarrow> string option" where
  "cadence_zone (DailyCadence t tz) = Some tz"
| "cadence_zone (WeeklyCadence t ws tz) = Some tz"
| "cadence_zone (MonthlyCadence t days last_day tz) = Some tz"
| "cadence_zone (YearlyCadence t dates tz) = Some tz"
| "cadence_zone (OnceCadence t) = None"
| "cadence_zone (IntervalCadence n tz) = None"

lemma floor_bounds: "0 < (w::int) \<Longrightarrow> w * (x div w) \<le> x \<and> x < w * (x div w) + w"
  using pos_mod_sign [of w x] pos_mod_bound [of w x] by (simp add: minus_mult_div_eq_mod [symmetric])

lemma interval_neighbours:
  assumes "1 \<le> n"
  shows "least_after (range (interval_at n)) ref (interval_at n (interval_index n ref + 1))"
    and "greatest_upto (range (interval_at n)) ref (interval_at n (interval_index n ref))"
proof -
  define w q where "w = n * 60000000" and "q = ref div w"
  have w: "0 < w" using assms by (simp add: w_def)
  have low: "q * w \<le> ref" and high: "ref < (q + 1) * w"
    using floor_bounds [OF w, of ref] by (simp_all add: q_def algebra_simps)
  have "(q + 1) * w \<le> k * w" if "ref < k * w" for k
  proof -
    have "q * w < k * w" using low that by linarith
    then have "q + 1 \<le> k" using w by (simp add: mult_less_cancel_right)
    then show ?thesis using w by simp
  qed
  then show "least_after (range (interval_at n)) ref (interval_at n (interval_index n ref + 1))"
    using high by (auto simp: least_after_def interval_at_def interval_index_def w_def [symmetric] q_def [symmetric])
  have "k * w \<le> q * w" if "k * w \<le> ref" for k
  proof -
    have "k * w < (q + 1) * w" using high that by linarith
    then have "k \<le> q" using w by (simp add: mult_less_cancel_right)
    then show ?thesis using w by simp
  qed
  then show "greatest_upto (range (interval_at n)) ref (interval_at n (interval_index n ref))"
    using low by (auto simp: greatest_upto_def interval_at_def interval_index_def w_def [symmetric] q_def [symmetric])
qed

lemma pick_single [simp]: "earliest [c] = c" "newest [c] = c"
  by (simp_all add: earliest_def newest_def)

lemma upto_offsets: "[d..d + n] = map (\<lambda>k. d + k) [0..n]" "rev [d - n..d] = map (\<lambda>k. d - k) [0..n]"
proof -
  have up: "[d..d + n] = map (\<lambda>k. d + k) [0..n]" for d :: int and n
    by (rule nth_equalityI) (auto simp: nth_upto)
  show "[d..d + n] = map (\<lambda>k. d + k) [0..n]" by (rule up)
  show "rev [d - n..d] = map (\<lambda>k. d - k) [0..n]"
  proof (cases "0 \<le> n")
    case True
    then show ?thesis by (intro nth_equalityI) (auto simp: rev_nth nth_upto)
  qed simp
qed

text \<open>Both calendar searches of every cadence, as searches over numbered periods.\<close>

lemma daily_search:
  "search_days m R e [d..d + n] =
     search_periods (\<lambda>k. Some (if m (d + k) then [d + k] else [])) R e earliest [0..n]"
  "search_days m R e (rev [d - n..d]) =
     search_periods (\<lambda>k. Some (if m (d - k) then [d - k] else [])) R e newest [0..n]"
  unfolding upto_offsets by (rule search_days_periods, simp)+

lemma two_days: "[d, d + 1] = [d..d + (1::int)]" "[d, d - 1] = rev [d - (1::int)..d]"
  by (simp_all add: upto_rec1)

lemma next_after_sound:
  assumes "cadence_ok c" and "\<And>tz. cadence_zone c = Some tz \<Longrightarrow> steady (db tz)"
    and "next_after db c ref = Inr (Some u)"
  shows "least_after (nominal db c) ref u"
proof -
  have day: "least_after (hits m (resolve_civil z t)) ref u"
    if "steady z" "search_days m (resolve_civil z t) (\<lambda>c. ref < c) [date_at z ref..date_at z ref + n]
      = Inr (Some u)" for z t m n
    by (rule search_up_least [where per = "\<lambda>d. d", OF that(1) resolve_civil_date _ _
          that(2) [unfolded daily_search]]) auto
  show ?thesis
  proof (cases c)
    case (OnceCadence t)
    then show ?thesis using assms(3) by (auto simp: least_after_def split: if_splits)
  next
    case (DailyCadence t tz)
    then show ?thesis using assms(2,3) day [of "db tz" "matches None" t 1] by (simp add: Let_def two_days)
  next
    case (WeeklyCadence t ws tz)
    then show ?thesis using assms(2,3) day [of "db tz" "matches (Some ws)" t 7] by (simp add: Let_def)
  next
    case (MonthlyCadence t days last_day tz)
    then have pos: "\<forall>d \<in> set days. 1 \<le> d"
      using assms(1) by (auto simp: days_are_unique_calendar_values_def split: if_splits)
    have "steady (db tz)" using assms(2) MonthlyCadence by simp
    from search_up_least [OF this resolve_civil_date index_of_mono month_period_dates [OF pos]]
    show ?thesis using assms(3) MonthlyCadence by (simp add: next_monthly_def)
  next
    case (YearlyCadence t dates tz)
    then have ok: "\<forall>md \<in> set dates. date_is_possible md = Inr md" using assms(1) by simp
    have "steady (db tz)" using assms(2) YearlyCadence by simp
    from search_up_least [OF this resolve_civil_date year_of_mono year_period_dates [OF ok]]
    show ?thesis using assms(3) YearlyCadence by (simp add: next_yearly_def)
  next
    case (IntervalCadence n tz)
    then show ?thesis using assms interval_neighbours(1) [of n ref] by auto
  qed
qed

lemma latest_sound:
  assumes "cadence_ok c" and "\<And>tz. cadence_zone c = Some tz \<Longrightarrow> steady (db tz)"
    and "latest_at_or_before db c ref = Inr (Some u)"
  shows "greatest_upto (nominal db c) ref u"
proof -
  have day: "greatest_upto (hits m (resolve_civil z t)) ref u"
    if "steady z" "search_days m (resolve_civil z t) (\<lambda>c. c \<le> ref) (rev [date_at z ref - n..date_at z ref])
      = Inr (Some u)" for z t m n
    by (rule search_down_greatest [where per = "\<lambda>d. d", OF that(1) resolve_civil_date _ _
          that(2) [unfolded daily_search]]) auto
  show ?thesis
  proof (cases c)
    case (OnceCadence t)
    then show ?thesis using assms(3) by (auto simp: greatest_upto_def split: if_splits)
  next
    case (DailyCadence t tz)
    then show ?thesis using assms(2,3) day [of "db tz" "matches None" t 1] by (simp add: Let_def two_days)
  next
    case (WeeklyCadence t ws tz)
    then show ?thesis using assms(2,3) day [of "db tz" "matches (Some ws)" t 7] by (simp add: Let_def)
  next
    case (MonthlyCadence t days last_day tz)
    then have pos: "\<forall>d \<in> set days. 1 \<le> d"
      using assms(1) by (auto simp: days_are_unique_calendar_values_def split: if_splits)
    have st: "steady (db tz)" using assms(2) MonthlyCadence by simp
    have "set ds = {d. monthly_sel days last_day d \<and> index_of d = index_of (date_at (db tz) ref) - k}"
      if "month_period (db tz) days last_day ref (- k) = Some ds" for k ds
      using month_period_dates [OF pos that] by simp
    from search_down_greatest [OF st resolve_civil_date index_of_mono this]
    show ?thesis using assms(3) MonthlyCadence by (simp add: latest_monthly_def)
  next
    case (YearlyCadence t dates tz)
    then have ok: "\<forall>md \<in> set dates. date_is_possible md = Inr md" using assms(1) by simp
    have st: "steady (db tz)" using assms(2) YearlyCadence by simp
    have "set ds = {d. yearly_sel dates d \<and> year_of d = year_of (date_at (db tz) ref) - k}"
      if "year_period (db tz) dates ref (- k) = Some ds" for k ds
      using year_period_dates [OF ok that] by simp
    from search_down_greatest [OF st resolve_civil_date year_of_mono this]
    show ?thesis using assms(3) YearlyCadence by (simp add: latest_yearly_def)
  next
    case (IntervalCadence n tz)
    then show ?thesis using assms interval_neighbours(2) [of n ref] by auto
  qed
qed

subsection \<open>A recurring cadence never runs out\<close>

lemma search_up_returns:
  assumes "steady z" and date: "\<And>d u. R d = Inr u \<Longrightarrow> date_at z u = d"
    and mono: "\<And>d e. d \<le> e \<Longrightarrow> (per d :: int) \<le> per e"
    and dates: "\<And>k ds. dates k = Some ds \<Longrightarrow> set ds = {d. sel d \<and> per d = per (date_at z ref) + k}"
    and inside: "\<forall>j \<in> {0..k}. \<exists>ds. dates j = Some ds" and total: "\<And>d. \<exists>u. R d = Inr u"
    and "1 \<le> k" and "k \<le> n" and "sel d" and "per d = per (date_at z ref) + k"
  shows "\<exists>u. search_periods dates R (\<lambda>c. ref < c) earliest [0..n] = Inr (Some u)"
proof -
  have split: "[0..n] = [0..k - 1] @ k # [k + 1..n]" using assms(7,8) by (intro upto_split3) auto
  obtain ds where ds: "dates k = Some ds" using bspec [OF inside, of k] assms(7) by auto
  obtain v where v: "R d = Inr v" using total by blast
  have "date_at z ref < d" using mono [of d "date_at z ref"] assms(7,10) by linarith
  then have "ref < v" using steady_less [OF assms(1), of ref v] date [OF v] by simp
  moreover have "d \<in> set ds" using dates [OF ds] assms(9,10) by simp
  moreover have "\<forall>j \<in> set [0..k - 1]. \<exists>es. dates j = Some es \<and> (\<forall>d \<in> set es. \<exists>v. R d = Inr v)"
    using inside total by auto
  ultimately show ?thesis
    unfolding split using ds v total by (intro search_periods_returns) auto
qed

lemma search_down_returns:
  assumes "steady z" and date: "\<And>d u. R d = Inr u \<Longrightarrow> date_at z u = d"
    and mono: "\<And>d e. d \<le> e \<Longrightarrow> (per d :: int) \<le> per e"
    and dates: "\<And>k ds. dates k = Some ds \<Longrightarrow> set ds = {d. sel d \<and> per d = per (date_at z ref) - k}"
    and inside: "\<forall>j \<in> {0..k}. \<exists>ds. dates j = Some ds" and total: "\<And>d. \<exists>u. R d = Inr u"
    and "1 \<le> k" and "k \<le> n" and "sel d" and "per d = per (date_at z ref) - k"
  shows "\<exists>u. search_periods dates R (\<lambda>c. c \<le> ref) newest [0..n] = Inr (Some u)"
proof -
  have split: "[0..n] = [0..k - 1] @ k # [k + 1..n]" using assms(7,8) by (intro upto_split3) auto
  obtain ds where ds: "dates k = Some ds" using bspec [OF inside, of k] assms(7) by auto
  obtain v where v: "R d = Inr v" using total by blast
  have "d < date_at z ref" using mono [of "date_at z ref" d] assms(7,10) by linarith
  then have "v \<le> ref" using steady_less [OF assms(1), of v ref] date [OF v] by simp
  moreover have "d \<in> set ds" using dates [OF ds] assms(9,10) by simp
  moreover have "\<forall>j \<in> set [0..k - 1]. \<exists>es. dates j = Some es \<and> (\<forall>d \<in> set es. \<exists>v. R d = Inr v)"
    using inside total by auto
  ultimately show ?thesis
    unfolding split using ds v total by (intro search_periods_returns) auto
qed

lemma weekday_near:
  assumes "1 \<le> w" and "w \<le> 7"
  shows "\<exists>k. 1 \<le> k \<and> k \<le> 7 \<and> isoweekday (d + k) = w" and "\<exists>k. 1 \<le> k \<and> k \<le> 7 \<and> isoweekday (d - k) = w"
proof -
  have w: "(w - 1) mod 7 = w - 1" using assms by (simp add: mod_pos_pos_trivial)
  have range: "0 \<le> x mod 7 \<and> x mod 7 < 7" for x :: int by simp
  have "(d + ((w - d - 1) mod 7 + 1) - 1) mod 7 = w - 1"
    using mod_add_right_eq [of d "w - d - 1" 7] w by (simp add: algebra_simps)
  then show "\<exists>k. 1 \<le> k \<and> k \<le> 7 \<and> isoweekday (d + k) = w"
    using range [of "w - d - 1"] by (intro exI [of _ "(w - d - 1) mod 7 + 1"]) (auto simp: isoweekday_def)
  have "(d - ((d - w - 1) mod 7 + 1) - 1) mod 7 = w - 1"
    using mod_diff_right_eq [of "d - 2" "d - w - 1" 7] w by (simp add: algebra_simps)
  then show "\<exists>k. 1 \<le> k \<and> k \<le> 7 \<and> isoweekday (d - k) = w"
    using range [of "d - w - 1"] by (intro exI [of _ "(d - w - 1) mod 7 + 1"]) (auto simp: isoweekday_def)
qed

lemma long_month: "i mod 12 \<in> {0, 2, 4, 6, 7, 9, 11} \<Longrightarrow> index_length i = 31"
  by (auto simp: index_length_def monthrange_def)

lemma mod_12_cases: "(i::int) mod 12 \<in> {0, 1, 2, 3, 4, 5, 6, 7, 8, 9, 10, 11}"
proof -
  have "i mod 12 \<in> set [0..11]" by simp
  then show ?thesis by (simp add: upto_rec1 del: set_upto)
qed

lemma long_month_near:
  "\<exists>k. 1 \<le> k \<and> k \<le> 2 \<and> index_length (i + k) = 31" "\<exists>k. 1 \<le> k \<and> k \<le> 2 \<and> index_length (i - k) = 31"
proof -
  have up: "(i + 1) mod 12 = (i mod 12 + 1) mod 12" "(i + 2) mod 12 = (i mod 12 + 2) mod 12"
    by (simp_all add: mod_simps)
  have "(i + 1) mod 12 \<in> {0, 2, 4, 6, 7, 9, 11} \<or> (i + 2) mod 12 \<in> {0, 2, 4, 6, 7, 9, 11}"
    unfolding up using mod_12_cases [of i] by (elim insertE; simp)
  then show "\<exists>k. 1 \<le> k \<and> k \<le> 2 \<and> index_length (i + k) = 31"
    using long_month [of "i + 1"] long_month [of "i + 2"]
    by (meson order_refl one_le_numeral)
  have down: "(i - 1) mod 12 = (i mod 12 - 1) mod 12" "(i - 2) mod 12 = (i mod 12 - 2) mod 12"
    by (simp_all add: mod_simps)
  have "(i - 1) mod 12 \<in> {0, 2, 4, 6, 7, 9, 11} \<or> (i - 2) mod 12 \<in> {0, 2, 4, 6, 7, 9, 11}"
    unfolding down using mod_12_cases [of i] by (elim insertE; simp)
  then show "\<exists>k. 1 \<le> k \<and> k \<le> 2 \<and> index_length (i - k) = 31"
    using long_month [of "i - 1"] long_month [of "i - 2"]
    by (meson order_refl one_le_numeral)
qed

lemma leap_neighbour:
  assumes "y mod 4 = 0" and "\<not> is_leap y"
  shows "is_leap (y + 4)" and "is_leap (y - 4)"
proof -
  have "y mod 100 = 0" using assms by (simp add: is_leap_def)
  then have "(y + 4) mod 100 = (0 + 4) mod 100" "(y - 4) mod 100 = (0 - 4) mod 100"
    by (intro mod_add_cong mod_diff_cong; simp)+
  then have "(y + 4) mod 100 = 4" "(y - 4) mod 100 = 96" by simp_all
  moreover have "(y + 4) mod 4 = 0" "(y - 4) mod 4 = 0" using assms(1) by presburger+
  ultimately show "is_leap (y + 4)" "is_leap (y - 4)" by (simp_all add: is_leap_def)
qed

lemma leap_near:
  "\<exists>k. 1 \<le> k \<and> k \<le> 8 \<and> is_leap (y + k)" "\<exists>k. 1 \<le> k \<and> k \<le> 8 \<and> is_leap (y - k)"
proof -
  define k where "k = 4 - y mod 4"
  have range: "0 \<le> y mod 4" "y mod 4 < 4" by simp_all
  have "y + k = 4 * (y div 4 + 1)" by (simp add: k_def algebra_simps)
  then have "(y + k) mod 4 = 0" by simp
  moreover have "1 \<le> k" "k \<le> 4" using range by (auto simp: k_def)
  ultimately have k: "1 \<le> k" "k \<le> 4" "(y + k) mod 4 = 0" by blast+
  show "\<exists>k. 1 \<le> k \<and> k \<le> 8 \<and> is_leap (y + k)"
  proof (cases "is_leap (y + k)")
    case True
    then show ?thesis using k by (intro exI [of _ k]) simp
  next
    case False
    then show ?thesis
      using k leap_neighbour(1) [OF k(3)] by (intro exI [of _ "k + 4"]) (simp add: add.assoc)
  qed
  define j where "j = (if y mod 4 = 0 then 4 else y mod 4)"
  have "y - j = 4 * (y div 4 - (if y mod 4 = 0 then 1 else 0))"
    using minus_mod_eq_mult_div [of y 4] by (cases "y mod 4 = 0") (simp_all add: j_def del: minus_mod_eq_mult_div)
  then have "(y - j) mod 4 = 0" by simp
  moreover have "1 \<le> j" "j \<le> 4" using range by (auto simp: j_def)
  ultimately have j: "1 \<le> j" "j \<le> 4" "(y - j) mod 4 = 0" by blast+
  show "\<exists>k. 1 \<le> k \<and> k \<le> 8 \<and> is_leap (y - k)"
  proof (cases "is_leap (y - j)")
    case True
    then show ?thesis using j by (intro exI [of _ j]) simp
  next
    case False
    then show ?thesis
      using j leap_neighbour(2) [OF j(3)] by (intro exI [of _ "j + 4"]) (simp add: diff_diff_add)
  qed
qed

text \<open>Every 31-day month and every leap year has a selected date.\<close>

lemma monthly_sel_exists:
  assumes "index_length i = 31" and "cadence_ok (MonthlyCadence t days last_day tz)"
  shows "\<exists>d. monthly_sel days last_day d \<and> index_of d = i"
proof -
  define y m where "y = i div 12 + 1" and "m = i mod 12 + 1"
  have m: "1 \<le> m" "m \<le> 12" using month_of_pair [of i] by (simp_all add: m_def)
  have len: "monthrange y m = 31" using assms(1) by (simp add: index_length_def y_def m_def)
  define e where "e = (if days = [] then 31 else hd days)"
  have "1 \<le> e \<and> e \<le> monthrange y m \<and> (e \<in> set days \<or> last_day \<and> e = monthrange y m)"
  proof (cases "days = []")
    case True
    then show ?thesis
      using assms(2) len by (auto simp: e_def selector_is_present_def split: if_splits)
  next
    case False
    have "\<forall>d \<in> set days. \<not> d < 1 \<and> \<not> 31 < d"
      using assms(2) by (auto simp: days_are_unique_calendar_values_def split: if_splits)
    from bspec [OF this hd_in_set [OF False]] False show ?thesis using len by (simp add: e_def)
  qed
  then have e: "1 \<le> e" "e \<le> monthrange y m" "e \<in> set days \<or> last_day \<and> e = monthrange y m" by simp_all
  show ?thesis
    using ymd_index [OF m e(1,2)] ymd_components [OF m e(1,2)] e(3)
    by (intro exI [of _ "ymd_ordinal y m e"]) (auto simp: monthly_sel_def y_def m_def month_index_pair)
qed

lemma yearly_sel_exists:
  assumes "is_leap y" and "cadence_ok (YearlyCadence t dates tz)"
  shows "\<exists>d. yearly_sel dates d \<and> year_of d = y"
proof -
  obtain m e where me: "(m, e) \<in> set dates"
    using assms(2) by (cases dates) (auto simp: dates_are_unique_and_sorted_def)
  then have "date_is_possible (m, e) = Inr (m, e)" using assms(2) by auto
  then have ok: "1 \<le> m" "m \<le> 12" "1 \<le> e" "e \<le> monthrange y m"
    using assms(1) by (auto simp: date_is_possible_def monthrange_def is_leap_def split: if_splits)
  show ?thesis
    using ymd_components [OF ok] me by (intro exI [of _ "ymd_ordinal y m e"]) (auto simp: yearly_sel_def)
qed

lemma month_period_inside:
  assumes "0 \<le> index_of (date_at z ref) + k" and "index_of (date_at z ref) + k < 9999 * 12"
  shows "\<exists>ds. month_period z days last_day ref k = Some ds"
  using assms by (simp add: month_period_def shift_month_def index_of_def month_index_def Let_def)

lemma year_period_inside:
  assumes "1 \<le> year_of (date_at z ref) + k" and "year_of (date_at z ref) + k \<le> 9999"
  shows "\<exists>ds. year_period z dates ref k = Some ds"
  using assms by (simp add: year_period_def shift_year_def)

lemma index_year_range:
  assumes "y \<le> year_of n" and "year_of n \<le> w"
  shows "12 * (y - 1) \<le> index_of n" and "index_of n < 12 * w"
  using assms month_of_range [of n] by (simp_all add: index_of_def month_index_def)

text \<open>A zone in which every civil date has an instant for the given time of day.\<close>

definition resolvable :: "zone_info \<Rightarrow> int \<Rightarrow> bool" where
  "resolvable z t \<longleftrightarrow> (\<forall>d. \<exists>u. resolve_civil z t d = Inr u)"

fun cadence_time :: "cadence \<Rightarrow> int" where
  "cadence_time (DailyCadence t tz) = t"
| "cadence_time (WeeklyCadence t ws tz) = t"
| "cadence_time (MonthlyCadence t days last_day tz) = t"
| "cadence_time (YearlyCadence t dates tz) = t"
| "cadence_time (OnceCadence t) = 0"
| "cadence_time (IntervalCadence n tz) = 0"

lemma weekly_search_returns:
  assumes "steady z" and "resolvable z t" and "m (date_at z ref + k)" and "1 \<le> k" and "k \<le> n"
  shows "\<exists>u. search_days m (resolve_civil z t) (\<lambda>c. ref < c) [date_at z ref..date_at z ref + n] = Inr (Some u)"
  unfolding daily_search
  by (rule search_up_returns [where per = "\<lambda>d. d" and sel = m and d = "date_at z ref + k" and k = k,
        OF assms(1) resolve_civil_date]) (use assms in \<open>auto simp: resolvable_def\<close>)

lemma weekly_search_back:
  assumes "steady z" and "resolvable z t" and "m (date_at z ref - k)" and "1 \<le> k" and "k \<le> n"
  shows "\<exists>u. search_days m (resolve_civil z t) (\<lambda>c. c \<le> ref) (rev [date_at z ref - n..date_at z ref]) = Inr (Some u)"
  unfolding daily_search
  by (rule search_down_returns [where per = "\<lambda>d. d" and sel = m and d = "date_at z ref - k" and k = k,
        OF assms(1) resolve_civil_date]) (use assms in \<open>auto simp: resolvable_def\<close>)

lemma monthly_search_returns:
  assumes "steady z" and "resolvable z t" and ok: "cadence_ok (MonthlyCadence t days last_day tz)"
    and "9 \<le> year_of (date_at z ref)" and "year_of (date_at z ref) \<le> 9990"
  shows "\<exists>u. next_monthly t days last_day ref z = Inr (Some u)"
    and "\<exists>u. latest_monthly t days last_day ref z = Inr (Some u)"
proof -
  define i where "i = index_of (date_at z ref)"
  have range: "96 \<le> i" "i < 119880" using index_year_range [OF assms(4,5)] by (simp_all add: i_def)
  have pos: "\<forall>d \<in> set days. 1 \<le> d"
    using ok by (auto simp: days_are_unique_calendar_values_def split: if_splits)
  have total: "\<exists>u. resolve_civil z t d = Inr u" for d using assms(2) by (simp add: resolvable_def)
  obtain k where k: "1 \<le> k" "k \<le> 2" "index_length (i + k) = 31" using long_month_near(1) by blast
  from monthly_sel_exists [OF k(3) ok] obtain d where d: "monthly_sel days last_day d" "index_of d = i + k"
    by blast
  show "\<exists>u. next_monthly t days last_day ref z = Inr (Some u)"
    unfolding next_monthly_def
    by (rule search_up_returns [OF assms(1) resolve_civil_date index_of_mono month_period_dates [OF pos] _ total k(1) _ d(1)])
      (use k d(2) range in \<open>auto simp: i_def intro!: month_period_inside\<close>)
  obtain j where j: "1 \<le> j" "j \<le> 2" "index_length (i - j) = 31" using long_month_near(2) by blast
  from monthly_sel_exists [OF j(3) ok] obtain e where e: "monthly_sel days last_day e" "index_of e = i - j"
    by blast
  have below: "set ds = {d. monthly_sel days last_day d \<and> index_of d = index_of (date_at z ref) - k}"
    if "month_period z days last_day ref (- k) = Some ds" for k ds
    using month_period_dates [OF pos that] by simp
  show "\<exists>u. latest_monthly t days last_day ref z = Inr (Some u)"
    unfolding latest_monthly_def
    by (rule search_down_returns [OF assms(1) resolve_civil_date index_of_mono below _ total j(1) _ e(1)])
      (use j e(2) range in \<open>auto simp: i_def intro!: month_period_inside\<close>)
qed

lemma yearly_search_returns:
  assumes "steady z" and "resolvable z t" and ok: "cadence_ok (YearlyCadence t dates tz)"
    and "9 \<le> year_of (date_at z ref)" and "year_of (date_at z ref) \<le> 9990"
  shows "\<exists>u. next_yearly t dates ref z = Inr (Some u)" and "\<exists>u. latest_yearly t dates ref z = Inr (Some u)"
proof -
  define y where "y = year_of (date_at z ref)"
  have possible: "\<forall>md \<in> set dates. date_is_possible md = Inr md" using ok by simp
  have total: "\<exists>u. resolve_civil z t d = Inr u" for d using assms(2) by (simp add: resolvable_def)
  obtain k where k: "1 \<le> k" "k \<le> 8" "is_leap (y + k)" using leap_near(1) by blast
  from yearly_sel_exists [OF k(3) ok] obtain d where d: "yearly_sel dates d" "year_of d = y + k" by blast
  show "\<exists>u. next_yearly t dates ref z = Inr (Some u)"
    unfolding next_yearly_def
    by (rule search_up_returns [OF assms(1) resolve_civil_date year_of_mono year_period_dates [OF possible] _ total k(1) _ d(1)])
      (use k d(2) assms(4,5) in \<open>auto simp: y_def intro!: year_period_inside\<close>)
  obtain j where j: "1 \<le> j" "j \<le> 8" "is_leap (y - j)" using leap_near(2) by blast
  from yearly_sel_exists [OF j(3) ok] obtain e where e: "yearly_sel dates e" "year_of e = y - j" by blast
  have below: "set ds = {d. yearly_sel dates d \<and> year_of d = year_of (date_at z ref) - k}"
    if "year_period z dates ref (- k) = Some ds" for k ds
    using year_period_dates [OF possible that] by simp
  show "\<exists>u. latest_yearly t dates ref z = Inr (Some u)"
    unfolding latest_yearly_def
    by (rule search_down_returns [OF assms(1) resolve_civil_date year_of_mono below _ total j(1) _ e(1)])
      (use j e(2) assms(4,5) in \<open>auto simp: y_def intro!: year_period_inside\<close>)
qed

lemma recurring_returns:
  assumes ok: "cadence_ok c" and recurring: "\<forall>t. c \<noteq> OnceCadence t"
    and zone: "\<And>tz. cadence_zone c = Some tz \<Longrightarrow> steady (db tz) \<and> resolvable (db tz) (cadence_time c)
      \<and> 9 \<le> year_of (date_at (db tz) ref) \<and> year_of (date_at (db tz) ref) \<le> 9990"
  shows "\<exists>u. next_after db c ref = Inr (Some u)" and "\<exists>u. latest_at_or_before db c ref = Inr (Some u)"
proof -
  have "(\<exists>u. next_after db c ref = Inr (Some u)) \<and> (\<exists>u. latest_at_or_before db c ref = Inr (Some u))"
  proof (cases c)
    case (OnceCadence t)
    then show ?thesis using recurring by simp
  next
    case (DailyCadence t tz)
    then show ?thesis
      using zone [of tz] weekly_search_returns [of "db tz" t "matches None" ref 1 1]
        weekly_search_back [of "db tz" t "matches None" ref 1 1]
      by (simp add: Let_def two_days matches_def)
  next
    case (WeeklyCadence t ws tz)
    then obtain w where w: "w \<in> set ws" "1 \<le> w" "w \<le> 7"
      using ok by (cases ws) (auto simp: weekdays_are_unique_iso_values_def not_less split: if_splits)
    obtain k where "1 \<le> k" "k \<le> 7" "isoweekday (date_at (db tz) ref + k) = w"
      using weekday_near(1) [OF w(2,3)] by blast
    moreover obtain j where "1 \<le> j" "j \<le> 7" "isoweekday (date_at (db tz) ref - j) = w"
      using weekday_near(2) [OF w(2,3)] by blast
    ultimately show ?thesis
      using zone [of tz] w(1) WeeklyCadence weekly_search_returns [of "db tz" t "matches (Some ws)" ref k 7]
        weekly_search_back [of "db tz" t "matches (Some ws)" ref j 7]
      by (simp add: Let_def matches_def)
  next
    case (MonthlyCadence t days last_day tz)
    then show ?thesis
      using zone [of tz] ok monthly_search_returns [of "db tz" t days last_day tz ref] by simp
  next
    case (YearlyCadence t dates tz)
    then show ?thesis
      using zone [of tz] ok yearly_search_returns [of "db tz" t dates tz ref] by simp
  qed simp
  then show "\<exists>u. next_after db c ref = Inr (Some u)" "\<exists>u. latest_at_or_before db c ref = Inr (Some u)" by blast+
qed

end
