(* ===== verification/Recurrence_Counts.thy ===== *)
theory Recurrence_Counts
  imports Recurrence
begin

text \<open>
  Counting the instants of a cadence: the closed forms of \<open>domain/recurrence.py\<close> against the number of
  nominal instants they stand for, and the properties of the recurrence calculator.
\<close>

subsection \<open>Closed forms over months and years\<close>

lemma sum_upto_induct:
  fixes f g :: "int \<Rightarrow> int"
  assumes "start \<le> stop + 1" and "g (start - 1) = 0"
    and "\<And>s. start \<le> s + 1 \<Longrightarrow> g (s + 1) = g s + f (s + 1)"
  shows "g stop = (\<Sum>i \<in> {start..stop}. f i)"
proof -
  have "g s = (\<Sum>i \<in> {start..s}. f i)" if "start - 1 \<le> s" for s
    using that
  proof (induction s rule: int_ge_induct)
    case base
    then show ?case using assms(2) by simp
  next
    case (step s)
    then have "{start..s + 1} = insert (s + 1) {start..s}" by auto
    then show ?case using step assms(3) [of s] by simp
  qed
  then show ?thesis using assms(1) by simp
qed

lemma congruent_12: "((a::int) - b) mod 12 = 0 \<longleftrightarrow> a mod 12 = b mod 12"
  by (simp add: mod_eq_dvd_iff mod_eq_0_iff_dvd)

lemma count_month_numbers_single:
  assumes "start \<le> stop + 1" and "1 \<le> m" and "m \<le> 12"
  shows "count_month_numbers start stop [m] = (\<Sum>i \<in> {start..stop}. of_bool (i mod 12 = m - 1))"
proof -
  define f where "f = start + ((m - 1 - start) mod 12)"
  have f: "start \<le> f" "f < start + 12" by (simp_all add: f_def)
  have "f mod 12 = (m - 1) mod 12"
    unfolding f_def using mod_add_right_eq [of start "m - 1 - start" 12] by simp
  then have fm: "f mod 12 = m - 1" using assms(2,3) by (simp add: mod_pos_pos_trivial)
  have "(if f \<le> s + 1 then (s + 1 - f) div 12 + 1 else 0)
      = (if f \<le> s then (s - f) div 12 + 1 else 0) + of_bool ((s + 1) mod 12 = m - 1)"
    if "start \<le> s + 1" for s
  proof -
    have hit: "(s + 1) mod 12 = m - 1 \<longleftrightarrow> (s + 1 - f) mod 12 = 0"
      by (simp add: congruent_12 fm)
    consider "f \<le> s" | "f = s + 1" | "s + 1 < f" by linarith
    then show ?thesis
    proof cases
      case 1
      have "(s + 1 - f) div 12 - (s + 1 - f - 1) div 12 = (if (s + 1 - f) mod 12 = 0 then 1 else 0)"
        by (rule div_pred) simp
      then show ?thesis using 1 hit by (simp add: algebra_simps)
    next
      case 2
      then show ?thesis using hit by simp
    next
      case 3
      have "(f - (s + 1)) mod 12 = f - (s + 1)" using 3 that f by (simp add: mod_pos_pos_trivial)
      then have "(s + 1) mod 12 \<noteq> m - 1" using 3 fm congruent_12 [of f "s + 1"] by auto
      then show ?thesis using 3 by simp
    qed
  qed
  then have "(if f \<le> stop then (stop - f) div 12 + 1 else 0)
      = (\<Sum>i \<in> {start..stop}. of_bool (i mod 12 = m - 1))"
    using f by (intro sum_upto_induct [OF assms(1),
        where g = "\<lambda>s. if f \<le> s then (s - f) div 12 + 1 else 0"]) simp_all
  then show ?thesis by (simp add: count_month_numbers_def f_def [symmetric])
qed

lemma count_month_numbers_sum:
  assumes "start \<le> stop + 1" and "\<forall>m \<in> set ms. 1 \<le> m \<and> m \<le> 12" and "distinct ms"
  shows "count_month_numbers start stop ms = (\<Sum>i \<in> {start..stop}. of_bool (i mod 12 + 1 \<in> set ms))"
  using assms(2,3)
proof (induction ms)
  case Nil
  then show ?case by (simp add: count_month_numbers_def)
next
  case (Cons m ms)
  have "count_month_numbers start stop (m # ms)
      = count_month_numbers start stop [m] + count_month_numbers start stop ms"
    by (simp add: count_month_numbers_def)
  also have "\<dots> = (\<Sum>i \<in> {start..stop}. of_bool (i mod 12 = m - 1) + of_bool (i mod 12 + 1 \<in> set ms))"
    using Cons count_month_numbers_single [OF assms(1), of m] by (simp add: sum.distrib)
  also have "\<dots> = (\<Sum>i \<in> {start..stop}. of_bool (i mod 12 + 1 \<in> set (m # ms)))"
    using Cons.prems by (intro sum.cong) (auto simp: of_bool_def)
  finally show ?case .
qed

lemma count_leap_years_step:
  "first \<le> y + 1 \<Longrightarrow> count_leap_years first (y + 1) = count_leap_years first y + of_bool (is_leap (y + 1))"
  using leaps_through_step [of "y + 1"] by (cases "first = y + 1") (auto simp: count_leap_years_def)

lemma count_leap_years_sum:
  "first \<le> final + 1 \<Longrightarrow> count_leap_years first final = (\<Sum>y \<in> {first..final}. of_bool (is_leap y))"
  by (rule sum_upto_induct [where g = "count_leap_years first"])
    (simp_all add: count_leap_years_step count_leap_years_def [of _ "first - 1"])

lemma february_step:
  assumes "start \<le> s + 1"
  shows "count_leap_februaries start (s + 1)
    = count_leap_februaries start s + of_bool ((s + 1) mod 12 = 1 \<and> is_leap ((s + 1) div 12 + 1))"
proof -
  define f where "f = start + ((1 - start) mod 12)"
  define l :: "int \<Rightarrow> int" where "l = (\<lambda>s. s - ((s - 1) mod 12))"
  define h where "h = (\<lambda>i. (i::int) div 12 + 1)"
  have f: "start \<le> f" "f < start + 12" by (simp_all add: f_def)
  have fm: "f mod 12 = 1" unfolding f_def using mod_add_right_eq [of start "1 - start" 12] by simp
  have G: "count_leap_februaries start s = (if f > s then 0 else count_leap_years (h f) (h (l s)))" for s
    by (simp add: count_leap_februaries_def f_def [symmetric] l_def h_def)
  have hs1: "(s + 1) div 12 + 1 = h (s + 1)" by (simp add: h_def)
  show ?thesis
  proof (cases "(s + 1) mod 12 = 1")
    case False
    have "(s - 1) mod 12 \<noteq> 11"
    proof
      assume "(s - 1) mod 12 = 11"
      then have "(s + 1) mod 12 = (11 + 2) mod 12" using mod_add_cong [of "s - 1" 12 11 2 2] by (simp add: add.commute)
      then show False using False by simp
    qed
    then have "s mod 12 = (s - 1) mod 12 + 1"
      using mod_12_cases [of "s - 1"] mod_add_left_eq [of "s - 1" 12 1] by auto
    then have l: "l (s + 1) = l s" by (simp add: l_def)
    have "f \<noteq> s + 1" using False fm by auto
    then have "f > s + 1 \<longleftrightarrow> f > s" by linarith
    then show ?thesis using False l by (simp add: G)
  next
    case True
    have "s mod 12 = 0" using mod_diff_left_eq [of "s + 1" 12 1] True by simp
    moreover have "(s - 1) mod 12 = 11" using mod_diff_left_eq [of s 12 1] calculation by simp
    ultimately have l: "l (s + 1) = s + 1" "l s = s + 1 - 12" by (simp_all add: l_def)
    have hs: "h (s + 1 - 12) + 1 = h (s + 1)" by (simp add: h_def)
    show ?thesis
    proof (cases "f \<le> s")
      case True
      have "(s + 1 - f) mod 12 = 0" using \<open>(s + 1) mod 12 = 1\<close> fm by (simp add: congruent_12)
      then have "12 \<le> s + 1 - f" using True by (auto simp: mod_eq_0_iff_dvd dest: zdvd_imp_le)
      then have "h f \<le> h (s + 1 - 12)" by (simp add: h_def zdiv_mono1)
      then have "count_leap_years (h f) (h (s + 1 - 12) + 1)
          = count_leap_years (h f) (h (s + 1 - 12)) + of_bool (is_leap (h (s + 1 - 12) + 1))"
        by (intro count_leap_years_step) simp
      then show ?thesis using True \<open>(s + 1) mod 12 = 1\<close> l hs by (simp add: G hs1)
    next
      case False
      have "f = s + 1"
      proof (rule ccontr)
        assume "f \<noteq> s + 1"
        then have "(f - (s + 1)) mod 12 = f - (s + 1)"
          using False assms f by (simp add: mod_pos_pos_trivial)
        then show False using \<open>f \<noteq> s + 1\<close> fm \<open>(s + 1) mod 12 = 1\<close> congruent_12 [of f "s + 1"] by auto
      qed
      then show ?thesis
        using \<open>(s + 1) mod 12 = 1\<close> l count_leap_years_step [of "h (s + 1)" "h (s + 1) - 1"]
        by (simp add: G hs1 count_leap_years_def [of "h (s + 1)" "h (s + 1) - 1"])
    qed
  qed
qed

lemma count_leap_februaries_sum:
  assumes "start \<le> stop + 1"
  shows "count_leap_februaries start stop
    = (\<Sum>i \<in> {start..stop}. of_bool (i mod 12 = 1 \<and> is_leap (i div 12 + 1)))"
proof (rule sum_upto_induct [OF assms])
  show "count_leap_februaries start (start - 1) = 0"
    by (auto simp: count_leap_februaries_def Let_def not_less)
qed (rule february_step)

text \<open>The number of selected days of one month.\<close>

definition month_hits :: "int list \<Rightarrow> bool \<Rightarrow> int \<Rightarrow> int" where
  "month_hits days last_day i = sum_list (map (\<lambda>d. of_bool (d \<le> index_length i)) days)
     + of_bool (last_day \<and> index_length i \<notin> set days)"

lemma index_length_cases:
  "index_length i = (if i mod 12 = 1 then (if is_leap (i div 12 + 1) then 29 else 28)
     else if i mod 12 + 1 \<in> {4, 6, 9, 11} then 30 else 31)"
  by (auto simp: index_length_def monthrange_def)

lemma long_month_iff: "index_length i = 31 \<longleftrightarrow> i mod 12 + 1 \<in> {1, 3, 5, 7, 8, 10, 12}"
  using mod_12_cases [of i] by (auto simp: index_length_cases)

lemma sum_swap:
  fixes f :: "'a \<Rightarrow> int \<Rightarrow> int"
  shows "sum_list (map (\<lambda>d. \<Sum>i \<in> I. f d i) ds) = (\<Sum>i \<in> I. sum_list (map (\<lambda>d. f d i) ds))"
  by (induction ds) (simp_all add: sum.distrib)

lemma whole_months_sum:
  assumes "start \<le> stop + 1" and "\<forall>d \<in> set days. 1 \<le> d \<and> d \<le> 31"
  shows "whole_months days last_day start stop = (\<Sum>i \<in> {start..stop}. month_hits days last_day i)"
proof -
  define I where "I = {start..stop}"
  define feb leap :: "int \<Rightarrow> int" where "feb = (\<lambda>i. of_bool (i mod 12 + 1 \<in> {2}))"
    and "leap = (\<lambda>i. of_bool (i mod 12 = 1 \<and> is_leap (i div 12 + 1)))"
  define thirty long :: "int \<Rightarrow> int" where "thirty = (\<lambda>i. of_bool (i mod 12 + 1 \<in> {4, 6, 9, 11}))"
    and "long = (\<lambda>i. of_bool (i mod 12 + 1 \<in> {1, 3, 5, 7, 8, 10, 12}))"
  have counts: "count_month_numbers start stop [2] = (\<Sum>i \<in> I. feb i)"
    unfolding feb_def I_def by (rule count_month_numbers_sum [OF assms(1), of "[2]", unfolded list.set]) simp_all
  have counts': "count_month_numbers start stop [4, 6, 9, 11] = (\<Sum>i \<in> I. thirty i)"
    unfolding thirty_def I_def
    by (rule count_month_numbers_sum [OF assms(1), of "[4, 6, 9, 11]", unfolded list.set]) simp_all
  have counts'': "count_month_numbers start stop [1, 3, 5, 7, 8, 10, 12] = (\<Sum>i \<in> I. long i)"
    unfolding long_def I_def
    by (rule count_month_numbers_sum [OF assms(1), of "[1, 3, 5, 7, 8, 10, 12]", unfolded list.set]) simp_all
  have leaps: "count_leap_februaries start stop = (\<Sum>i \<in> I. leap i)"
    unfolding leap_def I_def by (rule count_leap_februaries_sum [OF assms(1)])
  have total: "stop - start + 1 = (\<Sum>i \<in> I. 1)" using assms(1) by (simp add: I_def)
  have day: "(if d \<le> 28 then \<Sum>i \<in> I. 1 else if d = 29 then (\<Sum>i \<in> I. 1) - ((\<Sum>i \<in> I. feb i) - (\<Sum>i \<in> I. leap i))
      else if d = 30 then (\<Sum>i \<in> I. 1) - (\<Sum>i \<in> I. feb i) else \<Sum>i \<in> I. long i)
      = (\<Sum>i \<in> I. of_bool (d \<le> index_length i))" if range: "1 \<le> d" "d \<le> 31" for d
  proof -
    consider "d \<le> 28" | "d = 29" | "d = 30" | "d = 31" using range by linarith
    then show ?thesis
    proof cases
      case 1
      have "d \<le> index_length i" for i using 1 index_length_pos(1) [of i] by linarith
      then show ?thesis using 1 by simp
    next
      case 2
      have "of_bool (29 \<le> index_length i) = 1 - (feb i - leap i)" for i
        by (simp add: feb_def leap_def index_length_cases)
      then show ?thesis using 2 by (simp add: sum_subtractf del: sum_of_bool_eq)
    next
      case 3
      have "of_bool (30 \<le> index_length i) = 1 - feb i" for i
        by (simp add: feb_def index_length_cases)
      then show ?thesis using 3 by (simp add: sum_subtractf del: sum_of_bool_eq)
    next
      case 4
      have "31 \<le> index_length i \<longleftrightarrow> index_length i = 31" for i using index_length_pos(2) [of i] by linarith
      then have "of_bool (31 \<le> index_length i) = long i" for i unfolding long_def by (simp only: long_month_iff)
      then show ?thesis using 4 by (simp del: sum_of_bool_eq)
    qed
  qed
  have days: "sum_list (map (\<lambda>d. if d \<le> 28 then \<Sum>i \<in> I. 1
        else if d = 29 then (\<Sum>i \<in> I. 1) - ((\<Sum>i \<in> I. feb i) - (\<Sum>i \<in> I. leap i))
        else if d = 30 then (\<Sum>i \<in> I. 1) - (\<Sum>i \<in> I. feb i) else \<Sum>i \<in> I. long i) days)
      = (\<Sum>i \<in> I. sum_list (map (\<lambda>d. of_bool (d \<le> index_length i)) days))"
    unfolding sum_swap [symmetric] using assms(2) day by (intro arg_cong [where f = sum_list] map_cong) auto
  have last_one: "(\<Sum>i \<in> I. 1) - (if 28 \<in> set days then (\<Sum>i \<in> I. feb i) - (\<Sum>i \<in> I. leap i) else 0)
      - (if 29 \<in> set days then \<Sum>i \<in> I. leap i else 0) - (if 30 \<in> set days then \<Sum>i \<in> I. thirty i else 0)
      - (if 31 \<in> set days then \<Sum>i \<in> I. long i else 0) = (\<Sum>i \<in> I. of_bool (index_length i \<notin> set days))"
  proof -
    have point: "1 - (if 28 \<in> set days then feb i - leap i else 0) - (if 29 \<in> set days then leap i else 0)
        - (if 30 \<in> set days then thirty i else 0) - (if 31 \<in> set days then long i else 0)
        = of_bool (index_length i \<notin> set days)" for i
    proof -
      have len: "feb i = of_bool (index_length i = 28 \<or> index_length i = 29)" "leap i = of_bool (index_length i = 29)"
        "thirty i = of_bool (index_length i = 30)"
        by (auto simp: feb_def leap_def thirty_def index_length_cases)
      have long: "long i = of_bool (index_length i = 31)" unfolding long_def by (simp only: long_month_iff)
      consider "index_length i = 28" | "index_length i = 29" | "index_length i = 30" | "index_length i = 31"
        using index_length_pos [of i] by linarith
      then show ?thesis unfolding len long by cases simp_all
    qed
    have "(\<Sum>i \<in> I. of_bool (index_length i \<notin> set days)) = (\<Sum>i \<in> I. 1 - (if 28 \<in> set days then feb i - leap i else 0)
        - (if 29 \<in> set days then leap i else 0) - (if 30 \<in> set days then thirty i else 0)
        - (if 31 \<in> set days then long i else 0))"
      by (simp only: point)
    then show ?thesis by (auto simp: sum_subtractf)
  qed
  show ?thesis
    unfolding whole_months_def Let_def counts counts' counts'' leaps total days month_hits_def I_def [symmetric] sum.distrib
    using last_one by (cases last_day) (simp_all add: algebra_simps)
qed

subsection \<open>Instants between two instants\<close>

definition hits_between :: "(int \<Rightarrow> bool) \<Rightarrow> (int \<Rightarrow> instant res) \<Rightarrow> instant \<Rightarrow> instant \<Rightarrow> instant set" where
  "hits_between sel R first final = {u \<in> hits sel R. first \<le> u \<and> u \<le> final}"

text \<open>Different dates have different instants, so counting instants is counting dates.\<close>

lemma card_instants:
  assumes date: "\<And>d u. R d = Inr u \<Longrightarrow> date_at z u = d" and total: "\<And>d. d \<in> D \<Longrightarrow> \<exists>u. R d = Inr u"
  shows "card {u. \<exists>d \<in> D. R d = Inr u} = card D"
proof -
  have "bij_betw (date_at z) {u. \<exists>d \<in> D. R d = Inr u} D"
  proof (rule bij_betwI')
    fix u v assume "u \<in> {u. \<exists>d \<in> D. R d = Inr u}" "v \<in> {u. \<exists>d \<in> D. R d = Inr u}"
    then obtain d e where uv: "R d = Inr u" "R e = Inr v" by auto
    show "date_at z u = date_at z v \<longleftrightarrow> u = v"
    proof
      assume "date_at z u = date_at z v"
      then have "d = e" using date [OF uv(1)] date [OF uv(2)] by simp
      then show "u = v" using uv by simp
    qed simp
  next
    fix u assume "u \<in> {u. \<exists>d \<in> D. R d = Inr u}"
    then show "date_at z u \<in> D" using date by auto
  next
    fix d assume d: "d \<in> D"
    then obtain u where "R d = Inr u" using total by blast
    then show "\<exists>u \<in> {u. \<exists>d \<in> D. R d = Inr u}. d = date_at z u"
      using d date [of d u] by (intro bexI [of _ u]) auto
  qed
  then show ?thesis by (rule bij_betw_same_card)
qed

text \<open>Between two nominal instants lie exactly the instants of the selected dates between theirs.\<close>

lemma between_nominal:
  assumes "steady z" and date: "\<And>d u. R d = Inr u \<Longrightarrow> date_at z u = d" and total: "\<And>d. \<exists>u. R d = Inr u"
    and "first \<in> hits sel R" and "final \<in> hits sel R"
  shows "card (hits_between sel R first final)
    = card {d. sel d \<and> date_at z first \<le> d \<and> d \<le> date_at z final}"
proof -
  obtain a b where a: "R a = Inr first" and b: "R b = Inr final" using assms(4,5) by (auto simp: hits_def)
  have "first \<le> u \<longleftrightarrow> date_at z first \<le> d" if "R d = Inr u" for d u
    using steady_mono [OF assms(1), of first u] steady_less [OF assms(1), of first u] date a that
    by (cases "d = a") force+
  moreover have "u \<le> final \<longleftrightarrow> d \<le> date_at z final" if "R d = Inr u" for d u
    using steady_mono [OF assms(1), of u final] steady_less [OF assms(1), of u final] date b that
    by (cases "d = b") force+
  ultimately have eq: "hits_between sel R first final
      = {u. \<exists>d \<in> {d. sel d \<and> date_at z first \<le> d \<and> d \<le> date_at z final}. R d = Inr u}"
    by (auto simp: hits_between_def hits_def)
  show ?thesis unfolding eq by (rule card_instants [OF date total])
qed

text \<open>
  Counting whole periods and taking away what the two boundary periods hold outside the range: only
  they can hold any.
\<close>

lemma between_periods:
  assumes "steady z" and date: "\<And>d u. R d = Inr u \<Longrightarrow> date_at z u = d" and total: "\<And>d. \<exists>u. R d = Inr u"
    and mono: "\<And>d e. d \<le> e \<Longrightarrow> (per d :: int) \<le> per e"
    and dates: "\<And>k. set (dates k) = {d. sel d \<and> per d = k}" and distinct: "\<And>k. distinct (dates k)"
    and "first \<le> final"
    and groups: "map_res (\<lambda>k. map_res R (dates k)) (remdups [per (date_at z first), per (date_at z final)]) = Inr gs"
  shows "(\<Sum>k \<in> {per (date_at z first)..per (date_at z final)}. int (card {d. sel d \<and> per d = k}))
      - sum_list (map (count_outside first final) gs) = int (card (hits_between sel R first final))"
proof -
  define p q where "p = per (date_at z first)" and "q = per (date_at z final)"
  define C where "C = (\<lambda>k. {u. \<exists>d \<in> {d. sel d \<and> per d = k}. R d = Inr u})"
  define out where "out = (\<lambda>u. u < first \<or> final < u)"
  have pq: "p \<le> q" unfolding p_def q_def by (intro mono steady_mono assms)
  have C_per: "per (date_at z u) = k" if "u \<in> C k" for u k using that date by (auto simp: C_def)
  have fin: "finite {d. sel d \<and> per d = k}" for k unfolding dates [symmetric] by simp
  have C_card: "card (C k) = card {d. sel d \<and> per d = k}" for k
    unfolding C_def by (rule card_instants [OF date total])
  have C_fin: "finite (C k)" for k
  proof -
    have "C k \<subseteq> (\<lambda>d. projr (R d)) ` {d. sel d \<and> per d = k}" by (force simp: C_def)
    then show ?thesis using fin finite_surj by blast
  qed
  have disj: "C k \<inter> C l = {}" if "k \<noteq> l" for k l using C_per that by blast
  have split: "(\<Union>k \<in> {p..q}. C k) = hits_between sel R first final \<union> (\<Union>k \<in> {p, q}. {u \<in> C k. out u})"
  proof -
    have "u \<in> (\<Union>k \<in> {p..q}. C k)" if "u \<in> hits_between sel R first final" for u
    proof -
      have "u \<in> C (per (date_at z u))" using that date by (auto simp: hits_between_def hits_def C_def)
      moreover have "per (date_at z u) \<in> {p..q}"
        using that mono steady_mono [OF assms(1)] by (auto simp: hits_between_def p_def q_def)
      ultimately show ?thesis by blast
    qed
    moreover have "u \<in> hits_between sel R first final \<union> (\<Union>k \<in> {p, q}. {u \<in> C k. out u})"
      if "k \<in> {p..q}" "u \<in> C k" for k u
    proof (cases "out u")
      case False
      then show ?thesis using that(2) by (auto simp: hits_between_def hits_def C_def out_def)
    next
      case True
      then consider "u < first" | "final < u" by (auto simp: out_def)
      then have "k = p \<or> k = q"
      proof cases
        case 1
        then have "k \<le> p" using C_per [OF that(2)] mono steady_mono [OF assms(1), of u first] by (auto simp: p_def)
        then show ?thesis using that(1) by simp
      next
        case 2
        then have "q \<le> k" using C_per [OF that(2)] mono steady_mono [OF assms(1), of final u] by (auto simp: q_def)
        then show ?thesis using that(1) by simp
      qed
      then show ?thesis using True that(2) by blast
    qed
    moreover have "{p, q} \<subseteq> {p..q}" using pq by auto
    ultimately show ?thesis by blast
  qed
  have "finite (\<Union>k \<in> {p..q}. C k)" using C_fin by simp
  then have hb_fin: "finite (hits_between sel R first final)" unfolding split by simp
  have "card (\<Union>k \<in> {p..q}. C k) = (\<Sum>k \<in> {p..q}. card (C k))"
    by (intro card_UN_disjoint) (auto simp: C_fin disj)
  moreover have "card (\<Union>k \<in> {p, q}. {u \<in> C k. out u}) = (\<Sum>k \<in> {p, q}. card {u \<in> C k. out u})"
    by (intro card_UN_disjoint) (use C_fin disj in \<open>auto dest: C_per\<close>)
  moreover have "card (hits_between sel R first final \<union> (\<Union>k \<in> {p, q}. {u \<in> C k. out u}))
      = card (hits_between sel R first final) + card (\<Union>k \<in> {p, q}. {u \<in> C k. out u})"
    by (intro card_Un_disjoint) (use hb_fin C_fin in \<open>auto simp: hits_between_def out_def\<close>)
  moreover have "sum_list (map (count_outside first final) gs) = (\<Sum>k \<in> {p, q}. int (card {u \<in> C k. out u}))"
  proof -
    have group: "count_outside first final g = int (card {u \<in> C k. out u})" if "map_res R (dates k) = Inr g" for k g
    proof -
      have "distinct g" using distinct that
        by (rule map_res_distinct) (metis date)
      then have "count_outside first final g = int (card (set (filter out g)))"
        using distinct_card [of "filter out g"] by (simp add: count_outside_def out_def)
      moreover have "set (filter out g) = {u \<in> C k. out u}"
        using map_res_set [OF that] dates [of k] by (auto simp: C_def)
      ultimately show ?thesis by simp
    qed
    show ?thesis
      using groups group unfolding p_def [symmetric] q_def [symmetric]
      by (cases "p = q") (auto elim!: rbind_InrE)
  qed
  ultimately show ?thesis
    unfolding p_def [symmetric] q_def [symmetric] using split by (simp add: C_card del: of_nat_sum flip: of_nat_sum)
qed

subsection \<open>Weekdays\<close>

lemma isoweekday_range: "isoweekday n \<in> {1..7}"
  by (simp add: isoweekday_def)

lemma isoweekday_shift [simp]: "isoweekday (n + 7 * q) = isoweekday n"
  using mod_mult_self1 [of "n - 1" q 7] by (simp add: isoweekday_def algebra_simps)

lemma isoweekday_inj: "inj_on (\<lambda>k. isoweekday (d + k)) {0..<7}"
proof (rule inj_onI)
  fix k j :: int
  assume k: "k \<in> {0..<7}" and j: "j \<in> {0..<7}" and "isoweekday (d + k) = isoweekday (d + j)"
  then have "7 dvd (d + k - 1) - (d + j - 1)" by (simp add: isoweekday_def mod_eq_dvd_iff)
  then have "7 dvd k - j" by simp
  moreover have "\<bar>k - j\<bar> < 7" using k j by auto
  ultimately show "k = j" using dvd_imp_le_int [of "k - j" 7] by linarith
qed

definition weekday_hits :: "int set \<Rightarrow> int \<Rightarrow> int \<Rightarrow> int set" where
  "weekday_hits S d n = {k \<in> {0..<n}. isoweekday (d + k) \<in> S}"

lemma weekday_hits_week:
  assumes "S \<subseteq> {1..7}"
  shows "card (weekday_hits S d 7) = card S"
proof -
  have "(\<lambda>k. isoweekday (d + k)) ` {0..<7} = {1..7}"
    by (rule card_subset_eq) (use isoweekday_range in \<open>auto simp: card_image [OF isoweekday_inj]\<close>)
  then have "(\<lambda>k. isoweekday (d + k)) ` weekday_hits S d 7 = S"
    using assms by (fastforce simp: weekday_hits_def)
  moreover have "inj_on (\<lambda>k. isoweekday (d + k)) (weekday_hits S d 7)"
    by (rule inj_on_subset [OF isoweekday_inj]) (auto simp: weekday_hits_def)
  ultimately show ?thesis using card_image by fastforce
qed

lemma weekday_hits_finite [simp]: "finite (weekday_hits S d n)"
  by (rule finite_subset [of _ "{0..<n}"]) (auto simp: weekday_hits_def)

lemma weekday_hits_weeks:
  assumes "S \<subseteq> {1..7}" and "0 \<le> r"
  shows "card (weekday_hits S d (7 * int q + r)) = q * card S + card (weekday_hits S d r)"
proof (induction q)
  case (Suc q)
  define n where "n = 7 * int q + r"
  have "weekday_hits S d (7 + n) = weekday_hits S d 7 \<union> (\<lambda>k. k + 7) ` weekday_hits S d n"
  proof (intro set_eqI iffI)
    fix k assume k: "k \<in> weekday_hits S d (7 + n)"
    show "k \<in> weekday_hits S d 7 \<union> (\<lambda>k. k + 7) ` weekday_hits S d n"
    proof (cases "k < 7")
      case False
      then have "k - 7 \<in> weekday_hits S d n"
        using k isoweekday_shift [of "d + (k - 7)" 1] by (auto simp: weekday_hits_def)
      then show ?thesis by (intro UnI2) (rule rev_image_eqI, auto)
    qed (use k in \<open>auto simp: weekday_hits_def\<close>)
  next
    fix k assume "k \<in> weekday_hits S d 7 \<union> (\<lambda>k. k + 7) ` weekday_hits S d n"
    then show "k \<in> weekday_hits S d (7 + n)"
      using isoweekday_shift [of "d + (k - 7)" 1] assms(2) by (auto simp: weekday_hits_def n_def)
  qed
  moreover have "weekday_hits S d 7 \<inter> (\<lambda>k. k + 7) ` weekday_hits S d n = {}"
    by (auto simp: weekday_hits_def)
  moreover have "card ((\<lambda>k. k + 7) ` weekday_hits S d n) = card (weekday_hits S d n)"
    by (rule card_image) (simp add: inj_on_def)
  ultimately have "card (weekday_hits S d (7 + n)) = card S + card (weekday_hits S d n)"
    using weekday_hits_week [OF assms(1)] by (simp add: card_Un_disjoint)
  moreover have "7 * int (Suc q) + r = 7 + n" by (simp add: n_def)
  ultimately show ?case using Suc by (simp only: n_def [symmetric]) simp
qed simp

lemma count_weekdays_exact:
  assumes "weekdays_are_unique_iso_values ws = Inr ws" and "0 \<le> n"
  shows "count_weekdays ws d n = int (card (weekday_hits (set ws) d n))"
proof -
  have ws: "set ws \<subseteq> {1..7}" "card (set ws) = length ws"
    using assms(1) by (auto simp: weekdays_are_unique_iso_values_def not_less split: if_splits)
  have n: "n = 7 * int (nat (n div 7)) + n mod 7" using assms(2) by (simp add: pos_imp_zdiv_nonneg_iff)
  have part: "length (filter (\<lambda>k. isoweekday (d + k) \<in> set ws) [0..n mod 7 - 1])
      = card (weekday_hits (set ws) d (n mod 7))"
    unfolding distinct_card [OF distinct_filter [OF distinct_upto], symmetric] weekday_hits_def
    by (rule arg_cong [where f = card]) auto
  have "int (card (weekday_hits (set ws) d n)) = int (nat (n div 7) * card (set ws) + card (weekday_hits (set ws) d (n mod 7)))"
    using weekday_hits_weeks [OF ws(1), of "n mod 7" d "nat (n div 7)"] n by simp
  then show ?thesis using assms(2) part ws(2) by (simp add: count_weekdays_def pos_imp_zdiv_nonneg_iff)
qed

lemma dates_as_offsets:
  "{e. isoweekday e \<in> S \<and> d \<le> e \<and> e \<le> f} = (\<lambda>k. d + k) ` weekday_hits S d (f - d + 1)"
proof (intro set_eqI iffI)
  fix e assume "e \<in> {e. isoweekday e \<in> S \<and> d \<le> e \<and> e \<le> f}"
  then show "e \<in> (\<lambda>k. d + k) ` weekday_hits S d (f - d + 1)"
    by (intro rev_image_eqI [of "e - d"]) (auto simp: weekday_hits_def)
qed (auto simp: weekday_hits_def)

lemma weekly_dates_card:
  assumes "weekdays_are_unique_iso_values ws = Inr ws" and "d \<le> f"
  shows "count_weekdays ws d (f - d + 1) = int (card {e. isoweekday e \<in> set ws \<and> d \<le> e \<and> e \<le> f})"
proof -
  have "card {e. isoweekday e \<in> set ws \<and> d \<le> e \<and> e \<le> f} = card (weekday_hits (set ws) d (f - d + 1))"
    unfolding dates_as_offsets by (rule card_image) simp
  then show ?thesis using count_weekdays_exact [OF assms(1), of "f - d + 1" d] assms(2) by simp
qed

subsection \<open>Months and years\<close>

lemma monthly_card:
  assumes "\<forall>d \<in> set days. 1 \<le> d \<and> d \<le> 31" and "distinct days"
  shows "int (card {n. monthly_sel days last_day n \<and> index_of n = i}) = month_hits days last_day i"
proof -
  define y m where "y = i div 12 + 1" and "m = i mod 12 + 1"
  define S where "S = set (filter (\<lambda>d. d \<le> index_length i) days) \<union> (if last_day then {index_length i} else {})"
  have pos: "\<forall>d \<in> set days. 1 \<le> d" using assms(1) by blast
  have len: "monthrange y m = index_length i" by (simp add: y_def m_def index_length_def)
  have "{n. monthly_sel days last_day n \<and> index_of n = i} = ymd_ordinal y m ` S"
    unfolding monthly_dates_set [OF pos, symmetric] y_def [symmetric] m_def [symmetric]
    by (auto simp: monthly_dates_def Let_def S_def len)
  then have "card {n. monthly_sel days last_day n \<and> index_of n = i} = card S"
    by (simp add: card_image inj_on_def ymd_ordinal_def)
  moreover have "int (card (set (filter (\<lambda>d. d \<le> index_length i) days)))
      = sum_list (map (\<lambda>d. of_bool (d \<le> index_length i)) days)"
    using assms(2) by (induction days) (auto simp: card_insert_if)
  ultimately show ?thesis
    by (auto simp: month_hits_def S_def card_insert_if)
qed

lemma yearly_card:
  assumes "\<forall>md \<in> set dates. date_is_possible md = Inr md" and "distinct dates"
  shows "int (card {n. yearly_sel dates n \<and> year_of n = y})
    = sum_list (map (\<lambda>md. if md = (2, 29) then of_bool (is_leap y) else 1) dates)"
proof -
  have inj: "inj_on (\<lambda>(m, d). ymd_ordinal y m d) {md \<in> set dates. snd md \<le> monthrange y (fst md)}"
  proof (rule inj_onI, clarify)
    fix m d m' d' assume *: "(m, d) \<in> set dates" "(m', d') \<in> set dates"
      "snd (m, d) \<le> monthrange y (fst (m, d))" "snd (m', d') \<le> monthrange y (fst (m', d'))"
      "ymd_ordinal y m d = ymd_ordinal y m' d'"
    have "1 \<le> m \<and> m \<le> 12 \<and> 1 \<le> d" "1 \<le> m' \<and> m' \<le> 12 \<and> 1 \<le> d'"
      using assms(1) *(1,2) by (force simp: date_is_possible_def split: if_splits)+
    then show "m = m' \<and> d = d'"
      using ymd_components [of m d y] ymd_components [of m' d' y] *(3-5) by auto
  qed
  have "{n. yearly_sel dates n \<and> year_of n = y}
      = (\<lambda>(m, d). ymd_ordinal y m d) ` {md \<in> set dates. snd md \<le> monthrange y (fst md)}"
    unfolding yearly_dates_set [OF assms(1), symmetric] by (auto simp: yearly_dates_def case_prod_unfold)
  then have "card {n. yearly_sel dates n \<and> year_of n = y}
      = length (filter (\<lambda>md. snd md \<le> monthrange y (fst md)) dates)"
    using card_image [OF inj] assms(2) distinct_card [of "filter (\<lambda>md. snd md \<le> monthrange y (fst md)) dates"]
    by simp
  moreover have "int (length (filter (\<lambda>md. snd md \<le> monthrange y (fst md)) dates))
      = sum_list (map (\<lambda>md. if md = (2, 29) then of_bool (is_leap y) else 1) dates)"
    using assms(1)
  proof (induction dates)
    case (Cons md dates)
    have "snd md \<le> monthrange y (fst md) \<longleftrightarrow> (md = (2, 29) \<longrightarrow> is_leap y)"
      using Cons.prems
      by (cases md) (auto simp: date_is_possible_def monthrange_def is_leap_def split: if_splits)
    then show ?case using Cons by auto
  qed simp
  ultimately show ?thesis by simp
qed

lemma whole_years_sum:
  assumes "first \<le> final + 1"
  shows "whole_years dates first final
    = (\<Sum>y \<in> {first..final}. sum_list (map (\<lambda>md. if md = (2, 29) then of_bool (is_leap y) else 1) dates))"
  unfolding sum_swap [symmetric] whole_years_def using assms count_leap_years_sum [OF assms]
  by (intro arg_cong [where f = sum_list] map_cong) auto

lemma monthly_dates_distinct: "distinct (monthly_dates days last_day ym)"
  by (cases ym) (auto simp: monthly_dates_def Let_def distinct_map inj_on_def ymd_ordinal_def)

lemma yearly_dates_distinct:
  assumes "\<forall>md \<in> set dates. date_is_possible md = Inr md" and "distinct dates"
  shows "distinct (yearly_dates dates y)"
proof -
  have "(m, d) = (m', d')" if *: "(m, d) \<in> set dates" "(m', d') \<in> set dates" "d \<le> monthrange y m"
      "d' \<le> monthrange y m'" "ymd_ordinal y m d = ymd_ordinal y m' d'" for m d m' d'
  proof -
    have "1 \<le> m \<and> m \<le> 12 \<and> 1 \<le> d" "1 \<le> m' \<and> m' \<le> 12 \<and> 1 \<le> d'"
      using assms(1) *(1,2) by (force simp: date_is_possible_def split: if_splits)+
    then show ?thesis using ymd_components [of m d y] ymd_components [of m' d' y] *(3-5) by auto
  qed
  then show ?thesis using assms(2) by (auto simp: yearly_dates_def distinct_map inj_on_def)
qed

lemma count_monthly_exact:
  assumes "steady z" and "resolvable z t" and ok: "cadence_ok (MonthlyCadence t days last_day tz)"
    and "first \<le> final"
  shows "count_monthly t days last_day first final z
    = Inr (int (card (hits_between (monthly_sel days last_day) (resolve_civil z t) first final)))"
proof -
  define D where "D = (\<lambda>i. monthly_dates days last_day (i div 12 + 1, i mod 12 + 1))"
  define bounds where "bounds = remdups [index_of (date_at z first), index_of (date_at z final)]"
  have days: "\<forall>d \<in> set days. 1 \<le> d \<and> d \<le> 31" "distinct days"
    using ok by (auto simp: days_are_unique_calendar_values_def not_less card_distinct split: if_splits)
  then have pos: "\<forall>d \<in> set days. 1 \<le> d" by blast
  have total: "\<exists>u. resolve_civil z t d = Inr u" for d using assms(2) by (simp add: resolvable_def)
  have pairs: "map_res (\<lambda>ym. map_res (resolve_civil z t) (monthly_dates days last_day ym))
        (remdups [(year_of (date_at z first), month_of (date_at z first)),
                  (year_of (date_at z final), month_of (date_at z final))])
      = map_res (\<lambda>i. map_res (resolve_civil z t) (D i)) bounds"
  proof -
    have D: "D (index_of a) = monthly_dates days last_day (year_of a, month_of a)" for a
      by (simp add: D_def year_of_index month_of_index)
    have same: "year_of a = year_of b \<and> month_of a = month_of b \<longleftrightarrow> index_of a = index_of b" for a b
    proof
      assume "year_of a = year_of b \<and> month_of a = month_of b"
      then show "index_of a = index_of b" by (simp add: index_of_def)
    qed (simp add: year_of_index month_of_index)
    show ?thesis
      by (cases "index_of (date_at z first) = index_of (date_at z final)")
        (simp_all add: bounds_def D same)
  qed
  obtain gs where gs: "map_res (\<lambda>i. map_res (resolve_civil z t) (D i)) bounds = Inr gs"
    using map_res_total [of bounds "\<lambda>i. map_res (resolve_civil z t) (D i)"] map_res_total [of _ "resolve_civil z t"] total
    by blast
  have "index_of (date_at z first) \<le> index_of (date_at z final) + 1"
    using index_of_mono [OF steady_mono [OF assms(1,4)]] by simp
  then have "whole_months days last_day (index_of (date_at z first)) (index_of (date_at z final))
      = (\<Sum>i \<in> {index_of (date_at z first)..index_of (date_at z final)}.
          int (card {d. monthly_sel days last_day d \<and> index_of d = i}))"
    by (simp only: whole_months_sum [OF _ days(1)] monthly_card [OF days])
  moreover have "(\<Sum>i \<in> {index_of (date_at z first)..index_of (date_at z final)}.
          int (card {d. monthly_sel days last_day d \<and> index_of d = i}))
        - sum_list (map (count_outside first final) gs)
      = int (card (hits_between (monthly_sel days last_day) (resolve_civil z t) first final))"
    by (rule between_periods [OF assms(1) resolve_civil_date total index_of_mono _ _ assms(4),
          where dates = D, OF _ _ _ _ gs [unfolded bounds_def]])
      (simp_all add: D_def monthly_dates_set [OF pos] monthly_dates_distinct)
  ultimately show ?thesis
    unfolding count_monthly_def outside_boundary_months_def pairs gs rbind_simps by (simp only:)
qed

lemma count_yearly_exact:
  assumes "steady z" and "resolvable z t" and ok: "cadence_ok (YearlyCadence t dates tz)"
    and "first \<le> final"
  shows "count_yearly t dates first final z
    = Inr (int (card (hits_between (yearly_sel dates) (resolve_civil z t) first final)))"
proof -
  define bounds where "bounds = remdups [year_of (date_at z first), year_of (date_at z final)]"
  have dates: "\<forall>md \<in> set dates. date_is_possible md = Inr md" "distinct dates"
    using ok by (auto simp: dates_are_unique_and_sorted_def card_distinct split: if_splits)
  have total: "\<exists>u. resolve_civil z t d = Inr u" for d using assms(2) by (simp add: resolvable_def)
  obtain gs where gs: "map_res (\<lambda>y. map_res (resolve_civil z t) (yearly_dates dates y)) bounds = Inr gs"
    using map_res_total [of bounds "\<lambda>y. map_res (resolve_civil z t) (yearly_dates dates y)"]
      map_res_total [of _ "resolve_civil z t"] total by blast
  have "year_of (date_at z first) \<le> year_of (date_at z final) + 1"
    using year_of_mono [OF steady_mono [OF assms(1,4)]] by simp
  then have "whole_years dates (year_of (date_at z first)) (year_of (date_at z final))
      = (\<Sum>y \<in> {year_of (date_at z first)..year_of (date_at z final)}.
          int (card {d. yearly_sel dates d \<and> year_of d = y}))"
    by (simp only: whole_years_sum yearly_card [OF dates])
  moreover have "(\<Sum>y \<in> {year_of (date_at z first)..year_of (date_at z final)}.
          int (card {d. yearly_sel dates d \<and> year_of d = y}))
        - sum_list (map (count_outside first final) gs)
      = int (card (hits_between (yearly_sel dates) (resolve_civil z t) first final))"
    by (rule between_periods [OF assms(1) resolve_civil_date total year_of_mono _ _ assms(4),
          where dates = "yearly_dates dates", OF _ _ _ _ gs [unfolded bounds_def]])
      (simp_all add: yearly_dates_set [OF dates(1)] yearly_dates_distinct [OF dates])
  ultimately show ?thesis
    using gs by (simp only: count_yearly_def Let_def bounds_def rbind_simps)
qed

lemma interval_count:
  assumes "1 \<le> n" and "first \<le> final"
  shows "interval_index n final - interval_index n (first - 1)
    = int (card {u \<in> range (interval_at n). first \<le> u \<and> u \<le> final})"
proof -
  define w where "w = n * 60000000"
  have w: "0 < w" using assms(1) by (simp add: w_def)
  have upper: "k * w \<le> x \<longleftrightarrow> k \<le> x div w" for k x
  proof
    assume "k * w \<le> x"
    then have "k * w div w \<le> x div w" using w by (intro zdiv_mono1)
    then show "k \<le> x div w" using w by simp
  next
    assume "k \<le> x div w"
    then have "k * w \<le> x div w * w" using w by simp
    also have "\<dots> \<le> x" using floor_bounds [OF w, of x] by (simp add: mult.commute)
    finally show "k * w \<le> x" .
  qed
  have "first \<le> k * w \<longleftrightarrow> (first - 1) div w < k" for k
    using upper [of k "first - 1"] by linarith
  moreover have "k * w \<le> final \<longleftrightarrow> k \<le> final div w" for k by (rule upper)
  ultimately have "{u \<in> range (interval_at n). first \<le> u \<and> u \<le> final}
      = (\<lambda>k. k * w) ` {(first - 1) div w + 1..final div w}"
    by (auto simp: interval_at_def w_def [symmetric])
  moreover have "card ((\<lambda>k. k * w) ` {(first - 1) div w + 1..final div w})
      = card {(first - 1) div w + 1..final div w}"
    using w by (intro card_image) (simp add: inj_on_def)
  moreover have "(first - 1) div w \<le> final div w" using w assms(2) by (intro zdiv_mono1) auto
  ultimately show ?thesis by (simp add: interval_index_def w_def [symmetric])
qed

subsection \<open>Properties of the calculator\<close>

lemma nominal_between:
  "{u \<in> hits sel R. first \<le> u \<and> u \<le> final} = hits_between sel R first final"
  by (simp add: hits_between_def)

lemma count_between_calendar:
  assumes "cadence_ok c" and "cadence_zone c = Some tz" and "steady (db tz)" and "resolvable (db tz) (cadence_time c)"
    and "first \<in> nominal db c" and "final \<in> nominal db c" and "first \<le> final"
  shows "count_between db c first final = Inr (int (card {u \<in> nominal db c. first \<le> u \<and> u \<le> final}))"
proof -
  have total: "\<exists>u. resolve_civil (db tz) (cadence_time c) d = Inr u" for d
    using assms(4) by (simp add: resolvable_def)
  have order: "date_at (db tz) first \<le> date_at (db tz) final" using steady_mono [OF assms(3,7)] .
  note nominals = between_nominal [OF assms(3) resolve_civil_date total]
  show ?thesis
  proof (cases c)
    case (DailyCadence t z)
    then have "{d. matches None d \<and> date_at (db tz) first \<le> d \<and> d \<le> date_at (db tz) final}
        = {date_at (db tz) first..date_at (db tz) final}" by (auto simp: matches_def)
    then show ?thesis
      using DailyCadence assms order nominals [where first = first and final = final and sel = "matches None"]
      by (simp add: count_between_def nominal_between)
  next
    case (WeeklyCadence t ws z)
    then show ?thesis
      using assms order nominals [where first = first and final = final and sel = "matches (Some ws)"]
        weekly_dates_card [of ws "date_at (db tz) first" "date_at (db tz) final"]
      by (simp add: count_between_def nominal_between matches_def)
  next
    case (MonthlyCadence t days last_day z)
    then show ?thesis
      using assms count_monthly_exact [of "db tz" t days last_day z first final]
      by (simp add: count_between_def nominal_between)
  next
    case (YearlyCadence t dates z)
    then show ?thesis
      using assms count_yearly_exact [of "db tz" t dates z first final]
      by (simp add: count_between_def nominal_between)
  qed (use assms(2) in simp_all)
qed

text \<open>
  The recurrence calculator finds exactly the neighbouring instants. Whenever \<open>next_after\<close> returns an
  instant, it is the earliest nominal instant of the cadence after the reference, and whenever
  \<open>latest_at_or_before\<close> returns one, it is the latest nominal instant not after the reference, for every
  validated cadence whose zone's calendar date never moves backwards.
\<close>

theorem recurrence_finds_neighbours:
  assumes "cadence_ok c" and "\<forall>tz. cadence_zone c = Some tz \<longrightarrow> steady (db tz)"
  shows "(next_after db c ref = Inr (Some u) \<longrightarrow> least_after (nominal db c) ref u)
    \<and> (latest_at_or_before db c ref = Inr (Some v) \<longrightarrow> greatest_upto (nominal db c) ref v)"
  using assms next_after_sound [of c db ref u] latest_sound [of c db ref v] by blast

definition utc_zone :: zone_info where
  "utc_zone = \<lparr> zi_wall = (\<lambda>u. u), zi_utc = (\<lambda>l fold. l) \<rparr>"

lemma utc_date [simp]: "date_at utc_zone u = 719163 + u div day_us"
  by (simp add: date_at_def wall_date_def utc_zone_def)

lemma utc_steady: "steady utc_zone"
  by (auto simp: steady_def day_us_def zdiv_mono1)

lemma utc_resolve: "0 \<le> t \<Longrightarrow> t < day_us \<Longrightarrow> resolve_civil utc_zone t d = Inr ((d - 719163) * day_us + t)"
  by (simp add: resolve_civil_def resolve_from.simps valid_instants_def utc_zone_def wall_date_def
      div_pos_pos_trivial day_us_def)

lemma utc_resolvable: "0 \<le> t \<Longrightarrow> t < day_us \<Longrightarrow> resolvable utc_zone t"
  by (simp add: resolvable_def utc_resolve)

abbreviation utc_db :: zone_db where
  "utc_db \<equiv> \<lambda>_. utc_zone"

definition nine_daily :: cadence where
  "nine_daily = DailyCadence 32400000000 ''UTC''"

lemma nine_daily_next: "next_after utc_db nine_daily 0 = Inr (Some 32400000000)"
  by (simp add: nine_daily_def Let_def matches_def utc_resolve day_us_def)

theorem recurrence_finds_neighbours_witness:
  "least_after (nominal utc_db nine_daily) 0 32400000000"
  using recurrence_finds_neighbours [of nine_daily utc_db 0 32400000000 0] nine_daily_next utc_steady
  by (simp add: nine_daily_def local_time_ok_def day_us_def)


lemma epoch_year: "year_of 719163 = 1970"
  by (simp add: year_of_def before_year_def leaps_through_def)




end
