(* ===== verification/Journal.thy ===== *)
theory Journal
  imports Prelude
begin

text \<open>
  The undo journal of the in-process memory stores (\<open>adapters/memory/transactions.py\<close>): owner locks,
  nested transactions as savepoints, journalled dictionaries, lists and sets. Tasks are numbers, and
  a store is a family of dictionaries, lists and sets numbered by the object they are. A journal
  entry is the closure the code remembers, written as the primitive write it performs. List entries
  are object references: \<open>is\<close> compares them, so two appends never push the same reference.

  A call that would block on a lock is \<open>None\<close>; every other call is \<open>Some\<close> of its result.
\<close>

subsection \<open>Stores and primitive writes\<close>

text \<open>The pair of tenant and principal that owns a record.\<close>

datatype owner_key = Owner_key string string

record ('k, 'v, 'x) store =
  st_maps :: "nat \<Rightarrow> ('k, 'v) dict"
  st_lists :: "nat \<Rightarrow> 'x list"
  st_sets :: "nat \<Rightarrow> 'x set"

datatype ('k, 'v, 'x) prim =
    Set_item nat 'k 'v
  | Pop_item nat 'k
  | Push nat 'x
  | Unpush nat 'x
  | Add_elem nat 'x
  | Discard_elem nat 'x

text \<open>Deleting the last entry that is the given reference, found by counting down from the end.\<close>

definition remove_newest :: "'x \<Rightarrow> 'x list \<Rightarrow> 'x list" where
  "remove_newest x l = rev (remove1 x (rev l))"

fun apply_prim :: "('k, 'v, 'x) prim \<Rightarrow> ('k, 'v, 'x) store \<Rightarrow> ('k, 'v, 'x) store" where
  "apply_prim (Set_item m k v) S = S\<lparr> st_maps := (st_maps S)(m := dset k v (st_maps S m)) \<rparr>"
| "apply_prim (Pop_item m k) S = S\<lparr> st_maps := (st_maps S)(m := ddel k (st_maps S m)) \<rparr>"
| "apply_prim (Push l x) S = S\<lparr> st_lists := (st_lists S)(l := st_lists S l @ [x]) \<rparr>"
| "apply_prim (Unpush l x) S = S\<lparr> st_lists := (st_lists S)(l := remove_newest x (st_lists S l)) \<rparr>"
| "apply_prim (Add_elem s x) S = S\<lparr> st_sets := (st_sets S)(s := insert x (st_sets S s)) \<rparr>"
| "apply_prim (Discard_elem s x) S = S\<lparr> st_sets := (st_sets S)(s := st_sets S s - {x}) \<rparr>"

subsection \<open>Owner locks\<close>

text \<open>
  The inner \<open>asyncio.Lock\<close> is locked exactly while \<open>task\<close> is set: both change without a suspension
  point in between. Acquiring a lock of another task waits.
\<close>

record owner_lock =
  ol_task :: "nat option"
  ol_depth :: int

definition new_lock :: owner_lock where
  "new_lock = \<lparr> ol_task = None, ol_depth = 0 \<rparr>"

definition lock_acquire :: "nat \<Rightarrow> owner_lock \<Rightarrow> owner_lock option" where
  "lock_acquire t L =
     (if ol_task L \<noteq> Some t \<and> ol_task L \<noteq> None then None
      else Some \<lparr> ol_task = Some t, ol_depth = ol_depth L + 1 \<rparr>)"

definition lock_release :: "nat \<Rightarrow> owner_lock \<Rightarrow> owner_lock res" where
  "lock_release t L =
     (if ol_task L \<noteq> Some t then Inl (RuntimeError ''memory lock exited by a different task'')
      else if ol_depth L - 1 = 0 then Inr \<lparr> ol_task = None, ol_depth = 0 \<rparr>
      else Inr (L\<lparr> ol_depth := ol_depth L - 1 \<rparr>))"

subsection \<open>Transactions\<close>

record ('k, 'v, 'x) transaction_state =
  ts_journal :: "('k, 'v, 'x) prim list"
  ts_savepoints :: "nat list"
  ts_held :: "owner_key list"

record ('k, 'v, 'x) memory_transaction =
  mt_locks :: "(owner_key, owner_lock) dict"
  mt_states :: "(nat, ('k, 'v, 'x) transaction_state) dict"
  mt_store :: "('k, 'v, 'x) store"

definition lock_of :: "('k, 'v, 'x) memory_transaction \<Rightarrow> owner_key \<Rightarrow> owner_lock" where
  "lock_of M k = (case dget (mt_locks M) k of None \<Rightarrow> new_lock | Some L \<Rightarrow> L)"

definition owner_enter ::
    "nat option \<Rightarrow> owner_key \<Rightarrow> ('k, 'v, 'x) memory_transaction \<Rightarrow>
       ('k, 'v, 'x) memory_transaction res option" where
  "owner_enter task k M = (case task of
      None \<Rightarrow> Some (Inl (RuntimeError ''memory access requires an asyncio task''))
    | Some t \<Rightarrow> (case dget (mt_states M) t of
          Some st \<Rightarrow>
            if k \<notin> set (ts_held st)
            then Option.bind (lock_acquire t (lock_of M k)) (\<lambda>L1.
                 Option.bind (lock_acquire t L1) (\<lambda>L2.
                   Some (Inr (M\<lparr> mt_locks := dset k L2 (mt_locks M),
                     mt_states := dset t (st\<lparr> ts_held := ts_held st @ [k] \<rparr>) (mt_states M) \<rparr>))))
            else Option.bind (lock_acquire t (lock_of M k)) (\<lambda>L1.
                   Some (Inr (M\<lparr> mt_locks := dset k L1 (mt_locks M) \<rparr>)))
        | None \<Rightarrow> Option.bind (lock_acquire t (lock_of M k)) (\<lambda>L1.
                   Some (Inr (M\<lparr> mt_locks := dset k L1 (mt_locks M) \<rparr>)))))"

definition owner_exit ::
    "nat \<Rightarrow> owner_key \<Rightarrow> ('k, 'v, 'x) memory_transaction \<Rightarrow> ('k, 'v, 'x) memory_transaction res" where
  "owner_exit t k M = rbind (lock_release t (lock_of M k)) (\<lambda>L.
     Inr (M\<lparr> mt_locks := dset k L (mt_locks M) \<rparr>))"

definition txn_enter ::
    "nat option \<Rightarrow> ('k, 'v, 'x) memory_transaction \<Rightarrow> ('k, 'v, 'x) memory_transaction res" where
  "txn_enter task M = (case task of
      None \<Rightarrow> Inl (RuntimeError ''memory transactions require an asyncio task'')
    | Some t \<Rightarrow>
        let st = (case dget (mt_states M) t of
            None \<Rightarrow> \<lparr> ts_journal = [], ts_savepoints = [], ts_held = [] \<rparr> | Some st \<Rightarrow> st)
        in Inr (M\<lparr> mt_states := dset t
             (st\<lparr> ts_savepoints := ts_savepoints st @ [length (ts_journal st)] \<rparr>) (mt_states M) \<rparr>))"

fun release_held ::
    "nat \<Rightarrow> owner_key list \<Rightarrow> ('k, 'v, 'x) memory_transaction \<Rightarrow>
       ('k, 'v, 'x) memory_transaction res" where
  "release_held t [] M = Inr M"
| "release_held t (k # ks) M = rbind (owner_exit t k M) (release_held t ks)"

text \<open>The \<open>finally\<close> block: the savepoint goes, and with the last one the state and its locks.\<close>

definition txn_finish ::
    "nat \<Rightarrow> ('k, 'v, 'x) transaction_state \<Rightarrow> ('k, 'v, 'x) memory_transaction \<Rightarrow>
       ('k, 'v, 'x) memory_transaction res" where
  "txn_finish t st M =
     (let st' = st\<lparr> ts_savepoints := butlast (ts_savepoints st) \<rparr>
      in if ts_savepoints st' = []
         then release_held t (rev (ts_held st')) (M\<lparr> mt_states := ddel t (mt_states M) \<rparr>)
         else Inr (M\<lparr> mt_states := dset t st' (mt_states M) \<rparr>))"

definition txn_commit ::
    "nat \<Rightarrow> ('k, 'v, 'x) memory_transaction \<Rightarrow> ('k, 'v, 'x) memory_transaction res" where
  "txn_commit t M = rbind (dlookup KeyError (mt_states M) t) (\<lambda>st. txn_finish t st M)"

definition txn_abort ::
    "nat \<Rightarrow> ('k, 'v, 'x) memory_transaction \<Rightarrow> ('k, 'v, 'x) memory_transaction res" where
  "txn_abort t M = rbind (dlookup KeyError (mt_states M) t) (\<lambda>st.
     let start = last (ts_savepoints st)
     in txn_finish t (st\<lparr> ts_journal := take start (ts_journal st) \<rparr>)
          (M\<lparr> mt_store := fold apply_prim (rev (drop start (ts_journal st))) (mt_store M) \<rparr>))"

subsection \<open>Journalled writes\<close>

definition remember ::
    "nat option \<Rightarrow> ('k, 'v, 'x) prim \<Rightarrow> ('k, 'v, 'x) memory_transaction \<Rightarrow>
       ('k, 'v, 'x) memory_transaction" where
  "remember task undo M = (case task of
      None \<Rightarrow> M
    | Some t \<Rightarrow> (case dget (mt_states M) t of
          None \<Rightarrow> M
        | Some st \<Rightarrow> M\<lparr> mt_states :=
            dset t (st\<lparr> ts_journal := ts_journal st @ [undo] \<rparr>) (mt_states M) \<rparr>))"

definition do_write ::
    "('k, 'v, 'x) prim \<Rightarrow> ('k, 'v, 'x) memory_transaction \<Rightarrow> ('k, 'v, 'x) memory_transaction" where
  "do_write p M = M\<lparr> mt_store := apply_prim p (mt_store M) \<rparr>"

definition map_setitem ::
    "nat option \<Rightarrow> nat \<Rightarrow> 'k \<Rightarrow> 'v \<Rightarrow> ('k, 'v, 'x) memory_transaction \<Rightarrow>
       ('k, 'v, 'x) memory_transaction" where
  "map_setitem task m k v M = do_write (Set_item m k v) (case dget (st_maps (mt_store M) m) k of
      Some previous \<Rightarrow> remember task (Set_item m k previous) M
    | None \<Rightarrow> remember task (Pop_item m k) M)"

definition map_delitem ::
    "nat option \<Rightarrow> nat \<Rightarrow> 'k \<Rightarrow> ('k, 'v, 'x) memory_transaction \<Rightarrow>
       ('k, 'v, 'x) memory_transaction res" where
  "map_delitem task m k M = rbind (dlookup KeyError (st_maps (mt_store M) m) k) (\<lambda>previous.
     Inr (do_write (Pop_item m k) (remember task (Set_item m k previous) M)))"

definition list_append ::
    "nat option \<Rightarrow> nat \<Rightarrow> 'x \<Rightarrow> ('k, 'v, 'x) memory_transaction \<Rightarrow>
       ('k, 'v, 'x) memory_transaction" where
  "list_append task l x M = do_write (Push l x) (remember task (Unpush l x) M)"

definition set_add ::
    "nat option \<Rightarrow> nat \<Rightarrow> 'x \<Rightarrow> ('k, 'v, 'x) memory_transaction \<Rightarrow>
       ('k, 'v, 'x) memory_transaction" where
  "set_add task s x M = (if x \<notin> st_sets (mt_store M) s
     then do_write (Add_elem s x) (remember task (Discard_elem s x) M) else M)"

definition set_discard ::
    "nat option \<Rightarrow> nat \<Rightarrow> 'x \<Rightarrow> ('k, 'v, 'x) memory_transaction \<Rightarrow>
       ('k, 'v, 'x) memory_transaction" where
  "set_discard task s x M = (if x \<in> st_sets (mt_store M) s
     then do_write (Discard_elem s x) (remember task (Add_elem s x) M) else M)"

subsection \<open>Interleaved tasks\<close>

datatype ('k, 'v, 'x) action =
    Enter | Commit | Abort
  | Own owner_key | Disown owner_key
  | Put nat 'k 'v | Remove nat 'k
  | Append nat 'x | Insert nat 'x | Discard nat 'x

fun perform :: "nat \<Rightarrow> ('k, 'v, 'x) action \<Rightarrow> ('k, 'v, 'x) memory_transaction \<Rightarrow>
    ('k, 'v, 'x) memory_transaction res option" where
  "perform t Enter M = Some (txn_enter (Some t) M)"
| "perform t Commit M = Some (txn_commit t M)"
| "perform t Abort M = Some (txn_abort t M)"
| "perform t (Own k) M = owner_enter (Some t) k M"
| "perform t (Disown k) M = Some (owner_exit t k M)"
| "perform t (Put m k v) M = Some (Inr (map_setitem (Some t) m k v M))"
| "perform t (Remove m k) M = Some (map_delitem (Some t) m k M)"
| "perform t (Append l x) M = Some (Inr (list_append (Some t) l x M))"
| "perform t (Insert s x) M = Some (Inr (set_add (Some t) s x M))"
| "perform t (Discard s x) M = Some (Inr (set_discard (Some t) s x M))"

subsection \<open>The discipline of the stores\<close>

datatype ('k, 'x) place = In_map nat 'k | In_set nat 'x

text \<open>
  Every store method writes inside \<open>async with transaction.owner(...)\<close> of the record's owner, so a
  writer has that lock and, within a transaction, the transaction retains it. A block of \<open>owner\<close> is
  left only after it was entered. An appended entry is a new object, so no journal remembers it.
\<close>

definition permitted ::
    "(('k, 'x) place \<Rightarrow> owner_key) \<Rightarrow> nat \<Rightarrow> ('k, 'x) place \<Rightarrow> ('k, 'v, 'x) memory_transaction \<Rightarrow> bool" where
  "permitted own t a M \<longleftrightarrow> ol_task (lock_of M (own a)) = Some t
     \<and> (\<forall>st. dget (mt_states M) t = Some st \<longrightarrow> own a \<in> set (ts_held st))"

definition blocks_open :: "nat \<Rightarrow> owner_key \<Rightarrow> ('k, 'v, 'x) memory_transaction \<Rightarrow> int" where
  "blocks_open t k M = (if ol_task (lock_of M k) \<noteq> Some t then 0
     else ol_depth (lock_of M k) - (case dget (mt_states M) t of
         None \<Rightarrow> 0 | Some st \<Rightarrow> if k \<in> set (ts_held st) then 1 else 0))"

fun disciplined ::
    "(('k, 'x) place \<Rightarrow> owner_key) \<Rightarrow> nat \<Rightarrow> ('k, 'v, 'x) action \<Rightarrow> ('k, 'v, 'x) memory_transaction \<Rightarrow> bool" where
  "disciplined own t (Put m k v) M = permitted own t (In_map m k) M"
| "disciplined own t (Remove m k) M = permitted own t (In_map m k) M"
| "disciplined own t (Insert s x) M = permitted own t (In_set s x) M"
| "disciplined own t (Discard s x) M = permitted own t (In_set s x) M"
| "disciplined own t (Append l x) M =
     (\<forall>u st. dget (mt_states M) u = Some st \<longrightarrow> Unpush l x \<notin> set (ts_journal st))"
| "disciplined own t (Disown k) M = (0 < blocks_open t k M)"
| "disciplined own t a M = True"

inductive task_step ::
    "(('k, 'x) place \<Rightarrow> owner_key) \<Rightarrow> ('k, 'v, 'x) memory_transaction \<Rightarrow> nat \<times> ('k, 'v, 'x) action \<Rightarrow>
       ('k, 'v, 'x) memory_transaction \<Rightarrow> bool" for own where
  task_acts: "disciplined own t a M \<Longrightarrow> perform t a M = Some (Inr M') \<Longrightarrow> task_step own M (t, a) M'"

inductive_simps task_step_iff: "task_step own M (t, a) M'"

inductive task_steps ::
    "(('k, 'x) place \<Rightarrow> owner_key) \<Rightarrow> ('k, 'v, 'x) memory_transaction \<Rightarrow> (nat \<times> ('k, 'v, 'x) action) list \<Rightarrow>
       ('k, 'v, 'x) memory_transaction \<Rightarrow> bool" for own where
  no_steps: "task_steps own M [] M"
| more_steps: "task_step own M b M' \<Longrightarrow> task_steps own M' tr M'' \<Longrightarrow> task_steps own M (b # tr) M''"

inductive_cases task_steps_ConsE: "task_steps own M (b # tr) M'"

definition idle_memory :: "('k, 'v, 'x) store \<Rightarrow> ('k, 'v, 'x) memory_transaction" where
  "idle_memory S = \<lparr> mt_locks = [], mt_states = [], mt_store = S \<rparr>"

definition nesting :: "nat \<Rightarrow> ('k, 'v, 'x) memory_transaction \<Rightarrow> nat" where
  "nesting t M = (case dget (mt_states M) t of None \<Rightarrow> 0 | Some st \<Rightarrow> length (ts_savepoints st))"

definition journal :: "nat \<Rightarrow> ('k, 'v, 'x) memory_transaction \<Rightarrow> ('k, 'v, 'x) prim list" where
  "journal t M = (case dget (mt_states M) t of None \<Rightarrow> [] | Some st \<Rightarrow> ts_journal st)"

text \<open>Steps during which task \<open>t\<close> stays inside the transaction it opened at nesting \<open>d\<close>.\<close>

inductive steps_inside ::
    "(('k, 'x) place \<Rightarrow> owner_key) \<Rightarrow> nat \<Rightarrow> nat \<Rightarrow> ('k, 'v, 'x) memory_transaction \<Rightarrow>
       (nat \<times> ('k, 'v, 'x) action) list \<Rightarrow> ('k, 'v, 'x) memory_transaction \<Rightarrow> bool" for own t d where
  inside_none: "d < nesting t M \<Longrightarrow> steps_inside own t d M [] M"
| inside_more: "d < nesting t M \<Longrightarrow> task_step own M b M' \<Longrightarrow> steps_inside own t d M' tr M'' \<Longrightarrow>
    steps_inside own t d M (b # tr) M''"

subsection \<open>Undoing writes\<close>

text \<open>Stores with the same contents; the insertion order of a dictionary is not part of them.\<close>

definition same_store :: "('k, 'v, 'x) store \<Rightarrow> ('k, 'v, 'x) store \<Rightarrow> bool" where
  "same_store A B \<longleftrightarrow> (\<forall>m k. dget (st_maps A m) k = dget (st_maps B m) k)
     \<and> st_lists A = st_lists B \<and> st_sets A = st_sets B"

lemma same_store_refl [simp]: "same_store A A"
  by (simp add: same_store_def)

lemma same_store_sym: "same_store A B \<Longrightarrow> same_store B A"
  by (simp add: same_store_def)

lemma same_store_trans [trans]: "same_store A B \<Longrightarrow> same_store B C \<Longrightarrow> same_store A C"
  by (simp add: same_store_def)

lemma apply_prim_cong: "same_store A B \<Longrightarrow> same_store (apply_prim p A) (apply_prim p B)"
  by (cases p) (simp_all add: same_store_def)

lemma undo_cong: "same_store A B \<Longrightarrow> same_store (fold apply_prim ps A) (fold apply_prim ps B)"
  by (induction ps arbitrary: A B) (simp_all add: apply_prim_cong)

fun touches :: "('k, 'v, 'x) prim \<Rightarrow> ('k, 'x) place option" where
  "touches (Set_item m k v) = Some (In_map m k)"
| "touches (Pop_item m k) = Some (In_map m k)"
| "touches (Add_elem s x) = Some (In_set s x)"
| "touches (Discard_elem s x) = Some (In_set s x)"
| "touches _ = None"

text \<open>An undo entry commutes with a write that has nothing to do with it.\<close>

fun unrelated :: "('k, 'v, 'x) prim \<Rightarrow> ('k, 'v, 'x) prim \<Rightarrow> bool" where
  "unrelated (Unpush l x) (Push n y) = (l \<noteq> n \<or> x \<noteq> y)"
| "unrelated (Push l x) p = False"
| "unrelated p q = (touches p = None \<or> touches p \<noteq> touches q)"

lemma remove_newest_push:
  "remove_newest x (l @ [x]) = l"
  "x \<noteq> y \<Longrightarrow> remove_newest x (l @ [y]) = remove_newest x l @ [y]"
  by (simp_all add: remove_newest_def)

lemma remove_newest_commute: "remove_newest x (remove_newest y l) = remove_newest y (remove_newest x l)"
  by (simp add: remove_newest_def remove1_commute)

lemma unrelated_commute:
  "unrelated p q \<Longrightarrow> same_store (apply_prim p (apply_prim q S)) (apply_prim q (apply_prim p S))"
  by (cases p; cases q)
    (auto simp: same_store_def remove_newest_push remove_newest_commute fun_eq_iff)

lemma undo_commute:
  assumes "\<forall>p \<in> set ps. unrelated p q"
  shows "same_store (fold apply_prim ps (apply_prim q S)) (apply_prim q (fold apply_prim ps S))"
  using assms
proof (induction ps arbitrary: S)
  case (Cons p ps)
  have "same_store (fold apply_prim ps (apply_prim p (apply_prim q S)))
      (fold apply_prim ps (apply_prim q (apply_prim p S)))"
    using Cons.prems by (simp add: undo_cong unrelated_commute)
  also have "same_store \<dots> (apply_prim q (fold apply_prim ps (apply_prim p S)))"
    using Cons.prems by (intro Cons.IH) simp
  finally show ?case by simp
qed simp

lemma undo_commute_list:
  assumes "\<forall>p \<in> set ps. \<forall>q \<in> set qs. unrelated p q"
  shows "same_store (fold apply_prim ps (fold apply_prim qs S)) (fold apply_prim qs (fold apply_prim ps S))"
  using assms
proof (induction qs arbitrary: S)
  case (Cons q qs)
  have "same_store (fold apply_prim ps (fold apply_prim qs (apply_prim q S)))
      (fold apply_prim qs (fold apply_prim ps (apply_prim q S)))"
    using Cons.prems by (intro Cons.IH) simp
  also have "same_store \<dots> (fold apply_prim qs (apply_prim q (fold apply_prim ps S)))"
    using Cons.prems by (intro undo_cong undo_commute) simp
  finally show ?case by simp
qed simp

lemma undo_reads_map:
  "\<forall>p \<in> set ps. touches p \<noteq> Some (In_map m k) \<Longrightarrow>
    dget (st_maps (fold apply_prim ps S) m) k = dget (st_maps S m) k"
proof (induction ps arbitrary: S)
  case (Cons p ps)
  have "dget (st_maps (apply_prim p S) m) k = dget (st_maps S m) k"
    using Cons.prems by (cases p) auto
  then show ?case using Cons by simp
qed simp

lemma undo_reads_set:
  "\<forall>p \<in> set ps. touches p \<noteq> Some (In_set s x) \<Longrightarrow>
    x \<in> st_sets (fold apply_prim ps S) s \<longleftrightarrow> x \<in> st_sets S s"
proof (induction ps arbitrary: S)
  case (Cons p ps)
  have "x \<in> st_sets (apply_prim p S) s \<longleftrightarrow> x \<in> st_sets S s"
    using Cons.prems by (cases p) auto
  then show ?case using Cons by simp
qed simp

subsection \<open>Journalled writes as one shape\<close>

text \<open>
  What each write does: a primitive write together with the entry that undoes it, or nothing when
  the set already has the wanted element.
\<close>

fun write_of :: "('k, 'v, 'x) action \<Rightarrow> ('k, 'v, 'x) store \<Rightarrow> (('k, 'v, 'x) prim \<times> ('k, 'v, 'x) prim) option" where
  "write_of (Put m k v) S = Some (Set_item m k v,
     case dget (st_maps S m) k of Some previous \<Rightarrow> Set_item m k previous | None \<Rightarrow> Pop_item m k)"
| "write_of (Remove m k) S = (case dget (st_maps S m) k of
     Some previous \<Rightarrow> Some (Pop_item m k, Set_item m k previous) | None \<Rightarrow> None)"
| "write_of (Append l x) S = Some (Push l x, Unpush l x)"
| "write_of (Insert s x) S = (if x \<notin> st_sets S s then Some (Add_elem s x, Discard_elem s x) else None)"
| "write_of (Discard s x) S = (if x \<in> st_sets S s then Some (Discard_elem s x, Add_elem s x) else None)"
| "write_of _ S = None"

fun is_write :: "('k, 'v, 'x) action \<Rightarrow> bool" where
  "is_write (Put m k v) = True"
| "is_write (Remove m k) = True"
| "is_write (Append l x) = True"
| "is_write (Insert s x) = True"
| "is_write (Discard s x) = True"
| "is_write _ = False"

definition journalled ::
    "nat \<Rightarrow> (('k, 'v, 'x) prim \<times> ('k, 'v, 'x) prim) option \<Rightarrow> ('k, 'v, 'x) memory_transaction \<Rightarrow>
       ('k, 'v, 'x) memory_transaction" where
  "journalled t w M = (case w of None \<Rightarrow> M | Some (p, q) \<Rightarrow> do_write p (remember (Some t) q M))"

lemma perform_write:
  assumes "is_write a"
  shows "perform t a M = Some (Inr M') \<longleftrightarrow>
    M' = journalled t (write_of a (mt_store M)) M
      \<and> (\<forall>m k. a = Remove m k \<longrightarrow> dget (st_maps (mt_store M) m) k \<noteq> None)"
  using assms
  by (cases a) (auto simp: journalled_def map_setitem_def map_delitem_def list_append_def set_add_def
      set_discard_def rbind_Inr_iff split: option.splits)

lemma write_undone:
  assumes "write_of a S = Some (p, q)"
  shows "same_store (apply_prim q (apply_prim p S)) S"
  using assms
  by (cases a) (auto simp: same_store_def remove_newest_push fun_eq_iff split: option.splits if_splits)

lemma journalled_simps [simp]:
  "mt_locks (journalled t w M) = mt_locks M"
  "lock_of (journalled t w M) = lock_of M"
  by (auto simp: journalled_def do_write_def remember_def lock_of_def split: option.splits)

lemma journalled_store:
  "mt_store (journalled t w M) = (case w of None \<Rightarrow> mt_store M | Some (p, q) \<Rightarrow> apply_prim p (mt_store M))"
  by (auto simp: journalled_def do_write_def remember_def split: option.splits)

lemma journalled_states:
  "dget (mt_states (journalled t w M)) u =
    (case (w, dget (mt_states M) u) of
       (Some (p, q), Some st) \<Rightarrow> Some (if u = t then st\<lparr> ts_journal := ts_journal st @ [q] \<rparr> else st)
     | (_, x) \<Rightarrow> x)"
  by (auto simp: journalled_def do_write_def remember_def split: option.splits)

subsection \<open>Releasing locks\<close>

definition released :: "owner_lock \<Rightarrow> owner_lock" where
  "released L = (if ol_depth L = 1 then new_lock else L\<lparr> ol_depth := ol_depth L - 1 \<rparr>)"

lemma lock_of_dset [simp]:
  "lock_of (M\<lparr> mt_locks := dset k L (mt_locks M) \<rparr>) j = (if j = k then L else lock_of M j)"
  "lock_of (M\<lparr> mt_locks := dset k L (mt_locks M), mt_states := X \<rparr>) j = (if j = k then L else lock_of M j)"
  by (simp_all add: lock_of_def)

lemma lock_of_other [simp]:
  "lock_of (M\<lparr> mt_states := X \<rparr>) = lock_of M" "lock_of (M\<lparr> mt_store := S \<rparr>) = lock_of M"
  "lock_of (M\<lparr> mt_states := X, mt_store := S \<rparr>) = lock_of M"
  by (simp_all add: lock_of_def fun_eq_iff)

lemma lock_release_eq: "lock_release t L =
    (if ol_task L = Some t then Inr (released L)
     else Inl (RuntimeError ''memory lock exited by a different task''))"
  by (simp add: lock_release_def released_def new_lock_def)

lemma owner_exit_eq: "owner_exit t k M =
    (if ol_task (lock_of M k) = Some t
     then Inr (M\<lparr> mt_locks := dset k (released (lock_of M k)) (mt_locks M) \<rparr>)
     else Inl (RuntimeError ''memory lock exited by a different task''))"
  by (simp add: owner_exit_def lock_release_eq)

lemma release_held_effect:
  assumes "distinct ks" and "\<forall>k \<in> set ks. ol_task (lock_of M k) = Some t"
  shows "\<exists>M'. release_held t ks M = Inr M' \<and> mt_states M' = mt_states M \<and> mt_store M' = mt_store M
     \<and> (\<forall>k. lock_of M' k = (if k \<in> set ks then released (lock_of M k) else lock_of M k))"
  using assms
proof (induction ks arbitrary: M)
  case (Cons k ks)
  define M1 where "M1 = M\<lparr> mt_locks := dset k (released (lock_of M k)) (mt_locks M) \<rparr>"
  have exit_k: "owner_exit t k M = Inr M1" using Cons.prems by (simp add: owner_exit_eq M1_def)
  have "\<forall>j \<in> set ks. ol_task (lock_of M1 j) = Some t" using Cons.prems by (auto simp: M1_def)
  then obtain M' where "release_held t ks M1 = Inr M'" "mt_states M' = mt_states M1"
      "mt_store M' = mt_store M1"
      "\<forall>j. lock_of M' j = (if j \<in> set ks then released (lock_of M1 j) else lock_of M1 j)"
    using Cons.IH [of M1] Cons.prems(1) by auto
  then show ?case using exit_k Cons.prems(1) by (auto simp: M1_def)
qed simp

subsection \<open>The invariant\<close>

definition covered :: "(('k, 'x) place \<Rightarrow> owner_key) \<Rightarrow> owner_key list \<Rightarrow> ('k, 'v, 'x) prim \<Rightarrow> bool" where
  "covered own ks q \<longleftrightarrow> (\<forall>a. touches q = Some a \<longrightarrow> own a \<in> set ks) \<and> (\<forall>l x. q \<noteq> Push l x)"

definition state_ok ::
    "(('k, 'x) place \<Rightarrow> owner_key) \<Rightarrow> ('k, 'v, 'x) memory_transaction \<Rightarrow> nat \<Rightarrow> ('k, 'v, 'x) transaction_state \<Rightarrow> bool" where
  "state_ok own M t st \<longleftrightarrow>
     ts_savepoints st \<noteq> [] \<and> sorted (ts_savepoints st)
     \<and> (\<forall>n \<in> set (ts_savepoints st). n \<le> length (ts_journal st)) \<and> distinct (ts_held st)
     \<and> (\<forall>k \<in> set (ts_held st). ol_task (lock_of M k) = Some t)
     \<and> (\<forall>q \<in> set (ts_journal st). covered own (ts_held st) q)"

definition memory_ok :: "(('k, 'x) place \<Rightarrow> owner_key) \<Rightarrow> ('k, 'v, 'x) memory_transaction \<Rightarrow> bool" where
  "memory_ok own M \<longleftrightarrow> (\<forall>t st. dget (mt_states M) t = Some st \<longrightarrow> state_ok own M t st)
     \<and> (\<forall>k. 0 \<le> ol_depth (lock_of M k) \<and> (ol_task (lock_of M k) = None \<longleftrightarrow> ol_depth (lock_of M k) = 0))"

lemma memory_okD: "memory_ok own M \<Longrightarrow> dget (mt_states M) t = Some st \<Longrightarrow> state_ok own M t st"
  by (simp add: memory_ok_def)

lemma memory_ok_lock:
  assumes "memory_ok own M" and "ol_task (lock_of M k) = Some t"
  shows "1 \<le> ol_depth (lock_of M k)"
proof -
  have "0 \<le> ol_depth (lock_of M k) \<and> (ol_task (lock_of M k) = None \<longleftrightarrow> ol_depth (lock_of M k) = 0)"
    using assms(1) unfolding memory_ok_def by blast
  then show ?thesis using assms(2) by auto
qed

lemma idle_memory_ok [simp]: "memory_ok own (idle_memory S)"
  by (simp add: memory_ok_def idle_memory_def lock_of_def new_lock_def)

lemma write_covered:
  assumes "write_of a S = Some (p, q)" and "disciplined own t a M" and "dget (mt_states M) t = Some st"
  shows "covered own (ts_held st) q"
  using assms
  by (cases a) (auto simp: covered_def permitted_def split: option.splits if_splits)

lemma write_ok:
  assumes "memory_ok own M" and "disciplined own t a M"
  shows "memory_ok own (journalled t (write_of a (mt_store M)) M)"
  using assms
  by (auto simp: memory_ok_def state_ok_def journalled_states le_Suc_eq split: option.splits if_splits
      dest!: write_covered [OF _ assms(2)])

lemma lock_acquire_Some [simp]: "lock_acquire t L = Some L' \<longleftrightarrow>
    (ol_task L = None \<or> ol_task L = Some t) \<and> L' = \<lparr> ol_task = Some t, ol_depth = ol_depth L + 1 \<rparr>"
  by (auto simp: lock_acquire_def)

lemma owner_enter_cases:
  assumes "owner_enter (Some t) k M = Some (Inr M')"
  obtains (kept) "ol_task (lock_of M k) = None \<or> ol_task (lock_of M k) = Some t"
      and "\<forall>st. dget (mt_states M) t = Some st \<longrightarrow> k \<in> set (ts_held st)"
      and "M' = M\<lparr> mt_locks := dset k \<lparr> ol_task = Some t, ol_depth = ol_depth (lock_of M k) + 1 \<rparr> (mt_locks M) \<rparr>"
  | (retained) st where "ol_task (lock_of M k) = None \<or> ol_task (lock_of M k) = Some t"
      and "dget (mt_states M) t = Some st" and "k \<notin> set (ts_held st)"
      and "M' = M\<lparr> mt_locks := dset k \<lparr> ol_task = Some t, ol_depth = ol_depth (lock_of M k) + 2 \<rparr> (mt_locks M),
             mt_states := dset t (st\<lparr> ts_held := ts_held st @ [k] \<rparr>) (mt_states M) \<rparr>"
proof (cases "dget (mt_states M) t")
  case None
  then show thesis using assms by (intro kept) (auto simp: owner_enter_def bind_eq_Some_conv)
next
  case (Some st)
  show thesis
  proof (cases "k \<in> set (ts_held st)")
    case True
    then show thesis using assms Some by (intro kept) (auto simp: owner_enter_def bind_eq_Some_conv)
  next
    case False
    then show thesis using assms Some
      by (intro retained [OF _ Some False]) (auto simp: owner_enter_def bind_eq_Some_conv add.assoc)
  qed
qed

lemma state_ok_transfer:
  assumes "state_ok own M t st"
    and "\<And>k. k \<in> set (ts_held st) \<Longrightarrow> ol_task (lock_of M k) = Some t \<Longrightarrow> ol_task (lock_of M' k) = Some t"
  shows "state_ok own M' t st"
  using assms by (simp add: state_ok_def)

text \<open>Other tasks' transactions only depend on the locks they retain.\<close>

lemma memory_okI:
  assumes "\<And>u st. dget (mt_states M') u = Some st \<Longrightarrow> state_ok own M' u st"
    and "\<And>k. 0 \<le> ol_depth (lock_of M' k)"
    and "\<And>k. ol_task (lock_of M' k) = None \<longleftrightarrow> ol_depth (lock_of M' k) = 0"
  shows "memory_ok own M'"
  using assms unfolding memory_ok_def by blast

lemma memory_ok_depth:
  assumes "memory_ok own M"
  shows "0 \<le> ol_depth (lock_of M k)" and "ol_task (lock_of M k) = None \<longleftrightarrow> ol_depth (lock_of M k) = 0"
  using assms unfolding memory_ok_def by blast+

lemma released_props:
  assumes "memory_ok own M" and "ol_task (lock_of M k) = Some t"
  shows "0 \<le> ol_depth (released (lock_of M k))"
    and "ol_task (released (lock_of M k)) = None \<longleftrightarrow> ol_depth (released (lock_of M k)) = 0"
    and "ol_task (released (lock_of M k)) = (if ol_depth (lock_of M k) = 1 then None else Some t)"
  using memory_ok_lock [OF assms] assms(2) by (auto simp: released_def new_lock_def)

lemma own_ok:
  assumes ok: "memory_ok own M" and step: "owner_enter (Some t) k M = Some (Inr M')"
  shows "memory_ok own M'"
  using step
proof (cases rule: owner_enter_cases)
  case kept
  have others: "state_ok own M' u st" if "dget (mt_states M') u = Some st" for u st
  proof -
    have "state_ok own M u st" using that memory_okD [OF ok] kept(3) by simp
    then show ?thesis by (rule state_ok_transfer) (use kept(1,3) in \<open>auto split: if_splits\<close>)
  qed
  have "0 \<le> ol_depth (lock_of M k)" by (rule memory_ok_depth(1) [OF ok])
  then have "ol_depth (lock_of M k) + 1 \<noteq> 0" by simp
  then show ?thesis
    by (intro memory_okI [OF others]) (simp_all add: kept(3) memory_ok_depth [OF ok])
next
  case (retained st0)
  have others: "state_ok own M' u st" if "dget (mt_states M') u = Some st" for u st
  proof (cases "u = t")
    case True
    then have "st = st0\<lparr> ts_held := ts_held st0 @ [k] \<rparr>" using that retained(4) by simp
    then show ?thesis
      using memory_okD [OF ok retained(2)] retained(3,4) True by (auto simp: state_ok_def covered_def)
  next
    case False
    then have "state_ok own M u st" using that memory_okD [OF ok] retained(4) by simp
    then show ?thesis by (rule state_ok_transfer) (use retained(1,4) in \<open>auto split: if_splits\<close>)
  qed
  have "0 < ol_depth (lock_of M k) + 2" using memory_ok_depth(1) [OF ok, of k] by simp
  then show ?thesis
    by (intro memory_okI [OF others]) (use memory_ok_depth [OF ok] retained(4) in auto)
qed

lemma disown_ok:
  assumes ok: "memory_ok own M" and open_block: "0 < blocks_open t k M" and step: "owner_exit t k M = Inr M'"
  shows "memory_ok own M'"
proof -
  have t: "ol_task (lock_of M k) = Some t" using open_block by (auto simp: blocks_open_def split: if_splits)
  then have M': "M' = M\<lparr> mt_locks := dset k (released (lock_of M k)) (mt_locks M) \<rparr>"
    using step by (simp add: owner_exit_eq)
  have others: "state_ok own M' u st" if st: "dget (mt_states M') u = Some st" for u st
  proof -
    have "state_ok own M u st" using st memory_okD [OF ok] M' by simp
    then show ?thesis
    proof (rule state_ok_transfer)
      fix j assume j: "j \<in> set (ts_held st)" "ol_task (lock_of M j) = Some u"
      show "ol_task (lock_of M' j) = Some u"
      proof (cases "j = k")
        case True
        then have "1 < ol_depth (lock_of M k)" using j t open_block st M' by (simp add: blocks_open_def)
        then show ?thesis using True j(2) t M' by (simp add: released_def)
      qed (use j M' in simp)
    qed
  qed
  show ?thesis
    by (rule memory_okI [OF others]) (use memory_ok_depth [OF ok] released_props [OF ok t] M' in auto)
qed

lemma enter_ok:
  assumes ok: "memory_ok own M" and step: "txn_enter (Some t) M = Inr M'"
  shows "memory_ok own M'"
proof -
  define st0 where "st0 = (case dget (mt_states M) t of
      None \<Rightarrow> \<lparr> ts_journal = [], ts_savepoints = [], ts_held = [] \<rparr> | Some st \<Rightarrow> st)"
  have M': "M' = M\<lparr> mt_states := dset t
      (st0\<lparr> ts_savepoints := ts_savepoints st0 @ [length (ts_journal st0)] \<rparr>) (mt_states M) \<rparr>"
    using step by (simp add: txn_enter_def st0_def Let_def)
  have st0: "sorted (ts_savepoints st0) \<and> (\<forall>n \<in> set (ts_savepoints st0). n \<le> length (ts_journal st0))
      \<and> distinct (ts_held st0) \<and> (\<forall>k \<in> set (ts_held st0). ol_task (lock_of M k) = Some t)
      \<and> (\<forall>q \<in> set (ts_journal st0). covered own (ts_held st0) q)"
    using memory_okD [OF ok, of t] by (auto simp: st0_def state_ok_def split: option.splits)
  have "state_ok own M' u st" if "dget (mt_states M') u = Some st" for u st
    using that st0 memory_okD [OF ok, of u] M'
    by (auto simp: state_ok_def sorted_append split: if_splits)
  then show ?thesis by (rule memory_okI) (use memory_ok_depth [OF ok] M' in auto)
qed

text \<open>
  Leaving a transaction: the locks it retained are released and nothing else changes. No exception
  is raised on the way.
\<close>

definition left_transaction ::
    "nat \<Rightarrow> ('k, 'v, 'x) transaction_state \<Rightarrow> ('k, 'v, 'x) memory_transaction \<Rightarrow>
       ('k, 'v, 'x) memory_transaction \<Rightarrow> bool" where
  "left_transaction t st M M' \<longleftrightarrow> mt_store M' = mt_store M
     \<and> (if length (ts_savepoints st) \<le> 1
        then mt_states M' = ddel t (mt_states M)
          \<and> (\<forall>k. lock_of M' k = (if k \<in> set (ts_held st) then released (lock_of M k) else lock_of M k))
        else mt_states M' = dset t (st\<lparr> ts_savepoints := butlast (ts_savepoints st) \<rparr>) (mt_states M)
          \<and> (\<forall>k. lock_of M' k = lock_of M k))"

lemma txn_finish_effect:
  assumes "distinct (ts_held st)" and "\<forall>k \<in> set (ts_held st). ol_task (lock_of M k) = Some t"
  shows "\<exists>M'. txn_finish t st M = Inr M' \<and> left_transaction t st M M'"
proof (cases "butlast (ts_savepoints st) = []")
  case True
  then have "length (ts_savepoints st) \<le> 1" by (metis diff_is_0_eq length_0_conv length_butlast)
  moreover obtain M' where "release_held t (rev (ts_held st)) (M\<lparr> mt_states := ddel t (mt_states M) \<rparr>) = Inr M'"
      "mt_states M' = ddel t (mt_states M)" "mt_store M' = mt_store M"
      "\<forall>k. lock_of M' k = (if k \<in> set (ts_held st) then released (lock_of M k) else lock_of M k)"
    using release_held_effect [of "rev (ts_held st)" "M\<lparr> mt_states := ddel t (mt_states M) \<rparr>" t] assms
    by auto
  ultimately show ?thesis using True
    by (intro exI [of _ M']) (simp add: txn_finish_def left_transaction_def)
next
  case False
  then have "\<not> length (ts_savepoints st) \<le> 1" by (cases "ts_savepoints st" rule: rev_cases) auto
  then show ?thesis using False by (auto simp: txn_finish_def left_transaction_def)
qed

lemma leave_ok:
  assumes ok: "memory_ok own M" and st0: "dget (mt_states M) t = Some st0"
    and held: "ts_held st = ts_held st0" and journal_st: "set (ts_journal st) \<subseteq> set (ts_journal st0)"
    and bound: "\<forall>n \<in> set (butlast (ts_savepoints st)). n \<le> length (ts_journal st)"
    and saves: "ts_savepoints st = ts_savepoints st0"
    and left: "left_transaction t st M M'"
  shows "memory_ok own M'"
proof (cases "length (ts_savepoints st) \<le> 1")
  case True
  have M': "mt_states M' = ddel t (mt_states M)"
      "\<And>k. lock_of M' k = (if k \<in> set (ts_held st) then released (lock_of M k) else lock_of M k)"
    using left True by (simp_all add: left_transaction_def)
  have retained: "ol_task (lock_of M k) = Some t" if "k \<in> set (ts_held st)" for k
    using memory_okD [OF ok st0] that held by (simp add: state_ok_def)
  have others: "state_ok own M' u s" if "dget (mt_states M') u = Some s" for u s
  proof -
    have u: "u \<noteq> t" "dget (mt_states M) u = Some s" using that M' by (auto split: if_splits)
    show ?thesis
      by (rule state_ok_transfer [OF memory_okD [OF ok u(2)]])
        (use u(1) retained M'(2) in \<open>auto split: if_splits\<close>)
  qed
  show ?thesis
    by (rule memory_okI [OF others])
      (use memory_ok_depth [OF ok] released_props [OF ok retained] M'(2) in \<open>auto split: if_splits\<close>)
next
  case False
  then have more: "butlast (ts_savepoints st) \<noteq> []" by (cases "ts_savepoints st" rule: rev_cases) auto
  have M': "mt_states M' = dset t (st\<lparr> ts_savepoints := butlast (ts_savepoints st) \<rparr>) (mt_states M)"
      "\<And>k. lock_of M' k = lock_of M k"
    using left False by (simp_all add: left_transaction_def)
  have "state_ok own M t st0" by (rule memory_okD [OF ok st0])
  then have new: "state_ok own M' t (st\<lparr> ts_savepoints := butlast (ts_savepoints st) \<rparr>)"
    using more held journal_st bound saves M'(2)
    by (auto simp: state_ok_def butlast_conv_take sorted_wrt_take)
  have "state_ok own M' u s" if "dget (mt_states M') u = Some s" for u s
  proof (cases "u = t")
    case True
    then show ?thesis using new that M'(1) by simp
  next
    case False
    then have "dget (mt_states M) u = Some s" using that M'(1) by simp
    then show ?thesis by (rule state_ok_transfer [OF memory_okD [OF ok]]) (simp add: M'(2))
  qed
  then show ?thesis by (rule memory_okI) (use memory_ok_depth [OF ok] M'(2) in auto)
qed

lemma txn_commit_effect:
  assumes ok: "memory_ok own M" and st: "dget (mt_states M) t = Some st"
  shows "\<exists>M'. txn_commit t M = Inr M' \<and> left_transaction t st M M' \<and> memory_ok own M'"
proof -
  have s: "state_ok own M t st" by (rule memory_okD [OF ok st])
  then obtain M' where M': "txn_finish t st M = Inr M'" "left_transaction t st M M'"
    using txn_finish_effect [of st M t] by (auto simp: state_ok_def)
  moreover have "memory_ok own M'"
    using s by (intro leave_ok [OF ok st _ _ _ _ M'(2)]) (auto simp: state_ok_def dest: in_set_butlastD)
  ultimately show ?thesis using st by (simp add: txn_commit_def)
qed

definition rolled_back ::
    "('k, 'v, 'x) transaction_state \<Rightarrow> ('k, 'v, 'x) memory_transaction \<Rightarrow> ('k, 'v, 'x) memory_transaction" where
  "rolled_back st M = M\<lparr> mt_store :=
     fold apply_prim (rev (drop (last (ts_savepoints st)) (ts_journal st))) (mt_store M) \<rparr>"

definition truncated :: "('k, 'v, 'x) transaction_state \<Rightarrow> ('k, 'v, 'x) transaction_state" where
  "truncated st = st\<lparr> ts_journal := take (last (ts_savepoints st)) (ts_journal st) \<rparr>"

lemma truncated_simps [simp]:
  "ts_held (truncated st) = ts_held st" "ts_savepoints (truncated st) = ts_savepoints st"
  by (simp_all add: truncated_def)

lemma memory_ok_store [simp]: "memory_ok own (M\<lparr> mt_store := S \<rparr>) \<longleftrightarrow> memory_ok own M"
  by (simp add: memory_ok_def state_ok_def)

lemma butlast_savepoints_bound:
  assumes "state_ok own M t st" and "n \<in> set (butlast (ts_savepoints st))"
  shows "n \<le> last (ts_savepoints st) \<and> n \<le> length (ts_journal st)"
proof -
  have ne: "ts_savepoints st \<noteq> []" and srt: "sorted (ts_savepoints st)"
    using assms(1) by (simp_all add: state_ok_def)
  have "sorted (butlast (ts_savepoints st) @ [last (ts_savepoints st)])" using ne srt by simp
  then have "n \<le> last (ts_savepoints st)" using assms(2) unfolding sorted_append by simp
  then show ?thesis using assms by (auto simp: state_ok_def dest: in_set_butlastD)
qed

lemma txn_abort_effect:
  assumes ok: "memory_ok own M" and st: "dget (mt_states M) t = Some st"
  shows "\<exists>M'. txn_abort t M = Inr M' \<and> left_transaction t (truncated st) (rolled_back st M) M' \<and> memory_ok own M'"
proof -
  have s: "state_ok own M t st" by (rule memory_okD [OF ok st])
  then have s': "distinct (ts_held (truncated st))"
      "\<forall>k \<in> set (ts_held (truncated st)). ol_task (lock_of (rolled_back st M) k) = Some t"
    by (auto simp: state_ok_def rolled_back_def)
  obtain M' where M': "txn_finish t (truncated st) (rolled_back st M) = Inr M'"
      "left_transaction t (truncated st) (rolled_back st M) M'"
    using txn_finish_effect [OF s'] by blast
  have ok': "memory_ok own (rolled_back st M)" and st': "dget (mt_states (rolled_back st M)) t = Some st"
    using ok st by (simp_all add: rolled_back_def)
  have "memory_ok own M'"
    using butlast_savepoints_bound [OF s]
    by (intro leave_ok [OF ok' st' _ _ _ _ M'(2)]) (auto simp: truncated_def dest: in_set_takeD)
  then show ?thesis
    using M' st by (auto simp: txn_abort_def Let_def truncated_def rolled_back_def)
qed

lemma task_step_ok:
  assumes "task_step own M b M'" and "memory_ok own M"
  shows "memory_ok own M'"
  using assms(1)
proof cases
  case (task_acts t a)
  show ?thesis
  proof (cases "is_write a")
    case True
    then show ?thesis using task_acts write_ok [OF assms(2)] by (simp add: perform_write)
  next
    case False
    then show ?thesis
    proof (cases a)
      case Enter
      then show ?thesis using task_acts enter_ok [OF assms(2)] by simp
    next
      case Commit
      then obtain st where "dget (mt_states M) t = Some st"
        using task_acts by (auto simp: txn_commit_def)
      then show ?thesis using txn_commit_effect [OF assms(2)] Commit task_acts by fastforce
    next
      case Abort
      then obtain st where "dget (mt_states M) t = Some st"
        using task_acts by (auto simp: txn_abort_def)
      then show ?thesis using txn_abort_effect [OF assms(2)] Abort task_acts by fastforce
    next
      case (Own k)
      then show ?thesis using task_acts own_ok [OF assms(2)] by simp
    next
      case (Disown k)
      then show ?thesis using task_acts disown_ok [OF assms(2)] by simp
    qed simp_all
  qed
qed

lemma task_steps_ok: "task_steps own M tr M' \<Longrightarrow> memory_ok own M \<Longrightarrow> memory_ok own M'"
  by (induction rule: task_steps.induct) (auto intro: task_step_ok)

subsection \<open>Running without a transaction\<close>

text \<open>
  \<open>N\<close> is the memory in which task \<open>t\<close> stands still since \<open>M0\<close> while the others do what they do in
  \<open>M\<close>. Undoing the part of \<open>t\<close>'s journal written since \<open>M0\<close> takes the store of \<open>M\<close> to that of \<open>N\<close>.
\<close>

definition lock_rel :: "nat \<Rightarrow> ('k, 'v, 'x) memory_transaction \<Rightarrow> ('k, 'v, 'x) memory_transaction \<Rightarrow> bool" where
  "lock_rel t M N \<longleftrightarrow> (\<forall>k. lock_of N k = lock_of M k
     \<or> (ol_task (lock_of M k) = Some t \<and> (lock_of N k = new_lock \<or> ol_task (lock_of N k) = Some t)))"

definition suffix_undo ::
    "nat \<Rightarrow> ('k, 'v, 'x) transaction_state \<Rightarrow> ('k, 'v, 'x) store \<Rightarrow> ('k, 'v, 'x) store" where
  "suffix_undo n st S = fold apply_prim (rev (drop n (ts_journal st))) S"

definition opened_at ::
    "nat \<Rightarrow> ('k, 'v, 'x) prim list \<Rightarrow> ('k, 'v, 'x) transaction_state \<Rightarrow> bool" where
  "opened_at d J st \<longleftrightarrow> d < length (ts_savepoints st) \<and> ts_savepoints st ! d = length J
     \<and> length J \<le> length (ts_journal st) \<and> take (length J) (ts_journal st) = J"

definition without ::
    "(('k, 'x) place \<Rightarrow> owner_key) \<Rightarrow> nat \<Rightarrow> ('k, 'v, 'x) memory_transaction \<Rightarrow>
       ('k, 'v, 'x) memory_transaction \<Rightarrow> ('k, 'v, 'x) memory_transaction \<Rightarrow> bool" where
  "without own t M0 M N \<longleftrightarrow>
     memory_ok own M \<and> memory_ok own N \<and> lock_rel t M N
     \<and> (\<forall>u. u \<noteq> t \<longrightarrow> dget (mt_states N) u = dget (mt_states M) u)
     \<and> dget (mt_states N) t = dget (mt_states M0) t
     \<and> (\<exists>st. dget (mt_states M) t = Some st \<and> opened_at (nesting t M0) (journal t M0) st
          \<and> (\<forall>k. ol_task (lock_of N k) = Some t \<longrightarrow> k \<in> set (ts_held st))
          \<and> same_store (mt_store N) (suffix_undo (length (journal t M0)) st (mt_store M)))"

lemma withoutE:
  assumes "without own t M0 M N"
  obtains st where "memory_ok own M" "memory_ok own N" "lock_rel t M N"
    "\<And>u. u \<noteq> t \<Longrightarrow> dget (mt_states N) u = dget (mt_states M) u"
    "dget (mt_states N) t = dget (mt_states M0) t"
    "dget (mt_states M) t = Some st" "opened_at (nesting t M0) (journal t M0) st"
    "\<And>k. ol_task (lock_of N k) = Some t \<Longrightarrow> k \<in> set (ts_held st)"
    "same_store (mt_store N) (suffix_undo (length (journal t M0)) st (mt_store M))"
  using assms unfolding without_def by blast

lemma lock_relD: "lock_rel t M N \<Longrightarrow> ol_task (lock_of M k) \<noteq> Some t \<Longrightarrow> lock_of N k = lock_of M k"
  unfolding lock_rel_def by blast

lemma free_lock: "memory_ok own M \<Longrightarrow> ol_task (lock_of M k) = None \<Longrightarrow> lock_of M k = new_lock"
  using memory_ok_depth(2) [of own M k] by (simp add: new_lock_def)

text \<open>Writes of different tasks go to different places, because the owners' locks separate them.\<close>

lemma other_write_unrelated:
  assumes ok: "memory_ok own M" and st: "dget (mt_states M) t = Some st" and q: "q \<in> set (ts_journal st)"
    and act: "disciplined own u a M" "write_of a S = Some (p, r)" and "u \<noteq> t"
  shows "unrelated q p"
proof -
  have cov: "covered own (ts_held st) q" and held: "\<forall>k \<in> set (ts_held st). ol_task (lock_of M k) = Some t"
    using memory_okD [OF ok st] q by (auto simp: state_ok_def)
  have apart: "\<not> permitted own u c M" if "touches q = Some c" for c
    using that cov held \<open>u \<noteq> t\<close> by (auto simp: covered_def permitted_def)
  have "touches q \<noteq> touches p \<or> touches p = None"
    using act by (cases a) (auto split: option.splits if_splits dest: apart)
  moreover have "\<forall>l x. p = Push l x \<longrightarrow> q \<noteq> Unpush l x"
    using act st q by (cases a) (auto split: option.splits if_splits)
  moreover have "\<forall>l x. q \<noteq> Push l x" using cov by (simp add: covered_def)
  ultimately show ?thesis by (cases q; cases p) auto
qed

lemma journals_unrelated:
  assumes ok: "memory_ok own M" and st: "dget (mt_states M) t = Some st" "dget (mt_states M) u = Some su"
    and q: "q \<in> set (ts_journal st)" "p \<in> set (ts_journal su)" and "u \<noteq> t"
  shows "unrelated q p"
proof -
  have cov: "covered own (ts_held st) q" "covered own (ts_held su) p"
    and held: "\<forall>k \<in> set (ts_held st). ol_task (lock_of M k) = Some t"
      "\<forall>k \<in> set (ts_held su). ol_task (lock_of M k) = Some u"
    using memory_okD [OF ok st(1)] memory_okD [OF ok st(2)] q by (auto simp: state_ok_def)
  have "touches q = None \<or> touches q \<noteq> touches p"
  proof (cases "touches q")
    case (Some c)
    then have "own c \<in> set (ts_held st)" using cov(1) by (simp add: covered_def)
    moreover have "own c \<in> set (ts_held su)" if "touches p = Some c" using cov(2) that by (simp add: covered_def)
    ultimately show ?thesis using held \<open>u \<noteq> t\<close> Some by force
  qed simp
  moreover have "\<forall>l x. q \<noteq> Push l x" "\<forall>l x. p \<noteq> Push l x" using cov by (simp_all add: covered_def)
  ultimately show ?thesis by (cases q; cases p) auto
qed

fun place_of :: "('k, 'v, 'x) action \<Rightarrow> ('k, 'x) place option" where
  "place_of (Put m k v) = Some (In_map m k)"
| "place_of (Remove m k) = Some (In_map m k)"
| "place_of (Insert s x) = Some (In_set s x)"
| "place_of (Discard s x) = Some (In_set s x)"
| "place_of _ = None"

lemma same_write:
  assumes same: "same_store A (fold apply_prim us B)"
    and "\<And>c q. place_of a = Some c \<Longrightarrow> q \<in> set us \<Longrightarrow> touches q \<noteq> Some c"
  shows "write_of a A = write_of a B"
    and "a = Remove m k \<Longrightarrow> dget (st_maps A m) k = dget (st_maps B m) k"
proof -
  have reads: "dget (st_maps A m) k = dget (st_maps B m) k" if "place_of a = Some (In_map m k)" for m k
    using same assms(2) [OF that] undo_reads_map [of us m k B] by (simp add: same_store_def)
  have sets: "x \<in> st_sets A s \<longleftrightarrow> x \<in> st_sets B s" if "place_of a = Some (In_set s x)" for s x
    using same assms(2) [OF that] undo_reads_set [of us s x B] by (simp add: same_store_def)
  show "write_of a A = write_of a B" using reads sets by (cases a) auto
  show "a = Remove m k \<Longrightarrow> dget (st_maps A m) k = dget (st_maps B m) k" using reads by auto
qed

text \<open>A step of another task is possible in \<open>N\<close> whenever it happens in \<open>M\<close>.\<close>

lemma disciplined_without:
  assumes w: "without own t M0 M N" and "u \<noteq> t" and "disciplined own u a M"
  shows "disciplined own u a N"
proof -
  obtain st where st: "lock_rel t M N" "\<And>v. v \<noteq> t \<Longrightarrow> dget (mt_states N) v = dget (mt_states M) v"
      "dget (mt_states N) t = dget (mt_states M0) t" "dget (mt_states M) t = Some st"
      "opened_at (nesting t M0) (journal t M0) st"
    using w by (elim withoutE) blast
  have locks: "lock_of N k = lock_of M k" if "ol_task (lock_of M k) = Some u" for k
    using lock_relD [OF st(1)] that \<open>u \<noteq> t\<close> by simp
  have perm: "permitted own u c N" if "permitted own u c M" for c
    using that locks [of "own c"] st(2) [OF \<open>u \<noteq> t\<close>] by (simp add: permitted_def)
  have blocks: "0 < blocks_open u k N" if "0 < blocks_open u k M" for k
    using that locks [of k] st(2) [OF \<open>u \<noteq> t\<close>] by (simp add: blocks_open_def split: if_splits)
  have "set (journal t M0) \<subseteq> set (ts_journal st)"
    using st(5) by (metis opened_at_def set_take_subset)
  then have journals: "\<exists>su'. dget (mt_states M) v = Some su' \<and> q \<in> set (ts_journal su')"
    if "dget (mt_states N) v = Some su" "q \<in> set (ts_journal su)" for v su q
    using that st(2) [of v] st(3,4) by (cases "v = t") (auto simp: journal_def)
  show ?thesis
  proof (cases a)
    case (Append l x)
    then show ?thesis using assms(3) journals by fastforce
  qed (use assms(3) perm blocks in auto)
qed

lemma other_write:
  assumes w: "without own t M0 M N" and "u \<noteq> t" and a: "is_write a" and act: "disciplined own u a M"
    and step: "perform u a M = Some (Inr M')"
  shows "\<exists>N'. perform u a N = Some (Inr N') \<and> (memory_ok own N' \<longrightarrow> without own t M0 M' N')"
proof -
  obtain st where st: "memory_ok own M" "lock_rel t M N"
      "\<And>v. v \<noteq> t \<Longrightarrow> dget (mt_states N) v = dget (mt_states M) v"
      "dget (mt_states N) t = dget (mt_states M0) t" "dget (mt_states M) t = Some st"
      "opened_at (nesting t M0) (journal t M0) st"
      "\<And>k. ol_task (lock_of N k) = Some t \<Longrightarrow> k \<in> set (ts_held st)"
      "same_store (mt_store N) (suffix_undo (length (journal t M0)) st (mt_store M))"
    using w by (elim withoutE) blast
  define us where "us = rev (drop (length (journal t M0)) (ts_journal st))"
  have us: "q \<in> set (ts_journal st)" if "q \<in> set us" for q
    using that by (auto simp: us_def dest: in_set_dropD)
  have same: "same_store (mt_store N) (fold apply_prim us (mt_store M))"
    using st(8) by (simp add: suffix_undo_def us_def)
  have held: "\<forall>k \<in> set (ts_held st). ol_task (lock_of M k) = Some t"
      "\<forall>q \<in> set (ts_journal st). covered own (ts_held st) q"
    using memory_okD [OF st(1,5)] by (simp_all add: state_ok_def)
  have apart: "touches q \<noteq> Some c" if c: "place_of a = Some c" and "q \<in> set us" for c q
  proof
    assume "touches q = Some c"
    then have "ol_task (lock_of M (own c)) = Some t"
      using held us [OF \<open>q \<in> set us\<close>] by (auto simp: covered_def)
    moreover have "permitted own u c M" using c act by (cases a) auto
    ultimately show False using \<open>u \<noteq> t\<close> by (simp add: permitted_def)
  qed
  have same_w: "write_of a (mt_store N) = write_of a (mt_store M)" by (rule same_write(1) [OF same apart])
  define W where "W = write_of a (mt_store M)"
  have M': "M' = journalled u W M" using step perform_write [OF a] by (simp add: W_def)
  define N' where "N' = journalled u W N"
  have "dget (st_maps (mt_store N) m) k \<noteq> None" if "a = Remove m k" for m k
    using same_write(2) [OF same apart that] that step perform_write [OF a, of u M M'] by simp
  then have N': "perform u a N = Some (Inr N')" by (simp add: perform_write [OF a] N'_def same_w W_def)
  have states: "dget (mt_states M') t = Some st" using st(5) \<open>u \<noteq> t\<close>
    by (simp add: M' journalled_states split: option.splits)
  have "same_store (mt_store N') (fold apply_prim us (mt_store M'))"
  proof (cases W)
    case None
    then show ?thesis using same by (simp add: N'_def M' journalled_store)
  next
    case (Some pr)
    obtain p r where pr: "pr = (p, r)" by (cases pr)
    have wr: "write_of a (mt_store M) = Some (p, r)" using Some pr by (simp add: W_def)
    have "\<forall>q \<in> set us. unrelated q p"
      using other_write_unrelated [OF st(1,5) us act wr \<open>u \<noteq> t\<close>] by blast
    then have "same_store (apply_prim p (fold apply_prim us (mt_store M)))
        (fold apply_prim us (apply_prim p (mt_store M)))"
      by (intro same_store_sym [OF undo_commute])
    then show ?thesis
      using Some pr apply_prim_cong [OF same, of p] by (auto simp: N'_def M' journalled_store intro: same_store_trans)
  qed
  then have "same_store (mt_store N') (suffix_undo (length (journal t M0)) st (mt_store M'))"
    by (simp add: suffix_undo_def us_def)
  moreover have "memory_ok own M'" using write_ok [OF st(1) act] by (simp add: M' W_def)
  moreover have "lock_rel t M' N'" using st(2) by (simp add: lock_rel_def M' N'_def)
  moreover have "\<forall>v. v \<noteq> t \<longrightarrow> dget (mt_states N') v = dget (mt_states M') v"
    using st(3) by (simp add: M' N'_def journalled_states)
  moreover have "dget (mt_states N') t = dget (mt_states M0) t"
    using st(4) \<open>u \<noteq> t\<close> by (simp add: N'_def journalled_states split: option.splits)
  ultimately show ?thesis using N' states st(6,7)
    by (intro exI [of _ N']) (auto simp: without_def N'_def)
qed

text \<open>Steps that only move locks and savepoints of another task.\<close>

lemma without_transfer:
  assumes w: "without own t M0 M N" and ok: "memory_ok own M'" "memory_ok own N'"
    and stores: "mt_store M' = mt_store M" "mt_store N' = mt_store N"
    and states: "\<And>v. v \<noteq> t \<Longrightarrow> dget (mt_states N') v = dget (mt_states M') v"
      "dget (mt_states N') t = dget (mt_states N) t" "dget (mt_states M') t = dget (mt_states M) t"
    and locks: "\<And>k. (lock_of M' k = lock_of M k \<and> lock_of N' k = lock_of N k)
      \<or> (lock_of N' k = lock_of M' k \<and> ol_task (lock_of M' k) \<noteq> Some t)"
  shows "without own t M0 M' N'"
proof -
  have "lock_rel t M' N'"
    using w locks unfolding without_def lock_rel_def by metis
  moreover have "ol_task (lock_of N' k) = Some t \<Longrightarrow> ol_task (lock_of N k) = Some t" for k
    using locks [of k] by auto
  ultimately show ?thesis using w ok stores states unfolding without_def by auto
qed

lemma other_own:
  assumes w: "without own t M0 M N" and "u \<noteq> t" and step: "owner_enter (Some u) k M = Some (Inr M')"
    and ok': "memory_ok own M'"
  shows "\<exists>N'. owner_enter (Some u) k N = Some (Inr N') \<and> (memory_ok own N' \<longrightarrow> without own t M0 M' N')"
proof -
  have states: "\<And>v. v \<noteq> t \<Longrightarrow> dget (mt_states N) v = dget (mt_states M) v" and rel: "lock_rel t M N"
    using w by (simp_all add: without_def)
  show ?thesis using step
  proof (cases rule: owner_enter_cases)
    case kept
    have lock: "lock_of N k = lock_of M k" using lock_relD [OF rel] kept(1) \<open>u \<noteq> t\<close> by auto
    define N' where "N' = N\<lparr> mt_locks :=
      dset k \<lparr> ol_task = Some u, ol_depth = ol_depth (lock_of M k) + 1 \<rparr> (mt_locks N) \<rparr>"
    have "owner_enter (Some u) k N = Some (Inr N')"
      using kept lock states [OF \<open>u \<noteq> t\<close>]
      by (auto simp: owner_enter_def lock_acquire_def N'_def split: option.splits)
    moreover have "without own t M0 M' N'" if "memory_ok own N'"
      by (rule without_transfer [OF w ok' that]) (use \<open>u \<noteq> t\<close> states kept(3) in \<open>auto simp: N'_def\<close>)
    ultimately show ?thesis by blast
  next
    case (retained st)
    have lock: "lock_of N k = lock_of M k" using lock_relD [OF rel] retained(1) \<open>u \<noteq> t\<close> by auto
    define N' where "N' = N\<lparr> mt_locks :=
        dset k \<lparr> ol_task = Some u, ol_depth = ol_depth (lock_of M k) + 2 \<rparr> (mt_locks N),
      mt_states := dset u (st\<lparr> ts_held := ts_held st @ [k] \<rparr>) (mt_states N) \<rparr>"
    have "owner_enter (Some u) k N = Some (Inr N')"
      using retained lock states [OF \<open>u \<noteq> t\<close>]
      by (auto simp: owner_enter_def lock_acquire_def N'_def add.commute)
    moreover have "without own t M0 M' N'" if "memory_ok own N'"
      by (rule without_transfer [OF w ok' that]) (use \<open>u \<noteq> t\<close> states retained(4) in \<open>auto simp: N'_def\<close>)
    ultimately show ?thesis by blast
  qed
qed

lemma other_disown:
  assumes w: "without own t M0 M N" and "u \<noteq> t" and step: "owner_exit u k M = Inr M'"
    and ok': "memory_ok own M'"
  shows "\<exists>N'. owner_exit u k N = Inr N' \<and> (memory_ok own N' \<longrightarrow> without own t M0 M' N')"
proof -
  have states: "\<And>v. v \<noteq> t \<Longrightarrow> dget (mt_states N) v = dget (mt_states M) v" and rel: "lock_rel t M N"
    using w by (simp_all add: without_def)
  have task: "ol_task (lock_of M k) = Some u" and M': "M' = M\<lparr> mt_locks := dset k (released (lock_of M k)) (mt_locks M) \<rparr>"
    using step by (simp_all add: owner_exit_eq split: if_splits)
  have lock: "lock_of N k = lock_of M k" using lock_relD [OF rel] task \<open>u \<noteq> t\<close> by auto
  define N' where "N' = N\<lparr> mt_locks := dset k (released (lock_of M k)) (mt_locks N) \<rparr>"
  have "owner_exit u k N = Inr N'" using task lock by (simp add: owner_exit_eq N'_def)
  moreover have "ol_task (released (lock_of M k)) \<noteq> Some t"
    using task \<open>u \<noteq> t\<close> by (simp add: released_def new_lock_def)
  then have "without own t M0 M' N'" if "memory_ok own N'"
    by (intro without_transfer [OF w ok' that]) (use states M' in \<open>auto simp: N'_def\<close>)
  ultimately show ?thesis by blast
qed

lemma other_enter:
  assumes w: "without own t M0 M N" and "u \<noteq> t" and step: "txn_enter (Some u) M = Inr M'"
    and ok': "memory_ok own M'"
  shows "\<exists>N'. txn_enter (Some u) N = Inr N' \<and> (memory_ok own N' \<longrightarrow> without own t M0 M' N')"
proof -
  have states: "\<And>v. v \<noteq> t \<Longrightarrow> dget (mt_states N) v = dget (mt_states M) v"
    using w by (simp add: without_def)
  obtain N' where N': "txn_enter (Some u) N = Inr N'" by (simp add: txn_enter_def Let_def)
  moreover have "without own t M0 M' N'" if "memory_ok own N'"
    by (rule without_transfer [OF w ok' that])
      (use states [OF \<open>u \<noteq> t\<close>] states step N' \<open>u \<noteq> t\<close> in \<open>auto simp: txn_enter_def Let_def\<close>)
  ultimately show ?thesis by blast
qed

lemma other_left:
  assumes w: "without own t M0 M N" and "u \<noteq> t" and su: "dget (mt_states M) u = Some su"
    and held: "ts_held su' = ts_held su"
    and M': "left_transaction u su' M1 M'" "mt_locks M1 = mt_locks M" "mt_states M1 = mt_states M" "memory_ok own M'"
    and N': "left_transaction u su' N1 N'" "mt_locks N1 = mt_locks N" "mt_states N1 = mt_states N" "memory_ok own N'"
    and same: "\<And>st. dget (mt_states M) t = Some st \<Longrightarrow>
      same_store (mt_store N) (suffix_undo (length (journal t M0)) st (mt_store M)) \<Longrightarrow>
      same_store (mt_store N1) (suffix_undo (length (journal t M0)) st (mt_store M1))"
  shows "without own t M0 M' N'"
proof -
  have ok: "memory_ok own M" and rel: "lock_rel t M N" and states: "\<And>v. v \<noteq> t \<Longrightarrow> dget (mt_states N) v = dget (mt_states M) v"
    using w by (simp_all add: without_def)
  have l1: "lock_of M1 = lock_of M" "lock_of N1 = lock_of N" using M'(2) N'(2) by (simp_all add: lock_of_def fun_eq_iff)
  have u_lock: "ol_task (lock_of M k) = Some u" "lock_of N k = lock_of M k" if "k \<in> set (ts_held su')" for k
    using memory_okD [OF ok su] that held lock_relD [OF rel, of k] \<open>u \<noteq> t\<close> by (auto simp: state_ok_def)
  have "lock_of N' k = lock_of M' k \<and> ol_task (lock_of M' k) \<noteq> Some t
      \<or> lock_of M' k = lock_of M k \<and> lock_of N' k = lock_of N k" for k
    using M'(1) N'(1) u_lock [of k] l1 \<open>u \<noteq> t\<close>
    by (cases "length (ts_savepoints su') \<le> 1"; cases "k \<in> set (ts_held su')")
      (auto simp: left_transaction_def released_def new_lock_def)
  then have locks: "lock_rel t M' N'" "\<And>k. ol_task (lock_of N' k) = Some t \<Longrightarrow> ol_task (lock_of N k) = Some t"
    using rel unfolding lock_rel_def by metis+
  have "dget (mt_states N') v = dget (mt_states M') v" if "v \<noteq> t" for v
    using states that \<open>u \<noteq> t\<close> M' N' by (auto simp: left_transaction_def split: if_splits)
  moreover have "dget (mt_states N') t = dget (mt_states N) t" "dget (mt_states M') t = dget (mt_states M) t"
    using \<open>u \<noteq> t\<close> M' N' by (auto simp: left_transaction_def split: if_splits)
  moreover have "mt_store M' = mt_store M1" "mt_store N' = mt_store N1"
    using M'(1) N'(1) by (simp_all add: left_transaction_def)
  ultimately show ?thesis using w locks M'(4) N'(4) same unfolding without_def by auto
qed

lemma other_commit:
  assumes w: "without own t M0 M N" and "u \<noteq> t" and step: "txn_commit u M = Inr M'"
  shows "\<exists>N'. txn_commit u N = Inr N' \<and> without own t M0 M' N'"
proof -
  obtain su where su: "dget (mt_states M) u = Some su" using step by (auto simp: txn_commit_def)
  have ok: "memory_ok own M" "memory_ok own N" and su': "dget (mt_states N) u = Some su"
    using w su \<open>u \<noteq> t\<close> by (simp_all add: without_def)
  obtain N' where N': "txn_commit u N = Inr N'" "left_transaction u su N N'" "memory_ok own N'"
    using txn_commit_effect [OF ok(2) su'] by blast
  have M': "left_transaction u su M M'" "memory_ok own M'"
    using txn_commit_effect [OF ok(1) su] step by auto
  have "without own t M0 M' N'"
    by (rule other_left [OF w \<open>u \<noteq> t\<close> su refl M'(1) refl refl M'(2) N'(2) refl refl N'(3)])
  then show ?thesis using N'(1) by blast
qed

lemma other_abort:
  assumes w: "without own t M0 M N" and "u \<noteq> t" and step: "txn_abort u M = Inr M'"
  shows "\<exists>N'. txn_abort u N = Inr N' \<and> without own t M0 M' N'"
proof -
  obtain su where su: "dget (mt_states M) u = Some su" using step by (auto simp: txn_abort_def)
  have ok: "memory_ok own M" "memory_ok own N" and su': "dget (mt_states N) u = Some su"
    using w su \<open>u \<noteq> t\<close> by (simp_all add: without_def)
  obtain N' where N': "txn_abort u N = Inr N'" "left_transaction u (truncated su) (rolled_back su N) N'" "memory_ok own N'"
    using txn_abort_effect [OF ok(2) su'] by blast
  have M': "left_transaction u (truncated su) (rolled_back su M) M'" "memory_ok own M'"
    using txn_abort_effect [OF ok(1) su] step by auto
  define qs where "qs = rev (drop (last (ts_savepoints su)) (ts_journal su))"
  have same: "same_store (mt_store (rolled_back su N)) (suffix_undo n st (mt_store (rolled_back su M)))"
    if st: "dget (mt_states M) t = Some st" and "same_store (mt_store N) (suffix_undo n st (mt_store M))" for st n
  proof -
    have "\<forall>p \<in> set (rev (drop n (ts_journal st))). \<forall>q \<in> set qs. unrelated p q"
      using journals_unrelated [OF ok(1) st su _ _ \<open>u \<noteq> t\<close>] by (auto simp: qs_def dest!: in_set_dropD)
    then have "same_store (fold apply_prim qs (suffix_undo n st (mt_store M)))
        (suffix_undo n st (fold apply_prim qs (mt_store M)))"
      unfolding suffix_undo_def by (intro same_store_sym [OF undo_commute_list])
    moreover have "same_store (fold apply_prim qs (mt_store N)) (fold apply_prim qs (suffix_undo n st (mt_store M)))"
      using that(2) by (rule undo_cong)
    ultimately show ?thesis by (auto simp: rolled_back_def qs_def intro: same_store_trans)
  qed
  have "without own t M0 M' N'"
    by (rule other_left [OF w \<open>u \<noteq> t\<close> su _ M'(1) _ _ M'(2) N'(2) _ _ N'(3)])
      (simp_all add: same, simp_all add: rolled_back_def)
  then show ?thesis using N'(1) by blast
qed

lemma other_step:
  assumes w: "without own t M0 M N" and "u \<noteq> t" and step: "task_step own M (u, a) M'"
  shows "\<exists>N'. task_step own N (u, a) N' \<and> without own t M0 M' N'"
proof -
  have ok: "memory_ok own N" "memory_ok own M" using w by (simp_all add: without_def)
  have ok': "memory_ok own M'" by (rule task_step_ok [OF step ok(2)])
  have act: "disciplined own u a M" "perform u a M = Some (Inr M')" using step by (simp_all add: task_step_iff)
  have allowed: "disciplined own u a N" by (rule disciplined_without [OF w \<open>u \<noteq> t\<close> act(1)])
  have "\<exists>N'. perform u a N = Some (Inr N') \<and> (memory_ok own N' \<longrightarrow> without own t M0 M' N')"
  proof (cases "is_write a")
    case True
    then show ?thesis by (rule other_write [OF w \<open>u \<noteq> t\<close> _ act])
  next
    case False
    then show ?thesis
      using act(2) other_own [OF w \<open>u \<noteq> t\<close> _ ok'] other_disown [OF w \<open>u \<noteq> t\<close> _ ok']
        other_enter [OF w \<open>u \<noteq> t\<close> _ ok'] other_commit [OF w \<open>u \<noteq> t\<close>] other_abort [OF w \<open>u \<noteq> t\<close>]
      by (cases a) fastforce+
  qed
  then obtain N' where N': "perform u a N = Some (Inr N')" "memory_ok own N' \<longrightarrow> without own t M0 M' N'" by blast
  have "task_step own N (u, a) N'" using allowed N'(1) by (simp add: task_step_iff)
  then show ?thesis using N'(2) task_step_ok [OF _ ok(1)] by blast
qed

text \<open>A step of \<open>t\<close> inside the transaction changes nothing once it is undone.\<close>

lemma withoutI_own:
  assumes w: "without own t M0 M N" and ok': "memory_ok own M'" and rel: "lock_rel t M' N"
    and states: "\<And>v. v \<noteq> t \<Longrightarrow> dget (mt_states M') v = dget (mt_states M) v"
    and st: "dget (mt_states M) t = Some st" "dget (mt_states M') t = Some st'"
    and opened: "opened_at (nesting t M0) (journal t M0) st'" and held: "set (ts_held st) \<subseteq> set (ts_held st')"
    and same: "same_store (suffix_undo (length (journal t M0)) st (mt_store M))
      (suffix_undo (length (journal t M0)) st' (mt_store M'))"
  shows "without own t M0 M' N"
proof -
  have "same_store (mt_store N) (suffix_undo (length (journal t M0)) st (mt_store M))"
    and "\<And>k. ol_task (lock_of N k) = Some t \<Longrightarrow> k \<in> set (ts_held st)"
    using w st(1) unfolding without_def by auto
  then show ?thesis
    using w ok' rel states st(2) opened held same_store_trans [OF _ same] unfolding without_def by auto
qed

lemma inside_write:
  assumes w: "without own t M0 M N" and ok': "memory_ok own M'" and M': "M' = journalled t (write_of a (mt_store M)) M"
  shows "without own t M0 M' N"
proof -
  obtain st where st: "dget (mt_states M) t = Some st" "opened_at (nesting t M0) (journal t M0) st"
    using w unfolding without_def by blast
  have rel: "lock_rel t M' N" using w by (simp add: without_def M' lock_rel_def)
  show ?thesis
  proof (cases "write_of a (mt_store M)")
    case None
    then show ?thesis using w M' by (simp add: journalled_def)
  next
    case (Some pr)
    obtain p q where pr: "pr = (p, q)" by (cases pr)
    define st' where "st' = st\<lparr> ts_journal := ts_journal st @ [q] \<rparr>"
    have st': "dget (mt_states M') t = Some st'" using st(1) Some pr by (simp add: M' journalled_states st'_def)
    have n: "length (journal t M0) \<le> length (ts_journal st)" using st(2) by (simp add: opened_at_def)
    show ?thesis
    proof (rule withoutI_own [OF w ok' rel _ st(1) st'])
      show "opened_at (nesting t M0) (journal t M0) st'" using st(2) by (simp add: opened_at_def st'_def)
      show "same_store (suffix_undo (length (journal t M0)) st (mt_store M))
          (suffix_undo (length (journal t M0)) st' (mt_store M'))"
        using n Some pr same_store_sym [OF write_undone [of a "mt_store M"]]
        by (simp add: suffix_undo_def st'_def M' journalled_store undo_cong)
    qed (auto simp: M' journalled_states st'_def split: option.splits)
  qed
qed

lemma inside_locks:
  assumes w: "without own t M0 M N" and ok': "memory_ok own M'"
    and step: "owner_enter (Some t) k M = Some (Inr M') \<or> (0 < blocks_open t k M \<and> owner_exit t k M = Inr M')"
  shows "without own t M0 M' N"
proof -
  obtain st where st: "dget (mt_states M) t = Some st" "opened_at (nesting t M0) (journal t M0) st"
      "\<And>j. ol_task (lock_of N j) = Some t \<Longrightarrow> j \<in> set (ts_held st)" "memory_ok own M" "lock_rel t M N"
    using w unfolding without_def by blast
  have lockN: "lock_of N k = new_lock \<or> ol_task (lock_of N k) = Some t"
    if "ol_task (lock_of M k) = None \<or> ol_task (lock_of M k) = Some t"
    using st(5) free_lock [OF st(4), of k] that unfolding lock_rel_def by metis
  from step consider (enter) "owner_enter (Some t) k M = Some (Inr M')"
    | (leave) "0 < blocks_open t k M" "owner_exit t k M = Inr M'" by blast
  then show ?thesis
  proof cases
    case enter
    then show ?thesis
    proof (cases rule: owner_enter_cases)
      case kept
      then have "lock_rel t M' N" using st(5) lockN unfolding lock_rel_def by auto
      then show ?thesis using st(1,2) by (intro withoutI_own [OF w ok', where st = st and st' = st]) (auto simp: kept(3))
    next
      case (retained s)
      then have s: "s = st" using st(1) by simp
      have "lock_rel t M' N" using st(5) lockN retained unfolding lock_rel_def by auto
      then show ?thesis using st(1,2) s
        by (intro withoutI_own [OF w ok', where st = st and st' = "st\<lparr> ts_held := ts_held st @ [k] \<rparr>"])
          (auto simp: retained(4) opened_at_def suffix_undo_def)
    qed
  next
    case leave
    have task: "ol_task (lock_of M k) = Some t" and M': "M' = M\<lparr> mt_locks := dset k (released (lock_of M k)) (mt_locks M) \<rparr>"
      using leave(2) by (simp_all add: owner_exit_eq split: if_splits)
    have deep: "ol_depth (lock_of M k) \<noteq> 1" if "ol_task (lock_of N k) = Some t"
      using leave(1) st(1) st(3) [OF that] task by (auto simp: blocks_open_def)
    have "lock_rel t M' N"
      using st(5) task lockN deep M' unfolding lock_rel_def by (auto simp: released_def)
    then show ?thesis using st(1,2) by (intro withoutI_own [OF w ok', where st = st and st' = st]) (auto simp: M')
  qed
qed

lemma opened_last:
  assumes "opened_at d J st" and "state_ok own M t st"
  shows "length J \<le> last (ts_savepoints st) \<and> last (ts_savepoints st) \<le> length (ts_journal st)"
proof -
  have d: "d < length (ts_savepoints st)" "ts_savepoints st ! d = length J" using assms(1) by (simp_all add: opened_at_def)
  then have ne: "ts_savepoints st \<noteq> []" by auto
  have "ts_savepoints st ! d \<le> ts_savepoints st ! (length (ts_savepoints st) - 1)"
    using assms(2) d(1) by (intro sorted_nth_mono) (auto simp: state_ok_def)
  then show ?thesis using assms(2) d(2) ne by (auto simp: state_ok_def last_conv_nth)
qed

lemma undo_split:
  assumes "m \<le> n" and "n \<le> length J"
  shows "fold apply_prim (rev (drop m (take n J))) (fold apply_prim (rev (drop n J)) S)
       = fold apply_prim (rev (drop m J)) S"
proof -
  have "drop m J = drop m (take n J) @ drop n J"
    using assms by (metis append_take_drop_id drop_append diff_is_0_eq drop0 length_take min.absorb2)
  then show ?thesis by simp
qed

lemma inside_left:
  assumes w: "without own t M0 M N" and ok': "memory_ok own M'" and st: "dget (mt_states M) t = Some st"
    and left: "left_transaction t s' M1 M'" and s': "ts_savepoints s' = ts_savepoints st" "ts_held s' = ts_held st"
    and M1: "mt_locks M1 = mt_locks M" "mt_states M1 = mt_states M"
    and deeper: "nesting t M0 < nesting t M'"
    and opened: "length (journal t M0) \<le> length (ts_journal s')" "take (length (journal t M0)) (ts_journal s') = journal t M0"
    and same: "same_store (suffix_undo (length (journal t M0)) st (mt_store M))
      (suffix_undo (length (journal t M0)) s' (mt_store M1))"
  shows "without own t M0 M' N"
proof -
  define new where "new = s'\<lparr> ts_savepoints := butlast (ts_savepoints s') \<rparr>"
  have many: "\<not> length (ts_savepoints s') \<le> 1"
    using left deeper by (auto simp: left_transaction_def nesting_def split: if_splits)
  then have M': "mt_states M' = dset t new (mt_states M)" "\<And>k. lock_of M' k = lock_of M k" "mt_store M' = mt_store M1"
    using left M1 by (simp_all add: left_transaction_def new_def lock_of_def)
  have op: "opened_at (nesting t M0) (journal t M0) st" using w st unfolding without_def by auto
  have len: "nesting t M0 < length (butlast (ts_savepoints s'))"
    using deeper M'(1) by (simp add: nesting_def new_def)
  have "opened_at (nesting t M0) (journal t M0) new"
    using op opened len s' by (auto simp: opened_at_def new_def nth_butlast)
  moreover have "lock_rel t M' N" using w by (simp add: without_def lock_rel_def M'(2))
  ultimately show ?thesis using same
    by (intro withoutI_own [OF w ok' _ _ st, where st' = new])
      (auto simp: M'(1,3) new_def s'(2) suffix_undo_def)
qed

lemma inside_step:
  assumes w: "without own t M0 M N" and step: "task_step own M (t, a) M'"
    and deeper: "nesting t M0 < nesting t M'"
  shows "without own t M0 M' N"
proof -
  have ok: "memory_ok own M" using w by (simp add: without_def)
  have ok': "memory_ok own M'" by (rule task_step_ok [OF step ok])
  have act: "disciplined own t a M" "perform t a M = Some (Inr M')" using step by (simp_all add: task_step_iff)
  obtain st where st: "dget (mt_states M) t = Some st" "opened_at (nesting t M0) (journal t M0) st"
    using w unfolding without_def by blast
  have op: "length (journal t M0) \<le> length (ts_journal st)" "take (length (journal t M0)) (ts_journal st) = journal t M0"
    using st(2) by (simp_all add: opened_at_def)
  have bound: "length (journal t M0) \<le> last (ts_savepoints st)" "last (ts_savepoints st) \<le> length (ts_journal st)"
    using opened_last [OF st(2) memory_okD [OF ok st(1)]] by simp_all
  have writes: ?thesis if "is_write a"
    using inside_write [OF w ok', of a] act(2) perform_write [OF that, of t M M'] by blast
  show ?thesis
  proof (cases a)
    case Enter
    have M': "M' = M\<lparr> mt_states := dset t
        (st\<lparr> ts_savepoints := ts_savepoints st @ [length (ts_journal st)] \<rparr>) (mt_states M) \<rparr>"
      using act Enter st(1) by (auto simp: txn_enter_def Let_def)
    have "lock_rel t M' N" using w by (simp add: without_def lock_rel_def M')
    then show ?thesis using st
      by (intro withoutI_own [OF w ok' _ _ st(1),
            where st' = "st\<lparr> ts_savepoints := ts_savepoints st @ [length (ts_journal st)] \<rparr>"])
        (auto simp: M' opened_at_def suffix_undo_def nth_append)
  next
    case Commit
    then have "left_transaction t st M M'" using txn_commit_effect [OF ok st(1)] act by auto
    then show ?thesis by (rule inside_left [OF w ok' st(1) _ refl refl refl refl deeper op]) simp
  next
    case Abort
    have cut: "length (journal t M0) \<le> length (ts_journal (truncated st))"
        "take (length (journal t M0)) (ts_journal (truncated st)) = journal t M0"
      using op(2) bound by (simp_all add: truncated_def min_absorb1)
    have undone: "suffix_undo (length (journal t M0)) (truncated st) (mt_store (rolled_back st M))
        = suffix_undo (length (journal t M0)) st (mt_store M)"
      using undo_split [OF bound] by (simp add: suffix_undo_def truncated_def rolled_back_def)
    have "left_transaction t (truncated st) (rolled_back st M) M'"
      using txn_abort_effect [OF ok st(1)] act Abort by auto
    then show ?thesis
      by (rule inside_left [OF w ok' st(1) _ _ _ _ _ deeper cut]) (simp_all add: undone, simp_all add: rolled_back_def)
  next
    case (Own k)
    then show ?thesis using inside_locks [OF w ok', of k] act by simp
  next
    case (Disown k)
    then show ?thesis using inside_locks [OF w ok', of k] act by simp
  qed (use writes in simp_all)
qed

lemma inside_steps:
  assumes "steps_inside own t (nesting t M0) M tr M'" and "without own t M0 M N"
  shows "\<exists>N'. task_steps own N (filter (\<lambda>b. fst b \<noteq> t) tr) N' \<and> without own t M0 M' N'"
  using assms
proof (induction arbitrary: N rule: steps_inside.induct)
  case (inside_none M)
  then show ?case by (auto intro: no_steps)
next
  case (inside_more M b M1 tr M')
  obtain u a where b: "b = (u, a)" by (cases b)
  have deeper: "nesting t M0 < nesting t M1" using inside_more.hyps(3) by cases simp_all
  show ?case
  proof (cases "u = t")
    case True
    then have "without own t M0 M1 N" using inside_step [OF inside_more.prems _ deeper] inside_more.hyps(2) b by simp
    then show ?thesis using inside_more.IH True b by simp
  next
    case False
    then obtain N1 where "task_step own N (u, a) N1" "without own t M0 M1 N1"
      using other_step [OF inside_more.prems] inside_more.hyps(2) b by blast
    then show ?thesis using inside_more.IH [of N1] False b by (auto intro: more_steps)
  qed
qed

lemma enter_without:
  assumes ok: "memory_ok own M0" and idle: "\<forall>k. blocks_open t k M0 = 0" and enter: "txn_enter (Some t) M0 = Inr M1"
  shows "without own t M0 M1 M0"
proof -
  have "k \<in> set (ts_held st)"
    if "ol_task (lock_of M0 k) = Some t" "dget (mt_states M0) t = Some st" for k st
    using that memory_ok_lock [OF ok that(1)] spec [OF idle, of k] by (simp add: blocks_open_def split: if_splits)
  moreover have "ol_task (lock_of M0 k) \<noteq> Some t" if "dget (mt_states M0) t = None" for k
    using that memory_ok_lock [OF ok, of k t] spec [OF idle, of k] by (auto simp: blocks_open_def)
  ultimately show ?thesis
    using ok enter_ok [OF ok enter] enter
    by (cases "dget (mt_states M0) t")
      (auto simp: without_def lock_rel_def txn_enter_def Let_def opened_at_def nesting_def journal_def
        suffix_undo_def nth_append)
qed

subsection \<open>Properties\<close>

text \<open>
  C17. An aborted transaction leaves no trace, whatever the other tasks did meanwhile. Take any
  reachable memory in which task \<open>t\<close> is in no \<open>owner\<close> block, let \<open>t\<close> open a transaction (at any
  nesting), let all tasks run in any interleaving while \<open>t\<close> stays inside, and abort. Then the other
  tasks could have taken the very same steps with \<open>t\<close> standing still, the store they would have
  produced has the same contents as the store after the abort, and the journal and nesting of \<open>t\<close>
  are those it had before.
\<close>

theorem aborted_transaction_invisible:
  assumes "task_steps own (idle_memory S) tr0 M0" and "\<forall>k. blocks_open t k M0 = 0"
    and "task_step own M0 (t, Enter) M1"
    and "steps_inside own t (nesting t M0) M1 tr M2" and "nesting t M2 = Suc (nesting t M0)"
    and "task_step own M2 (t, Abort) M3"
  shows "(\<exists>N. task_steps own M0 (filter (\<lambda>b. fst b \<noteq> t) tr) N \<and> same_store (mt_store N) (mt_store M3))
    \<and> journal t M3 = journal t M0 \<and> nesting t M3 = nesting t M0"
proof -
  have ok0: "memory_ok own M0" by (rule task_steps_ok [OF assms(1)]) simp
  have "without own t M0 M1 M0"
    using assms(3) by (intro enter_without [OF ok0 assms(2)]) (simp add: task_step_iff)
  then obtain N where N: "task_steps own M0 (filter (\<lambda>b. fst b \<noteq> t) tr) N" "without own t M0 M2 N"
    using inside_steps [OF assms(4)] by blast
  then obtain st where st: "memory_ok own M2" "dget (mt_states M2) t = Some st"
      "opened_at (nesting t M0) (journal t M0) st"
      "same_store (mt_store N) (suffix_undo (length (journal t M0)) st (mt_store M2))"
    unfolding without_def by blast
  have len: "length (ts_savepoints st) = Suc (nesting t M0)" using assms(5) st(2) by (simp add: nesting_def)
  then have ends: "last (ts_savepoints st) = length (journal t M0)"
    using st(3) by (cases "ts_savepoints st" rule: rev_cases) (simp_all add: opened_at_def nth_append)
  have left: "left_transaction t (truncated st) (rolled_back st M2) M3"
    using txn_abort_effect [OF st(1,2)] assms(6) by (auto simp: task_step_iff)
  then have "mt_store M3 = suffix_undo (length (journal t M0)) st (mt_store M2)"
    by (simp add: left_transaction_def rolled_back_def suffix_undo_def ends)
  then have others: "\<exists>N. task_steps own M0 (filter (\<lambda>b. fst b \<noteq> t) tr) N \<and> same_store (mt_store N) (mt_store M3)"
    using N(1) st(4) by auto
  have "journal t M0 = ts_journal (truncated st)" using st(3) ends by (simp add: truncated_def opened_at_def)
  moreover have "journal t M0 = []" if "nesting t M0 = 0"
    using that memory_okD [OF ok0, of t] by (auto simp: nesting_def journal_def state_ok_def split: option.splits)
  ultimately have "journal t M3 = journal t M0 \<and> nesting t M3 = nesting t M0"
    using left len by (auto simp: left_transaction_def journal_def nesting_def rolled_back_def split: if_splits)
  with others show ?thesis by blast
qed

text \<open>Once the outermost transaction is left, only open \<open>owner\<close> blocks keep locks.\<close>

lemma left_locks:
  assumes ok: "memory_ok own M" and st: "dget (mt_states M) t = Some st" and "length (ts_savepoints st) = 1"
    and "left_transaction t st' M1 M'" "lock_of M1 = lock_of M" "ts_held st' = ts_held st"
      "ts_savepoints st' = ts_savepoints st"
  shows "ol_task (lock_of M' k) = Some t \<longleftrightarrow> 0 < blocks_open t k M"
proof (cases "ol_task (lock_of M k) = Some t")
  case True
  then show ?thesis
    using assms memory_ok_lock [OF ok True]
    by (auto simp: left_transaction_def blocks_open_def released_def new_lock_def)
next
  case False
  then have "k \<notin> set (ts_held st)" using memory_okD [OF ok st] by (auto simp: state_ok_def)
  then show ?thesis using assms False by (simp add: left_transaction_def blocks_open_def)
qed

text \<open>
  Leaving a transaction never raises: in every memory reachable by disciplined tasks, a task
  inside a transaction can commit and can abort, neither hits the error for a lock of another task,
  and after the outermost exit the task has exactly the locks of the \<open>owner\<close> blocks it is still in.
\<close>

theorem transaction_exit_never_raises:
  assumes "task_steps own (idle_memory S) tr M" and "0 < nesting t M"
  shows "\<exists>C A. txn_commit t M = Inr C \<and> txn_abort t M = Inr A
    \<and> (nesting t M = 1 \<longrightarrow>
        (\<forall>k. (ol_task (lock_of C k) = Some t \<longleftrightarrow> 0 < blocks_open t k M)
           \<and> (ol_task (lock_of A k) = Some t \<longleftrightarrow> 0 < blocks_open t k M)))"
proof -
  have ok: "memory_ok own M" by (rule task_steps_ok [OF assms(1)]) simp
  obtain st where st: "dget (mt_states M) t = Some st" using assms(2) by (auto simp: nesting_def split: option.splits)
  obtain C where C: "txn_commit t M = Inr C" "left_transaction t st M C"
    using txn_commit_effect [OF ok st] by blast
  obtain A where A: "txn_abort t M = Inr A" "left_transaction t (truncated st) (rolled_back st M) A"
    using txn_abort_effect [OF ok st] by blast
  have "nesting t M = length (ts_savepoints st)" using st by (simp add: nesting_def)
  then show ?thesis
    using C(1) A(1) left_locks [OF ok st _ C(2)] left_locks [OF ok st _ A(2)] by (simp add: rolled_back_def)
qed

subsection \<open>Witnesses\<close>

text \<open>Two tasks write records of two owners; the first one aborts.\<close>

definition sample_owner :: "(nat, nat) place \<Rightarrow> owner_key" where
  "sample_owner a = (case a of In_map m k \<Rightarrow> Owner_key ''tenant'' (if k = 1 then ''ann'' else ''bob'')
     | In_set s x \<Rightarrow> Owner_key ''tenant'' ''ann'')"

definition sample_memory :: "(nat, nat, nat) memory_transaction" where
  "sample_memory = idle_memory \<lparr> st_maps = (\<lambda>_. []), st_lists = (\<lambda>_. []), st_sets = (\<lambda>_. {}) \<rparr>"

fun act_all ::
    "(nat \<times> ('k, 'v, 'x) action) list \<Rightarrow> ('k, 'v, 'x) memory_transaction \<Rightarrow> ('k, 'v, 'x) memory_transaction" where
  "act_all [] M = M"
| "act_all ((t, a) # tr) M = (case perform t a M of Some (Inr M') \<Rightarrow> act_all tr M' | _ \<Rightarrow> M)"

fun stays_inside ::
    "(('k, 'x) place \<Rightarrow> owner_key) \<Rightarrow> nat \<Rightarrow> nat \<Rightarrow> (nat \<times> ('k, 'v, 'x) action) list \<Rightarrow>
       ('k, 'v, 'x) memory_transaction \<Rightarrow> bool" where
  "stays_inside own t d [] M = (d < nesting t M)"
| "stays_inside own t d ((u, a) # tr) M = (d < nesting t M \<and> disciplined own u a M
     \<and> (case perform u a M of Some (Inr M') \<Rightarrow> stays_inside own t d tr M' | _ \<Rightarrow> False))"

lemma stays_inside_steps: "stays_inside own t d tr M \<Longrightarrow> steps_inside own t d M tr (act_all tr M)"
proof (induction own t d tr M rule: stays_inside.induct)
  case (2 own t d u a tr M)
  then obtain M' where M': "perform u a M = Some (Inr M')" "stays_inside own t d tr M'"
    by (auto split: option.splits sum.splits)
  show ?case
    by (rule inside_more) (use 2 M' in \<open>auto simp: task_step_iff\<close>)
qed (simp add: inside_none)

definition sample_inside :: "(nat \<times> (nat, nat, nat) action) list" where
  "sample_inside = [(1, Own (Owner_key ''tenant'' ''ann'')), (1, Put 0 1 7),
     (2, Own (Owner_key ''tenant'' ''bob'')), (2, Put 0 2 9)]"

lemmas sample_journal_defs = sample_memory_def idle_memory_def sample_inside_def sample_owner_def
  txn_enter_def owner_enter_def lock_acquire_def lock_of_def new_lock_def map_setitem_def do_write_def
  remember_def permitted_def nesting_def journal_def

lemma sample_stays: "stays_inside sample_owner 1 0 sample_inside (act_all [(1, Enter)] sample_memory)"
  by (simp add: sample_journal_defs)

theorem aborted_transaction_invisible_witness:
  "\<exists>M3. task_step sample_owner (act_all ((1, Enter) # sample_inside) sample_memory) (1, Abort) M3
     \<and> (\<exists>N. task_steps sample_owner sample_memory (drop 2 sample_inside) N
           \<and> same_store (mt_store N) (mt_store M3))"
proof -
  define M2 where "M2 = act_all ((1, Enter) # sample_inside) sample_memory"
  have reach: "task_steps sample_owner (idle_memory (mt_store sample_memory)) [] sample_memory"
    by (simp add: sample_memory_def idle_memory_def no_steps)
  have enter: "task_step sample_owner sample_memory (1, Enter) (act_all [(1, Enter)] sample_memory)"
    by (simp add: task_step_iff sample_journal_defs)
  have level: "nesting 1 sample_memory = 0" by (simp add: sample_journal_defs)
  have idle: "\<forall>k. blocks_open 1 k sample_memory = 0" by (simp add: blocks_open_def sample_journal_defs)
  have inside: "nesting 1 M2 = Suc (nesting 1 sample_memory)" by (simp add: M2_def sample_journal_defs)
  have steps: "steps_inside sample_owner 1 (nesting 1 sample_memory) (act_all [(1, Enter)] sample_memory)
      sample_inside M2"
    using stays_inside_steps [OF sample_stays] level by (simp add: M2_def sample_journal_defs)
  obtain M3 where M3: "task_step sample_owner M2 (1, Abort) M3"
    by (simp add: task_step_iff M2_def sample_journal_defs txn_abort_def txn_finish_def owner_exit_def
        lock_release_def dlookup_def)
  have "filter (\<lambda>b. fst b \<noteq> 1) sample_inside = drop 2 sample_inside" by (simp add: sample_inside_def)
  then show ?thesis
    using aborted_transaction_invisible [OF reach idle enter steps inside M3] M3 by (auto simp: M2_def)
qed

theorem transaction_exit_never_raises_witness:
  "\<exists>C A. txn_commit 1 (act_all [(1, Enter)] sample_memory) = Inr C
     \<and> txn_abort 1 (act_all [(1, Enter)] sample_memory) = Inr A"
proof -
  have reach: "task_steps sample_owner (idle_memory (mt_store sample_memory)) [(1, Enter)]
      (act_all [(1, Enter)] sample_memory)"
    by (rule more_steps [OF _ no_steps]) (simp add: task_step_iff sample_journal_defs)
  show ?thesis
    using transaction_exit_never_raises [OF reach, of 1] by (auto simp: sample_journal_defs)
qed

end
