(* ===== verification/Effects.thy ===== *)
theory Effects
  imports Prelude
begin

text \<open>
  Services call many repositories in a row, and the in-process unit of work does not undo what an
  earlier call stored when a later one raises. A service method is therefore a program that returns
  an exception or a value together with the state it leaves behind in either case.
\<close>

type_synonym ('s, 'e, 'a) prog = "'s \<Rightarrow> ('e + 'a) \<times> 's"

definition preturn :: "'a \<Rightarrow> ('s, 'e, 'a) prog" where
  "preturn a s = (Inr a, s)"

definition praise :: "'e \<Rightarrow> ('s, 'e, 'a) prog" where
  "praise e s = (Inl e, s)"

definition pbind :: "('s, 'e, 'a) prog \<Rightarrow> ('a \<Rightarrow> ('s, 'e, 'b) prog) \<Rightarrow> ('s, 'e, 'b) prog" where
  "pbind m f s = (case m s of (Inl e, s') \<Rightarrow> (Inl e, s') | (Inr a, s') \<Rightarrow> f a s')"

definition pget :: "('s \<Rightarrow> 'a) \<Rightarrow> ('s, 'e, 'a) prog" where
  "pget f s = (Inr (f s), s)"

definition pmodify :: "('s \<Rightarrow> 's) \<Rightarrow> ('s, 'e, unit) prog" where
  "pmodify f s = (Inr (), f s)"

lemma pbind_simps [simp]:
  "m s = (Inr a, s') \<Longrightarrow> pbind m f s = f a s'"
  "m s = (Inl e, s') \<Longrightarrow> pbind m f s = (Inl e, s')"
  by (simp_all add: pbind_def)

lemma pbind_Inr_iff: "pbind m f s = (Inr b, s') \<longleftrightarrow> (\<exists>a s1. m s = (Inr a, s1) \<and> f a s1 = (Inr b, s'))"
  by (auto simp: pbind_def split: prod.splits sum.splits)

lemma pbind_InrE:
  assumes "pbind m f s = (Inr b, s')"
  obtains a s1 where "m s = (Inr a, s1)" and "f a s1 = (Inr b, s')"
  using assms by (auto simp: pbind_Inr_iff)

lemma prog_simps [simp]:
  "preturn a s = (Inr a, s)" "praise e s = (Inl e, s)" "pget f s = (Inr (f s), s)"
  "pmodify g s = (Inr (), g s)"
  by (simp_all add: preturn_def praise_def pget_def pmodify_def)

lemma pbind_return [simp]: "pbind (preturn a) f = f a" "pbind (praise e) f = praise e"
  by (auto simp: pbind_def fun_eq_iff)

lemma pbind_pget [simp]: "pbind (pget f) g s = g (f s) s"
  by (simp add: pbind_def)

lemma pbind_pmodify [simp]: "pbind (pmodify f) g s = g () (f s)"
  by (simp add: pbind_def)

subsection \<open>What a program may do to the state\<close>

text \<open>
  \<open>stays R m\<close>: whatever the outcome, the state \<open>m\<close> leaves is related to the state it found. For a
  reflexive and transitive relation this is closed under sequencing.
\<close>

definition stays :: "('s \<Rightarrow> 's \<Rightarrow> bool) \<Rightarrow> ('s, 'e, 'a) prog \<Rightarrow> bool" where
  "stays R m \<longleftrightarrow> (\<forall>s. R s (snd (m s)))"

lemma staysD: "stays R m \<Longrightarrow> m s = (r, s') \<Longrightarrow> R s s'"
  unfolding stays_def by (metis snd_conv)

lemma stays_if: "stays R m \<Longrightarrow> stays R m' \<Longrightarrow> stays R (if b then m else m')"
  by simp

lemma stays_case_option:
  "stays R m \<Longrightarrow> (\<And>x. stays R (f x)) \<Longrightarrow> stays R (case v of None \<Rightarrow> m | Some x \<Rightarrow> f x)"
  by (cases v) simp_all

lemma stays_case_prod: "(\<And>x y. stays R (f x y)) \<Longrightarrow> stays R (case v of (x, y) \<Rightarrow> f x y)"
  by (cases v) simp

text \<open>\<open>raises P m\<close>: every exception of \<open>m\<close> satisfies \<open>P\<close>.\<close>

definition raises :: "('e \<Rightarrow> bool) \<Rightarrow> ('s, 'e, 'a) prog \<Rightarrow> bool" where
  "raises P m \<longleftrightarrow> (\<forall>s e s'. m s = (Inl e, s') \<longrightarrow> P e)"

named_theorems raises_laws "which exceptions a program may raise"

lemma raises_basic [raises_laws]:
  "raises P (preturn a)" "raises P (pget f)" "raises P (pmodify g)" "P e \<Longrightarrow> raises P (praise e)"
  by (simp_all add: raises_def)

lemma raises_bind [raises_laws]: "raises P m \<Longrightarrow> (\<And>a. raises P (f a)) \<Longrightarrow> raises P (pbind m f)"
  by (auto simp: raises_def pbind_def split: prod.splits sum.splits)

lemma raises_if [raises_laws]: "raises P m \<Longrightarrow> raises P m' \<Longrightarrow> raises P (if b then m else m')"
  by simp

lemma raises_case_option [raises_laws]:
  "raises P m \<Longrightarrow> (\<And>x. raises P (f x)) \<Longrightarrow> raises P (case v of None \<Rightarrow> m | Some x \<Rightarrow> f x)"
  by (cases v) simp_all

lemma raises_case_prod [raises_laws]: "(\<And>x y. raises P (f x y)) \<Longrightarrow> raises P (case v of (x, y) \<Rightarrow> f x y)"
  by (cases v) simp

named_theorems stays_laws "programs that stay stays a relation"

locale evolution =
  fixes R :: "'s \<Rightarrow> 's \<Rightarrow> bool"
  assumes R_refl: "R s s"
    and R_trans: "R s s' \<Longrightarrow> R s' s'' \<Longrightarrow> R s s''"
begin

lemma stays_return: "stays R (preturn a)" "stays R (praise e)" "stays R (pget f)"
  by (simp_all add: stays_def R_refl)

lemma stays_modify: "(\<And>s. R s (f s)) \<Longrightarrow> stays R (pmodify f)"
  by (simp add: stays_def)

lemma stays_bind:
  assumes "stays R m" and "\<And>a. stays R (f a)"
  shows "stays R (pbind m f)"
  unfolding stays_def
proof
  fix s
  show "R s (snd (pbind m f s))"
  proof (cases "m s")
    case (Pair r s')
    have first: "R s s'" using assms(1) Pair by (metis snd_conv stays_def)
    show ?thesis
    proof (cases r)
      case (Inl e)
      then show ?thesis using Pair first by simp
    next
      case (Inr a)
      have "R s' (snd (f a s'))" using assms(2) by (simp add: stays_def)
      then show ?thesis using Pair Inr first R_trans by simp
    qed
  qed
qed

end

end
