(* ===== verification/Submission.thy ===== *)
theory Submission
  imports Effects Artifacts
begin

text \<open>
  Submitting work: the agent repository and the limits a session runs under
  (\<open>domain/agents.py\<close>, \<open>InMemoryAgentRepository\<close>), the in-process unit of work
  (\<open>adapters/persistence/unit_of_work.py\<close>), session creation (\<open>application/session_service.py\<close>), the
  checkpoint every run starts from (\<open>runtime/checkpoints.py\<close>, the working state of
  \<open>domain/context.py\<close>), the in-process dispatcher (\<open>adapters/dispatch/inline.py\<close>) and
  \<open>RunService.submit\<close> (\<open>application/run_service.py\<close>), over the repositories of the other theories.

  Dependencies the code injects are the fields of \<open>submit_env\<close>; pydantic's (de)serialisers of nested
  models are among them. The clock and the identifier factory are part of the state: every reading
  takes the next answer of an arbitrary sequence. Calls to ports outside the stores are recorded in
  order. One submission runs without interleaving; what concurrent callers can do to a repository
  is the subject of the repository theories.
\<close>

subsection \<open>Agents\<close>

record agent_spec =
  ag_id :: uuid
  ag_version :: string
  ag_name :: string
  ag_instructions :: string
  ag_model_policy :: string
  ag_enabled_tools :: "string list"
  ag_enabled_skills :: "string list"
  ag_policy_profile :: string
  ag_limits :: run_limits
  ag_metadata :: document

definition run_limits_for_session ::
    "(json \<Rightarrow> run_limits res) \<Rightarrow> agent_spec \<Rightarrow> session \<Rightarrow> run_limits res" where
  "run_limits_for_session validate agent s =
     (case (dget (s_metadata s) ''browser_profile_id'', dget (ag_metadata agent) ''browser_task_limits'') of
        (Some (JStr profile), Some overlay) \<Rightarrow>
          if profile \<noteq> [] \<and> overlay \<noteq> JNull then validate overlay else Inr (ag_limits agent)
      | _ \<Rightarrow> Inr (ag_limits agent))"

text \<open>
  \<open>dump\<close> is the canonical JSON text of an agent and \<open>hash\<close> its SHA-256 in hexadecimal; the fields
  the code excludes from the text are blanked before.
\<close>

definition content_addressed_agent_version ::
    "(agent_spec \<Rightarrow> string) \<Rightarrow> (string \<Rightarrow> string) \<Rightarrow> agent_spec \<Rightarrow> string" where
  "content_addressed_agent_version dump hash agent =
     ''1.0.0+h'' @ take 12 (hash (dump (agent\<lparr> ag_id := 0, ag_version := [] \<rparr>)))"

definition chat_model_variant ::
    "(agent_spec \<Rightarrow> string) \<Rightarrow> (string \<Rightarrow> string) \<Rightarrow> (uuid \<Rightarrow> string \<Rightarrow> uuid) \<Rightarrow> agent_spec \<Rightarrow> string \<Rightarrow>
       agent_spec" where
  "chat_model_variant dump hash uuid5 agent model_policy =
     (if model_policy = ag_model_policy agent then agent
      else let variant = agent\<lparr> ag_id := uuid5 (ag_id agent) (''chat-model:'' @ model_policy),
                ag_model_policy := model_policy \<rparr>
           in variant\<lparr> ag_version := content_addressed_agent_version dump hash variant \<rparr>)"

record agent_repo =
  ar_agents :: "(uuid \<times> string, agent_spec) dict"
  ar_latest :: "(uuid, string) dict"

definition agent_put :: "agent_repo \<Rightarrow> agent_spec \<Rightarrow> agent_repo res" where
  "agent_put A agent =
     (let key = (ag_id agent, ag_version agent)
      in if (case dget (ar_agents A) key of None \<Rightarrow> False | Some existing \<Rightarrow> existing \<noteq> agent)
         then Inl (ConflictError ''agent version already exists with different content'' None)
         else Inr (A\<lparr> ar_agents := dset key agent (ar_agents A),
                ar_latest := dset (ag_id agent) (ag_version agent) (ar_latest A) \<rparr>))"

definition agent_get_version :: "agent_repo \<Rightarrow> uuid \<Rightarrow> string \<Rightarrow> agent_spec res" where
  "agent_get_version A i version =
     dlookup (NotFoundError ''agent version not found'') (ar_agents A) (i, version)"

definition agent_latest_version :: "agent_repo \<Rightarrow> uuid \<Rightarrow> agent_spec res" where
  "agent_latest_version A i =
     rbind (dlookup (NotFoundError ''agent not found'') (ar_latest A) i) (\<lambda>version.
       dlookup (NotFoundError ''agent not found'') (ar_agents A) (i, version))"

subsection \<open>Working state\<close>

datatype task_status = Task_OPEN | Task_IN_PROGRESS | Task_BLOCKED | Task_COMPLETED

record task_state =
  tk_task_id :: string
  tk_description :: string
  tk_status :: task_status
  tk_source_event_ids :: "int list"
  tk_trust_level :: trust_level
  tk_updated_at :: instant

record fact_record =
  fa_statement :: string
  fa_source_event_ids :: "int list"
  fa_trust_level :: trust_level
  fa_established_at :: instant

record working_state =
  ws_objective :: "string option"
  ws_constraints :: "string list"
  ws_tasks :: "task_state list"
  ws_established_facts :: "fact_record list"
  ws_open_questions :: "string list"
  ws_next_action :: "string option"

definition empty_working_state :: working_state where
  "empty_working_state = \<lparr> ws_objective = None, ws_constraints = [], ws_tasks = [],
     ws_established_facts = [], ws_open_questions = [], ws_next_action = None \<rparr>"

text \<open>What a new run takes over from the state of the session: open tasks, no next action.\<close>

definition carried_state :: "working_state \<Rightarrow> working_state" where
  "carried_state ws = ws\<lparr> ws_tasks := filter (\<lambda>task. tk_status task \<noteq> Task_COMPLETED) (ws_tasks ws),
     ws_next_action := None \<rparr>"

subsection \<open>The state of a service\<close>

record skill_catalog =
  sk_pins :: "json list"
  sk_dropped_names :: "string list"

record submit_env =
  se_principal :: principal
  se_default_agent :: agent_spec
  se_export_enabled :: bool
  se_detectors :: text_detectors
  se_adapters :: message_adapters
  se_validate_state :: "document \<Rightarrow> working_state res"
  se_dump_state :: "working_state \<Rightarrow> json"
  se_validate_recall :: "json \<Rightarrow> recall_work_budget res"
  se_dump_recall :: "recall_work_budget \<Rightarrow> json"
  se_dump_usage :: "run_usage \<Rightarrow> json"
  se_validate_limits :: "json \<Rightarrow> run_limits res"
  se_catalogs :: "(uuid \<Rightarrow> agent_spec \<Rightarrow> principal \<Rightarrow> skill_catalog res) option"
  se_has_close :: bool
  se_activate :: "(uuid \<Rightarrow> unit res) option"
  se_execute :: "uuid \<Rightarrow> unit res"
  se_delay_before :: "(uuid \<Rightarrow> rat option) option"
  se_can_sleep :: bool

datatype port_call =
    Open_catalog uuid | Discard_catalog uuid | Close_session uuid | Activate_session uuid
  | Execute_now uuid | Execute_later uuid rat

record world =
  w_clock :: "nat \<Rightarrow> instant"
  w_ticks :: nat
  w_ids :: "nat \<Rightarrow> uuid"
  w_ids_used :: nat
  w_agents :: agent_repo
  w_sessions :: session_repo
  w_runs :: run_repo
  w_events :: event_repo
  w_checkpoints :: checkpoint_repo
  w_idempotency :: idempotency_repo
  w_consents :: consent_repo
  w_depth :: nat
  w_rollbacks :: "port_call list"
  w_dispatched :: "uuid set"
  w_calls :: "port_call list"

datatype submit_exn = Raised error | Existing_idempotent_run uuid

type_synonym 'a service = "(world, submit_exn, 'a) prog"

definition now :: "instant service" where
  "now w = (Inr (w_clock w (w_ticks w)), w\<lparr> w_ticks := Suc (w_ticks w) \<rparr>)"

definition new_id :: "uuid service" where
  "new_id w = (Inr (w_ids w (w_ids_used w)), w\<lparr> w_ids_used := Suc (w_ids_used w) \<rparr>)"

definition attempt :: "'a res \<Rightarrow> 'a service" where
  "attempt r = (case r of Inl e \<Rightarrow> praise (Raised e) | Inr a \<Rightarrow> preturn a)"

definition record_call :: "port_call \<Rightarrow> unit service" where
  "record_call c = pmodify (\<lambda>w. w\<lparr> w_calls := w_calls w @ [c] \<rparr>)"

definition on_rollback :: "port_call \<Rightarrow> unit service" where
  "on_rollback c = pmodify (\<lambda>w. w\<lparr> w_rollbacks := w_rollbacks w @ [c] \<rparr>)"

text \<open>A store call: an error leaves the state as it was, a result comes with the new store.\<close>

definition on_store :: "(world \<Rightarrow> ('a \<times> world) res) \<Rightarrow> 'a service" where
  "on_store f w = (case f w of Inl e \<Rightarrow> (Inl (Raised e), w) | Inr (a, w') \<Rightarrow> (Inr a, w'))"

text \<open>
  \<open>MemoryUnitOfWork\<close>: on an exception the registered callbacks run in reverse order (their own
  failures are only logged) and the memory journal is undone; of the stores here, that is the
  permits the event log wrote to the bound source index. Everything else stays as it was written.
\<close>

definition unit_of_work :: "'a service \<Rightarrow> 'a service" where
  "unit_of_work body w =
     (case body (w\<lparr> w_depth := Suc (w_depth w), w_rollbacks := [] \<rparr>) of
        (Inr a, w') \<Rightarrow> (Inr a, w'\<lparr> w_rollbacks := [], w_depth := w_depth w \<rparr>)
      | (Inl e, w') \<Rightarrow> (Inl e, w'\<lparr> w_calls := w_calls w' @ rev (w_rollbacks w'), w_rollbacks := [],
          w_events := (w_events w')\<lparr> er_source_index := er_source_index (w_events w) \<rparr>,
          w_depth := w_depth w \<rparr>))"

definition append_event :: "submit_env \<Rightarrow> new_event \<Rightarrow> worker_lease option \<Rightarrow> event_envelope service" where
  "append_event env e lease = pbind now (\<lambda>t. on_store (\<lambda>w.
     rbind (event_append (se_detectors env) (w_events w, w_sessions w) e lease t) (\<lambda>(envelope, E, S).
       Inr (envelope, w\<lparr> w_events := E, w_sessions := S \<rparr>))))"

definition plain_event :: "uuid \<Rightarrow> uuid option \<Rightarrow> string \<Rightarrow> string \<Rightarrow> string option \<Rightarrow> document \<Rightarrow> new_event" where
  "plain_event sid run_id event_type actor_type actor_id payload =
     \<lparr> ne_session_id = sid, ne_run_id = run_id, ne_event_type = event_type,
       ne_payload_schema_version = 1, ne_actor_type = actor_type, ne_actor_id = actor_id,
       ne_payload = payload, ne_trace_id = None, ne_derivation_key = None \<rparr>"

subsection \<open>Sessions\<close>

definition bootstrap_session :: "submit_env \<Rightarrow> (uuid \<times> skill_catalog option) service" where
  "bootstrap_session env = pbind new_id (\<lambda>sid.
     pbind (if se_catalogs env \<noteq> None then on_rollback (Discard_catalog sid) else preturn ()) (\<lambda>_.
     pbind (if se_has_close env then on_rollback (Close_session sid) else preturn ()) (\<lambda>_.
     case se_catalogs env of
       None \<Rightarrow> preturn (sid, None)
     | Some open_catalog \<Rightarrow>
         pbind (record_call (Open_catalog sid)) (\<lambda>_.
         pbind (attempt (open_catalog sid (se_default_agent env) (se_principal env))) (\<lambda>catalog.
           preturn (sid, Some catalog))))))"

definition new_session :: "submit_env \<Rightarrow> uuid \<Rightarrow> instant \<Rightarrow> session" where
  "new_session env sid t = \<lparr> s_id = sid, s_tenant_id = tenant_id (se_principal env),
     s_principal_id = principal_id (se_principal env), s_agent_id = ag_id (se_default_agent env),
     s_agent_version = ag_version (se_default_agent env), s_status = Session_ACTIVE, s_title = None,
     s_metadata = [], s_created_at = t, s_updated_at = t \<rparr>"

definition session_created_event :: "submit_env \<Rightarrow> session \<Rightarrow> skill_catalog option \<Rightarrow> new_event" where
  "session_created_event env s catalog =
     (plain_event (s_id s) None ''session.created'' ''principal'' (Some (principal_id (se_principal env)))
       [(''agent_id'', JStr (uuid_str (s_agent_id s))),
        (''title'', case s_title s of None \<Rightarrow> JNull | Some title \<Rightarrow> JStr title),
        (''skill_pins'', JArr (case catalog of None \<Rightarrow> [] | Some c \<Rightarrow> sk_pins c)),
        (''dropped_skills'', JArr (case catalog of None \<Rightarrow> [] | Some c \<Rightarrow> map JStr (sk_dropped_names c)))])
     \<lparr> ne_payload_schema_version := 2 \<rparr>"

definition create_in :: "submit_env \<Rightarrow> uuid service" where
  "create_in env = pbind now (\<lambda>t.
     pbind (bootstrap_session env) (\<lambda>(sid, catalog).
     let s = new_session env sid t in
     pbind (on_store (\<lambda>w. rbind (session_create (w_sessions w) s) (\<lambda>S.
       Inr ((), w\<lparr> w_sessions := S \<rparr>)))) (\<lambda>_.
     pbind (append_event env (session_created_event env s catalog) None) (\<lambda>_.
       preturn (s_id s)))))"

definition session_activate :: "submit_env \<Rightarrow> uuid \<Rightarrow> unit service" where
  "session_activate env sid = (case se_activate env of
      None \<Rightarrow> preturn ()
    | Some activate \<Rightarrow> pbind (record_call (Activate_session sid)) (\<lambda>_. attempt (activate sid)))"

definition session_service_create :: "submit_env \<Rightarrow> uuid service" where
  "session_service_create env = pbind (unit_of_work (create_in env)) (\<lambda>sid.
     pbind (session_activate env sid) (\<lambda>_. preturn sid))"

subsection \<open>The first checkpoint\<close>

definition seed_working_state :: "submit_env \<Rightarrow> event_envelope option \<Rightarrow> working_state res" where
  "seed_working_state env event = (case event of
      None \<Rightarrow> Inr empty_working_state
    | Some e \<Rightarrow> (case dget (ev_payload e) ''working_state'' of
          Some (JObj raw) \<Rightarrow> se_validate_state env raw
        | _ \<Rightarrow> Inr empty_working_state))"

definition seed_recall_work :: "submit_env \<Rightarrow> event_envelope option \<Rightarrow> recall_work_budget option res" where
  "seed_recall_work env reservation = (case reservation of
      None \<Rightarrow> Inr None
    | Some e \<Rightarrow> (case dget (ev_payload e) ''recall_work'' of
          None \<Rightarrow> Inr None
        | Some JNull \<Rightarrow> Inr None
        | Some raw \<Rightarrow> rbind (se_validate_recall env raw) (\<lambda>v. Inr (Some v))))"

definition first_checkpoint ::
    "submit_env \<Rightarrow> run \<Rightarrow> session_history \<Rightarrow> working_state \<Rightarrow> recall_work_budget option \<Rightarrow> instant \<Rightarrow>
       run_checkpoint" where
  "first_checkpoint env run history carried recall_work t =
     \<lparr> ck_run_id = r_id run, ck_version = 1, ck_status = r_status run,
       ck_conversation = sh_items history, ck_pending_tool_calls = [], ck_pending_approval_ids = [],
       ck_tool_pins_initialized = False, ck_pinned_tool_names = [], ck_pinned_tool_versions = [],
       ck_pinned_tool_specs = [],
       ck_working_state = (if carried \<noteq> empty_working_state
         then [(''context'', se_dump_state env carried)] else []),
       ck_loaded_skills = [], ck_compacted_summary = None, ck_summary_source_event_ids = [],
       ck_summary_elided = [], ck_replaced_through_sequence = 0, ck_summary_depth = 0,
       ck_compactor_version = None,
       ck_budget_state = [(''step_count'', JInt (r_step_count run)),
         (''model_call_count'', JInt (r_model_call_count run)),
         (''tool_call_count'', JInt (r_tool_call_count run)),
         (''usage'', se_dump_usage env (r_usage run))],
       ck_recall_work = recall_work, ck_last_event_sequence = 0, ck_provider_continuation = None,
       ck_provider_pin = None, ck_context_origin_trust = Trust_USER, ck_created_at = t \<rparr>"

definition checkpointed_event ::
    "submit_env \<Rightarrow> run \<Rightarrow> recall_work_budget option \<Rightarrow> worker_lease option \<Rightarrow> new_event" where
  "checkpointed_event env run recall_work lease =
     plain_event (r_session_id run) (Some (r_id run)) ''run.checkpointed''
       (if lease \<noteq> None then ''runtime'' else ''application'') None
       [(''version'', JInt 1), (''trigger'', JStr ''seed''), (''full'', JBool True),
        (''recall_work'', case recall_work of None \<Rightarrow> JNull | Some v \<Rightarrow> se_dump_recall env v)]"

definition seed_checkpoint ::
    "submit_env \<Rightarrow> run \<Rightarrow> int option \<Rightarrow> worker_lease option \<Rightarrow> principal \<Rightarrow> run_checkpoint service" where
  "seed_checkpoint env run through_sequence lease owner =
     pbind (pget w_events) (\<lambda>E. pbind (pget w_sessions) (\<lambda>S.
     pbind (attempt (history_catch_up (se_adapters env) E (r_session_id run))) (\<lambda>latest.
     let through = (case through_sequence of None \<Rightarrow> sh_through_sequence latest | Some n \<Rightarrow> n) in
     pbind (attempt (history_read (se_adapters env) E (r_session_id run) (Some through))) (\<lambda>history.
     pbind (attempt (latest_before (E, S) (r_session_id run) (through + 1)
       ''context.working_state.updated'' owner None)) (\<lambda>event.
     pbind (attempt (seed_working_state env event)) (\<lambda>state.
     pbind (attempt (latest_before (E, S) (r_session_id run) (sh_through_sequence latest + 1)
       ''run.checkpointed'' owner (Some (r_id run)))) (\<lambda>reservation.
     pbind (attempt (seed_recall_work env reservation)) (\<lambda>recall_work.
     pbind now (\<lambda>t.
     let checkpoint = first_checkpoint env run history (carried_state state) recall_work t in
     pbind (append_event env (checkpointed_event env run recall_work lease) lease) (\<lambda>envelope.
     let stamped = checkpoint\<lparr> ck_last_event_sequence := ev_sequence envelope \<rparr> in
     pbind (on_store (\<lambda>w. rbind (checkpoint_write (w_checkpoints w) (r_id run) stamped True lease)
       (\<lambda>(v, C). Inr (v, w\<lparr> w_checkpoints := C \<rparr>)))) (\<lambda>_.
       preturn stamped)))))))))))"

subsection \<open>Dispatch\<close>

definition run_now :: "submit_env \<Rightarrow> uuid \<Rightarrow> unit service" where
  "run_now env i = pbind (record_call (Execute_now i)) (\<lambda>_.
     case se_execute env i of
       Inr _ \<Rightarrow> preturn ()
     | Inl e \<Rightarrow> pbind (pmodify (\<lambda>w. w\<lparr> w_dispatched := w_dispatched w - {i} \<rparr>)) (\<lambda>_. praise (Raised e)))"

definition dispatch :: "submit_env \<Rightarrow> uuid \<Rightarrow> unit service" where
  "dispatch env i = pbind (pget w_depth) (\<lambda>depth.
     if depth > 0
     then praise (Raised (RuntimeError ''inline dispatch must happen after the creating commit''))
     else pbind (pget w_dispatched) (\<lambda>done_ids.
       if i \<in> done_ids then preturn ()
       else pbind (pmodify (\<lambda>w. w\<lparr> w_dispatched := insert i (w_dispatched w) \<rparr>)) (\<lambda>_.
         case se_delay_before env of
           None \<Rightarrow> run_now env i
         | Some delay_before \<Rightarrow> (case delay_before i of
               None \<Rightarrow> preturn ()
             | Some delay \<Rightarrow> if delay > 0 \<and> se_can_sleep env
                 then record_call (Execute_later i delay) else run_now env i))))"

definition dispatch_resume :: "submit_env \<Rightarrow> uuid \<Rightarrow> unit service" where
  "dispatch_resume env i = pbind (pmodify (\<lambda>w. w\<lparr> w_dispatched := w_dispatched w - {i} \<rparr>)) (\<lambda>_.
     dispatch env i)"

subsection \<open>Submission\<close>

definition request_hash :: "submit_env \<Rightarrow> uuid option \<Rightarrow> string \<Rightarrow> string" where
  "request_hash env requested prompt = td_sha256_hex (se_detectors env)
     (''v1:'' @ (case requested of None \<Rightarrow> ''None'' | Some i \<Rightarrow> uuid_str i) @ '':'' @ prompt)"

definition consent_active :: "export_consent \<Rightarrow> bool" where
  "consent_active c \<longleftrightarrow> ec_withdrawn_at c = None"

definition new_run :: "submit_env \<Rightarrow> uuid \<Rightarrow> session \<Rightarrow> run_limits \<Rightarrow> export_consent option \<Rightarrow> instant \<Rightarrow> run" where
  "new_run env i s limits consent t =
     \<lparr> r_id = i, r_session_id = s_id s, r_parent_run_id = None, r_kind = INTERACTIVE,
       r_tenant_id = s_tenant_id s, r_principal_scopes = scopes (se_principal env),
       r_agent_id = s_agent_id s, r_agent_version = s_agent_version s, r_status = Run_QUEUED,
       r_step_count = 0, r_model_call_count = 0, r_tool_call_count = 0, r_limits = limits,
       r_usage = zero_usage, r_lease_owner = None, r_lease_expires_at = None, r_lease_epoch = 0,
       r_attempts = 0, r_lease_expirations = 0, r_priority = 0, r_scheduled_for = Some t,
       r_deadline_at = limit_deadline_at limits, r_cancel_requested_at = None, r_failure = None,
       r_final_message = None,
       r_export_consent = (se_export_enabled env
         \<and> (case consent of None \<Rightarrow> False | Some c \<Rightarrow> consent_active c)),
       r_provider_pin = None, r_seed_event_sequence = 0, r_created_at = t, r_updated_at = t \<rparr>"

definition user_message_event :: "submit_env \<Rightarrow> run \<Rightarrow> string \<Rightarrow> new_event" where
  "user_message_event env run prompt = plain_event (r_session_id run) (Some (r_id run))
     ''user.message.created'' ''principal'' (Some (principal_id (se_principal env)))
     [(''content'', JStr prompt)]"

definition run_queued_event :: "run \<Rightarrow> new_event" where
  "run_queued_event run = plain_event (r_session_id run) (Some (r_id run)) ''run.queued'' ''application'' None
     [(''run_id'', JStr (uuid_str (r_id run))), (''priority'', JInt (r_priority run))]"

definition hours_24 :: int where
  "hours_24 = 24 * 3600 * 1000000"

datatype submitted = Replayed uuid | Accepted uuid uuid bool

definition find_replay ::
    "submit_env \<Rightarrow> string option \<Rightarrow> string \<Rightarrow> uuid option service" where
  "find_replay env key hash = (case key of
      None \<Rightarrow> preturn None
    | Some k \<Rightarrow> pbind now (\<lambda>t. pbind (pget w_idempotency) (\<lambda>I.
        case idempotency_get I t k (tenant_id (se_principal env)) (principal_id (se_principal env)) of
          None \<Rightarrow> preturn None
        | Some existing \<Rightarrow> if ir_request_hash existing \<noteq> hash
            then praise (Raised (ConflictError ''idempotency key was reused for a different request'' None))
            else preturn (Some (ir_run_id existing)))))"

text \<open>The title of a conversation is taken from its first message.\<close>

definition title_first_message :: "submit_env \<Rightarrow> session \<Rightarrow> bool \<Rightarrow> string \<Rightarrow> session service" where
  "title_first_message env s created prompt =
     (if s_title s \<noteq> None then preturn s
      else pbind (if created then preturn True
          else pbind (pget (\<lambda>w. latest_for_session (w_sessions w) (w_runs w) (s_id s) (se_principal env))) (\<lambda>r.
            pbind (attempt r) (\<lambda>newest. preturn (newest = None)))) (\<lambda>first.
        case (if first then conversation_title prompt else None) of
          None \<Rightarrow> preturn s
        | Some title \<Rightarrow> on_store (\<lambda>w.
            rbind (set_title_if_missing (w_sessions w) (s_id s) (se_principal env) title) (\<lambda>(s', S).
              Inr (s', w\<lparr> w_sessions := S \<rparr>)))))"

definition remember_request ::
    "submit_env \<Rightarrow> string option \<Rightarrow> string \<Rightarrow> run \<Rightarrow> instant \<Rightarrow> unit service" where
  "remember_request env key hash run t = (case key of
      None \<Rightarrow> preturn ()
    | Some k \<Rightarrow> pbind now (\<lambda>t'.
        pbind (on_store (\<lambda>w. rbind (idempotency_create (w_idempotency w) t'
            \<lparr> ir_key = k, ir_tenant_id = tenant_id (se_principal env),
              ir_principal_id = principal_id (se_principal env), ir_request_hash = hash,
              ir_run_id = r_id run, ir_created_at = t, ir_expires_at = t + hours_24 \<rparr>) (\<lambda>(r, I).
            Inr (r, w\<lparr> w_idempotency := I \<rparr>)))) (\<lambda>r.
          if ir_run_id r \<noteq> r_id run then praise (Existing_idempotent_run (ir_run_id r)) else preturn ())))"

definition enqueue_run :: "submit_env \<Rightarrow> session \<Rightarrow> string \<Rightarrow> instant \<Rightarrow> run service" where
  "enqueue_run env s prompt t =
     pbind (pget (\<lambda>w. agent_get_version (w_agents w) (s_agent_id s) (s_agent_version s))) (\<lambda>found.
     pbind (attempt found) (\<lambda>agent.
     pbind (attempt (run_limits_for_session (se_validate_limits env) agent s)) (\<lambda>limits.
     pbind (pget (\<lambda>w. consent_get (w_consents w) (tenant_id (se_principal env))
       (principal_id (se_principal env)))) (\<lambda>consent.
     pbind new_id (\<lambda>i.
     pbind (attempt (deadline_matches_limits (new_run env i s limits consent t))) (\<lambda>run.
     pbind (on_store (\<lambda>w. rbind (run_create (w_runs w) run) (\<lambda>R. Inr ((), w\<lparr> w_runs := R \<rparr>)))) (\<lambda>_.
     pbind (append_event env (user_message_event env run prompt) None) (\<lambda>user_event.
     pbind now (\<lambda>t'.
     pbind (on_store (\<lambda>w. rbind (set_seed_event_sequence (w_runs w) (r_id run) (ev_sequence user_event) t')
       (\<lambda>R. Inr ((), w\<lparr> w_runs := R \<rparr>)))) (\<lambda>_.
     pbind (append_event env (run_queued_event run) None) (\<lambda>_.
     pbind (seed_checkpoint env run (Some (ev_sequence user_event)) None (se_principal env)) (\<lambda>_.
       preturn run))))))))))))"

definition submit_body ::
    "submit_env \<Rightarrow> string \<Rightarrow> uuid option \<Rightarrow> string option \<Rightarrow> instant \<Rightarrow> submitted service" where
  "submit_body env prompt session_id key t =
     (let hash = request_hash env session_id prompt in
      pbind (find_replay env key hash) (\<lambda>replay.
      case replay of
        Some i \<Rightarrow> preturn (Replayed i)
      | None \<Rightarrow>
          pbind (case session_id of None \<Rightarrow> create_in env | Some sid \<Rightarrow> preturn sid) (\<lambda>sid.
          let created = (session_id = None) in
          pbind (pget (\<lambda>w. session_get (w_sessions w) sid (se_principal env))) (\<lambda>found.
          pbind (attempt found) (\<lambda>s.
          pbind (title_first_message env s created prompt) (\<lambda>titled.
          pbind (enqueue_run env titled prompt t) (\<lambda>run.
          pbind (remember_request env key hash run t) (\<lambda>_.
            preturn (Accepted (r_id run) sid created)))))))))"

text \<open>What remains after the unit of work: activation of a new session, and dispatch.\<close>

definition finish_submit :: "submit_env \<Rightarrow> uuid \<Rightarrow> uuid \<Rightarrow> bool \<Rightarrow> uuid service" where
  "finish_submit env i sid created = pbind (if created then session_activate env sid else preturn ()) (\<lambda>_.
     pbind (dispatch env i) (\<lambda>_. preturn i))"

definition submit ::
    "submit_env \<Rightarrow> string \<Rightarrow> uuid option \<Rightarrow> string option \<Rightarrow> (world, error, uuid) prog" where
  "submit env prompt session_id key w =
     (if py_strip prompt = [] then (Inl (ValueError ''prompt must not be empty''), w)
      else case pbind now (\<lambda>t. pbind (unit_of_work (submit_body env prompt session_id key t)) (\<lambda>out.
          case out of
            Replayed i \<Rightarrow> preturn i
          | Accepted i sid created \<Rightarrow> finish_submit env i sid created)) w of
          (Inl (Existing_idempotent_run i), w') \<Rightarrow> (Inr i, w')
        | (Inl (Raised e), w') \<Rightarrow> (Inl e, w')
        | (Inr i, w') \<Rightarrow> (Inr i, w'))"

subsection \<open>What submission may do to the stores\<close>

definition world_ok :: "world \<Rightarrow> bool" where
  "world_ok w \<longleftrightarrow> session_repo_ok (w_sessions w) \<and> run_repo_ok (w_runs w) \<and> event_repo_ok (w_events w)
     \<and> checkpoint_inv (w_checkpoints w)"

definition runs_kept :: "run_repo \<Rightarrow> run_repo \<Rightarrow> bool" where
  "runs_kept R R' \<longleftrightarrow> (\<forall>i r. dget (rr_runs R) i = Some r \<longrightarrow>
     (\<exists>r'. dget (rr_runs R') i = Some r' \<and> run_evolves r r'))"

definition world_evolves :: "world \<Rightarrow> world \<Rightarrow> bool" where
  "world_evolves w w' \<longleftrightarrow> (world_ok w \<longrightarrow> world_ok w') \<and> log_grows (w_events w) (w_events w')
     \<and> runs_kept (w_runs w) (w_runs w') \<and> (\<exists>new. w_calls w' = w_calls w @ new)
     \<and> w_agents w' = w_agents w \<and> w_consents w' = w_consents w"

lemma log_grows_refl [simp]: "log_grows E E"
  by (simp add: log_grows_def)

lemma runs_kept_refl [simp]: "runs_kept R R"
  by (simp add: runs_kept_def)

lemma runs_kept_trans: "runs_kept R R' \<Longrightarrow> runs_kept R' R'' \<Longrightarrow> runs_kept R R''"
  unfolding runs_kept_def by (meson run_evolves_trans)

interpretation world: evolution world_evolves
proof
  show "world_evolves w w" for w by (simp add: world_evolves_def)
  show "world_evolves w w''" if "world_evolves w w'" "world_evolves w' w''" for w w' w''
    using that log_grows_trans runs_kept_trans unfolding world_evolves_def by (metis append.assoc)
qed

lemmas stays_basic [stays_laws] = world.stays_return world.stays_bind

lemma same_stores_evolve:
  "w_sessions w' = w_sessions w \<Longrightarrow> w_runs w' = w_runs w \<Longrightarrow> w_events w' = w_events w \<Longrightarrow>
    w_checkpoints w' = w_checkpoints w \<Longrightarrow> w_calls w' = w_calls w @ new \<Longrightarrow>
    w_agents w' = w_agents w \<Longrightarrow> w_consents w' = w_consents w \<Longrightarrow> world_evolves w w'"
  by (auto simp: world_evolves_def world_ok_def)

lemma stays_bookkeeping [stays_laws]:
  "stays world_evolves now" "stays world_evolves new_id" "stays world_evolves (on_rollback c)"
  "stays world_evolves (record_call c)"
  unfolding stays_def
  by (auto simp: now_def new_id_def on_rollback_def record_call_def intro: same_stores_evolve [where new = "[]"]
      same_stores_evolve [where new = "[c]"])

lemma stays_attempt [stays_laws]: "stays world_evolves (attempt r)"
  by (cases r) (simp_all add: attempt_def world.stays_return)

lemma stays_on_store:
  assumes "\<And>w a w'. f w = Inr (a, w') \<Longrightarrow> world_evolves w w'"
  shows "stays world_evolves (on_store f)"
  unfolding stays_def on_store_def
  using assms world.R_refl by (auto split: sum.splits prod.splits)

lemma event_append_sessions_ok:
  assumes "event_append det (E, S) e l t = Inr (env, E', S')" and "session_repo_ok S"
  shows "session_repo_ok S'"
proof -
  define S1 where "S1 = S\<lparr> sr_chat_sessions := insert (ne_session_id (erased_event E e)) (sr_chat_sessions S) \<rparr>"
  have "session_repo_ok S1" using assms(2) by (simp add: S1_def session_repo_ok_def)
  moreover have "S' = S \<or> S' = S1 \<or> (\<exists>i u. session_touch S i u = Inr S') \<or> (\<exists>i u. session_touch S1 i u = Inr S')"
    using assms(1) unfolding S1_def
    by (auto simp: event_append_def Let_def rbind_Inr_iff split: option.splits if_splits)
  ultimately show ?thesis using assms(2) by (auto intro: session_step_ok step_touch)
qed

lemma event_append_evolves:
  assumes "event_append det (w_events w, w_sessions w) e l t = Inr (env, E, S)"
  shows "world_evolves w (w\<lparr> w_events := E, w_sessions := S \<rparr>)"
proof -
  have step: "event_step (w_events w, w_sessions w) (E, S)" by (rule estep_append [OF assms])
  show ?thesis
    using event_step_ok [OF step] event_step_grows [OF step] event_append_sessions_ok [OF assms]
    by (simp add: world_evolves_def world_ok_def)
qed

lemma stays_append_event [stays_laws]: "stays world_evolves (append_event env e lease)"
  unfolding append_event_def
  by (intro stays_laws stays_on_store) (auto simp: rbind_Inr_iff intro: event_append_evolves)

lemma session_step_evolves:
  assumes "session_step (w_sessions w) S"
  shows "world_evolves w (w\<lparr> w_sessions := S \<rparr>)"
  using session_step_ok [OF assms] by (simp add: world_evolves_def world_ok_def)

lemma run_step_evolves_world:
  assumes "run_step (w_runs w) R"
  shows "world_evolves w (w\<lparr> w_runs := R \<rparr>)"
  using run_step_ok [OF assms] run_step_evolves [OF assms]
  by (auto simp: world_evolves_def world_ok_def runs_kept_def)

lemma checkpoint_step_evolves:
  assumes "checkpoint_step (w_checkpoints w) C"
  shows "world_evolves w (w\<lparr> w_checkpoints := C \<rparr>)"
  using checkpoint_inv_step [OF assms] by (simp add: world_evolves_def world_ok_def)

lemma event_repo_ok_index [simp]: "event_repo_ok (E\<lparr> er_source_index := x \<rparr>) \<longleftrightarrow> event_repo_ok E"
  by (simp add: event_repo_ok_def all_events_def stream_def)

lemma log_grows_index: "log_grows E E' \<Longrightarrow> log_grows E (E'\<lparr> er_source_index := x \<rparr>)"
  by (simp add: log_grows_def stream_def)

lemma stays_unit_of_work [stays_laws]:
  assumes "stays world_evolves body"
  shows "stays world_evolves (unit_of_work body)"
  unfolding stays_def
proof
  fix w :: world
  define w0 where "w0 = w\<lparr> w_depth := Suc (w_depth w), w_rollbacks := [] \<rparr>"
  obtain r w1 where run: "body w0 = (r, w1)" by (cases "body w0")
  have "world_evolves w w0" by (rule same_stores_evolve [where new = "[]"]) (simp_all add: w0_def)
  moreover have "world_evolves w0 w1" using assms run by (metis snd_conv stays_def)
  ultimately have "world_evolves w w1" by (rule world.R_trans)
  then show "world_evolves w (snd (unit_of_work body w))"
    using run by (auto simp: unit_of_work_def w0_def world_evolves_def world_ok_def log_grows_index
        split: sum.splits)
qed

lemmas stays_control [stays_laws] = stays_if stays_case_option stays_case_prod

lemma stays_create_in [stays_laws]: "stays world_evolves (create_in env)"
  unfolding create_in_def bootstrap_session_def Let_def
  by (intro stays_laws stays_on_store)
    (auto simp: rbind_Inr_iff intro: session_step_evolves step_create)

lemma stays_seed_checkpoint [stays_laws]: "stays world_evolves (seed_checkpoint env run n lease owner)"
  unfolding seed_checkpoint_def Let_def
  by (intro stays_laws stays_on_store)
    (auto simp: rbind_Inr_iff intro: checkpoint_step_evolves cstep_write)

lemma stays_run_now [stays_laws]: "stays world_evolves (run_now env i)"
  unfolding run_now_def
  by (cases "se_execute env i")
    (simp_all, (intro stays_laws world.stays_modify same_stores_evolve [where new = "[]"]; simp)+)

lemma stays_dispatch [stays_laws]: "stays world_evolves (dispatch env i)"
  unfolding dispatch_def
  by (intro stays_laws world.stays_modify same_stores_evolve [where new = "[]"]) simp_all

lemma stays_activate [stays_laws]: "stays world_evolves (session_activate env sid)"
  unfolding session_activate_def by (intro stays_laws)

lemma stays_title [stays_laws]: "stays world_evolves (title_first_message env s created prompt)"
  unfolding title_first_message_def
  by (intro stays_laws stays_on_store) (auto simp: rbind_Inr_iff intro: session_step_evolves step_set_title)

lemma stays_find_replay [stays_laws]: "stays world_evolves (find_replay env key hash)"
  unfolding find_replay_def by (intro stays_laws)

lemma stays_remember [stays_laws]: "stays world_evolves (remember_request env key hash run t)"
  unfolding remember_request_def
  by (intro stays_laws stays_on_store) (auto simp: rbind_Inr_iff intro: same_stores_evolve [where new = "[]"])

lemma new_run_valid: "deadline_matches_limits (new_run env i s limits consent t) = Inr (new_run env i s limits consent t)"
  by (simp add: deadline_matches_limits_def new_run_def)

lemma attempt_new_run [simp]:
  "attempt (deadline_matches_limits (new_run env i s limits consent t)) = preturn (new_run env i s limits consent t)"
  by (simp add: attempt_def new_run_valid)

lemma stays_enqueue [stays_laws]: "stays world_evolves (enqueue_run env s prompt t)"
  unfolding enqueue_run_def attempt_new_run pbind_return
  by (intro stays_laws stays_on_store)
    (auto simp: rbind_Inr_iff intro!: run_step_evolves_world intro: rstep_seed rstep_create [OF new_run_valid])

lemma stays_submit_body [stays_laws]: "stays world_evolves (submit_body env prompt sid key t)"
  unfolding submit_body_def Let_def by (intro stays_laws)

subsection \<open>What an accepted submission stores\<close>

lemma on_store_Inr [simp]: "on_store f w = (Inr a, w') \<longleftrightarrow> f w = Inr (a, w')"
  by (auto simp: on_store_def split: sum.splits)

lemma attempt_Inr [simp]: "attempt r w = (Inr a, w') \<longleftrightarrow> r = Inr a \<and> w' = w"
  by (cases r) (auto simp: attempt_def)

lemma event_append_plain:
  assumes "event_append det (E, S) e l t = Inr (env, E', S')" and "ne_derivation_key e = None"
  shows "env = envelope_of (erased_event E e) (er_next_id E) (int (length (stream E (ne_session_id e))) + 1) t"
    and "stream E' sid = stream E sid @ (if sid = ne_session_id e then [env] else [])"
proof -
  have same: "ne_session_id (erased_event E e) = ne_session_id e" "ne_derivation_key (erased_event E e) = None"
    using assms(2) by (simp_all add: erased_event_def)
  show "env = envelope_of (erased_event E e) (er_next_id E) (int (length (stream E (ne_session_id e))) + 1) t"
    using assms(1) same by (auto simp: event_append_def Let_def rbind_Inr_iff split: option.splits if_splits)
  show "stream E' sid = stream E sid @ (if sid = ne_session_id e then [env] else [])"
    using event_append_effect [OF assms(1)] assms(2) by (auto simp: log_extended_def)
qed

text \<open>An appended event as it can be read back.\<close>

definition logged :: "new_event \<Rightarrow> event_envelope \<Rightarrow> bool" where
  "logged e env \<longleftrightarrow> ev_session_id env = ne_session_id e \<and> ev_run_id env = ne_run_id e
     \<and> ev_event_type env = ne_event_type e \<and> ev_actor_type env = ne_actor_type e
     \<and> ev_actor_id env = ne_actor_id e
     \<and> (ne_event_type e \<in> ORIGINAL_EVENTS \<longrightarrow> ev_payload env = ne_payload e)"

lemma append_event_effect:
  assumes "append_event env e lease w = (Inr envelope, w')" and "ne_derivation_key e = None"
  shows "\<exists>E S. w' = w\<lparr> w_ticks := Suc (w_ticks w), w_events := E, w_sessions := S \<rparr>
     \<and> (\<forall>sid. stream E sid = stream (w_events w) sid @ (if sid = ne_session_id e then [envelope] else []))
     \<and> ev_sequence envelope = int (length (stream (w_events w) (ne_session_id e))) + 1
     \<and> logged e envelope \<and> (event_repo_ok (w_events w) \<longrightarrow> event_repo_ok E)"
proof -
  obtain E S where app: "event_append (se_detectors env) (w_events w, w_sessions w) e lease (w_clock w (w_ticks w))
      = Inr (envelope, E, S)" and w': "w' = w\<lparr> w_ticks := Suc (w_ticks w), w_events := E, w_sessions := S \<rparr>"
    using assms(1) by (auto simp: append_event_def pbind_Inr_iff now_def rbind_Inr_iff)
  note facts = event_append_plain [OF app assms(2)]
  have "logged e envelope"
    using facts(1) by (auto simp: logged_def envelope_of_def erased_event_def)
  moreover have "ev_sequence envelope = int (length (stream (w_events w) (ne_session_id e))) + 1"
    using facts(1) by (simp add: envelope_of_def)
  moreover have "event_repo_ok (w_events w) \<longrightarrow> event_repo_ok E"
    using event_step_ok [OF estep_append [OF app]] by blast
  ultimately show ?thesis using w' facts(2) by blast
qed

lemma plain_event_simps [simp]:
  "ne_derivation_key (plain_event sid i ty a b d) = None" "ne_session_id (plain_event sid i ty a b d) = sid"
  "ne_run_id (plain_event sid i ty a b d) = i" "ne_event_type (plain_event sid i ty a b d) = ty"
  "ne_actor_type (plain_event sid i ty a b d) = a" "ne_actor_id (plain_event sid i ty a b d) = b"
  "ne_payload (plain_event sid i ty a b d) = d"
  by (simp_all add: plain_event_def)

lemma seed_checkpoint_effect:
  assumes seed: "seed_checkpoint env run (Some n) None owner w = (Inr ck, w')" and ok: "event_repo_ok (w_events w)"
    and n: "0 \<le> n" "n \<le> int (length (stream (w_events w) (r_session_id run)))"
  shows "\<exists>envelope E S C. w' = w\<lparr> w_ticks := w_ticks w + 2, w_events := E, w_sessions := S, w_checkpoints := C \<rparr>
     \<and> (\<forall>sid. stream E sid = stream (w_events w) sid @ (if sid = r_session_id run then [envelope] else []))
     \<and> ev_sequence envelope = int (length (stream (w_events w) (r_session_id run))) + 1
     \<and> ev_event_type envelope = ''run.checkpointed'' \<and> ev_run_id envelope = Some (r_id run)
     \<and> checkpoint_write (w_checkpoints w) (r_id run) ck True None = Inr (1, C)
     \<and> ck_run_id ck = r_id run \<and> ck_version ck = 1 \<and> ck_status ck = r_status run
     \<and> ck_last_event_sequence ck = ev_sequence envelope
     \<and> project_items (se_adapters env) (take (nat n) (stream (w_events w) (r_session_id run))) = Inr (ck_conversation ck)"
proof -
  obtain history state recall_work envelope w1 v C where
      history: "history_read (se_adapters env) (w_events w) (r_session_id run) (Some n) = Inr history"
    and app: "append_event env (checkpointed_event env run recall_work None) None (w\<lparr> w_ticks := Suc (w_ticks w) \<rparr>)
      = (Inr envelope, w1)"
    and ck: "ck = (first_checkpoint env run history (carried_state state) recall_work (w_clock w (w_ticks w)))
      \<lparr> ck_last_event_sequence := ev_sequence envelope \<rparr>"
    and stored: "checkpoint_write (w_checkpoints w1) (r_id run) ck True None = Inr (v, C)"
    and w': "w' = w1\<lparr> w_checkpoints := C \<rparr>"
    using seed by (auto simp: seed_checkpoint_def Let_def pbind_Inr_iff now_def rbind_Inr_iff)
  obtain E S where w1: "w1 = w\<lparr> w_ticks := w_ticks w + 2, w_events := E, w_sessions := S \<rparr>"
      and app': "\<forall>sid. stream E sid = stream (w_events w) sid @ (if sid = r_session_id run then [envelope] else [])"
      "ev_sequence envelope = int (length (stream (w_events w) (r_session_id run))) + 1"
      "logged (checkpointed_event env run recall_work None) envelope"
    using append_event_effect [OF app] by (auto simp: checkpointed_event_def)
  have items: "project_items (se_adapters env) (take (nat n) (stream (w_events w) (r_session_id run))) = Inr (ck_conversation ck)"
    using history_read_prefix [OF ok n history] by (simp add: ck first_checkpoint_def)
  have "v = 1" using stored by (auto simp: checkpoint_write_def ck first_checkpoint_def Let_def split: if_splits)
  then show ?thesis
    using w' w1 app' items stored
    by (intro exI [of _ envelope] exI [of _ E] exI [of _ S] exI [of _ C])
      (auto simp: logged_def checkpointed_event_def ck first_checkpoint_def)
qed

text \<open>
  The stores after a run was queued: the run with its seed sequence, three events at the end of the
  session's stream, and the first checkpoint.
\<close>

definition queued_run :: "submit_env \<Rightarrow> world \<Rightarrow> run \<Rightarrow> string \<Rightarrow> world \<Rightarrow> bool" where
  "queued_run env w run prompt w' \<longleftrightarrow> (\<exists>user queued saved ck u.
     (\<forall>sid. stream (w_events w') sid = stream (w_events w) sid
        @ (if sid = r_session_id run then [user, queued, saved] else []))
     \<and> map ev_sequence [user, queued, saved]
         = map (\<lambda>k. int (length (stream (w_events w) (r_session_id run))) + k) [1, 2, 3]
     \<and> map ev_event_type [user, queued, saved] = [''user.message.created'', ''run.queued'', ''run.checkpointed'']
     \<and> map ev_run_id [user, queued, saved] = replicate 3 (Some (r_id run))
     \<and> ev_payload user = [(''content'', JStr prompt)]
     \<and> dget (rr_runs (w_runs w)) (r_id run) = None
     \<and> (\<forall>i. dget (rr_runs (w_runs w')) i = (if i = r_id run
           then Some (run\<lparr> r_seed_event_sequence := ev_sequence user, r_updated_at := u \<rparr>)
           else dget (rr_runs (w_runs w)) i))
     \<and> (\<forall>i. chain (w_checkpoints w') i = (if i = r_id run then [(ck, True)] else chain (w_checkpoints w) i))
     \<and> ck_run_id ck = r_id run \<and> ck_version ck = 1 \<and> ck_status ck = Run_QUEUED
     \<and> ck_last_event_sequence ck = ev_sequence saved
     \<and> project_items (se_adapters env) (stream (w_events w) (r_session_id run) @ [user]) = Inr (ck_conversation ck))"

lemma first_checkpoint_written:
  assumes "checkpoint_write C i ck True None = Inr (1, C')" and "checkpoint_inv C"
    and "ck_version ck = 1" and "ck_status ck = Run_QUEUED"
  shows "chain C' j = (if j = i then [(ck, True)] else chain C j)"
proof -
  have not_erased: "\<not> dhas (cr_people_erased C) i" and version: "expected_version (chain C i) = 1"
    and C': "C' = C\<lparr> cr_checkpoints := dset i (chain C i @ [(ck, True)]) (cr_checkpoints C) \<rparr>"
    using assms by (auto simp: checkpoint_write_def Let_def TERMINAL_RUN_STATUSES_def split: if_splits)
  have "chain C i = []"
  proof (rule ccontr)
    assume ne: "chain C i \<noteq> []"
    obtain v where v: "1 \<le> v" "\<forall>k < length (chain C i). ck_version (fst (chain C i ! k)) = v + int k"
      using assms(2) by (auto simp: checkpoint_inv_def chain_ok_def)
    then have "1 \<le> ck_version (fst (last (chain C i)))" using ne by (simp add: last_conv_nth)
    then show False using version ne by (simp add: expected_version_def)
  qed
  then show ?thesis by (simp add: C')
qed

lemma enqueue_run_effect:
  assumes enq: "enqueue_run env s prompt t w = (Inr run, w')" and ok: "world_ok w"
  shows "queued_run env w run prompt w' \<and> r_session_id run = s_id s \<and> r_status run = Run_QUEUED
     \<and> r_kind run = INTERACTIVE \<and> r_tenant_id run = s_tenant_id s \<and> r_id run = w_ids w (w_ids_used w)
     \<and> r_principal_scopes run = scopes (se_principal env) \<and> r_created_at run = t
     \<and> (\<exists>agent. agent_get_version (w_agents w) (s_agent_id s) (s_agent_version s) = Inr agent
          \<and> run_limits_for_session (se_validate_limits env) agent s = Inr (r_limits run))
     \<and> \<not> (\<exists>c \<in> set (dvals (rr_runs (w_runs w))). r_session_id c = s_id s \<and> run_active c)
     \<and> w_calls w' = w_calls w \<and> w_depth w' = w_depth w \<and> w_dispatched w' = w_dispatched w
     \<and> w_rollbacks w' = w_rollbacks w \<and> w_idempotency w' = w_idempotency w"
proof -
  obtain agent limits consent R1 user w2 R2 queued w3 ck where
      agent: "agent_get_version (w_agents w) (s_agent_id s) (s_agent_version s) = Inr agent"
      "run_limits_for_session (se_validate_limits env) agent s = Inr limits"
    and run: "run = new_run env (w_ids w (w_ids_used w)) s limits consent t"
    and R1: "run_create (w_runs w) run = Inr R1"
    and user: "append_event env (user_message_event env run prompt) None
      (w\<lparr> w_ids_used := Suc (w_ids_used w), w_runs := R1 \<rparr>) = (Inr user, w2)"
    and R2: "set_seed_event_sequence (w_runs w2) (r_id run) (ev_sequence user) (w_clock w2 (w_ticks w2)) = Inr R2"
    and queued: "append_event env (run_queued_event run) None
      (w2\<lparr> w_ticks := Suc (w_ticks w2), w_runs := R2 \<rparr>) = (Inr queued, w3)"
    and seed: "seed_checkpoint env run (Some (ev_sequence user)) None (se_principal env) w3 = (Inr ck, w')"
    using enq unfolding enqueue_run_def attempt_new_run pbind_return
    by (auto simp: pbind_Inr_iff now_def new_id_def rbind_Inr_iff)
  define st where "st = stream (w_events w) (s_id s)"
  have sid: "r_session_id run = s_id s" "r_status run = Run_QUEUED" by (simp_all add: run new_run_def)
  define w1 where "w1 = w\<lparr> w_ids_used := Suc (w_ids_used w), w_runs := R1 \<rparr>"
  have ok1: "event_repo_ok (w_events w)" and w1_events: "w_events w1 = w_events w"
    using ok by (simp_all add: world_ok_def w1_def)
  obtain E2 S2 where w2: "w2 = w1\<lparr> w_ticks := Suc (w_ticks w1), w_events := E2, w_sessions := S2 \<rparr>"
      and E2: "\<And>i. stream E2 i = stream (w_events w) i @ (if i = s_id s then [user] else [])"
      "ev_sequence user = int (length st) + 1" "logged (user_message_event env run prompt) user" "event_repo_ok E2"
    using append_event_effect [OF user [folded w1_def]] ok1 sid
    by (auto simp: user_message_event_def st_def w1_events)
  define v2 where "v2 = w2\<lparr> w_ticks := Suc (w_ticks w2), w_runs := R2 \<rparr>"
  have v2_events: "w_events v2 = E2" by (simp add: v2_def w2)
  obtain E3 S3 where w3: "w3 = v2\<lparr> w_ticks := Suc (w_ticks v2), w_events := E3, w_sessions := S3 \<rparr>"
      and E3: "\<And>i. stream E3 i = stream E2 i @ (if i = s_id s then [queued] else [])"
      "ev_sequence queued = int (length st) + 2" "logged (run_queued_event run) queued" "event_repo_ok E3"
    using append_event_effect [OF queued [folded v2_def]] E2(4) sid E2(1)
    by (auto simp: run_queued_event_def st_def v2_events)
  have w3_fields: "w_events w3 = E3" "w_checkpoints w3 = w_checkpoints w"
    by (simp_all add: w3 v2_def w2 w1_def)
  have len: "length (stream E3 (s_id s)) = length st + 2" by (simp add: E3(1) E2(1) st_def)
  have bound: "0 \<le> ev_sequence user" "ev_sequence user \<le> int (length (stream (w_events w3) (r_session_id run)))"
    and ok3: "event_repo_ok (w_events w3)"
    using E2(2) E3(4) len by (simp_all add: w3_fields sid)
  obtain saved E4 S4 C where w': "w' = w3\<lparr> w_ticks := w_ticks w3 + 2, w_events := E4, w_sessions := S4, w_checkpoints := C \<rparr>"
      and streams: "\<forall>i. stream E4 i = stream (w_events w3) i @ (if i = r_session_id run then [saved] else [])"
      and saved: "ev_sequence saved = int (length (stream (w_events w3) (r_session_id run))) + 1"
        "ev_event_type saved = ''run.checkpointed''" "ev_run_id saved = Some (r_id run)"
      and written: "checkpoint_write (w_checkpoints w3) (r_id run) ck True None = Inr (1, C)"
      and ck: "ck_run_id ck = r_id run" "ck_version ck = 1" "ck_status ck = r_status run"
        "ck_last_event_sequence ck = ev_sequence saved"
      and items: "project_items (se_adapters env) (take (nat (ev_sequence user)) (stream (w_events w3) (r_session_id run)))
        = Inr (ck_conversation ck)"
    using seed_checkpoint_effect [OF seed ok3 bound] by blast
  have E4: "\<And>i. stream E4 i = stream E3 i @ (if i = s_id s then [saved] else [])"
      "ev_sequence saved = int (length st) + 3"
    using streams saved(1) len by (simp_all add: w3_fields sid)
  have C: "checkpoint_write (w_checkpoints w) (r_id run) ck True None = Inr (1, C)" and status: "ck_status ck = Run_QUEUED"
    using written ck(3) by (simp_all add: w3_fields sid)
  have prefix: "project_items (se_adapters env) (stream (w_events w) (r_session_id run) @ [user]) = Inr (ck_conversation ck)"
    using items by (simp add: E3(1) E2(1,2) st_def sid w3_fields nat_add_distrib)
  have fresh: "dget (rr_runs (w_runs w)) (r_id run) = None"
      "\<not> (\<exists>c \<in> set (dvals (rr_runs (w_runs w))). r_session_id c = s_id s \<and> run_active c)"
      "rr_runs R1 = dset (r_id run) run (rr_runs (w_runs w))"
    using R1 sid by (auto simp: run_create_def dhas_iff run_active_def TERMINAL_RUN_STATUSES_def split: if_splits)
  have runs: "\<exists>u. \<forall>i. dget (rr_runs R2) i = (if i = r_id run
      then Some (run\<lparr> r_seed_event_sequence := ev_sequence user, r_updated_at := u \<rparr>) else dget (rr_runs (w_runs w)) i)"
  proof -
    have "w_runs w2 = R1" by (simp add: w2 w1_def)
    then have "rr_runs R2 = dset (r_id run) (run\<lparr> r_seed_event_sequence := ev_sequence user,
        r_updated_at := w_clock w2 (w_ticks w2) \<rparr>) (rr_runs R1)"
      using R2 fresh(3) by (simp add: set_seed_event_sequence_def dlookup_def split: if_splits) auto
    then show ?thesis by (intro exI [of _ "w_clock w2 (w_ticks w2)"]) (simp add: fresh(3))
  qed
  have chain: "chain C i = (if i = r_id run then [(ck, True)] else chain (w_checkpoints w) i)" for i
    using ok by (intro first_checkpoint_written [OF C _ ck(2) status]) (simp add: world_ok_def)
  have "queued_run env w run prompt w'"
    unfolding queued_run_def
  proof (rule exI [of _ user], rule exI [of _ queued], rule exI [of _ saved], rule exI [of _ ck])
    obtain u where u: "\<forall>i. dget (rr_runs R2) i = (if i = r_id run
        then Some (run\<lparr> r_seed_event_sequence := ev_sequence user, r_updated_at := u \<rparr>) else dget (rr_runs (w_runs w)) i)"
      using runs by blast
    have after: "w_events w' = E4" "w_runs w' = R2" "w_checkpoints w' = C" by (simp_all add: w' w3 v2_def)
    show "\<exists>u. (\<forall>i. stream (w_events w') i = stream (w_events w) i @ (if i = r_session_id run then [user, queued, saved] else []))
        \<and> map ev_sequence [user, queued, saved] = map (\<lambda>k. int (length (stream (w_events w) (r_session_id run))) + k) [1, 2, 3]
        \<and> map ev_event_type [user, queued, saved] = [''user.message.created'', ''run.queued'', ''run.checkpointed'']
        \<and> map ev_run_id [user, queued, saved] = replicate 3 (Some (r_id run))
        \<and> ev_payload user = [(''content'', JStr prompt)]
        \<and> dget (rr_runs (w_runs w)) (r_id run) = None
        \<and> (\<forall>i. dget (rr_runs (w_runs w')) i = (if i = r_id run
              then Some (run\<lparr> r_seed_event_sequence := ev_sequence user, r_updated_at := u \<rparr>)
              else dget (rr_runs (w_runs w)) i))
        \<and> (\<forall>i. chain (w_checkpoints w') i = (if i = r_id run then [(ck, True)] else chain (w_checkpoints w) i))
        \<and> ck_run_id ck = r_id run \<and> ck_version ck = 1 \<and> ck_status ck = Run_QUEUED
        \<and> ck_last_event_sequence ck = ev_sequence saved
        \<and> project_items (se_adapters env) (stream (w_events w) (r_session_id run) @ [user]) = Inr (ck_conversation ck)"
      using u chain ck(1,2,4) status fresh(1) prefix E4 E3(1-3) E2(1-3) saved(2,3)
      by (intro exI [of _ u]) (simp add: after sid st_def logged_def user_message_event_def run_queued_event_def
          ORIGINAL_EVENTS_def numeral_3_eq_3)
  qed
  then show ?thesis
    using agent fresh(2) sid by (simp add: w' w3 v2_def w2 w1_def) (simp add: run new_run_def)
qed

lemma unit_of_work_Inr:
  assumes "unit_of_work body w = (Inr a, w')"
  obtains w1 where "body (w\<lparr> w_depth := Suc (w_depth w), w_rollbacks := [] \<rparr>) = (Inr a, w1)"
    and "w' = w1\<lparr> w_rollbacks := [], w_depth := w_depth w \<rparr>"
  using assms by (auto simp: unit_of_work_def split: prod.splits sum.splits)

lemma set_title_identity:
  assumes "set_title_if_missing R i p title = Inr (s', R')" and "session_get R i p = Inr s"
  shows "same_identity s s' \<and> s_metadata s' = s_metadata s"
proof -
  have "dget (sr_sessions R) i = Some s" using assms(2) by (auto simp: session_get_def rbind_Inr_iff)
  then show ?thesis
    using assms(1)
    by (auto simp: set_title_if_missing_def dlookup_def Let_def same_identity_def session_owner_def
        split: option.splits if_splits)
qed

lemma title_cases:
  assumes "title_first_message env s created prompt w = (Inr s', w')"
  shows "(s' = s \<and> w' = w) \<or> (\<exists>title S. set_title_if_missing (w_sessions w) (s_id s) (se_principal env) title
      = Inr (s', S) \<and> w' = w\<lparr> w_sessions := S \<rparr>)"
proof (cases "s_title s = None")
  case True
  define ask where "ask = (if created then preturn True
    else pbind (pget (\<lambda>w. latest_for_session (w_sessions w) (w_runs w) (s_id s) (se_principal env))) (\<lambda>r.
      pbind (attempt r) (\<lambda>newest. preturn (newest = None))))"
  define rest where "rest = (\<lambda>first. case (if first then conversation_title prompt else None) of
      None \<Rightarrow> preturn s
    | Some title \<Rightarrow> on_store (\<lambda>w. rbind (set_title_if_missing (w_sessions w) (s_id s) (se_principal env) title)
        (\<lambda>(s', S). Inr (s', w\<lparr> w_sessions := S \<rparr>))))"
  have "title_first_message env s created prompt = pbind ask rest"
    using True by (simp add: title_first_message_def ask_def rest_def)
  then obtain first w1 where steps: "ask w = (Inr first, w1)" "rest first w1 = (Inr s', w')"
    using assms by (auto simp: pbind_Inr_iff)
  have "w1 = w" using steps(1) by (auto simp: ask_def pbind_Inr_iff split: if_splits)
  then show ?thesis using steps(2) by (auto simp: rest_def rbind_Inr_iff split: option.splits)
qed (use assms in \<open>simp add: title_first_message_def\<close>)

lemma title_effect:
  assumes "title_first_message env s created prompt w = (Inr s', w')"
    and "session_get (w_sessions w) (s_id s) (se_principal env) = Inr s"
  shows "(\<exists>S. w' = w\<lparr> w_sessions := S \<rparr>) \<and> same_identity s s' \<and> s_metadata s' = s_metadata s"
  using title_cases [OF assms(1)]
proof
  assume "s' = s \<and> w' = w"
  then show ?thesis by (auto simp: same_identity_def intro: exI [of _ "w_sessions w"])
next
  assume "\<exists>title S. set_title_if_missing (w_sessions w) (s_id s) (se_principal env) title
      = Inr (s', S) \<and> w' = w\<lparr> w_sessions := S \<rparr>"
  then show ?thesis using set_title_identity [OF _ assms(2)] by blast
qed

definition idem_key :: "submit_env \<Rightarrow> string \<Rightarrow> string \<times> string \<times> string" where
  "idem_key env k = (tenant_id (se_principal env), principal_id (se_principal env), k)"

lemma find_replay_cases:
  assumes "find_replay env key hash w = (Inr out, w')"
  shows "(\<exists>n. w' = w\<lparr> w_ticks := n \<rparr>)
    \<and> (\<forall>i. out = Some i \<longrightarrow> (\<exists>k r. key = Some k \<and> dget (w_idempotency w) (idem_key env k) = Some r
          \<and> ir_run_id r = i \<and> ir_request_hash r = hash))"
  using assms
  by (auto simp: find_replay_def pbind_Inr_iff now_def idempotency_get_def idem_key_def
      split: option.splits if_splits intro: exI [of _ "w_ticks w"])

lemma remember_effect:
  assumes "remember_request env key hash run t w = (Inr (), w')"
  shows "\<exists>n I. w' = w\<lparr> w_ticks := n, w_idempotency := I \<rparr>
    \<and> (\<forall>k. key = Some k \<longrightarrow> (\<exists>r. dget I (idem_key env k) = Some r \<and> ir_run_id r = r_id run \<and> ir_request_hash r = hash))"
proof (cases key)
  case None
  then show ?thesis using assms
    by (intro exI [of _ "w_ticks w"] exI [of _ "w_idempotency w"]) (simp add: remember_request_def)
next
  case (Some k)
  define rec where "rec = \<lparr> ir_key = k, ir_tenant_id = tenant_id (se_principal env),
    ir_principal_id = principal_id (se_principal env), ir_request_hash = hash, ir_run_id = r_id run,
    ir_created_at = t, ir_expires_at = t + hours_24 \<rparr>"
  obtain r I where I: "idempotency_create (w_idempotency w) (w_clock w (w_ticks w)) rec = Inr (r, I)"
      "w' = w\<lparr> w_ticks := Suc (w_ticks w), w_idempotency := I \<rparr>" "ir_run_id r = r_id run"
    using assms Some by (auto simp: remember_request_def pbind_Inr_iff now_def rbind_Inr_iff rec_def split: if_splits)
  have "scoped_key rec = idem_key env k" "ir_request_hash rec = hash"
    by (simp_all add: scoped_key_def idem_key_def rec_def)
  then have "dget I (idem_key env k) = Some r \<and> ir_request_hash r = hash"
    using idempotency_create_result [OF I(1)] by simp
  then show ?thesis using I Some by blast
qed

text \<open>The stores just before a run is queued: as found, or with a new session and its first event.\<close>

definition session_ready :: "uuid option \<Rightarrow> world \<Rightarrow> uuid \<Rightarrow> world \<Rightarrow> bool" where
  "session_ready requested w sid w0 \<longleftrightarrow> w_runs w0 = w_runs w \<and> w_checkpoints w0 = w_checkpoints w
     \<and> w_agents w0 = w_agents w
     \<and> (case requested of
          Some x \<Rightarrow> x = sid \<and> w_events w0 = w_events w
        | None \<Rightarrow> dget (sr_sessions (w_sessions w)) sid = None
            \<and> (\<exists>created. ev_event_type created = ''session.created'' \<and> ev_run_id created = None
                 \<and> (\<forall>i. stream (w_events w0) i = stream (w_events w) i @ (if i = sid then [created] else []))))"

lemma create_in_effect:
  assumes create: "create_in env w = (Inr sid, w')" and ok: "event_repo_ok (w_events w)"
  shows "session_ready None w sid w' \<and> w_idempotency w' = w_idempotency w
    \<and> w_depth w' = w_depth w \<and> w_dispatched w' = w_dispatched w"
proof -
  obtain catalog w1 t S created where boot: "bootstrap_session env (w\<lparr> w_ticks := Suc (w_ticks w) \<rparr>) = (Inr (sid, catalog), w1)"
    and S: "session_create (w_sessions w1) (new_session env sid t) = Inr S"
    and app: "append_event env (session_created_event env (new_session env sid t) catalog) None (w1\<lparr> w_sessions := S \<rparr>) = (Inr created, w')"
    using create by (auto simp: create_in_def pbind_Inr_iff now_def rbind_Inr_iff Let_def new_session_def)
  have w1: "w_runs w1 = w_runs w" "w_checkpoints w1 = w_checkpoints w" "w_idempotency w1 = w_idempotency w"
      "w_depth w1 = w_depth w" "w_dispatched w1 = w_dispatched w" "w_events w1 = w_events w" "w_agents w1 = w_agents w"
      "w_sessions w1 = w_sessions w"
    using boot by (auto simp: bootstrap_session_def pbind_Inr_iff new_id_def on_rollback_def record_call_def
        split: if_splits option.splits)
  define v where "v = w1\<lparr> w_sessions := S \<rparr>"
  have e: "ne_derivation_key (session_created_event env (new_session env sid t) catalog) = None"
      "ne_session_id (session_created_event env (new_session env sid t) catalog) = sid"
      "ne_event_type (session_created_event env (new_session env sid t) catalog) = ''session.created''"
      "ne_run_id (session_created_event env (new_session env sid t) catalog) = None"
    by (simp_all add: session_created_event_def new_session_def plain_event_def)
  obtain E S' where w': "w' = v\<lparr> w_ticks := Suc (w_ticks v), w_events := E, w_sessions := S' \<rparr>"
      "\<forall>i. stream E i = stream (w_events v) i @ (if i = sid then [created] else [])"
      "logged (session_created_event env (new_session env sid t) catalog) created"
    using append_event_effect [OF app [folded v_def] e(1)] unfolding e(2) by blast
  have "dget (sr_sessions (w_sessions w)) sid = None"
    using S w1(8) by (simp add: session_create_def dhas_iff new_session_def split: if_splits)
  moreover have "ev_event_type created = ''session.created''" "ev_run_id created = None"
    using w'(3) e(3,4) by (simp_all add: logged_def)
  ultimately show ?thesis
    using w1 w'(2) unfolding session_ready_def by (auto simp: w'(1) v_def)
qed

definition run_as_submitted :: "submit_env \<Rightarrow> world \<Rightarrow> uuid \<Rightarrow> uuid \<Rightarrow> run \<Rightarrow> bool" where
  "run_as_submitted env w i sid run \<longleftrightarrow> r_id run = i \<and> r_session_id run = sid \<and> r_status run = Run_QUEUED
     \<and> r_kind run = INTERACTIVE \<and> r_tenant_id run = tenant_id (se_principal env)
     \<and> r_principal_scopes run = scopes (se_principal env)
     \<and> (\<exists>agent s. dget (ar_agents (w_agents w)) (r_agent_id run, r_agent_version run) = Some agent
          \<and> run_limits_for_session (se_validate_limits env) agent s = Inr (r_limits run))
     \<and> \<not> (\<exists>c \<in> set (dvals (rr_runs (w_runs w))). r_session_id c = sid \<and> run_active c)"

lemma stays_world_ok: "stays world_evolves m \<Longrightarrow> m w = (r, w') \<Longrightarrow> world_ok w \<Longrightarrow> world_ok w'"
  by (drule (1) staysD) (simp add: world_evolves_def)

lemma session_get_id:
  assumes "session_get S i p = Inr s" and "session_repo_ok S"
  shows "s_id s = i" and "s_tenant_id s = tenant_id p"
  using assms by (auto simp: session_get_def rbind_Inr_iff session_repo_ok_def dest: keyed_dget)

lemma enqueue_agent:
  assumes "enqueue_run env s prompt t w = (Inr run, w')"
  shows "r_agent_id run = s_agent_id s \<and> r_agent_version run = s_agent_version s"
  using assms unfolding enqueue_run_def attempt_new_run pbind_return
  by (auto simp: pbind_Inr_iff now_def new_id_def rbind_Inr_iff new_run_def)

lemma session_step_ready:
  assumes "case requested of None \<Rightarrow> create_in env w = (Inr sid, w1) | Some x \<Rightarrow> sid = x \<and> w1 = w"
    and ok: "world_ok w"
  shows "world_ok w1 \<and> session_ready requested w sid w1 \<and> w_idempotency w1 = w_idempotency w
    \<and> w_depth w1 = w_depth w \<and> w_dispatched w1 = w_dispatched w"
proof (cases requested)
  case None
  then have made: "create_in env w = (Inr sid, w1)" using assms(1) by simp
  have "world_ok w1" by (rule stays_world_ok [OF stays_create_in made ok])
  moreover have "event_repo_ok (w_events w)" using ok by (simp add: world_ok_def)
  ultimately show ?thesis using create_in_effect [OF made] None by simp
next
  case (Some x)
  then show ?thesis using assms by (simp add: session_ready_def)
qed

lemma submit_body_accepted:
  assumes body: "submit_body env prompt requested key t w = (Inr (Accepted i sid created), w')" and ok: "world_ok w"
  shows "\<exists>w0 run. session_ready requested w sid w0 \<and> queued_run env w0 run prompt w'
    \<and> run_as_submitted env w i sid run \<and> created = (requested = None)
    \<and> w_depth w' = w_depth w \<and> w_dispatched w' = w_dispatched w
    \<and> (\<forall>k. key = Some k \<longrightarrow> (\<exists>r. dget (w_idempotency w') (idem_key env k) = Some r \<and> ir_run_id r = i
         \<and> ir_request_hash r = request_hash env requested prompt))"
proof -
  define hash where "hash = request_hash env requested prompt"
  obtain wa wb s titled wc run wd where
      replay: "find_replay env key hash w = (Inr None, wa)"
    and start: "case requested of None \<Rightarrow> create_in env wa = (Inr sid, wb) | Some x \<Rightarrow> sid = x \<and> wb = wa"
    and s: "session_get (w_sessions wb) sid (se_principal env) = Inr s"
    and titled: "title_first_message env s created prompt wb = (Inr titled, wc)"
    and enq: "enqueue_run env titled prompt t wc = (Inr run, wd)"
    and mem: "remember_request env key hash run t wd = (Inr (), w')"
    and out: "created = (requested = None)" "r_id run = i"
    using body unfolding submit_body_def Let_def hash_def [symmetric]
    by (auto simp: pbind_Inr_iff split: option.splits)
  obtain n where wa: "wa = w\<lparr> w_ticks := n \<rparr>" using find_replay_cases [OF replay] by blast
  have ok_a: "world_ok wa" using ok by (simp add: wa world_ok_def)
  note ready = session_step_ready [OF start ok_a]
  have ok_s: "session_repo_ok (w_sessions wb)" using ready by (simp add: world_ok_def)
  have sid: "s_id s = sid" "s_tenant_id s = tenant_id (se_principal env)" using session_get_id [OF s ok_s] by simp_all
  obtain S where wc: "wc = wb\<lparr> w_sessions := S \<rparr>" and same: "same_identity s titled"
    using title_effect [OF titled] s sid by auto
  have ok_c: "world_ok wc" by (rule stays_world_ok [OF stays_title titled]) (use ready in simp)
  have eff: "queued_run env wc run prompt wd" "r_session_id run = sid" "r_status run = Run_QUEUED" "r_kind run = INTERACTIVE"
      "r_tenant_id run = tenant_id (se_principal env)" "r_principal_scopes run = scopes (se_principal env)"
      "\<exists>agent. agent_get_version (w_agents wc) (r_agent_id run) (r_agent_version run) = Inr agent
          \<and> run_limits_for_session (se_validate_limits env) agent titled = Inr (r_limits run)"
      "\<not> (\<exists>c \<in> set (dvals (rr_runs (w_runs wc))). r_session_id c = sid \<and> run_active c)"
      "w_depth wd = w_depth wc" "w_dispatched wd = w_dispatched wc"
    using enqueue_run_effect [OF enq ok_c] enqueue_agent [OF enq] same sid
    by (auto simp: same_identity_def session_owner_def)
  obtain m I where w': "w' = wd\<lparr> w_ticks := m, w_idempotency := I \<rparr>"
      and idem: "\<forall>k. key = Some k \<longrightarrow> (\<exists>r. dget I (idem_key env k) = Some r \<and> ir_run_id r = r_id run \<and> ir_request_hash r = hash)"
    using remember_effect [OF mem] by blast
  have "session_ready requested w sid wc"
    using ready by (cases requested) (auto simp: session_ready_def wc wa)
  moreover have "queued_run env wc run prompt w'" using eff(1) by (simp add: queued_run_def w')
  moreover have "run_as_submitted env w i sid run"
    using eff(2-8) out ready
    by (auto simp: run_as_submitted_def agent_get_version_def wc wa session_ready_def)
  ultimately show ?thesis
    using out idem eff(9,10) ready by (intro exI [of _ wc] exI [of _ run]) (simp add: w' wc wa hash_def)
qed

subsection \<open>Exceptions and the idempotency store\<close>

abbreviation ordinary :: "submit_exn \<Rightarrow> bool" where
  "ordinary e \<equiv> \<exists>x. e = Raised x"

lemma raises_calls [raises_laws]:
  "raises ordinary now" "raises ordinary new_id" "raises ordinary (attempt r)"
  "raises ordinary (record_call c)" "raises ordinary (on_rollback c)" "raises ordinary (on_store f)"
  by (auto simp: raises_def now_def new_id_def attempt_def record_call_def on_rollback_def on_store_def
      split: sum.splits prod.splits)

lemma raises_programs [raises_laws]:
  "raises ordinary (append_event env e l)" "raises ordinary (find_replay env key hash)"
  "raises ordinary (title_first_message env s created prompt)" "raises ordinary (session_activate env sid)"
  unfolding append_event_def find_replay_def title_first_message_def session_activate_def
  by (intro raises_laws; simp)+

lemma raises_create_in [raises_laws]: "raises ordinary (create_in env)"
  unfolding create_in_def bootstrap_session_def Let_def by (intro raises_laws)

lemma raises_seed [raises_laws]: "raises ordinary (seed_checkpoint env run n l owner)"
  unfolding seed_checkpoint_def Let_def by (intro raises_laws)

lemma raises_enqueue [raises_laws]: "raises ordinary (enqueue_run env s prompt t)"
  unfolding enqueue_run_def by (intro raises_laws)

lemma raises_run_now [raises_laws]: "raises ordinary (run_now env i)"
  unfolding run_now_def by (cases "se_execute env i") (simp_all, (intro raises_laws; simp)+)

lemma raises_dispatch [raises_laws]: "raises ordinary (dispatch env i)"
  unfolding dispatch_def by (intro raises_laws) simp_all

abbreviation same_idempotency :: "world \<Rightarrow> world \<Rightarrow> bool" where
  "same_idempotency w w' \<equiv> w_idempotency w' = w_idempotency w"

interpretation idem: evolution same_idempotency
  by unfold_locales simp_all

lemma idem_calls:
  "stays same_idempotency now" "stays same_idempotency new_id" "stays same_idempotency (attempt r)"
  "stays same_idempotency (record_call c)" "stays same_idempotency (on_rollback c)"
  "stays same_idempotency (append_event env e l)"
  by (auto simp: stays_def now_def new_id_def attempt_def record_call_def on_rollback_def append_event_def
      on_store_def rbind_def pbind_def split: sum.splits prod.splits)

lemma idem_on_store:
  "(\<And>w a w'. f w = Inr (a, w') \<Longrightarrow> w_idempotency w' = w_idempotency w) \<Longrightarrow> stays same_idempotency (on_store f)"
  by (auto simp: stays_def on_store_def split: sum.splits prod.splits)

lemmas idem_laws = idem.stays_return idem.stays_bind idem.stays_modify idem_calls idem_on_store stays_if
  stays_case_option stays_case_prod

lemma idem_create_in: "stays same_idempotency (create_in env)"
  unfolding create_in_def bootstrap_session_def Let_def by (intro idem_laws) (auto simp: rbind_Inr_iff)

lemma idem_enqueue: "stays same_idempotency (enqueue_run env s prompt t)"
  unfolding enqueue_run_def seed_checkpoint_def Let_def by (intro idem_laws) (auto simp: rbind_Inr_iff)

lemma idem_small:
  "stays same_idempotency (find_replay env key hash)" "stays same_idempotency (title_first_message env s created prompt)"
  "stays same_idempotency (session_activate env sid)"
  unfolding find_replay_def title_first_message_def session_activate_def
  by (intro idem_laws; auto simp: rbind_Inr_iff)+

lemma idem_dispatch: "stays same_idempotency (dispatch env i)"
proof -
  have "stays same_idempotency (run_now env i)"
    unfolding run_now_def by (cases "se_execute env i") (simp_all, (intro idem_laws; simp)+)
  then show ?thesis unfolding dispatch_def by (intro idem_laws) simp_all
qed

text \<open>The exception for a concurrently remembered request comes with the record that answers it.\<close>

lemma remember_duplicate:
  assumes "remember_request env key hash run t w = (Inl e, w')"
  shows "ordinary e \<or> (\<exists>k r. key = Some k \<and> e = Existing_idempotent_run (ir_run_id r)
    \<and> dget (w_idempotency w) (idem_key env k) = Some r \<and> dget (w_idempotency w') (idem_key env k) = Some r
    \<and> ir_request_hash r = hash)"
proof (cases key)
  case None
  then show ?thesis using assms by (simp add: remember_request_def)
next
  case (Some k)
  define rec where "rec = \<lparr> ir_key = k, ir_tenant_id = tenant_id (se_principal env),
    ir_principal_id = principal_id (se_principal env), ir_request_hash = hash, ir_run_id = r_id run,
    ir_created_at = t, ir_expires_at = t + hours_24 \<rparr>"
  have rec: "scoped_key rec = idem_key env k" "ir_request_hash rec = hash" "ir_run_id rec = r_id run"
    by (simp_all add: scoped_key_def idem_key_def rec_def)
  define made where "made = idempotency_create (w_idempotency w) (w_clock w (w_ticks w)) rec"
  have run: "remember_request env key hash run t w = (case made of
      Inl x \<Rightarrow> (Inl (Raised x), w\<lparr> w_ticks := Suc (w_ticks w) \<rparr>)
    | Inr (r, I) \<Rightarrow> if ir_run_id r \<noteq> r_id run
        then (Inl (Existing_idempotent_run (ir_run_id r)), w\<lparr> w_ticks := Suc (w_ticks w), w_idempotency := I \<rparr>)
        else (Inr (), w\<lparr> w_ticks := Suc (w_ticks w), w_idempotency := I \<rparr>))"
    by (simp add: remember_request_def Some made_def rec_def pbind_def now_def on_store_def rbind_def
        split: sum.splits prod.splits)
  show ?thesis
  proof (cases made)
    case (Inl x)
    then show ?thesis using run assms by simp
  next
    case (Inr p)
    obtain r I where p: "p = (r, I)" by (cases p)
    have made_eq: "idempotency_create (w_idempotency w) (w_clock w (w_ticks w)) rec = Inr (r, I)"
      using Inr p by (simp add: made_def)
    have dup: "ir_run_id r \<noteq> r_id run" "e = Existing_idempotent_run (ir_run_id r)"
        "w' = w\<lparr> w_ticks := Suc (w_ticks w), w_idempotency := I \<rparr>"
      using run assms Inr p by (auto split: if_splits)
    have "dget I (idem_key env k) = Some r \<and> ir_request_hash r = hash"
      using idempotency_create_result [OF made_eq] rec by simp
    moreover have "dget (w_idempotency w) (idem_key env k) = Some r"
      using made_eq dup(1) rec by (auto simp: idempotency_create_def Let_def split: option.splits if_splits)
    ultimately show ?thesis using dup Some by auto
  qed
qed

lemma duplicate_later:
  assumes "pbind m f w = (Inl (Existing_idempotent_run i), w')" and "raises ordinary m" and "stays same_idempotency m"
  obtains a w1 where "w_idempotency w1 = w_idempotency w" and "f a w1 = (Inl (Existing_idempotent_run i), w')"
proof -
  have "m w \<noteq> (Inl (Existing_idempotent_run i), w')" using assms(2) by (auto simp: raises_def)
  then obtain a w1 where "m w = (Inr a, w1)" "f a w1 = (Inl (Existing_idempotent_run i), w')"
    using assms(1) by (auto simp: pbind_def split: prod.splits sum.splits)
  then show thesis using that staysD [OF assms(3)] by blast
qed

lemma submit_body_duplicate:
  assumes body: "submit_body env prompt requested key t w = (Inl (Existing_idempotent_run i), w')"
  shows "\<exists>k r. key = Some k \<and> dget (w_idempotency w) (idem_key env k) = Some r
    \<and> dget (w_idempotency w') (idem_key env k) = Some r \<and> ir_run_id r = i
    \<and> ir_request_hash r = request_hash env requested prompt"
proof -
  define hash where "hash = request_hash env requested prompt"
  define start where "start = (case requested of None \<Rightarrow> create_in env | Some sid \<Rightarrow> preturn sid)"
  have start: "raises ordinary start" "stays same_idempotency start"
    by (simp_all add: start_def raises_create_in idem_create_in raises_basic idem.stays_return split: option.splits)
  obtain replay w1 where 1: "w_idempotency w1 = w_idempotency w"
      "(case replay of Some i \<Rightarrow> preturn (Replayed i) | None \<Rightarrow>
          pbind start (\<lambda>sid.
          pbind (pget (\<lambda>w. session_get (w_sessions w) sid (se_principal env))) (\<lambda>found.
          pbind (attempt found) (\<lambda>s.
          pbind (title_first_message env s (requested = None) prompt) (\<lambda>titled.
          pbind (enqueue_run env titled prompt t) (\<lambda>run.
          pbind (remember_request env key hash run t) (\<lambda>_.
            preturn (Accepted (r_id run) sid (requested = None)))))))))
       w1 = (Inl (Existing_idempotent_run i), w')"
    using body unfolding submit_body_def Let_def hash_def [symmetric] start_def [symmetric]
    by (elim duplicate_later) (auto intro: raises_programs idem_small)
  from 1(2) have none: "replay = None" by (cases replay) simp_all
  obtain sid w2 where 2: "w_idempotency w2 = w_idempotency w1"
      "pbind (pget (\<lambda>w. session_get (w_sessions w) sid (se_principal env))) (\<lambda>found.
          pbind (attempt found) (\<lambda>s.
          pbind (title_first_message env s (requested = None) prompt) (\<lambda>titled.
          pbind (enqueue_run env titled prompt t) (\<lambda>run.
          pbind (remember_request env key hash run t) (\<lambda>_.
            preturn (Accepted (r_id run) sid (requested = None))))))) w2 = (Inl (Existing_idempotent_run i), w')"
    using 1(2) none start by (auto elim: duplicate_later)
  obtain s w3 where 3: "w_idempotency w3 = w_idempotency w2"
      "pbind (title_first_message env s (requested = None) prompt) (\<lambda>titled.
          pbind (enqueue_run env titled prompt t) (\<lambda>run.
          pbind (remember_request env key hash run t) (\<lambda>_.
            preturn (Accepted (r_id run) sid (requested = None))))) w3 = (Inl (Existing_idempotent_run i), w')"
    using 2(2) by (auto elim: duplicate_later intro: raises_calls idem_calls)
  obtain titled v where v: "w_idempotency v = w_idempotency w3"
      "pbind (enqueue_run env titled prompt t) (\<lambda>run.
          pbind (remember_request env key hash run t) (\<lambda>_.
            preturn (Accepted (r_id run) sid (requested = None)))) v = (Inl (Existing_idempotent_run i), w')"
    by (rule duplicate_later [OF 3(2) raises_programs(3) idem_small(2)])
  obtain run w4 where 4: "w_idempotency w4 = w_idempotency v"
      "pbind (remember_request env key hash run t) (\<lambda>_. preturn (Accepted (r_id run) sid (requested = None))) w4
        = (Inl (Existing_idempotent_run i), w')"
    by (rule duplicate_later [OF v(2) raises_enqueue idem_enqueue])
  then have "remember_request env key hash run t w4 = (Inl (Existing_idempotent_run i), w')"
    by (auto simp: pbind_def split: prod.splits sum.splits)
  then show ?thesis
    using remember_duplicate 1(1) 2(1) 3(1) v(1) 4(1) by (fastforce simp: hash_def)
qed

subsection \<open>Properties\<close>

definition same_stores :: "world \<Rightarrow> world \<Rightarrow> bool" where
  "same_stores w w' \<longleftrightarrow> w_events w' = w_events w \<and> w_runs w' = w_runs w \<and> w_checkpoints w' = w_checkpoints w
     \<and> w_idempotency w' = w_idempotency w \<and> w_sessions w' = w_sessions w \<and> w_agents w' = w_agents w
     \<and> w_consents w' = w_consents w"

lemma dispatch_effect:
  assumes "dispatch env i w = (Inr (), w')"
  shows "same_stores w w' \<and> w_depth w = 0 \<and> i \<in> w_dispatched w'
    \<and> (se_delay_before env = None \<and> i \<notin> w_dispatched w \<longrightarrow> w_calls w' = w_calls w @ [Execute_now i])"
proof -
  have depth: "w_depth w = 0" using assms by (auto simp: dispatch_def split: if_splits)
  show ?thesis
  proof (cases "i \<in> w_dispatched w")
    case True
    then have "w' = w" using assms depth by (simp add: dispatch_def)
    then show ?thesis using True depth by (simp add: same_stores_def)
  next
    case False
    then show ?thesis using assms depth
      by (auto simp: dispatch_def run_now_def record_call_def pbind_Inr_iff same_stores_def
          split: option.splits if_splits sum.splits)
  qed
qed

lemma finish_effect:
  assumes "finish_submit env i sid created w = (Inr j, w')"
  shows "j = i \<and> same_stores w w' \<and> i \<in> w_dispatched w'
    \<and> (se_delay_before env = None \<and> i \<notin> w_dispatched w \<longrightarrow> (\<exists>before. w_calls w' = before @ [Execute_now i]))"
proof -
  obtain w1 where act: "(if created then session_activate env sid else preturn ()) w = (Inr (), w1)"
      and disp: "dispatch env i w1 = (Inr (), w')" and j: "j = i"
    using assms by (auto simp: finish_submit_def pbind_Inr_iff)
  have "\<exists>calls. w1 = w\<lparr> w_calls := calls \<rparr>"
    using act by (auto simp: session_activate_def record_call_def pbind_Inr_iff intro: exI [of _ "w_calls w"]
        split: if_splits option.splits)
  then obtain calls where w1: "w1 = w\<lparr> w_calls := calls \<rparr>" by blast
  then show ?thesis using dispatch_effect [OF disp] j by (auto simp: same_stores_def)
qed

lemma submit_eq: "py_strip prompt \<noteq> [] \<Longrightarrow> submit env prompt requested key w =
    (case pbind (unit_of_work (submit_body env prompt requested key (w_clock w (w_ticks w)))) (\<lambda>out. case out of
         Replayed i \<Rightarrow> preturn i | Accepted i sid created \<Rightarrow> finish_submit env i sid created)
       (w\<lparr> w_ticks := Suc (w_ticks w) \<rparr>) of
       (Inl (Existing_idempotent_run i), w') \<Rightarrow> (Inr i, w')
     | (Inl (Raised e), w') \<Rightarrow> (Inl e, w')
     | (Inr i, w') \<Rightarrow> (Inr i, w'))"
  by (simp add: submit_def pbind_def now_def)

lemma stays_finish [stays_laws]: "stays world_evolves (finish_submit env i sid created)"
  unfolding finish_submit_def by (intro stays_laws)

lemma raises_finish: "raises ordinary (finish_submit env i sid created)"
  unfolding finish_submit_def by (intro raises_laws)

lemma submit_Inr_cases:
  assumes sub: "submit env prompt requested key w = (Inr i, w')"
  obtains (replayed) "py_strip prompt \<noteq> []"
      "unit_of_work (submit_body env prompt requested key (w_clock w (w_ticks w))) (w\<lparr> w_ticks := Suc (w_ticks w) \<rparr>)
        = (Inr (Replayed i), w')"
    | (accepted) sid created w1 where "py_strip prompt \<noteq> []"
      "unit_of_work (submit_body env prompt requested key (w_clock w (w_ticks w))) (w\<lparr> w_ticks := Suc (w_ticks w) \<rparr>)
        = (Inr (Accepted i sid created), w1)" "finish_submit env i sid created w1 = (Inr i, w')"
    | (duplicate) "py_strip prompt \<noteq> []"
      "unit_of_work (submit_body env prompt requested key (w_clock w (w_ticks w))) (w\<lparr> w_ticks := Suc (w_ticks w) \<rparr>)
        = (Inl (Existing_idempotent_run i), w')"
proof -
  have text_ok: "py_strip prompt \<noteq> []" using sub by (auto simp: submit_def split: if_splits)
  obtain r w1 where uow: "unit_of_work (submit_body env prompt requested key (w_clock w (w_ticks w)))
      (w\<lparr> w_ticks := Suc (w_ticks w) \<rparr>) = (r, w1)" by (meson surj_pair)
  show thesis
  proof (cases r)
    case (Inl e)
    then show thesis using duplicate text_ok sub uow
      by (cases e) (simp_all add: submit_eq [OF text_ok])
  next
    case (Inr out)
    show thesis
    proof (cases out)
      case (Replayed j)
      then show thesis using replayed text_ok sub uow Inr by (simp add: submit_eq [OF text_ok])
    next
      case (Accepted j sid created)
      obtain q w2 where fin: "finish_submit env j sid created w1 = (q, w2)" by (meson surj_pair)
      have good: "q = Inr i \<and> w2 = w'"
        using sub uow Inr Accepted fin raises_finish [of env j sid created]
        by (auto simp: submit_eq [OF text_ok] raises_def split: sum.splits submit_exn.splits)
      then have "j = i" using finish_effect fin by blast
      then show thesis using accepted text_ok uow Inr Accepted fin good by simp
    qed
  qed
qed

lemma submit_evolves:
  assumes "submit env prompt requested key w = (r, w')"
  shows "world_evolves w w'"
proof -
  define m where "m = pbind now (\<lambda>t. pbind (unit_of_work (submit_body env prompt requested key t)) (\<lambda>out.
      case out of Replayed i \<Rightarrow> preturn i | Accepted i sid created \<Rightarrow> finish_submit env i sid created))"
  have "stays world_evolves (case out of Replayed i \<Rightarrow> preturn i
      | Accepted i sid created \<Rightarrow> finish_submit env i sid created)" for out
    by (cases out) (simp_all add: stays_finish world.stays_return)
  then have "stays world_evolves m" unfolding m_def by (intro stays_laws)
  then have "world_evolves w (snd (m w))" by (simp add: stays_def)
  moreover have "w' = w \<or> w' = snd (m w)"
    using assms unfolding submit_def m_def [symmetric]
    by (auto split: if_splits prod.splits sum.splits submit_exn.splits)
  ultimately show ?thesis using world.R_refl by auto
qed

text \<open>
  Submission is safe on every branch. Whether a submission returns or raises, and at whatever
  call it raises, the stores stay consistent (session, run, event-log and checkpoint invariants, so
  at most one active run per session), the event log only grew at its end, every run stored before
  is still stored with the same identity and a status reached along the run diagram, and agents and
  export consents are untouched.
\<close>

theorem submission_keeps_stores:
  assumes "submit env prompt requested key w = (r, w')" and "world_ok w"
  shows "world_ok w' \<and> log_grows (w_events w) (w_events w') \<and> runs_kept (w_runs w) (w_runs w')
    \<and> w_agents w' = w_agents w \<and> w_consents w' = w_consents w"
  using submit_evolves [OF assms(1)] assms(2) by (simp add: world_evolves_def)

text \<open>
  C18. An accepted submission queues exactly one run. Unless the idempotency key is already taken, a
  submission that returns an identifier stored exactly one new run under it: queued, interactive,
  owned by the caller, with the caller's scopes and the limits of a stored agent version, in a
  session that had no active run; the session's log gained the user's message, the queued and the
  checkpointed event, in this order and with consecutive numbers (after a session-created event if
  the session is new); the run's seed sequence is the number of the user's message; the run's only
  checkpoint has version 1, points at the last of the three events and holds the projection of the
  log up to the user's message; the request is remembered under its key; and the run was handed to
  the dispatcher after the unit of work, as the last outside call.
\<close>

theorem submission_queues_run:
  assumes "submit env prompt requested key w = (Inr i, w')" and "world_ok w"
    and "\<forall>k. key = Some k \<longrightarrow> dget (w_idempotency w) (idem_key env k) = None"
  shows "\<exists>sid w0 run. session_ready requested w sid w0 \<and> queued_run env w0 run prompt w'
    \<and> run_as_submitted env w i sid run \<and> i \<in> w_dispatched w'
    \<and> (\<forall>k. key = Some k \<longrightarrow> (\<exists>r. dget (w_idempotency w') (idem_key env k) = Some r \<and> ir_run_id r = i
         \<and> ir_request_hash r = request_hash env requested prompt))
    \<and> (se_delay_before env = None \<and> i \<notin> w_dispatched w \<longrightarrow> (\<exists>before. w_calls w' = before @ [Execute_now i]))"
  using assms(1)
proof (cases rule: submit_Inr_cases)
  case replayed
  then show ?thesis
    using assms(3) by (auto elim!: unit_of_work_Inr simp: submit_body_def Let_def pbind_Inr_iff
        split: option.splits dest!: find_replay_cases)
next
  case duplicate
  then obtain w2 where "submit_body env prompt requested key (w_clock w (w_ticks w))
      (w\<lparr> w_ticks := Suc (w_ticks w), w_depth := Suc (w_depth w), w_rollbacks := [] \<rparr>)
        = (Inl (Existing_idempotent_run i), w2)"
    by (auto simp: unit_of_work_def split: prod.splits sum.splits)
  then show ?thesis using submit_body_duplicate assms(3) by fastforce
next
  case (accepted sid created w1)
  define start where "start = w\<lparr> w_ticks := Suc (w_ticks w), w_depth := Suc (w_depth w), w_rollbacks := [] \<rparr>"
  obtain w2 where body: "submit_body env prompt requested key (w_clock w (w_ticks w)) start
        = (Inr (Accepted i sid created), w2)" and w1: "w1 = w2\<lparr> w_rollbacks := [], w_depth := w_depth w \<rparr>"
    using accepted(2) by (auto elim!: unit_of_work_Inr simp: start_def)
  have "world_ok start" using assms(2) by (simp add: start_def world_ok_def)
  then obtain w0 run where ready: "session_ready requested start sid w0" and queued: "queued_run env w0 run prompt w2"
      and run: "run_as_submitted env start i sid run" "w_dispatched w2 = w_dispatched start"
      and idem: "\<forall>k. key = Some k \<longrightarrow> (\<exists>r. dget (w_idempotency w2) (idem_key env k) = Some r \<and> ir_run_id r = i
         \<and> ir_request_hash r = request_hash env requested prompt)"
    using submit_body_accepted [OF body] by blast
  note fin = finish_effect [OF accepted(3)]
  have "session_ready requested w sid w0"
    using ready by (cases requested) (simp_all add: session_ready_def start_def)
  moreover have "run_as_submitted env w i sid run"
    using run(1) by (simp add: run_as_submitted_def start_def)
  moreover have "queued_run env w0 run prompt w'"
    using queued fin by (simp add: queued_run_def same_stores_def w1)
  moreover have "w_idempotency w' = w_idempotency w2" "w_dispatched w1 = w_dispatched w"
    using fin run(2) by (simp_all add: same_stores_def w1 start_def)
  ultimately show ?thesis using fin idem by auto
qed


lemma find_replay_fresh:
  assumes "\<forall>k. key = Some k \<longrightarrow> dget (w_idempotency w) (idem_key env k) = None"
  shows "\<exists>n. find_replay env key hash w = (Inr None, w\<lparr> w_ticks := n \<rparr>)"
proof (cases key)
  case None
  then show ?thesis by (intro exI [of _ "w_ticks w"]) (simp add: find_replay_def)
next
  case (Some k)
  then show ?thesis using assms
    by (intro exI [of _ "Suc (w_ticks w)"]) (simp add: find_replay_def pbind_def now_def idempotency_get_def idem_key_def)
qed

text \<open>
  A session with an active run accepts no further submission: the owner's request fails with a
  conflict, and no store changes, nothing is dispatched and no outside call is made. In particular
  neither a run nor an event nor an idempotency record is left behind, so the same key can be used
  again once the active run has ended.
\<close>

theorem active_run_refuses_submission:
  assumes "py_strip prompt \<noteq> []" and "world_ok w"
    and "session_get (w_sessions w) sid (se_principal env) = Inr s"
    and "\<forall>k. key = Some k \<longrightarrow> dget (w_idempotency w) (idem_key env k) = None"
    and "agent_get_version (w_agents w) (s_agent_id s) (s_agent_version s) = Inr agent"
    and "run_limits_for_session (se_validate_limits env) agent s = Inr limits"
    and "dget (rr_runs (w_runs w)) (w_ids w (w_ids_used w)) = None"
    and "c \<in> set (dvals (rr_runs (w_runs w)))" and "r_session_id c = sid" and "run_active c"
  shows "\<exists>w'. submit env prompt (Some sid) key w
      = (Inl (ConflictError ''session already has an active run'' None), w')
    \<and> same_stores w w' \<and> w_calls w' = w_calls w \<and> w_dispatched w' = w_dispatched w"
proof -
  define start where "start = w\<lparr> w_ticks := Suc (w_ticks w), w_depth := Suc (w_depth w), w_rollbacks := [] \<rparr>"
  have key: "\<forall>k. key = Some k \<longrightarrow> dget (w_idempotency start) (idem_key env k) = None"
    using assms(4) by (simp add: start_def)
  obtain n where replay: "find_replay env key (request_hash env (Some sid) prompt) start = (Inr None, start\<lparr> w_ticks := n \<rparr>)"
    using find_replay_fresh [OF key] by blast
  define v where "v = start\<lparr> w_ticks := n \<rparr>"
  have id: "s_id s = sid" using session_get_id(1) [OF assms(3)] assms(2) by (simp add: world_ok_def)
  have "filter (\<lambda>r. r_session_id r = sid) (dvals (rr_runs (w_runs w))) \<noteq> []"
    using assms(8,9) by (auto simp: filter_empty_conv)
  then obtain newest where "max_by run_recency (filter (\<lambda>r. r_session_id r = sid) (dvals (rr_runs (w_runs w)))) = Some newest"
    by (metis max_by_None_iff option.exhaust)
  then have "latest_for_session (w_sessions v) (w_runs v) (s_id s) (se_principal env) = Inr (Some newest)"
    using assms(3) id by (simp add: latest_for_session_def v_def start_def)
  then have title: "title_first_message env s False prompt v = (Inr s, v)"
    by (simp add: title_first_message_def pbind_def attempt_def)
  define run where "run = new_run env (w_ids w (w_ids_used w)) s limits
    (consent_get (w_consents w) (tenant_id (se_principal env)) (principal_id (se_principal env))) (w_clock w (w_ticks w))"
  have "run_create (w_runs w) run = Inl (ConflictError ''session already has an active run'' None)"
    using assms(7-10) id
    by (auto simp: run_create_def run_def new_run_def dhas_iff run_active_def TERMINAL_RUN_STATUSES_def)
  then have enq: "enqueue_run env s prompt (w_clock w (w_ticks w)) v
      = (Inl (Raised (ConflictError ''session already has an active run'' None)), v\<lparr> w_ids_used := Suc (w_ids_used v) \<rparr>)"
    using assms(5,6) unfolding enqueue_run_def attempt_new_run pbind_return
    by (simp add: pbind_def attempt_def new_id_def on_store_def v_def start_def run_def)
  have "submit_body env prompt (Some sid) key (w_clock w (w_ticks w)) start
      = (Inl (Raised (ConflictError ''session already has an active run'' None)), v\<lparr> w_ids_used := Suc (w_ids_used v) \<rparr>)"
    using replay assms(3) title enq
    by (simp add: submit_body_def Let_def pbind_def v_def [symmetric] attempt_def) (simp add: v_def start_def)
  then show ?thesis
    by (auto simp: submit_eq [OF assms(1)] unit_of_work_def pbind_def start_def v_def same_stores_def)
qed

subsection \<open>Requests that are accepted\<close>

lemma event_append_succeeds:
  assumes "dget (sr_sessions S) (ne_session_id e) = Some s" and "ne_derivation_key e = None"
  shows "\<exists>env E' S'. event_append det (E, S) e None t = Inr (env, E', S')
    \<and> (\<forall>i. map_option session_owner (dget (sr_sessions S') i) = map_option session_owner (dget (sr_sessions S) i))"
proof -
  have same: "ne_session_id (erased_event E e) = ne_session_id e" "ne_derivation_key (erased_event E e) = None"
    using assms(2) by (simp_all add: erased_event_def)
  show ?thesis
    using assms(1) same
    by (auto simp: event_append_def session_touch_def dlookup_def Let_def session_owner_def)
qed

lemma append_event_succeeds:
  assumes "dget (sr_sessions (w_sessions w)) (ne_session_id e) = Some s" and "ne_derivation_key e = None"
  shows "\<exists>envelope w'. append_event env e None w = (Inr envelope, w')
    \<and> (\<forall>i. map_option session_owner (dget (sr_sessions (w_sessions w')) i)
          = map_option session_owner (dget (sr_sessions (w_sessions w)) i))"
proof -
  obtain envelope E S where "event_append (se_detectors env) (w_events w, w_sessions w) e None (w_clock w (w_ticks w))
      = Inr (envelope, E, S)" "\<forall>i. map_option session_owner (dget (sr_sessions S) i)
        = map_option session_owner (dget (sr_sessions (w_sessions w)) i)"
    using event_append_succeeds [OF assms] by metis
  then show ?thesis by (simp add: append_event_def pbind_def now_def on_store_def)
qed

lemma session_owned_cong:
  assumes "\<forall>i. map_option session_owner (dget (sr_sessions S') i) = map_option session_owner (dget (sr_sessions S) i)"
  shows "is_ok (session_get S' i p) \<longleftrightarrow> is_ok (session_get S i p)"
  using spec [OF assms, of i]
  by (auto simp: session_scope.getter_eq map_option_case split: option.splits if_splits)

lemma owned_session_stored: "is_ok (session_get S i p) \<Longrightarrow> \<exists>s. dget (sr_sessions S) i = Some s"
  by (auto simp: session_get_def is_ok_iff rbind_Inr_iff)

lemma project_items_append:
  "project_items ad (xs @ ys) = rbind (project_items ad xs) (\<lambda>us. rbind (project_items ad ys) (\<lambda>vs. Inr (us @ vs)))"
  by (induction xs) (auto simp: rbind_def split: sum.splits)

lemma history_succeeds:
  assumes ok: "event_repo_ok E" and items: "project_items ad (stream E sid) = Inr us" and n: "0 \<le> n"
  shows "is_ok (history_catch_up ad E sid)" and "is_ok (history_read ad E sid (Some n))"
proof -
  have "project_items ad (take (nat n) (stream E sid) @ drop (nat n) (stream E sid)) = Inr us" using items by simp
  then obtain vs where "project_items ad (take (nat n) (stream E sid)) = Inr vs"
    unfolding project_items_append by (auto simp: rbind_Inr_iff)
  then show "is_ok (history_catch_up ad E sid)" "is_ok (history_read ad E sid (Some n))"
    using items by (simp_all add: history_catch_up_def history_read_def history_project_def raw_list_0 [OF ok]
        stream_upto [OF ok n] Let_def)
qed

text \<open>What the first checkpoint needs besides the log: total validators and a run without checkpoints.\<close>

definition seedable :: "submit_env \<Rightarrow> checkpoint_repo \<Rightarrow> uuid \<Rightarrow> bool" where
  "seedable env C i \<longleftrightarrow> \<not> dhas (cr_people_erased C) i \<and> chain C i = []
     \<and> (\<forall>d. is_ok (se_validate_state env d)) \<and> (\<forall>j. is_ok (se_validate_recall env j))"

lemma seed_checkpoint_succeeds:
  assumes ok: "event_repo_ok (w_events w)"
    and items: "project_items (se_adapters env) (stream (w_events w) (r_session_id run)) = Inr us"
    and n: "0 \<le> n" and owned: "is_ok (session_get (w_sessions w) (r_session_id run) owner)"
    and seedable: "seedable env (w_checkpoints w) (r_id run)"
  shows "\<exists>ck w'. seed_checkpoint env run (Some n) None owner w = (Inr ck, w')"
proof -
  obtain latest history where h: "history_catch_up (se_adapters env) (w_events w) (r_session_id run) = Inr latest"
      "history_read (se_adapters env) (w_events w) (r_session_id run) (Some n) = Inr history"
    using history_succeeds [OF ok items n] by (auto simp: is_ok_iff)
  obtain s0 where s0: "session_get (w_sessions w) (r_session_id run) owner = Inr s0" using owned by (auto simp: is_ok_iff)
  then obtain event reservation where e: "latest_before (w_events w, w_sessions w) (r_session_id run) (n + 1)
        ''context.working_state.updated'' owner None = Inr event"
      "latest_before (w_events w, w_sessions w) (r_session_id run) (sh_through_sequence latest + 1)
        ''run.checkpointed'' owner (Some (r_id run)) = Inr reservation"
    by (simp add: latest_before_def)
  have "is_ok (seed_working_state env event)" "is_ok (seed_recall_work env reservation)"
    using seedable
    by (auto simp: seedable_def seed_working_state_def seed_recall_work_def is_ok_iff rbind_Inr_iff
        split: option.splits json.splits)
  then obtain state recall_work where v: "seed_working_state env event = Inr state" "seed_recall_work env reservation = Inr recall_work"
    by (auto simp: is_ok_iff)
  define v1 where "v1 = w\<lparr> w_ticks := Suc (w_ticks w) \<rparr>"
  obtain stored where "dget (sr_sessions (w_sessions v1)) (ne_session_id (checkpointed_event env run recall_work None)) = Some stored"
    using owned_session_stored [OF owned] by (auto simp: checkpointed_event_def v1_def)
  then obtain envelope w2 where app: "append_event env (checkpointed_event env run recall_work None) None v1 = (Inr envelope, w2)"
    using append_event_succeeds by (metis checkpointed_event_def plain_event_simps(1))
  have "w_checkpoints w2 = w_checkpoints w"
    using append_event_effect [OF app] by (auto simp: checkpointed_event_def v1_def)
  then show ?thesis
    using h e v app seedable
    by (simp add: seed_checkpoint_def Let_def pbind_def attempt_def now_def v1_def [symmetric] on_store_def
        checkpoint_write_def seedable_def expected_version_def first_checkpoint_def)
qed

lemma project_user_message:
  assumes "logged (user_message_event env run prompt) user"
  shows "\<exists>us. conversation_items ad user = Inr us"
  using assms by (simp add: logged_def user_message_event_def conversation_items_def ORIGINAL_EVENTS_def)

lemma project_run_queued:
  assumes "logged (run_queued_event run) queued"
  shows "conversation_items ad queued = Inr []"
  using assms
  by (simp add: logged_def run_queued_event_def conversation_items_def checkpoint_trigger_def TOOL_RESULT_EVENTS_def)

lemma enqueue_run_succeeds:
  assumes ok: "world_ok w" and owned: "is_ok (session_get (w_sessions w) (s_id s) (se_principal env))"
    and agent: "agent_get_version (w_agents w) (s_agent_id s) (s_agent_version s) = Inr agent"
      "run_limits_for_session (se_validate_limits env) agent s = Inr limits"
    and idle: "\<not> (\<exists>c \<in> set (dvals (rr_runs (w_runs w))). r_session_id c = s_id s \<and> run_active c)"
    and fresh: "dget (rr_runs (w_runs w)) (w_ids w (w_ids_used w)) = None"
    and items: "project_items (se_adapters env) (stream (w_events w) (s_id s)) = Inr us"
    and seedable: "seedable env (w_checkpoints w) (w_ids w (w_ids_used w))"
  shows "\<exists>run w'. enqueue_run env s prompt t w = (Inr run, w')"
proof -
  define run where "run = new_run env (w_ids w (w_ids_used w)) s limits
    (consent_get (w_consents w) (tenant_id (se_principal env)) (principal_id (se_principal env))) t"
  have run: "r_id run = w_ids w (w_ids_used w)" "r_session_id run = s_id s" "r_seed_event_sequence run = 0"
    by (simp_all add: run_def new_run_def)
  define R1 where "R1 = (w_runs w)\<lparr> rr_runs := dset (r_id run) run (rr_runs (w_runs w)) \<rparr>"
  have R1: "run_create (w_runs w) run = Inr R1"
    using fresh idle by (auto simp: run_create_def R1_def dhas_iff run_active_def run_def new_run_def)
  define w1 where "w1 = w\<lparr> w_ids_used := Suc (w_ids_used w), w_runs := R1 \<rparr>"
  have e1: "ne_session_id (user_message_event env run prompt) = s_id s" "ne_derivation_key (user_message_event env run prompt) = None"
    by (simp_all add: user_message_event_def run)
  obtain s1 where "dget (sr_sessions (w_sessions w1)) (ne_session_id (user_message_event env run prompt)) = Some s1"
    using owned_session_stored [OF owned] by (auto simp: e1 w1_def)
  from append_event_succeeds [OF this e1(2)] obtain user w2
    where user: "append_event env (user_message_event env run prompt) None w1 = (Inr user, w2)"
      and owners2: "\<forall>i. map_option session_owner (dget (sr_sessions (w_sessions w2)) i)
        = map_option session_owner (dget (sr_sessions (w_sessions w1)) i)" by blast
  have ok1: "event_repo_ok (w_events w1)" using ok by (simp add: world_ok_def w1_def)
  obtain E2 S2 where w2: "w2 = w1\<lparr> w_ticks := Suc (w_ticks w1), w_events := E2, w_sessions := S2 \<rparr>"
      and E2: "\<forall>i. stream E2 i = stream (w_events w1) i @ (if i = s_id s then [user] else [])"
      "logged (user_message_event env run prompt) user" "event_repo_ok E2"
      "ev_sequence user = int (length (stream (w_events w1) (s_id s))) + 1"
    using append_event_effect [OF user e1(2)] ok1 unfolding e1(1) by blast
  define R2 where "R2 = R1\<lparr> rr_runs := dset (r_id run) (run\<lparr> r_seed_event_sequence := ev_sequence user,
    r_updated_at := w_clock w2 (w_ticks w2) \<rparr>) (rr_runs R1) \<rparr>"
  have R2: "set_seed_event_sequence (w_runs w2) (r_id run) (ev_sequence user) (w_clock w2 (w_ticks w2)) = Inr R2"
    using run(3) by (simp add: w2 w1_def set_seed_event_sequence_def dlookup_def R1_def R2_def)
  define v where "v = w2\<lparr> w_ticks := Suc (w_ticks w2), w_runs := R2 \<rparr>"
  have owned2: "is_ok (session_get (w_sessions v) (s_id s) (se_principal env))"
    using session_owned_cong [OF owners2] owned by (simp add: v_def w1_def)
  have e2: "ne_session_id (run_queued_event run) = s_id s" "ne_derivation_key (run_queued_event run) = None"
    by (simp_all add: run_queued_event_def run)
  obtain s2 where "dget (sr_sessions (w_sessions v)) (ne_session_id (run_queued_event run)) = Some s2"
    using owned_session_stored [OF owned2] by (auto simp: e2)
  from append_event_succeeds [OF this e2(2)] obtain queued w3
    where queued: "append_event env (run_queued_event run) None v = (Inr queued, w3)"
      and owners3: "\<forall>i. map_option session_owner (dget (sr_sessions (w_sessions w3)) i)
        = map_option session_owner (dget (sr_sessions (w_sessions v)) i)" by blast
  have ok2: "event_repo_ok (w_events v)" using E2(3) by (simp add: v_def w2)
  obtain E3 S3 where w3: "w3 = v\<lparr> w_ticks := Suc (w_ticks v), w_events := E3, w_sessions := S3 \<rparr>"
      and E3: "\<forall>i. stream E3 i = stream (w_events v) i @ (if i = s_id s then [queued] else [])"
      "logged (run_queued_event run) queued" "event_repo_ok E3"
    using append_event_effect [OF queued e2(2)] ok2 unfolding e2(1) by blast
  have "stream (w_events w3) (r_session_id run) = stream (w_events w) (s_id s) @ [user, queued]"
    using E3(1) E2(1) by (simp add: w3 v_def w2 w1_def run)
  then obtain zs where projected: "project_items (se_adapters env) (stream (w_events w3) (r_session_id run)) = Inr zs"
    using items project_user_message [OF E2(2), of "se_adapters env"] project_run_queued [OF E3(2), of "se_adapters env"]
    by (auto simp: project_items_append)
  have "\<exists>ck w'. seed_checkpoint env run (Some (ev_sequence user)) None (se_principal env) w3 = (Inr ck, w')"
    using session_owned_cong [OF owners3] owned2 E3(3) E2(4) seedable
    by (intro seed_checkpoint_succeeds [OF _ projected]) (simp_all add: w3 v_def w2 w1_def run)
  then obtain ck w' where seed: "seed_checkpoint env run (Some (ev_sequence user)) None (se_principal env) w3 = (Inr ck, w')"
    by blast
  have "enqueue_run env s prompt t w = (Inr run, w')"
    unfolding enqueue_run_def attempt_new_run pbind_return
    using agent R1 user R2 queued seed
    by (simp add: pbind_def attempt_def new_id_def now_def on_store_def run_def [symmetric] w1_def [symmetric] v_def [symmetric])
  then show ?thesis by blast
qed

text \<open>A title made from a message is a title: normalising it again succeeds.\<close>

lemma py_words_nonempty: "acc \<noteq> [] \<Longrightarrow> py_words acc s \<noteq> []"
  by (induction acc s rule: py_words.induct) auto

lemma conversation_title_again:
  assumes "conversation_title text = Some t"
  shows "conversation_title t \<noteq> None"
proof -
  have ne: "py_split text \<noteq> []" and t: "t = take SESSION_TITLE_MAX_LENGTH (py_join '' '' (py_split text))"
    using assms by (auto simp: conversation_title_def Let_def split: if_splits)
  obtain v vs where ws: "py_split text = v # vs" using ne by (cases "py_split text") auto
  have "word_ok v" using py_split_ok ws by (metis list.set_intros(1))
  then obtain c cs where v: "v = c # cs" "\<not> py_space c" by (cases v) (auto simp: word_ok_def)
  have "\<exists>rest. py_join '' '' (py_split text) = c # rest" by (cases vs) (simp_all add: ws v(1))
  then obtain rest where "t = c # rest" by (auto simp: t SESSION_TITLE_MAX_LENGTH_def)
  then have "py_split t \<noteq> []" using v(2) by (simp add: py_split_def py_words_nonempty)
  then have "collapse t \<noteq> []" by (simp add: collapse_empty_iff)
  then show ?thesis by (simp add: conversation_title_def collapse_def Let_def)
qed

lemma title_succeeds:
  assumes s: "session_get (w_sessions w) (s_id s) (se_principal env) = Inr s"
  shows "\<exists>s' w'. title_first_message env s False prompt w = (Inr s', w')
    \<and> is_ok (session_get (w_sessions w') (s_id s) (se_principal env))"
proof -
  obtain newest where newest: "latest_for_session (w_sessions w) (w_runs w) (s_id s) (se_principal env) = Inr newest"
    using s by (simp add: latest_for_session_def)
  show ?thesis
  proof (cases "s_title s = None \<and> newest = None \<and> conversation_title prompt \<noteq> None")
    case True
    then obtain title where title: "conversation_title prompt = Some title" by blast
    obtain norm where norm: "conversation_title title = Some norm" using conversation_title_again [OF title] by blast
    have stored: "dget (sr_sessions (w_sessions w)) (s_id s) = Some s"
        "s_tenant_id s = tenant_id (se_principal env)" "s_principal_id s = principal_id (se_principal env)"
      using s by (auto simp: session_get_def rbind_Inr_iff)
    show ?thesis
      using True title norm newest stored
      by (simp add: title_first_message_def pbind_def attempt_def on_store_def set_title_if_missing_def Let_def
          session_get_def)
  next
    case False
    then have "title_first_message env s False prompt w = (Inr s, w)"
      using newest by (auto simp: title_first_message_def pbind_def attempt_def split: option.splits)
    then show ?thesis using s by simp
  qed
qed

lemma remember_fresh:
  assumes "\<forall>k. key = Some k \<longrightarrow> dget (w_idempotency w) (idem_key env k) = None"
  shows "\<exists>w'. remember_request env key hash run t w = (Inr (), w') \<and> w_depth w' = w_depth w \<and> w_dispatched w' = w_dispatched w"
  using assms
  by (cases key) (simp_all add: remember_request_def pbind_def now_def on_store_def idempotency_create_def
      scoped_key_def idem_key_def)

text \<open>A request the service has no reason to refuse.\<close>

definition acceptable :: "submit_env \<Rightarrow> string \<Rightarrow> uuid \<Rightarrow> string option \<Rightarrow> world \<Rightarrow> bool" where
  "acceptable env prompt sid key w \<longleftrightarrow> py_strip prompt \<noteq> [] \<and> w_depth w = 0
     \<and> (\<forall>k. key = Some k \<longrightarrow> dget (w_idempotency w) (idem_key env k) = None)
     \<and> (\<exists>s agent limits. session_get (w_sessions w) sid (se_principal env) = Inr s
          \<and> agent_get_version (w_agents w) (s_agent_id s) (s_agent_version s) = Inr agent
          \<and> run_limits_for_session (se_validate_limits env) agent s = Inr limits)
     \<and> \<not> (\<exists>c \<in> set (dvals (rr_runs (w_runs w))). r_session_id c = sid \<and> run_active c)
     \<and> dget (rr_runs (w_runs w)) (w_ids w (w_ids_used w)) = None
     \<and> seedable env (w_checkpoints w) (w_ids w (w_ids_used w))
     \<and> is_ok (project_items (se_adapters env) (stream (w_events w) sid))
     \<and> se_delay_before env = None \<and> se_execute env (w_ids w (w_ids_used w)) = Inr ()"

lemma run_limits_same:
  assumes "s_metadata s' = s_metadata s"
  shows "run_limits_for_session val agent s' = run_limits_for_session val agent s"
  using assms by (simp add: run_limits_for_session_def)

lemma acceptable_submit:
  assumes ok: "world_ok w" and acc: "acceptable env prompt sid key w"
  shows "\<exists>w'. submit env prompt (Some sid) key w = (Inr (w_ids w (w_ids_used w)), w')"
proof -
  obtain s agent limits us where s: "session_get (w_sessions w) sid (se_principal env) = Inr s"
      and agent: "agent_get_version (w_agents w) (s_agent_id s) (s_agent_version s) = Inr agent"
        "run_limits_for_session (se_validate_limits env) agent s = Inr limits"
      and items: "project_items (se_adapters env) (stream (w_events w) sid) = Inr us"
    using acc by (auto simp: acceptable_def is_ok_iff)
  have id: "s_id s = sid" using session_get_id(1) [OF s] ok by (simp add: world_ok_def)
  define start where "start = w\<lparr> w_ticks := Suc (w_ticks w), w_depth := Suc (w_depth w), w_rollbacks := [] \<rparr>"
  define hash where "hash = request_hash env (Some sid) prompt"
  have key: "\<forall>k. key = Some k \<longrightarrow> dget (w_idempotency start) (idem_key env k) = None"
    using acc by (simp add: acceptable_def start_def)
  obtain n where replay: "find_replay env key hash start = (Inr None, start\<lparr> w_ticks := n \<rparr>)"
    using find_replay_fresh [OF key] by blast
  define va where "va = start\<lparr> w_ticks := n \<rparr>"
  have ok_a: "world_ok va" using ok by (simp add: va_def start_def world_ok_def)
  have sa: "session_get (w_sessions va) (s_id s) (se_principal env) = Inr s" using s id by (simp add: va_def start_def)
  obtain titled vb where title: "title_first_message env s False prompt va = (Inr titled, vb)"
      and owned: "is_ok (session_get (w_sessions vb) (s_id s) (se_principal env))"
    using title_succeeds [OF sa] by blast
  obtain S where vb: "vb = va\<lparr> w_sessions := S \<rparr>" and same: "same_identity s titled" "s_metadata titled = s_metadata s"
    using title_effect [OF title sa] by blast
  have ok_b: "world_ok vb" by (rule stays_world_ok [OF stays_title title ok_a])
  have ids: "s_id titled = sid" "s_agent_id titled = s_agent_id s" "s_agent_version titled = s_agent_version s"
    using same(1) id by (simp_all add: same_identity_def)
  have fields: "w_agents vb = w_agents w" "w_runs vb = w_runs w" "w_ids vb = w_ids w" "w_ids_used vb = w_ids_used w"
      "w_events vb = w_events w" "w_checkpoints vb = w_checkpoints w"
    by (simp_all add: vb va_def start_def)
  have "is_ok (session_get (w_sessions vb) (s_id titled) (se_principal env))" using owned id ids(1) by simp
  moreover have "agent_get_version (w_agents vb) (s_agent_id titled) (s_agent_version titled) = Inr agent"
    using agent(1) by (simp add: fields ids)
  moreover have "run_limits_for_session (se_validate_limits env) agent titled = Inr limits"
    using agent(2) run_limits_same [OF same(2)] by simp
  moreover have "\<not> (\<exists>c \<in> set (dvals (rr_runs (w_runs vb))). r_session_id c = s_id titled \<and> run_active c)"
      "dget (rr_runs (w_runs vb)) (w_ids vb (w_ids_used vb)) = None"
    using acc unfolding acceptable_def fields ids by blast+
  moreover have "project_items (se_adapters env) (stream (w_events vb) (s_id titled)) = Inr us"
    using items by (simp add: fields ids)
  moreover have "seedable env (w_checkpoints vb) (w_ids vb (w_ids_used vb))"
    using acc unfolding acceptable_def fields by blast
  ultimately have "\<exists>run vc. enqueue_run env titled prompt (w_clock w (w_ticks w)) vb = (Inr run, vc)"
    by (rule enqueue_run_succeeds [OF ok_b])
  then obtain run vc where enq: "enqueue_run env titled prompt (w_clock w (w_ticks w)) vb = (Inr run, vc)" by blast
  have vc: "r_id run = w_ids w (w_ids_used w)" "w_depth vc = Suc (w_depth w)" "w_dispatched vc = w_dispatched w"
      "w_idempotency vc = w_idempotency w"
    using enqueue_run_effect [OF enq ok_b] by (simp_all add: vb va_def start_def)
  have "\<forall>k. key = Some k \<longrightarrow> dget (w_idempotency vc) (idem_key env k) = None"
    using key vc(4) by (simp add: start_def)
  then obtain vd where mem: "remember_request env key hash run (w_clock w (w_ticks w)) vc = (Inr (), vd)"
    using remember_fresh by blast
  have body: "submit_body env prompt (Some sid) key (w_clock w (w_ticks w)) start = (Inr (Accepted (r_id run) sid False), vd)"
    using replay sa id title enq mem
    by (simp add: submit_body_def Let_def pbind_def hash_def [symmetric] va_def [symmetric] attempt_def)
  define ve where "ve = vd\<lparr> w_rollbacks := [], w_depth := w_depth w \<rparr>"
  have "\<exists>w'. finish_submit env (r_id run) sid False ve = (Inr (r_id run), w')"
    using acc vc(1)
    by (simp add: finish_submit_def dispatch_def run_now_def record_call_def pbind_def acceptable_def ve_def)
  then show ?thesis
    using body vc(1) by (auto simp: submit_eq acc [unfolded acceptable_def] unit_of_work_def pbind_def start_def ve_def)
qed

text \<open>
  Submission makes progress: the owner's request to an existing session that has no active run,
  whose log can be projected, whose agent version is stored and whose idempotency key is unused is
  accepted and returns the next identifier of the factory as the run's, provided that identifier is
  new and the executor, when called, does not raise. No consistency check of the stores on the way
  can fail.
\<close>

theorem acceptable_request_is_accepted:
  assumes "world_ok w" and "acceptable env prompt sid key w"
  shows "\<exists>w'. submit env prompt (Some sid) key w = (Inr (w_ids w (w_ids_used w)), w') \<and> world_ok w'"
  using acceptable_submit [OF assms] submit_evolves assms(1) unfolding world_evolves_def by blast

subsection \<open>Witnesses\<close>

definition sample_agent :: agent_spec where
  "sample_agent = \<lparr> ag_id = 9, ag_version = ''1'', ag_name = ''general'', ag_instructions = ''help'',
     ag_model_policy = ''default'', ag_enabled_tools = [], ag_enabled_skills = [],
     ag_policy_profile = ''default'', ag_limits = default_run_limits, ag_metadata = [] \<rparr>"

definition sample_env :: submit_env where
  "sample_env = \<lparr> se_principal = alice, se_default_agent = sample_agent, se_export_enabled = False,
     se_detectors = \<lparr> td_secret = (\<lambda>_. False), td_injection = (\<lambda>_. False), td_credential = (\<lambda>_. False),
       td_sha256_hex = (\<lambda>s. s) \<rparr>,
     se_adapters = \<lparr> ma_content = Inr, ma_assistant = (\<lambda>d. Inr (JObj d)),
       ma_tool_call = (\<lambda>d. Inr (''tool'', JObj d)), ma_item = Inr, ma_tool_result = (\<lambda>d. Inr (JObj d)) \<rparr>,
     se_validate_state = (\<lambda>_. Inr empty_working_state), se_dump_state = (\<lambda>_. JObj []),
     se_validate_recall = (\<lambda>_. Inr \<lparr> rw_searches = 1, rw_rounds = 0, rw_deadline_at = 0, rw_automatic = True \<rparr>), se_dump_recall = (\<lambda>_. JNull),
     se_dump_usage = (\<lambda>_. JObj []), se_validate_limits = (\<lambda>_. Inr default_run_limits),
     se_catalogs = None, se_has_close = True, se_activate = None, se_execute = (\<lambda>_. Inr ()),
     se_delay_before = None, se_can_sleep = False \<rparr>"

definition sample_world :: world where
  "sample_world = \<lparr> w_clock = (\<lambda>n. 1000 + int n), w_ticks = 0, w_ids = (\<lambda>n. 70 + n), w_ids_used = 0,
     w_agents = \<lparr> ar_agents = [((9, ''1''), sample_agent)], ar_latest = [(9, ''1'')] \<rparr>,
     w_sessions = sample_sessions, w_runs = sample_runs, w_events = empty_event_repo,
     w_checkpoints = empty_checkpoint_repo, w_idempotency = [], w_consents = [], w_depth = 0,
     w_rollbacks = [], w_dispatched = {}, w_calls = [] \<rparr>"

lemma sample_world_ok: "world_ok sample_world"
proof -
  have "run_repo_ok sample_runs" using run_step_ok [OF sample_create] by simp
  moreover have "checkpoint_inv empty_checkpoint_repo" by (rule checkpoint_inv_reachable) simp
  ultimately show ?thesis
    by (simp add: world_ok_def sample_world_def)
      (auto simp: session_repo_ok_def sample_sessions_def sample_session_def keyed_def)
qed

lemma sample_acceptable: "acceptable sample_env ''hello'' 2 (Some ''k'') sample_world"
proof -
  have "py_strip ''hello'' \<noteq> []" by (simp add: py_strip_def py_space_def)
  moreover have "session_get sample_sessions 2 alice = Inr (sample_session 2 None 30)"
    by (simp add: session_get_def sample_session_defs dlookup_def)
  moreover have "agent_get_version (w_agents sample_world) 9 ''1'' = Inr sample_agent"
    by (simp add: agent_get_version_def sample_world_def dlookup_def)
  moreover have "run_limits_for_session (se_validate_limits sample_env) sample_agent (sample_session 2 None 30)
      = Inr default_run_limits"
    by (simp add: run_limits_for_session_def sample_session_def sample_agent_def)
  ultimately show ?thesis
    unfolding acceptable_def
    by (auto simp: sample_world_def sample_env_def sample_runs_def sample_run_def seedable_def chain_def
        empty_checkpoint_repo_def empty_event_repo_def stream_def dhas_def sample_session_def)
qed

theorem acceptable_request_is_accepted_witness:
  "\<exists>w'. submit sample_env ''hello'' (Some 2) (Some ''k'') sample_world = (Inr 70, w') \<and> world_ok w'"
  using acceptable_request_is_accepted [OF sample_world_ok sample_acceptable] by (simp add: sample_world_def)

theorem submission_queues_run_witness:
  "\<exists>w' sid w0 run. submit sample_env ''hello'' (Some 2) (Some ''k'') sample_world = (Inr 70, w')
     \<and> queued_run sample_env w0 run ''hello'' w' \<and> run_as_submitted sample_env sample_world 70 sid run"
proof -
  obtain w' where sub: "submit sample_env ''hello'' (Some 2) (Some ''k'') sample_world = (Inr 70, w')"
    using acceptable_submit [OF sample_world_ok sample_acceptable] by (auto simp: sample_world_def)
  have "\<forall>k. Some ''k'' = Some k \<longrightarrow> dget (w_idempotency sample_world) (idem_key sample_env k) = None"
    by (simp add: sample_world_def)
  from submission_queues_run [OF sub sample_world_ok this] sub show ?thesis by blast
qed

theorem submission_keeps_stores_witness: "\<exists>r w'. submit sample_env ''hello'' None None sample_world = (r, w') \<and> world_ok w'"
proof -
  obtain r w' where "submit sample_env ''hello'' None None sample_world = (r, w')" by (meson surj_pair)
  then show ?thesis using submission_keeps_stores sample_world_ok by blast
qed


theorem active_run_refuses_submission_witness:
  "\<exists>w'. submit sample_env ''hello'' (Some 1) None sample_world
      = (Inl (ConflictError ''session already has an active run'' None), w') \<and> same_stores sample_world w'"
proof -
  have text_ok: "py_strip ''hello'' \<noteq> []" by (simp add: py_strip_def py_space_def)
  have s: "session_get (w_sessions sample_world) 1 (se_principal sample_env) = Inr (sample_session 1 (Some ''plan'') 10)"
    by (simp add: session_get_def sample_session_defs dlookup_def sample_world_def sample_env_def)
  have agent: "agent_get_version (w_agents sample_world) (s_agent_id (sample_session 1 (Some ''plan'') 10))
      (s_agent_version (sample_session 1 (Some ''plan'') 10)) = Inr sample_agent"
    by (simp add: agent_get_version_def sample_world_def dlookup_def sample_session_def)
  have limits: "run_limits_for_session (se_validate_limits sample_env) sample_agent (sample_session 1 (Some ''plan'') 10)
      = Inr default_run_limits"
    by (simp add: run_limits_for_session_def sample_session_def sample_agent_def)
  have fresh: "dget (rr_runs (w_runs sample_world)) (w_ids sample_world (w_ids_used sample_world)) = None"
    by (simp add: sample_world_def sample_runs_def)
  have busy: "sample_run 1 Run_QUEUED \<in> set (dvals (rr_runs (w_runs sample_world)))"
    by (simp add: sample_world_def sample_runs_def)
  have active: "r_session_id (sample_run 1 Run_QUEUED) = 1" "run_active (sample_run 1 Run_QUEUED)"
    by (simp_all add: sample_run_def run_active_def TERMINAL_RUN_STATUSES_def)
  show ?thesis
    using active_run_refuses_submission [OF text_ok sample_world_ok s _ agent limits fresh busy active] by auto
qed

end
