(* ===== verification/Call_Authorization.thy ===== *)
theory Call_Authorization
  imports Policy Events
begin

text \<open>
  The owner's own request for a telephone call as its authorization
  (\<open>application/call_authorization.py\<close>): which numbers a text gives, when two written numbers are the
  same telephone, and when the authorizer lets a call pass without a confirmation card. The pattern
  \<open>\+?\d[\d\s().-]{6,}\d\<close> is matched the way Python's \<open>findall\<close> does it: leftmost, greedy, and without
  overlap. The redacted view of the arguments, which only documents the decision, is left out of the
  result.
\<close>

subsection \<open>Numbers in a text\<close>

definition re_digit :: "char \<Rightarrow> bool" where
  "re_digit c \<longleftrightarrow> (let n = of_char c :: nat in 48 \<le> n \<and> n \<le> 57)"

definition phone_char :: "char \<Rightarrow> bool" where
  "phone_char c \<longleftrightarrow> re_digit c \<or> py_space c \<or> c \<in> set ''().-''"

text \<open>
  How many of the characters after the first digit a match takes: the run of phone characters, cut
  back to its last digit, at least seven of them.
\<close>

definition phone_tail :: "string \<Rightarrow> nat option" where
  "phone_tail s = (let n = length (dropWhile (\<lambda>c. \<not> re_digit c) (rev (takeWhile phone_char s)))
     in if 7 \<le> n then Some n else None)"

fun phone_match :: "string \<Rightarrow> nat option" where
  "phone_match [] = None"
| "phone_match (c # s) =
     (if re_digit c then map_option Suc (phone_tail s)
      else if c = CHR ''+'' then
        (case s of [] \<Rightarrow> None
         | d # s' \<Rightarrow> if re_digit d then map_option (\<lambda>n. Suc (Suc n)) (phone_tail s') else None)
      else None)"

function phone_numbers :: "string \<Rightarrow> string list" where
  "phone_numbers s = (case s of [] \<Rightarrow> []
     | c # s' \<Rightarrow> (case phone_match s of
          None \<Rightarrow> phone_numbers s'
        | Some n \<Rightarrow> take n s # phone_numbers (drop n s)))"
  by pat_completeness auto

lemma phone_match_pos: "phone_match s = Some n \<Longrightarrow> 0 < n"
  by (cases s) (auto split: if_splits list.splits)

termination phone_numbers
  by (relation "measure length") (auto simp del: phone_match.simps dest: phone_match_pos)

declare phone_numbers.simps [simp del]

lemma phone_numbers_skip: "phone_match (c # s) = None \<Longrightarrow> phone_numbers (c # s) = phone_numbers s"
  by (simp add: phone_numbers.simps [of "c # s"])

lemma phone_numbers_take: "phone_match s = Some n \<Longrightarrow> phone_numbers s = take n s # phone_numbers (drop n s)"
  by (subst phone_numbers.simps) (auto simp del: phone_match.simps(2) split: list.split)

text \<open>\<open>str.isdigit\<close> also holds of the three superscripts among the characters below 256.\<close>

definition py_isdigit :: "char \<Rightarrow> bool" where
  "py_isdigit c \<longleftrightarrow> re_digit c \<or> (of_char c :: nat) \<in> {178, 179, 185}"

definition digits_of :: "string \<Rightarrow> string" where
  "digits_of s = filter py_isdigit s"

definition international :: "string \<Rightarrow> string" where
  "international ds = (if length ds = 10 then CHR ''1'' # ds else ds)"

definition same_number :: "string \<Rightarrow> string \<Rightarrow> bool" where
  "same_number dialed given \<longleftrightarrow> international dialed = international given \<and> 7 \<le> length dialed"

subsection \<open>The authorizer\<close>

fun json_truthy :: "json \<Rightarrow> bool" where
  "json_truthy JNull = False"
| "json_truthy (JBool b) = b"
| "json_truthy (JInt k) = (k \<noteq> 0)"
| "json_truthy (JReal q) = (q \<noteq> 0)"
| "json_truthy (JStr t) = (t \<noteq> [])"
| "json_truthy (JArr xs) = (xs \<noteq> [])"
| "json_truthy (JObj d) = (d \<noteq> [])"

definition is_call :: "proposed_action \<Rightarrow> bool" where
  "is_call a =
     (if ac_name a = ''mcp.bland_call.start_call''
      then tg_kind (ac_target a) = ''mcp'' \<and> tg_server_id (ac_target a) = Some ''bland_call''
        \<and> ac_side_effect a = EXTERNAL_MESSAGE
      else ac_name a = ''schedule.create'' \<and> ac_side_effect a = EXTERNAL_WRITE
        \<and> dget (ac_arguments a) ''place_call'' = Some (JBool True)
        \<and> (case dget (ac_arguments a) ''use_website'' of None \<Rightarrow> True | Some v \<Rightarrow> \<not> json_truthy v))"

definition wanted_numbers :: "proposed_action \<Rightarrow> string list" where
  "wanted_numbers a = map digits_of
     (if ac_name a = ''mcp.bland_call.start_call''
      then (case dget (ac_arguments a) ''phone_number'' of Some (JStr n) \<Rightarrow> [n] | _ \<Rightarrow> [])
      else (case dget (ac_arguments a) ''instruction'' of Some (JStr t) \<Rightarrow> phone_numbers t | _ \<Rightarrow> []))"

definition owner_gave_every_number :: "proposed_action \<Rightarrow> string list \<Rightarrow> bool" where
  "owner_gave_every_number a owner_texts \<longleftrightarrow> wanted_numbers a \<noteq> []
     \<and> (\<forall>n \<in> set (wanted_numbers a). \<exists>t \<in> set owner_texts. \<exists>g \<in> set (phone_numbers t).
          same_number n (digits_of g))"

text \<open>What the executor tells an authorizer about the active turn, and the authorizer's answer.\<close>

record authorization_turn =
  at_newest_user_trust :: trust_level
  at_owner_texts :: "string list"
  at_conversation_untrusted :: bool

record standing_authorization =
  sa_allowed :: bool
  sa_reason_code :: string
  sa_kind :: "string option"
  sa_ref :: "string option"

definition call_refused :: standing_authorization where
  "call_refused = \<lparr> sa_allowed = False, sa_reason_code = ''call.owner_request.not_covered'',
     sa_kind = None, sa_ref = None \<rparr>"

definition owner_origins :: "trust_level set" where
  "owner_origins = {Trust_PLATFORM, Trust_TRUSTED_CONFIGURATION, Trust_USER, Trust_MEMORY}"

definition call_turn_covered ::
    "proposed_action \<Rightarrow> policy_decision \<Rightarrow> principal \<Rightarrow> run \<Rightarrow> string \<Rightarrow> instant \<Rightarrow>
       authorization_turn option \<Rightarrow> instant \<Rightarrow> bool" where
  "call_turn_covered a d p r agent_version deadline turn t \<longleftrightarrow>
     is_call a \<and> ac_kind a = TOOL_CALL \<and> ''mcp.bland_call.use'' \<in> scopes p
     \<and> pd_decision d = REQUIRE_APPROVAL \<and> r_kind r = INTERACTIVE \<and> r_parent_run_id r = None
     \<and> r_tenant_id r = tenant_id p \<and> r_agent_version r = agent_version
     \<and> (case turn of None \<Rightarrow> False
        | Some u \<Rightarrow> at_newest_user_trust u = Trust_USER \<and> \<not> at_conversation_untrusted u
            \<and> ac_origin_trust a \<in> owner_origins \<and> owner_gave_every_number a (at_owner_texts u))
     \<and> t < deadline"

definition seed_from_owner :: "session \<Rightarrow> run \<Rightarrow> principal \<Rightarrow> event_envelope \<Rightarrow> bool" where
  "seed_from_owner s r p seed \<longleftrightarrow> s_principal_id s = principal_id p
     \<and> ev_run_id seed = Some (r_id r) \<and> ev_sequence seed = r_seed_event_sequence r
     \<and> ev_actor_id seed = Some (principal_id p)
     \<and> (ev_actor_type seed = ''principal''
        \<or> ev_actor_type seed = ''scheduler'' \<and> dhas (s_metadata s) ''schedule_id'')"

definition authorize_call ::
    "event_repo \<times> session_repo \<Rightarrow> proposed_action \<Rightarrow> policy_decision \<Rightarrow> principal \<Rightarrow> run \<Rightarrow> string \<Rightarrow>
       instant \<Rightarrow> authorization_turn option \<Rightarrow> instant \<Rightarrow> standing_authorization res" where
  "authorize_call ES a d p r agent_version deadline turn t =
     (if \<not> call_turn_covered a d p r agent_version deadline turn t then Inr call_refused
      else case rbind (session_get (snd ES) (r_session_id r) p) (\<lambda>s.
             rbind (latest_before ES (s_id s) (r_seed_event_sequence r + 1) ''user.message.created'' p None)
               (\<lambda>seed. Inr (s, seed))) of
          Inl (NotFoundError m) \<Rightarrow> Inr call_refused
        | Inl e \<Rightarrow> Inl e
        | Inr (s, None) \<Rightarrow> Inr call_refused
        | Inr (s, Some seed) \<Rightarrow>
            if \<not> seed_from_owner s r p seed then Inr call_refused
            else Inr \<lparr> sa_allowed = True, sa_reason_code = ''call.owner_request.authorized'',
              sa_kind = Some ''owner_call_request'',
              sa_ref = Some (uuid_str (r_id r) @ '':'' @ str_int (ev_sequence seed)) \<rparr>)"

subsection \<open>What a match is\<close>

definition phone_shape :: "string \<Rightarrow> bool" where
  "phone_shape g \<longleftrightarrow> (\<exists>body. g \<in> {body, CHR ''+'' # body} \<and> 8 \<le> length body \<and> (\<forall>c \<in> set body. phone_char c)
     \<and> re_digit (hd body) \<and> re_digit (last body))"

lemma cut_back:
  assumes "n = length (dropWhile (\<lambda>c. \<not> P c) (rev r))" and "0 < n"
  shows "n \<le> length r" "P (r ! (n - 1))"
proof -
  define d where "d = dropWhile (\<lambda>c. \<not> P c) (rev r)"
  obtain w where w: "rev r = w @ d"
    unfolding d_def by (metis takeWhile_dropWhile_id)
  have r: "r = rev d @ rev w" using arg_cong [OF w, of rev] by simp
  have n: "n = length d" using assms(1) d_def by simp
  have ne: "d \<noteq> []" using assms(2) n by auto
  have "P (hd d)" using hd_dropWhile [of "\<lambda>c. \<not> P c" "rev r"] ne by (simp add: d_def)
  moreover have "rev d ! (n - 1) = hd d" using ne n by (simp add: rev_nth hd_conv_nth)
  ultimately show "P (r ! (n - 1))" using r n ne by (simp add: nth_append)
  show "n \<le> length r" using r n by simp
qed

lemma phone_tail_match:
  assumes "phone_tail s = Some n"
  shows "7 \<le> n" "n \<le> length s" "\<forall>c \<in> set (take n s). phone_char c" "re_digit (last (take n s))"
proof -
  define r where "r = takeWhile phone_char s"
  have n: "n = length (dropWhile (\<lambda>c. \<not> re_digit c) (rev r))" and "7 \<le> n"
    using assms by (auto simp: phone_tail_def r_def Let_def split: if_splits)
  then show "7 \<le> n" by simp
  note cut = cut_back [OF n] \<open>7 \<le> n\<close>
  obtain rest where s: "s = r @ rest" unfolding r_def by (metis takeWhile_dropWhile_id)
  have tk: "take n s = take n r" using s cut by simp
  show "n \<le> length s" using s cut by simp
  show "\<forall>c \<in> set (take n s). phone_char c"
    using tk set_takeWhileD [of _ phone_char s] by (auto simp: r_def dest: in_set_takeD)
  have "last (take n r) = r ! (n - 1)" using cut by (subst last_conv_nth) (auto simp: min_def)
  then show "re_digit (last (take n s))" using tk cut by simp
qed

lemma phone_body: "re_digit c \<Longrightarrow> phone_tail s = Some n \<Longrightarrow>
    8 \<le> length (c # take n s) \<and> (\<forall>x \<in> set (c # take n s). phone_char x)
    \<and> re_digit (hd (c # take n s)) \<and> re_digit (last (c # take n s))"
  using phone_tail_match [of s n] by (auto simp: phone_char_def)

lemma phone_match_shape: "phone_match s = Some n \<Longrightarrow> n \<le> length s \<and> phone_shape (take n s)"
proof (cases s)
  case (Cons c s')
  assume m: "phone_match s = Some n"
  show ?thesis
  proof (cases "re_digit c")
    case True
    then obtain k where k: "phone_tail s' = Some k" "n = Suc k" using m Cons by auto
    then show ?thesis using Cons phone_body [OF True k(1)] phone_tail_match(2) [OF k(1)]
      unfolding phone_shape_def by (intro conjI exI [of _ "c # take k s'"]) auto
  next
    case False
    then obtain d s2 k where k: "c = CHR ''+''" "s' = d # s2" "re_digit d" "phone_tail s2 = Some k" "n = Suc (Suc k)"
      using m Cons by (auto split: if_splits list.splits)
    then show ?thesis using Cons phone_body [OF k(3,4)] phone_tail_match(2) [OF k(4)]
      unfolding phone_shape_def by (intro conjI exI [of _ "d # take k s2"]) auto
  qed
qed simp

lemma phone_numbers_sound: "g \<in> set (phone_numbers s) \<Longrightarrow> phone_shape g \<and> (\<exists>pre post. s = pre @ g @ post)"
proof (induction s rule: phone_numbers.induct)
  case (1 s)
  show ?case
  proof (cases s)
    case Nil
    then show ?thesis using "1.prems" by (simp add: phone_numbers.simps)
  next
    case (Cons c s')
    show ?thesis
    proof (cases "phone_match s")
      case None
      then have "g \<in> set (phone_numbers s')" using "1.prems" Cons by (subst (asm) phone_numbers.simps) simp
      from "1.IH"(1) [OF Cons None this] show ?thesis using Cons by (metis append_Cons)
    next
      case (Some n)
      then have "g = take n s \<or> g \<in> set (phone_numbers (drop n s))"
        using "1.prems" Cons by (subst (asm) phone_numbers.simps) simp
      then show ?thesis
      proof
        assume "g = take n s"
        then show ?thesis using phone_match_shape [OF Some] by (metis append_Nil append_take_drop_id)
      next
        assume "g \<in> set (phone_numbers (drop n s))"
        from "1.IH"(2) [OF Cons Some this] show ?thesis by (metis append.assoc append_take_drop_id)
      qed
    qed
  qed
qed

subsection \<open>Texts put together\<close>

text \<open>
  A text that starts with blanks and then leaves the phone characters cannot extend a number of the
  text before it.
\<close>

definition breaks_off :: "string \<Rightarrow> bool" where
  "breaks_off t \<longleftrightarrow> (\<exists>ws c u. t = ws @ c # u \<and> (\<forall>x \<in> set ws. phone_char x \<and> \<not> re_digit x) \<and> \<not> phone_char c)"

lemma breaks_off_head: "breaks_off t \<Longrightarrow> \<exists>c u. t = c # u \<and> \<not> re_digit c"
  unfolding breaks_off_def by (metis append_Cons append_Nil list.set_intros(1) neq_Nil_conv phone_char_def)

lemma dropWhile_rev_append: "\<forall>x \<in> set ws. P x \<Longrightarrow> dropWhile P (rev (s @ ws)) = dropWhile P (rev s)"
  using dropWhile_append2 [of "rev ws" P "rev s"] by simp

lemma phone_tail_append:
  assumes "breaks_off t"
  shows "phone_tail (s @ t) = phone_tail s"
proof (cases "\<forall>c \<in> set s. phone_char c")
  case True
  obtain ws c u where t: "t = ws @ c # u" "\<forall>x \<in> set ws. phone_char x \<and> \<not> re_digit x" "\<not> phone_char c"
    using assms unfolding breaks_off_def by blast
  have "takeWhile phone_char (s @ t) = s @ ws" using True t by (simp add: takeWhile_append2)
  moreover have "takeWhile phone_char s = s" using True by (simp add: takeWhile_eq_all_conv)
  moreover have "dropWhile (\<lambda>c. \<not> re_digit c) (rev (s @ ws)) = dropWhile (\<lambda>c. \<not> re_digit c) (rev s)"
    by (rule dropWhile_rev_append) (use t in blast)
  ultimately show ?thesis unfolding phone_tail_def by metis
next
  case False
  then show ?thesis by (auto simp: phone_tail_def takeWhile_append1)
qed

lemma phone_match_append:
  assumes "breaks_off t" and "s \<noteq> []"
  shows "phone_match (s @ t) = phone_match s"
proof -
  obtain c s' where s: "s = c # s'" using assms(2) by (cases s) auto
  obtain d u where t: "t = d # u" "\<not> re_digit d" using breaks_off_head [OF assms(1)] by blast
  show ?thesis
  proof (cases s')
    case Nil
    have "phone_tail t = None"
      using phone_tail_append [OF assms(1), of "[]"] by (simp add: phone_tail_def)
    then show ?thesis using s t Nil by (simp add: phone_tail_def)
  next
    case (Cons e v)
    have "phone_tail (e # v @ t) = phone_tail (e # v)"
      using phone_tail_append [OF assms(1), of "e # v"] by simp
    then show ?thesis using s Cons phone_tail_append [OF assms(1), of v] by simp
  qed
qed

lemma phone_numbers_append:
  assumes "breaks_off t"
  shows "phone_numbers (s @ t) = phone_numbers s @ phone_numbers t"
proof (induction s rule: phone_numbers.induct)
  case (1 s)
  show ?case
  proof (cases s)
    case Nil
    then show ?thesis by (simp add: phone_numbers.simps [of "[]"])
  next
    case (Cons c s')
    have m: "phone_match (s @ t) = phone_match s" by (rule phone_match_append [OF assms]) (simp add: Cons)
    show ?thesis
    proof (cases "phone_match s")
      case None
      then have "phone_match (c # s') = None" "phone_match (c # s' @ t) = None" using m Cons by simp_all
      from this [THEN phone_numbers_skip] show ?thesis using "1.IH"(1) [OF Cons None] Cons by simp
    next
      case (Some n)
      have "n \<le> length s" using phone_match_shape [OF Some] by simp
      then show ?thesis
        using "1.IH"(2) [OF Cons Some] phone_numbers_take [of "s @ t" n] phone_numbers_take [OF Some] m Some by simp
    qed
  qed
qed

text \<open>
  A scan that shows a text free of numbers: it counts the phone characters since the first digit of
  the current run and gives up at eight.
\<close>

fun quiet :: "nat \<Rightarrow> string \<Rightarrow> nat option" where
  "quiet n [] = Some n"
| "quiet n (c # s) =
     (let k = (if \<not> phone_char c then 0 else if n = 0 then (if re_digit c then 1 else 0) else Suc n)
      in if 8 \<le> k then None else quiet k s)"

lemma quiet_append: "quiet n (s @ t) = Option.bind (quiet n s) (\<lambda>k. quiet k t)"
  by (induction s arbitrary: n) (simp_all add: Let_def)

lemma quiet_run: "quiet n s = Some m \<Longrightarrow> 0 < n \<Longrightarrow> n < 8 \<Longrightarrow> n + length (takeWhile phone_char s) < 8"
proof (induction s arbitrary: n)
  case (Cons c s)
  show ?case
  proof (cases "phone_char c")
    case True
    with Cons.prems have "quiet (Suc n) s = Some m" "Suc n < 8" by (auto simp: Let_def split: if_splits)
    then show ?thesis using Cons.IH [of "Suc n"] True by simp
  qed (use Cons.prems in simp)
qed simp

lemma quiet_tail: "quiet n s = Some m \<Longrightarrow> 0 < n \<Longrightarrow> n < 8 \<Longrightarrow> phone_tail s = None"
  using quiet_run [of n s m] length_dropWhile_le [of "\<lambda>c. \<not> re_digit c" "rev (takeWhile phone_char s)"]
  by (simp add: phone_tail_def Let_def)

lemma quiet_digit:
  assumes "quiet n (c # s) = Some m" and "re_digit c"
  shows "phone_tail s = None"
proof -
  have "phone_char c" using assms(2) by (simp add: phone_char_def)
  then show ?thesis
    using assms quiet_tail [of "Suc n" s m] quiet_tail [of 1 s m] by (auto simp: Let_def split: if_splits)
qed

lemma quiet_no_numbers: "quiet n s = Some m \<Longrightarrow> phone_numbers s = []"
proof (induction s arbitrary: n)
  case Nil
  then show ?case by (simp add: phone_numbers.simps)
next
  case (Cons c s)
  obtain k where k: "quiet k s = Some m" using Cons.prems by (auto simp: Let_def split: if_splits)
  have "phone_match (c # s) = None"
    using quiet_digit [OF Cons.prems] quiet_digit k by (cases s) auto
  then show ?case using Cons.IH [OF k] phone_numbers_skip by simp
qed

subsection \<open>Who is dialed\<close>

lemma authorize_call_allowed:
  assumes "authorize_call ES a d p r v deadline turn t = Inr auth" and "sa_allowed auth"
  obtains s seed where "call_turn_covered a d p r v deadline turn t"
    and "session_get (snd ES) (r_session_id r) p = Inr s" and "seed \<in> set (stream (fst ES) (s_id s))"
    and "ev_event_type seed = ''user.message.created''" and "seed_from_owner s r p seed"
proof -
  have cov: "call_turn_covered a d p r v deadline turn t"
    using assms by (auto simp: authorize_call_def call_refused_def split: if_splits)
  obtain s where s: "session_get (snd ES) (r_session_id r) p = Inr s"
    using assms cov
    by (cases "session_get (snd ES) (r_session_id r) p")
      (auto simp: authorize_call_def call_refused_def split: error.splits)
  obtain seed where "latest_before ES (s_id s) (r_seed_event_sequence r + 1) ''user.message.created'' p None = Inr (Some seed)"
      and from_owner: "seed_from_owner s r p seed"
    using assms cov s
    by (cases "latest_before ES (s_id s) (r_seed_event_sequence r + 1) ''user.message.created'' p None")
      (auto simp: authorize_call_def call_refused_def split: error.splits option.splits if_splits)
  then have "seed \<in> set (stream (fst ES) (s_id s)) \<and> ev_event_type seed = ''user.message.created''"
    by (auto simp: latest_before_def rbind_Inr_iff find_Some_iff)
      (metis length_rev nth_mem set_rev)
  then show ?thesis using that [OF cov s] from_owner by blast
qed


definition caller :: principal where
  "caller = alice\<lparr> scopes := {''mcp.bland_call.use''} \<rparr>"

definition call_action :: proposed_action where
  "call_action = (sample_action ''mcp.bland_call.start_call'' EXTERNAL_MESSAGE
     [(''phone_number'', JStr ''+16505550123'')] (sample_target ''mcp'' (Some ''bland_call'')))
     \<lparr> ac_origin_trust := Trust_USER \<rparr>"

definition call_decision :: policy_decision where
  "call_decision = \<lparr> pd_decision = REQUIRE_APPROVAL, pd_reason_code = ''r'', pd_explanation = [],
     pd_modified_arguments = None, pd_policy_version = ''v'', pd_untrusted_escalation = False \<rparr>"

definition call_turn :: authorization_turn where
  "call_turn = \<lparr> at_newest_user_trust = Trust_USER, at_owner_texts = [''Ring (650) 555-0123 now''],
     at_conversation_untrusted = False \<rparr>"

definition call_log :: "event_repo \<times> session_repo" where
  "call_log = (empty_event_repo\<lparr> er_events := [(1, [\<lparr> ev_id = 1, ev_session_id = 1, ev_run_id = Some 1,
     ev_sequence = 0, ev_event_type = ''user.message.created'', ev_payload_schema_version = 1,
     ev_actor_type = ''principal'', ev_actor_id = Some ''alice'', ev_payload = [], ev_trace_id = None,
     ev_derivation_key = None, ev_created_at = 1 \<rparr>])] \<rparr>, sample_sessions)"

lemmas call_sample_defs = caller_def call_action_def call_decision_def call_turn_def call_log_def
  sample_action_def sample_target_def sample_run_def sample_session_defs

lemma call_numbers: "phone_numbers ''Ring (650) 555-0123 now'' = [''650) 555-0123'']"
  by code_simp

lemma call_covered: "call_turn_covered call_action call_decision caller (sample_run 1 Run_RUNNING) ''1'' 9 (Some call_turn) 5"
  by code_simp

lemma call_authorized: "\<exists>auth. authorize_call call_log call_action call_decision caller (sample_run 1 Run_RUNNING) ''1'' 9
    (Some call_turn) 5 = Inr auth \<and> sa_allowed auth"
  using call_covered
  by (simp add: authorize_call_def call_sample_defs session_get_def latest_before_def stream_def empty_event_repo_def
      seed_from_owner_def)

lemma call_wants: "wanted_numbers call_action = [''16505550123'']" "at_owner_texts call_turn = [''Ring (650) 555-0123 now'']"
  by code_simp+


end
