(* ===== verification/Call_Plans.thy ===== *)
theory Call_Plans
  imports Call_Authorization Recurrence
begin

text \<open>
  Call plans: the retries and the follow-up a one-time call schedule may carry. \<open>CallPlan\<close> of
  \<open>domain/schedules.py\<close> with its validators, and \<open>domain/call_plans.py\<close>: the decision what follows the
  latest call, the stored form of a decided step, and the note appended to the instruction. Texts of
  instants (\<open>isoformat\<close>, pydantic's JSON datetimes) and their parser are arguments.
\<close>

subsection \<open>Plans\<close>

record call_plan =
  cp_retry_every_minutes :: "int option"
  cp_retry_until :: "instant option"
  cp_follow_up_after_answer_minutes :: "int option"

definition minutes :: "int \<Rightarrow> int" where
  "minutes m = m * 60000000"

definition opt_in_range :: "int option \<Rightarrow> int \<Rightarrow> int \<Rightarrow> bool" where
  "opt_in_range v low high \<longleftrightarrow> (case v of None \<Rightarrow> True | Some m \<Rightarrow> low \<le> m \<and> m \<le> high)"

definition plan_is_complete :: "call_plan \<Rightarrow> call_plan res" where
  "plan_is_complete plan =
     (if \<not> opt_in_range (cp_retry_every_minutes plan) 1 30
       \<or> \<not> opt_in_range (cp_follow_up_after_answer_minutes plan) 1 60
      then Inl (ValueError ''call plan minutes are out of range'')
      else if (cp_retry_every_minutes plan = None) \<noteq> (cp_retry_until plan = None)
      then Inl (ValueError ''call plan retries need both an interval and an end'')
      else if cp_retry_until plan = None \<and> cp_follow_up_after_answer_minutes plan = None
      then Inl (ValueError ''call plan needs retries, a follow-up, or both'')
      else Inr plan)"

definition max_calls :: "call_plan \<Rightarrow> instant \<Rightarrow> int" where
  "max_calls plan first_at = (case (cp_retry_every_minutes plan, cp_retry_until plan) of
      (Some m, Some until) \<Rightarrow> 1 + (until - first_at) div minutes m
    | _ \<Rightarrow> 1)"

definition MAX_CALL_PLAN_CALLS :: int where
  "MAX_CALL_PLAN_CALLS = 10"

definition MAX_CALL_PLAN_SPAN :: int where
  "MAX_CALL_PLAN_SPAN = 60 * 60000000"

definition validate_for :: "call_plan \<Rightarrow> instant \<Rightarrow> unit res" where
  "validate_for plan first_at = (case cp_retry_until plan of
      None \<Rightarrow> Inr ()
    | Some until \<Rightarrow>
        if until \<le> first_at
        then Inl (ValueError ''call plan retries must end after the first call'')
        else if until - first_at > MAX_CALL_PLAN_SPAN
        then Inl (ValueError ''call plan retries must end within an hour of the first call'')
        else if max_calls plan first_at > MAX_CALL_PLAN_CALLS
        then Inl (ValueError ''call plan places at most ten calls before a follow-up'')
        else Inr ())"

definition check_call_plan :: "call_plan option \<Rightarrow> cadence \<Rightarrow> unit res" where
  "check_call_plan plan cadence = (case plan of
      None \<Rightarrow> Inr ()
    | Some pl \<Rightarrow> (case cadence of
        OnceCadence t \<Rightarrow> validate_for pl t
      | _ \<Rightarrow> Inl (ValueError ''a call plan requires a one-time cadence'')))"

subsection \<open>The next step\<close>

datatype step_kind = Step_FIRST | Step_RETRY | Step_FOLLOW_UP | Step_REPORT

datatype call_result =
    Call_PENDING | Call_ANSWERED | Call_NO_ANSWER | Call_BUSY | Call_VOICEMAIL | Call_FAILED
  | Call_NO_CALL | Call_UNKNOWN

datatype report_reason =
    Report_ANSWERED | Report_NOT_REACHED | Report_FOLLOW_UP_ANSWERED | Report_FOLLOW_UP_NOT_REACHED
  | Report_NO_CALL | Report_UNKNOWN

record plan_attempt =
  pa_kind :: step_kind
  pa_nominal_fire_at :: instant
  pa_materialized_at :: instant
  pa_result :: call_result
  pa_ended_at :: "instant option"

record history_entry =
  he_nominal_fire_at :: instant
  he_kind :: step_kind
  he_result :: call_result

record plan_step =
  ps_attempt :: int
  ps_kind :: step_kind
  ps_fire_at :: instant
  ps_reason :: "report_reason option"
  ps_history :: "history_entry list"
  ps_answered_at :: "instant option"

definition RESULT_WAIT :: int where
  "RESULT_WAIT = 20 * 60000000"

definition NOT_REACHED :: "call_result set" where
  "NOT_REACHED = {Call_NO_ANSWER, Call_BUSY, Call_VOICEMAIL, Call_FAILED}"

definition is_plan_call :: "step_kind \<Rightarrow> bool" where
  "is_plan_call k \<longleftrightarrow> k \<in> {Step_FIRST, Step_RETRY}"

definition history_of :: "plan_attempt list \<Rightarrow> history_entry list" where
  "history_of attempts = map (\<lambda>a. \<lparr> he_nominal_fire_at = pa_nominal_fire_at a, he_kind = pa_kind a,
     he_result = (if pa_result a = Call_PENDING then Call_UNKNOWN else pa_result a) \<rparr>) attempts"

definition report_step :: "plan_attempt list \<Rightarrow> instant \<Rightarrow> report_reason \<Rightarrow> plan_step" where
  "report_step attempts t reason = \<lparr> ps_attempt = int (length attempts) + 1, ps_kind = Step_REPORT,
     ps_fire_at = max t (pa_nominal_fire_at (last attempts) + 1000000), ps_reason = Some reason,
     ps_history = history_of attempts, ps_answered_at = None \<rparr>"

definition retry_step :: "call_plan \<Rightarrow> instant \<Rightarrow> plan_attempt list \<Rightarrow> instant \<Rightarrow> plan_step" where
  "retry_step plan first_at attempts t =
     (case (cp_retry_every_minutes plan, cp_retry_until plan) of
        (Some m, Some until) \<Rightarrow>
          let fire_at = max t (pa_nominal_fire_at (last attempts) + minutes m);
              calls = int (length (filter (\<lambda>a. is_plan_call (pa_kind a)) attempts))
          in if calls < max_calls plan first_at \<and> fire_at \<le> until
             then \<lparr> ps_attempt = int (length attempts) + 1, ps_kind = Step_RETRY, ps_fire_at = fire_at,
               ps_reason = None, ps_history = history_of attempts, ps_answered_at = None \<rparr>
             else report_step attempts t Report_NOT_REACHED
      | _ \<Rightarrow> report_step attempts t Report_NOT_REACHED)"

definition next_call_plan_step ::
    "call_plan \<Rightarrow> instant \<Rightarrow> plan_attempt list \<Rightarrow> instant \<Rightarrow> plan_step option res" where
  "next_call_plan_step plan first_at attempts t =
     (if attempts = [] then Inl IndexError
      else let latest = last attempts in
        if pa_result latest = Call_PENDING \<and> t - pa_materialized_at latest < RESULT_WAIT then Inr None
        else Inr (Some
          (if pa_kind latest = Step_FOLLOW_UP then
             report_step attempts t (if pa_result latest = Call_ANSWERED
               then Report_FOLLOW_UP_ANSWERED else Report_FOLLOW_UP_NOT_REACHED)
           else if pa_result latest = Call_ANSWERED then
             (case cp_follow_up_after_answer_minutes plan of
                None \<Rightarrow> report_step attempts t Report_ANSWERED
              | Some m \<Rightarrow> \<lparr> ps_attempt = int (length attempts) + 1, ps_kind = Step_FOLLOW_UP,
                  ps_fire_at = max t ((case pa_ended_at latest of None \<Rightarrow> t | Some e \<Rightarrow> e) + minutes m),
                  ps_reason = None, ps_history = history_of attempts,
                  ps_answered_at = Some (pa_nominal_fire_at latest) \<rparr>)
           else if pa_result latest = Call_NO_CALL then report_step attempts t Report_NO_CALL
           else if pa_result latest \<notin> NOT_REACHED then report_step attempts t Report_UNKNOWN
           else retry_step plan first_at attempts t)))"

subsection \<open>The note\<close>

definition two_digits :: "int \<Rightarrow> string" where
  "two_digits k = [hex_digit (nat (k div 10 mod 10)), hex_digit (nat (k mod 10))]"

text \<open>\<open>f"{instant:%H:%M}"\<close> of a UTC instant\<close>

definition hh_mm :: "instant \<Rightarrow> string" where
  "hh_mm t = two_digits (t mod day_us div 3600000000) @ '':'' @ two_digits (t mod 3600000000 div 60000000)"

fun result_words :: "call_result \<Rightarrow> string" where
  "result_words Call_ANSWERED = ''answered''"
| "result_words Call_NO_ANSWER = ''no answer''"
| "result_words Call_BUSY = ''busy''"
| "result_words Call_VOICEMAIL = ''voicemail''"
| "result_words Call_FAILED = ''did not connect''"
| "result_words Call_NO_CALL = ''no call placed''"
| "result_words Call_UNKNOWN = ''outcome unknown''"
| "result_words Call_PENDING = ''outcome unknown''"

fun report_words :: "report_reason \<Rightarrow> string" where
  "report_words Report_ANSWERED = ''The call was answered.''"
| "report_words Report_NOT_REACHED = ''No call was answered.''"
| "report_words Report_FOLLOW_UP_ANSWERED = ''The call and its follow-up were both answered.''"
| "report_words Report_FOLLOW_UP_NOT_REACHED = ''The call was answered, but the follow-up was not.''"
| "report_words Report_NO_CALL = ''A planned call was not placed, so the plan stopped.''"
| "report_words Report_UNKNOWN =
     ''A call's outcome could not be confirmed, so no further call was placed.''"

definition calls_tail :: string where
  "calls_tail = '' Place this one call now. The platform places any retry or follow-up the plan '' @
     ''sets and reports the outcome to the owner, so do not schedule or promise another '' @
     ''call. Leave no voicemail unless the instruction asks for one.''"

definition history_words :: "history_entry list \<Rightarrow> string" where
  "history_words hs = py_join ''; ''
     (map (\<lambda>h. hh_mm (he_nominal_fire_at h) @ '' UTC '' @ result_words (he_result h)) hs)"

definition plan_total :: "call_plan \<Rightarrow> instant \<Rightarrow> int" where
  "plan_total plan first_at = max_calls plan first_at
     + (case cp_follow_up_after_answer_minutes plan of None \<Rightarrow> 0 | Some m \<Rightarrow> if m = 0 then 0 else 1)"

definition call_plan_note :: "call_plan \<Rightarrow> instant \<Rightarrow> plan_step option \<Rightarrow> string res" where
  "call_plan_note plan first_at step =
     (let total = plan_total plan first_at in
      case step of
        None \<Rightarrow> Inr (''Platform note: this is call 1 of up to '' @ str_int total @ '' in a call plan.'' @ calls_tail)
      | Some st \<Rightarrow>
          if ps_kind st = Step_RETRY then
            Inr (''Platform note: this is call '' @ str_int (ps_attempt st) @ '' of up to '' @ str_int total @
              '' in a call plan. '' @ ''Earlier calls: '' @ history_words (ps_history st) @ ''.'' @ calls_tail)
          else if ps_kind st = Step_FOLLOW_UP then
            Inr (''Platform note: this is the follow-up call in a call plan; '' @
              (case ps_answered_at st of None \<Rightarrow> ''an earlier call''
               | Some t \<Rightarrow> ''the call at '' @ hh_mm t @ '' UTC'') @ '' was '' @
              ''answered. Place it now, using the instruction's follow-up brief, and have it '' @
              ''open by asking whether they are happy to talk; if the person asks not to be '' @
              ''called again, end the call politely. Do not schedule or promise another call. '' @
              ''Leave no voicemail unless the instruction asks for one.'')
          else (case ps_reason st of
              None \<Rightarrow> Inl AssertionError
            | Some reason \<Rightarrow>
                Inr (''Platform note: the call plan has ended and no further call will be placed. '' @
                  ''Calls: '' @ history_words (ps_history st) @ ''. '' @ report_words reason @
                  '' Do not place any call. Tell the owner '' @ ''the outcome in one or two sentences.'')))"

subsection \<open>Running a plan\<close>

text \<open>
  How a plan unfolds: the sweep reads the attempts so far, with whatever results the call ledger holds
  by then, decides the next step at some instant, and the scheduler fires that step at its instant.
  Nothing follows a report.
\<close>

definition same_calls :: "plan_attempt list \<Rightarrow> plan_attempt list \<Rightarrow> bool" where
  "same_calls as bs \<longleftrightarrow> map (\<lambda>a. (pa_kind a, pa_nominal_fire_at a)) as = map (\<lambda>a. (pa_kind a, pa_nominal_fire_at a)) bs"

inductive plan_continues :: "call_plan \<Rightarrow> instant \<Rightarrow> plan_attempt list \<Rightarrow> plan_attempt list \<Rightarrow> bool"
    for plan first_at where
  plan_next: "same_calls as bs \<Longrightarrow> pa_kind (last bs) \<noteq> Step_REPORT \<Longrightarrow>
    next_call_plan_step plan first_at bs t = Inr (Some step) \<Longrightarrow> pa_kind a = ps_kind step \<Longrightarrow>
    pa_nominal_fire_at a = ps_fire_at step \<Longrightarrow> plan_continues plan first_at as (bs @ [a])"

inductive_cases plan_continuesE: "plan_continues plan first_at as cs"

inductive plan_run :: "call_plan \<Rightarrow> instant \<Rightarrow> plan_attempt list \<Rightarrow> bool" for plan first_at where
  plan_first: "pa_kind a = Step_FIRST \<Longrightarrow> pa_nominal_fire_at a = first_at \<Longrightarrow> plan_run plan first_at [a]"
| plan_more: "plan_run plan first_at as \<Longrightarrow> plan_continues plan first_at as bs \<Longrightarrow> plan_run plan first_at bs"

text \<open>The kinds of the attempts: the first call, the retries, perhaps a follow-up, perhaps the report.\<close>

definition plan_shape :: "int \<Rightarrow> step_kind list \<Rightarrow> bool" where
  "plan_shape n ks \<longleftrightarrow> (\<exists>r tail. ks = Step_FIRST # replicate r Step_RETRY @ tail \<and> int r < n
     \<and> tail \<in> {[], [Step_FOLLOW_UP], [Step_REPORT], [Step_FOLLOW_UP, Step_REPORT]})"

lemma plan_shapeI:
  assumes "ks = Step_FIRST # replicate r Step_RETRY @ tail" and "int r < n"
    and "tail \<in> {[], [Step_FOLLOW_UP], [Step_REPORT], [Step_FOLLOW_UP, Step_REPORT]}"
  shows "plan_shape n ks"
  unfolding plan_shape_def by (rule exI [of _ r], rule exI [of _ tail]) (use assms in simp)

lemma plan_shapeE:
  assumes "plan_shape n ks"
  obtains r tail where "ks = Step_FIRST # replicate r Step_RETRY @ tail" and "int r < n"
    and "tail \<in> {[], [Step_FOLLOW_UP], [Step_REPORT], [Step_FOLLOW_UP, Step_REPORT]}"
  using assms unfolding plan_shape_def by blast

definition calls_of :: "step_kind list \<Rightarrow> int" where
  "calls_of ks = int (length (filter is_plan_call ks))"

lemma calls_of_attempts:
  "int (length (filter (\<lambda>a. is_plan_call (pa_kind a)) as)) = calls_of (map pa_kind as)"
  by (simp add: calls_of_def filter_map o_def)

lemma shape_calls: "calls_of (Step_FIRST # replicate r Step_RETRY) = int r + 1"
  by (simp add: calls_of_def is_plan_call_def)

lemma max_calls_pos:
  assumes "plan_is_complete plan = Inr plan" and "validate_for plan first_at = Inr ()"
  shows "1 \<le> max_calls plan first_at" "max_calls plan first_at \<le> 10"
  using assms
  by (auto simp: max_calls_def validate_for_def plan_is_complete_def opt_in_range_def minutes_def
      MAX_CALL_PLAN_CALLS_def pos_imp_zdiv_nonneg_iff split: option.splits if_splits)

lemma last_kind:
  assumes "map pa_kind bs = Step_FIRST # replicate r Step_RETRY @ tail"
  shows "pa_kind (last bs) = (if tail = [] then (if r = 0 then Step_FIRST else Step_RETRY) else last tail)"
proof -
  have "bs \<noteq> []" using assms by auto
  then have "pa_kind (last bs) = last (map pa_kind bs)" by (simp add: last_map)
  then show ?thesis using assms by (simp add: last_replicate)
qed

text \<open>What a decided step can be, from the kind of the latest attempt.\<close>

lemma step_kinds:
  assumes "next_call_plan_step plan first_at bs t = Inr (Some step)"
  shows "ps_kind step = Step_REPORT
    \<or> ps_kind step = Step_FOLLOW_UP \<and> pa_kind (last bs) \<noteq> Step_FOLLOW_UP
    \<or> ps_kind step = Step_RETRY \<and> pa_kind (last bs) \<noteq> Step_FOLLOW_UP
      \<and> calls_of (map pa_kind bs) < max_calls plan first_at
      \<and> (\<exists>m until. cp_retry_every_minutes plan = Some m \<and> cp_retry_until plan = Some until
          \<and> pa_nominal_fire_at (last bs) + minutes m \<le> ps_fire_at step \<and> ps_fire_at step \<le> until)"
  using assms
  by (auto simp: next_call_plan_step_def report_step_def retry_step_def Let_def calls_of_attempts
      split: if_splits option.splits)

lemma plan_shape_continues:
  assumes "plan_shape n (map pa_kind as)" and "plan_continues plan first_at as cs" and "n = max_calls plan first_at"
  shows "plan_shape n (map pa_kind cs)"
  using assms(2)
proof (rule plan_continuesE)
  fix bs t step a
  assume cs: "cs = bs @ [a]" and same: "same_calls as bs" and open_plan: "pa_kind (last bs) \<noteq> Step_REPORT"
    and decided: "next_call_plan_step plan first_at bs t = Inr (Some step)" and kind: "pa_kind a = ps_kind step"
  have "map fst (map (\<lambda>a. (pa_kind a, pa_nominal_fire_at a)) as) = map fst (map (\<lambda>a. (pa_kind a, pa_nominal_fire_at a)) bs)"
    using same by (simp only: same_calls_def)
  then have "map pa_kind bs = map pa_kind as" by (simp add: o_def)
  with assms(1) have "plan_shape n (map pa_kind bs)" by simp
  then obtain r tail where ks: "map pa_kind bs = Step_FIRST # replicate r Step_RETRY @ tail" "int r < n"
      "tail \<in> {[], [Step_FOLLOW_UP], [Step_REPORT], [Step_FOLLOW_UP, Step_REPORT]}"
    by (rule plan_shapeE)
  then have tail: "tail \<in> {[], [Step_FOLLOW_UP]}" using last_kind [OF ks(1)] open_plan by auto
  have new: "map pa_kind cs = Step_FIRST # replicate r Step_RETRY @ (tail @ [ps_kind step])"
    using cs ks(1) kind by simp
  show ?thesis
  proof (cases "ps_kind step = Step_RETRY")
    case True
    with step_kinds [OF decided] last_kind [OF ks(1)] tail have t: "tail = []"
        and less: "calls_of (map pa_kind bs) < n" by (auto simp: assms(3) split: if_splits)
    have "int (Suc r) < n" using less ks(1) t shape_calls [of r] by simp
    moreover have "map pa_kind cs = Step_FIRST # replicate (Suc r) Step_RETRY @ []"
      using new t True by (simp add: replicate_append_same)
    ultimately show ?thesis by (intro plan_shapeI [of _ "Suc r" "[]"]) simp_all
  next
    case False
    with step_kinds [OF decided] last_kind [OF ks(1)] tail
    have "tail @ [ps_kind step] \<in> {[], [Step_FOLLOW_UP], [Step_REPORT], [Step_FOLLOW_UP, Step_REPORT]}"
      by (auto split: if_splits)
    then show ?thesis by (rule plan_shapeI [OF new ks(2)])
  qed
qed

lemma plan_run_shape:
  assumes "plan_run plan first_at as" and "1 \<le> max_calls plan first_at"
  shows "plan_shape (max_calls plan first_at) (map pa_kind as)"
  using assms(1)
proof induction
  case (plan_first a)
  then show ?case using assms(2) by (intro plan_shapeI [of _ 0 "[]"]) simp_all
next
  case (plan_more as bs)
  then show ?case using plan_shape_continues by blast
qed

lemma plan_shape_length: "plan_shape n (map pa_kind as) \<Longrightarrow> int (length as) \<le> n + 2"
proof -
  assume "plan_shape n (map pa_kind as)"
  then obtain r tail where ks: "map pa_kind as = Step_FIRST # replicate r Step_RETRY @ tail" "int r < n"
      "tail \<in> {[], [Step_FOLLOW_UP], [Step_REPORT], [Step_FOLLOW_UP, Step_REPORT]}"
    by (rule plan_shapeE)
  have "length as = length (Step_FIRST # replicate r Step_RETRY @ tail)" using ks(1) by (metis length_map)
  then show ?thesis using ks(2,3) by auto
qed

text \<open>The instants of the retries: an interval after the attempt before, and inside the window.\<close>

definition retries_spaced :: "int \<Rightarrow> instant \<Rightarrow> plan_attempt list \<Rightarrow> bool" where
  "retries_spaced gap until as \<longleftrightarrow> (\<forall>i < length as. pa_kind (as ! i) = Step_RETRY \<longrightarrow> 0 < i
     \<and> pa_nominal_fire_at (as ! (i - 1)) + gap \<le> pa_nominal_fire_at (as ! i)
     \<and> pa_nominal_fire_at (as ! i) \<le> until)"

lemma same_calls_length: "same_calls as bs \<Longrightarrow> length bs = length as"
  unfolding same_calls_def by (metis length_map)

lemma same_calls_nth:
  assumes "same_calls as bs" and "i < length as"
  shows "pa_kind (bs ! i) = pa_kind (as ! i)" "pa_nominal_fire_at (bs ! i) = pa_nominal_fire_at (as ! i)"
proof -
  have eq: "map (\<lambda>a. (pa_kind a, pa_nominal_fire_at a)) as = map (\<lambda>a. (pa_kind a, pa_nominal_fire_at a)) bs"
    using assms(1) by (simp add: same_calls_def)
  have "map (\<lambda>a. (pa_kind a, pa_nominal_fire_at a)) as ! i = map (\<lambda>a. (pa_kind a, pa_nominal_fire_at a)) bs ! i"
    using eq by simp
  then show "pa_kind (bs ! i) = pa_kind (as ! i)" "pa_nominal_fire_at (bs ! i) = pa_nominal_fire_at (as ! i)"
    using assms(2) same_calls_length [OF assms(1)] by simp_all
qed

lemma retries_spaced_continues:
  assumes "retries_spaced (minutes m) until as" and "plan_continues plan first_at as cs" and "as \<noteq> []"
    and plan: "cp_retry_every_minutes plan = Some m" "cp_retry_until plan = Some until"
  shows "retries_spaced (minutes m) until cs"
  using assms(2)
proof (rule plan_continuesE)
  fix bs t step a
  assume cs: "cs = bs @ [a]" and same: "same_calls as bs" and decided: "next_call_plan_step plan first_at bs t = Inr (Some step)"
    and new: "pa_kind a = ps_kind step" "pa_nominal_fire_at a = ps_fire_at step"
  have len: "length bs = length as" by (rule same_calls_length [OF same])
  have ne: "bs \<noteq> []" using len assms(3) by auto
  have old: "0 < i \<and> pa_nominal_fire_at (cs ! (i - 1)) + minutes m \<le> pa_nominal_fire_at (cs ! i)
      \<and> pa_nominal_fire_at (cs ! i) \<le> until" if "i < length bs" "pa_kind (cs ! i) = Step_RETRY" for i
    using that assms(1) same_calls_nth [OF same] len
    by (auto simp: retries_spaced_def cs nth_append)
  have "pa_nominal_fire_at (last bs) + minutes m \<le> pa_nominal_fire_at a \<and> pa_nominal_fire_at a \<le> until"
    if "pa_kind a = Step_RETRY"
    using step_kinds [OF decided] that new plan by auto
  then have "0 < i \<and> pa_nominal_fire_at (cs ! (i - 1)) + minutes m \<le> pa_nominal_fire_at (cs ! i)
      \<and> pa_nominal_fire_at (cs ! i) \<le> until" if "i = length bs" "pa_kind (cs ! i) = Step_RETRY" for i
    using that ne by (simp add: cs nth_append last_conv_nth)
  with old show ?thesis unfolding retries_spaced_def cs by (metis length_append_singleton less_SucE)
qed

lemma plan_run_nonempty: "plan_run plan first_at as \<Longrightarrow> as \<noteq> []"
  by (induction rule: plan_run.induct) (auto elim: plan_continuesE)

lemma plan_run_spaced:
  assumes "plan_run plan first_at as" and "cp_retry_every_minutes plan = Some m" "cp_retry_until plan = Some until"
  shows "retries_spaced (minutes m) until as"
  using assms(1)
proof induction
  case (plan_first a)
  then show ?case by (simp add: retries_spaced_def)
next
  case (plan_more as bs)
  then show ?case using retries_spaced_continues plan_run_nonempty assms(2,3) by blast
qed

lemma no_retries_without_window:
  assumes "plan_run plan first_at as" and "plan_is_complete plan = Inr plan" and "cp_retry_until plan = None"
  shows "\<forall>a \<in> set as. pa_kind a \<noteq> Step_RETRY"
proof -
  have "max_calls plan first_at = 1" using assms(3) by (simp add: max_calls_def split: option.splits)
  then have "plan_shape 1 (map pa_kind as)" using plan_run_shape [OF assms(1)] by simp
  then have "Step_RETRY \<notin> set (map pa_kind as)" by (auto elim!: plan_shapeE)
  then show ?thesis by (metis imageI list.set_map)
qed

lemma span_limit:
  assumes "plan_is_complete plan = Inr plan" and "validate_for plan first_at = Inr ()" and "cp_retry_until plan = Some until"
  shows "until \<le> first_at + MAX_CALL_PLAN_SPAN" "\<exists>m. cp_retry_every_minutes plan = Some m \<and> 1 \<le> m"
  using assms by (auto simp: validate_for_def plan_is_complete_def opt_in_range_def split: if_splits option.splits)


definition sample_plan :: call_plan where
  "sample_plan = \<lparr> cp_retry_every_minutes = Some 5, cp_retry_until = Some (minutes 20),
     cp_follow_up_after_answer_minutes = Some 30 \<rparr>"

definition sample_attempt_at :: "step_kind \<Rightarrow> instant \<Rightarrow> call_result \<Rightarrow> plan_attempt" where
  "sample_attempt_at k t result = \<lparr> pa_kind = k, pa_nominal_fire_at = t, pa_materialized_at = t,
     pa_result = result, pa_ended_at = None \<rparr>"

lemma sample_plan_accepted: "plan_is_complete sample_plan = Inr sample_plan" "validate_for sample_plan 0 = Inr ()"
  by (simp_all add: plan_is_complete_def validate_for_def sample_plan_def opt_in_range_def minutes_def
      MAX_CALL_PLAN_SPAN_def MAX_CALL_PLAN_CALLS_def max_calls_def)

lemma sample_plan_run:
  "plan_run sample_plan 0 [sample_attempt_at Step_FIRST 0 Call_BUSY, sample_attempt_at Step_RETRY (minutes 5) Call_ANSWERED]"
proof (rule plan_more)
  show "plan_run sample_plan 0 [sample_attempt_at Step_FIRST 0 Call_PENDING]"
    by (rule plan_first) (simp_all add: sample_attempt_at_def)
  show "plan_continues sample_plan 0 [sample_attempt_at Step_FIRST 0 Call_PENDING]
      [sample_attempt_at Step_FIRST 0 Call_BUSY, sample_attempt_at Step_RETRY (minutes 5) Call_ANSWERED]"
    by (rule plan_next [of _ "[sample_attempt_at Step_FIRST 0 Call_BUSY]" _ _ "minutes 2"
          "retry_step sample_plan 0 [sample_attempt_at Step_FIRST 0 Call_BUSY] (minutes 2)"
          "sample_attempt_at Step_RETRY (minutes 5) Call_ANSWERED", simplified])
      (simp_all add: same_calls_def sample_attempt_at_def next_call_plan_step_def NOT_REACHED_def retry_step_def
        sample_plan_def minutes_def max_calls_def is_plan_call_def)
qed


lemma decided_after_wait:
  "as \<noteq> [] \<Longrightarrow> pa_materialized_at (last as) + RESULT_WAIT \<le> t \<Longrightarrow> \<exists>step. next_call_plan_step plan first_at as t = Inr (Some step)"
  by (simp add: next_call_plan_step_def Let_def)



subsection \<open>The note names no telephone\<close>

definition hushed :: "string \<Rightarrow> bool" where
  "hushed s \<longleftrightarrow> quiet 0 s = Some 0"

lemma hushed_append: "hushed s \<Longrightarrow> hushed (s @ t) \<longleftrightarrow> hushed t"
  by (simp add: hushed_def quiet_append)

lemma hushed_plain: "hushed []" "\<not> re_digit c \<Longrightarrow> hushed (c # s) \<longleftrightarrow> hushed s"
  by (simp_all add: hushed_def)

text \<open>A number ends where a blank and a character outside the pattern follow.\<close>

lemma quiet_stop: "k < 7 \<Longrightarrow> \<not> phone_char c \<Longrightarrow> quiet k (CHR '' '' # c # s) = quiet 0 s"
  by (simp add: phone_char_def re_digit_def)

lemma small_nat_cases: "n < 10 \<Longrightarrow> n \<in> {0, 1, 2, 3, 4, 5, 6, 7, 8, 9 :: nat}"
  by auto

lemma re_digit_hex: "n < 10 \<Longrightarrow> re_digit (hex_digit n)"
  using small_nat_cases [of n] by (auto simp: hex_digit_def re_digit_def)

lemma quiet_digits: "re_digit c \<Longrightarrow> k < 7 \<Longrightarrow> quiet k (c # s) = quiet (Suc k) s"
  by (simp add: phone_char_def)

lemma quiet_two_digits: "k < 6 \<Longrightarrow> quiet k (two_digits x @ s) = quiet (k + 2) s"
  by (simp add: two_digits_def quiet_digits re_digit_hex del: quiet.simps)

lemma quiet_str_int: "0 \<le> n \<Longrightarrow> n < 100 \<Longrightarrow> quiet 0 (str_int n @ s) \<in> {quiet 1 s, quiet 2 s}"
  by (simp add: str_int_def str_nat.simps [of "nat n"] str_nat.simps [of "nat n div 10"] quiet_digits re_digit_hex
      numeral_2_eq_2 del: quiet.simps)

lemma hushed_number:
  assumes "0 \<le> n" "n < 100" and "\<not> phone_char c"
  shows "hushed (str_int n @ CHR '' '' # c # s) \<longleftrightarrow> hushed s"
  using quiet_str_int [OF assms(1,2), of "CHR '' '' # c # s"] quiet_stop [OF _ assms(3), of 1 s]
    quiet_stop [OF _ assms(3), of 2 s]
  by (auto simp: hushed_def simp del: quiet.simps)

lemma hushed_one: "\<not> phone_char c \<Longrightarrow> hushed (CHR ''1'' # CHR '' '' # c # s) \<longleftrightarrow> hushed s"
  using quiet_digits [of "CHR ''1''" 0 "CHR '' '' # c # s"] quiet_stop [of 1 c s]
  by (simp add: hushed_def re_digit_def del: quiet.simps)

lemma quiet_colon: "quiet (Suc (Suc 0)) (CHR '':'' # s) = quiet 0 s"
  by (simp add: phone_char_def re_digit_def py_space_def)

lemma hushed_time: "\<not> phone_char c \<Longrightarrow> hushed (hh_mm t @ CHR '' '' # c # s) \<longleftrightarrow> hushed s"
  using quiet_stop [of 2 c s]
  by (simp add: hushed_def hh_mm_def quiet_two_digits quiet_colon numeral_2_eq_2 del: quiet.simps)

lemma phone_char_letters: "re_digit CHR ''U'' = False" "phone_char CHR ''U'' = False" "phone_char CHR ''i'' = False"
    "phone_char CHR ''o'' = False"
  by (simp_all add: phone_char_def re_digit_def py_space_def)

lemmas hushed_simps = hushed_append hushed_plain hushed_number hushed_one hushed_time phone_char_letters re_digit_def

lemma hushed_words: "hushed (result_words r)" "hushed (report_words reason)"
  by (cases r; simp add: hushed_plain re_digit_def) (cases reason; simp add: hushed_plain re_digit_def)

lemma hushed_history: "hushed (history_words hs)"
proof -
  have "hushed (py_join ''; '' ws)" if "\<forall>w \<in> set ws. hushed w" for ws
    using that
  proof (induction "''; '' :: string" ws rule: py_join.induct)
    case (3 w v ws)
    then show ?case by (simp add: hushed_append hushed_plain re_digit_def)
  qed (simp_all add: hushed_plain)
  then show ?thesis by (simp add: history_words_def hushed_simps hushed_words)
qed

lemma hushed_tail: "hushed (calls_tail)"
  by (simp add: calls_tail_def hushed_plain re_digit_def)

lemma hushed_note:
  assumes "call_plan_note plan first_at step = Inr note" and "0 \<le> plan_total plan first_at" "plan_total plan first_at < 100"
    and "\<And>st. step = Some st \<Longrightarrow> 0 \<le> ps_attempt st \<and> ps_attempt st < 100"
  shows "hushed note"
proof (cases step)
  case None
  then have "note = ''Platform note: this is call 1 of up to '' @ str_int (plan_total plan first_at) @
      '' in a call plan.'' @ calls_tail"
    using assms(1) by (simp add: call_plan_note_def)
  then show ?thesis using assms(2,3) by (simp add: hushed_simps hushed_tail)
next
  case (Some st)
  have st: "0 \<le> ps_attempt st" "ps_attempt st < 100" using assms(4) [OF Some] by simp_all
  show ?thesis
    using assms(1-3) Some st
    by (auto simp: call_plan_note_def Let_def hushed_simps hushed_tail hushed_history hushed_words
        split: if_splits option.splits)
qed

lemma decided_attempt: "next_call_plan_step plan first_at as t = Inr (Some st) \<Longrightarrow> ps_attempt st = int (length as) + 1"
  by (auto simp: next_call_plan_step_def report_step_def retry_step_def Let_def split: if_splits option.splits)

lemma note_breaks_off:
  assumes "call_plan_note plan first_at step = Inr note"
  shows "breaks_off ([CHR 0x0A, CHR 0x0A] @ note)"
proof -
  obtain rest where "note = CHR ''P'' # rest"
    using assms by (auto simp: call_plan_note_def Let_def split: option.splits if_splits)
  then show ?thesis unfolding breaks_off_def
    by (intro exI [of _ "[CHR 0x0A, CHR 0x0A]"] exI [of _ "CHR ''P''"] exI [of _ rest])
      (simp add: phone_char_def re_digit_def py_space_def)
qed

text \<open>The note a call plan appends to the owner's instruction never reads as a telephone number:
  the numbers of the seed message, instruction, blank line and note, are exactly the numbers of the
  instruction. So a planned call can only be authorized for a number the owner wrote.\<close>

theorem call_plan_note_adds_no_number:
  assumes "plan_is_complete plan = Inr plan" and "validate_for plan first_at = Inr ()"
    and "call_plan_note plan first_at step = Inr note"
    and "\<And>st. step = Some st \<Longrightarrow> \<exists>as t. plan_run plan first_at as \<and> next_call_plan_step plan first_at as t = Inr (Some st)"
  shows "phone_numbers (instruction @ [CHR 0x0A, CHR 0x0A] @ note) = phone_numbers instruction"
proof -
  note n = max_calls_pos [OF assms(1,2)]
  have total: "0 \<le> plan_total plan first_at" "plan_total plan first_at < 100"
    using n by (auto simp: plan_total_def split: option.splits)
  have "0 \<le> ps_attempt st \<and> ps_attempt st < 100" if st: "step = Some st" for st
  proof -
    obtain as t where "plan_run plan first_at as" "next_call_plan_step plan first_at as t = Inr (Some st)"
      using assms(4) [OF st] by blast
    then show ?thesis
      using plan_shape_length [OF plan_run_shape [OF _ n(1)]] n(2) decided_attempt by fastforce
  qed
  then have "hushed note" by (rule hushed_note [OF assms(3) total])
  then have "quiet 0 ([CHR 0x0A, CHR 0x0A] @ note) = Some 0" using hushed_plain by (simp add: hushed_def re_digit_def)
  then show ?thesis
    using phone_numbers_append [OF note_breaks_off [OF assms(3)]] quiet_no_numbers by (metis append_Nil2)
qed

theorem call_plan_note_adds_no_number_witness:
  "\<exists>note. call_plan_note sample_plan 0 None = Inr note
     \<and> phone_numbers (''Ring (650) 555-0123 now'' @ [CHR 0x0A, CHR 0x0A] @ note) = [''650) 555-0123'']"
proof -
  obtain msg where n: "call_plan_note sample_plan 0 None = Inr msg" by (simp add: call_plan_note_def)
  show ?thesis
    by (rule exI [of _ msg], rule conjI [OF n],
        subst call_plan_note_adds_no_number [OF sample_plan_accepted n]) (simp_all add: call_numbers)
qed

end
