(* ===== verification/Schedules.thy ===== *)
theory Schedules
  imports Call_Plans Run_Repo
begin

text \<open>
  Scheduled work: the values of \<open>domain/schedules.py\<close> with their validators, and the in-memory
  schedule repository of \<open>adapters/persistence/schedules.py\<close> (schedules, their revisions, the
  occurrences that became of them, and idempotency records). Instants are aware UTC by type, so the
  normalising validators and the helper \<open>_aware_utc\<close> are the identity. Pydantic validates a
  constructor call and skips validation in \<open>model_copy\<close>; the model does the same.
\<close>

subsection \<open>Values\<close>

datatype schedule_state = Sched_ACTIVE | Sched_PAUSED | Sched_COMPLETED | Sched_CANCELLED

datatype pause_reason = Pause_USER | Pause_FAILURE_LIMIT

datatype schedule_notify = EVERY_REPORT | ATTENTION_ONLY

datatype occurrence_trigger = Trigger_SCHEDULED | Trigger_MANUAL

datatype occurrence_disposition =
  MATERIALIZED | MISSED | SKIPPED_OVERLAP | AUTHORIZATION_FAILED | CONFIGURATION_FAILED

datatype admission_outcome = Admit_ALLOW | Admit_RETRY | Admit_REJECT

record admission_decision =
  ad_outcome :: admission_outcome
  ad_reason_code :: "string option"

definition reason_matches_outcome :: "admission_decision \<Rightarrow> admission_decision res" where
  "reason_matches_outcome d =
     (if ad_outcome d = Admit_ALLOW \<and> ad_reason_code d \<noteq> None
      then Inl (ValueError ''allowed admission cannot carry a reason'')
      else if ad_outcome d \<noteq> Admit_ALLOW \<and> ad_reason_code d \<in> {None, Some []}
      then Inl (ValueError ''denied admission requires a stable reason'')
      else Inr d)"

record authority_snapshot =
  au_principal :: principal
  au_version :: string
  au_enabled :: bool

record schedule =
  sd_id :: uuid
  sd_tenant_id :: string
  sd_principal_id :: string
  sd_state :: schedule_state
  sd_pause_reason :: "pause_reason option"
  sd_current_revision :: int
  sd_next_fire_at :: "instant option"
  sd_consecutive_failures :: int
  sd_created_at :: instant
  sd_updated_at :: instant

definition state_is_consistent :: "schedule \<Rightarrow> schedule res" where
  "state_is_consistent s =
     (if sd_state s = Sched_PAUSED \<and> sd_pause_reason s = None
      then Inl (ValueError ''paused schedule requires a pause reason'')
      else if sd_state s \<noteq> Sched_PAUSED \<and> sd_pause_reason s \<noteq> None
      then Inl (ValueError ''only a paused schedule may carry a pause reason'')
      else if sd_state s \<in> {Sched_COMPLETED, Sched_CANCELLED} \<and> sd_next_fire_at s \<noteq> None
      then Inl (ValueError ''terminal schedule must not have a next firing'')
      else if sd_updated_at s < sd_created_at s
      then Inl (ValueError ''schedule updated_at precedes created_at'')
      else Inr s)"

datatype schedule_task = AgentRunTask | JobTask string uuid uuid

definition is_job_task :: "schedule_task \<Rightarrow> bool" where
  "is_job_task t = (case t of AgentRunTask \<Rightarrow> False | JobTask _ _ _ \<Rightarrow> True)"

record schedule_definition =
  df_title :: string
  df_instruction :: string
  df_task :: schedule_task
  df_agent_id :: uuid
  df_agent_version :: string
  df_policy_profile :: string
  df_requested_scopes :: "string set"
  df_browser_profile_id :: "uuid option"
  df_limits :: run_limits
  df_run_timeout_seconds :: int
  df_cadence :: cadence
  df_misfire_grace_seconds :: int
  df_max_consecutive_failures :: int
  df_call_plan :: "call_plan option"
  df_notify :: schedule_notify
  df_mcp_servers :: "string set"

record schedule_revision =
  rv_schedule_id :: uuid
  rv_revision :: int
  rv_title :: string
  rv_instruction :: string
  rv_task :: schedule_task
  rv_agent_id :: uuid
  rv_agent_version :: string
  rv_policy_profile :: string
  rv_requested_scopes :: "string set"
  rv_browser_profile_id :: "uuid option"
  rv_limits :: run_limits
  rv_run_timeout_seconds :: int
  rv_cadence :: cadence
  rv_timezone :: "string option"
  rv_misfire_grace_seconds :: int
  rv_max_consecutive_failures :: int
  rv_notify :: schedule_notify
  rv_created_by_principal_id :: string
  rv_created_at :: instant
  rv_call_plan :: "call_plan option"
  rv_mcp_servers :: "string set"

text \<open>The limit test both models share. A \<open>Decimal\<close> is a rational number, so it is finite.\<close>

definition limits_out_of_range :: "run_limits \<Rightarrow> bool \<Rightarrow> bool" where
  "limits_out_of_range limits job \<longleftrightarrow> max_steps limits \<le> 0
     \<or> max_model_calls limits < (if job then 0 else 1) \<or> max_tool_calls limits < (if job then 0 else 1)
     \<or> (case max_cost limits of None \<Rightarrow> True | Some c \<Rightarrow> c < 0 \<or> \<not> job \<and> c = 0)"

definition task_fits ::
    "string \<Rightarrow> schedule_task \<Rightarrow> call_plan option \<Rightarrow> uuid option \<Rightarrow> string set \<Rightarrow> run_limits \<Rightarrow> unit res" where
  "task_fits model task plan browser servers limits =
     (if is_job_task task \<and> (plan \<noteq> None \<or> browser \<noteq> None)
      then Inl (ValueError ''A job task has no browser binding or call plan.'')
      else if is_job_task task \<and> servers \<noteq> {}
      then Inl (ValueError ''A job task reads the MCP servers its grant names.'')
      else if limits_out_of_range limits (is_job_task task)
      then Inl (ValueError ''scheduled run limits must all be finite positive values'')
      else if limit_deadline_at limits \<noteq> None
      then Inl (ValueError (''scheduled '' @ model @ '' deadline is derived at materialization''))
      else Inr ())"

fun cadence_timezone :: "cadence \<Rightarrow> string option" where
  "cadence_timezone (OnceCadence t) = None"
| "cadence_timezone (DailyCadence t tz) = Some tz"
| "cadence_timezone (WeeklyCadence t ws tz) = Some tz"
| "cadence_timezone (MonthlyCadence t ds last_day tz) = Some tz"
| "cadence_timezone (YearlyCadence t ds tz) = Some tz"
| "cadence_timezone (IntervalCadence n tz) = Some tz"

definition definition_timezone :: "schedule_definition \<Rightarrow> string option" where
  "definition_timezone d = cadence_timezone (df_cadence d)"

definition execution_is_finite :: "schedule_definition \<Rightarrow> schedule_definition res" where
  "execution_is_finite d =
     rbind (task_fits ''definition'' (df_task d) (df_call_plan d) (df_browser_profile_id d) (df_mcp_servers d) (df_limits d)) (\<lambda>_.
     rbind (check_call_plan (df_call_plan d) (df_cadence d)) (\<lambda>_. Inr d))"

definition revision_is_consistent :: "schedule_revision \<Rightarrow> schedule_revision res" where
  "revision_is_consistent r =
     rbind (task_fits ''revision'' (rv_task r) (rv_call_plan r) (rv_browser_profile_id r) (rv_mcp_servers r) (rv_limits r)) (\<lambda>_.
     if cadence_timezone (rv_cadence r) = None \<and> rv_timezone r \<noteq> None
     then Inl (ValueError ''one-time cadence has no timezone'')
     else if cadence_timezone (rv_cadence r) \<noteq> None \<and> rv_timezone r \<noteq> cadence_timezone (rv_cadence r)
     then Inl (ValueError ''cadence timezone must match revision timezone'')
     else rbind (check_call_plan (rv_call_plan r) (rv_cadence r)) (\<lambda>_. Inr r))"

definition is_once :: "cadence \<Rightarrow> bool" where
  "is_once c = (case c of OnceCadence _ \<Rightarrow> True | _ \<Rightarrow> False)"

definition is_interval :: "cadence \<Rightarrow> bool" where
  "is_interval c = (case c of IntervalCadence _ _ \<Rightarrow> True | _ \<Rightarrow> False)"

definition FEED_KEEPING_SCOPE :: string where
  "FEED_KEEPING_SCOPE = ''cockpit.write''"

definition check_interval_cadence :: "cadence \<Rightarrow> string set \<Rightarrow> unit res" where
  "check_interval_cadence c requested =
     (if is_interval c \<and> FEED_KEEPING_SCOPE \<notin> requested
      then Inl (ValueError ''an interval cadence keeps a Cockpit feed; request publish_cockpit_feed'')
      else Inr ())"

definition COCKPIT_REFRESH_KEY_PREFIX :: string where
  "COCKPIT_REFRESH_KEY_PREFIX = ''cockpit.refresh:''"

definition COCKPIT_REFRESH_MIN_AGE :: int where
  "COCKPIT_REFRESH_MIN_AGE = 60000000"

definition is_cockpit_refresh :: "string option \<Rightarrow> bool" where
  "is_cockpit_refresh key = (case key of None \<Rightarrow> False | Some k \<Rightarrow> starts_with k COCKPIT_REFRESH_KEY_PREFIX)"

text \<open>\<open>f"{now:%Y-%m-%dT%H:%M}Z"\<close>; \<open>year_text\<close> gives four digits for the years of a calendar date.\<close>

definition year_text :: "int \<Rightarrow> string" where
  "year_text y = two_digits (y div 100) @ two_digits (y mod 100)"

definition cockpit_refresh_key :: "instant \<Rightarrow> string" where
  "cockpit_refresh_key t = (let d = wall_date t in
     COCKPIT_REFRESH_KEY_PREFIX @ year_text (year_of d) @ ''-'' @ two_digits (month_of d) @ ''-''
     @ two_digits (day_of d) @ ''T'' @ hh_mm t @ ''Z'')"

record schedule_occurrence =
  oc_id :: uuid
  oc_schedule_id :: uuid
  oc_schedule_revision :: int
  oc_nominal_fire_at :: instant
  oc_disposition :: occurrence_disposition
  oc_session_id :: "uuid option"
  oc_run_id :: "uuid option"
  oc_reason_code :: "string option"
  oc_authority_version :: "string option"
  oc_materialized_at :: "instant option"
  oc_links_erased_at :: "instant option"
  oc_created_at :: instant
  oc_trigger :: occurrence_trigger
  oc_manual_request_key :: "string option"

definition manual_key_matches_trigger :: "schedule_occurrence \<Rightarrow> schedule_occurrence res" where
  "manual_key_matches_trigger c =
     (if (oc_trigger c = Trigger_MANUAL) \<noteq> (oc_manual_request_key c \<noteq> None)
      then Inl (ValueError ''only a manual occurrence carries a request key, and it must'')
      else if oc_trigger c = Trigger_MANUAL \<and> oc_disposition c \<noteq> MATERIALIZED
      then Inl (ValueError ''a manual occurrence is recorded only once it starts a run'')
      else Inr c)"

definition disposition_is_consistent :: "schedule_occurrence \<Rightarrow> schedule_occurrence res" where
  "disposition_is_consistent c =
     (if oc_disposition c = MATERIALIZED then
        (case (oc_authority_version c, oc_materialized_at c) of
           (Some _, Some t) \<Rightarrow>
             (if oc_links_erased_at c = None \<and> (oc_session_id c = None \<or> oc_run_id c = None)
              then Inl (ValueError ''materialized occurrence requires session and run links'')
              else if oc_links_erased_at c \<noteq> None \<and> (oc_session_id c \<noteq> None \<or> oc_run_id c \<noteq> None)
              then Inl (ValueError ''erased materialized occurrence must clear both links'')
              else if oc_reason_code c \<noteq> None
              then Inl (ValueError ''materialized occurrence cannot carry a reason code'')
              else if t < oc_nominal_fire_at c
              then Inl (ValueError ''materialized occurrence cannot precede its nominal instant'')
              else if (case oc_links_erased_at c of None \<Rightarrow> False | Some e \<Rightarrow> e < t)
              then Inl (ValueError ''materialized links cannot be erased before materialization'')
              else Inr c)
         | _ \<Rightarrow> Inl (ValueError ''materialized occurrence requires authority and time''))
      else if oc_session_id c \<noteq> None \<or> oc_run_id c \<noteq> None \<or> oc_materialized_at c \<noteq> None
        \<or> oc_links_erased_at c \<noteq> None
      then Inl (ValueError ''non-materialized occurrence cannot carry materialization or erasure state'')
      else if (case oc_reason_code c of None \<Rightarrow> True | Some r \<Rightarrow> py_strip r = [])
      then Inl (ValueError ''non-materialized occurrence requires a stable reason code'')
      else Inr c)"

definition occurrence_fields_ok :: "schedule_occurrence \<Rightarrow> bool" where
  "occurrence_fields_ok c \<longleftrightarrow> 1 \<le> oc_schedule_revision c
     \<and> (case oc_manual_request_key c of None \<Rightarrow> True | Some k \<Rightarrow> 1 \<le> length k \<and> length k \<le> 255)"

text \<open>A constructor call: the declared fields, then the two validators in the order of the class.\<close>

definition new_occurrence :: "schedule_occurrence \<Rightarrow> schedule_occurrence res" where
  "new_occurrence c =
     (if \<not> occurrence_fields_ok c then Inl (ValueError ''schedule occurrence fields are out of range'')
      else rbind (manual_key_matches_trigger c) disposition_is_consistent)"

record scheduled_run_link =
  sl_occurrence :: schedule_occurrence
  sl_tenant_id :: string
  sl_principal_id :: string

record schedule_idempotency =
  sx_tenant_id :: string
  sx_principal_id :: string
  sx_key :: string
  sx_request_hash :: string
  sx_schedule_id :: uuid
  sx_created_at :: instant

subsection \<open>The repository\<close>

record schedule_repo =
  so_schedules :: "(uuid, schedule) dict"
  so_revisions :: "(uuid \<times> int, schedule_revision) dict"
  so_occurrences :: "(uuid, schedule_occurrence) dict"
  so_occurrence_keys :: "(uuid \<times> instant, uuid) dict"
  so_idempotency :: "(string \<times> string \<times> string, schedule_idempotency) dict"

definition empty_schedule_repo :: schedule_repo where
  "empty_schedule_repo = \<lparr> so_schedules = [], so_revisions = [], so_occurrences = [],
     so_occurrence_keys = [], so_idempotency = [] \<rparr>"

definition schedule_owner :: "schedule \<Rightarrow> string \<times> string" where
  "schedule_owner s = (sd_tenant_id s, sd_principal_id s)"

abbreviation schedule_missing :: error where
  "schedule_missing \<equiv> NotFoundError ''schedule not found''"

abbreviation schedule_conflict :: "string \<Rightarrow> 'a res" where
  "schedule_conflict m \<equiv> Inl (ConflictError m None)"

definition schedule_create :: "schedule_repo \<Rightarrow> schedule \<Rightarrow> schedule_revision \<Rightarrow> schedule_repo res" where
  "schedule_create S s r =
     (if sd_id s \<noteq> rv_schedule_id r \<or> sd_current_revision s \<noteq> rv_revision r
      then schedule_conflict ''schedule and initial revision do not match''
      else if dhas (so_schedules S) (sd_id s) then schedule_conflict ''schedule already exists''
      else Inr (S\<lparr> so_schedules := dset (sd_id s) s (so_schedules S),
        so_revisions := dset (sd_id s, rv_revision r) r (so_revisions S) \<rparr>))"

definition schedule_get :: "schedule_repo \<Rightarrow> uuid \<Rightarrow> principal \<Rightarrow> schedule res" where
  "schedule_get S i p = (case dget (so_schedules S) i of
      None \<Rightarrow> Inl schedule_missing
    | Some s \<Rightarrow> if owned_by (schedule_owner s) p then Inr s else Inl schedule_missing)"

definition get_revision :: "schedule_repo \<Rightarrow> uuid \<Rightarrow> int \<Rightarrow> principal \<Rightarrow> schedule_revision res" where
  "get_revision S i n p = rbind (schedule_get S i p) (\<lambda>_.
     dlookup (NotFoundError ''schedule revision not found'') (so_revisions S) (i, n))"

fun get_revisions ::
    "schedule_repo \<Rightarrow> (uuid \<times> int) list \<Rightarrow> principal \<Rightarrow> (uuid \<times> int, schedule_revision) dict \<Rightarrow>
       (uuid \<times> int, schedule_revision) dict res" where
  "get_revisions S [] p found = Inr found"
| "get_revisions S (k # ks) p found =
     rbind (get_revision S (fst k) (snd k) p) (\<lambda>r. get_revisions S ks p (dset k r found))"

definition positive_limit :: "int \<Rightarrow> int res" where
  "positive_limit n = (if n \<le> 0 then Inl (ValueError ''schedule repository limit must be positive'') else Inr n)"

definition schedule_list ::
    "schedule_repo \<Rightarrow> principal \<Rightarrow> int \<Rightarrow> (instant \<times> uuid) option \<Rightarrow> schedule_state set option \<Rightarrow>
       schedule list res" where
  "schedule_list S p limit cursor states = rbind (positive_limit limit) (\<lambda>_.
     let rows = filter (\<lambda>s. owned_by (schedule_owner s) p
           \<and> (case states of None \<Rightarrow> True | Some ss \<Rightarrow> sd_state s \<in> ss)) (dvals (so_schedules S));
         ordered = sort_key_desc (\<lambda>s. (sd_updated_at s, sd_id s)) rows
     in Inr (py_take limit (case cursor of None \<Rightarrow> ordered
          | Some c \<Rightarrow> filter (\<lambda>s. (sd_updated_at s, sd_id s) < c) ordered)))"

definition due :: "schedule_repo \<Rightarrow> instant \<Rightarrow> int \<Rightarrow> uuid list res" where
  "due S t limit = rbind (positive_limit limit) (\<lambda>_.
     Inr (map sd_id (py_take limit (sort_key (\<lambda>s. (the (sd_next_fire_at s), sd_id s))
       (filter (\<lambda>s. sd_state s = Sched_ACTIVE
          \<and> (case sd_next_fire_at s of None \<Rightarrow> False | Some f \<Rightarrow> f \<le> t)) (dvals (so_schedules S)))))))"

definition repo_next_fire_at :: "schedule_repo \<Rightarrow> instant option" where
  "repo_next_fire_at S =
     (let fires = map (\<lambda>s. the (sd_next_fire_at s)) (filter (\<lambda>s. sd_state s = Sched_ACTIVE \<and> sd_next_fire_at s \<noteq> None)
        (dvals (so_schedules S)))
      in if fires = [] then None else Some (Min (set fires)))"

definition lock_due :: "schedule_repo \<Rightarrow> uuid \<Rightarrow> instant \<Rightarrow> schedule option" where
  "lock_due S i t = (case dget (so_schedules S) i of
      None \<Rightarrow> None
    | Some s \<Rightarrow> if sd_state s \<noteq> Sched_ACTIVE then None
        else (case sd_next_fire_at s of None \<Rightarrow> None | Some f \<Rightarrow> if f > t then None else Some s))"

definition advance :: "schedule_repo \<Rightarrow> schedule \<Rightarrow> schedule \<Rightarrow> schedule_repo res" where
  "advance S previous updated =
     (if dget (so_schedules S) (sd_id previous) \<noteq> Some previous
      then schedule_conflict ''schedule changed before its decision was persisted''
      else if sd_id updated \<noteq> sd_id previous \<or> sd_current_revision updated \<noteq> sd_current_revision previous
      then schedule_conflict ''schedule decision cannot change identity or revision''
      else Inr (S\<lparr> so_schedules := dset (sd_id updated) updated (so_schedules S) \<rparr>))"

definition schedule_replace ::
    "schedule_repo \<Rightarrow> schedule \<Rightarrow> schedule \<Rightarrow> schedule_revision option \<Rightarrow> schedule_repo res" where
  "schedule_replace S previous updated revision =
     (if dget (so_schedules S) (sd_id previous) \<noteq> Some previous
      then schedule_conflict ''schedule changed before mutation''
      else if sd_id updated \<noteq> sd_id previous then schedule_conflict ''schedule mutation cannot change identity''
      else case revision of
        None \<Rightarrow>
          if sd_current_revision updated \<noteq> sd_current_revision previous
          then schedule_conflict ''state mutation cannot change revision''
          else Inr (S\<lparr> so_schedules := dset (sd_id updated) updated (so_schedules S) \<rparr>)
      | Some r \<Rightarrow>
          if rv_schedule_id r \<noteq> sd_id previous \<or> rv_revision r \<noteq> sd_current_revision previous + 1
            \<or> sd_current_revision updated \<noteq> rv_revision r
            \<or> dhas (so_revisions S) (sd_id previous, rv_revision r)
          then schedule_conflict ''schedule revision mutation is inconsistent''
          else Inr (S\<lparr> so_revisions := dset (sd_id previous, rv_revision r) r (so_revisions S),
            so_schedules := dset (sd_id updated) updated (so_schedules S) \<rparr>))"

definition manual_clash :: "schedule_repo \<Rightarrow> schedule_occurrence \<Rightarrow> schedule_occurrence option" where
  "manual_clash S c = (if oc_manual_request_key c = None then None
     else List.find (\<lambda>e. oc_schedule_id e = oc_schedule_id c
       \<and> oc_manual_request_key e = oc_manual_request_key c) (dvals (so_occurrences S)))"

definition occurrence_insert ::
    "schedule_repo \<Rightarrow> schedule_occurrence \<Rightarrow> (schedule_occurrence \<times> schedule_repo) res" where
  "occurrence_insert S c =
     (if \<not> dhas (so_schedules S) (oc_schedule_id c) then Inl schedule_missing
      else if \<not> dhas (so_revisions S) (oc_schedule_id c, oc_schedule_revision c)
      then Inl (NotFoundError ''schedule revision not found'')
      else case manual_clash S c of
        Some e \<Rightarrow> if e = c then Inr (e, S) else schedule_conflict ''manual occurrence key already used''
      | None \<Rightarrow>
        (let key = (oc_schedule_id c, oc_nominal_fire_at c); scheduled = (oc_trigger c = Trigger_SCHEDULED)
         in case (if scheduled then dget (so_occurrence_keys S) key else None) of
              Some i \<Rightarrow> rbind (dlookup KeyError (so_occurrences S) i) (\<lambda>e.
                if e = c then Inr (e, S)
                else schedule_conflict ''schedule occurrence already exists with different content'')
            | None \<Rightarrow>
                if dhas (so_occurrences S) (oc_id c)
                then schedule_conflict ''schedule occurrence identifier already exists''
                else Inr (c, S\<lparr> so_occurrences := dset (oc_id c) c (so_occurrences S),
                  so_occurrence_keys := (if scheduled then dset key (oc_id c) (so_occurrence_keys S)
                    else so_occurrence_keys S) \<rparr>)))"

definition get_occurrence_by_nominal ::
    "schedule_repo \<Rightarrow> uuid \<Rightarrow> instant \<Rightarrow> schedule_occurrence option res" where
  "get_occurrence_by_nominal S i t = (case dget (so_occurrence_keys S) (i, t) of
      None \<Rightarrow> Inr None
    | Some k \<Rightarrow> rbind (dlookup KeyError (so_occurrences S) k) (\<lambda>c. Inr (Some c)))"

definition latest_occurrence_at_or_before ::
    "schedule_repo \<Rightarrow> uuid \<Rightarrow> instant \<Rightarrow> schedule_occurrence option" where
  "latest_occurrence_at_or_before S i t = max_by (\<lambda>c. (oc_nominal_fire_at c, oc_id c))
     (filter (\<lambda>c. oc_schedule_id c = i \<and> oc_trigger c = Trigger_SCHEDULED \<and> oc_nominal_fire_at c \<le> t)
       (dvals (so_occurrences S)))"

definition latest_materialized_occurrence :: "schedule_repo \<Rightarrow> uuid \<Rightarrow> schedule_occurrence option" where
  "latest_materialized_occurrence S i = max_by (\<lambda>c. (oc_nominal_fire_at c, oc_id c))
     (filter (\<lambda>c. oc_schedule_id c = i \<and> oc_disposition c = MATERIALIZED) (dvals (so_occurrences S)))"

definition manual_occurrence :: "schedule_repo \<Rightarrow> uuid \<Rightarrow> string \<Rightarrow> schedule_occurrence option" where
  "manual_occurrence S i key = List.find (\<lambda>c. oc_schedule_id c = i \<and> oc_manual_request_key c = Some key)
     (dvals (so_occurrences S))"

definition count_manual_since :: "schedule_repo \<Rightarrow> uuid \<Rightarrow> instant \<Rightarrow> int" where
  "count_manual_since S i since = int (length (filter (\<lambda>c. oc_schedule_id c = i \<and> oc_trigger c = Trigger_MANUAL
     \<and> \<not> is_cockpit_refresh (oc_manual_request_key c) \<and> since \<le> oc_created_at c) (dvals (so_occurrences S))))"

definition occurrence_by_run :: "schedule_repo \<Rightarrow> uuid \<Rightarrow> scheduled_run_link option res" where
  "occurrence_by_run S run_id = (case filter (\<lambda>c. oc_run_id c = Some run_id) (dvals (so_occurrences S)) of
      [] \<Rightarrow> Inr None
    | [c] \<Rightarrow> rbind (dlookup KeyError (so_schedules S) (oc_schedule_id c)) (\<lambda>s.
        Inr (Some \<lparr> sl_occurrence = c, sl_tenant_id = sd_tenant_id s, sl_principal_id = sd_principal_id s \<rparr>))
    | _ \<Rightarrow> schedule_conflict ''run is linked to multiple schedule occurrences'')"

definition list_occurrences ::
    "schedule_repo \<Rightarrow> uuid \<Rightarrow> principal \<Rightarrow> int \<Rightarrow> (instant \<times> uuid) option \<Rightarrow> schedule_occurrence list res" where
  "list_occurrences S i p limit cursor = rbind (schedule_get S i p) (\<lambda>_. rbind (positive_limit limit) (\<lambda>_.
     let ordered = sort_key_desc (\<lambda>c. (oc_nominal_fire_at c, oc_id c))
           (filter (\<lambda>c. oc_schedule_id c = i) (dvals (so_occurrences S)))
     in Inr (py_take limit (case cursor of None \<Rightarrow> ordered
          | Some k \<Rightarrow> filter (\<lambda>c. (oc_nominal_fire_at c, oc_id c) < k) ordered))))"

definition purge_candidates :: "schedule_repo \<Rightarrow> string \<Rightarrow> instant \<Rightarrow> int \<Rightarrow> uuid set" where
  "purge_candidates S tenant before limit = set (map sd_id (py_take limit
     (sort_key (\<lambda>s. (sd_updated_at s, sd_id s)) (filter (\<lambda>s. sd_tenant_id s = tenant
        \<and> sd_state s \<in> {Sched_COMPLETED, Sched_CANCELLED} \<and> sd_updated_at s \<le> before)
        (dvals (so_schedules S))))))"

definition purge_terminal :: "schedule_repo \<Rightarrow> string \<Rightarrow> instant \<Rightarrow> int \<Rightarrow> (int \<times> schedule_repo) res" where
  "purge_terminal S tenant before limit = rbind (positive_limit limit) (\<lambda>_.
     let gone = purge_candidates S tenant before limit
     in if gone = {} then Inr (0, S)
        else let old = set (map fst (filter (\<lambda>(i, c). oc_schedule_id c \<in> gone) (so_occurrences S)))
             in Inr (int (card gone),
               S\<lparr> so_idempotency := filter (\<lambda>(k, x). sx_schedule_id x \<notin> gone) (so_idempotency S),
                 so_occurrence_keys := filter (\<lambda>(k, i). i \<notin> old) (so_occurrence_keys S),
                 so_occurrences := filter (\<lambda>(i, c). i \<notin> old) (so_occurrences S),
                 so_revisions := filter (\<lambda>(k, r). fst k \<notin> gone) (so_revisions S),
                 so_schedules := filter (\<lambda>(i, s). i \<notin> gone) (so_schedules S) \<rparr>))"

definition get_schedule_idempotency ::
    "schedule_repo \<Rightarrow> string \<Rightarrow> string \<Rightarrow> string \<Rightarrow> schedule_idempotency option" where
  "get_schedule_idempotency S tenant pid key = dget (so_idempotency S) (tenant, pid, key)"

definition create_schedule_idempotency ::
    "schedule_repo \<Rightarrow> schedule_idempotency \<Rightarrow> (schedule_idempotency \<times> schedule_repo) res" where
  "create_schedule_idempotency S x =
     (let key = (sx_tenant_id x, sx_principal_id x, sx_key x)
      in case dget (so_idempotency S) key of
           Some e \<Rightarrow> if e = x then Inr (e, S)
             else schedule_conflict ''schedule idempotency key reused with different request''
         | None \<Rightarrow> (case dget (so_schedules S) (sx_schedule_id x) of
               None \<Rightarrow> Inl schedule_missing
             | Some s \<Rightarrow> if schedule_owner s \<noteq> (sx_tenant_id x, sx_principal_id x) then Inl schedule_missing
                 else Inr (x, S\<lparr> so_idempotency := dset key x (so_idempotency S) \<rparr>)))"

subsection \<open>What every repository state satisfies\<close>

lemma dget_filter:
  assumes "distinct (map fst d)"
  shows "dget (filter (\<lambda>(k, v). P k v) d) k = (case dget d k of None \<Rightarrow> None | Some v \<Rightarrow> if P k v then Some v else None)"
  using assms by (induction d) (force simp: map_of_eq_None_iff split: option.splits)+

lemma keyed_filter: "keyed key d \<Longrightarrow> keyed key (filter P d)"
  by (auto simp: keyed_def distinct_map_filter)

abbreviation revision_key :: "schedule_revision \<Rightarrow> uuid \<times> int" where
  "revision_key r \<equiv> (rv_schedule_id r, rv_revision r)"

abbreviation idempotency_key :: "schedule_idempotency \<Rightarrow> string \<times> string \<times> string" where
  "idempotency_key x \<equiv> (sx_tenant_id x, sx_principal_id x, sx_key x)"

definition tables_keyed :: "schedule_repo \<Rightarrow> bool" where
  "tables_keyed S \<longleftrightarrow> keyed sd_id (so_schedules S) \<and> keyed revision_key (so_revisions S)
     \<and> keyed oc_id (so_occurrences S) \<and> keyed idempotency_key (so_idempotency S)
     \<and> distinct (map fst (so_occurrence_keys S))"

definition revisions_linked :: "schedule_repo \<Rightarrow> bool" where
  "revisions_linked S \<longleftrightarrow>
     (\<forall>i s. dget (so_schedules S) i = Some s \<longrightarrow> dget (so_revisions S) (i, sd_current_revision s) \<noteq> None)
     \<and> (\<forall>i n. dget (so_revisions S) (i, n) \<noteq> None \<longrightarrow>
          (\<exists>s. dget (so_schedules S) i = Some s \<and> n \<le> sd_current_revision s))"

definition occurrences_linked :: "schedule_repo \<Rightarrow> bool" where
  "occurrences_linked S \<longleftrightarrow>
     (\<forall>k c. dget (so_occurrences S) k = Some c \<longrightarrow>
        dget (so_revisions S) (oc_schedule_id c, oc_schedule_revision c) \<noteq> None)
     \<and> (\<forall>k x. dget (so_idempotency S) k = Some x \<longrightarrow> dget (so_schedules S) (sx_schedule_id x) \<noteq> None)"

definition scheduled_indexed :: "schedule_repo \<Rightarrow> bool" where
  "scheduled_indexed S \<longleftrightarrow> (\<forall>i t k. dget (so_occurrence_keys S) (i, t) = Some k \<longleftrightarrow>
     (\<exists>c. dget (so_occurrences S) k = Some c \<and> oc_schedule_id c = i \<and> oc_nominal_fire_at c = t
        \<and> oc_trigger c = Trigger_SCHEDULED))"

definition manual_unique :: "schedule_repo \<Rightarrow> bool" where
  "manual_unique S \<longleftrightarrow> (\<forall>k k' c c'. dget (so_occurrences S) k = Some c \<longrightarrow> dget (so_occurrences S) k' = Some c' \<longrightarrow>
     oc_schedule_id c = oc_schedule_id c' \<longrightarrow> oc_manual_request_key c = oc_manual_request_key c' \<longrightarrow>
     oc_manual_request_key c \<noteq> None \<longrightarrow> k = k')"

definition schedule_repo_ok :: "schedule_repo \<Rightarrow> bool" where
  "schedule_repo_ok S \<longleftrightarrow> tables_keyed S \<and> revisions_linked S \<and> occurrences_linked S
     \<and> scheduled_indexed S \<and> manual_unique S"

lemmas schedule_repo_parts = schedule_repo_ok_def tables_keyed_def revisions_linked_def occurrences_linked_def
  scheduled_indexed_def manual_unique_def

lemma schedule_create_ok:
  assumes "schedule_create S s r = Inr S'" and "schedule_repo_ok S"
  shows "schedule_repo_ok S'"
proof -
  have S': "S' = S\<lparr> so_schedules := dset (sd_id s) s (so_schedules S),
        so_revisions := dset (sd_id s, rv_revision r) r (so_revisions S) \<rparr>"
    and new: "dget (so_schedules S) (sd_id s) = None" "sd_id s = rv_schedule_id r" "sd_current_revision s = rv_revision r"
    using assms(1) by (auto simp: schedule_create_def dhas_iff split: if_splits)
  have ok: "tables_keyed S" "revisions_linked S" "occurrences_linked S" "scheduled_indexed S" "manual_unique S"
    using assms(2) by (simp_all add: schedule_repo_ok_def)
  have "tables_keyed S'" using ok(1) new by (auto simp: tables_keyed_def S')
  moreover have "revisions_linked S'"
    using ok(2) new unfolding revisions_linked_def S' by (fastforce split: if_splits)
  moreover have "occurrences_linked S'" using ok(3) unfolding occurrences_linked_def S' by auto
  moreover have "scheduled_indexed S'" "manual_unique S'"
    using ok(4,5) by (simp_all add: scheduled_indexed_def manual_unique_def S')
  ultimately show ?thesis by (simp add: schedule_repo_ok_def)
qed

lemma schedule_update_ok:
  assumes "schedule_repo_ok S" and "dget (so_schedules S) (sd_id s) = Some old"
    and "dget (so_revisions S) (sd_id s, sd_current_revision s) \<noteq> None" and "sd_current_revision old \<le> sd_current_revision s"
  shows "schedule_repo_ok (S\<lparr> so_schedules := dset (sd_id s) s (so_schedules S) \<rparr>)"
proof -
  define S' where "S' = S\<lparr> so_schedules := dset (sd_id s) s (so_schedules S) \<rparr>"
  have ok: "tables_keyed S" "revisions_linked S" "occurrences_linked S" "scheduled_indexed S" "manual_unique S"
    using assms(1) by (simp_all add: schedule_repo_ok_def)
  have "tables_keyed S'" using ok(1) by (auto simp: tables_keyed_def S'_def)
  moreover have "revisions_linked S'"
    using ok(2) assms(2-4) unfolding revisions_linked_def S'_def by (fastforce split: if_splits)
  moreover have "occurrences_linked S'" using ok(3) unfolding occurrences_linked_def S'_def by auto
  moreover have "scheduled_indexed S'" "manual_unique S'"
    using ok(4,5) by (simp_all add: scheduled_indexed_def manual_unique_def S'_def)
  ultimately show ?thesis by (simp add: schedule_repo_ok_def S'_def)
qed

lemma advance_ok:
  assumes "advance S previous updated = Inr S'" and "schedule_repo_ok S"
  shows "schedule_repo_ok S'"
proof -
  have S': "S' = S\<lparr> so_schedules := dset (sd_id updated) updated (so_schedules S) \<rparr>"
    and p: "dget (so_schedules S) (sd_id updated) = Some previous" "sd_current_revision updated = sd_current_revision previous"
    using assms(1) by (auto simp: advance_def split: if_splits)
  have "dget (so_revisions S) (sd_id updated, sd_current_revision updated) \<noteq> None"
    using assms(2) p by (simp add: schedule_repo_ok_def revisions_linked_def)
  then show ?thesis unfolding S' using schedule_update_ok [OF assms(2) p(1)] p(2) by simp
qed

lemma schedule_replace_ok:
  assumes "schedule_replace S previous updated revision = Inr S'" and "schedule_repo_ok S"
  shows "schedule_repo_ok S'"
proof (cases revision)
  case None
  then have "advance S previous updated = Inr S'"
    using assms(1) by (auto simp: schedule_replace_def advance_def split: if_splits)
  then show ?thesis using assms(2) by (rule advance_ok)
next
  case (Some r)
  define S1 where "S1 = S\<lparr> so_revisions := dset (sd_id updated, rv_revision r) r (so_revisions S) \<rparr>"
  have S': "S' = S1\<lparr> so_schedules := dset (sd_id updated) updated (so_schedules S1) \<rparr>"
    and p: "dget (so_schedules S) (sd_id updated) = Some previous" "rv_schedule_id r = sd_id updated"
      "rv_revision r = sd_current_revision previous + 1" "sd_current_revision updated = rv_revision r"
      "dget (so_revisions S) (sd_id updated, rv_revision r) = None"
    using assms(1) Some by (auto simp: schedule_replace_def S1_def dhas_iff split: if_splits)
  have ok: "tables_keyed S" "revisions_linked S" "occurrences_linked S" "scheduled_indexed S" "manual_unique S"
    using assms(2) by (simp_all add: schedule_repo_ok_def)
  have "tables_keyed S'" using ok(1) p by (auto simp: tables_keyed_def S' S1_def)
  moreover have "revisions_linked S'"
    using ok(2) p unfolding revisions_linked_def S' S1_def by (fastforce split: if_splits)
  moreover have "occurrences_linked S'" using ok(3) unfolding occurrences_linked_def S' S1_def by auto
  moreover have "scheduled_indexed S'" "manual_unique S'"
    using ok(4,5) by (simp_all add: scheduled_indexed_def manual_unique_def S' S1_def)
  ultimately show ?thesis by (simp add: schedule_repo_ok_def)
qed

text \<open>An insertion either finds the same occurrence stored already or adds a fresh one.\<close>

lemma occurrence_insert_cases:
  assumes "occurrence_insert S c = Inr (e, S')" and "schedule_repo_ok S"
  obtains (found) "e = c" "S' = S" "dget (so_occurrences S) (oc_id c) = Some c"
  | (fresh) "e = c" "dget (so_occurrences S) (oc_id c) = None"
      "dget (so_revisions S) (oc_schedule_id c, oc_schedule_revision c) \<noteq> None"
      "oc_trigger c = Trigger_SCHEDULED \<longrightarrow> dget (so_occurrence_keys S) (oc_schedule_id c, oc_nominal_fire_at c) = None"
      "manual_clash S c = None"
      "S' = S\<lparr> so_occurrences := dset (oc_id c) c (so_occurrences S),
        so_occurrence_keys := (if oc_trigger c = Trigger_SCHEDULED
          then dset (oc_schedule_id c, oc_nominal_fire_at c) (oc_id c) (so_occurrence_keys S)
          else so_occurrence_keys S) \<rparr>"
proof -
  have known: "dget (so_revisions S) (oc_schedule_id c, oc_schedule_revision c) \<noteq> None"
    using assms(1) by (auto simp: occurrence_insert_def dhas_iff split: if_splits)
  have keyed: "keyed oc_id (so_occurrences S)" using assms(2) by (simp add: schedule_repo_ok_def tables_keyed_def)
  show ?thesis
  proof (cases "manual_clash S c")
    case (Some e')
    then have "e = c \<and> S' = S \<and> c \<in> set (dvals (so_occurrences S))"
      using assms(1) by (auto simp: occurrence_insert_def manual_clash_def find_Some_iff split: if_splits)
    then show ?thesis using keyed_vals [OF keyed] found by blast
  next
    case None
    show ?thesis
    proof (cases "if oc_trigger c = Trigger_SCHEDULED then dget (so_occurrence_keys S) (oc_schedule_id c, oc_nominal_fire_at c) else None")
      case (Some i)
      then have "e = c \<and> S' = S \<and> dget (so_occurrences S) i = Some c"
        using assms(1) \<open>manual_clash S c = None\<close>
        by (auto simp: occurrence_insert_def Let_def rbind_Inr_iff split: if_splits)
      then show ?thesis using keyed_dget [OF keyed] found by metis
    next
      case None
      then show ?thesis
        using assms(1) \<open>manual_clash S c = None\<close> known
        by (intro fresh) (auto simp: occurrence_insert_def Let_def dhas_iff split: if_splits)
    qed
  qed
qed

lemma manual_clash_None:
  assumes "manual_clash S c = None" and "keyed oc_id (so_occurrences S)" and "dget (so_occurrences S) k = Some e"
    and "oc_schedule_id e = oc_schedule_id c" and "oc_manual_request_key e = oc_manual_request_key c"
  shows "oc_manual_request_key c = None"
proof -
  have "e \<in> set (dvals (so_occurrences S))" using keyed_vals [OF assms(2)] keyed_dget [OF assms(2,3)] assms(3) by metis
  then show ?thesis using assms(1,4,5) by (auto simp: manual_clash_def find_None_iff split: if_splits)
qed

lemma occurrence_insert_ok:
  assumes "occurrence_insert S c = Inr (e, S')" and "schedule_repo_ok S"
  shows "schedule_repo_ok S'"
  using assms
proof (cases rule: occurrence_insert_cases)
  case found
  then show ?thesis using assms(2) by simp
next
  case fresh
  have ok: "tables_keyed S" "revisions_linked S" "occurrences_linked S" "scheduled_indexed S" "manual_unique S"
    using assms(2) by (simp_all add: schedule_repo_ok_def)
  have keyed: "keyed oc_id (so_occurrences S)" using ok(1) by (simp add: tables_keyed_def)
  have "tables_keyed S'" using ok(1) by (auto simp: tables_keyed_def fresh(6))
  moreover have "revisions_linked S'" using ok(2) by (simp add: revisions_linked_def fresh(6))
  moreover have "occurrences_linked S'" using ok(3) fresh(3) unfolding occurrences_linked_def fresh(6) by auto
  moreover have "scheduled_indexed S'"
    using ok(4) fresh(2,4) unfolding scheduled_indexed_def fresh(6) by (auto, metis option.distinct(1))
  moreover have "manual_unique S'"
    using ok(5) manual_clash_None [OF fresh(5) keyed] unfolding manual_unique_def fresh(6)
    by (auto split: if_splits; metis)
  ultimately show ?thesis by (simp add: schedule_repo_ok_def)
qed

lemma create_schedule_idempotency_ok:
  assumes "create_schedule_idempotency S x = Inr (e, S')" and "schedule_repo_ok S"
  shows "schedule_repo_ok S'"
  using assms
  by (auto simp: create_schedule_idempotency_def Let_def schedule_repo_parts split: option.splits if_splits)

lemma purge_terminal_cases:
  assumes "purge_terminal S tenant before limit = Inr (n, S')"
  obtains (unchanged) "S' = S" "n = 0"
  | (purged) gone old where "gone = purge_candidates S tenant before limit" "n = int (card gone)"
      "old = set (map fst (filter (\<lambda>(i, c). oc_schedule_id c \<in> gone) (so_occurrences S)))"
      "S' = S\<lparr> so_idempotency := filter (\<lambda>(k, x). sx_schedule_id x \<notin> gone) (so_idempotency S),
                 so_occurrence_keys := filter (\<lambda>(k, i). i \<notin> old) (so_occurrence_keys S),
                 so_occurrences := filter (\<lambda>(i, c). i \<notin> old) (so_occurrences S),
                 so_revisions := filter (\<lambda>(k, r). fst k \<notin> gone) (so_revisions S),
                 so_schedules := filter (\<lambda>(i, s). i \<notin> gone) (so_schedules S) \<rparr>"
  using assms by (auto simp: purge_terminal_def Let_def rbind_Inr_iff positive_limit_def split: if_splits)

lemma purge_terminal_ok:
  assumes "purge_terminal S tenant before limit = Inr (n, S')" and "schedule_repo_ok S"
  shows "schedule_repo_ok S'"
  using assms(1)
proof (cases rule: purge_terminal_cases)
  case unchanged
  then show ?thesis using assms(2) by simp
next
  case (purged gone old)
  have ok: "tables_keyed S" "revisions_linked S" "occurrences_linked S" "scheduled_indexed S" "manual_unique S"
    using assms(2) by (simp_all add: schedule_repo_ok_def)
  have tables: "distinct (map fst (so_schedules S))" "distinct (map fst (so_revisions S))"
      "distinct (map fst (so_occurrences S))" "distinct (map fst (so_idempotency S))" "distinct (map fst (so_occurrence_keys S))"
    using ok(1) by (auto simp: tables_keyed_def dest: keyed_distinct)
  have old: "k \<in> old \<longleftrightarrow> (\<exists>c. dget (so_occurrences S) k = Some c \<and> oc_schedule_id c \<in> gone)" for k
    using tables(3) unfolding purged(3) by force
  have schedules: "dget (so_schedules S') i = (if i \<in> gone then None else dget (so_schedules S) i)" for i
    using dget_filter [OF tables(1)] by (simp add: purged(4) split: option.splits)
  have revisions: "dget (so_revisions S') (i, m) = (if i \<in> gone then None else dget (so_revisions S) (i, m))" for i m
    using dget_filter [OF tables(2)] by (simp add: purged(4) split: option.splits)
  have occurrences: "dget (so_occurrences S') k = Some c \<longleftrightarrow> dget (so_occurrences S) k = Some c \<and> oc_schedule_id c \<notin> gone" for k c
    using dget_filter [OF tables(3), of "\<lambda>i c. i \<notin> old" k] old [of k] by (auto simp: purged(4) split: option.splits if_splits)
  have idem: "dget (so_idempotency S') k = Some x \<longleftrightarrow> dget (so_idempotency S) k = Some x \<and> sx_schedule_id x \<notin> gone" for k x
    using dget_filter [OF tables(4), of "\<lambda>k x. sx_schedule_id x \<notin> gone" k] by (auto simp: purged(4) split: option.splits if_splits)
  have keys: "dget (so_occurrence_keys S') q = Some k \<longleftrightarrow> dget (so_occurrence_keys S) q = Some k \<and> k \<notin> old" for q k
    using dget_filter [OF tables(5), of "\<lambda>k i. i \<notin> old" q] by (auto simp: purged(4) split: option.splits if_splits)
  have "tables_keyed S'"
    using ok(1) by (simp add: tables_keyed_def purged(4) keyed_filter distinct_map_filter)
  moreover have "revisions_linked S'" using ok(2) unfolding revisions_linked_def by (simp add: schedules revisions)
  moreover have "occurrences_linked S'"
    using ok(3) unfolding occurrences_linked_def by (simp add: occurrences idem revisions schedules) blast
  moreover have "scheduled_indexed S'"
    using ok(4) unfolding scheduled_indexed_def by (auto simp: keys occurrences old)
  moreover have "manual_unique S'" using ok(5) unfolding manual_unique_def occurrences by blast
  ultimately show ?thesis by (simp add: schedule_repo_ok_def)
qed

inductive schedule_step :: "schedule_repo \<Rightarrow> schedule_repo \<Rightarrow> bool" where
  sstep_create: "schedule_create S s r = Inr S' \<Longrightarrow> schedule_step S S'"
| sstep_advance: "advance S s s' = Inr S' \<Longrightarrow> schedule_step S S'"
| sstep_replace: "schedule_replace S s s' r = Inr S' \<Longrightarrow> schedule_step S S'"
| sstep_insert: "occurrence_insert S c = Inr (e, S') \<Longrightarrow> schedule_step S S'"
| sstep_purge: "purge_terminal S tenant before limit = Inr (n, S') \<Longrightarrow> schedule_step S S'"
| sstep_idempotency: "create_schedule_idempotency S x = Inr (y, S') \<Longrightarrow> schedule_step S S'"

lemma schedule_step_ok: "schedule_step S S' \<Longrightarrow> schedule_repo_ok S \<Longrightarrow> schedule_repo_ok S'"
  by (induction rule: schedule_step.induct)
    (blast intro: schedule_create_ok advance_ok schedule_replace_ok occurrence_insert_ok purge_terminal_ok
      create_schedule_idempotency_ok)+

lemma schedule_reachable_ok:
  assumes "schedule_step\<^sup>*\<^sup>* empty_schedule_repo S"
  shows "schedule_repo_ok S"
  using assms
proof (induction rule: rtranclp_induct)
  case base
  show ?case by (simp add: schedule_repo_parts empty_schedule_repo_def)
qed (rule schedule_step_ok)

interpretation owned_schedules: owner_scoped "\<lambda>S. dget (so_schedules S)" schedule_owner "\<lambda>_. schedule_missing" schedule_get
  by unfold_locales (simp add: schedule_get_def)

subsection \<open>Uniqueness of occurrences\<close>


definition sample_schedule :: schedule where
  "sample_schedule = \<lparr> sd_id = 70, sd_tenant_id = ''t1'', sd_principal_id = ''alice'', sd_state = Sched_ACTIVE,
     sd_pause_reason = None, sd_current_revision = 1, sd_next_fire_at = Some 60000000,
     sd_consecutive_failures = 0, sd_created_at = 0, sd_updated_at = 0 \<rparr>"

definition sample_revision :: schedule_revision where
  "sample_revision = \<lparr> rv_schedule_id = 70, rv_revision = 1, rv_title = ''feed'', rv_instruction = ''refresh'',
     rv_task = AgentRunTask, rv_agent_id = 9, rv_agent_version = ''1'', rv_policy_profile = ''default'',
     rv_requested_scopes = {}, rv_browser_profile_id = None,
     rv_limits = default_run_limits\<lparr> max_cost := Some 1 \<rparr>, rv_run_timeout_seconds = 60,
     rv_cadence = IntervalCadence 1 ''UTC'', rv_timezone = Some ''UTC'', rv_misfire_grace_seconds = 30,
     rv_max_consecutive_failures = 2, rv_notify = EVERY_REPORT, rv_created_by_principal_id = ''alice'',
     rv_created_at = 0, rv_call_plan = None, rv_mcp_servers = {} \<rparr>"

definition sample_occurrence :: "uuid \<Rightarrow> instant \<Rightarrow> schedule_occurrence" where
  "sample_occurrence i t = \<lparr> oc_id = i, oc_schedule_id = 70, oc_schedule_revision = 1, oc_nominal_fire_at = t,
     oc_disposition = MISSED, oc_session_id = None, oc_run_id = None, oc_reason_code = Some ''late'',
     oc_authority_version = None, oc_materialized_at = None, oc_links_erased_at = None, oc_created_at = t,
     oc_trigger = Trigger_SCHEDULED, oc_manual_request_key = None \<rparr>"

definition sample_schedules :: schedule_repo where
  "sample_schedules = empty_schedule_repo\<lparr> so_schedules := [(70, sample_schedule)],
     so_revisions := [((70, 1), sample_revision)] \<rparr>"

definition sample_schedules_fired :: schedule_repo where
  "sample_schedules_fired = sample_schedules\<lparr> so_occurrences := [(80, sample_occurrence 80 60000000)],
     so_occurrence_keys := [((70, 60000000), 80)] \<rparr>"

lemmas schedule_sample_defs = sample_schedules_fired_def sample_schedules_def empty_schedule_repo_def
  sample_schedule_def sample_revision_def sample_occurrence_def

lemma sample_schedules_reached: "schedule_step\<^sup>*\<^sup>* empty_schedule_repo sample_schedules"
  by (rule r_into_rtranclp, rule sstep_create [of _ sample_schedule sample_revision])
    (simp add: schedule_create_def schedule_sample_defs dhas_def)

lemma sample_schedules_fired_reached: "schedule_step\<^sup>*\<^sup>* empty_schedule_repo sample_schedules_fired"
  by (rule rtranclp.rtrancl_into_rtrancl [OF sample_schedules_reached],
      rule sstep_insert [of _ "sample_occurrence 80 60000000" "sample_occurrence 80 60000000"])
    (simp add: occurrence_insert_def manual_clash_def schedule_sample_defs dhas_def)


end
