(* ===== verification/Materializer.thy ===== *)
theory Materializer
  imports Schedules Submission "HOL-Library.List_Lexorder" "HOL-Library.Char_ord"
begin

text \<open>
  From a due schedule to a run: \<open>scheduling/materializer.py\<close> over the schedule store and the stores of
  the submission theory, with the configured principal directory of \<open>adapters/identity.py\<close>. Injected
  dependencies are the fields of \<open>schedule_env\<close>: the time zone database, the digest and JSON dumps, the
  admission controller and the notification producer. Metrics and the write probe, which is a fault
  injection hook that does nothing by default, are left out. Runs go to the run store directly, as
  they do in process, where there is no queue.
\<close>

subsection \<open>State and environment\<close>

datatype notice = Occurrence_notice uuid uuid | Accounted_notice uuid uuid

record schedule_world =
  zw_world :: world
  zw_schedules :: schedule_repo
  zw_process :: process_repo
  zw_notices :: "notice list"

record principal_directory =
  dir_principal :: principal
  dir_enabled :: bool
  dir_source :: string

record schedule_env =
  ze_submit :: submit_env
  ze_zones :: zone_db
  ze_directory :: principal_directory
  ze_digest :: "principal \<Rightarrow> bool \<Rightarrow> string"
  ze_admission :: "schedule_world \<Rightarrow> string \<Rightarrow> schedule_revision \<Rightarrow> instant \<Rightarrow> admission_decision res"
  ze_notifier :: "(notice \<Rightarrow> unit res) option"
  ze_dump_task :: "schedule_task \<Rightarrow> json"
  ze_isoformat :: "instant \<Rightarrow> string"
  ze_validate_step :: "json \<Rightarrow> plan_step res"

type_synonym 'a scheduling = "(schedule_world, submit_exn, 'a) prog"

text \<open>A program over the common stores, inside the scheduler's state.\<close>

definition zlift :: "'a service \<Rightarrow> 'a scheduling" where
  "zlift m z = (case m (zw_world z) of (r, w) \<Rightarrow> (r, z\<lparr> zw_world := w \<rparr>))"

definition zattempt :: "'a res \<Rightarrow> 'a scheduling" where
  "zattempt r = (case r of Inl e \<Rightarrow> praise (Raised e) | Inr a \<Rightarrow> preturn a)"

definition on_schedules :: "(schedule_repo \<Rightarrow> ('a \<times> schedule_repo) res) \<Rightarrow> 'a scheduling" where
  "on_schedules f z = (case f (zw_schedules z) of
      Inl e \<Rightarrow> (Inl (Raised e), z)
    | Inr (a, S) \<Rightarrow> (Inr a, z\<lparr> zw_schedules := S \<rparr>))"

definition append_process :: "process_event \<Rightarrow> unit scheduling" where
  "append_process e z = (case process_append (zw_process z) e of
      Inl err \<Rightarrow> (Inl (Raised err), z)
    | Inr (_, P) \<Rightarrow> (Inr (), z\<lparr> zw_process := P \<rparr>))"

definition notify :: "schedule_env \<Rightarrow> notice \<Rightarrow> unit scheduling" where
  "notify env n = (case ze_notifier env of
      None \<Rightarrow> preturn ()
    | Some produce \<Rightarrow> pbind (pmodify (\<lambda>z. z\<lparr> zw_notices := zw_notices z @ [n] \<rparr>)) (\<lambda>_. zattempt (produce n)))"

text \<open>
  The in-process unit of work around a scheduling program: as for a submission, an exception runs the
  callbacks and undoes the memory journal, and leaves every other store as it was written.
\<close>

definition enter_unit :: "world \<Rightarrow> world" where
  "enter_unit w = w\<lparr> w_depth := Suc (w_depth w), w_rollbacks := [] \<rparr>"

definition commit_unit :: "world \<Rightarrow> world \<Rightarrow> world" where
  "commit_unit w w' = w'\<lparr> w_rollbacks := [], w_depth := w_depth w \<rparr>"

definition abort_unit :: "world \<Rightarrow> world \<Rightarrow> world" where
  "abort_unit w w' = w'\<lparr> w_calls := w_calls w' @ rev (w_rollbacks w'), w_rollbacks := [],
     w_events := (w_events w')\<lparr> er_source_index := er_source_index (w_events w) \<rparr>, w_depth := w_depth w \<rparr>"

definition schedule_unit :: "'a scheduling \<Rightarrow> 'a scheduling" where
  "schedule_unit body z = (case body (z\<lparr> zw_world := enter_unit (zw_world z) \<rparr>) of
      (Inr a, z') \<Rightarrow> (Inr a, z'\<lparr> zw_world := commit_unit (zw_world z) (zw_world z') \<rparr>)
    | (Inl e, z') \<Rightarrow> (Inl e, z'\<lparr> zw_world := abort_unit (zw_world z) (zw_world z') \<rparr>))"

subsection \<open>Authority\<close>

definition current_authority :: "schedule_env \<Rightarrow> string \<Rightarrow> string \<Rightarrow> authority_snapshot option" where
  "current_authority env tenant pid =
     (let d = ze_directory env; p = dir_principal d
      in if tenant \<noteq> tenant_id p \<or> pid \<noteq> principal_id p then None
         else Some \<lparr> au_principal = p, au_version = dir_source d @ '':'' @ ze_digest env p (dir_enabled d),
           au_enabled = dir_enabled d \<rparr>)"

definition owner_principal :: "string \<Rightarrow> string \<Rightarrow> principal" where
  "owner_principal tenant pid = \<lparr> tenant_id = tenant, principal_id = pid, roles = {}, scopes = {} \<rparr>"

definition schedule_principal :: "schedule \<Rightarrow> principal" where
  "schedule_principal s = owner_principal (sd_tenant_id s) (sd_principal_id s)"

subsection \<open>Advancing a schedule\<close>

definition seconds :: "int \<Rightarrow> int" where
  "seconds n = n * 1000000"

definition advanced_schedule ::
    "schedule \<Rightarrow> schedule_revision \<Rightarrow> instant option \<Rightarrow> instant \<Rightarrow> bool \<Rightarrow> bool \<Rightarrow> schedule" where
  "advanced_schedule s r next_fire t failed awaiting_call_result =
     (let failures = sd_consecutive_failures s + (if failed then 1 else 0);
          s' = s\<lparr> sd_consecutive_failures := failures, sd_updated_at := t \<rparr>
      in if awaiting_call_result
         then s'\<lparr> sd_state := Sched_ACTIVE, sd_pause_reason := None, sd_next_fire_at := None \<rparr>
         else if is_once (rv_cadence r) \<or> next_fire = None
         then s'\<lparr> sd_state := Sched_COMPLETED, sd_pause_reason := None, sd_next_fire_at := None \<rparr>
         else if failed \<and> failures \<ge> rv_max_consecutive_failures r
         then s'\<lparr> sd_state := Sched_PAUSED, sd_pause_reason := Some Pause_FAILURE_LIMIT, sd_next_fire_at := None \<rparr>
         else s'\<lparr> sd_state := Sched_ACTIVE, sd_pause_reason := None, sd_next_fire_at := next_fire \<rparr>)"

fun state_value :: "schedule_state \<Rightarrow> string" where
  "state_value Sched_ACTIVE = ''ACTIVE''"
| "state_value Sched_PAUSED = ''PAUSED''"
| "state_value Sched_COMPLETED = ''COMPLETED''"
| "state_value Sched_CANCELLED = ''CANCELLED''"

fun disposition_value :: "occurrence_disposition \<Rightarrow> string" where
  "disposition_value MATERIALIZED = ''MATERIALIZED''"
| "disposition_value MISSED = ''MISSED''"
| "disposition_value SKIPPED_OVERLAP = ''SKIPPED_OVERLAP''"
| "disposition_value AUTHORIZATION_FAILED = ''AUTHORIZATION_FAILED''"
| "disposition_value CONFIGURATION_FAILED = ''CONFIGURATION_FAILED''"

fun disposition_suffix :: "occurrence_disposition \<Rightarrow> string" where
  "disposition_suffix MATERIALIZED = ''materialized''"
| "disposition_suffix MISSED = ''missed''"
| "disposition_suffix SKIPPED_OVERLAP = ''skipped_overlap''"
| "disposition_suffix AUTHORIZATION_FAILED = ''authorization_failed''"
| "disposition_suffix CONFIGURATION_FAILED = ''configuration_failed''"

fun trigger_value :: "occurrence_trigger \<Rightarrow> string" where
  "trigger_value Trigger_SCHEDULED = ''SCHEDULED''"
| "trigger_value Trigger_MANUAL = ''MANUAL''"

definition opt_uuid :: "uuid option \<Rightarrow> json" where
  "opt_uuid i = (case i of None \<Rightarrow> JNull | Some u \<Rightarrow> JStr (uuid_str u))"

definition scheduler_event ::
    "uuid \<Rightarrow> string \<Rightarrow> string \<Rightarrow> document \<Rightarrow> string \<Rightarrow> instant \<Rightarrow> process_event" where
  "scheduler_event i ty actor payload key t = \<lparr> pe_id = i, pe_event_type = ty, pe_payload_schema_version = 1,
     pe_actor_type = ''scheduler'', pe_actor_id = Some actor, pe_payload = payload, pe_derivation_key = key,
     pe_created_at = t \<rparr>"

definition occurrence_event ::
    "schedule_env \<Rightarrow> uuid \<Rightarrow> schedule_occurrence \<Rightarrow> schedule \<Rightarrow> schedule_state \<Rightarrow> instant \<Rightarrow> process_event" where
  "occurrence_event env i c s next_state t = scheduler_event i
     (''schedule.occurrence.'' @ disposition_suffix (oc_disposition c)) (sd_principal_id s)
     [(''schedule_id'', JStr (uuid_str (sd_id s))), (''schedule_revision'', JInt (oc_schedule_revision c)),
      (''tenant_id'', JStr (sd_tenant_id s)), (''principal_id'', JStr (sd_principal_id s)),
      (''actor'', JStr ''scheduler''), (''event_time'', JStr (ze_isoformat env t)),
      (''previous_state'', JStr (state_value (sd_state s))), (''next_state'', JStr (state_value next_state)),
      (''occurrence_id'', JStr (uuid_str (oc_id c))),
      (''nominal_fire_at'', JStr (ze_isoformat env (oc_nominal_fire_at c))),
      (''disposition'', JStr (disposition_value (oc_disposition c))),
      (''trigger'', JStr (trigger_value (oc_trigger c))),
      (''reason_code'', case oc_reason_code c of None \<Rightarrow> JNull | Some r \<Rightarrow> JStr r),
      (''session_id'', opt_uuid (oc_session_id c)), (''run_id'', opt_uuid (oc_run_id c))]
     (''schedule.occurrence:'' @ uuid_str (oc_id c)) t"

definition append_occurrence_event ::
    "schedule_env \<Rightarrow> schedule_occurrence \<Rightarrow> schedule \<Rightarrow> schedule_state \<Rightarrow> instant \<Rightarrow> unit scheduling" where
  "append_occurrence_event env c s next_state t = pbind (zlift new_id) (\<lambda>i.
     append_process (occurrence_event env i c s next_state t))"

definition auto_paused_event ::
    "schedule_env \<Rightarrow> uuid \<Rightarrow> schedule \<Rightarrow> schedule_occurrence \<Rightarrow> uuid option \<Rightarrow> instant \<Rightarrow> instant \<Rightarrow> process_event" where
  "auto_paused_event env i s c run_id event_time t = scheduler_event i ''schedule.auto_paused'' (sd_principal_id s)
     [(''schedule_id'', JStr (uuid_str (sd_id s))), (''revision'', JInt (sd_current_revision s)),
      (''tenant_id'', JStr (sd_tenant_id s)), (''principal_id'', JStr (sd_principal_id s)),
      (''previous_state'', JStr (state_value (sd_state s))), (''next_state'', JStr (state_value Sched_PAUSED)),
      (''occurrence_id'', JStr (uuid_str (oc_id c))), (''run_id'', opt_uuid run_id),
      (''event_time'', JStr (ze_isoformat env event_time))]
     (''schedule.auto_paused:'' @ uuid_str (oc_id c)) t"

definition misfires_event ::
    "schedule_env \<Rightarrow> uuid \<Rightarrow> schedule \<Rightarrow> schedule_revision \<Rightarrow> instant \<Rightarrow> instant \<Rightarrow> int \<Rightarrow> instant \<Rightarrow> process_event" where
  "misfires_event env i s r first final count t = scheduler_event i ''schedule.misfires_coalesced'' (sd_principal_id s)
     [(''schedule_id'', JStr (uuid_str (sd_id s))), (''schedule_revision'', JInt (rv_revision r)),
      (''tenant_id'', JStr (sd_tenant_id s)), (''principal_id'', JStr (sd_principal_id s)),
      (''actor'', JStr ''scheduler''), (''event_time'', JStr (ze_isoformat env t)),
      (''first_nominal_at'', JStr (ze_isoformat env first)), (''last_nominal_at'', JStr (ze_isoformat env final)),
      (''count'', JInt count)]
     (''schedule.misfires_coalesced:'' @ uuid_str (sd_id s) @ '':'' @ str_int (rv_revision r) @ '':''
       @ ze_isoformat env final) t"

definition append_coalesced_misfires ::
    "schedule_env \<Rightarrow> schedule \<Rightarrow> schedule_revision \<Rightarrow> instant \<Rightarrow> instant \<Rightarrow> instant \<Rightarrow> unit scheduling" where
  "append_coalesced_misfires env s r first final t =
     pbind (zattempt (count_between (ze_zones env) (rv_cadence r) first final)) (\<lambda>count.
       if count \<le> 1 then preturn ()
       else pbind (zlift new_id) (\<lambda>i. append_process (misfires_event env i s r first final count t)))"

subsection \<open>Recording a firing that starts nothing\<close>

definition failed_occurrence ::
    "uuid \<Rightarrow> schedule \<Rightarrow> schedule_revision \<Rightarrow> instant \<Rightarrow> instant \<Rightarrow> occurrence_disposition \<Rightarrow> string \<Rightarrow>
       string option \<Rightarrow> schedule_occurrence" where
  "failed_occurrence i s r fired t disposition reason version = \<lparr> oc_id = i, oc_schedule_id = sd_id s,
     oc_schedule_revision = rv_revision r, oc_nominal_fire_at = fired, oc_disposition = disposition,
     oc_session_id = None, oc_run_id = None, oc_reason_code = Some reason, oc_authority_version = version,
     oc_materialized_at = None, oc_links_erased_at = None, oc_created_at = t,
     oc_trigger = Trigger_SCHEDULED, oc_manual_request_key = None \<rparr>"

definition record_failure ::
    "schedule_env \<Rightarrow> schedule \<Rightarrow> schedule_revision \<Rightarrow> instant \<Rightarrow> instant option \<Rightarrow> instant \<Rightarrow>
       occurrence_disposition \<Rightarrow> string \<Rightarrow> string option \<Rightarrow> bool \<Rightarrow> bool \<Rightarrow> schedule_occurrence scheduling" where
  "record_failure env s r fired next_fire t disposition reason version increment notified =
     pbind (zlift new_id) (\<lambda>i.
     pbind (zattempt (new_occurrence (failed_occurrence i s r fired t disposition reason version))) (\<lambda>c.
     pbind (on_schedules (\<lambda>S. occurrence_insert S c)) (\<lambda>_.
     let advanced = advanced_schedule s r next_fire t increment False;
         auto_paused = (sd_state s = Sched_ACTIVE \<and> sd_state advanced = Sched_PAUSED
           \<and> sd_pause_reason advanced = Some Pause_FAILURE_LIMIT) in
     pbind (append_occurrence_event env c s (sd_state advanced) t) (\<lambda>_.
     pbind (if notified then notify env (Occurrence_notice (sd_id s) (oc_id c)) else preturn ()) (\<lambda>_.
     pbind (if auto_paused
         then pbind (zlift new_id) (\<lambda>k. append_process (auto_paused_event env k s c None t t))
         else preturn ()) (\<lambda>_.
     pbind (on_schedules (\<lambda>S. rbind (advance S s advanced) (\<lambda>S'. Inr ((), S')))) (\<lambda>_.
       preturn c)))))))"

subsection \<open>Starting a run\<close>

definition materialized_occurrence ::
    "uuid \<Rightarrow> uuid \<Rightarrow> uuid \<Rightarrow> schedule \<Rightarrow> schedule_revision \<Rightarrow> authority_snapshot \<Rightarrow> instant \<Rightarrow> instant \<Rightarrow>
       occurrence_trigger \<Rightarrow> string option \<Rightarrow> schedule_occurrence" where
  "materialized_occurrence i sid run_id s r authority fired t trigger key = \<lparr> oc_id = i,
     oc_schedule_id = sd_id s, oc_schedule_revision = rv_revision r, oc_nominal_fire_at = fired,
     oc_disposition = MATERIALIZED, oc_session_id = Some sid, oc_run_id = Some run_id, oc_reason_code = None,
     oc_authority_version = Some (au_version authority), oc_materialized_at = Some t,
     oc_links_erased_at = None, oc_created_at = t, oc_trigger = trigger, oc_manual_request_key = key \<rparr>"

definition scheduled_session ::
    "schedule_env \<Rightarrow> uuid \<Rightarrow> schedule \<Rightarrow> schedule_revision \<Rightarrow> agent_spec \<Rightarrow> schedule_occurrence \<Rightarrow> instant \<Rightarrow>
       document \<Rightarrow> bool \<Rightarrow> session" where
  "scheduled_session env sid s r agent c t metadata reporting =
     \<lparr> s_id = sid, s_tenant_id = sd_tenant_id s, s_principal_id = sd_principal_id s,
       s_agent_id = ag_id agent, s_agent_version = ag_version agent, s_status = Session_ACTIVE,
       s_title = Some (rv_title r),
       s_metadata =
         (case rv_browser_profile_id r of None \<Rightarrow> [] | Some b \<Rightarrow> [(''browser_profile_id'', JStr (uuid_str b))])
         @ (if is_job_task (rv_task r) then [(''job_task'', ze_dump_task env (rv_task r))] else [])
         @ (if rv_mcp_servers r \<noteq> {} \<and> \<not> reporting
            then [(''schedule_mcp_servers'', JArr (map JStr (sorted_list_of_set (rv_mcp_servers r))))] else [])
         @ [(''schedule_id'', JStr (uuid_str (sd_id s))), (''schedule_revision'', JInt (rv_revision r)),
            (''schedule_occurrence_id'', JStr (uuid_str (oc_id c))),
            (''nominal_fire_at'', JStr (ze_isoformat env (oc_nominal_fire_at c)))]
         @ metadata
         @ (if FEED_KEEPING_SCOPE \<in> rv_requested_scopes r then [(''cockpit_refresh'', JBool True)] else []),
       s_created_at = t, s_updated_at = t \<rparr>"

definition scheduled_run ::
    "uuid \<Rightarrow> session \<Rightarrow> schedule \<Rightarrow> schedule_revision \<Rightarrow> agent_spec \<Rightarrow> string set \<Rightarrow> instant \<Rightarrow> run" where
  "scheduled_run i session s r agent run_scopes t =
     (let deadline = t + seconds (rv_run_timeout_seconds r) in
      \<lparr> r_id = i, r_session_id = s_id session, r_parent_run_id = None,
        r_kind = (if is_job_task (rv_task r) then JOB else INTERACTIVE), r_tenant_id = sd_tenant_id s,
        r_principal_scopes = run_scopes, r_agent_id = ag_id agent, r_agent_version = ag_version agent,
        r_status = Run_QUEUED, r_step_count = 0, r_model_call_count = 0, r_tool_call_count = 0,
        r_limits = (rv_limits r)\<lparr> limit_deadline_at := Some deadline \<rparr>, r_usage = zero_usage,
        r_lease_owner = None, r_lease_expires_at = None, r_lease_epoch = 0, r_attempts = 0,
        r_lease_expirations = 0, r_priority = 10, r_scheduled_for = Some t, r_deadline_at = Some deadline,
        r_cancel_requested_at = None, r_failure = None, r_final_message = None, r_export_consent = False,
        r_provider_pin = None, r_seed_event_sequence = 0, r_created_at = t, r_updated_at = t \<rparr>)"

definition scheduled_session_event :: "schedule \<Rightarrow> schedule_revision \<Rightarrow> session \<Rightarrow> new_event" where
  "scheduled_session_event s r session =
     (plain_event (s_id session) None ''session.created'' ''scheduler'' (Some (sd_principal_id s))
       [(''agent_id'', JStr (uuid_str (s_agent_id session))), (''title'', JStr (rv_title r))])
     \<lparr> ne_payload_schema_version := 2 \<rparr>"

definition instruction_event :: "schedule \<Rightarrow> run \<Rightarrow> string \<Rightarrow> new_event" where
  "instruction_event s run seed = plain_event (r_session_id run) (Some (r_id run)) ''user.message.created''
     ''scheduler'' (Some (sd_principal_id s)) [(''content'', JStr seed)]"

definition scheduled_queued_event ::
    "schedule \<Rightarrow> schedule_revision \<Rightarrow> schedule_occurrence \<Rightarrow> authority_snapshot \<Rightarrow> run \<Rightarrow> new_event" where
  "scheduled_queued_event s r c authority run = plain_event (r_session_id run) (Some (r_id run)) ''run.queued''
     ''scheduler'' (Some (sd_principal_id s))
     [(''run_id'', JStr (uuid_str (r_id run))), (''priority'', JInt (r_priority run)),
      (''schedule_id'', JStr (uuid_str (sd_id s))), (''schedule_revision'', JInt (rv_revision r)),
      (''schedule_occurrence_id'', JStr (uuid_str (oc_id c))),
      (''authority_version'', JStr (au_version authority))]"

text \<open>
  The writes to the common stores, in the order of \<open>_start_run\<close>: the session and its event, the run, the
  event with its first message, the run's seed, the queueing event and the first checkpoint.
\<close>

definition launch_work ::
    "submit_env \<Rightarrow> session \<Rightarrow> run \<Rightarrow> new_event \<Rightarrow> new_event \<Rightarrow> new_event \<Rightarrow> principal \<Rightarrow> unit service" where
  "launch_work env session run created message queued p =
     pbind (on_store (\<lambda>w. rbind (session_create (w_sessions w) session) (\<lambda>S. Inr ((), w\<lparr> w_sessions := S \<rparr>)))) (\<lambda>_.
     pbind (append_event env created None) (\<lambda>_.
     pbind (attempt (deadline_matches_limits run)) (\<lambda>_.
     pbind (on_store (\<lambda>w. rbind (run_create (w_runs w) run) (\<lambda>R. Inr ((), w\<lparr> w_runs := R \<rparr>)))) (\<lambda>_.
     pbind (append_event env message None) (\<lambda>user_event.
     pbind now (\<lambda>t'.
     pbind (on_store (\<lambda>w. rbind (set_seed_event_sequence (w_runs w) (r_id run) (ev_sequence user_event) t')
       (\<lambda>R. Inr ((), w\<lparr> w_runs := R \<rparr>)))) (\<lambda>_.
     pbind (append_event env queued None) (\<lambda>_.
     pbind (seed_checkpoint env run (Some (ev_sequence user_event)) None (p\<lparr> scopes := r_principal_scopes run \<rparr>)) (\<lambda>_.
       preturn ())))))))))"

definition launch_run ::
    "schedule_env \<Rightarrow> schedule \<Rightarrow> schedule_revision \<Rightarrow> authority_snapshot \<Rightarrow> schedule_occurrence \<Rightarrow> session \<Rightarrow> run \<Rightarrow>
       string \<Rightarrow> unit service" where
  "launch_run env s r authority c session run seed = launch_work (ze_submit env) session run
     (scheduled_session_event s r session) (instruction_event s run seed) (scheduled_queued_event s r c authority run)
     (au_principal authority)"

definition start_run ::
    "schedule_env \<Rightarrow> schedule \<Rightarrow> schedule_revision \<Rightarrow> agent_spec \<Rightarrow> authority_snapshot \<Rightarrow> instant \<Rightarrow> instant \<Rightarrow>
       occurrence_trigger \<Rightarrow> string option \<Rightarrow> string option \<Rightarrow> string set option \<Rightarrow> document \<Rightarrow> bool \<Rightarrow>
       schedule_occurrence scheduling" where
  "start_run env s r agent authority fired t trigger key instruction given_scopes metadata reporting =
     (let run_scopes = (case given_scopes of None \<Rightarrow> rv_requested_scopes r | Some ss \<Rightarrow> ss);
          seed = (case instruction of None \<Rightarrow> rv_instruction r | Some text \<Rightarrow> text) in
      pbind (zlift new_id) (\<lambda>sid. pbind (zlift new_id) (\<lambda>run_id. pbind (zlift new_id) (\<lambda>i.
      pbind (zattempt (new_occurrence
        (materialized_occurrence i sid run_id s r authority fired t trigger key))) (\<lambda>c.
      pbind (on_schedules (\<lambda>S. occurrence_insert S c)) (\<lambda>_.
      let session = scheduled_session env sid s r agent c t metadata reporting;
          run = scheduled_run run_id session s r agent run_scopes t in
      pbind (zlift (launch_run env s r authority c session run seed)) (\<lambda>_.
        preturn c)))))))"

subsection \<open>The cadence fires\<close>

text \<open>Whether the run of an occurrence is still going.\<close>

definition still_running :: "schedule_occurrence option \<Rightarrow> principal \<Rightarrow> bool scheduling" where
  "still_running latest owner = (case latest of
      None \<Rightarrow> preturn False
    | Some c \<Rightarrow> (case oc_run_id c of
          None \<Rightarrow> preturn False
        | Some i \<Rightarrow> pbind (pget (\<lambda>z. run_get (w_sessions (zw_world z)) (w_runs (zw_world z)) i owner)) (\<lambda>found.
            pbind (zattempt found) (\<lambda>run. preturn (r_status run \<notin> TERMINAL_RUN_STATUSES)))))"

definition materialized_count :: "uuid \<Rightarrow> principal \<Rightarrow> int scheduling" where
  "materialized_count i owner = pbind (pget (\<lambda>z. list_occurrences (zw_schedules z) i owner 100 None)) (\<lambda>found.
     pbind (zattempt found) (\<lambda>cs. preturn (int (length (filter (\<lambda>c. oc_disposition c = MATERIALIZED) cs)))))"

definition call_plan_step_key :: "uuid \<Rightarrow> int \<Rightarrow> string" where
  "call_plan_step_key i n = ''schedule.call_plan.step:'' @ uuid_str i @ '':'' @ str_int n"

definition step_kind_value :: "step_kind \<Rightarrow> string" where
  "step_kind_value k = (case k of Step_FIRST \<Rightarrow> ''first'' | Step_RETRY \<Rightarrow> ''retry''
     | Step_FOLLOW_UP \<Rightarrow> ''follow_up'' | Step_REPORT \<Rightarrow> ''report'')"

definition step_of_event :: "schedule_env \<Rightarrow> process_event \<Rightarrow> plan_step res" where
  "step_of_event env e = (case dget (pe_payload e) ''step'' of
      None \<Rightarrow> Inl KeyError | Some j \<Rightarrow> ze_validate_step env j)"

definition note_newline :: string where
  "note_newline = [CHR 0x0A, CHR 0x0A]"

definition planned_instruction ::
    "schedule_revision \<Rightarrow> plan_step option \<Rightarrow> string res" where
  "planned_instruction r step = (case rv_call_plan r of
      None \<Rightarrow> Inr (rv_instruction r)
    | Some plan \<Rightarrow> (case rv_cadence r of
          OnceCadence first_at \<Rightarrow> rbind (call_plan_note plan first_at step) (\<lambda>text.
            Inr (rv_instruction r @ note_newline @ text))
        | _ \<Rightarrow> Inl AssertionError))"

text \<open>After every check passed: the run, the occurrence event, and the schedule's next firing.\<close>

definition start_scheduled ::
    "schedule_env \<Rightarrow> schedule \<Rightarrow> schedule_revision \<Rightarrow> agent_spec \<Rightarrow> authority_snapshot \<Rightarrow> instant \<Rightarrow> instant option \<Rightarrow>
       instant \<Rightarrow> plan_step option \<Rightarrow> int \<Rightarrow> schedule_occurrence scheduling" where
  "start_scheduled env s r agent authority fired next_fire t step n =
     (let reporting = (case step of None \<Rightarrow> False | Some st \<Rightarrow> ps_kind st = Step_REPORT);
          metadata = (if rv_call_plan r = None then []
            else [(''call_plan_step'', JObj [(''kind'', JStr (step_kind_value
              (case step of None \<Rightarrow> Step_FIRST | Some st \<Rightarrow> ps_kind st))), (''attempt'', JInt n)])]) in
      pbind (zattempt (planned_instruction r step)) (\<lambda>seed.
      pbind (start_run env s r agent authority fired t Trigger_SCHEDULED None (Some seed)
        (Some (if reporting then {} else rv_requested_scopes r)) metadata reporting) (\<lambda>c.
      let advanced = advanced_schedule s r next_fire t False (rv_call_plan r \<noteq> None \<and> \<not> reporting) in
      pbind (append_occurrence_event env c s (sd_state advanced) t) (\<lambda>_.
      pbind (on_schedules (\<lambda>S. rbind (advance S s advanced) (\<lambda>S'. Inr ((), S')))) (\<lambda>_.
        preturn c)))))"

definition fire_admitted ::
    "schedule_env \<Rightarrow> schedule \<Rightarrow> schedule_revision \<Rightarrow> agent_spec \<Rightarrow> authority_snapshot \<Rightarrow> instant \<Rightarrow> instant option \<Rightarrow>
       instant \<Rightarrow> schedule_occurrence scheduling" where
  "fire_admitted env s r agent authority fired next_fire t =
     (if rv_call_plan r = None then start_scheduled env s r agent authority fired next_fire t None 1
      else pbind (materialized_count (sd_id s) (schedule_principal s)) (\<lambda>k.
        if 1 + k \<le> 1 then start_scheduled env s r agent authority fired next_fire t None (1 + k)
        else pbind (pget (\<lambda>z. dget (zw_process z) (call_plan_step_key (sd_id s) (1 + k)))) (\<lambda>decided.
          case decided of
            None \<Rightarrow> record_failure env s r fired next_fire t CONFIGURATION_FAILED
              ''schedule.call_plan_step_missing'' (Some (au_version authority)) True True
          | Some e \<Rightarrow> pbind (zattempt (step_of_event env e)) (\<lambda>step.
              start_scheduled env s r agent authority fired next_fire t (Some step) (1 + k)))))"

definition fire_authorized ::
    "schedule_env \<Rightarrow> schedule \<Rightarrow> schedule_revision \<Rightarrow> authority_snapshot \<Rightarrow> instant \<Rightarrow> instant option \<Rightarrow> instant \<Rightarrow>
       schedule_occurrence option scheduling" where
  "fire_authorized env s r authority fired next_fire t =
     (let fail = (\<lambda>disposition reason. pbind (record_failure env s r fired next_fire t disposition reason
            (Some (au_version authority)) True True) (\<lambda>c. preturn (Some c))) in
      if \<not> au_enabled authority then fail AUTHORIZATION_FAILED ''schedule.principal_disabled''
      else if \<not> rv_requested_scopes r \<subseteq> scopes (au_principal authority)
      then fail AUTHORIZATION_FAILED ''schedule.scope_revoked''
      else pbind (pget (\<lambda>z. agent_get_version (w_agents (zw_world z)) (rv_agent_id r) (rv_agent_version r))) (\<lambda>found.
        case found of
          Inl _ \<Rightarrow> fail CONFIGURATION_FAILED ''schedule.agent_version_missing''
        | Inr agent \<Rightarrow>
            if ag_policy_profile agent \<noteq> rv_policy_profile r
            then fail CONFIGURATION_FAILED ''schedule.policy_profile_mismatch''
            else pbind (pget (\<lambda>z. ze_admission env z (sd_tenant_id s) r t)) (\<lambda>answer.
              pbind (zattempt answer) (\<lambda>admission.
              case ad_outcome admission of
                Admit_RETRY \<Rightarrow> preturn None
              | Admit_REJECT \<Rightarrow> (case ad_reason_code admission of
                  None \<Rightarrow> praise (Raised AssertionError)
                | Some reason \<Rightarrow> fail MISSED reason)
              | Admit_ALLOW \<Rightarrow> pbind (fire_admitted env s r agent authority fired next_fire t) (\<lambda>c.
                  preturn (Some c))))))"

definition fire ::
    "schedule_env \<Rightarrow> schedule \<Rightarrow> schedule_revision \<Rightarrow> instant \<Rightarrow> instant option \<Rightarrow> instant \<Rightarrow>
       schedule_occurrence option scheduling" where
  "fire env s r fired next_fire t =
     pbind (pget (\<lambda>z. latest_materialized_occurrence (zw_schedules z) (sd_id s))) (\<lambda>latest.
     pbind (still_running latest (schedule_principal s)) (\<lambda>running.
     if running then pbind (record_failure env s r fired next_fire t SKIPPED_OVERLAP ''schedule.in_flight'' None
       False (\<not> is_interval (rv_cadence r))) (\<lambda>c. preturn (Some c))
     else if t > fired + seconds (rv_misfire_grace_seconds r)
     then pbind (record_failure env s r fired next_fire t MISSED ''schedule.misfire_grace_expired'' None True True)
       (\<lambda>c. preturn (Some c))
     else case current_authority env (sd_tenant_id s) (sd_principal_id s) of
         None \<Rightarrow> pbind (record_failure env s r fired next_fire t AUTHORIZATION_FAILED ''schedule.principal_missing''
           None True True) (\<lambda>c. preturn (Some c))
       | Some authority \<Rightarrow> fire_authorized env s r authority fired next_fire t))"

text \<open>The instant that is due, once the revision is known.\<close>

definition fire_due ::
    "schedule_env \<Rightarrow> schedule \<Rightarrow> schedule_revision \<Rightarrow> instant \<Rightarrow> instant option \<Rightarrow> schedule_occurrence option scheduling" where
  "fire_due env s r t instant = (case (instant, sd_next_fire_at s) of
      (Some fired, Some planned) \<Rightarrow>
        if fired < planned then preturn None
        else pbind (pget (\<lambda>z. get_occurrence_by_nominal (zw_schedules z) (sd_id s) fired)) (\<lambda>known.
          pbind (zattempt known) (\<lambda>existing. case existing of
            Some c \<Rightarrow> preturn (Some c)
          | None \<Rightarrow>
              pbind (zattempt (next_after (ze_zones env) (rv_cadence r) t)) (\<lambda>next_fire.
              pbind (append_coalesced_misfires env s r planned fired t) (\<lambda>_.
                fire env s r fired next_fire t))))
    | _ \<Rightarrow> preturn None)"

definition materialize_body :: "schedule_env \<Rightarrow> uuid \<Rightarrow> instant \<Rightarrow> schedule_occurrence option scheduling" where
  "materialize_body env i t =
     pbind (pget (\<lambda>z. lock_due (zw_schedules z) i t)) (\<lambda>locked. case locked of
       None \<Rightarrow> pget (\<lambda>z. latest_occurrence_at_or_before (zw_schedules z) i t)
     | Some s \<Rightarrow>
         pbind (pget (\<lambda>z. get_revision (zw_schedules z) (sd_id s) (sd_current_revision s) (schedule_principal s))) (\<lambda>found.
         pbind (zattempt found) (\<lambda>r.
         pbind (zattempt (if rv_call_plan r = None then latest_at_or_before (ze_zones env) (rv_cadence r) t
           else Inr (sd_next_fire_at s))) (\<lambda>instant.
           fire_due env s r t instant))))"

definition materialize :: "schedule_env \<Rightarrow> uuid \<Rightarrow> schedule_occurrence option scheduling" where
  "materialize env i = pbind (zlift now) (\<lambda>t. schedule_unit (materialize_body env i t))"

subsection \<open>Steps of a scheduling program\<close>

lemma zlift_Inr [simp]: "zlift m z = (Inr a, z') \<longleftrightarrow> (\<exists>w. m (zw_world z) = (Inr a, w) \<and> z' = z\<lparr> zw_world := w \<rparr>)"
  by (auto simp: zlift_def split: prod.splits)

lemma zattempt_Inr [simp]: "zattempt r z = (Inr a, z') \<longleftrightarrow> r = Inr a \<and> z' = z"
  by (cases r) (auto simp: zattempt_def)

lemma on_schedules_Inr [simp]:
  "on_schedules f z = (Inr a, z') \<longleftrightarrow> (\<exists>S. f (zw_schedules z) = Inr (a, S) \<and> z' = z\<lparr> zw_schedules := S \<rparr>)"
  by (auto simp: on_schedules_def split: sum.splits prod.splits)

definition same_schedules :: "schedule_world \<Rightarrow> schedule_world \<Rightarrow> bool" where
  "same_schedules z z' \<longleftrightarrow> zw_schedules z' = zw_schedules z"

interpretation schedules_kept: evolution same_schedules
  by unfold_locales (auto simp: same_schedules_def)

lemma stays_zlift_schedules: "stays same_schedules (zlift m)"
  by (auto simp: stays_def same_schedules_def zlift_def split: prod.splits)

lemma stays_process_schedules: "stays same_schedules (append_process e)"
  by (auto simp: stays_def same_schedules_def append_process_def split: sum.splits prod.splits)

lemma stays_zattempt_schedules: "stays same_schedules (zattempt r)"
  by (cases r) (simp_all add: zattempt_def schedules_kept.stays_return)

lemmas schedules_kept_laws = schedules_kept.stays_return schedules_kept.stays_bind stays_zlift_schedules
  stays_process_schedules stays_zattempt_schedules stays_if stays_case_option stays_case_prod

lemma stays_notify_schedules: "stays same_schedules (notify env n)"
  unfolding notify_def
  by (intro schedules_kept_laws schedules_kept.stays_modify) (simp add: same_schedules_def)

lemma stays_events_schedules:
  "stays same_schedules (append_occurrence_event env c s st t)"
  "stays same_schedules (append_coalesced_misfires env s r f l t)"
  "stays same_schedules (still_running latest owner)"
  "stays same_schedules (materialized_count i owner)"
  unfolding append_occurrence_event_def append_coalesced_misfires_def still_running_def materialized_count_def
  by (intro schedules_kept_laws)+

text \<open>
  What a firing does to the schedule store: it inserts one occurrence and replaces the schedule by its
  advanced form.
\<close>

definition fires :: "schedule_repo \<Rightarrow> schedule \<Rightarrow> schedule_occurrence \<Rightarrow> schedule \<Rightarrow> schedule_repo \<Rightarrow> bool" where
  "fires S s c s' S' \<longleftrightarrow> (\<exists>e S1. occurrence_insert S c = Inr (e, S1) \<and> advance S1 s s' = Inr S')"

lemma record_failure_effect:
  assumes "record_failure env s r fired next_fire t d reason v inc nb z = (Inr c, z')"
  shows "fires (zw_schedules z) s c (advanced_schedule s r next_fire t inc False) (zw_schedules z')
    \<and> c = failed_occurrence (oc_id c) s r fired t d reason v \<and> new_occurrence c = Inr c"
proof -
  define adv where "adv = advanced_schedule s r next_fire t inc False"
  obtain i z1 e S1 z2 z3 z4 S2 where
      c: "new_occurrence (failed_occurrence i s r fired t d reason v) = Inr c"
    and z1: "zlift new_id z = (Inr i, z1)"
    and ins: "occurrence_insert (zw_schedules z1) c = Inr (e, S1)"
    and z2: "append_occurrence_event env c s (sd_state adv) t (z1\<lparr> zw_schedules := S1 \<rparr>) = (Inr (), z2)"
    and z3: "(if nb then notify env (Occurrence_notice (sd_id s) (oc_id c)) else preturn ()) z2 = (Inr (), z3)"
    and z4: "(if sd_state s = Sched_ACTIVE \<and> sd_state adv = Sched_PAUSED \<and> sd_pause_reason adv = Some Pause_FAILURE_LIMIT
         then pbind (zlift new_id) (\<lambda>k. append_process (auto_paused_event env k s c None t t)) else preturn ()) z3 = (Inr (), z4)"
    and adv': "advance (zw_schedules z4) s adv = Inr S2" and z': "z' = z4\<lparr> zw_schedules := S2 \<rparr>"
    using assms unfolding record_failure_def Let_def adv_def [symmetric]
    by (auto simp: pbind_Inr_iff rbind_Inr_iff simp del: zlift_Inr)
  have "zw_schedules z1 = zw_schedules z" using staysD [OF stays_zlift_schedules z1] by (simp add: same_schedules_def)
  moreover have "zw_schedules z2 = S1" using staysD [OF stays_events_schedules(1) z2] by (simp add: same_schedules_def)
  moreover have "stays same_schedules (if nb then notify env (Occurrence_notice (sd_id s) (oc_id c)) else preturn ())"
    by (intro schedules_kept_laws stays_notify_schedules)
  from staysD [OF this z3] have "zw_schedules z3 = zw_schedules z2" by (simp add: same_schedules_def)
  moreover have "stays same_schedules (if sd_state s = Sched_ACTIVE \<and> sd_state adv = Sched_PAUSED
      \<and> sd_pause_reason adv = Some Pause_FAILURE_LIMIT
      then pbind (zlift new_id) (\<lambda>k. append_process (auto_paused_event env k s c None t t)) else preturn ())"
    by (intro schedules_kept_laws)
  from staysD [OF this z4] have "zw_schedules z4 = zw_schedules z3" by (simp add: same_schedules_def)
  moreover have "c = failed_occurrence i s r fired t d reason v" "new_occurrence c = Inr c"
    using c by (auto simp: new_occurrence_def manual_key_matches_trigger_def disposition_is_consistent_def rbind_Inr_iff
        split: if_splits option.splits)
  ultimately show ?thesis
    using ins adv' z' unfolding fires_def adv_def by (auto simp: failed_occurrence_def)
qed

definition same_runs :: "world \<Rightarrow> world \<Rightarrow> bool" where
  "same_runs w w' \<longleftrightarrow> w_runs w' = w_runs w"

interpretation runs_same: evolution same_runs
  by unfold_locales (auto simp: same_runs_def)

lemma stays_runs_basic: "stays same_runs now" "stays same_runs (attempt r)"
  by (auto simp: stays_def same_runs_def now_def attempt_def split: sum.splits)

lemma stays_runs_on_store: "(\<And>w a w'. f w = Inr (a, w') \<Longrightarrow> w_runs w' = w_runs w) \<Longrightarrow> stays same_runs (on_store f)"
  by (auto simp: stays_def same_runs_def on_store_def split: sum.splits prod.splits)

lemmas runs_same_laws = runs_same.stays_return runs_same.stays_bind stays_runs_basic stays_if stays_case_option
  stays_case_prod

lemma stays_runs_append: "stays same_runs (append_event env e lease)"
  unfolding append_event_def by (intro runs_same_laws stays_runs_on_store) (auto simp: rbind_Inr_iff)

lemma stays_runs_seed: "stays same_runs (seed_checkpoint env run n lease owner)"
  unfolding seed_checkpoint_def Let_def
  by (intro runs_same_laws stays_runs_append stays_runs_on_store) (auto simp: rbind_Inr_iff)

lemma launch_work_effect:
  assumes "launch_work env session run created message queued p w = (Inr (), w')"
  obtains n u where "dget (rr_runs (w_runs w)) (r_id run) = None"
    and "\<And>i. dget (rr_runs (w_runs w')) i = (if i = r_id run
        then Some (run\<lparr> r_seed_event_sequence := n, r_updated_at := u \<rparr>) else dget (rr_runs (w_runs w)) i)"
proof -
  obtain S1 e1 w1 R1 user w2 R2 w3 e3 ck where
      e1: "append_event env created None (w\<lparr> w_sessions := S1 \<rparr>) = (Inr e1, w1)"
    and R1: "run_create (w_runs w1) run = Inr R1"
    and user: "append_event env message None (w1\<lparr> w_runs := R1 \<rparr>) = (Inr user, w2)"
    and R2: "set_seed_event_sequence (w_runs w2) (r_id run) (ev_sequence user) (w_clock w2 (w_ticks w2)) = Inr R2"
    and e3: "append_event env queued None (w2\<lparr> w_ticks := Suc (w_ticks w2), w_runs := R2 \<rparr>) = (Inr e3, w3)"
    and ck: "seed_checkpoint env run (Some (ev_sequence user)) None
      (p\<lparr> scopes := r_principal_scopes run \<rparr>) w3 = (Inr ck, w')"
    using assms unfolding launch_work_def by (auto simp: pbind_Inr_iff rbind_Inr_iff now_def)
  have runs: "w_runs w1 = w_runs w" "w_runs w2 = R1" "w_runs w3 = R2" "w_runs w' = R2"
    using staysD [OF stays_runs_append e1] staysD [OF stays_runs_append user] staysD [OF stays_runs_append e3]
      staysD [OF stays_runs_seed ck] by (simp_all add: same_runs_def)
  have new: "dget (rr_runs (w_runs w)) (r_id run) = None" and R1': "R1 = (w_runs w)\<lparr> rr_runs := dset (r_id run) run (rr_runs (w_runs w)) \<rparr>"
    using R1 runs(1) by (auto simp: run_create_def dhas_iff split: if_splits)
  have "R2 = (w_runs w)\<lparr> rr_runs := dset (r_id run)
      (run\<lparr> r_seed_event_sequence := ev_sequence user, r_updated_at := w_clock w2 (w_ticks w2) \<rparr>) (rr_runs (w_runs w)) \<rparr>"
    using R2 runs(2) R1' by (auto simp: set_seed_event_sequence_def rbind_Inr_iff)
  then have "dget (rr_runs (w_runs w')) i = (if i = r_id run
      then Some (run\<lparr> r_seed_event_sequence := ev_sequence user, r_updated_at := w_clock w2 (w_ticks w2) \<rparr>)
      else dget (rr_runs (w_runs w)) i)" for i
    using runs(4) by simp
  then show ?thesis using that new by blast
qed

text \<open>
  A started run: it was not stored before, carries the revision's limits with a deadline, and the
  occurrence links it.
\<close>

definition run_started ::
    "schedule \<Rightarrow> schedule_revision \<Rightarrow> agent_spec \<Rightarrow> string set \<Rightarrow> instant \<Rightarrow> world \<Rightarrow> schedule_occurrence \<Rightarrow> world \<Rightarrow> bool" where
  "run_started s r agent run_scopes t w c w' \<longleftrightarrow> (\<exists>i run. oc_run_id c = Some i \<and> dget (rr_runs (w_runs w)) i = None
     \<and> (\<forall>j. dget (rr_runs (w_runs w')) j = (if j = i then Some run else dget (rr_runs (w_runs w)) j))
     \<and> r_id run = i \<and> oc_session_id c = Some (r_session_id run) \<and> r_status run = Run_QUEUED
     \<and> r_tenant_id run = sd_tenant_id s \<and> r_principal_scopes run = run_scopes
     \<and> r_agent_id run = ag_id agent \<and> r_agent_version run = ag_version agent
     \<and> r_limits run = (rv_limits r)\<lparr> limit_deadline_at := Some (t + seconds (rv_run_timeout_seconds r)) \<rparr>
     \<and> r_deadline_at run = Some (t + seconds (rv_run_timeout_seconds r)))"

lemma start_run_effect:
  assumes "start_run env s r agent authority fired t trigger key instruction given metadata reporting z = (Inr c, z')"
  shows "(\<exists>e. occurrence_insert (zw_schedules z) c = Inr (e, zw_schedules z'))
    \<and> new_occurrence c = Inr c \<and> zw_process z' = zw_process z
    \<and> (\<exists>i sid run_id. c = materialized_occurrence i sid run_id s r authority fired t trigger key)
    \<and> run_started s r agent (case given of None \<Rightarrow> rv_requested_scopes r | Some ss \<Rightarrow> ss) t (zw_world z) c (zw_world z')"
proof -
  define ss where "ss = (case given of None \<Rightarrow> rv_requested_scopes r | Some ss \<Rightarrow> ss)"
  define seed where "seed = (case instruction of None \<Rightarrow> rv_instruction r | Some text \<Rightarrow> text)"
  define w1 where "w1 = (zw_world z)\<lparr> w_ids_used := Suc (Suc (Suc (w_ids_used (zw_world z)))) \<rparr>"
  have w1: "w_runs w1 = w_runs (zw_world z)" by (simp add: w1_def)
  obtain sid run_id i e S1 w2 where
      c: "new_occurrence (materialized_occurrence i sid run_id s r authority fired t trigger key) = Inr c"
    and ins: "occurrence_insert (zw_schedules z) c = Inr (e, S1)"
    and run: "launch_run env s r authority c (scheduled_session env sid s r agent c t metadata reporting)
      (scheduled_run run_id (scheduled_session env sid s r agent c t metadata reporting) s r agent ss t) seed w1 = (Inr (), w2)"
    and z': "zw_schedules z' = S1" "zw_world z' = w2" "zw_process z' = zw_process z"
    using assms unfolding start_run_def Let_def ss_def [symmetric] seed_def [symmetric] w1_def
    by (auto simp: pbind_Inr_iff new_id_def)
  have c': "c = materialized_occurrence i sid run_id s r authority fired t trigger key" "new_occurrence c = Inr c"
    using c by (auto simp: new_occurrence_def manual_key_matches_trigger_def disposition_is_consistent_def rbind_Inr_iff
        split: if_splits option.splits)
  define rn where "rn = scheduled_run run_id (scheduled_session env sid s r agent c t metadata reporting) s r agent ss t"
  obtain n u where "dget (rr_runs (w_runs w1)) (r_id rn) = None"
      "\<And>i. dget (rr_runs (w_runs w2)) i = (if i = r_id rn
        then Some (rn\<lparr> r_seed_event_sequence := n, r_updated_at := u \<rparr>) else dget (rr_runs (w_runs w1)) i)"
    using launch_work_effect [OF run [unfolded launch_run_def]] rn_def by metis
  then have "run_started s r agent ss t (zw_world z) c w2"
    unfolding run_started_def w1 [symmetric]
    by (intro exI [of _ run_id] exI [of _ "rn\<lparr> r_seed_event_sequence := n, r_updated_at := u \<rparr>"])
      (auto simp: rn_def scheduled_run_def scheduled_session_def Let_def c' materialized_occurrence_def)
  then show ?thesis using ins z' c' by (auto simp: ss_def)
qed

definition same_work :: "schedule_world \<Rightarrow> schedule_world \<Rightarrow> bool" where
  "same_work z z' \<longleftrightarrow> w_runs (zw_world z') = w_runs (zw_world z) \<and> w_agents (zw_world z') = w_agents (zw_world z)"

interpretation work_same: evolution same_work
  by unfold_locales (auto simp: same_work_def)

lemma stays_work_basic:
  "stays same_work (zlift new_id)" "stays same_work (append_process e)" "stays same_work (zattempt r)"
  "stays same_work (on_schedules f)"
  by (auto simp: stays_def same_work_def zlift_def new_id_def append_process_def zattempt_def on_schedules_def
      split: sum.splits prod.splits)

lemmas work_same_laws = work_same.stays_return work_same.stays_bind stays_work_basic stays_if stays_case_option
  stays_case_prod

lemma stays_work_notify: "stays same_work (notify env n)"
  unfolding notify_def by (intro work_same_laws work_same.stays_modify) (simp add: same_work_def)

lemma stays_work_events:
  "stays same_work (append_occurrence_event env c s st t)" "stays same_work (append_coalesced_misfires env s r f l t)"
  unfolding append_occurrence_event_def append_coalesced_misfires_def by (intro work_same_laws)+

lemma stays_work_failure: "stays same_work (record_failure env s r fired next_fire t d reason v inc nb)"
  unfolding record_failure_def Let_def by (intro work_same_laws stays_work_notify stays_work_events)

lemma still_running_pure: "still_running latest owner z = (Inr b, z') \<Longrightarrow> z' = z"
  by (auto simp: still_running_def pbind_Inr_iff split: option.splits)

lemma still_running_False:
  assumes "still_running latest owner z = (Inr False, z')" and "latest = Some c" and "oc_run_id c = Some i"
  shows "\<exists>run. dget (rr_runs (w_runs (zw_world z))) i = Some run \<and> r_status run \<in> TERMINAL_RUN_STATUSES"
  using assms by (auto simp: still_running_def pbind_Inr_iff run_get_def rbind_Inr_iff)

lemma materialized_count_pure: "materialized_count i owner z = (Inr k, z') \<Longrightarrow> z' = z"
  by (auto simp: materialized_count_def pbind_Inr_iff)

text \<open>The conditions under which a firing starts a run, and the run it starts.\<close>

definition started_within ::
    "schedule_env \<Rightarrow> schedule \<Rightarrow> schedule_revision \<Rightarrow> instant \<Rightarrow> schedule_world \<Rightarrow> schedule_occurrence \<Rightarrow> schedule_world \<Rightarrow> bool" where
  "started_within env s r t z c z' \<longleftrightarrow> (\<exists>authority agent run_scopes.
     current_authority env (sd_tenant_id s) (sd_principal_id s) = Some authority \<and> au_enabled authority
     \<and> rv_requested_scopes r \<subseteq> scopes (au_principal authority) \<and> run_scopes \<subseteq> rv_requested_scopes r
     \<and> agent_get_version (w_agents (zw_world z)) (rv_agent_id r) (rv_agent_version r) = Inr agent
     \<and> ag_policy_profile agent = rv_policy_profile r
     \<and> oc_authority_version c = Some (au_version authority) \<and> oc_materialized_at c = Some t
     \<and> run_started s r agent run_scopes t (zw_world z) c (zw_world z'))"

definition fired_ok ::
    "schedule_env \<Rightarrow> schedule \<Rightarrow> schedule_revision \<Rightarrow> instant \<Rightarrow> instant option \<Rightarrow> instant \<Rightarrow> schedule_world \<Rightarrow>
       schedule_occurrence \<Rightarrow> schedule_world \<Rightarrow> bool" where
  "fired_ok env s r fired next_fire t z c z' \<longleftrightarrow>
     (\<exists>s'. fires (zw_schedules z) s c s' (zw_schedules z')
        \<and> ((\<exists>failed. s' = advanced_schedule s r next_fire t failed False)
           \<or> rv_call_plan r \<noteq> None \<and> s' = advanced_schedule s r next_fire t False True))
     \<and> oc_schedule_id c = sd_id s \<and> oc_schedule_revision c = rv_revision r \<and> oc_nominal_fire_at c = fired
     \<and> oc_trigger c = Trigger_SCHEDULED \<and> oc_manual_request_key c = None \<and> new_occurrence c = Inr c
     \<and> (if oc_disposition c = MATERIALIZED
        then started_within env s r t z c z' \<and> t \<le> fired + seconds (rv_misfire_grace_seconds r)
        else w_runs (zw_world z') = w_runs (zw_world z))"

lemma record_failure_fired:
  assumes "record_failure env s r fired next_fire t d reason v inc nb z = (Inr c, z')" and "d \<noteq> MATERIALIZED"
  shows "fired_ok env s r fired next_fire t z c z'"
proof -
  note eff = record_failure_effect [OF assms(1)]
  have c: "c = failed_occurrence (oc_id c) s r fired t d reason v" using eff by blast
  have facts: "oc_schedule_id c = sd_id s" "oc_schedule_revision c = rv_revision r" "oc_nominal_fire_at c = fired"
      "oc_trigger c = Trigger_SCHEDULED" "oc_manual_request_key c = None" "oc_disposition c = d"
    by (subst c, simp add: failed_occurrence_def)+
  show ?thesis
    unfolding fired_ok_def using eff facts assms(2) staysD [OF stays_work_failure assms(1)]
    by (auto simp: same_work_def)
qed

lemma start_scheduled_fired:
  assumes "start_scheduled env s r agent authority fired next_fire t step n z = (Inr c, z')"
    and "current_authority env (sd_tenant_id s) (sd_principal_id s) = Some authority" "au_enabled authority"
      "rv_requested_scopes r \<subseteq> scopes (au_principal authority)"
      "agent_get_version (w_agents (zw_world z)) (rv_agent_id r) (rv_agent_version r) = Inr agent"
      "ag_policy_profile agent = rv_policy_profile r" "t \<le> fired + seconds (rv_misfire_grace_seconds r)"
  shows "fired_ok env s r fired next_fire t z c z'"
proof -
  define reporting where "reporting = (case step of None \<Rightarrow> False | Some st \<Rightarrow> ps_kind st = Step_REPORT)"
  define adv where "adv = advanced_schedule s r next_fire t False (rv_call_plan r \<noteq> None \<and> \<not> reporting)"
  obtain seed metadata z1 z2 S2 where
      run: "start_run env s r agent authority fired t Trigger_SCHEDULED None (Some seed)
        (Some (if reporting then {} else rv_requested_scopes r)) metadata reporting z = (Inr c, z1)"
    and ev: "append_occurrence_event env c s (sd_state adv) t z1 = (Inr (), z2)"
    and adv': "advance (zw_schedules z2) s adv = Inr S2" and z': "z' = z2\<lparr> zw_schedules := S2 \<rparr>"
    using assms(1) unfolding start_scheduled_def Let_def reporting_def [symmetric] adv_def
    by (auto simp: pbind_Inr_iff rbind_Inr_iff)
  note eff = start_run_effect [OF run]
  have S: "zw_schedules z2 = zw_schedules z1" using staysD [OF stays_events_schedules(1) ev] by (simp add: same_schedules_def)
  have R: "w_runs (zw_world z2) = w_runs (zw_world z1)" using staysD [OF stays_work_events(1) ev] by (simp add: same_work_def)
  have "fires (zw_schedules z) s c adv (zw_schedules z')"
    using eff adv' S z' unfolding fires_def by auto
  moreover have "(\<exists>failed. adv = advanced_schedule s r next_fire t failed False)
      \<or> rv_call_plan r \<noteq> None \<and> adv = advanced_schedule s r next_fire t False True"
    unfolding adv_def by (cases "rv_call_plan r \<noteq> None \<and> \<not> reporting") auto
  moreover obtain i sid run_id where c: "c = materialized_occurrence i sid run_id s r authority fired t Trigger_SCHEDULED None"
    using eff by blast
  moreover have "run_started s r agent (if reporting then {} else rv_requested_scopes r) t (zw_world z) c (zw_world z')"
    using eff R z' by (simp add: run_started_def)
  then have "started_within env s r t z c z'"
    unfolding started_within_def using assms(2-6) c
    by (intro exI [of _ authority] exI [of _ agent] exI [of _ "if reporting then {} else rv_requested_scopes r"])
      (auto simp: materialized_occurrence_def)
  ultimately show ?thesis
    using eff assms(7) unfolding fired_ok_def by (auto simp: materialized_occurrence_def)
qed

definition recorded_failure ::
    "schedule_env \<Rightarrow> schedule \<Rightarrow> schedule_revision \<Rightarrow> instant \<Rightarrow> instant option \<Rightarrow> instant \<Rightarrow> schedule_world \<Rightarrow>
       schedule_occurrence \<Rightarrow> schedule_world \<Rightarrow> bool" where
  "recorded_failure env s r fired next_fire t z c z' \<longleftrightarrow> (\<exists>d reason v inc nb. d \<noteq> MATERIALIZED
     \<and> record_failure env s r fired next_fire t d reason v inc nb z = (Inr c, z'))"

lemma recorded_failureI:
  "record_failure env s r fired next_fire t d reason v inc nb z = (Inr c, z') \<Longrightarrow> d \<noteq> MATERIALIZED \<Longrightarrow>
    recorded_failure env s r fired next_fire t z c z'"
  unfolding recorded_failure_def by blast

lemma recorded_failure_fired:
  assumes "recorded_failure env s r fired next_fire t z c z'"
  shows "fired_ok env s r fired next_fire t z c z' \<and> oc_disposition c \<noteq> MATERIALIZED"
proof -
  obtain d reason v inc nb where d: "d \<noteq> MATERIALIZED"
      "record_failure env s r fired next_fire t d reason v inc nb z = (Inr c, z')"
    using assms unfolding recorded_failure_def by blast
  have "oc_disposition c = d"
    using record_failure_effect [OF d(2)] by (metis failed_occurrence_def schedule_occurrence.select_convs(5))
  then show ?thesis using record_failure_fired [OF d(2,1)] d(1) by simp
qed

lemma fire_admitted_fired:
  assumes "fire_admitted env s r agent authority fired next_fire t z = (Inr c, z')"
    and "current_authority env (sd_tenant_id s) (sd_principal_id s) = Some authority" "au_enabled authority"
      "rv_requested_scopes r \<subseteq> scopes (au_principal authority)"
      "agent_get_version (w_agents (zw_world z)) (rv_agent_id r) (rv_agent_version r) = Inr agent"
      "ag_policy_profile agent = rv_policy_profile r" "t \<le> fired + seconds (rv_misfire_grace_seconds r)"
  shows "fired_ok env s r fired next_fire t z c z'"
proof -
  consider step n where "start_scheduled env s r agent authority fired next_fire t step n z = (Inr c, z')"
    | "recorded_failure env s r fired next_fire t z c z'"
    using assms(1) unfolding fire_admitted_def
    by (auto simp: pbind_Inr_iff split: if_splits option.splits dest!: materialized_count_pure intro: recorded_failureI)
  then show ?thesis
    by cases (use start_scheduled_fired assms(2-7) recorded_failure_fired in auto)
qed

lemma fire_authorized_fired:
  assumes "fire_authorized env s r authority fired next_fire t z = (Inr (Some c), z')"
    and "current_authority env (sd_tenant_id s) (sd_principal_id s) = Some authority"
    and "t \<le> fired + seconds (rv_misfire_grace_seconds r)"
  shows "fired_ok env s r fired next_fire t z c z'"
proof -
  consider "recorded_failure env s r fired next_fire t z c z'"
    | agent where "au_enabled authority" "rv_requested_scopes r \<subseteq> scopes (au_principal authority)"
        "agent_get_version (w_agents (zw_world z)) (rv_agent_id r) (rv_agent_version r) = Inr agent"
        "ag_policy_profile agent = rv_policy_profile r" "fire_admitted env s r agent authority fired next_fire t z = (Inr c, z')"
    using assms(1) unfolding fire_authorized_def Let_def
    by (auto simp: pbind_Inr_iff split: if_splits option.splits sum.splits admission_outcome.splits
        intro: recorded_failureI)
  then show ?thesis
    by cases (use fire_admitted_fired assms(2,3) recorded_failure_fired in auto)
qed

lemma fire_fired:
  assumes "fire env s r fired next_fire t z = (Inr (Some c), z')"
  shows "fired_ok env s r fired next_fire t z c z'
    \<and> (oc_disposition c = MATERIALIZED \<longrightarrow>
        (\<forall>o' i. latest_materialized_occurrence (zw_schedules z) (sd_id s) = Some o' \<and> oc_run_id o' = Some i \<longrightarrow>
          (\<exists>run. dget (rr_runs (w_runs (zw_world z))) i = Some run \<and> r_status run \<in> TERMINAL_RUN_STATUSES)))"
proof -
  define latest where "latest = latest_materialized_occurrence (zw_schedules z) (sd_id s)"
  obtain running where run: "still_running latest (schedule_principal s) z = (Inr running, z)"
    using assms unfolding fire_def latest_def [symmetric]
    by (auto simp: pbind_Inr_iff latest_def [symmetric] dest: still_running_pure)
  consider (failed) "recorded_failure env s r fired next_fire t z c z'"
    | (ok) authority where "\<not> running" "t \<le> fired + seconds (rv_misfire_grace_seconds r)"
        "current_authority env (sd_tenant_id s) (sd_principal_id s) = Some authority"
        "fire_authorized env s r authority fired next_fire t z = (Inr (Some c), z')"
    using assms run unfolding fire_def
    by (auto simp: pbind_Inr_iff latest_def [symmetric] split: if_splits option.splits intro: recorded_failureI)
  then show ?thesis
  proof cases
    case failed
    then show ?thesis using recorded_failure_fired by blast
  next
    case ok
    have "fired_ok env s r fired next_fire t z c z'" by (rule fire_authorized_fired [OF ok(4,3,2)])
    moreover have "still_running latest (schedule_principal s) z = (Inr False, z)" using run ok(1) by simp
    ultimately show ?thesis using still_running_False unfolding latest_def by blast
  qed
qed

text \<open>A body that answers with an occurrence either found one stored already or fired.\<close>

lemma materialize_body_cases:
  assumes "materialize_body env i t z = (Inr (Some c), z')"
  obtains (idle) "lock_due (zw_schedules z) i t = None"
      "latest_occurrence_at_or_before (zw_schedules z) i t = Some c" "z' = z"
  | (known) s fired where "lock_due (zw_schedules z) i t = Some s"
      "get_occurrence_by_nominal (zw_schedules z) (sd_id s) fired = Inr (Some c)" "z' = z"
  | (fires) s r fired planned next_fire z1 where "lock_due (zw_schedules z) i t = Some s"
      "get_revision (zw_schedules z) (sd_id s) (sd_current_revision s) (schedule_principal s) = Inr r"
      "(if rv_call_plan r = None then latest_at_or_before (ze_zones env) (rv_cadence r) t
        else Inr (sd_next_fire_at s)) = Inr (Some fired)"
      "sd_next_fire_at s = Some planned" "planned \<le> fired"
      "get_occurrence_by_nominal (zw_schedules z) (sd_id s) fired = Inr None"
      "next_after (ze_zones env) (rv_cadence r) t = Inr next_fire"
      "append_coalesced_misfires env s r planned fired t z = (Inr (), z1)"
      "fire env s r fired next_fire t z1 = (Inr (Some c), z')"
proof (cases "lock_due (zw_schedules z) i t")
  case None
  then have "latest_occurrence_at_or_before (zw_schedules z) i t = Some c \<and> z' = z"
    using assms by (auto simp: materialize_body_def)
  then show ?thesis using idle [OF None] by blast
next
  case (Some s)
  obtain r instant where r: "get_revision (zw_schedules z) (sd_id s) (sd_current_revision s) (schedule_principal s) = Inr r"
    and ins: "(if rv_call_plan r = None then latest_at_or_before (ze_zones env) (rv_cadence r) t
        else Inr (sd_next_fire_at s)) = Inr instant"
    and rest: "fire_due env s r t instant z = (Inr (Some c), z')"
  proof -
    have "pbind (zattempt (get_revision (zw_schedules z) (sd_id s) (sd_current_revision s) (schedule_principal s))) (\<lambda>r.
        pbind (zattempt (if rv_call_plan r = None then latest_at_or_before (ze_zones env) (rv_cadence r) t
          else Inr (sd_next_fire_at s))) (fire_due env s r t)) z = (Inr (Some c), z')"
      using assms Some by (simp add: materialize_body_def)
    then show thesis using that by (auto simp only: pbind_Inr_iff zattempt_Inr)
  qed
  obtain fired planned where fp: "instant = Some fired" "sd_next_fire_at s = Some planned" "planned \<le> fired"
    using rest by (auto simp: fire_due_def split: option.splits if_splits)
  obtain existing where e: "get_occurrence_by_nominal (zw_schedules z) (sd_id s) fired = Inr existing"
    using rest fp by (auto simp: fire_due_def pbind_Inr_iff)
  show ?thesis
  proof (cases existing)
    case None
    have "pbind (zattempt (next_after (ze_zones env) (rv_cadence r) t)) (\<lambda>next_fire.
        pbind (append_coalesced_misfires env s r planned fired t) (\<lambda>_. fire env s r fired next_fire t)) z = (Inr (Some c), z')"
      using rest fp e None by (simp add: fire_due_def)
    then obtain next_fire z1 where nf: "next_after (ze_zones env) (rv_cadence r) t = Inr next_fire"
      "append_coalesced_misfires env s r planned fired t z = (Inr (), z1)" "fire env s r fired next_fire t z1 = (Inr (Some c), z')"
      by (auto simp: pbind_Inr_iff)
    show ?thesis by (rule fires [OF Some r _ fp(2,3) _ nf]) (use ins fp e None in simp_all)
  next
    case (Some c')
    have "c' = c \<and> z' = z" using rest fp e Some by (auto simp: fire_due_def)
    then show ?thesis using e Some known [OF \<open>lock_due (zw_schedules z) i t = Some s\<close>, of fired] by simp
  qed
qed

subsection \<open>Exactly one occurrence per instant\<close>

lemma fires_effect:
  assumes "fires S s c s' S'" and "schedule_repo_ok S"
    and "get_occurrence_by_nominal S (oc_schedule_id c) (oc_nominal_fire_at c) = Inr None" "oc_trigger c = Trigger_SCHEDULED"
  shows "schedule_repo_ok S'" "dget (so_occurrences S) (oc_id c) = None"
    "dget (so_occurrences S') k = (if k = oc_id c then Some c else dget (so_occurrences S) k)"
    "dget (so_schedules S') i = (if i = sd_id s then Some s' else dget (so_schedules S) i)"
    "so_revisions S' = so_revisions S"
proof -
  obtain e S1 where ins: "occurrence_insert S c = Inr (e, S1)" and adv: "advance S1 s s' = Inr S'"
    using assms(1) unfolding fires_def by blast
  show "schedule_repo_ok S'" by (rule advance_ok [OF adv occurrence_insert_ok [OF ins assms(2)]])
  have S': "S' = S1\<lparr> so_schedules := dset (sd_id s) s' (so_schedules S1) \<rparr>"
    using adv by (auto simp: advance_def split: if_splits)
  from ins assms(2)
  have "dget (so_occurrences S) (oc_id c) = None
      \<and> (\<forall>k. dget (so_occurrences S1) k = (if k = oc_id c then Some c else dget (so_occurrences S) k))
      \<and> so_schedules S1 = so_schedules S \<and> so_revisions S1 = so_revisions S"
  proof (cases rule: occurrence_insert_cases)
    case found
    have "dget (so_occurrence_keys S) (oc_schedule_id c, oc_nominal_fire_at c) = Some (oc_id c)"
      using assms(2,4) found(3) unfolding schedule_repo_ok_def scheduled_indexed_def by blast
    then show ?thesis using assms(3) found(3) by (simp add: get_occurrence_by_nominal_def)
  next
    case fresh
    then show ?thesis by simp
  qed
  then show "dget (so_occurrences S) (oc_id c) = None"
    "dget (so_occurrences S') k = (if k = oc_id c then Some c else dget (so_occurrences S) k)"
    "dget (so_schedules S') i = (if i = sd_id s then Some s' else dget (so_schedules S) i)"
    "so_revisions S' = so_revisions S"
    using S' by simp_all
qed

lemma lock_due_Some:
  "lock_due S i t = Some s \<longleftrightarrow> dget (so_schedules S) i = Some s \<and> sd_state s = Sched_ACTIVE
     \<and> (\<exists>f. sd_next_fire_at s = Some f \<and> f \<le> t)"
  by (auto simp: lock_due_def split: option.splits if_splits)

lemma advanced_due:
  "lock_due S i t' \<noteq> None \<Longrightarrow> dget (so_schedules S) i = Some (advanced_schedule s r next_fire t failed awaiting) \<Longrightarrow>
    \<exists>u. next_fire = Some u \<and> u \<le> t' \<and> \<not> awaiting"
  by (auto simp: lock_due_Some advanced_schedule_def Let_def split: if_splits)

lemma commit_unit_simps [simp]:
  "w_runs (commit_unit w w') = w_runs w'" "w_agents (commit_unit w w') = w_agents w'"
  "w_runs (enter_unit w) = w_runs w" "w_agents (enter_unit w) = w_agents w"
  by (simp_all add: commit_unit_def enter_unit_def)

lemma schedule_unit_Inr:
  "schedule_unit body z = (Inr a, z') \<longleftrightarrow> (\<exists>z1. body (z\<lparr> zw_world := enter_unit (zw_world z) \<rparr>) = (Inr a, z1)
     \<and> z' = z1\<lparr> zw_world := commit_unit (zw_world z) (zw_world z1) \<rparr>)"
  by (auto simp: schedule_unit_def split: prod.splits sum.splits)

abbreviation reading :: "schedule_world \<Rightarrow> instant" where
  "reading z \<equiv> w_clock (zw_world z) (w_ticks (zw_world z))"

text \<open>The state in which a call to \<open>materialize\<close> runs its body.\<close>

definition opened :: "schedule_world \<Rightarrow> schedule_world" where
  "opened z = z\<lparr> zw_world := enter_unit ((zw_world z)\<lparr> w_ticks := Suc (w_ticks (zw_world z)) \<rparr>) \<rparr>"

lemma opened_simps [simp]:
  "zw_schedules (opened z) = zw_schedules z" "w_runs (zw_world (opened z)) = w_runs (zw_world z)"
  "w_agents (zw_world (opened z)) = w_agents (zw_world z)"
  by (simp_all add: opened_def)

lemma materialize_Inr:
  assumes "materialize env i z = (Inr a, z')"
  obtains z1 where "materialize_body env i (reading z) (opened z) = (Inr a, z1)"
    and "zw_schedules z' = zw_schedules z1" "w_runs (zw_world z') = w_runs (zw_world z1)"
  using assms unfolding materialize_def by (auto simp: pbind_Inr_iff now_def schedule_unit_Inr opened_def)

text \<open>A call that recorded a new occurrence, unfolded.\<close>

lemma materialize_new:
  assumes "materialize env i z = (Inr (Some c), z')" and "schedule_repo_ok (zw_schedules z)"
    and "dget (so_occurrences (zw_schedules z)) (oc_id c) = None"
  obtains s r fired planned next_fire z1 z2 where
    "dget (so_schedules (zw_schedules z)) i = Some s" "sd_id s = i" "sd_state s = Sched_ACTIVE"
    "sd_next_fire_at s = Some planned" "planned \<le> reading z" "planned \<le> fired"
    "dget (so_revisions (zw_schedules z)) (i, sd_current_revision s) = Some r"
    "(if rv_call_plan r = None then latest_at_or_before (ze_zones env) (rv_cadence r) (reading z)
        else Inr (sd_next_fire_at s)) = Inr (Some fired)"
    "get_occurrence_by_nominal (zw_schedules z) i fired = Inr None"
    "next_after (ze_zones env) (rv_cadence r) (reading z) = Inr next_fire"
    "zw_schedules z1 = zw_schedules z" "w_runs (zw_world z1) = w_runs (zw_world z)" "w_agents (zw_world z1) = w_agents (zw_world z)"
    "fire env s r fired next_fire (reading z) z1 = (Inr (Some c), z2)"
    "zw_schedules z' = zw_schedules z2" "w_runs (zw_world z') = w_runs (zw_world z2)"
proof -
  have keyed: "keyed sd_id (so_schedules (zw_schedules z))" "keyed oc_id (so_occurrences (zw_schedules z))"
    using assms(2) by (simp_all add: schedule_repo_ok_def tables_keyed_def)
  have stored: "False" if "c \<in> set (dvals (so_occurrences (zw_schedules z)))"
    using that keyed_vals [OF keyed(2)] assms(3) by simp
  obtain z2 where body: "materialize_body env i (reading z) (opened z) = (Inr (Some c), z2)"
    and z': "zw_schedules z' = zw_schedules z2" "w_runs (zw_world z') = w_runs (zw_world z2)"
    by (rule materialize_Inr [OF assms(1)])
  from body show ?thesis
  proof (cases rule: materialize_body_cases)
    case idle
    then have "c \<in> set (dvals (so_occurrences (zw_schedules z)))"
      using max_by_Some by (fastforce simp: latest_occurrence_at_or_before_def)
    then show ?thesis using stored by blast
  next
    case (known s fired)
    then obtain k where "dget (so_occurrences (zw_schedules z)) k = Some c"
      by (auto simp: get_occurrence_by_nominal_def rbind_Inr_iff split: option.splits)
    then show ?thesis using keyed_dget [OF keyed(2)] assms(3) by force
  next
    case (fires s r fired planned next_fire z1)
    note due = fires(1) [unfolded lock_due_Some opened_simps]
    have id: "sd_id s = i" using keyed_dget [OF keyed(1)] due by blast
    have r: "dget (so_revisions (zw_schedules z)) (i, sd_current_revision s) = Some r"
      using fires(2) id by (auto simp: get_revision_def rbind_Inr_iff)
    have "zw_schedules z1 = zw_schedules z" "w_runs (zw_world z1) = w_runs (zw_world z)" "w_agents (zw_world z1) = w_agents (zw_world z)"
      using staysD [OF stays_events_schedules(2) fires(8)] staysD [OF stays_work_events(2) fires(8)]
      by (simp_all add: same_schedules_def same_work_def)
    then show ?thesis
      using that [OF _ id _ fires(4) _ fires(5) r fires(3) _ fires(7) _ _ _ fires(9) z'] due fires(4,6) id by auto
  qed
qed

end
