(* ===== verification/Firing.thy ===== *)
theory Firing
  imports Materializer Recurrence_Counts
begin

text \<open>
  What a firing of the materializer does. One cadence instant gives one occurrence; a started run stays
  inside its owner's current authority; and a schedule that passes every check does start its run,
  because no store refuses the writes of \<open>_start_run\<close> when the identifiers are new.
\<close>

subsection \<open>Exact and authorized\<close>



subsection \<open>Appending to a session's log\<close>

definition log_ready :: "submit_env \<Rightarrow> uuid \<Rightarrow> principal \<Rightarrow> event_repo \<Rightarrow> session_repo \<Rightarrow> bool" where
  "log_ready env sid p E S \<longleftrightarrow> is_ok (session_get S sid p) \<and> event_repo_ok E
     \<and> is_ok (project_items (se_adapters env) (stream E sid))"

lemma append_ready:
  assumes ready: "log_ready env sid p (w_events w) (w_sessions w)" and e: "ne_session_id e = sid" "ne_derivation_key e = None"
    and item: "\<And>x. logged e x \<Longrightarrow> is_ok (conversation_items (se_adapters env) x)"
  obtains x E S where "append_event env e None w = (Inr x, w\<lparr> w_ticks := Suc (w_ticks w), w_events := E, w_sessions := S \<rparr>)"
    and "log_ready env sid p E S" and "0 \<le> ev_sequence x"
proof -
  obtain s where "dget (sr_sessions (w_sessions w)) (ne_session_id e) = Some s"
    using ready owned_session_stored e(1) unfolding log_ready_def by blast
  from append_event_succeeds [OF this e(2)] obtain x w' where app: "append_event env e None w = (Inr x, w')"
    and owners: "\<forall>i. map_option session_owner (dget (sr_sessions (w_sessions w')) i)
      = map_option session_owner (dget (sr_sessions (w_sessions w)) i)" by blast
  obtain E S where w': "w' = w\<lparr> w_ticks := Suc (w_ticks w), w_events := E, w_sessions := S \<rparr>"
    and E: "stream E sid = stream (w_events w) sid @ [x]" "logged e x" "event_repo_ok E"
      "ev_sequence x = int (length (stream (w_events w) sid)) + 1"
    using append_event_effect [OF app e(2)] ready unfolding log_ready_def e(1) by auto
  have "is_ok (project_items (se_adapters env) (stream E sid))"
    using ready item [OF E(2)] E(1) by (auto simp: log_ready_def project_items_append is_ok_iff)
  moreover have "is_ok (session_get S sid p)"
    using session_owned_cong [OF owners] ready w' by (simp add: log_ready_def)
  ultimately show thesis using that app w' E(3,4) by (simp add: log_ready_def)
qed

subsection \<open>The writes of a started run\<close>

lemma scheduled_items:
  "logged (scheduled_session_event s r session) x \<Longrightarrow> is_ok (conversation_items ad x)"
  "logged (instruction_event s run seed) x \<Longrightarrow> is_ok (conversation_items ad x)"
  "logged (scheduled_queued_event s r c authority run) x \<Longrightarrow> is_ok (conversation_items ad x)"
  by (simp_all add: logged_def scheduled_session_event_def instruction_event_def scheduled_queued_event_def
      plain_event_def conversation_items_def ORIGINAL_EVENTS_def checkpoint_trigger_def TOOL_RESULT_EVENTS_def)

lemma scheduled_ids:
  "ne_session_id (scheduled_session_event s r session) = s_id session"
  "ne_derivation_key (scheduled_session_event s r session) = None"
  "ne_session_id (instruction_event s run seed) = r_session_id run"
  "ne_derivation_key (instruction_event s run seed) = None"
  "ne_session_id (scheduled_queued_event s r c authority run) = r_session_id run"
  "ne_derivation_key (scheduled_queued_event s r c authority run) = None"
  by (simp_all add: scheduled_session_event_def instruction_event_def scheduled_queued_event_def plain_event_def)

text \<open>An identifier no store has used.\<close>

definition unused :: "submit_env \<Rightarrow> world \<Rightarrow> uuid \<Rightarrow> bool" where
  "unused env w i \<longleftrightarrow> dget (sr_sessions (w_sessions w)) i = None \<and> stream (w_events w) i = []
     \<and> dget (rr_runs (w_runs w)) i = None \<and> (\<forall>run \<in> set (dvals (rr_runs (w_runs w))). r_session_id run \<noteq> i)
     \<and> seedable env (w_checkpoints w) i"

lemma launch_work_succeeds:
  assumes ok: "event_repo_ok (w_events w)"
    and sid: "unused env w (s_id session)" and rid: "unused env w (r_id run)"
    and owns: "s_tenant_id session = tenant_id owner" "s_principal_id session = principal_id owner"
    and run: "r_session_id run = s_id session" "deadline_matches_limits run = Inr run" "r_seed_event_sequence run = 0"
      "r_kind run \<noteq> SKILL_REVIEW"
    and events: "ne_session_id created = s_id session" "ne_derivation_key created = None"
      "ne_session_id message = r_session_id run" "ne_derivation_key message = None"
      "ne_session_id queued = r_session_id run" "ne_derivation_key queued = None"
    and items: "\<And>x. logged created x \<Longrightarrow> is_ok (conversation_items (se_adapters env) x)"
      "\<And>x. logged message x \<Longrightarrow> is_ok (conversation_items (se_adapters env) x)"
      "\<And>x. logged queued x \<Longrightarrow> is_ok (conversation_items (se_adapters env) x)"
  shows "\<exists>w'. launch_work env session run created message queued owner w = (Inr (), w')"
proof -
  define p where "p = owner\<lparr> scopes := r_principal_scopes run \<rparr>"
  obtain S0 where S0: "session_create (w_sessions w) session = Inr S0" "dget (sr_sessions S0) (s_id session) = Some session"
    using sid by (auto simp: unused_def session_create_def dhas_iff)
  define w0 where "w0 = w\<lparr> w_sessions := S0 \<rparr>"
  have "log_ready env (s_id session) p (w_events w0) (w_sessions w0)"
    using ok sid S0(2) owns by (simp add: log_ready_def w0_def p_def unused_def session_get_def dlookup_def is_ok_def)
  then obtain x1 E1 S1 where a1: "append_event env created None w0
      = (Inr x1, w0\<lparr> w_ticks := Suc (w_ticks w0), w_events := E1, w_sessions := S1 \<rparr>)" "log_ready env (s_id session) p E1 S1"
    by (rule append_ready [OF _ events(1,2) items(1)])
  define R1 where "R1 = (w_runs w)\<lparr> rr_runs := dset (r_id run) run (rr_runs (w_runs w)) \<rparr>"
  have R1: "run_create (w_runs w0) run = Inr R1"
    using sid rid run by (auto simp: run_create_def R1_def dhas_iff unused_def w0_def)
  define w1 where "w1 = w0\<lparr> w_ticks := Suc (w_ticks w0), w_events := E1, w_sessions := S1, w_runs := R1 \<rparr>"
  have "log_ready env (r_session_id run) p (w_events w1) (w_sessions w1)" using a1(2) run(1) by (simp add: w1_def)
  then obtain user E2 S2 where a2: "append_event env message None w1
      = (Inr user, w1\<lparr> w_ticks := Suc (w_ticks w1), w_events := E2, w_sessions := S2 \<rparr>)"
      "log_ready env (r_session_id run) p E2 S2" "0 \<le> ev_sequence user"
    by (rule append_ready [OF _ events(3,4) items(2)])
  define t' where "t' = w_clock w1 (Suc (w_ticks w1))"
  have runs1: "w_runs w1 = R1" by (simp add: w1_def)
  define R2 where "R2 = R1\<lparr> rr_runs := dset (r_id run) (run\<lparr> r_seed_event_sequence := ev_sequence user,
    r_updated_at := t' \<rparr>) (rr_runs R1) \<rparr>"
  have R2: "set_seed_event_sequence R1 (r_id run) (ev_sequence user) t' = Inr R2"
    using run(3) by (simp add: set_seed_event_sequence_def dlookup_def R1_def R2_def)
  define w2 where "w2 = w1\<lparr> w_events := E2, w_sessions := S2, w_ticks := Suc (Suc (w_ticks w1)), w_runs := R2 \<rparr>"
  have "log_ready env (r_session_id run) p (w_events w2) (w_sessions w2)" using a2(2) by (simp add: w2_def)
  then obtain x3 E3 S3 where a3: "append_event env queued None w2
      = (Inr x3, w2\<lparr> w_ticks := Suc (w_ticks w2), w_events := E3, w_sessions := S3 \<rparr>)" "log_ready env (r_session_id run) p E3 S3"
    by (rule append_ready [OF _ events(5,6) items(3)])
  define w3 where "w3 = w2\<lparr> w_ticks := Suc (w_ticks w2), w_events := E3, w_sessions := S3 \<rparr>"
  obtain found where found: "project_items (se_adapters env) (stream (w_events w3) (r_session_id run)) = Inr found"
    using a3(2) by (auto simp: log_ready_def is_ok_iff w3_def)
  have "seedable env (w_checkpoints w3) (r_id run)" using rid by (simp add: w3_def w2_def w1_def w0_def unused_def )
  moreover have "event_repo_ok (w_events w3)" "is_ok (session_get (w_sessions w3) (r_session_id run) p)"
    using a3(2) by (simp_all add: w3_def log_ready_def)
  ultimately obtain ck w' where seed: "seed_checkpoint env run (Some (ev_sequence user)) None p w3 = (Inr ck, w')"
    using seed_checkpoint_succeeds [OF _ found a2(3)] by blast
  have "launch_work env session run created message queued owner w = (Inr (), w')"
    unfolding launch_work_def p_def [symmetric]
    using S0(1) a1(1) R1 a2(1) R2 a3(1) seed run(2) runs1
    by (simp add: pbind_def attempt_def now_def on_store_def w0_def [symmetric] w1_def [symmetric] w2_def [symmetric]
        w3_def [symmetric] t'_def [symmetric])
  then show ?thesis by blast
qed

lemma launch_run_succeeds:
  assumes ok: "event_repo_ok (w_events w)"
    and sid: "unused (ze_submit env) w (s_id session)" and rid: "unused (ze_submit env) w (r_id run)"
    and owner: "s_tenant_id session = tenant_id (au_principal authority)"
      "s_principal_id session = principal_id (au_principal authority)"
    and run: "r_session_id run = s_id session" "deadline_matches_limits run = Inr run" "r_seed_event_sequence run = 0"
      "r_kind run \<noteq> SKILL_REVIEW"
  shows "\<exists>w'. launch_run env s r authority c session run seed w = (Inr (), w')"
  unfolding launch_run_def
  by (rule launch_work_succeeds [OF ok sid rid owner run scheduled_ids scheduled_items])

text \<open>Starting a run adds a new occurrence and cannot fail when the next three identifiers are unused.\<close>

definition fresh_ids :: "schedule_env \<Rightarrow> schedule_world \<Rightarrow> bool" where
  "fresh_ids env z \<longleftrightarrow> (\<forall>n \<ge> w_ids_used (zw_world z). unused (ze_submit env) (zw_world z) (w_ids (zw_world z) n)
     \<and> dget (so_occurrences (zw_schedules z)) (w_ids (zw_world z) n) = None
     \<and> dget (zw_process z) (''schedule.occurrence:'' @ uuid_str (w_ids (zw_world z) n)) = None)"

lemma start_run_possible:
  assumes ok: "event_repo_ok (w_events (zw_world z))" and fresh: "fresh_ids env z"
    and owner: "sd_tenant_id s = tenant_id (au_principal authority)" "sd_principal_id s = principal_id (au_principal authority)"
    and valid: "\<And>j sid rid. new_occurrence (materialized_occurrence j sid rid s r authority fired t trigger key)
      = Inr (materialized_occurrence j sid rid s r authority fired t trigger key)"
    and room: "\<And>j sid rid. dget (so_occurrences (zw_schedules z)) j = None \<Longrightarrow>
      \<exists>S. occurrence_insert (zw_schedules z) (materialized_occurrence j sid rid s r authority fired t trigger key)
        = Inr (materialized_occurrence j sid rid s r authority fired t trigger key, S)"
  shows "\<exists>c z'. start_run env s r agent authority fired t trigger key instruction given metadata reporting z = (Inr c, z')
    \<and> oc_id c = w_ids (zw_world z) (w_ids_used (zw_world z) + 2)"
proof -
  define w where "w = zw_world z"
  define k where "k = w_ids_used w"
  define a where "a = w_ids w"
  define w1 where "w1 = w\<lparr> w_ids_used := Suc (Suc (Suc k)) \<rparr>"
  define c where "c = materialized_occurrence (a (Suc (Suc k))) (a k) (a (Suc k)) s r authority fired t trigger key"
  have c: "new_occurrence c = Inr c" unfolding c_def by (rule valid)
  have new: "unused (ze_submit env) w (a n)" "dget (so_occurrences (zw_schedules z)) (a n) = None" if "k \<le> n" for n
    using fresh that unfolding fresh_ids_def w_def [symmetric] k_def [symmetric] a_def [symmetric] by blast+
  obtain S where S: "occurrence_insert (zw_schedules z) c = Inr (c, S)"
    using room [OF new(2) [of "Suc (Suc k)"]] unfolding c_def by auto
  define session where "session = scheduled_session env (a k) s r agent c t metadata reporting"
  define run where "run = scheduled_run (a (Suc k)) session s r agent
    (case given of None \<Rightarrow> rv_requested_scopes r | Some ss \<Rightarrow> ss) t"
  have "unused (ze_submit env) w1 i \<longleftrightarrow> unused (ze_submit env) w i" for i by (simp add: unused_def w1_def)
  then have u: "unused (ze_submit env) w1 (s_id session)" "unused (ze_submit env) w1 (r_id run)"
    using new(1) by (simp_all add: session_def scheduled_session_def run_def scheduled_run_def Let_def)
  have "\<exists>w'. launch_run env s r authority c session run (case instruction of None \<Rightarrow> rv_instruction r | Some text \<Rightarrow> text) w1
      = (Inr (), w')"
    by (rule launch_run_succeeds [OF _ u])
      (use ok owner in \<open>simp_all add: w1_def w_def session_def scheduled_session_def run_def scheduled_run_def Let_def
        deadline_matches_limits_def\<close>)
  then obtain w' where l: "launch_run env s r authority c session run
      (case instruction of None \<Rightarrow> rv_instruction r | Some text \<Rightarrow> text) w1 = (Inr (), w')" by blast
  have "start_run env s r agent authority fired t trigger key instruction given metadata reporting z
      = (Inr c, z\<lparr> zw_schedules := S, zw_world := w' \<rparr>)"
    using c S l
    by (simp add: start_run_def pbind_def zlift_def new_id_def zattempt_def on_schedules_def Let_def w_def [symmetric]
        a_def [symmetric] k_def [symmetric] c_def [symmetric] session_def [symmetric] run_def [symmetric] w1_def [symmetric])
  then show ?thesis by (simp add: c_def materialized_occurrence_def a_def k_def w_def)
qed

lemma start_run_succeeds:
  assumes "event_repo_ok (w_events (zw_world z))" and "fresh_ids env z"
    and "sd_tenant_id s = tenant_id (au_principal authority)" "sd_principal_id s = principal_id (au_principal authority)"
    and stored: "dget (so_schedules (zw_schedules z)) (sd_id s) = Some s"
      "dget (so_revisions (zw_schedules z)) (sd_id s, rv_revision r) = Some r" "1 \<le> rv_revision r" "fired \<le> t"
    and free: "dget (so_occurrence_keys (zw_schedules z)) (sd_id s, fired) = None"
  shows "\<exists>c z'. start_run env s r agent authority fired t Trigger_SCHEDULED None instruction given metadata reporting z = (Inr c, z')
    \<and> oc_id c = w_ids (zw_world z) (w_ids_used (zw_world z) + 2)"
  using stored free
  by (intro start_run_possible [OF assms(1-4)])
    (simp_all add: new_occurrence_def occurrence_fields_ok_def materialized_occurrence_def
        manual_key_matches_trigger_def disposition_is_consistent_def occurrence_insert_def manual_clash_def dhas_iff)

subsection \<open>A firing that passes every check\<close>

lemma advanced_identity [simp]:
  "sd_id (advanced_schedule s r n t f a) = sd_id s"
  "sd_current_revision (advanced_schedule s r n t f a) = sd_current_revision s"
  by (simp_all add: advanced_schedule_def Let_def)

lemma occurrence_insert_schedules:
  assumes "occurrence_insert S c = Inr (e, S')"
  shows "so_schedules S' = so_schedules S"
  using assms by (auto simp: occurrence_insert_def rbind_Inr_iff Let_def split: if_splits option.splits)

lemma start_scheduled_succeeds:
  assumes "event_repo_ok (w_events (zw_world z))" and fresh: "fresh_ids env z" and "rv_call_plan r = None"
    and "sd_tenant_id s = tenant_id (au_principal authority)" "sd_principal_id s = principal_id (au_principal authority)"
    and stored: "dget (so_schedules (zw_schedules z)) (sd_id s) = Some s"
      "dget (so_revisions (zw_schedules z)) (sd_id s, rv_revision r) = Some r" "1 \<le> rv_revision r" "fired \<le> t"
    and "dget (so_occurrence_keys (zw_schedules z)) (sd_id s, fired) = None"
  shows "\<exists>c z'. start_scheduled env s r agent authority fired next_fire t None 1 z = (Inr c, z')
    \<and> oc_disposition c = MATERIALIZED \<and> oc_nominal_fire_at c = fired
    \<and> oc_id c = w_ids (zw_world z) (w_ids_used (zw_world z) + 2)"
proof -
  define adv where "adv = advanced_schedule s r next_fire t False False"
  obtain c z1 where run: "start_run env s r agent authority fired t Trigger_SCHEDULED None (Some (rv_instruction r))
      (Some (rv_requested_scopes r)) [] False z = (Inr c, z1)" "oc_id c = w_ids (zw_world z) (w_ids_used (zw_world z) + 2)"
    using start_run_succeeds [OF assms(1,2,4-10)] by blast
  note eff = start_run_effect [OF run(1)]
  have key: "dget (zw_process z1) (''schedule.occurrence:'' @ uuid_str (oc_id c)) = None"
    using eff fresh run(2) by (simp add: fresh_ids_def)
  have kept: "dget (so_schedules (zw_schedules z1)) (sd_id s) = Some s"
    using eff stored(1) occurrence_insert_schedules by fastforce
  obtain z2 where ev: "append_occurrence_event env c s (sd_state adv) t z1 = (Inr (), z2)"
    using key by (simp add: append_occurrence_event_def pbind_def zlift_def new_id_def append_process_def
        process_append_def occurrence_event_def scheduler_event_def)
  have "zw_schedules z2 = zw_schedules z1" using staysD [OF stays_events_schedules(1) ev] by (simp add: same_schedules_def)
  then obtain S where "advance (zw_schedules z2) s adv = Inr S" using kept by (simp add: advance_def adv_def)
  then have "start_scheduled env s r agent authority fired next_fire t None 1 z = (Inr c, z2\<lparr> zw_schedules := S \<rparr>)"
    using run(1) ev assms(3)
    by (simp add: start_scheduled_def planned_instruction_def zattempt_def pbind_def on_schedules_def Let_def adv_def [symmetric])
  then show ?thesis using eff run(2) by (auto simp: materialized_occurrence_def)
qed

text \<open>
  A schedule without a call plan is ready when it is due at a cadence instant that has no occurrence
  yet, its last run has ended, the misfire grace has not passed, the owner's authority covers the
  revision, the agent is as approved, the admission controller allows the run, and the identifiers to
  come are new.
\<close>

definition ready_to_fire ::
    "schedule_env \<Rightarrow> uuid \<Rightarrow> schedule_world \<Rightarrow> schedule \<Rightarrow> schedule_revision \<Rightarrow> instant \<Rightarrow> bool" where
  "ready_to_fire env i z s r fired \<longleftrightarrow>
     schedule_repo_ok (zw_schedules z) \<and> event_repo_ok (w_events (zw_world z)) \<and> fresh_ids env z
     \<and> lock_due (zw_schedules z) i (reading z) = Some s
     \<and> dget (so_revisions (zw_schedules z)) (i, sd_current_revision s) = Some r \<and> rv_call_plan r = None
     \<and> 1 \<le> rv_revision r
     \<and> latest_at_or_before (ze_zones env) (rv_cadence r) (reading z) = Inr (Some fired)
     \<and> (\<forall>planned. sd_next_fire_at s = Some planned \<longrightarrow> planned \<le> fired
          \<and> is_ok (count_between (ze_zones env) (rv_cadence r) planned fired))
     \<and> fired \<le> reading z \<and> reading z \<le> fired + seconds (rv_misfire_grace_seconds r)
     \<and> is_ok (next_after (ze_zones env) (rv_cadence r) (reading z))
     \<and> get_occurrence_by_nominal (zw_schedules z) i fired = Inr None
     \<and> dget (zw_process z) (''schedule.misfires_coalesced:'' @ uuid_str i @ '':'' @ str_int (rv_revision r) @ '':''
          @ ze_isoformat env fired) = None
     \<and> (\<forall>c k. latest_materialized_occurrence (zw_schedules z) i = Some c \<and> oc_run_id c = Some k \<longrightarrow>
          (\<exists>run. run_get (w_sessions (zw_world z)) (w_runs (zw_world z)) k (schedule_principal s) = Inr run
             \<and> r_status run \<in> TERMINAL_RUN_STATUSES))
     \<and> (\<exists>authority agent. current_authority env (sd_tenant_id s) (sd_principal_id s) = Some authority \<and> au_enabled authority
          \<and> rv_requested_scopes r \<subseteq> scopes (au_principal authority)
          \<and> agent_get_version (w_agents (zw_world z)) (rv_agent_id r) (rv_agent_version r) = Inr agent
          \<and> ag_policy_profile agent = rv_policy_profile r)
     \<and> (\<forall>z'. ze_admission env z' (sd_tenant_id s) r (reading z)
          = Inr \<lparr> ad_outcome = Admit_ALLOW, ad_reason_code = None \<rparr>)"

lemma still_running_idle:
  assumes "\<And>c k. latest = Some c \<Longrightarrow> oc_run_id c = Some k \<Longrightarrow>
      \<exists>run. run_get (w_sessions (zw_world z)) (w_runs (zw_world z)) k owner = Inr run \<and> r_status run \<in> TERMINAL_RUN_STATUSES"
  shows "still_running latest owner z = (Inr False, z)"
proof (cases latest)
  case None
  then show ?thesis by (simp add: still_running_def)
next
  case (Some c)
  then show ?thesis
    using assms [of c] by (cases "oc_run_id c") (auto simp: still_running_def pbind_def zattempt_def)
qed

text \<open>The coalesced misfires are recorded without touching what the firing reads.\<close>

lemma coalesced_succeeds:
  assumes "is_ok (count_between (ze_zones env) (rv_cadence r) planned fired)" and "fresh_ids env z"
    and "dget (zw_process z) (''schedule.misfires_coalesced:'' @ uuid_str (sd_id s) @ '':'' @ str_int (rv_revision r) @ '':''
      @ ze_isoformat env fired) = None"
  shows "\<exists>z1. append_coalesced_misfires env s r planned fired t z = (Inr (), z1) \<and> fresh_ids env z1
    \<and> zw_schedules z1 = zw_schedules z \<and> (\<exists>n. zw_world z1 = (zw_world z)\<lparr> w_ids_used := n \<rparr>)"
proof -
  obtain n where n: "count_between (ze_zones env) (rv_cadence r) planned fired = Inr n" using assms(1) by (auto simp: is_ok_iff)
  show ?thesis
  proof (cases "n \<le> 1")
    case True
    then show ?thesis
      using n assms(2) by (auto simp: append_coalesced_misfires_def pbind_def zattempt_def intro: exI [of _ "w_ids_used (zw_world z)"])
  next
    case False
    have "unused (ze_submit env) ((zw_world z)\<lparr> w_ids_used := m \<rparr>) j \<longleftrightarrow> unused (ze_submit env) (zw_world z) j" for m j
      by (simp add: unused_def)
    then show ?thesis
      using False n assms(2,3)
      by (auto simp: append_coalesced_misfires_def pbind_def zattempt_def zlift_def new_id_def append_process_def
          process_append_def misfires_event_def scheduler_event_def fresh_ids_def)
  qed
qed

lemma opened_process [simp]: "zw_process (opened z) = zw_process z"
  by (simp add: opened_def)

lemma fresh_ids_opened [simp]: "fresh_ids env (opened z) \<longleftrightarrow> fresh_ids env z"
  by (simp add: fresh_ids_def opened_def enter_unit_def unused_def)

lemma fire_ready:
  assumes ready: "ready_to_fire env i z s r fired" and z1: "zw_schedules z1 = zw_schedules z" "fresh_ids env z1"
    "zw_world z1 = (zw_world (opened z))\<lparr> w_ids_used := n \<rparr>"
  shows "\<exists>c z2. fire env s r fired next_fire (reading z) z1 = (Inr (Some c), z2) \<and> oc_disposition c = MATERIALIZED
    \<and> oc_nominal_fire_at c = fired \<and> dget (so_occurrences (zw_schedules z)) (oc_id c) = None"
proof -
  note rd = ready [unfolded ready_to_fire_def]
  have keyed: "keyed sd_id (so_schedules (zw_schedules z))" "keyed revision_key (so_revisions (zw_schedules z))"
    using rd by (simp_all add: schedule_repo_ok_def tables_keyed_def)
  have s: "dget (so_schedules (zw_schedules z)) i = Some s" using rd by (simp add: lock_due_Some)
  have id: "sd_id s = i" using keyed_dget [OF keyed(1) s] .
  have rev: "rv_revision r = sd_current_revision s"
    using keyed_dget [OF keyed(2), of "(i, sd_current_revision s)" r] rd by simp
  obtain authority agent where au: "current_authority env (sd_tenant_id s) (sd_principal_id s) = Some authority" "au_enabled authority"
      "rv_requested_scopes r \<subseteq> scopes (au_principal authority)"
      "agent_get_version (w_agents (zw_world z)) (rv_agent_id r) (rv_agent_version r) = Inr agent"
      "ag_policy_profile agent = rv_policy_profile r"
    using rd by blast
  have same: "w_sessions (zw_world z1) = w_sessions (zw_world z)" "w_runs (zw_world z1) = w_runs (zw_world z)"
      "w_agents (zw_world z1) = w_agents (zw_world z)" "w_events (zw_world z1) = w_events (zw_world z)"
    by (simp_all add: z1(3) opened_def enter_unit_def)
  have idle: "still_running (latest_materialized_occurrence (zw_schedules z1) (sd_id s)) (schedule_principal s) z1 = (Inr False, z1)"
    by (rule still_running_idle) (use rd in \<open>auto simp: same z1(1) id\<close>)
  have owner: "sd_tenant_id s = tenant_id (au_principal authority)" "sd_principal_id s = principal_id (au_principal authority)"
    using au(1) by (auto simp: current_authority_def Let_def split: if_splits)
  have free: "dget (so_occurrence_keys (zw_schedules z1)) (sd_id s, fired) = None"
    using rd by (auto simp: z1(1) id get_occurrence_by_nominal_def rbind_Inr_iff split: option.splits)
  have "\<exists>c z'. start_scheduled env s r agent authority fired next_fire (reading z) None 1 z1 = (Inr c, z')
    \<and> oc_disposition c = MATERIALIZED \<and> oc_nominal_fire_at c = fired
    \<and> oc_id c = w_ids (zw_world z1) (w_ids_used (zw_world z1) + 2)"
    using rd s id rev by (intro start_scheduled_succeeds [OF _ z1(2) _ owner _ _ _ _ free]) (simp_all add: same z1(1))
  then obtain c z' where st: "start_scheduled env s r agent authority fired next_fire (reading z) None 1 z1 = (Inr c, z')"
      "oc_disposition c = MATERIALIZED" "oc_nominal_fire_at c = fired" "oc_id c = w_ids (zw_world z1) (w_ids_used (zw_world z1) + 2)"
    by blast
  have "dget (so_occurrences (zw_schedules z)) (oc_id c) = None" using z1(1,2) st(4) by (simp add: fresh_ids_def)
  moreover have "fire env s r fired next_fire (reading z) z1 = (Inr (Some c), z')"
    using idle st(1) au rd
    by (simp add: fire_def fire_authorized_def fire_admitted_def pbind_def zattempt_def Let_def same)
  ultimately show ?thesis using st(2,3) by blast
qed

lemma ready_materializes:
  assumes "ready_to_fire env i z s r fired"
  shows "\<exists>c z'. materialize env i z = (Inr (Some c), z') \<and> oc_disposition c = MATERIALIZED
    \<and> oc_nominal_fire_at c = fired \<and> dget (so_occurrences (zw_schedules z)) (oc_id c) = None"
proof -
  note rd = assms [unfolded ready_to_fire_def]
  have s: "dget (so_schedules (zw_schedules z)) i = Some s" using rd by (simp add: lock_due_Some)
  have id: "sd_id s = i"
    using keyed_dget [OF _ s] rd by (simp add: schedule_repo_ok_def tables_keyed_def)
  obtain planned next_fire where p: "sd_next_fire_at s = Some planned" "next_after (ze_zones env) (rv_cadence r) (reading z) = Inr next_fire"
    using rd by (auto simp: lock_due_Some is_ok_iff)
  have "\<exists>z1. append_coalesced_misfires env s r planned fired (reading z) (opened z) = (Inr (), z1) \<and> fresh_ids env z1
      \<and> zw_schedules z1 = zw_schedules (opened z) \<and> (\<exists>n. zw_world z1 = (zw_world (opened z))\<lparr> w_ids_used := n \<rparr>)"
    by (rule coalesced_succeeds) (use rd p id in simp_all)
  then obtain z1 n where z1: "append_coalesced_misfires env s r planned fired (reading z) (opened z) = (Inr (), z1)"
      "zw_schedules z1 = zw_schedules z" "fresh_ids env z1" "zw_world z1 = (zw_world (opened z))\<lparr> w_ids_used := n \<rparr>"
    by auto
  obtain c z2 where c: "fire env s r fired next_fire (reading z) z1 = (Inr (Some c), z2)" "oc_disposition c = MATERIALIZED"
      "oc_nominal_fire_at c = fired" "dget (so_occurrences (zw_schedules z)) (oc_id c) = None"
    using fire_ready [OF assms z1(2-4)] by blast
  have rev: "get_revision (zw_schedules z) (sd_id s) (sd_current_revision s) (schedule_principal s) = Inr r"
    using rd s id by (simp add: get_revision_def schedule_get_def dlookup_def schedule_principal_def owner_principal_def
        owned_by_def schedule_owner_def)
  have "materialize_body env i (reading z) (opened z) = (Inr (Some c), z2)"
    using rd p z1(1) c(1) rev id
    by (simp add: materialize_body_def fire_due_def pbind_def zattempt_def)
  then have "\<exists>z'. materialize env i z = (Inr (Some c), z')"
    by (simp add: materialize_def pbind_def zlift_def now_def schedule_unit_def opened_def)
  then show ?thesis using c(2-4) by blast
qed

text \<open>
  C26. Scheduling makes progress: a schedule that is due at a new instant of its cadence, whose last run
  has ended, whose owner's authority covers it, whose agent is unchanged and which admission allows
  does start its run. The call returns a new materialized occurrence for that instant, linked to a
  queued run in the run store; no store can refuse a write on the way.
\<close>

theorem ready_schedule_starts_run:
  assumes "ready_to_fire env i z s r fired"
  shows "\<exists>c z' run. materialize env i z = (Inr (Some c), z') \<and> oc_disposition c = MATERIALIZED
    \<and> oc_nominal_fire_at c = fired \<and> dget (so_occurrences (zw_schedules z)) (oc_id c) = None
    \<and> oc_run_id c = Some (r_id run) \<and> dget (rr_runs (w_runs (zw_world z'))) (r_id run) = Some run
    \<and> r_status run = Run_QUEUED"
proof -
  obtain c z' where c: "materialize env i z = (Inr (Some c), z')" "oc_disposition c = MATERIALIZED"
      "oc_nominal_fire_at c = fired" "dget (so_occurrences (zw_schedules z)) (oc_id c) = None"
    using ready_materializes [OF assms] by blast
  have "schedule_repo_ok (zw_schedules z)" using assms by (simp add: ready_to_fire_def)
  from materialize_new [OF c(1) this c(4)] obtain s' r' nf z1 z2
    where "fire env s' r' fired nf (reading z) z1 = (Inr (Some c), z2)" "w_runs (zw_world z') = w_runs (zw_world z2)"
    using c(3) fire_fired by (metis fired_ok_def)
  then have "\<exists>run. oc_run_id c = Some (r_id run) \<and> dget (rr_runs (w_runs (zw_world z'))) (r_id run) = Some run
      \<and> r_status run = Run_QUEUED"
    using fire_fired [of env s' r' fired nf "reading z" z1 c z2] c(2)
    unfolding fired_ok_def started_within_def run_started_def by auto
  then show ?thesis using c by blast
qed

subsection \<open>Witnesses\<close>

definition sample_schedule_env :: schedule_env where
  "sample_schedule_env = \<lparr> ze_submit = sample_env, ze_zones = (\<lambda>_. utc_zone),
     ze_directory = \<lparr> dir_principal = alice, dir_enabled = True, dir_source = ''configured'' \<rparr>,
     ze_digest = (\<lambda>_ _. ''d''), ze_admission = (\<lambda>_ _ _ _. Inr \<lparr> ad_outcome = Admit_ALLOW, ad_reason_code = None \<rparr>),
     ze_notifier = None, ze_dump_task = (\<lambda>_. JNull), ze_isoformat = str_int,
     ze_validate_step = (\<lambda>_. Inl KeyError) \<rparr>"

definition sample_schedule_world :: schedule_world where
  "sample_schedule_world = \<lparr> zw_world = sample_world\<lparr> w_clock := (\<lambda>n. 80000000 + int n) \<rparr>,
     zw_schedules = sample_schedules, zw_process = [], zw_notices = [] \<rparr>"

lemma sample_interval:
  "latest_at_or_before (ze_zones sample_schedule_env) (rv_cadence sample_revision) 80000000 = Inr (Some 60000000)"
  "is_ok (next_after (ze_zones sample_schedule_env) (rv_cadence sample_revision) 80000000)"
  "is_ok (count_between (ze_zones sample_schedule_env) (rv_cadence sample_revision) 60000000 60000000)"
  by code_simp+

lemma sample_store_ok: "schedule_repo_ok sample_schedules"
  by (rule schedule_reachable_ok [OF sample_schedules_reached])

lemma sample_unused: "unused sample_env (sample_world\<lparr> w_clock := f \<rparr>) (70 + n)"
  by (simp add: unused_def sample_world_def sample_sessions_def sample_runs_def sample_run_def seedable_def
      empty_checkpoint_repo_def empty_event_repo_def stream_def chain_def dhas_def sample_env_def)

lemma sample_fresh: "fresh_ids sample_schedule_env sample_schedule_world"
proof -
  have "w_ids (zw_world sample_schedule_world) = (\<lambda>n. 70 + n)" "zw_process sample_schedule_world = []"
    "so_occurrences (zw_schedules sample_schedule_world) = []"
    "unused (ze_submit sample_schedule_env) (zw_world sample_schedule_world) = unused sample_env (sample_world\<lparr> w_clock := (\<lambda>n. 80000000 + int n) \<rparr>)"
    by (simp_all add: sample_schedule_world_def sample_world_def sample_schedules_def empty_schedule_repo_def sample_schedule_env_def)
  then show ?thesis using sample_unused by (simp add: fresh_ids_def)
qed

lemma sample_authority:
  "\<exists>authority agent. current_authority sample_schedule_env (sd_tenant_id sample_schedule) (sd_principal_id sample_schedule)
      = Some authority \<and> au_enabled authority \<and> rv_requested_scopes sample_revision \<subseteq> scopes (au_principal authority)
    \<and> agent_get_version (w_agents (zw_world sample_schedule_world)) (rv_agent_id sample_revision) (rv_agent_version sample_revision)
      = Inr agent \<and> ag_policy_profile agent = rv_policy_profile sample_revision"
  by (simp add: current_authority_def sample_schedule_env_def sample_schedule_def sample_revision_def alice_def
      agent_get_version_def sample_schedule_world_def sample_world_def dlookup_def sample_agent_def)

lemma sample_ready: "ready_to_fire sample_schedule_env 70 sample_schedule_world sample_schedule sample_revision 60000000"
proof -
  have "event_repo_ok (w_events (zw_world sample_schedule_world))"
    using sample_world_ok by (simp add: sample_schedule_world_def world_ok_def)
  moreover have "reading sample_schedule_world = 80000000" by (simp add: sample_schedule_world_def sample_world_def)
  moreover have "zw_schedules sample_schedule_world = sample_schedules" "zw_process sample_schedule_world = []"
    by (simp_all add: sample_schedule_world_def)
  moreover have "lock_due sample_schedules 70 80000000 = Some sample_schedule"
      "dget (so_revisions sample_schedules) (70, sd_current_revision sample_schedule) = Some sample_revision"
      "get_occurrence_by_nominal sample_schedules 70 60000000 = Inr None"
      "latest_materialized_occurrence sample_schedules 70 = None"
    by (simp_all add: lock_due_def schedule_sample_defs get_occurrence_by_nominal_def latest_materialized_occurrence_def)
  moreover have "rv_call_plan sample_revision = None" "rv_revision sample_revision = 1"
      "rv_misfire_grace_seconds sample_revision = 30" "sd_next_fire_at sample_schedule = Some 60000000"
    by (simp_all add: schedule_sample_defs)
  moreover have "ze_admission sample_schedule_env z tn r t = Inr \<lparr> ad_outcome = Admit_ALLOW, ad_reason_code = None \<rparr>" for z tn r t
    by (simp add: sample_schedule_env_def)
  ultimately show ?thesis
    using sample_interval sample_store_ok sample_fresh sample_authority
    by (simp add: ready_to_fire_def seconds_def)
qed

theorem ready_schedule_starts_run_witness:
  "\<exists>c z'. materialize sample_schedule_env 70 sample_schedule_world = (Inr (Some c), z')
     \<and> oc_disposition c = MATERIALIZED \<and> oc_nominal_fire_at c = 60000000"
  using ready_schedule_starts_run [OF sample_ready] by blast

lemma sample_fires:
  obtains c z' where "materialize sample_schedule_env 70 sample_schedule_world = (Inr (Some c), z')"
    and "oc_disposition c = MATERIALIZED" and "oc_nominal_fire_at c = 60000000"
    and "dget (so_occurrences sample_schedules) (oc_id c) = None"
  using ready_materializes [OF sample_ready] that by (auto simp: sample_schedule_world_def)



end
