(* ===== verification/Manual_Runs.thy ===== *)
theory Manual_Runs
  imports Firing
begin

text \<open>
  Runs of a schedule that its owner asks for: \<open>materialize_manual\<close> (Run now) and \<open>refresh_feeds\<close> (the
  Cockpit refresh) of \<open>scheduling/materializer.py\<close>, with the scan of \<open>scheduling/worker.py\<close> that fires
  the due schedules.
\<close>

subsection \<open>Checks for a waiting caller\<close>

definition MANUAL_RUNS_PER_DAY :: int where
  "MANUAL_RUNS_PER_DAY = 5"

definition REFRESH_PAGE_SIZE :: int where
  "REFRESH_PAGE_SIZE = 50"

definition refuse :: "string \<Rightarrow> string option \<Rightarrow> 'a scheduling" where
  "refuse m reason = praise (Raised (ConflictError m reason))"

definition py_or :: "string option \<Rightarrow> string \<Rightarrow> string" where
  "py_or v d = (case v of None \<Rightarrow> d | Some s \<Rightarrow> if s = [] then d else s)"

definition manual_start_checks ::
    "schedule_env \<Rightarrow> schedule \<Rightarrow> schedule_revision \<Rightarrow> instant \<Rightarrow> (authority_snapshot \<times> agent_spec) scheduling" where
  "manual_start_checks env s r t = (case current_authority env (sd_tenant_id s) (sd_principal_id s) of
      None \<Rightarrow> refuse ''the schedule's owner cannot run it'' (Some ''schedule.principal_disabled'')
    | Some authority \<Rightarrow>
        if \<not> au_enabled authority
        then refuse ''the schedule's owner cannot run it'' (Some ''schedule.principal_disabled'')
        else if \<not> rv_requested_scopes r \<subseteq> scopes (au_principal authority)
        then refuse ''the schedule asks for access it no longer has'' (Some ''schedule.scope_revoked'')
        else pbind (pget (\<lambda>z. agent_get_version (w_agents (zw_world z)) (rv_agent_id r) (rv_agent_version r))) (\<lambda>found.
          case found of
            Inl _ \<Rightarrow> refuse ''the schedule's agent is gone'' (Some ''schedule.agent_version_missing'')
          | Inr agent \<Rightarrow>
              if ag_policy_profile agent \<noteq> rv_policy_profile r
              then refuse ''the schedule's policy changed'' (Some ''schedule.policy_profile_mismatch'')
              else pbind (pget (\<lambda>z. ze_admission env z (sd_tenant_id s) r t)) (\<lambda>answer.
                pbind (zattempt answer) (\<lambda>admission. case ad_outcome admission of
                    Admit_RETRY \<Rightarrow> praise (Raised (RateLimitedError
                      (py_or (ad_reason_code admission) ''schedule.admission_busy'')
                      ''scheduled work is busy; try again in a minute''))
                  | Admit_REJECT \<Rightarrow> refuse ''the spending ceiling for scheduled work is reached'' (ad_reason_code admission)
                  | Admit_ALLOW \<Rightarrow> preturn (authority, agent)))))"

subsection \<open>Run now\<close>

definition day_seconds :: int where
  "day_seconds = 86400"

definition start_manual ::
    "schedule_env \<Rightarrow> schedule \<Rightarrow> schedule_revision \<Rightarrow> authority_snapshot \<Rightarrow> agent_spec \<Rightarrow> instant \<Rightarrow> string \<Rightarrow>
       schedule_occurrence scheduling" where
  "start_manual env s r authority agent t key =
     pbind (start_run env s r agent authority t t Trigger_MANUAL (Some key) None None [] False) (\<lambda>c.
     pbind (append_occurrence_event env c s (sd_state s) t) (\<lambda>_. preturn c))"

definition manual_checked ::
    "schedule_env \<Rightarrow> schedule \<Rightarrow> schedule_revision \<Rightarrow> instant \<Rightarrow> string \<Rightarrow> (schedule_occurrence \<times> bool) scheduling" where
  "manual_checked env s r t key =
     (if is_once (rv_cadence r)
      then refuse ''a one-time schedule runs only at its time'' (Some ''schedule.run_now_one_time'')
      else pbind (pget (\<lambda>z. latest_materialized_occurrence (zw_schedules z) (sd_id s))) (\<lambda>latest.
        pbind (still_running latest (schedule_principal s)) (\<lambda>running.
        if running then refuse ''a run of this schedule is still going'' (Some ''schedule.run_active'')
        else pbind (pget (\<lambda>z. count_manual_since (zw_schedules z) (sd_id s) (t - seconds day_seconds))) (\<lambda>taken.
          if taken \<ge> MANUAL_RUNS_PER_DAY
          then praise (Raised (RateLimitedError ''schedule.run_now_daily_limit''
            ''this schedule already ran on request five times today''))
          else pbind (manual_start_checks env s r t) (\<lambda>(authority, agent).
            pbind (start_manual env s r authority agent t key) (\<lambda>c. preturn (c, False)))))))"

definition manual_body ::
    "schedule_env \<Rightarrow> principal \<Rightarrow> uuid \<Rightarrow> int \<Rightarrow> string \<Rightarrow> instant \<Rightarrow> (schedule_occurrence \<times> bool) scheduling" where
  "manual_body env p i expected key t =
     pbind (pget (\<lambda>z. schedule_get (zw_schedules z) i p)) (\<lambda>locked. pbind (zattempt locked) (\<lambda>s.
     pbind (pget (\<lambda>z. manual_occurrence (zw_schedules z) (sd_id s) key)) (\<lambda>existing. case existing of
       Some c \<Rightarrow> preturn (c, True)
     | None \<Rightarrow>
         if sd_state s \<notin> {Sched_ACTIVE, Sched_PAUSED} then refuse ''the schedule has ended'' (Some ''schedule.terminal'')
         else if sd_current_revision s \<noteq> expected
         then refuse ''the schedule changed; read it again'' (Some ''schedule.revision_conflict'')
         else pbind (pget (\<lambda>z. get_revision (zw_schedules z) (sd_id s) (sd_current_revision s) (schedule_principal s))) (\<lambda>found.
           pbind (zattempt found) (\<lambda>r. manual_checked env s r t key)))))"

definition materialize_manual ::
    "schedule_env \<Rightarrow> principal \<Rightarrow> uuid \<Rightarrow> int \<Rightarrow> string \<Rightarrow> (schedule_occurrence \<times> bool) scheduling" where
  "materialize_manual env p i expected key =
     (if is_cockpit_refresh (Some key)
      then refuse ''this request key is reserved for Cockpit refreshes'' (Some ''schedule.run_key_reserved'')
      else pbind (zlift now) (\<lambda>t. schedule_unit (manual_body env p i expected key t)))"

subsection \<open>The Cockpit refresh\<close>

datatype refresh_outcome = Refresh_STARTED | Refresh_RUNNING | Refresh_RECENT | Refresh_REFUSED

record schedule_refresh =
  sf_schedule_id :: uuid
  sf_outcome :: refresh_outcome
  sf_reason :: "string option"

definition keeps_a_feed :: "schedule_revision \<Rightarrow> bool" where
  "keeps_a_feed r \<longleftrightarrow> \<not> is_once (rv_cadence r) \<and> FEED_KEEPING_SCOPE \<in> rv_requested_scopes r"

text \<open>\<open>revisions[(schedule.id, schedule.current_revision)]\<close> for every visible schedule.\<close>

fun feeds_of :: "(uuid \<times> int, schedule_revision) dict \<Rightarrow> schedule list \<Rightarrow> uuid list res" where
  "feeds_of revisions [] = Inr []"
| "feeds_of revisions (s # ss) = rbind (dlookup KeyError revisions (sd_id s, sd_current_revision s)) (\<lambda>r.
     rbind (feeds_of revisions ss) (\<lambda>ids. Inr (if keeps_a_feed r then sd_id s # ids else ids)))"

definition schedule_key :: "schedule \<Rightarrow> instant \<times> uuid" where
  "schedule_key s = (sd_updated_at s, sd_id s)"

definition feed_page :: "schedule_repo \<Rightarrow> principal \<Rightarrow> (instant \<times> uuid) option \<Rightarrow> (schedule list \<times> uuid list) res" where
  "feed_page S p cursor = rbind (schedule_list S p (REFRESH_PAGE_SIZE + 1) cursor (Some {Sched_ACTIVE})) (\<lambda>page.
     let visible = py_take REFRESH_PAGE_SIZE page in
     rbind (get_revisions S (map (\<lambda>s. (sd_id s, sd_current_revision s)) visible) p []) (\<lambda>revisions.
     rbind (feeds_of revisions visible) (\<lambda>ids. Inr (page, ids))))"

text \<open>How many schedules lie beyond a cursor bounds the pages still to read.\<close>

definition beyond :: "schedule_repo \<Rightarrow> (instant \<times> uuid) option \<Rightarrow> nat" where
  "beyond S cursor = (case cursor of None \<Rightarrow> Suc (length (so_schedules S))
     | Some k \<Rightarrow> length (filter (\<lambda>s. schedule_key s < k) (dvals (so_schedules S))))"

lemma filter_shrinks:
  assumes "\<And>x. x \<in> set xs \<Longrightarrow> P x \<Longrightarrow> Q x" and "x \<in> set xs" "Q x" "\<not> P x"
  shows "length (filter P xs) < length (filter Q xs)"
proof -
  have "filter P xs = filter P (filter Q xs)" using assms(1) by (auto intro!: filter_cong)
  then show ?thesis using assms(2-4) length_filter_less [of x "filter Q xs" P] by simp
qed

lemma schedule_list_member:
  assumes "schedule_list S p n cursor states = Inr page" and "s \<in> set page"
  shows "s \<in> set (dvals (so_schedules S))" and "cursor = Some k \<Longrightarrow> schedule_key s < k"
proof -
  define rows where "rows = filter (\<lambda>s. owned_by (schedule_owner s) p
    \<and> (case states of None \<Rightarrow> True | Some ss \<Rightarrow> sd_state s \<in> ss)) (dvals (so_schedules S))"
  define ordered where "ordered = sort_key_desc schedule_key rows"
  have page: "page = py_take n (case cursor of None \<Rightarrow> ordered | Some c \<Rightarrow> filter (\<lambda>s. schedule_key s < c) ordered)"
    using assms(1) unfolding schedule_list_def Let_def schedule_key_def [symmetric] rows_def [symmetric] ordered_def [symmetric]
    by (simp add: rbind_Inr_iff)
  have "s \<in> set (case cursor of None \<Rightarrow> ordered | Some c \<Rightarrow> filter (\<lambda>s. schedule_key s < c) ordered)"
    by (rule set_py_take) (use assms(2) page in simp)
  then show "s \<in> set (dvals (so_schedules S))" "cursor = Some k \<Longrightarrow> schedule_key s < k"
    by (auto simp: ordered_def rows_def split: option.splits)
qed

lemma feed_page_beyond:
  assumes "feed_page S p cursor = Inr (page, ids)" and "py_take REFRESH_PAGE_SIZE page \<noteq> []"
  shows "beyond S (Some (schedule_key (last (py_take REFRESH_PAGE_SIZE page)))) < beyond S cursor"
proof -
  define s where "s = last (py_take REFRESH_PAGE_SIZE page)"
  have page: "s \<in> set page" unfolding s_def by (rule set_py_take [OF last_in_set [OF assms(2)]])
  have list: "schedule_list S p (REFRESH_PAGE_SIZE + 1) cursor (Some {Sched_ACTIVE}) = Inr page"
    using assms(1) by (auto simp: feed_page_def Let_def rbind_Inr_iff)
  note s = schedule_list_member [OF list page]
  show ?thesis
  proof (cases cursor)
    case None
    have "length (filter (\<lambda>x. schedule_key x < schedule_key s) (dvals (so_schedules S))) < Suc (length (so_schedules S))"
      by (metis length_filter_le length_map less_Suc_eq_le)
    then show ?thesis using None by (simp add: beyond_def s_def)
  next
    case (Some k)
    then show ?thesis
      using filter_shrinks [of "dvals (so_schedules S)" "\<lambda>x. schedule_key x < schedule_key s" "\<lambda>x. schedule_key x < k" s] s
      by (auto simp: beyond_def s_def [symmetric] intro: order.strict_trans)
  qed
qed

function feed_pages :: "schedule_repo \<Rightarrow> principal \<Rightarrow> (instant \<times> uuid) option \<Rightarrow> uuid list \<Rightarrow> uuid list res" where
  "feed_pages S p cursor found = (case feed_page S p cursor of
      Inl e \<Rightarrow> Inl e
    | Inr (page, ids) \<Rightarrow>
        if int (length page) \<le> REFRESH_PAGE_SIZE \<or> py_take REFRESH_PAGE_SIZE page = [] then Inr (sort (found @ ids))
        else feed_pages S p (Some (schedule_key (last (py_take REFRESH_PAGE_SIZE page)))) (found @ ids))"
  by pat_completeness auto
termination
  by (relation "measure (\<lambda>(S, p, cursor, found). beyond S cursor)") (auto dest: feed_page_beyond)

declare feed_pages.simps [simp del]

definition feed_schedule_ids :: "principal \<Rightarrow> uuid list scheduling" where
  "feed_schedule_ids p = schedule_unit (pbind (pget (\<lambda>z. feed_pages (zw_schedules z) p None [])) zattempt)"

definition catch_refusal :: "'a scheduling \<Rightarrow> (string option + 'a) scheduling" where
  "catch_refusal m z = (case m z of
      (Inr a, z') \<Rightarrow> (Inr (Inr a), z')
    | (Inl (Raised (ConflictError _ reason)), z') \<Rightarrow> (Inr (Inl reason), z')
    | (Inl (Raised (RateLimitedError reason _)), z') \<Rightarrow> (Inr (Inl (Some reason)), z')
    | (Inl e, z') \<Rightarrow> (Inl e, z'))"

definition refreshed :: "uuid \<Rightarrow> refresh_outcome \<Rightarrow> string option \<Rightarrow> schedule_refresh option scheduling" where
  "refreshed i outcome reason =
     preturn (Some \<lparr> sf_schedule_id = i, sf_outcome = outcome, sf_reason = reason \<rparr>)"

definition refresh_feed ::
    "schedule_env \<Rightarrow> schedule \<Rightarrow> schedule_revision \<Rightarrow> instant \<Rightarrow> string \<Rightarrow> schedule_refresh option scheduling" where
  "refresh_feed env s r t key =
     pbind (pget (\<lambda>z. latest_materialized_occurrence (zw_schedules z) (sd_id s))) (\<lambda>latest.
     pbind (still_running latest (schedule_principal s)) (\<lambda>running.
     if running then refreshed (sd_id s) Refresh_RUNNING None
     else pbind (pget (\<lambda>z. manual_occurrence (zw_schedules z) (sd_id s) key)) (\<lambda>existing.
       if (case latest of None \<Rightarrow> False | Some c \<Rightarrow> (case oc_materialized_at c of None \<Rightarrow> False
            | Some started \<Rightarrow> t - started < COCKPIT_REFRESH_MIN_AGE)) \<or> existing \<noteq> None
       then refreshed (sd_id s) Refresh_RECENT None
       else pbind (catch_refusal (manual_start_checks env s r t)) (\<lambda>checked. case checked of
           Inl reason \<Rightarrow> refreshed (sd_id s) Refresh_REFUSED (Some (py_or reason ''schedule.refresh_refused''))
         | Inr (authority, agent) \<Rightarrow> pbind (start_manual env s r authority agent t key) (\<lambda>_.
             refreshed (sd_id s) Refresh_STARTED None)))))"

definition refresh_body :: "schedule_env \<Rightarrow> principal \<Rightarrow> uuid \<Rightarrow> instant \<Rightarrow> schedule_refresh option scheduling" where
  "refresh_body env p i t = pbind (pget (\<lambda>z. schedule_get (zw_schedules z) i p)) (\<lambda>locked. case locked of
      Inl (NotFoundError _) \<Rightarrow> preturn None
    | Inl e \<Rightarrow> praise (Raised e)
    | Inr s \<Rightarrow>
        if sd_state s \<noteq> Sched_ACTIVE then preturn None
        else pbind (pget (\<lambda>z. get_revision (zw_schedules z) (sd_id s) (sd_current_revision s) (schedule_principal s))) (\<lambda>found.
          pbind (zattempt found) (\<lambda>r.
          if \<not> keeps_a_feed r then preturn None else refresh_feed env s r t (cockpit_refresh_key t))))"

definition refresh_one :: "schedule_env \<Rightarrow> principal \<Rightarrow> uuid \<Rightarrow> schedule_refresh option scheduling" where
  "refresh_one env p i = pbind (zlift now) (\<lambda>t. schedule_unit (refresh_body env p i t))"

fun refresh_each :: "schedule_env \<Rightarrow> principal \<Rightarrow> uuid list \<Rightarrow> schedule_refresh list scheduling" where
  "refresh_each env p [] = preturn []"
| "refresh_each env p (i # ids) = pbind (refresh_one env p i) (\<lambda>refresh.
     pbind (refresh_each env p ids) (\<lambda>rest. preturn (case refresh of None \<Rightarrow> rest | Some r \<Rightarrow> r # rest)))"

definition refresh_feeds :: "schedule_env \<Rightarrow> principal \<Rightarrow> schedule_refresh list scheduling" where
  "refresh_feeds env p = pbind (feed_schedule_ids p) (\<lambda>ids. refresh_each env p ids)"

subsection \<open>The scan\<close>

text \<open>
  \<open>ScheduleWorker.run_once\<close>: every due schedule is fired; an exception of one is logged and does not
  keep the others from firing. Cancellation of the task is not an \<open>Exception\<close> and is outside the model.
\<close>

fun fire_each :: "schedule_env \<Rightarrow> uuid list \<Rightarrow> schedule_world \<Rightarrow> int \<times> schedule_world" where
  "fire_each env [] z = (0, z)"
| "fire_each env (i # ids) z = (case materialize env i z of
      (Inr _, z') \<Rightarrow> (let (n, z'') = fire_each env ids z' in (n + 1, z''))
    | (Inl _, z') \<Rightarrow> fire_each env ids z')"

definition scan_due :: "int \<Rightarrow> uuid list scheduling" where
  "scan_due batch = schedule_unit (pbind (zlift now) (\<lambda>t. pbind (pget (\<lambda>z. due (zw_schedules z) t batch)) zattempt))"

definition run_once :: "schedule_env \<Rightarrow> int \<Rightarrow> int scheduling" where
  "run_once env batch = pbind (scan_due batch) (\<lambda>ids z. case fire_each env ids z of (n, z') \<Rightarrow> (Inr n, z'))"

text \<open>How long the worker then sleeps, in microseconds.\<close>

definition wait_time :: "int \<Rightarrow> int \<Rightarrow> int scheduling" where
  "wait_time poll backoff = pbind (schedule_unit (pget (\<lambda>z. repo_next_fire_at (zw_schedules z)))) (\<lambda>next_fire.
     case next_fire of
       None \<Rightarrow> preturn poll
     | Some f \<Rightarrow> pbind (zlift now) (\<lambda>t. preturn (if f - t \<le> 0 then min backoff poll else min (f - t) poll)))"

subsection \<open>The listing finds every feed\<close>

definition active_rows :: "schedule_repo \<Rightarrow> principal \<Rightarrow> schedule list" where
  "active_rows S p = sort_key_desc schedule_key (filter (\<lambda>s. owned_by (schedule_owner s) p \<and> sd_state s = Sched_ACTIVE)
     (dvals (so_schedules S)))"

definition current_revision_of :: "schedule_repo \<Rightarrow> schedule \<Rightarrow> schedule_revision" where
  "current_revision_of S s = the (dget (so_revisions S) (sd_id s, sd_current_revision s))"

definition feed_ids :: "schedule_repo \<Rightarrow> schedule list \<Rightarrow> uuid list" where
  "feed_ids S ss = map sd_id (filter (\<lambda>s. keeps_a_feed (current_revision_of S s)) ss)"

lemma feed_ids_append [simp]: "feed_ids S (xs @ ys) = feed_ids S xs @ feed_ids S ys"
  by (simp add: feed_ids_def)

lemma active_rows_strict:
  assumes "schedule_repo_ok S"
  shows "sorted_wrt (>) (map schedule_key (active_rows S p))"
proof -
  have "keyed sd_id (so_schedules S)" using assms by (simp add: schedule_repo_ok_def tables_keyed_def)
  note d = keyed_distinct_vals [OF this]
  have "inj_on schedule_key (set (dvals (so_schedules S)))"
    using d(2) by (auto simp: inj_on_def schedule_key_def)
  then show ?thesis
    unfolding active_rows_def using d(1)
    by (intro sort_key_desc_strict) (auto intro: inj_on_subset)
qed

lemma active_rows_member:
  assumes "schedule_repo_ok S" and "s \<in> set (active_rows S p)"
  shows "dget (so_schedules S) (sd_id s) = Some s" "owned_by (schedule_owner s) p"
    "dget (so_revisions S) (sd_id s, sd_current_revision s) = Some (current_revision_of S s)"
proof -
  show s: "dget (so_schedules S) (sd_id s) = Some s" and "owned_by (schedule_owner s) p"
    using assms keyed_vals by (force simp: active_rows_def schedule_repo_ok_def tables_keyed_def)+
  show "dget (so_revisions S) (sd_id s, sd_current_revision s) = Some (current_revision_of S s)"
    using assms(1) s unfolding schedule_repo_ok_def revisions_linked_def current_revision_of_def by force
qed

lemma get_revisions_found:
  assumes "\<And>k. k \<in> set ks \<Longrightarrow> \<exists>s. dget (so_schedules S) (fst k) = Some s \<and> owned_by (schedule_owner s) p"
    and "\<And>k. k \<in> set ks \<Longrightarrow> dget (so_revisions S) k \<noteq> None"
  shows "\<exists>d. get_revisions S ks p acc = Inr d
    \<and> (\<forall>k. dget d k = (if k \<in> set ks then dget (so_revisions S) k else dget acc k))"
  using assms
proof (induction ks arbitrary: acc)
  case (Cons k ks)
  obtain s r where "dget (so_schedules S) (fst k) = Some s" "owned_by (schedule_owner s) p" "dget (so_revisions S) k = Some r"
    using Cons.prems by fastforce
  then have "get_revision S (fst k) (snd k) p = Inr r" by (simp add: get_revision_def schedule_get_def dlookup_def)
  moreover obtain d where "get_revisions S ks p (dset k r acc) = Inr d"
      "\<forall>k'. dget d k' = (if k' \<in> set ks then dget (so_revisions S) k' else dget (dset k r acc) k')"
    using Cons.IH [of "dset k r acc"] Cons.prems by auto
  ultimately show ?case using \<open>dget (so_revisions S) k = Some r\<close> by auto
qed simp

lemma feeds_of_found:
  "(\<And>s. s \<in> set ss \<Longrightarrow> dget d (sd_id s, sd_current_revision s) = Some (current_revision_of S s)) \<Longrightarrow>
    feeds_of d ss = Inr (feed_ids S ss)"
  by (induction ss) (simp_all add: feed_ids_def dlookup_def)

text \<open>The cursor after the first \<open>n\<close> rows, and the page it leads to.\<close>

definition cursor_at :: "schedule_repo \<Rightarrow> principal \<Rightarrow> nat \<Rightarrow> (instant \<times> uuid) option" where
  "cursor_at S p n = (case n of 0 \<Rightarrow> None | Suc m \<Rightarrow> Some (schedule_key (active_rows S p ! m)))"

lemma schedule_list_rows:
  assumes "0 < k"
  shows "schedule_list S p (int k) cursor (Some {Sched_ACTIVE})
    = Inr (take k (case cursor of None \<Rightarrow> active_rows S p | Some c \<Rightarrow> filter (\<lambda>s. schedule_key s < c) (active_rows S p)))"
proof -
  have key: "schedule_key = (\<lambda>s. (sd_updated_at s, sd_id s))" by (simp add: schedule_key_def fun_eq_iff)
  show ?thesis using assms unfolding schedule_list_def active_rows_def key Let_def positive_limit_def
    by (cases cursor) simp_all
qed

lemma schedule_list_at:
  assumes "schedule_repo_ok S" and "n \<le> length (active_rows S p)" and "0 < k"
  shows "schedule_list S p (int k) (cursor_at S p n) (Some {Sched_ACTIVE}) = Inr (take k (drop n (active_rows S p)))"
proof -
  have "filter (\<lambda>s. schedule_key s < schedule_key (active_rows S p ! m)) (active_rows S p) = drop (Suc m) (active_rows S p)"
    if "n = Suc m" for m
    using filter_below_nth [OF active_rows_strict [OF assms(1)]] assms(2) that by simp
  then show ?thesis
    using assms(3) by (cases n) (simp_all add: schedule_list_rows cursor_at_def)
qed

lemma feed_page_at:
  assumes ok: "schedule_repo_ok S" and n: "n \<le> length (active_rows S p)"
  shows "feed_page S p (cursor_at S p n)
    = Inr (take 51 (drop n (active_rows S p)), feed_ids S (take 50 (drop n (active_rows S p))))"
proof -
  define visible where "visible = take 50 (drop n (active_rows S p))"
  have vis: "py_take REFRESH_PAGE_SIZE (take 51 (drop n (active_rows S p))) = visible"
    by (simp add: REFRESH_PAGE_SIZE_def visible_def min_def)
  have list: "schedule_list S p (REFRESH_PAGE_SIZE + 1) (cursor_at S p n) (Some {Sched_ACTIVE})
      = Inr (take 51 (drop n (active_rows S p)))"
    using schedule_list_at [OF ok n, of 51] by (simp add: REFRESH_PAGE_SIZE_def)
  have sub: "s \<in> set (active_rows S p)" if "s \<in> set visible" for s
    using that by (auto simp: visible_def dest: in_set_takeD in_set_dropD)
  obtain d where d: "get_revisions S (map (\<lambda>s. (sd_id s, sd_current_revision s)) visible) p [] = Inr d"
      "\<forall>k. dget d k = (if k \<in> set (map (\<lambda>s. (sd_id s, sd_current_revision s)) visible)
        then dget (so_revisions S) k else dget [] k)"
    using get_revisions_found [of "map (\<lambda>s. (sd_id s, sd_current_revision s)) visible" S p "[]"]
      active_rows_member [OF ok sub] by fastforce
  have "feeds_of d visible = Inr (feed_ids S visible)"
    by (rule feeds_of_found) (use d(2) active_rows_member(3) [OF ok sub] in auto)
  then show ?thesis using list d(1) by (simp add: feed_page_def vis visible_def [symmetric])
qed

lemma feed_pages_at:
  assumes ok: "schedule_repo_ok S" and "n \<le> length (active_rows S p)"
  shows "feed_pages S p (cursor_at S p n) found = Inr (sort (found @ feed_ids S (drop n (active_rows S p))))"
  using assms(2)
proof (induction "length (active_rows S p) - n" arbitrary: n found rule: less_induct)
  case less
  define rows where "rows = active_rows S p"
  note page = feed_page_at [OF ok less.prems, folded rows_def]
  have vis: "py_take REFRESH_PAGE_SIZE (take 51 (drop n rows)) = take 50 (drop n rows)"
    by (simp add: REFRESH_PAGE_SIZE_def min_def)
  show ?case
  proof (cases "length rows - n \<le> 50")
    case True
    then have "take 50 (drop n rows) = drop n rows" by simp
    then show ?thesis
      using page True by (subst feed_pages.simps) (simp add: REFRESH_PAGE_SIZE_def rows_def)
  next
    case False
    then have len: "n + 50 < length rows" by simp
    have "last (take 50 (drop n rows)) = rows ! (n + 49)"
      using len by (subst last_conv_nth) auto
    then have cur: "Some (schedule_key (last (take 50 (drop n rows)))) = cursor_at S p (n + 50)"
      by (simp add: cursor_at_def rows_def numeral_eq_Suc)
    have ids: "feed_ids S (take 50 (drop n rows)) @ feed_ids S (drop (n + 50) rows) = feed_ids S (drop n rows)"
      by (metis append_take_drop_id drop_drop add.commute feed_ids_append)
    have "feed_pages S p (cursor_at S p n) found = feed_pages S p (cursor_at S p (n + 50)) (found @ feed_ids S (take 50 (drop n rows)))"
      using page len vis cur by (subst feed_pages.simps) (simp add: REFRESH_PAGE_SIZE_def)
    also have "\<dots> = Inr (sort ((found @ feed_ids S (take 50 (drop n rows))) @ feed_ids S (drop (n + 50) rows)))"
      using less.hyps [of "n + 50"] len by (simp add: rows_def)
    finally show ?thesis using ids by (simp add: rows_def)
  qed
qed


subsection \<open>What a manual run changes\<close>

lemma manual_start_checks_Inr:
  assumes "manual_start_checks env s r t z = (Inr (authority, agent), z')"
  shows "z' = z" "current_authority env (sd_tenant_id s) (sd_principal_id s) = Some authority" "au_enabled authority"
    "rv_requested_scopes r \<subseteq> scopes (au_principal authority)"
    "agent_get_version (w_agents (zw_world z)) (rv_agent_id r) (rv_agent_version r) = Inr agent"
    "ag_policy_profile agent = rv_policy_profile r"
  using assms unfolding manual_start_checks_def refuse_def
  by (auto simp: pbind_Inr_iff split: option.splits if_splits sum.splits admission_outcome.splits)
    (metis admission_outcome.exhaust)+

lemma start_manual_effect:
  assumes "start_manual env s r authority agent t key z = (Inr c, z')"
  shows "(\<exists>e. occurrence_insert (zw_schedules z) c = Inr (e, zw_schedules z')) \<and> new_occurrence c = Inr c
    \<and> (\<exists>j sid run_id. c = materialized_occurrence j sid run_id s r authority t t Trigger_MANUAL (Some key))
    \<and> run_started s r agent (rv_requested_scopes r) t (zw_world z) c (zw_world z')"
proof -
  obtain z1 where run: "start_run env s r agent authority t t Trigger_MANUAL (Some key) None None [] False z = (Inr c, z1)"
    and ev: "append_occurrence_event env c s (sd_state s) t z1 = (Inr (), z')"
    using assms by (auto simp: start_manual_def pbind_Inr_iff)
  have "zw_schedules z' = zw_schedules z1" "w_runs (zw_world z') = w_runs (zw_world z1)"
    using staysD [OF stays_events_schedules(1) ev] staysD [OF stays_work_events(1) ev]
    by (simp_all add: same_schedules_def same_work_def)
  then show ?thesis using start_run_effect [OF run] by (simp add: run_started_def)
qed

lemma count_manual_add:
  assumes "dget (so_occurrences S) (oc_id c) = None"
    and "so_occurrences S' = dset (oc_id c) c (so_occurrences S)"
  shows "count_manual_since S' i u \<le> count_manual_since S i u + 1"
proof -
  have "oc_id c \<notin> fst ` set (so_occurrences S)" using assms(1) by (simp add: map_of_eq_None_iff)
  then have "so_occurrences S' = so_occurrences S @ [(oc_id c, c)]" using assms(2) dset_absent by metis
  then show ?thesis by (simp add: count_manual_since_def)
qed

text \<open>A request that started a run, unfolded.\<close>

lemma manual_started:
  assumes "materialize_manual env p i n key z = (Inr (c, False), z')"
  obtains s r authority agent z1 where "schedule_get (zw_schedules z) i p = Inr s"
    and "manual_occurrence (zw_schedules z) (sd_id s) key = None" "sd_state s \<in> {Sched_ACTIVE, Sched_PAUSED}"
    and "sd_current_revision s = n" "dget (so_revisions (zw_schedules z)) (sd_id s, n) = Some r" "\<not> is_once (rv_cadence r)"
    and "still_running (latest_materialized_occurrence (zw_schedules z) (sd_id s)) (schedule_principal s) (opened z) = (Inr False, opened z)"
    and "count_manual_since (zw_schedules z) (sd_id s) (reading z - seconds day_seconds) < MANUAL_RUNS_PER_DAY"
    and "manual_start_checks env s r (reading z) (opened z) = (Inr (authority, agent), opened z)"
    and "start_manual env s r authority agent (reading z) key (opened z) = (Inr c, z1)"
    and "zw_schedules z' = zw_schedules z1" "w_runs (zw_world z') = w_runs (zw_world z1)"
proof -
  obtain z1 where body: "manual_body env p i n key (reading z) (opened z) = (Inr (c, False), z1)"
    and z': "zw_schedules z' = zw_schedules z1" "w_runs (zw_world z') = w_runs (zw_world z1)"
    using assms unfolding materialize_manual_def refuse_def
    by (auto simp: pbind_Inr_iff now_def schedule_unit_Inr opened_def split: if_splits)
  obtain s r where s: "schedule_get (zw_schedules z) i p = Inr s" "manual_occurrence (zw_schedules z) (sd_id s) key = None"
      "sd_state s \<in> {Sched_ACTIVE, Sched_PAUSED}" "sd_current_revision s = n"
      "get_revision (zw_schedules z) (sd_id s) n (schedule_principal s) = Inr r"
    and checked: "manual_checked env s r (reading z) key (opened z) = (Inr (c, False), z1)"
    using body unfolding manual_body_def refuse_def
    by (auto simp: pbind_Inr_iff split: option.splits if_splits)
  have r: "dget (so_revisions (zw_schedules z)) (sd_id s, n) = Some r"
    using s(5) by (auto simp: get_revision_def rbind_Inr_iff)
  have "\<not> is_once (rv_cadence r)" using checked by (auto simp: manual_checked_def refuse_def)
  then obtain running where run: "still_running (latest_materialized_occurrence (zw_schedules z) (sd_id s)) (schedule_principal s) (opened z) = (Inr running, opened z)"
    using checked by (auto simp: manual_checked_def pbind_Inr_iff dest: still_running_pure)
  from checked run \<open>\<not> is_once (rv_cadence r)\<close>
  have "\<not> running" and few: "count_manual_since (zw_schedules z) (sd_id s) (reading z - seconds day_seconds) < MANUAL_RUNS_PER_DAY"
    and rest: "pbind (manual_start_checks env s r (reading z)) (\<lambda>(authority, agent).
            pbind (start_manual env s r authority agent (reading z) key) (\<lambda>c. preturn (c, False))) (opened z) = (Inr (c, False), z1)"
    by (auto simp: manual_checked_def refuse_def pbind_Inr_iff split: if_splits)
  obtain authority agent z2 where au: "manual_start_checks env s r (reading z) (opened z) = (Inr (authority, agent), z2)"
      and st: "start_manual env s r authority agent (reading z) key z2 = (Inr c, z1)"
    using rest by (auto simp: pbind_Inr_iff)
  show thesis
    using that [OF s(1-4) r \<open>\<not> is_once (rv_cadence r)\<close> _ few _ _ z'] run \<open>\<not> running\<close> au st manual_start_checks_Inr(1) [OF au]
    by simp
qed

text \<open>
  C29. A manual run is bounded and leaves the cadence alone. When an owner's request starts a run, the
  schedule is the owner's, has not ended and is at the revision the owner saw; every schedule and
  revision stays as it was, so the next firing does not move; exactly one occurrence is added, under a
  key the schedule had not used; the schedule then has at most five requested runs in the last day;
  its previous run has ended; and the run's scopes are the owner's to give now.
\<close>

theorem manual_run_bounded:
  assumes "materialize_manual env p i n key z = (Inr (c, False), z')" and "schedule_repo_ok (zw_schedules z)"
  shows "\<exists>s r run. dget (so_schedules (zw_schedules z)) i = Some s \<and> owned_by (schedule_owner s) p
    \<and> sd_state s \<in> {Sched_ACTIVE, Sched_PAUSED} \<and> sd_current_revision s = n
    \<and> dget (so_revisions (zw_schedules z)) (i, n) = Some r \<and> \<not> is_once (rv_cadence r)
    \<and> so_schedules (zw_schedules z') = so_schedules (zw_schedules z)
    \<and> so_revisions (zw_schedules z') = so_revisions (zw_schedules z)
    \<and> dget (so_occurrences (zw_schedules z)) (oc_id c) = None
    \<and> (\<forall>k. dget (so_occurrences (zw_schedules z')) k = (if k = oc_id c then Some c else dget (so_occurrences (zw_schedules z)) k))
    \<and> oc_schedule_id c = i \<and> oc_trigger c = Trigger_MANUAL \<and> oc_manual_request_key c = Some key
    \<and> schedule_repo_ok (zw_schedules z')
    \<and> count_manual_since (zw_schedules z') i (reading z - seconds day_seconds) \<le> MANUAL_RUNS_PER_DAY
    \<and> oc_run_id c = Some (r_id run) \<and> dget (rr_runs (w_runs (zw_world z'))) (r_id run) = Some run
    \<and> r_principal_scopes run = rv_requested_scopes r
    \<and> rv_requested_scopes r \<subseteq> scopes (dir_principal (ze_directory env))
    \<and> (\<forall>previous k. latest_materialized_occurrence (zw_schedules z) i = Some previous \<and> oc_run_id previous = Some k \<longrightarrow>
         (\<exists>old. dget (rr_runs (w_runs (zw_world z))) k = Some old \<and> r_status old \<in> TERMINAL_RUN_STATUSES))"
proof -
  obtain s r authority agent z1 where m: "schedule_get (zw_schedules z) i p = Inr s"
    "manual_occurrence (zw_schedules z) (sd_id s) key = None" "sd_state s \<in> {Sched_ACTIVE, Sched_PAUSED}"
    "sd_current_revision s = n" "dget (so_revisions (zw_schedules z)) (sd_id s, n) = Some r" "\<not> is_once (rv_cadence r)"
    "still_running (latest_materialized_occurrence (zw_schedules z) (sd_id s)) (schedule_principal s) (opened z) = (Inr False, opened z)"
    "count_manual_since (zw_schedules z) (sd_id s) (reading z - seconds day_seconds) < MANUAL_RUNS_PER_DAY"
    "manual_start_checks env s r (reading z) (opened z) = (Inr (authority, agent), opened z)"
    "start_manual env s r authority agent (reading z) key (opened z) = (Inr c, z1)"
    "zw_schedules z' = zw_schedules z1" "w_runs (zw_world z') = w_runs (zw_world z1)"
    by (rule manual_started [OF assms(1)])
  have keyed: "keyed sd_id (so_schedules (zw_schedules z))" "keyed oc_id (so_occurrences (zw_schedules z))"
    using assms(2) by (simp_all add: schedule_repo_ok_def tables_keyed_def)
  have s: "dget (so_schedules (zw_schedules z)) i = Some s" "owned_by (schedule_owner s) p"
    using m(1) by (auto simp: schedule_get_def split: option.splits if_splits)
  have id: "sd_id s = i" by (rule keyed_dget [OF keyed(1) s(1)])
  note eff = start_manual_effect [OF m(10), unfolded opened_simps]
  obtain e where ins: "occurrence_insert (zw_schedules z) c = Inr (e, zw_schedules z')" using eff m(11) by auto
  have c: "oc_schedule_id c = i" "oc_trigger c = Trigger_MANUAL" "oc_manual_request_key c = Some key"
    using eff id by (auto simp: materialized_occurrence_def)
  have unused_key: "c \<notin> set (dvals (so_occurrences (zw_schedules z)))"
    using m(2) c id by (auto simp: manual_occurrence_def find_None_iff)
  from ins assms(2)
  have "dget (so_occurrences (zw_schedules z)) (oc_id c) = None
      \<and> so_occurrences (zw_schedules z') = dset (oc_id c) c (so_occurrences (zw_schedules z))
      \<and> so_schedules (zw_schedules z') = so_schedules (zw_schedules z)
      \<and> so_revisions (zw_schedules z') = so_revisions (zw_schedules z)"
  proof (cases rule: occurrence_insert_cases)
    case found
    then show ?thesis using unused_key keyed_vals [OF keyed(2)] by simp
  qed simp
  then have table: "dget (so_occurrences (zw_schedules z)) (oc_id c) = None"
      "so_occurrences (zw_schedules z') = dset (oc_id c) c (so_occurrences (zw_schedules z))"
      "so_schedules (zw_schedules z') = so_schedules (zw_schedules z)" "so_revisions (zw_schedules z') = so_revisions (zw_schedules z)"
    by blast+
  have "count_manual_since (zw_schedules z') i (reading z - seconds day_seconds) \<le> MANUAL_RUNS_PER_DAY"
    using count_manual_add [OF table(1,2), of i "reading z - seconds day_seconds"] m(8) id by simp
  moreover obtain run where "oc_run_id c = Some (r_id run)" "dget (rr_runs (w_runs (zw_world z'))) (r_id run) = Some run"
      "r_principal_scopes run = rv_requested_scopes r"
    using eff m(12) unfolding run_started_def by auto
  moreover have "rv_requested_scopes r \<subseteq> scopes (dir_principal (ze_directory env))"
    using manual_start_checks_Inr [OF m(9)] by (auto simp: current_authority_def Let_def split: if_splits)
  moreover have "\<forall>previous k. latest_materialized_occurrence (zw_schedules z) i = Some previous \<and> oc_run_id previous = Some k \<longrightarrow>
         (\<exists>old. dget (rr_runs (w_runs (zw_world z))) k = Some old \<and> r_status old \<in> TERMINAL_RUN_STATUSES)"
    using still_running_False [OF m(7)] id by auto
  ultimately show ?thesis
    using s m(3-6) id table c occurrence_insert_ok [OF ins assms(2)]
    by (intro exI [of _ s] exI [of _ r] exI [of _ run]) simp
qed

text \<open>
  A repeated request is answered with the first run. In any later well-formed store that still
  holds the occurrence and in which the schedule is still the caller's, the same key returns that
  occurrence, marked as a replay, whatever revision the caller names, and changes no store.
\<close>

theorem manual_request_replayed:
  assumes "materialize_manual env p i n key z = (Inr (c, False), z')" and "schedule_repo_ok (zw_schedules z)"
    and "schedule_repo_ok (zw_schedules y)" and "dget (so_occurrences (zw_schedules y)) (oc_id c) = Some c"
    and "dget (so_schedules (zw_schedules y)) i = Some s" and "owned_by (schedule_owner s) p"
  shows "\<exists>y'. materialize_manual env p i n' key y = (Inr (c, True), y') \<and> zw_schedules y' = zw_schedules y
    \<and> zw_process y' = zw_process y \<and> zw_notices y' = zw_notices y \<and> same_stores (zw_world y) (zw_world y')"
proof -
  obtain s0 r0 authority agent z1 where m: "schedule_get (zw_schedules z) i p = Inr s0"
    "start_manual env s0 r0 authority agent (reading z) key (opened z) = (Inr c, z1)"
    by (rule manual_started [OF assms(1)])
  have keyed: "keyed sd_id (so_schedules (zw_schedules z))" "keyed sd_id (so_schedules (zw_schedules y))"
      "keyed oc_id (so_occurrences (zw_schedules y))"
    using assms(2,3) by (simp_all add: schedule_repo_ok_def tables_keyed_def)
  have "sd_id s0 = i" using m(1) keyed_dget [OF keyed(1)] by (auto simp: schedule_get_def split: option.splits if_splits)
  then have c: "oc_schedule_id c = i" "oc_manual_request_key c = Some key"
    using start_manual_effect [OF m(2)] by (auto simp: materialized_occurrence_def)
  have stored: "c \<in> set (dvals (so_occurrences (zw_schedules y)))" using keyed_vals [OF keyed(3)] assms(4) by simp
  have only: "e = c" if "e \<in> set (dvals (so_occurrences (zw_schedules y)))" "oc_schedule_id e = i" "oc_manual_request_key e = Some key" for e
  proof -
    have e: "dget (so_occurrences (zw_schedules y)) (oc_id e) = Some e" using keyed_vals [OF keyed(3)] that(1) by simp
    then have "oc_id e = oc_id c"
      using assms(3,4) that(2,3) c unfolding schedule_repo_ok_def manual_unique_def by (metis option.distinct(1))
    then show ?thesis using e assms(4) by (metis option.inject)
  qed
  have found: "manual_occurrence (zw_schedules y) i key = Some c"
  proof (cases "manual_occurrence (zw_schedules y) i key")
    case None
    then show ?thesis using stored c by (auto simp: manual_occurrence_def find_None_iff)
  next
    case (Some e)
    then have "e \<in> set (dvals (so_occurrences (zw_schedules y)))" "oc_schedule_id e = i" "oc_manual_request_key e = Some key"
      by (auto simp: manual_occurrence_def find_Some_iff)
    then show ?thesis using only Some by simp
  qed
  have "\<not> is_cockpit_refresh (Some key)" using assms(1) by (auto simp: materialize_manual_def refuse_def)
  moreover have "sd_id s = i" by (rule keyed_dget [OF keyed(2) assms(5)])
  ultimately show ?thesis
    using assms(5,6) found
    by (simp add: materialize_manual_def pbind_def zlift_def now_def schedule_unit_def manual_body_def schedule_get_def
        zattempt_def enter_unit_def commit_unit_def same_stores_def)
qed

subsection \<open>Requests that are granted\<close>

lemma manual_request_granted:
  assumes store: "schedule_repo_ok (zw_schedules z)" "event_repo_ok (w_events (zw_world z))" "fresh_ids env z"
    and key: "\<not> is_cockpit_refresh (Some key)" "1 \<le> length key" "length key \<le> 255"
      "manual_occurrence (zw_schedules z) i key = None"
    and s: "dget (so_schedules (zw_schedules z)) i = Some s" "owned_by (schedule_owner s) p"
      "sd_state s \<in> {Sched_ACTIVE, Sched_PAUSED}" "sd_current_revision s = n" "1 \<le> n"
    and r: "dget (so_revisions (zw_schedules z)) (i, n) = Some r" "\<not> is_once (rv_cadence r)"
    and idle: "still_running (latest_materialized_occurrence (zw_schedules z) i) (schedule_principal s) (opened z) = (Inr False, opened z)"
    and few: "count_manual_since (zw_schedules z) i (reading z - seconds day_seconds) < MANUAL_RUNS_PER_DAY"
    and checks: "manual_start_checks env s r (reading z) (opened z) = (Inr (authority, agent), opened z)"
  shows "\<exists>c z'. materialize_manual env p i n key z = (Inr (c, False), z')"
proof -
  have keyed: "keyed sd_id (so_schedules (zw_schedules z))" "keyed revision_key (so_revisions (zw_schedules z))"
    using store(1) by (simp_all add: schedule_repo_ok_def tables_keyed_def)
  have id: "sd_id s = i" "rv_revision r = n" using keyed_dget [OF keyed(1) s(1)] keyed_dget [OF keyed(2) r(1)] by simp_all
  define t where "t = reading z"
  have clash: "manual_clash (zw_schedules z) (materialized_occurrence j sid rid s r authority t t Trigger_MANUAL (Some key)) = None" for j sid rid
    using key(4) id by (simp add: manual_clash_def manual_occurrence_def materialized_occurrence_def)
  have owner: "sd_tenant_id s = tenant_id (au_principal authority)" "sd_principal_id s = principal_id (au_principal authority)"
    using manual_start_checks_Inr(2) [OF checks] by (auto simp: current_authority_def Let_def split: if_splits)
  have ready: "event_repo_ok (w_events (zw_world (opened z)))" "fresh_ids env (opened z)"
    using store(2,3) by (simp add: opened_def enter_unit_def, simp)
  have "\<exists>c z1. start_run env s r agent authority t t Trigger_MANUAL (Some key) None None [] False (opened z) = (Inr c, z1)
      \<and> oc_id c = w_ids (zw_world (opened z)) (w_ids_used (zw_world (opened z)) + 2)"
    using key(2,3) s r id clash
    by (intro start_run_possible [OF ready owner])
      (simp_all add: new_occurrence_def occurrence_fields_ok_def materialized_occurrence_def
        manual_key_matches_trigger_def disposition_is_consistent_def occurrence_insert_def dhas_iff)
  then obtain c z1 where run: "start_run env s r agent authority t t Trigger_MANUAL (Some key) None None [] False (opened z) = (Inr c, z1)"
      "oc_id c = w_ids (zw_world (opened z)) (w_ids_used (zw_world (opened z)) + 2)"
    by blast
  have "dget (zw_process z1) (''schedule.occurrence:'' @ uuid_str (oc_id c)) = None"
    using start_run_effect [OF run(1)] store(3) run(2) by (simp add: fresh_ids_def opened_def enter_unit_def)
  then obtain z2 where ev: "append_occurrence_event env c s (sd_state s) t z1 = (Inr (), z2)"
    by (simp add: append_occurrence_event_def pbind_def zlift_def new_id_def append_process_def
        process_append_def occurrence_event_def scheduler_event_def)
  have "start_manual env s r authority agent t key (opened z) = (Inr c, z2)"
    using run(1) ev by (simp add: start_manual_def)
  then have "manual_checked env s r t key (opened z) = (Inr (c, False), z2)"
    using r(2) idle few checks id by (simp add: manual_checked_def t_def)
  then have "manual_body env p i n key t (opened z) = (Inr (c, False), z2)"
    using s key(4) r(1) id
    by (auto simp: manual_body_def schedule_get_def zattempt_def get_revision_def dlookup_def schedule_principal_def
        owner_principal_def owned_by_def schedule_owner_def)
  then show ?thesis
    using key(1)
    by (simp add: materialize_manual_def pbind_def zlift_def now_def schedule_unit_def opened_def t_def)
qed

subsection \<open>Witnesses\<close>

lemma sample_checks:
  "\<exists>authority agent. manual_start_checks sample_schedule_env sample_schedule sample_revision t z0 = (Inr (authority, agent), z0)"
  if "w_agents (zw_world z0) = w_agents sample_world"
  using that
  by (simp add: manual_start_checks_def current_authority_def sample_schedule_env_def sample_schedule_def sample_revision_def
      alice_def agent_get_version_def dlookup_def sample_world_def sample_agent_def zattempt_def pbind_def)

lemma sample_granted:
  assumes "zw_schedules z = S" "schedule_repo_ok S" "so_schedules S = so_schedules sample_schedules"
    "so_revisions S = so_revisions sample_schedules" "event_repo_ok (w_events (zw_world z))" "fresh_ids sample_schedule_env z"
    and "manual_occurrence S 70 ''k'' = None" and "count_manual_since S 70 (reading z - seconds day_seconds) < MANUAL_RUNS_PER_DAY"
    and "w_agents (zw_world z) = w_agents sample_world"
    and "still_running (latest_materialized_occurrence S 70) (schedule_principal sample_schedule) (opened z) = (Inr False, opened z)"
  shows "\<exists>c z'. materialize_manual sample_schedule_env alice 70 1 ''k'' z = (Inr (c, False), z')"
proof -
  obtain authority agent where checks: "manual_start_checks sample_schedule_env sample_schedule sample_revision (reading z) (opened z)
      = (Inr (authority, agent), opened z)"
    using sample_checks [of "opened z" "reading z"] assms(9) by auto
  show ?thesis
    by (rule manual_request_granted [where s = sample_schedule and r = sample_revision, OF _ assms(5,6) _ _ _ _ _ _ _ _ _ _ _ _ _ checks])
      (use assms in \<open>simp_all add: sample_schedules_def sample_schedule_def sample_revision_def owned_by_def
        schedule_owner_def alice_def is_cockpit_refresh_def starts_with_def COCKPIT_REFRESH_KEY_PREFIX_def is_once_def\<close>)
qed

lemma sample_requested:
  obtains c z' where "materialize_manual sample_schedule_env alice 70 1 ''k'' sample_schedule_world = (Inr (c, False), z')"
proof -
  have "still_running (latest_materialized_occurrence sample_schedules 70) (schedule_principal sample_schedule) (opened z) = (Inr False, opened z)" for z
    by (simp add: latest_materialized_occurrence_def schedule_sample_defs still_running_def)
  moreover have "manual_occurrence sample_schedules 70 ''k'' = None" "count_manual_since sample_schedules 70 u = 0" for u
    by (simp_all add: manual_occurrence_def count_manual_since_def schedule_sample_defs)
  moreover have "event_repo_ok (w_events (zw_world sample_schedule_world))" "w_agents (zw_world sample_schedule_world) = w_agents sample_world"
    using sample_world_ok by (simp_all add: sample_schedule_world_def world_ok_def)
  ultimately have "\<exists>c z'. materialize_manual sample_schedule_env alice 70 1 ''k'' sample_schedule_world = (Inr (c, False), z')"
    using sample_store_ok sample_fresh
    by (intro sample_granted [where S = sample_schedules]) (simp_all add: MANUAL_RUNS_PER_DAY_def sample_schedule_world_def)
  then show thesis using that by blast
qed

theorem manual_run_bounded_witness:
  "\<exists>c z'. materialize_manual sample_schedule_env alice 70 1 ''k'' sample_schedule_world = (Inr (c, False), z')
     \<and> so_schedules (zw_schedules z') = so_schedules sample_schedules \<and> oc_manual_request_key c = Some ''k''"
proof -
  obtain c z' where c: "materialize_manual sample_schedule_env alice 70 1 ''k'' sample_schedule_world = (Inr (c, False), z')"
    by (rule sample_requested)
  have z: "zw_schedules sample_schedule_world = sample_schedules" by (simp add: sample_schedule_world_def)
  from manual_run_bounded [OF c] sample_store_ok c show ?thesis unfolding z by blast
qed

theorem manual_request_replayed_witness:
  "\<exists>c z' y'. materialize_manual sample_schedule_env alice 70 1 ''k'' sample_schedule_world = (Inr (c, False), z')
     \<and> materialize_manual sample_schedule_env alice 70 9 ''k''
         (sample_schedule_world\<lparr> zw_schedules := sample_schedules\<lparr> so_occurrences := [(oc_id c, c)] \<rparr> \<rparr>) = (Inr (c, True), y')"
proof -
  obtain c z' where c: "materialize_manual sample_schedule_env alice 70 1 ''k'' sample_schedule_world = (Inr (c, False), z')"
    by (rule sample_requested)
  have z: "schedule_repo_ok (zw_schedules sample_schedule_world)" using sample_store_ok by (simp add: sample_schedule_world_def)
  obtain s r authority agent z1 where m: "schedule_get (zw_schedules sample_schedule_world) 70 alice = Inr s"
    "dget (so_revisions (zw_schedules sample_schedule_world)) (sd_id s, 1) = Some r"
    "start_manual sample_schedule_env s r authority agent (reading sample_schedule_world) ''k'' (opened sample_schedule_world) = (Inr c, z1)"
    by (rule manual_started [OF c])
  have same: "s = sample_schedule" "r = sample_revision"
    using m(1,2) by (auto simp: schedule_get_def sample_schedule_world_def sample_schedules_def split: if_splits)
  have f: "oc_schedule_id c = 70" "oc_schedule_revision c = 1" "oc_trigger c = Trigger_MANUAL"
    using start_manual_effect [OF m(3)] by (auto simp: same materialized_occurrence_def sample_schedule_def sample_revision_def)
  define y where "y = sample_schedule_world\<lparr> zw_schedules := sample_schedules\<lparr> so_occurrences := [(oc_id c, c)] \<rparr> \<rparr>"
  have "schedule_repo_ok (zw_schedules y)"
    using f by (simp add: y_def schedule_repo_parts keyed_def sample_schedules_def empty_schedule_repo_def
        sample_schedule_def sample_revision_def split: if_splits)
  moreover have "dget (so_occurrences (zw_schedules y)) (oc_id c) = Some c" "dget (so_schedules (zw_schedules y)) 70 = Some sample_schedule"
      "owned_by (schedule_owner sample_schedule) alice"
    by (simp_all add: y_def sample_schedules_def owned_by_def schedule_owner_def sample_schedule_def alice_def)
  ultimately show ?thesis using manual_request_replayed [OF c z, of y sample_schedule 9] c unfolding y_def by blast
qed

definition feed_revision :: schedule_revision where
  "feed_revision = sample_revision\<lparr> rv_requested_scopes := {FEED_KEEPING_SCOPE} \<rparr>"

definition feed_schedules :: schedule_repo where
  "feed_schedules = sample_schedules\<lparr> so_revisions := [((70, 1), feed_revision)] \<rparr>"


subsection \<open>A firing that the overlap check does not see\<close>

text \<open>
  The scheduler comes late: the owner's requested run, named at the instant of the request, starts and
  ends before the earlier cadence instant is fired.
\<close>

definition owner_run :: schedule_occurrence where
  "owner_run = materialized_occurrence 80 2 2 sample_schedule sample_revision
     \<lparr> au_principal = alice, au_version = ''v'', au_enabled = True \<rparr> 70000000 70000000 Trigger_MANUAL (Some ''k1'')"

definition late_firing :: schedule_occurrence where
  "late_firing = materialized_occurrence 81 1 1 sample_schedule sample_revision
     \<lparr> au_principal = alice, au_version = ''v'', au_enabled = True \<rparr> 60000000 75000000 Trigger_SCHEDULED None"

definition late_schedules :: schedule_repo where
  "late_schedules = sample_schedules\<lparr> so_occurrences := [(80, owner_run), (81, late_firing)],
     so_occurrence_keys := [((70, 60000000), 81)] \<rparr>"

definition late_world :: schedule_world where
  "late_world = \<lparr> zw_world = sample_world\<lparr> w_clock := (\<lambda>n. 80000000 + int n), w_ids := (\<lambda>n. 90 + n),
       w_runs := (w_runs sample_world)\<lparr> rr_runs := [(1, sample_run 1 Run_RUNNING), (2, sample_run 2 Run_COMPLETED)] \<rparr> \<rparr>,
     zw_schedules = late_schedules, zw_process = [], zw_notices = [] \<rparr>"

lemmas late_defs = owner_run_def late_firing_def materialized_occurrence_def sample_schedule_def sample_revision_def

lemma late_schedules_reached: "schedule_step\<^sup>*\<^sup>* empty_schedule_repo late_schedules"
proof -
  define S1 where "S1 = sample_schedules\<lparr> so_occurrences := [(80, owner_run)] \<rparr>"
  have "occurrence_insert sample_schedules owner_run = Inr (owner_run, S1)"
    by (simp add: S1_def occurrence_insert_def manual_clash_def sample_schedules_def empty_schedule_repo_def late_defs dhas_def)
  moreover have "occurrence_insert S1 late_firing = Inr (late_firing, late_schedules)"
    by (simp add: S1_def late_schedules_def occurrence_insert_def manual_clash_def sample_schedules_def empty_schedule_repo_def
        late_defs dhas_def)
  ultimately show ?thesis using sample_schedules_reached sstep_insert by (metis rtranclp.rtrancl_into_rtrancl)
qed

lemma late_latest: "latest_materialized_occurrence late_schedules 70 = Some owner_run"
  by code_simp

lemma late_idle:
  "still_running (latest_materialized_occurrence late_schedules 70) (schedule_principal sample_schedule) (opened late_world)
     = (Inr False, opened late_world)"
proof -
  have "run_get (w_sessions (zw_world (opened late_world))) (w_runs (zw_world (opened late_world))) 2 (schedule_principal sample_schedule)
      = Inr (sample_run 2 Run_COMPLETED)"
    by (simp add: run_get_def late_world_def opened_def enter_unit_def sample_world_def dlookup_def session_get_def
        sample_session_defs sample_run_def schedule_principal_def owner_principal_def sample_schedule_def)
  moreover have "oc_run_id owner_run = Some 2" by (simp add: owner_run_def materialized_occurrence_def)
  ultimately show ?thesis
    by (simp add: late_latest still_running_def pbind_def zattempt_def sample_run_def TERMINAL_RUN_STATUSES_def)
qed

lemma late_fresh: "fresh_ids sample_schedule_env late_world"
  by (simp add: fresh_ids_def late_world_def late_schedules_def unused_def sample_world_def sample_schedule_env_def
      sample_sessions_def sample_runs_def sample_run_def seedable_def empty_checkpoint_repo_def empty_event_repo_def
      stream_def chain_def dhas_def sample_env_def)

text \<open>
  C30. The overlap check can miss a run. In a reachable store, a cadence firing that came late is still
  running, while the newest occurrence by nominal instant is a finished requested run; Run now looks at
  the newest one only and starts a second run of the same schedule beside the first.
\<close>

theorem late_firing_can_be_overlapped:
  "schedule_step\<^sup>*\<^sup>* empty_schedule_repo (zw_schedules late_world)
   \<and> (\<exists>c z'. materialize_manual sample_schedule_env alice 70 1 ''k'' late_world = (Inr (c, False), z')
        \<and> oc_schedule_id late_firing = 70 \<and> dget (so_occurrences (zw_schedules late_world)) 81 = Some late_firing
        \<and> oc_run_id late_firing = Some 1
        \<and> map_option r_status (dget (rr_runs (w_runs (zw_world late_world))) 1) = Some Run_RUNNING)"
proof -
  have store: "zw_schedules late_world = late_schedules" by (simp add: late_world_def)
  have count: "count_manual_since late_schedules 70 u \<le> 1" for u
    by (simp add: count_manual_since_def late_schedules_def owner_run_def late_firing_def materialized_occurrence_def)
  have "event_repo_ok (w_events (zw_world late_world))" "w_agents (zw_world late_world) = w_agents sample_world"
    using sample_world_ok by (simp_all add: late_world_def world_ok_def)
  moreover have "so_schedules late_schedules = so_schedules sample_schedules" "so_revisions late_schedules = so_revisions sample_schedules"
      "manual_occurrence late_schedules 70 ''k'' = None"
    by (simp_all add: late_schedules_def manual_occurrence_def owner_run_def late_firing_def materialized_occurrence_def)
  ultimately have "\<exists>c z'. materialize_manual sample_schedule_env alice 70 1 ''k'' late_world = (Inr (c, False), z')"
    using late_idle late_fresh schedule_reachable_ok [OF late_schedules_reached] store
      order.strict_trans1 [OF count, of MANUAL_RUNS_PER_DAY]
    by (intro sample_granted [where S = late_schedules]) (simp_all add: MANUAL_RUNS_PER_DAY_def)
  then show ?thesis
    using late_schedules_reached store
    by (simp add: late_schedules_def late_defs late_world_def sample_run_def)
qed

end
