(* ===== verification/Accounting.thy ===== *)
theory Accounting
  imports Materializer
begin

text \<open>
  After a scheduled run: \<open>scheduling/accounting.py\<close>. The accountant counts a finished run against its
  schedule exactly once, pauses the schedule at its failure limit and tells the owner. The derivation
  key of its process event is what makes it idempotent. Metrics and the write probe are left out.
\<close>

subsection \<open>Why a run failed\<close>

fun failure_reason_value :: "failure_reason \<Rightarrow> string" where
  "failure_reason_value MAX_ATTEMPTS_EXCEEDED = ''max_attempts_exceeded''"
| "failure_reason_value BUDGET_EXCEEDED = ''budget_exceeded''"
| "failure_reason_value DEADLINE_EXCEEDED = ''deadline_exceeded''"
| "failure_reason_value MAX_STEPS_EXCEEDED = ''max_steps_exceeded''"
| "failure_reason_value TOOL_LOOP_DETECTED = ''tool_loop_detected''"
| "failure_reason_value REPEATED_DENIAL = ''repeated_denial''"
| "failure_reason_value APPROVAL_EXPIRED = ''approval_expired''"
| "failure_reason_value INPUT_DEADLINE_EXCEEDED = ''input_deadline_exceeded''"
| "failure_reason_value CONTEXT_OVERFLOW = ''context_overflow''"
| "failure_reason_value MODEL_PERMANENT_ERROR = ''model_permanent_error''"
| "failure_reason_value EMPTY_MODEL_TURN = ''empty_model_turn''"
| "failure_reason_value AUTHORIZATION_ERROR = ''authorization_error''"
| "failure_reason_value CHILD_RUN_FAILED = ''child_run_failed''"
| "failure_reason_value INTERNAL_ERROR = ''internal_error''"
| "failure_reason_value DEPENDENCY_UNAVAILABLE = ''dependency_unavailable''"

definition FAILURE_DETAIL_KEYS :: "string list" where
  "FAILURE_DETAIL_KEYS = [''provider'', ''provider_code'', ''http_status'', ''provider_parameter'']"

definition kept_detail :: "document \<Rightarrow> string \<Rightarrow> document" where
  "kept_detail details key = (case dget details key of
      Some (JStr s) \<Rightarrow> [(key, JStr s)]
    | Some (JInt n) \<Rightarrow> [(key, JInt n)]
    | _ \<Rightarrow> [])"

definition failure_classification :: "run \<Rightarrow> json" where
  "failure_classification run = (case r_failure run of
      Some f \<Rightarrow>
        if r_status run \<noteq> Run_FAILED then JNull
        else JObj ([(''reason'', JStr (failure_reason_value (fail_reason f))), (''error_class'', JStr (fail_error_class f))]
          @ concat (map (kept_detail (fail_details f)) FAILURE_DETAIL_KEYS))
    | None \<Rightarrow> JNull)"

subsection \<open>The accountant\<close>

definition accounted_key :: "schedule_occurrence \<Rightarrow> string" where
  "accounted_key c = ''schedule.run_accounted:'' @ uuid_str (oc_id c)"

definition is_manual :: "schedule_occurrence \<Rightarrow> bool" where
  "is_manual c \<longleftrightarrow> oc_trigger c = Trigger_MANUAL"

definition counted_failures :: "schedule \<Rightarrow> schedule_occurrence \<Rightarrow> run \<Rightarrow> int" where
  "counted_failures s c run =
     (if is_manual c then sd_consecutive_failures s
      else if r_status run = Run_COMPLETED then 0
      else if r_status run = Run_FAILED then sd_consecutive_failures s + 1
      else sd_consecutive_failures s)"

definition pauses :: "schedule \<Rightarrow> schedule_revision \<Rightarrow> schedule_occurrence \<Rightarrow> run \<Rightarrow> bool" where
  "pauses s r c run \<longleftrightarrow> \<not> is_manual c \<and> r_status run = Run_FAILED
     \<and> counted_failures s c run \<ge> rv_max_consecutive_failures r \<and> sd_state s = Sched_ACTIVE"

definition accounted_schedule ::
    "schedule \<Rightarrow> schedule_revision \<Rightarrow> schedule_occurrence \<Rightarrow> run \<Rightarrow> instant \<Rightarrow> schedule" where
  "accounted_schedule s r c run t = s\<lparr>
     sd_state := (if pauses s r c run then Sched_PAUSED else sd_state s),
     sd_pause_reason := (if pauses s r c run then Some Pause_FAILURE_LIMIT else sd_pause_reason s),
     sd_consecutive_failures := counted_failures s c run, sd_updated_at := t \<rparr>"

definition accounted_event ::
    "schedule_env \<Rightarrow> uuid \<Rightarrow> schedule \<Rightarrow> schedule_occurrence \<Rightarrow> run \<Rightarrow> instant \<Rightarrow> instant \<Rightarrow> process_event" where
  "accounted_event env i s c run event_time t = scheduler_event i ''schedule.run_accounted'' (sd_principal_id s)
     [(''schedule_id'', JStr (uuid_str (sd_id s))), (''schedule_revision'', JInt (oc_schedule_revision c)),
      (''tenant_id'', JStr (sd_tenant_id s)), (''principal_id'', JStr (sd_principal_id s)),
      (''occurrence_id'', JStr (uuid_str (oc_id c))), (''run_id'', JStr (uuid_str (r_id run))),
      (''run_status'', JStr (run_status_value (r_status run))), (''failure'', failure_classification run),
      (''consecutive_failures'', JInt (counted_failures s c run)),
      (''event_time'', JStr (ze_isoformat env event_time))]
     (accounted_key c) t"

definition quiet_plan_call :: "schedule_revision \<Rightarrow> run \<Rightarrow> principal \<Rightarrow> bool scheduling" where
  "quiet_plan_call r run owner =
     (if rv_call_plan r = None \<or> r_status run \<noteq> Run_COMPLETED then preturn False
      else pbind (pget (\<lambda>z. session_get (w_sessions (zw_world z)) (r_session_id run) owner)) (\<lambda>found.
        pbind (zattempt found) (\<lambda>session. preturn (case dget (s_metadata session) ''call_plan_step'' of
            Some (JObj step) \<Rightarrow> dget step ''kind'' \<noteq> Some (JStr (step_kind_value Step_REPORT))
          | _ \<Rightarrow> False))))"

definition quiet_run :: "schedule_revision \<Rightarrow> schedule_occurrence \<Rightarrow> run \<Rightarrow> bool" where
  "quiet_run r c run \<longleftrightarrow> r_status run = Run_COMPLETED
     \<and> (rv_notify r = ATTENTION_ONLY \<or> is_cockpit_refresh (oc_manual_request_key c))"

definition tell_owner ::
    "schedule_env \<Rightarrow> schedule \<Rightarrow> schedule_revision \<Rightarrow> schedule_occurrence \<Rightarrow> run \<Rightarrow> principal \<Rightarrow> unit scheduling" where
  "tell_owner env s r c run owner =
     (if ze_notifier env = None \<or> quiet_run r c run then preturn ()
      else pbind (quiet_plan_call r run owner) (\<lambda>silent.
        if silent then preturn () else notify env (Accounted_notice (sd_id s) (oc_id c))))"

text \<open>Once the run is known to have ended: the schedule, the event, the notification, the pause.\<close>

definition settle ::
    "schedule_env \<Rightarrow> schedule \<Rightarrow> schedule_revision \<Rightarrow> schedule_occurrence \<Rightarrow> run \<Rightarrow> principal \<Rightarrow> bool scheduling" where
  "settle env s r c run owner =
     pbind (zlift now) (\<lambda>t.
     let updated = accounted_schedule s r c run t in
     pbind (if updated \<noteq> s
         then on_schedules (\<lambda>S. rbind (schedule_replace S s updated None) (\<lambda>S'. Inr ((), S')))
         else preturn ()) (\<lambda>_.
     pbind (zlift new_id) (\<lambda>i. pbind (zlift now) (\<lambda>t1. pbind (zlift now) (\<lambda>t2.
     pbind (append_process (accounted_event env i s c run t1 t2)) (\<lambda>_.
     pbind (tell_owner env updated r c run owner) (\<lambda>_.
     pbind (if pauses s r c run
         then pbind (zlift new_id) (\<lambda>k. pbind (zlift now) (\<lambda>u1. pbind (zlift now) (\<lambda>u2.
           append_process (auto_paused_event env k s c (Some (r_id run)) u1 u2))))
         else preturn ()) (\<lambda>_.
       preturn True))))))))"

definition account_linked :: "schedule_env \<Rightarrow> uuid \<Rightarrow> scheduled_run_link \<Rightarrow> bool scheduling" where
  "account_linked env run_id link =
     (let c = sl_occurrence link; owner = owner_principal (sl_tenant_id link) (sl_principal_id link) in
      pbind (pget (\<lambda>z. dget (zw_process z) (accounted_key c))) (\<lambda>before.
      if before \<noteq> None then preturn False
      else pbind (pget (\<lambda>z. schedule_get (zw_schedules z) (oc_schedule_id c) owner)) (\<lambda>found_schedule.
      pbind (zattempt found_schedule) (\<lambda>s.
      pbind (pget (\<lambda>z. dget (zw_process z) (accounted_key c))) (\<lambda>again.
      if again \<noteq> None then preturn False
      else pbind (pget (\<lambda>z. run_get (w_sessions (zw_world z)) (w_runs (zw_world z)) run_id owner)) (\<lambda>found_run.
      pbind (zattempt found_run) (\<lambda>run.
      if r_status run \<notin> TERMINAL_RUN_STATUSES then preturn False
      else pbind (pget (\<lambda>z. get_revision (zw_schedules z) (sd_id s) (oc_schedule_revision c) owner)) (\<lambda>found_revision.
      pbind (zattempt found_revision) (\<lambda>r.
        settle env s r c run owner)))))))))"

definition account_body :: "schedule_env \<Rightarrow> uuid \<Rightarrow> bool scheduling" where
  "account_body env run_id = pbind (pget (\<lambda>z. occurrence_by_run (zw_schedules z) run_id)) (\<lambda>found.
     pbind (zattempt found) (\<lambda>linked. case linked of
       None \<Rightarrow> preturn False
     | Some link \<Rightarrow> account_linked env run_id link))"

definition account :: "schedule_env \<Rightarrow> uuid \<Rightarrow> bool scheduling" where
  "account env run_id = schedule_unit (account_body env run_id)"

subsection \<open>What accounting changes\<close>

definition log_kept :: "schedule_world \<Rightarrow> schedule_world \<Rightarrow> bool" where
  "log_kept z z' \<longleftrightarrow> (\<forall>k e. dget (zw_process z) k = Some e \<longrightarrow> dget (zw_process z') k = Some e)"

interpretation log_kept: evolution log_kept
  by unfold_locales (auto simp: log_kept_def)

lemma stays_log_basic:
  "stays log_kept (zlift m)" "stays log_kept (append_process e)" "stays log_kept (zattempt r)" "stays log_kept (on_schedules f)"
  by (auto simp: stays_def log_kept_def zlift_def append_process_def process_append_def zattempt_def on_schedules_def
      split: sum.splits prod.splits option.splits if_splits)

lemmas log_kept_laws = log_kept.stays_return log_kept.stays_bind stays_log_basic stays_if stays_case_option stays_case_prod

lemma stays_log_notify: "stays log_kept (notify env n)"
  unfolding notify_def by (intro log_kept_laws log_kept.stays_modify) (simp add: log_kept_def)

lemma stays_log_tell: "stays log_kept (tell_owner env s r c run owner)"
  unfolding tell_owner_def quiet_plan_call_def by (intro log_kept_laws stays_log_notify)

lemma stays_tell_schedules: "stays same_schedules (tell_owner env s r c run owner)"
  unfolding tell_owner_def quiet_plan_call_def by (intro schedules_kept_laws stays_notify_schedules)

lemma append_process_stored:
  "append_process e z = (Inr (), z') \<Longrightarrow> dget (zw_process z') (pe_derivation_key e) \<noteq> None"
  by (auto simp: append_process_def process_append_def split: option.splits if_splits)

lemma accounted_identity [simp]:
  "sd_id (accounted_schedule s r c run t) = sd_id s"
  "sd_current_revision (accounted_schedule s r c run t) = sd_current_revision s"
  by (simp_all add: accounted_schedule_def)

lemma stays_log_settle: "stays log_kept (settle env s r c run owner)"
  unfolding settle_def Let_def by (intro log_kept_laws stays_log_tell)

lemma settle_effect:
  assumes "settle env s r c run owner z = (Inr b, z')"
  defines "updated \<equiv> accounted_schedule s r c run (reading z)"
  shows "b" and "dget (zw_process z') (accounted_key c) \<noteq> None"
    and "schedule_replace (zw_schedules z) s updated None = Inr (zw_schedules z') \<or> updated = s \<and> zw_schedules z' = zw_schedules z"
proof -
  obtain z0 z1 z2 z3 z4 z5 z6 i t1 t2 where
      z0: "zlift now z = (Inr (reading z), z0)"
    and z1: "(if updated \<noteq> s then on_schedules (\<lambda>S. rbind (schedule_replace S s updated None) (\<lambda>S'. Inr ((), S')))
        else preturn ()) z0 = (Inr (), z1)"
    and ids: "zlift new_id z1 = (Inr i, z2)" "zlift now z2 = (Inr t1, z3)" "zlift now z3 = (Inr t2, z4)"
    and z5: "append_process (accounted_event env i s c run t1 t2) z4 = (Inr (), z5)"
    and z6: "tell_owner env updated r c run owner z5 = (Inr (), z6)"
    and z7: "(if pauses s r c run
         then pbind (zlift new_id) (\<lambda>k. pbind (zlift now) (\<lambda>u1. pbind (zlift now) (\<lambda>u2.
           append_process (auto_paused_event env k s c (Some (r_id run)) u1 u2))))
         else preturn ()) z6 = (Inr (), z')"
    and b: "b"
    using assms(1) unfolding settle_def Let_def updated_def
    by (auto simp: pbind_Inr_iff now_def simp del: zlift_Inr) (auto simp: zlift_def now_def)
  show b by (rule b)
  have pause: "stays log_kept (if pauses s r c run
         then pbind (zlift new_id) (\<lambda>k. pbind (zlift now) (\<lambda>u1. pbind (zlift now) (\<lambda>u2.
           append_process (auto_paused_event env k s c (Some (r_id run)) u1 u2))))
         else preturn ())"
    and pause': "stays same_schedules (if pauses s r c run
         then pbind (zlift new_id) (\<lambda>k. pbind (zlift now) (\<lambda>u1. pbind (zlift now) (\<lambda>u2.
           append_process (auto_paused_event env k s c (Some (r_id run)) u1 u2))))
         else preturn ())"
    by (intro log_kept_laws schedules_kept_laws)+
  have "dget (zw_process z5) (accounted_key c) \<noteq> None"
    using append_process_stored [OF z5] by (simp add: accounted_event_def scheduler_event_def)
  then show "dget (zw_process z') (accounted_key c) \<noteq> None"
    using staysD [OF stays_log_tell z6] staysD [OF pause z7] by (auto simp: log_kept_def)
  have "zw_schedules z0 = zw_schedules z" "zw_schedules z' = zw_schedules z1"
    using z0 ids staysD [OF stays_zlift_schedules ids(1)] staysD [OF stays_zlift_schedules ids(2)]
      staysD [OF stays_zlift_schedules ids(3)] staysD [OF stays_process_schedules z5]
      staysD [OF stays_tell_schedules z6] staysD [OF pause' z7]
    by (auto simp: same_schedules_def)
  then show "schedule_replace (zw_schedules z) s updated None = Inr (zw_schedules z') \<or> updated = s \<and> zw_schedules z' = zw_schedules z"
    using z1 by (auto simp: rbind_Inr_iff split: if_splits)
qed

text \<open>A call that counted a run, and what it found.\<close>

lemma account_True:
  assumes "account env i z = (Inr True, z')"
  obtains link s r run z1 where "occurrence_by_run (zw_schedules z) i = Inr (Some link)"
    and "dget (zw_process z) (accounted_key (sl_occurrence link)) = None"
    and "schedule_get (zw_schedules z) (oc_schedule_id (sl_occurrence link))
      (owner_principal (sl_tenant_id link) (sl_principal_id link)) = Inr s"
    and "dget (rr_runs (w_runs (zw_world z))) i = Some run" "r_status run \<in> TERMINAL_RUN_STATUSES"
    and "dget (so_revisions (zw_schedules z)) (sd_id s, oc_schedule_revision (sl_occurrence link)) = Some r"
    and "settle env s r (sl_occurrence link) run (owner_principal (sl_tenant_id link) (sl_principal_id link))
      (z\<lparr> zw_world := enter_unit (zw_world z) \<rparr>) = (Inr True, z1)"
    and "zw_schedules z' = zw_schedules z1" "zw_process z' = zw_process z1"
proof -
  define y where "y = z\<lparr> zw_world := enter_unit (zw_world z) \<rparr>"
  obtain z1 where body: "account_body env i y = (Inr True, z1)" and z': "zw_schedules z' = zw_schedules z1" "zw_process z' = zw_process z1"
    using assms by (auto simp: account_def schedule_unit_Inr y_def)
  have y: "zw_schedules y = zw_schedules z" "zw_process y = zw_process z" "w_runs (zw_world y) = w_runs (zw_world z)"
    by (simp_all add: y_def)
  obtain link where link: "occurrence_by_run (zw_schedules z) i = Inr (Some link)" "account_linked env i link y = (Inr True, z1)"
    using body y by (auto simp: account_body_def pbind_Inr_iff split: option.splits)
  show thesis
    using link(2) that [OF link(1) _ _ _ _ _ _ z'] unfolding account_linked_def Let_def y_def [symmetric]
    by (auto simp: pbind_Inr_iff y run_get_def get_revision_def rbind_Inr_iff split: if_splits)
qed

lemma occurrence_by_run_Some:
  assumes "occurrence_by_run S i = Inr (Some link)" and "schedule_repo_ok S"
  shows "oc_run_id (sl_occurrence link) = Some i"
    and "dget (so_occurrences S) (oc_id (sl_occurrence link)) = Some (sl_occurrence link)"
    and "\<exists>s. dget (so_schedules S) (oc_schedule_id (sl_occurrence link)) = Some s
      \<and> schedule_owner s = (sl_tenant_id link, sl_principal_id link)"
proof -
  obtain c where c: "filter (\<lambda>c. oc_run_id c = Some i) (dvals (so_occurrences S)) = [c]" "sl_occurrence link = c"
    and s: "\<exists>s. dget (so_schedules S) (oc_schedule_id c) = Some s \<and> schedule_owner s = (sl_tenant_id link, sl_principal_id link)"
    using assms(1) by (auto simp: occurrence_by_run_def rbind_Inr_iff schedule_owner_def split: list.splits)
  have "c \<in> set (filter (\<lambda>c. oc_run_id c = Some i) (dvals (so_occurrences S)))" using c(1) by simp
  then show "oc_run_id (sl_occurrence link) = Some i"
      "dget (so_occurrences S) (oc_id (sl_occurrence link)) = Some (sl_occurrence link)"
    using c(2) keyed_vals assms(2) by (force simp: schedule_repo_ok_def tables_keyed_def)+
  show "\<exists>s. dget (so_schedules S) (oc_schedule_id (sl_occurrence link)) = Some s
      \<and> schedule_owner s = (sl_tenant_id link, sl_principal_id link)" using s c(2) by simp
qed

text \<open>
  How a finished run counts. A run is counted only when it has ended and its occurrence has not
  been counted. A completed cadence run clears the failure count, a failed one adds to it and at the
  revision's limit pauses an active schedule, a cancelled one leaves it; a manual run leaves count and
  state alone. Nothing else of the schedule moves, its next firing least of all, and no other record
  of the store changes.
\<close>

theorem run_counts_as_documented:
  assumes "account env i z = (Inr True, z')" and "schedule_repo_ok (zw_schedules z)"
  shows "\<exists>c s r run s'. oc_run_id c = Some i \<and> dget (so_occurrences (zw_schedules z)) (oc_id c) = Some c
    \<and> dget (so_schedules (zw_schedules z)) (oc_schedule_id c) = Some s
    \<and> dget (so_revisions (zw_schedules z)) (oc_schedule_id c, oc_schedule_revision c) = Some r
    \<and> dget (rr_runs (w_runs (zw_world z))) i = Some run \<and> r_status run \<in> TERMINAL_RUN_STATUSES
    \<and> dget (zw_process z) (accounted_key c) = None \<and> dget (zw_process z') (accounted_key c) \<noteq> None
    \<and> (\<forall>j. dget (so_schedules (zw_schedules z')) j
          = (if j = oc_schedule_id c then Some s' else dget (so_schedules (zw_schedules z)) j))
    \<and> so_revisions (zw_schedules z') = so_revisions (zw_schedules z)
    \<and> so_occurrences (zw_schedules z') = so_occurrences (zw_schedules z)
    \<and> schedule_repo_ok (zw_schedules z')
    \<and> sd_next_fire_at s' = sd_next_fire_at s \<and> sd_current_revision s' = sd_current_revision s
    \<and> schedule_owner s' = schedule_owner s
    \<and> (if oc_trigger c = Trigger_MANUAL \<or> r_status run = Run_CANCELLED
       then sd_consecutive_failures s' = sd_consecutive_failures s \<and> sd_state s' = sd_state s
       else if r_status run = Run_COMPLETED then sd_consecutive_failures s' = 0 \<and> sd_state s' = sd_state s
       else sd_consecutive_failures s' = sd_consecutive_failures s + 1
         \<and> sd_state s' = (if sd_state s = Sched_ACTIVE \<and> rv_max_consecutive_failures r \<le> sd_consecutive_failures s + 1
              then Sched_PAUSED else sd_state s))"
proof -
  obtain link s r run z1 where a: "occurrence_by_run (zw_schedules z) i = Inr (Some link)"
    "dget (zw_process z) (accounted_key (sl_occurrence link)) = None"
    "schedule_get (zw_schedules z) (oc_schedule_id (sl_occurrence link))
      (owner_principal (sl_tenant_id link) (sl_principal_id link)) = Inr s"
    "dget (rr_runs (w_runs (zw_world z))) i = Some run" "r_status run \<in> TERMINAL_RUN_STATUSES"
    "dget (so_revisions (zw_schedules z)) (sd_id s, oc_schedule_revision (sl_occurrence link)) = Some r"
    "settle env s r (sl_occurrence link) run (owner_principal (sl_tenant_id link) (sl_principal_id link))
      (z\<lparr> zw_world := enter_unit (zw_world z) \<rparr>) = (Inr True, z1)"
    "zw_schedules z' = zw_schedules z1" "zw_process z' = zw_process z1"
    by (rule account_True [OF assms(1)])
  define c where "c = sl_occurrence link"
  define s' where "s' = accounted_schedule s r c run (reading (z\<lparr> zw_world := enter_unit (zw_world z) \<rparr>))"
  note c = occurrence_by_run_Some(1,2) [OF a(1) assms(2), folded c_def]
  note eff = settle_effect(2,3) [OF a(7), folded c_def, folded s'_def]
  have s: "dget (so_schedules (zw_schedules z)) (oc_schedule_id c) = Some s"
    using a(3) by (auto simp: schedule_get_def c_def split: option.splits if_splits)
  have id: "sd_id s = oc_schedule_id c"
    using keyed_dget [OF _ s] assms(2) by (simp add: schedule_repo_ok_def tables_keyed_def)
  have ok: "schedule_repo_ok (zw_schedules z')"
    using eff(2) assms(2) a(8) by (auto intro: schedule_replace_ok)
  have "sd_id s' = sd_id s" by (simp add: s'_def)
  then have "zw_schedules z' = (zw_schedules z)\<lparr> so_schedules := dset (sd_id s) s' (so_schedules (zw_schedules z)) \<rparr>
      \<or> s' = s \<and> zw_schedules z' = zw_schedules z"
    using eff(2) a(8) by (auto simp: schedule_replace_def split: if_splits)
  then have table: "so_revisions (zw_schedules z') = so_revisions (zw_schedules z)"
      "so_occurrences (zw_schedules z') = so_occurrences (zw_schedules z)"
      "\<forall>j. dget (so_schedules (zw_schedules z')) j
          = (if j = oc_schedule_id c then Some s' else dget (so_schedules (zw_schedules z)) j)"
    using s by (auto simp: id)
  have spec: "sd_next_fire_at s' = sd_next_fire_at s" "sd_current_revision s' = sd_current_revision s"
      "schedule_owner s' = schedule_owner s"
    by (simp_all add: s'_def accounted_schedule_def schedule_owner_def)
  have "if oc_trigger c = Trigger_MANUAL \<or> r_status run = Run_CANCELLED
       then sd_consecutive_failures s' = sd_consecutive_failures s \<and> sd_state s' = sd_state s
       else if r_status run = Run_COMPLETED then sd_consecutive_failures s' = 0 \<and> sd_state s' = sd_state s
       else sd_consecutive_failures s' = sd_consecutive_failures s + 1
         \<and> sd_state s' = (if sd_state s = Sched_ACTIVE \<and> rv_max_consecutive_failures r \<le> sd_consecutive_failures s + 1
              then Sched_PAUSED else sd_state s)"
    using a(5) by (auto simp: s'_def accounted_schedule_def pauses_def counted_failures_def is_manual_def
        TERMINAL_RUN_STATUSES_def)
  then show ?thesis
    using c s a(2,4,5,6,9) table ok spec eff(1) id
    by (intro exI [of _ c] exI [of _ s] exI [of _ r] exI [of _ run] exI [of _ s']) (simp add: c_def)
qed

text \<open>
  C27. A run is counted once. After a call that counted it, every later call for the same occurrence,
  in any state whose process log still holds what was logged, reports that there is nothing to do and
  leaves the schedules, the log, the notifications and the run, session and event stores as they are.
\<close>

theorem run_counted_once:
  assumes "account env i z = (Inr True, z')" and "occurrence_by_run (zw_schedules z) i = Inr (Some link)"
    and "\<And>k e. dget (zw_process z') k = Some e \<Longrightarrow> dget (zw_process y) k = Some e"
    and "occurrence_by_run (zw_schedules y) i = Inr (Some link')"
    and "oc_id (sl_occurrence link') = oc_id (sl_occurrence link)"
  shows "\<exists>y'. account env i y = (Inr False, y') \<and> zw_schedules y' = zw_schedules y \<and> zw_process y' = zw_process y
    \<and> zw_notices y' = zw_notices y \<and> same_stores (zw_world y) (zw_world y')"
proof -
  have "accounted_key (sl_occurrence link') = accounted_key (sl_occurrence link)" using assms(5) by (simp add: accounted_key_def)
  moreover have "dget (zw_process z') (accounted_key (sl_occurrence link)) \<noteq> None"
    using assms(1,2) by (elim account_True) (auto dest: settle_effect(2))
  ultimately have "dget (zw_process y) (accounted_key (sl_occurrence link')) \<noteq> None"
    using assms(3) by fastforce
  then show ?thesis
    using assms(4)
    by (auto simp: account_def schedule_unit_def account_body_def account_linked_def Let_def zattempt_def
        enter_unit_def commit_unit_def same_stores_def)
qed

subsection \<open>Witnesses\<close>

text \<open>A schedule one failure away from its limit, and its failed run.\<close>

definition finished_occurrence :: schedule_occurrence where
  "finished_occurrence = materialized_occurrence 80 1 1 sample_schedule sample_revision
     \<lparr> au_principal = alice, au_version = ''v'', au_enabled = True \<rparr> 60000000 60000000 Trigger_SCHEDULED None"

definition failing_schedules :: schedule_repo where
  "failing_schedules = sample_schedules\<lparr>
     so_schedules := [(70, sample_schedule\<lparr> sd_consecutive_failures := 1 \<rparr>)],
     so_occurrences := [(80, finished_occurrence)], so_occurrence_keys := [((70, 60000000), 80)] \<rparr>"

definition failing_env :: schedule_env where
  "failing_env = \<lparr> ze_submit = sample_env, ze_zones = (\<lambda>_. \<lparr> zi_wall = (\<lambda>u. u), zi_utc = (\<lambda>l _. l) \<rparr>),
     ze_directory = \<lparr> dir_principal = alice, dir_enabled = True, dir_source = ''configured'' \<rparr>,
     ze_digest = (\<lambda>_ _. ''d''), ze_admission = (\<lambda>_ _ _ _. Inl KeyError),
     ze_notifier = Some (\<lambda>_. Inr ()), ze_dump_task = (\<lambda>_. JNull), ze_isoformat = str_int,
     ze_validate_step = (\<lambda>_. Inl KeyError) \<rparr>"

definition failing_world :: schedule_world where
  "failing_world = \<lparr> zw_world = sample_world\<lparr> w_runs := (w_runs sample_world)\<lparr> rr_runs := [(1, sample_run 1 Run_FAILED)] \<rparr> \<rparr>,
     zw_schedules = failing_schedules, zw_process = [], zw_notices = [] \<rparr>"

lemma failing_accounted: "fst (account failing_env 1 failing_world) = Inr True"
  by code_simp

lemma failing_store_ok: "schedule_repo_ok failing_schedules"
  by (simp add: failing_schedules_def schedule_repo_parts keyed_def sample_schedules_def empty_schedule_repo_def
      sample_schedule_def sample_revision_def finished_occurrence_def materialized_occurrence_def split: if_splits)

lemma failing_link:
  "occurrence_by_run failing_schedules 1
     = Inr (Some \<lparr> sl_occurrence = finished_occurrence, sl_tenant_id = ''t1'', sl_principal_id = ''alice'' \<rparr>)"
  by (simp add: occurrence_by_run_def failing_schedules_def finished_occurrence_def materialized_occurrence_def
      sample_schedule_def dlookup_def)

lemma failing_after:
  obtains z' where "account failing_env 1 failing_world = (Inr True, z')"
  using failing_accounted by (cases "account failing_env 1 failing_world") simp

theorem run_counts_as_documented_witness:
  "\<exists>z' s'. account failing_env 1 failing_world = (Inr True, z')
     \<and> dget (so_schedules (zw_schedules z')) 70 = Some s' \<and> sd_state s' = Sched_PAUSED"
proof -
  obtain z' where z': "account failing_env 1 failing_world = (Inr True, z')" by (rule failing_after)
  have store: "zw_schedules failing_world = failing_schedules" by (simp add: failing_world_def)
  have run: "dget (rr_runs (w_runs (zw_world failing_world))) 1 = Some (sample_run 1 Run_FAILED)"
    by (simp add: failing_world_def)
  have c: "c = finished_occurrence" if "dget (so_occurrences failing_schedules) k = Some c" for k c
    using that by (simp add: failing_schedules_def split: if_splits)
  have s: "dget (so_schedules failing_schedules) 70 = Some (sample_schedule\<lparr> sd_consecutive_failures := 1 \<rparr>)"
    "dget (so_revisions failing_schedules) (70, 1) = Some sample_revision"
    by (simp_all add: failing_schedules_def sample_schedules_def)
  have f: "oc_schedule_id finished_occurrence = 70" "oc_schedule_revision finished_occurrence = 1"
      "oc_trigger finished_occurrence = Trigger_SCHEDULED" "rv_max_consecutive_failures sample_revision = 2"
      "sd_state sample_schedule = Sched_ACTIVE" "r_status (sample_run 1 Run_FAILED) = Run_FAILED"
    by (simp_all add: finished_occurrence_def materialized_occurrence_def sample_schedule_def sample_revision_def sample_run_def)
  have "schedule_repo_ok (zw_schedules failing_world)" using failing_store_ok store by simp
  from run_counts_as_documented [OF z' this, unfolded store]
  obtain c s0 r0 run0 s' where "dget (so_occurrences failing_schedules) (oc_id c) = Some c"
    "dget (so_schedules failing_schedules) (oc_schedule_id c) = Some s0"
    "dget (so_revisions failing_schedules) (oc_schedule_id c, oc_schedule_revision c) = Some r0"
    "dget (rr_runs (w_runs (zw_world failing_world))) 1 = Some run0"
    "dget (so_schedules (zw_schedules z')) (oc_schedule_id c) = Some s'"
    and st: "if oc_trigger c = Trigger_MANUAL \<or> r_status run0 = Run_CANCELLED
       then sd_consecutive_failures s' = sd_consecutive_failures s0 \<and> sd_state s' = sd_state s0
       else if r_status run0 = Run_COMPLETED then sd_consecutive_failures s' = 0 \<and> sd_state s' = sd_state s0
       else sd_consecutive_failures s' = sd_consecutive_failures s0 + 1
         \<and> sd_state s' = (if sd_state s0 = Sched_ACTIVE \<and> rv_max_consecutive_failures r0 \<le> sd_consecutive_failures s0 + 1
              then Sched_PAUSED else sd_state s0)"
    by auto
  moreover from this have "c = finished_occurrence" using c by blast
  ultimately have "s0 = sample_schedule\<lparr> sd_consecutive_failures := 1 \<rparr>" "r0 = sample_revision"
      "run0 = sample_run 1 Run_FAILED" "c = finished_occurrence" "dget (so_schedules (zw_schedules z')) 70 = Some s'"
    using run s f by simp_all
  then show ?thesis using st f z' by simp
qed

theorem run_counted_once_witness:
  "\<exists>z' y'. account failing_env 1 failing_world = (Inr True, z')
     \<and> account failing_env 1 (failing_world\<lparr> zw_process := zw_process z' \<rparr>) = (Inr False, y')"
proof -
  obtain z' where z': "account failing_env 1 failing_world = (Inr True, z')" by (rule failing_after)
  have "occurrence_by_run (zw_schedules failing_world) 1
     = Inr (Some \<lparr> sl_occurrence = finished_occurrence, sl_tenant_id = ''t1'', sl_principal_id = ''alice'' \<rparr>)"
    using failing_link by (simp add: failing_world_def)
  then show ?thesis
    using run_counted_once [OF z', of _ "failing_world\<lparr> zw_process := zw_process z' \<rparr>"] z' by auto
qed

end
