(* ===== verification/Schedule_Service.thy ===== *)
theory Schedule_Service
  imports Manual_Runs Accounting
begin

text \<open>
  The owner's side of scheduling: \<open>application/schedule_service.py\<close> with the scope check of
  \<open>application/authorization.py\<close>. The stores it only reads (jobs, MCP servers, browser profiles) and the
  digests of a request are fields of \<open>service_env\<close>. Waking the worker sends a signal whose failure is
  logged; it changes no store and is left out.
\<close>

subsection \<open>What the service reads\<close>

record job_access =
  ja_hosts :: "(string, string option) dict"
  ja_feeds :: "string set"
  ja_mcp_servers :: "string set"
  ja_model_cost :: rat

record job_grant =
  jg_id :: uuid
  jg_access :: job_access
  jg_approval_id :: "uuid option"

record job_revision =
  jr_id :: uuid
  jr_manifest_feeds :: "string set"
  jr_commit_sha :: "string option"

record job_record =
  jb_archived :: bool
  jb_revisions :: "(string, job_revision) dict"
  jb_grants :: "(string, job_grant) dict"

record mcp_server =
  ms_server_id :: string
  ms_enabled :: bool
  ms_owner_managed :: bool
  ms_required_scopes :: "string set"

datatype browser_profile_status =
  Profile_PROVISIONING | Profile_AUTHENTICATION_REQUIRED | Profile_READY | Profile_NEEDS_USER | Profile_REVOKED

record definition_limits =
  dl_max_run_timeout_seconds :: int
  dl_max_misfire_grace_seconds :: int
  dl_max_steps_per_run :: int
  dl_max_model_calls_per_run :: int
  dl_max_tool_calls_per_run :: int
  dl_max_cost_per_run :: rat

record schedule_patch =
  pt_title :: "string option"
  pt_instruction :: "string option"
  pt_cadence :: "cadence option"
  pt_mcp_servers :: "string set option"

record service_env =
  sv_schedules :: schedule_env
  sv_limits :: definition_limits
  sv_job :: "principal \<Rightarrow> string \<Rightarrow> job_record res"
  sv_mcp_server :: "string \<Rightarrow> string \<Rightarrow> mcp_server option"
  sv_browser_profile :: "uuid \<Rightarrow> principal \<Rightarrow> browser_profile_status res"
  sv_grant_id :: "uuid \<Rightarrow> uuid \<Rightarrow> uuid"
  sv_definition_hash :: "schedule_definition \<Rightarrow> string"
  sv_patch_hash :: "uuid \<Rightarrow> int \<Rightarrow> schedule_patch \<Rightarrow> string"

record schedule_record =
  sc_schedule :: schedule
  sc_revision :: schedule_revision
  sc_replayed :: bool

definition require_scope :: "principal \<Rightarrow> string \<Rightarrow> unit res" where
  "require_scope p scope = (if scope \<in> scopes p then Inr () else Inl (AuthorizationError (''missing required scope: '' @ scope)))"

definition at_least_one_field_changes :: "schedule_patch \<Rightarrow> schedule_patch res" where
  "at_least_one_field_changes patch =
     (if pt_title patch = None \<and> pt_instruction patch = None \<and> pt_cadence patch = None \<and> pt_mcp_servers patch = None
      then Inl (ValueError ''schedule update requires at least one changed field'') else Inr patch)"

subsection \<open>Definitions and revisions\<close>

definition revision_of :: "schedule \<Rightarrow> schedule_definition \<Rightarrow> principal \<Rightarrow> instant \<Rightarrow> schedule_revision res" where
  "revision_of s d p t = revision_is_consistent
     \<lparr> rv_schedule_id = sd_id s, rv_revision = sd_current_revision s, rv_title = df_title d,
       rv_instruction = df_instruction d, rv_task = df_task d, rv_agent_id = df_agent_id d,
       rv_agent_version = df_agent_version d, rv_policy_profile = df_policy_profile d,
       rv_requested_scopes = df_requested_scopes d, rv_browser_profile_id = df_browser_profile_id d,
       rv_limits = df_limits d, rv_run_timeout_seconds = df_run_timeout_seconds d, rv_cadence = df_cadence d,
       rv_timezone = definition_timezone d, rv_misfire_grace_seconds = df_misfire_grace_seconds d,
       rv_max_consecutive_failures = df_max_consecutive_failures d, rv_notify = df_notify d,
       rv_created_by_principal_id = principal_id p, rv_created_at = t, rv_call_plan = df_call_plan d,
       rv_mcp_servers = df_mcp_servers d \<rparr>"

definition definition_from_revision :: "schedule_revision \<Rightarrow> schedule_definition res" where
  "definition_from_revision r = execution_is_finite
     \<lparr> df_title = rv_title r, df_instruction = rv_instruction r, df_task = rv_task r, df_agent_id = rv_agent_id r,
       df_agent_version = rv_agent_version r, df_policy_profile = rv_policy_profile r,
       df_requested_scopes = rv_requested_scopes r, df_browser_profile_id = rv_browser_profile_id r,
       df_limits = rv_limits r, df_run_timeout_seconds = rv_run_timeout_seconds r, df_cadence = rv_cadence r,
       df_misfire_grace_seconds = rv_misfire_grace_seconds r,
       df_max_consecutive_failures = rv_max_consecutive_failures r, df_call_plan = rv_call_plan r,
       df_notify = rv_notify r, df_mcp_servers = rv_mcp_servers r \<rparr>"

subsection \<open>Validation against the deployment\<close>

definition access_is_external :: "job_access \<Rightarrow> bool" where
  "access_is_external a \<longleftrightarrow> ja_hosts a \<noteq> [] \<or> ja_feeds a \<noteq> {} \<or> ja_mcp_servers a \<noteq> {} \<or> ja_model_cost a > 0"

definition grant_covers_revision :: "service_env \<Rightarrow> job_grant \<Rightarrow> job_revision \<Rightarrow> bool" where
  "grant_covers_revision env g v \<longleftrightarrow> \<not> access_is_external (jg_access g)
     \<or> (case jg_approval_id g of None \<Rightarrow> False | Some a \<Rightarrow> jg_id g = sv_grant_id env a (jr_id v))"

definition schedule_may_name :: "mcp_server \<Rightarrow> bool" where
  "schedule_may_name m \<longleftrightarrow> ms_owner_managed m \<or> is_email_server_id (Some (ms_server_id m)) \<or> ms_server_id m = ''svp_read''"

text \<open>\<open>f"{server_id!r}"\<close>; server identifiers hold no character that \<open>repr\<close> escapes.\<close>

definition quoted :: "string \<Rightarrow> string" where
  "quoted i = [CHR 0x27] @ i @ [CHR 0x27]"

definition server_unavailable :: "string \<Rightarrow> 'a res" where
  "server_unavailable i = Inl (ScheduleValidationError ''schedule.mcp_server_unavailable''
     (''MCP server '' @ quoted i @ '' cannot be used by a schedule''))"

fun server_scopes :: "service_env \<Rightarrow> string \<Rightarrow> string list \<Rightarrow> string set res" where
  "server_scopes env tenant [] = Inr {}"
| "server_scopes env tenant (i # ids) = (case sv_mcp_server env tenant i of
      None \<Rightarrow> server_unavailable i
    | Some row \<Rightarrow>
        if \<not> ms_enabled row \<or> \<not> schedule_may_name row
        then server_unavailable i
        else rbind (server_scopes env tenant ids) (\<lambda>rest. Inr (ms_required_scopes row \<union> rest)))"

definition mcp_server_scopes :: "service_env \<Rightarrow> string \<Rightarrow> string set \<Rightarrow> string set res" where
  "mcp_server_scopes env tenant servers = server_scopes env tenant (sorted_list_of_set servers)"

definition schedule_invalid :: "string \<Rightarrow> string \<Rightarrow> 'a res" where
  "schedule_invalid reason m = Inl (ScheduleValidationError reason m)"

definition guard :: "bool \<Rightarrow> string \<Rightarrow> string \<Rightarrow> unit res" where
  "guard b reason m = (if b then schedule_invalid reason m else Inr ())"

definition validate_job ::
    "service_env \<Rightarrow> principal \<Rightarrow> schedule_definition \<Rightarrow> schedule_task option \<Rightarrow> unit res" where
  "validate_job env p d existing_task = (case df_task d of
      AgentRunTask \<Rightarrow> Inr ()
    | JobTask slug revision_id grant_id \<Rightarrow>
        rbind (require_scope p ''jobs.run'') (\<lambda>_. rbind (sv_job env p slug) (\<lambda>job.
        case (dget (jb_revisions job) (uuid_str revision_id), dget (jb_grants job) (uuid_str grant_id)) of
          (Some v, Some g) \<Rightarrow>
            if jb_archived job \<or> jr_commit_sha v = None
            then schedule_invalid ''schedule.job_unavailable'' ''Select a published job revision and its approved grant.''
            else rbind (mcp_server_scopes env (tenant_id p) (ja_mcp_servers (jg_access g))) (\<lambda>servers.
              let expected = {''jobs.run''} \<union> (if ja_feeds (jg_access g) \<noteq> {} then {''cockpit.read'', ''cockpit.write''} else {})
                    \<union> servers in
              rbind (guard (df_requested_scopes d \<noteq> expected) ''schedule.job_scopes''
                ''Job schedule scopes must match its grant.'') (\<lambda>_.
              rbind (guard (\<not> ja_feeds (jg_access g) \<subseteq> jr_manifest_feeds v) ''schedule.job_feeds''
                ''The job revision must declare the grant's feeds.'') (\<lambda>_.
              guard (Some (df_task d) \<noteq> existing_task \<and> \<not> grant_covers_revision env g v) ''schedule.job_grant_revision''
                ''The grant must be approved for the selected job revision.'')))
        | _ \<Rightarrow> schedule_invalid ''schedule.job_unavailable'' ''Select a published job revision and its approved grant.'')))"

definition validate_servers :: "service_env \<Rightarrow> principal \<Rightarrow> schedule_definition \<Rightarrow> unit res" where
  "validate_servers env p d =
     rbind (guard (is_job_task (df_task d) \<and> df_mcp_servers d \<noteq> {}) ''schedule.job_mcp_servers''
       ''A job reads the MCP servers its grant names.'') (\<lambda>_.
     rbind (mcp_server_scopes env (tenant_id p) (df_mcp_servers d)) (\<lambda>needed.
     rbind (guard (\<not> needed \<subseteq> df_requested_scopes d) ''schedule.mcp_scope_required''
       ''A schedule must request its MCP servers' scopes.'') (\<lambda>_.
     guard (\<not> is_job_task (df_task d) \<and> ''mcp.svp_read.use'' \<in> df_requested_scopes d \<and> ''svp_read'' \<notin> df_mcp_servers d)
       ''schedule.mcp_scope_unnamed'' ''A schedule must name Scale VP to hold its scope.'')))"

definition validate_browser :: "service_env \<Rightarrow> principal \<Rightarrow> schedule_definition \<Rightarrow> unit res" where
  "validate_browser env p d = (case df_browser_profile_id d of
      None \<Rightarrow> Inr ()
    | Some b \<Rightarrow> rbind (require_scope p ''browser.profile.read'') (\<lambda>_.
        rbind (guard (''browser.profile.read'' \<notin> df_requested_scopes d) ''schedule.browser_scope_required''
          ''a browser schedule must request browser.profile.read'') (\<lambda>_.
        case sv_browser_profile env b p of
          Inl (NotFoundError _) \<Rightarrow> schedule_invalid ''schedule.browser_profile_unavailable'' ''browser profile is unavailable''
        | Inl e \<Rightarrow> Inl e
        | Inr status \<Rightarrow> guard (status \<noteq> Profile_READY) ''schedule.browser_profile_unavailable'' ''browser profile is not ready'')))"

definition as_validation :: "string \<Rightarrow> unit res \<Rightarrow> unit res" where
  "as_validation reason r = (case r of Inl (ValueError m) \<Rightarrow> schedule_invalid reason m | _ \<Rightarrow> r)"

definition validate_ceilings :: "definition_limits \<Rightarrow> schedule_definition \<Rightarrow> unit res" where
  "validate_ceilings l d =
     (let exceeds = ''schedule definition exceeds tenant limits'' in
      rbind (guard (df_run_timeout_seconds d > dl_max_run_timeout_seconds l) ''schedule.run_timeout_limit'' exceeds) (\<lambda>_.
      rbind (guard (df_misfire_grace_seconds d > dl_max_misfire_grace_seconds l) ''schedule.misfire_grace_limit'' exceeds) (\<lambda>_.
      rbind (guard (max_steps (df_limits d) > dl_max_steps_per_run l) ''schedule.max_steps_limit'' exceeds) (\<lambda>_.
      rbind (guard (max_model_calls (df_limits d) > dl_max_model_calls_per_run l) ''schedule.max_model_calls_limit'' exceeds) (\<lambda>_.
      rbind (guard (max_tool_calls (df_limits d) > dl_max_tool_calls_per_run l) ''schedule.max_tool_calls_limit'' exceeds) (\<lambda>_.
      case max_cost (df_limits d) of
        None \<Rightarrow> schedule_invalid ''schedule.max_cost_limit'' ''schedule definition must set a finite cost bound''
      | Some c \<Rightarrow> guard (c > dl_max_cost_per_run l) ''schedule.max_cost_limit'' exceeds))))))"

definition validate_definition ::
    "service_env \<Rightarrow> agent_repo \<Rightarrow> principal \<Rightarrow> schedule_definition \<Rightarrow> schedule_task option \<Rightarrow> unit res" where
  "validate_definition env agents p d existing_task =
     (let credential = td_credential (se_detectors (ze_submit (sv_schedules env))) in
      rbind (validate_job env p d existing_task) (\<lambda>_.
      rbind (validate_servers env p d) (\<lambda>_.
      rbind (validate_browser env p d) (\<lambda>_.
      rbind (as_validation ''schedule.call_plan_invalid'' (check_call_plan (df_call_plan d) (df_cadence d))) (\<lambda>_.
      rbind (as_validation ''schedule.interval_needs_feed''
        (check_interval_cadence (df_cadence d) (df_requested_scopes d))) (\<lambda>_.
      rbind (guard (\<not> df_requested_scopes d \<subseteq> scopes p) ''schedule.scope_not_granted''
        ''requested schedule scopes exceed the caller's authority'') (\<lambda>_.
      rbind (guard (credential (df_instruction d)) ''schedule.instruction_contains_credential''
        ''schedule instruction failed credential validation'') (\<lambda>_.
      rbind (guard (credential (df_title d)) ''schedule.title_contains_credential''
        ''schedule title failed credential validation'') (\<lambda>_.
      rbind (validate_ceilings (sv_limits env) d) (\<lambda>_.
      rbind (agent_get_version agents (df_agent_id d) (df_agent_version d)) (\<lambda>agent.
      guard (ag_policy_profile agent \<noteq> df_policy_profile d) ''schedule.policy_profile_mismatch''
        ''schedule policy profile does not match the pinned agent version'')))))))))))"

subsection \<open>Parts of the operations\<close>

definition expected_revision :: "schedule \<Rightarrow> int \<Rightarrow> unit res" where
  "expected_revision s n = (if n \<noteq> sd_current_revision s
     then Inl (ConflictError ''schedule revision changed'' (Some ''schedule.revision_conflict'')) else Inr ())"

definition idempotency_key_ok :: "string \<Rightarrow> string res" where
  "idempotency_key_ok k = (if k = [] \<or> py_strip k = [] \<or> length k > 255
     then Inl (ScheduleValidationError ''schedule.idempotency_key_invalid'' ''Idempotency-Key must contain 1 to 255 characters'')
     else Inr k)"

definition idempotency_mismatch :: submit_exn where
  "idempotency_mismatch = Raised (ConflictError ''schedule idempotency key was reused with different content''
     (Some ''schedule.idempotency_mismatch''))"

definition record_of :: "principal \<Rightarrow> uuid \<Rightarrow> bool \<Rightarrow> schedule_record scheduling" where
  "record_of p i replayed = pbind (pget (\<lambda>z. schedule_get (zw_schedules z) i p)) (\<lambda>found. pbind (zattempt found) (\<lambda>s.
     pbind (pget (\<lambda>z. get_revision (zw_schedules z) (sd_id s) (sd_current_revision s) p)) (\<lambda>found_revision.
     pbind (zattempt found_revision) (\<lambda>r.
       preturn \<lparr> sc_schedule = s, sc_revision = r, sc_replayed = replayed \<rparr>))))"

definition opt_text :: "('a \<Rightarrow> string) \<Rightarrow> 'a option \<Rightarrow> json" where
  "opt_text f v = (case v of None \<Rightarrow> JNull | Some a \<Rightarrow> JStr (f a))"

definition service_event ::
    "service_env \<Rightarrow> uuid \<Rightarrow> string \<Rightarrow> principal \<Rightarrow> schedule \<Rightarrow> schedule option \<Rightarrow> instant \<Rightarrow> process_event" where
  "service_event env i ty p s previous t = (let isoformat = ze_isoformat (sv_schedules env) in
     \<lparr> pe_id = i, pe_event_type = ty, pe_payload_schema_version = 1, pe_actor_type = ''principal'',
       pe_actor_id = Some (principal_id p),
       pe_payload = [(''schedule_id'', JStr (uuid_str (sd_id s))), (''revision'', JInt (sd_current_revision s)),
         (''tenant_id'', JStr (sd_tenant_id s)), (''principal_id'', JStr (sd_principal_id s)),
         (''previous_state'', opt_text (\<lambda>q. state_value (sd_state q)) previous),
         (''next_state'', JStr (state_value (sd_state s))),
         (''previous_next_fire_at'', case previous of None \<Rightarrow> JNull | Some q \<Rightarrow> opt_text isoformat (sd_next_fire_at q)),
         (''next_fire_at'', opt_text isoformat (sd_next_fire_at s))],
       pe_derivation_key = ty @ '':'' @ uuid_str (sd_id s) @ '':'' @ uuid_str i, pe_created_at = t \<rparr>)"

definition append_service_event ::
    "service_env \<Rightarrow> string \<Rightarrow> principal \<Rightarrow> schedule \<Rightarrow> schedule option \<Rightarrow> unit scheduling" where
  "append_service_event env ty p s previous = pbind (zlift new_id) (\<lambda>i. pbind (zlift now) (\<lambda>t.
     append_process (service_event env i ty p s previous t)))"

definition replace_schedule :: "schedule \<Rightarrow> schedule \<Rightarrow> schedule_revision option \<Rightarrow> unit scheduling" where
  "replace_schedule s s' r = on_schedules (\<lambda>S. rbind (schedule_replace S s s' r) (\<lambda>S'. Inr ((), S')))"

text \<open>The schedule a guarded operation starts from: owned by the caller and at the revision it names.\<close>

definition current_schedule :: "principal \<Rightarrow> uuid \<Rightarrow> int \<Rightarrow> schedule scheduling" where
  "current_schedule p i n = pbind (pget (\<lambda>z. schedule_get (zw_schedules z) i p)) (\<lambda>found. pbind (zattempt found) (\<lambda>s.
     pbind (zattempt (expected_revision s n)) (\<lambda>_. preturn s)))"

definition finish_change ::
    "service_env \<Rightarrow> string \<Rightarrow> principal \<Rightarrow> uuid \<Rightarrow> schedule \<Rightarrow> schedule \<Rightarrow> schedule_record scheduling" where
  "finish_change env ty p i s s' = pbind (replace_schedule s s' None) (\<lambda>_.
     pbind (pget (\<lambda>z. get_revision (zw_schedules z) i (sd_current_revision s') p)) (\<lambda>found. pbind (zattempt found) (\<lambda>r.
     pbind (append_service_event env ty p s' (Some s)) (\<lambda>_.
       preturn \<lparr> sc_schedule = s', sc_revision = r, sc_replayed = False \<rparr>))))"

subsection \<open>Pause, resume and cancel\<close>

definition pause_schedule :: "service_env \<Rightarrow> principal \<Rightarrow> uuid \<Rightarrow> int \<Rightarrow> schedule_record scheduling" where
  "pause_schedule env p i n = pbind (zattempt (require_scope p ''schedule.write'')) (\<lambda>_. schedule_unit (
     pbind (current_schedule p i n) (\<lambda>s.
     if sd_state s = Sched_PAUSED then record_of p i False
     else if sd_state s \<noteq> Sched_ACTIVE then refuse ''schedule cannot be paused'' (Some ''schedule.terminal'')
     else pbind (zlift now) (\<lambda>t. finish_change env ''schedule.paused'' p i s
       (s\<lparr> sd_state := Sched_PAUSED, sd_pause_reason := Some Pause_USER, sd_next_fire_at := None, sd_updated_at := t \<rparr>)))))"

definition no_future :: "string \<Rightarrow> 'a scheduling" where
  "no_future m = praise (Raised (ScheduleValidationError ''schedule.no_future_occurrence'' m))"

definition resume_schedule :: "service_env \<Rightarrow> principal \<Rightarrow> uuid \<Rightarrow> int \<Rightarrow> schedule_record scheduling" where
  "resume_schedule env p i n = pbind (zattempt (require_scope p ''schedule.write'')) (\<lambda>_. schedule_unit (
     pbind (current_schedule p i n) (\<lambda>s.
     if sd_state s = Sched_ACTIVE then record_of p i False
     else if sd_state s \<noteq> Sched_PAUSED then refuse ''schedule cannot be resumed'' (Some ''schedule.terminal'')
     else pbind (pget (\<lambda>z. get_revision (zw_schedules z) i (sd_current_revision s) p)) (\<lambda>found. pbind (zattempt found) (\<lambda>r.
       pbind (zlift now) (\<lambda>t. pbind (zattempt (next_after (ze_zones (sv_schedules env)) (rv_cadence r) t)) (\<lambda>next_fire.
       case next_fire of
         None \<Rightarrow> no_future ''schedule has no future occurrence''
       | Some f \<Rightarrow>
           let s' = s\<lparr> sd_state := Sched_ACTIVE, sd_pause_reason := None, sd_next_fire_at := Some f, sd_updated_at := t \<rparr> in
           pbind (replace_schedule s s' None) (\<lambda>_.
           pbind (append_service_event env ''schedule.resumed'' p s' (Some s)) (\<lambda>_.
             preturn \<lparr> sc_schedule = s', sc_revision = r, sc_replayed = False \<rparr>)))))))))"

definition cancel_schedule :: "service_env \<Rightarrow> principal \<Rightarrow> uuid \<Rightarrow> int \<Rightarrow> schedule_record scheduling" where
  "cancel_schedule env p i n = pbind (zattempt (require_scope p ''schedule.cancel'')) (\<lambda>_. schedule_unit (
     pbind (current_schedule p i n) (\<lambda>s.
     if sd_state s = Sched_CANCELLED then record_of p i False
     else if sd_state s = Sched_COMPLETED then refuse ''completed schedule cannot be cancelled'' (Some ''schedule.terminal'')
     else pbind (zlift now) (\<lambda>t. finish_change env ''schedule.cancelled'' p i s
       (s\<lparr> sd_state := Sched_CANCELLED, sd_pause_reason := None, sd_next_fire_at := None, sd_updated_at := t \<rparr>)))))"

subsection \<open>Create, update and patch\<close>

definition schedule_key_record :: "principal \<Rightarrow> string \<Rightarrow> string \<Rightarrow> uuid \<Rightarrow> instant \<Rightarrow> schedule_idempotency" where
  "schedule_key_record p key hash i t = \<lparr> sx_tenant_id = tenant_id p, sx_principal_id = principal_id p, sx_key = key,
     sx_request_hash = hash, sx_schedule_id = i, sx_created_at = t \<rparr>"

definition store_idempotency :: "schedule_idempotency \<Rightarrow> unit scheduling" where
  "store_idempotency x = on_schedules (\<lambda>S. rbind (create_schedule_idempotency S x) (\<lambda>(_, S'). Inr ((), S')))"

definition created_schedule :: "uuid \<Rightarrow> principal \<Rightarrow> instant \<Rightarrow> instant \<Rightarrow> schedule" where
  "created_schedule i p next_fire t = \<lparr> sd_id = i, sd_tenant_id = tenant_id p, sd_principal_id = principal_id p,
     sd_state = Sched_ACTIVE, sd_pause_reason = None, sd_current_revision = 1, sd_next_fire_at = Some next_fire,
     sd_consecutive_failures = 0, sd_created_at = t, sd_updated_at = t \<rparr>"

definition create_once ::
    "service_env \<Rightarrow> principal \<Rightarrow> schedule_definition \<Rightarrow> string \<Rightarrow> string \<Rightarrow> schedule_record scheduling" where
  "create_once env p d key hash = schedule_unit (
     pbind (pget (\<lambda>z. get_schedule_idempotency (zw_schedules z) (tenant_id p) (principal_id p) key)) (\<lambda>existing.
     case existing of
       Some x \<Rightarrow> if sx_request_hash x \<noteq> hash then praise idempotency_mismatch else record_of p (sx_schedule_id x) True
     | None \<Rightarrow>
         pbind (pget (\<lambda>z. validate_definition env (w_agents (zw_world z)) p d None)) (\<lambda>valid. pbind (zattempt valid) (\<lambda>_.
         pbind (zlift now) (\<lambda>t. pbind (zattempt (next_after (ze_zones (sv_schedules env)) (df_cadence d) (t - 1))) (\<lambda>next_fire.
         case next_fire of
           None \<Rightarrow> no_future ''schedule cadence has no occurrence at or after creation''
         | Some f \<Rightarrow> pbind (zlift new_id) (\<lambda>i.
             let s = created_schedule i p f t in
             pbind (zattempt (revision_of s d p t)) (\<lambda>r.
             pbind (on_schedules (\<lambda>S. rbind (schedule_create S s r) (\<lambda>S'. Inr ((), S')))) (\<lambda>_.
             pbind (store_idempotency (schedule_key_record p key hash i t)) (\<lambda>_.
             pbind (append_service_event env ''schedule.created'' p s None) (\<lambda>_.
               preturn \<lparr> sc_schedule = s, sc_revision = r, sc_replayed = False \<rparr>)))))))))))"

text \<open>\<open>except ConflictError\<close>: the handler sees the exception and the state it left.\<close>

definition on_conflict :: "'a scheduling \<Rightarrow> (submit_exn \<Rightarrow> 'a scheduling) \<Rightarrow> 'a scheduling" where
  "on_conflict m handler z = (case m z of
      (Inl (Raised (ConflictError msg reason)), z') \<Rightarrow> handler (Raised (ConflictError msg reason)) z'
    | other \<Rightarrow> other)"

definition create_schedule :: "service_env \<Rightarrow> principal \<Rightarrow> schedule_definition \<Rightarrow> string \<Rightarrow> schedule_record scheduling" where
  "create_schedule env p d given_key =
     pbind (zattempt (require_scope p ''schedule.write'')) (\<lambda>_. pbind (zattempt (idempotency_key_ok given_key)) (\<lambda>key.
     let hash = sv_definition_hash env d in
     on_conflict (create_once env p d key hash) (\<lambda>e. schedule_unit (
       pbind (pget (\<lambda>z. get_schedule_idempotency (zw_schedules z) (tenant_id p) (principal_id p) key)) (\<lambda>existing.
       case existing of
         None \<Rightarrow> praise e
       | Some x \<Rightarrow> if sx_request_hash x \<noteq> hash then praise e else record_of p (sx_schedule_id x) True)))))"

definition reject_started_call_plan :: "schedule_revision \<Rightarrow> unit scheduling" where
  "reject_started_call_plan r = pbind (pget (\<lambda>z. latest_materialized_occurrence (zw_schedules z) (rv_schedule_id r))) (\<lambda>latest.
     if rv_call_plan r \<noteq> None \<and> latest \<noteq> None
     then refuse ''a call plan cannot change after its first call'' (Some ''schedule.call_plan_started'')
     else preturn ())"

definition ended :: "schedule \<Rightarrow> bool" where
  "ended s \<longleftrightarrow> sd_state s \<in> {Sched_COMPLETED, Sched_CANCELLED}"

definition job_task_of :: "schedule_revision \<Rightarrow> schedule_task option" where
  "job_task_of r = (if is_job_task (rv_task r) then Some (rv_task r) else None)"

definition updated_next_fire :: "service_env \<Rightarrow> schedule \<Rightarrow> schedule_definition \<Rightarrow> instant \<Rightarrow> string \<Rightarrow> instant option scheduling" where
  "updated_next_fire env s d t m = (if sd_state s \<noteq> Sched_ACTIVE then preturn None
     else pbind (zattempt (next_after (ze_zones (sv_schedules env)) (df_cadence d) t)) (\<lambda>next_fire.
       case next_fire of None \<Rightarrow> no_future m | Some f \<Rightarrow> preturn (Some f)))"

definition revised :: "schedule \<Rightarrow> instant option \<Rightarrow> instant \<Rightarrow> schedule" where
  "revised s next_fire t = s\<lparr> sd_current_revision := sd_current_revision s + 1, sd_next_fire_at := next_fire, sd_updated_at := t \<rparr>"

definition update_schedule ::
    "service_env \<Rightarrow> principal \<Rightarrow> uuid \<Rightarrow> int \<Rightarrow> schedule_definition \<Rightarrow> schedule_record scheduling" where
  "update_schedule env p i n d = pbind (zattempt (require_scope p ''schedule.write'')) (\<lambda>_. schedule_unit (
     pbind (current_schedule p i n) (\<lambda>s.
     if ended s then refuse ''terminal schedule cannot be updated'' (Some ''schedule.terminal'')
     else pbind (pget (\<lambda>z. get_revision (zw_schedules z) i (sd_current_revision s) p)) (\<lambda>found. pbind (zattempt found) (\<lambda>prior.
       pbind (reject_started_call_plan prior) (\<lambda>_.
       pbind (pget (\<lambda>z. validate_definition env (w_agents (zw_world z)) p d (job_task_of prior))) (\<lambda>valid. pbind (zattempt valid) (\<lambda>_.
       pbind (zlift now) (\<lambda>t.
       pbind (updated_next_fire env s d t ''schedule cadence has no occurrence at or after update'') (\<lambda>next_fire.
       let s' = revised s next_fire t in
       pbind (zattempt (revision_of s' d p t)) (\<lambda>r.
       pbind (replace_schedule s s' (Some r)) (\<lambda>_.
       pbind (append_service_event env ''schedule.updated'' p s' (Some s)) (\<lambda>_.
         preturn \<lparr> sc_schedule = s', sc_revision = r, sc_replayed = False \<rparr>)))))))))))))"

definition server_updates ::
    "service_env \<Rightarrow> principal \<Rightarrow> schedule_definition \<Rightarrow> string set \<Rightarrow> schedule_definition res" where
  "server_updates env p d servers = rbind (mcp_server_scopes env (tenant_id p) servers) (\<lambda>needed.
     Inr (d\<lparr> df_mcp_servers := servers,
       df_requested_scopes := (df_requested_scopes d - (\<lambda>i. ''mcp.'' @ i @ ''.use'') ` df_mcp_servers d) \<union> needed \<rparr>))"

definition patched :: "service_env \<Rightarrow> principal \<Rightarrow> schedule_definition \<Rightarrow> schedule_patch \<Rightarrow> schedule_definition res" where
  "patched env p d patch =
     rbind (case pt_mcp_servers patch of None \<Rightarrow> Inr d | Some servers \<Rightarrow> server_updates env p d servers) (\<lambda>d'.
     Inr (d'\<lparr> df_title := (case pt_title patch of None \<Rightarrow> df_title d | Some t \<Rightarrow> t),
       df_instruction := (case pt_instruction patch of None \<Rightarrow> df_instruction d | Some t \<Rightarrow> t),
       df_cadence := (case pt_cadence patch of None \<Rightarrow> df_cadence d | Some c \<Rightarrow> c) \<rparr>))"

definition apply_patch ::
    "service_env \<Rightarrow> principal \<Rightarrow> uuid \<Rightarrow> schedule \<Rightarrow> schedule_revision \<Rightarrow> schedule_patch \<Rightarrow> string \<Rightarrow> string \<Rightarrow>
       (schedule_record \<times> bool) scheduling" where
  "apply_patch env p i s prior patch key hash =
     pbind (zattempt (definition_from_revision prior)) (\<lambda>d0.
     pbind (zattempt (patched env p d0 patch)) (\<lambda>d.
     pbind (pget (\<lambda>z. validate_definition env (w_agents (zw_world z)) p d (job_task_of prior))) (\<lambda>valid. pbind (zattempt valid) (\<lambda>_.
     pbind (zlift now) (\<lambda>t.
     if d = d0 then pbind (store_idempotency (schedule_key_record p key hash i t)) (\<lambda>_.
       preturn (\<lparr> sc_schedule = s, sc_revision = prior, sc_replayed = False \<rparr>, False))
     else pbind (updated_next_fire env s d t ''schedule cadence has no occurrence after update'') (\<lambda>next_fire.
       let s' = revised s next_fire t in
       pbind (zattempt (revision_of s' d p t)) (\<lambda>r.
       pbind (replace_schedule s s' (Some r)) (\<lambda>_.
       pbind (store_idempotency (schedule_key_record p key hash i t)) (\<lambda>_.
       pbind (append_service_event env ''schedule.updated'' p s' (Some s)) (\<lambda>_.
         preturn (\<lparr> sc_schedule = s', sc_revision = r, sc_replayed = False \<rparr>, True)))))))))))"

definition patch_once ::
    "service_env \<Rightarrow> principal \<Rightarrow> uuid \<Rightarrow> int \<Rightarrow> schedule_patch \<Rightarrow> string \<Rightarrow> string \<Rightarrow> (schedule_record \<times> bool) scheduling" where
  "patch_once env p i n patch key hash = schedule_unit (
     pbind (pget (\<lambda>z. get_schedule_idempotency (zw_schedules z) (tenant_id p) (principal_id p) key)) (\<lambda>existing.
     case existing of
       Some x \<Rightarrow> if sx_request_hash x \<noteq> hash \<or> sx_schedule_id x \<noteq> i then praise idempotency_mismatch
         else pbind (record_of p i True) (\<lambda>r. preturn (r, False))
     | None \<Rightarrow> pbind (current_schedule p i n) (\<lambda>s.
         if ended s then refuse ''terminal schedule cannot be updated'' (Some ''schedule.terminal'')
         else pbind (pget (\<lambda>z. get_revision (zw_schedules z) i (sd_current_revision s) p)) (\<lambda>found. pbind (zattempt found) (\<lambda>prior.
           pbind (reject_started_call_plan prior) (\<lambda>_. apply_patch env p i s prior patch key hash))))))"

definition patch_schedule ::
    "service_env \<Rightarrow> principal \<Rightarrow> uuid \<Rightarrow> int \<Rightarrow> schedule_patch \<Rightarrow> string \<Rightarrow> schedule_record scheduling" where
  "patch_schedule env p i n patch given_key =
     pbind (zattempt (require_scope p ''schedule.write'')) (\<lambda>_. pbind (zattempt (idempotency_key_ok given_key)) (\<lambda>key.
     let hash = sv_patch_hash env i n patch in
     pbind (on_conflict (patch_once env p i n patch key hash) (\<lambda>e. schedule_unit (
       pbind (pget (\<lambda>z. get_schedule_idempotency (zw_schedules z) (tenant_id p) (principal_id p) key)) (\<lambda>existing.
       case existing of
         None \<Rightarrow> praise e
       | Some x \<Rightarrow> if sx_request_hash x \<noteq> hash \<or> sx_schedule_id x \<noteq> i then praise idempotency_mismatch
           else pbind (record_of p i True) (\<lambda>r. preturn (r, False)))))) (\<lambda>(r, changed). preturn r)))"

subsection \<open>Reads\<close>

definition get_schedule :: "principal \<Rightarrow> uuid \<Rightarrow> schedule_record scheduling" where
  "get_schedule p i = pbind (zattempt (require_scope p ''schedule.read'')) (\<lambda>_. schedule_unit (record_of p i False))"

end
