(* ===== verification/Schedule_Requests.thy ===== *)
theory Schedule_Requests
  imports Schedule_Service
begin

text \<open>
  What single requests of the schedule service do: definitions and revisions carry the same content in
  both directions, a request that names a revision that is not current changes nothing, and a valid
  creation is stored.
\<close>

subsection \<open>Definitions and revisions\<close>

lemma task_fits_model: "task_fits m task plan browser servers limits = Inr u \<longleftrightarrow> task_fits m' task plan browser servers limits = Inr u"
  by (simp add: task_fits_def)

lemma definition_timezone_eq: "definition_timezone d = cadence_timezone (df_cadence d)"
  by (simp add: definition_timezone_def)

lemma definition_of_revision:
  assumes "revision_of s d p t = Inr r"
  shows "definition_from_revision r = Inr d"
  using assms task_fits_model [of "''revision''" _ _ _ _ _ "()" "''definition''"]
  by (auto simp: revision_of_def revision_is_consistent_def definition_from_revision_def execution_is_finite_def
      rbind_Inr_iff split: if_splits)

lemma revision_of_definition:
  assumes "revision_is_consistent r = Inr r"
  shows "\<exists>d. definition_from_revision r = Inr d
     \<and> (\<forall>s p. sd_id s = rv_schedule_id r \<longrightarrow> sd_current_revision s = rv_revision r
          \<longrightarrow> principal_id p = rv_created_by_principal_id r \<longrightarrow> revision_of s d p (rv_created_at r) = Inr r)"
proof -
  have "task_fits ''definition'' (rv_task r) (rv_call_plan r) (rv_browser_profile_id r) (rv_mcp_servers r) (rv_limits r) = Inr ()"
      "check_call_plan (rv_call_plan r) (rv_cadence r) = Inr ()" "rv_timezone r = cadence_timezone (rv_cadence r)"
    using assms task_fits_model [of "''revision''" _ _ _ _ _ "()" "''definition''"]
    by (auto simp: revision_is_consistent_def rbind_Inr_iff split: if_splits)
  then show ?thesis
    using assms by (cases r) (auto simp: definition_from_revision_def execution_is_finite_def revision_of_def definition_timezone_eq)
qed

text \<open>
  C31. A schedule's definition survives its storage. The revision built from a definition gives back that
  definition, field by field, and every revision that passes its validators can be opened as a definition
  from which the same revision is built again: nothing is lost or made up when a patch reads the current
  revision, changes fields and stores the result.
\<close>

theorem revision_roundtrip:
  "(revision_of s d p t = Inr r \<longrightarrow> definition_from_revision r = Inr d)
   \<and> (revision_is_consistent r = Inr r \<longrightarrow> (\<exists>d. definition_from_revision r = Inr d
        \<and> (\<forall>s p. sd_id s = rv_schedule_id r \<longrightarrow> sd_current_revision s = rv_revision r
             \<longrightarrow> principal_id p = rv_created_by_principal_id r \<longrightarrow> revision_of s d p (rv_created_at r) = Inr r)))"
  using definition_of_revision revision_of_definition by blast

subsection \<open>Creation\<close>

lemma revision_of_fields:
  "revision_of s d p t = Inr r \<Longrightarrow> rv_schedule_id r = sd_id s \<and> rv_revision r = sd_current_revision s"
  by (auto simp: revision_of_def revision_is_consistent_def rbind_Inr_iff split: if_splits)

lemma create_stores:
  assumes "''schedule.write'' \<in> scopes p" and "idempotency_key_ok key = Inr key"
    and "get_schedule_idempotency (zw_schedules z) (tenant_id p) (principal_id p) key = None"
    and "validate_definition env (w_agents (zw_world z)) p d None = Inr ()"
    and "next_after (ze_zones (sv_schedules env)) (df_cadence d) (reading z - 1) = Inr (Some f)"
    and "s = created_schedule (w_ids (zw_world z) (w_ids_used (zw_world z))) p f (reading z)"
    and "revision_of s d p (reading z) = Inr r" and "dget (so_schedules (zw_schedules z)) (sd_id s) = None"
    and "dget (zw_process z) (''schedule.created:'' @ uuid_str (sd_id s) @ '':'' @ uuid_str (w_ids (zw_world z) (Suc (w_ids_used (zw_world z))))) = None"
  shows "\<exists>z'. create_schedule env p d key z = (Inr \<lparr> sc_schedule = s, sc_revision = r, sc_replayed = False \<rparr>, z')
    \<and> zw_schedules z' = (zw_schedules z)\<lparr> so_schedules := dset (sd_id s) s (so_schedules (zw_schedules z)),
        so_revisions := dset (sd_id s, 1) r (so_revisions (zw_schedules z)),
        so_idempotency := dset (tenant_id p, principal_id p, key)
          (schedule_key_record p key (sv_definition_hash env d) (sd_id s) (reading z)) (so_idempotency (zw_schedules z)) \<rparr>"
proof -
  have s: "sd_current_revision s = 1" "schedule_owner s = (tenant_id p, principal_id p)" "sd_id s = w_ids (zw_world z) (w_ids_used (zw_world z))"
    by (simp_all add: assms(6) created_schedule_def schedule_owner_def)
  have r: "rv_schedule_id r = sd_id s" "rv_revision r = 1" using revision_of_fields [OF assms(7)] s(1) by simp_all
  show ?thesis
    using assms(1-5,7-9) s r assms(6) [symmetric]
    by (simp add: create_schedule_def require_scope_def zattempt_def pbind_def on_conflict_def create_once_def schedule_unit_def
        zlift_def now_def new_id_def enter_unit_def on_schedules_def schedule_create_def dhas_iff store_idempotency_def
        create_schedule_idempotency_def schedule_key_record_def get_schedule_idempotency_def append_service_event_def
        append_process_def process_append_def service_event_def Let_def)
qed

subsection \<open>Stale requests\<close>

lemma current_schedule_run:
  "current_schedule p i n z = (case schedule_get (zw_schedules z) i p of
      Inl e \<Rightarrow> (Inl (Raised e), z)
    | Inr s \<Rightarrow> (case expected_revision s n of Inl e \<Rightarrow> (Inl (Raised e), z) | Inr _ \<Rightarrow> (Inr s, z)))"
  by (simp add: current_schedule_def pbind_def zattempt_def split: sum.split)

definition revision_conflict :: submit_exn where
  "revision_conflict = Raised (ConflictError ''schedule revision changed'' (Some ''schedule.revision_conflict''))"

text \<open>What a refused request leaves: the schedule store, the process log and the notices.\<close>

definition nothing_changed :: "schedule_world \<Rightarrow> schedule_world \<Rightarrow> bool" where
  "nothing_changed z z' \<longleftrightarrow> zw_schedules z' = zw_schedules z \<and> zw_process z' = zw_process z \<and> zw_notices z' = zw_notices z
     \<and> w_runs (zw_world z') = w_runs (zw_world z) \<and> w_sessions (zw_world z') = w_sessions (zw_world z)"

lemma unit_refused:
  assumes "\<And>z. zw_schedules z = S \<Longrightarrow> body z = (Inl e, z)" and "zw_schedules z = S"
  shows "\<exists>z'. schedule_unit body z = (Inl e, z') \<and> nothing_changed z z'"
  using assms by (simp add: schedule_unit_def nothing_changed_def abort_unit_def enter_unit_def)

lemma stale_refused:
  assumes "schedule_get (zw_schedules z) i p = Inr s" and "n \<noteq> sd_current_revision s"
  shows "\<exists>z'. schedule_unit (pbind (current_schedule p i n) f) z = (Inl revision_conflict, z') \<and> nothing_changed z z'"
  by (rule unit_refused [OF _ refl])
    (use assms in \<open>simp add: pbind_def current_schedule_run expected_revision_def revision_conflict_def\<close>)

text \<open>
  C32. A request that names a revision that is not the schedule's current one is refused. Pausing, resuming,
  cancelling or updating from what the owner saw before somebody else's change raises the revision
  conflict and leaves schedules, log, notices, runs and sessions as they are.
\<close>

theorem stale_revision_refused:
  assumes "schedule_get (zw_schedules z) i p = Inr s" and "n \<noteq> sd_current_revision s"
    and "''schedule.write'' \<in> scopes p" "''schedule.cancel'' \<in> scopes p"
  shows "(\<exists>z'. pause_schedule env p i n z = (Inl revision_conflict, z') \<and> nothing_changed z z')
    \<and> (\<exists>z'. resume_schedule env p i n z = (Inl revision_conflict, z') \<and> nothing_changed z z')
    \<and> (\<exists>z'. cancel_schedule env p i n z = (Inl revision_conflict, z') \<and> nothing_changed z z')
    \<and> (\<exists>z'. update_schedule env p i n d z = (Inl revision_conflict, z') \<and> nothing_changed z z')"
  using stale_refused [OF assms(1,2)] assms(3,4)
  by (intro conjI) (simp_all add: pause_schedule_def resume_schedule_def cancel_schedule_def update_schedule_def require_scope_def zattempt_def)

subsection \<open>Witnesses\<close>

definition schedule_user :: principal where
  "schedule_user = alice\<lparr> scopes := {''schedule.read'', ''schedule.write'', ''schedule.cancel''} \<rparr>"

definition sample_service_env :: service_env where
  "sample_service_env = \<lparr> sv_schedules = sample_schedule_env,
     sv_limits = \<lparr> dl_max_run_timeout_seconds = 3600, dl_max_misfire_grace_seconds = 3600, dl_max_steps_per_run = 1000,
       dl_max_model_calls_per_run = 1000, dl_max_tool_calls_per_run = 1000, dl_max_cost_per_run = 10 \<rparr>,
     sv_job = (\<lambda>_ _. Inl (NotFoundError ''job not found'')), sv_mcp_server = (\<lambda>_ _. None),
     sv_browser_profile = (\<lambda>_ _. Inl (NotFoundError ''profile not found'')), sv_grant_id = (\<lambda>a _. a),
     sv_definition_hash = df_title, sv_patch_hash = (\<lambda>_ _ patch. case pt_title patch of None \<Rightarrow> ''none'' | Some t \<Rightarrow> t) \<rparr>"

definition sample_definition :: schedule_definition where
  "sample_definition = \<lparr> df_title = ''report'', df_instruction = ''write the report'', df_task = AgentRunTask,
     df_agent_id = 9, df_agent_version = ''1'', df_policy_profile = ''default'', df_requested_scopes = {},
     df_browser_profile_id = None, df_limits = default_run_limits\<lparr> max_cost := Some 1 \<rparr>, df_run_timeout_seconds = 60,
     df_cadence = OnceCadence 90000000, df_misfire_grace_seconds = 30, df_max_consecutive_failures = 2,
     df_call_plan = None, df_notify = EVERY_REPORT, df_mcp_servers = {} \<rparr>"

definition blank_world :: schedule_world where
  "blank_world = sample_schedule_world\<lparr> zw_schedules := empty_schedule_repo \<rparr>"

lemma sample_valid:
  "validate_definition sample_service_env (w_agents (zw_world blank_world)) schedule_user sample_definition None = Inr ()"
  by code_simp

lemma sample_next_fire:
  "next_after (ze_zones (sv_schedules sample_service_env)) (df_cadence sample_definition) (80000000 - 1) = Inr (Some 90000000)"
  by code_simp

definition sample_created :: schedule where
  "sample_created = created_schedule 70 schedule_user 90000000 80000000"

lemma sample_revision_made: "is_ok (revision_of sample_created sample_definition schedule_user 80000000)"
  by code_simp

theorem revision_roundtrip_witness:
  "\<exists>r. revision_of sample_created sample_definition schedule_user 80000000 = Inr r
     \<and> definition_from_revision r = Inr sample_definition"
  using revision_roundtrip sample_revision_made by (auto simp: is_ok_def split: sum.splits)

lemma sample_creates:
  obtains z' r where "create_schedule sample_service_env schedule_user sample_definition ''k1'' blank_world
      = (Inr \<lparr> sc_schedule = sample_created, sc_revision = r, sc_replayed = False \<rparr>, z')"
    and "zw_schedules z' = empty_schedule_repo\<lparr> so_schedules := [(70, sample_created)], so_revisions := [((70, 1), r)],
      so_idempotency := [((tenant_id schedule_user, principal_id schedule_user, ''k1''),
        schedule_key_record schedule_user ''k1'' ''report'' 70 80000000)] \<rparr>"
proof -
  obtain r where r: "revision_of sample_created sample_definition schedule_user 80000000 = Inr r"
    using sample_revision_made by (auto simp: is_ok_def split: sum.splits)
  have world: "zw_schedules blank_world = empty_schedule_repo" "reading blank_world = 80000000" "zw_process blank_world = []"
      "w_ids (zw_world blank_world) (w_ids_used (zw_world blank_world)) = 70"
    by (simp_all add: blank_world_def sample_schedule_world_def sample_world_def)
  have "idempotency_key_ok ''k1'' = Inr ''k1''" by code_simp
  moreover have "''schedule.write'' \<in> scopes schedule_user" by (simp add: schedule_user_def)
  moreover have "sd_id sample_created = 70" "sv_definition_hash sample_service_env sample_definition = ''report''"
    by (simp_all add: sample_created_def created_schedule_def sample_service_env_def sample_definition_def)
  ultimately show ?thesis
    using create_stores [of schedule_user "''k1''" blank_world sample_service_env sample_definition 90000000 sample_created r]
      sample_valid sample_next_fire r that
    by (auto simp: world sample_created_def [symmetric] get_schedule_idempotency_def empty_schedule_repo_def)
qed

theorem stale_revision_refused_witness:
  "\<exists>z z'. pause_schedule sample_service_env schedule_user 70 2 z = (Inl revision_conflict, z')
     \<and> dget (so_schedules (zw_schedules z')) 70 = Some sample_created"
proof -
  obtain z :: schedule_world and r where z: "zw_schedules z = empty_schedule_repo\<lparr> so_schedules := [(70, sample_created)], so_revisions := [((70, 1), r)],
      so_idempotency := [((tenant_id schedule_user, principal_id schedule_user, ''k1''),
        schedule_key_record schedule_user ''k1'' ''report'' 70 80000000)] \<rparr>"
    by (rule sample_creates) (rule that)
  have "schedule_get (zw_schedules z) 70 schedule_user = Inr sample_created" "2 \<noteq> sd_current_revision sample_created"
      "''schedule.write'' \<in> scopes schedule_user" "''schedule.cancel'' \<in> scopes schedule_user"
    by (simp_all add: z schedule_get_def sample_created_def created_schedule_def schedule_owner_def owned_by_def schedule_user_def)
  then obtain z' where z': "pause_schedule sample_service_env schedule_user 70 2 z = (Inl revision_conflict, z')" "nothing_changed z z'"
    using stale_revision_refused by blast
  then have "dget (so_schedules (zw_schedules z')) 70 = Some sample_created" using z by (simp add: nothing_changed_def)
  then show ?thesis using z'(1) by blast
qed

end
