(* ===== verification/Schedule_Laws.thy ===== *)
theory Schedule_Laws
  imports Schedule_Requests
begin

text \<open>
  What no part of scheduling can do to a stored schedule. The scheduler, the accountant, the manual
  paths and the owner's service are programs over one store; every one of them, on every branch and
  also when it raises half way, moves the store along \<open>lawful\<close>: revisions and occurrences are never
  changed or lost, owners never change, and an ended schedule stays ended and gains no occurrence.
\<close>

subsection \<open>Lawful changes\<close>

text \<open>
  The conditions of \<open>Schedule.state_is_consistent\<close> that do not compare clock readings. Schedules are changed
  by \<open>model_copy\<close>, which runs no validator.
\<close>

definition state_fits :: "schedule \<Rightarrow> bool" where
  "state_fits s \<longleftrightarrow> (sd_state s = Sched_PAUSED \<longleftrightarrow> sd_pause_reason s \<noteq> None) \<and> (ended s \<longrightarrow> sd_next_fire_at s = None)"

lemma state_fits_iff:
  "state_fits s \<longleftrightarrow> state_is_consistent s \<in> {Inr s, Inl (ValueError ''schedule updated_at precedes created_at'')}"
  by (auto simp: state_fits_def state_is_consistent_def ended_def)

definition allowed :: "schedule \<Rightarrow> schedule \<Rightarrow> bool" where
  "allowed s s' \<longleftrightarrow> sd_id s' = sd_id s \<and> schedule_owner s' = schedule_owner s
     \<and> sd_current_revision s \<le> sd_current_revision s'
     \<and> (ended s \<longrightarrow> sd_state s' = sd_state s \<and> sd_current_revision s' = sd_current_revision s
          \<and> sd_next_fire_at s' = sd_next_fire_at s)
     \<and> (state_fits s \<longrightarrow> state_fits s')"

lemma allowed_refl [simp]: "allowed s s"
  by (simp add: allowed_def)

lemma allowed_trans: "allowed s s' \<Longrightarrow> allowed s' s'' \<Longrightarrow> allowed s s''"
  by (auto simp: allowed_def ended_def)

definition store_evolves :: "schedule_repo \<Rightarrow> schedule_repo \<Rightarrow> bool" where
  "store_evolves S S' \<longleftrightarrow>
     (\<forall>i s. dget (so_schedules S) i = Some s \<longrightarrow> (\<exists>s'. dget (so_schedules S') i = Some s' \<and> allowed s s'))
     \<and> (\<forall>k r. dget (so_revisions S) k = Some r \<longrightarrow> dget (so_revisions S') k = Some r)
     \<and> (\<forall>k c. dget (so_occurrences S) k = Some c \<longrightarrow> dget (so_occurrences S') k = Some c)
     \<and> (\<forall>k c s. dget (so_occurrences S') k = Some c \<longrightarrow> dget (so_schedules S) (oc_schedule_id c) = Some s \<longrightarrow> ended s \<longrightarrow>
          dget (so_occurrences S) k = Some c)
     \<and> (\<forall>k x. dget (so_idempotency S) k = Some x \<longrightarrow> dget (so_idempotency S') k = Some x)"

lemma store_evolves_refl [simp]: "store_evolves S S"
  by (simp add: store_evolves_def)

lemma store_evolvesD:
  assumes "store_evolves S S'"
  shows "dget (so_schedules S) i = Some s \<Longrightarrow> \<exists>s'. dget (so_schedules S') i = Some s' \<and> allowed s s'"
    and "dget (so_revisions S) k = Some r \<Longrightarrow> dget (so_revisions S') k = Some r"
    and "dget (so_occurrences S) j = Some c \<Longrightarrow> dget (so_occurrences S') j = Some c"
    and "dget (so_occurrences S') j = Some c \<Longrightarrow> dget (so_schedules S) (oc_schedule_id c) = Some s \<Longrightarrow> ended s \<Longrightarrow>
      dget (so_occurrences S) j = Some c"
    and "dget (so_idempotency S) m = Some x \<Longrightarrow> dget (so_idempotency S') m = Some x"
  using assms unfolding store_evolves_def by blast+

lemma ended_allowed: "allowed s s' \<Longrightarrow> ended s \<Longrightarrow> ended s'"
  by (auto simp: allowed_def ended_def)

lemma store_evolves_trans:
  assumes a: "store_evolves S S'" and b: "store_evolves S' S''"
  shows "store_evolves S S''"
  unfolding store_evolves_def
proof (intro conjI allI impI)
  fix i s assume "dget (so_schedules S) i = Some s"
  then show "\<exists>s''. dget (so_schedules S'') i = Some s'' \<and> allowed s s''"
    using store_evolvesD(1) [OF a] store_evolvesD(1) [OF b] allowed_trans by metis
next
  fix k c s assume c: "dget (so_occurrences S'') k = Some c" "dget (so_schedules S) (oc_schedule_id c) = Some s" "ended s"
  obtain s' where s': "dget (so_schedules S') (oc_schedule_id c) = Some s'" "ended s'"
    using store_evolvesD(1) [OF a c(2)] ended_allowed c(3) by metis
  show "dget (so_occurrences S) k = Some c"
    by (rule store_evolvesD(4) [OF a store_evolvesD(4) [OF b c(1) s'] c(2,3)])
qed (use store_evolvesD(2,3,5) [OF a] store_evolvesD(2,3,5) [OF b] in simp_all)

definition rows_valid :: "schedule_repo \<Rightarrow> bool" where
  "rows_valid S \<longleftrightarrow> (\<forall>i s. dget (so_schedules S) i = Some s \<longrightarrow> state_fits s)
     \<and> (\<forall>k r. dget (so_revisions S) k = Some r \<longrightarrow> revision_is_consistent r = Inr r)
     \<and> (\<forall>k c. dget (so_occurrences S) k = Some c \<longrightarrow> new_occurrence c = Inr c)"

definition sound :: "schedule_repo \<Rightarrow> bool" where
  "sound S \<longleftrightarrow> schedule_repo_ok S \<and> rows_valid S"

definition lawful :: "schedule_world \<Rightarrow> schedule_world \<Rightarrow> bool" where
  "lawful z z' \<longleftrightarrow> (sound (zw_schedules z) \<longrightarrow>
     sound (zw_schedules z') \<and> store_evolves (zw_schedules z) (zw_schedules z'))"

interpretation lawful: evolution lawful
  by unfold_locales (auto simp: lawful_def intro: store_evolves_trans)

lemma lawful_same: "same_schedules z z' \<Longrightarrow> lawful z z'"
  by (simp add: lawful_def same_schedules_def)

lemma stays_lawful_same: "stays same_schedules m \<Longrightarrow> stays lawful m"
  by (simp add: stays_def lawful_same)

subsection \<open>Programs that hold a schedule\<close>

text \<open>
  \<open>keeps s m\<close>: started while \<open>s\<close> is stored, \<open>m\<close> is lawful and leaves \<open>s\<close> stored; \<open>moves s m\<close>: it is lawful.
\<close>

definition holds :: "schedule \<Rightarrow> schedule_world \<Rightarrow> bool" where
  "holds s z \<longleftrightarrow> sound (zw_schedules z) \<and> dget (so_schedules (zw_schedules z)) (sd_id s) = Some s"

definition keeps :: "schedule \<Rightarrow> 'a scheduling \<Rightarrow> bool" where
  "keeps s m \<longleftrightarrow> (\<forall>z. holds s z \<longrightarrow> lawful z (snd (m z)) \<and> holds s (snd (m z)))"

definition moves :: "schedule \<Rightarrow> 'a scheduling \<Rightarrow> bool" where
  "moves s m \<longleftrightarrow> (\<forall>z. holds s z \<longrightarrow> lawful z (snd (m z)))"

lemma keeps_same: "stays same_schedules m \<Longrightarrow> keeps s m"
  by (auto simp: stays_def keeps_def holds_def same_schedules_def lawful_def)

lemma moves_keeps: "keeps s m \<Longrightarrow> moves s m"
  by (simp add: keeps_def moves_def)

lemma keeps_bind:
  assumes "keeps s m" and "\<And>a. keeps s (f a)"
  shows "keeps s (pbind m f)"
  unfolding keeps_def
proof (intro allI impI)
  fix z assume z: "holds s z"
  obtain r z1 where m: "m z = (r, z1)" by fastforce
  have z1: "lawful z z1" "holds s z1" using assms(1) z m unfolding keeps_def by (metis snd_conv)+
  show "lawful z (snd (pbind m f z)) \<and> holds s (snd (pbind m f z))"
  proof (cases r)
    case (Inl e)
    then show ?thesis using m z1 by simp
  next
    case (Inr a)
    have "lawful z1 (snd (f a z1))" "holds s (snd (f a z1))" using assms(2) z1(2) by (simp_all add: keeps_def)
    then show ?thesis using m Inr z1(1) lawful.R_trans by simp
  qed
qed

lemma moves_bind:
  assumes "keeps s m" and "\<And>a. moves s (f a)"
  shows "moves s (pbind m f)"
  unfolding moves_def
proof (intro allI impI)
  fix z assume z: "holds s z"
  obtain r z1 where m: "m z = (r, z1)" by fastforce
  have z1: "lawful z z1" "holds s z1" using assms(1) z m unfolding keeps_def by (metis snd_conv)+
  show "lawful z (snd (pbind m f z))"
  proof (cases r)
    case (Inl e)
    then show ?thesis using m z1 by simp
  next
    case (Inr a)
    have "lawful z1 (snd (f a z1))" using assms(2) z1(2) by (simp add: moves_def)
    then show ?thesis using m Inr z1(1) lawful.R_trans by simp
  qed
qed

lemma moves_then:
  assumes "moves s m" and "\<And>a. stays lawful (f a)"
  shows "moves s (pbind m f)"
  unfolding moves_def
proof (intro allI impI)
  fix z assume z: "holds s z"
  obtain r z1 where m: "m z = (r, z1)" by fastforce
  have z1: "lawful z z1" using assms(1) z m unfolding moves_def by (metis snd_conv)
  show "lawful z (snd (pbind m f z))"
  proof (cases r)
    case (Inl e)
    then show ?thesis using m z1 by simp
  next
    case (Inr a)
    have "lawful z1 (snd (f a z1))" using assms(2) by (simp add: stays_def)
    then show ?thesis using m Inr z1(1) lawful.R_trans by simp
  qed
qed

lemma moves_attempt: "(\<And>a. r = Inr a \<Longrightarrow> moves s (f a)) \<Longrightarrow> moves s (pbind (zattempt r) f)"
  by (cases r) (simp_all add: zattempt_def moves_def lawful.R_refl)

lemma keeps_attempt: "(\<And>a. r = Inr a \<Longrightarrow> keeps s (f a)) \<Longrightarrow> keeps s (pbind (zattempt r) f)"
  by (cases r) (simp_all add: zattempt_def keeps_def lawful.R_refl)

lemma moves_if: "(b \<Longrightarrow> moves s m) \<Longrightarrow> (\<not> b \<Longrightarrow> moves s m') \<Longrightarrow> moves s (if b then m else m')"
  by simp

lemma moves_option: "moves s m \<Longrightarrow> (\<And>x. moves s (f x)) \<Longrightarrow> moves s (case v of None \<Rightarrow> m | Some x \<Rightarrow> f x)"
  by (cases v) simp_all

lemma moves_sum: "(\<And>x. moves s (f x)) \<Longrightarrow> (\<And>x. moves s (g x)) \<Longrightarrow> moves s (case v of Inl x \<Rightarrow> f x | Inr x \<Rightarrow> g x)"
  by (cases v) simp_all

lemma moves_pair: "(\<And>x y. moves s (f x y)) \<Longrightarrow> moves s (case v of (x, y) \<Rightarrow> f x y)"
  by (cases v) simp

lemma moves_outcome: "moves s a \<Longrightarrow> moves s b \<Longrightarrow> moves s c \<Longrightarrow>
    moves s (case v of Admit_ALLOW \<Rightarrow> a | Admit_RETRY \<Rightarrow> b | Admit_REJECT \<Rightarrow> c)"
  by (cases v) simp_all

lemma moves_simple [simp]: "moves s (preturn a)" "moves s (praise e)" "moves s (pget f)" "moves s (refuse m r)"
  by (simp_all add: moves_def lawful.R_refl refuse_def)

lemma keeps_simple [simp]: "keeps s (preturn a)" "keeps s (praise e)" "keeps s (pget f)"
  by (simp_all add: keeps_def lawful.R_refl)

subsection \<open>The three writes\<close>

lemma keeps_insert:
  assumes "\<not> ended s" and "oc_schedule_id c = sd_id s" and "new_occurrence c = Inr c"
  shows "keeps s (on_schedules (\<lambda>S. occurrence_insert S c))"
  unfolding keeps_def
proof (intro allI impI)
  fix z assume z: "holds s z"
  define S where "S = zw_schedules z"
  show "lawful z (snd (on_schedules (\<lambda>S. occurrence_insert S c) z)) \<and> holds s (snd (on_schedules (\<lambda>S. occurrence_insert S c) z))"
  proof (cases "occurrence_insert S c")
    case (Inl e)
    then show ?thesis using z by (simp add: on_schedules_def S_def lawful.R_refl)
  next
    case (Inr res)
    obtain e S' where ins: "occurrence_insert S c = Inr (e, S')" using Inr by (cases res) auto
    have ok: "schedule_repo_ok S" "dget (so_schedules S) (sd_id s) = Some s" "rows_valid S"
      using z by (simp_all add: holds_def S_def sound_def)
    have "store_evolves S S' \<and> so_schedules S' = so_schedules S \<and> rows_valid S'"
      using ins ok(1)
    proof (cases rule: occurrence_insert_cases)
      case fresh
      then show ?thesis using assms ok(2,3) by (auto simp: store_evolves_def rows_valid_def)
    qed (use ok(3) in simp)
    then show ?thesis
      using ins z occurrence_insert_ok [OF ins ok(1)] by (simp add: on_schedules_def lawful_def holds_def S_def sound_def)
  qed
qed

lemma replaced_evolves:
  assumes "dget (so_schedules S) (sd_id s) = Some s" and "allowed s s'"
    and "so_schedules S' = dset (sd_id s) s' (so_schedules S)" "so_occurrences S' = so_occurrences S"
    and same: "so_idempotency S' = so_idempotency S"
    and "\<And>k r. dget (so_revisions S) k = Some r \<Longrightarrow> dget (so_revisions S') k = Some r"
    and "\<And>k r. dget (so_revisions S') k = Some r \<Longrightarrow> dget (so_revisions S) k = Some r \<or> revision_is_consistent r = Inr r"
  shows "store_evolves S S'" and "rows_valid S \<Longrightarrow> rows_valid S'"
proof -
  show "store_evolves S S'" using assms(1-6) by (auto simp: store_evolves_def)
  assume valid: "rows_valid S"
  have "state_fits t" if "dget (so_schedules S') i = Some t" for i t
    using that valid assms(1-3) by (auto simp: rows_valid_def allowed_def split: if_splits)
  moreover have "revision_is_consistent r = Inr r" if "dget (so_revisions S') k = Some r" for k r
    using assms(7) [OF that] valid unfolding rows_valid_def by blast
  ultimately show "rows_valid S'" using valid assms(4) by (simp add: rows_valid_def)
qed

lemma moves_advance:
  assumes "allowed s s'"
  shows "moves s (on_schedules (\<lambda>S. rbind (advance S s s') (\<lambda>S'. Inr ((), S'))))"
  unfolding moves_def
proof (intro allI impI)
  fix z assume z: "holds s z"
  show "lawful z (snd (on_schedules (\<lambda>S. rbind (advance S s s') (\<lambda>S'. Inr ((), S'))) z))"
  proof (cases "advance (zw_schedules z) s s'")
    case (Inl e)
    then show ?thesis by (simp add: on_schedules_def lawful.R_refl)
  next
    case (Inr S')
    have S': "dget (so_schedules (zw_schedules z)) (sd_id s) = Some s"
      "so_schedules S' = dset (sd_id s) s' (so_schedules (zw_schedules z))"
      "so_occurrences S' = so_occurrences (zw_schedules z)" "so_idempotency S' = so_idempotency (zw_schedules z)"
      "so_revisions S' = so_revisions (zw_schedules z)"
      using Inr z assms by (auto simp: advance_def holds_def allowed_def split: if_splits)
    have "store_evolves (zw_schedules z) S' \<and> (rows_valid (zw_schedules z) \<longrightarrow> rows_valid S')"
      using replaced_evolves [OF S'(1) assms S'(2-4)] S'(5) by simp
    then show ?thesis using Inr advance_ok [OF Inr] by (simp add: on_schedules_def lawful_def sound_def)
  qed
qed

lemma moves_replace:
  assumes "allowed s s'" and "\<And>v. r = Some v \<Longrightarrow> revision_is_consistent v = Inr v"
  shows "moves s (replace_schedule s s' r)"
  unfolding moves_def
proof (intro allI impI)
  fix z assume z: "holds s z"
  show "lawful z (snd (replace_schedule s s' r z))"
  proof (cases "schedule_replace (zw_schedules z) s s' r")
    case (Inl e)
    then show ?thesis by (simp add: replace_schedule_def on_schedules_def lawful.R_refl)
  next
    case (Inr S')
    have S': "dget (so_schedules (zw_schedules z)) (sd_id s) = Some s"
      "so_schedules S' = dset (sd_id s) s' (so_schedules (zw_schedules z))"
      "so_occurrences S' = so_occurrences (zw_schedules z)" "so_idempotency S' = so_idempotency (zw_schedules z)"
      using Inr z assms(1)
      by (auto simp: schedule_replace_def holds_def allowed_def split: if_splits option.splits)
    have rev: "dget (so_revisions (zw_schedules z)) k = Some v \<Longrightarrow> dget (so_revisions S') k = Some v"
      "dget (so_revisions S') k = Some v \<Longrightarrow> dget (so_revisions (zw_schedules z)) k = Some v \<or> revision_is_consistent v = Inr v" for k v
      using Inr assms(2) by (auto simp: schedule_replace_def dhas_iff split: if_splits option.splits)
    have "store_evolves (zw_schedules z) S' \<and> (rows_valid (zw_schedules z) \<longrightarrow> rows_valid S')"
      using replaced_evolves [OF S'(1) assms(1) S'(2-4) rev] by simp
    then show ?thesis using Inr schedule_replace_ok [OF Inr] by (simp add: replace_schedule_def on_schedules_def lawful_def sound_def)
  qed
qed

subsection \<open>The scheduler\<close>

lemma new_occurrence_Inr: "new_occurrence c = Inr c' \<Longrightarrow> c' = c \<and> new_occurrence c = Inr c"
  by (auto simp: new_occurrence_def manual_key_matches_trigger_def disposition_is_consistent_def rbind_Inr_iff
      split: if_splits option.splits)

lemma allowed_advanced: "\<not> ended s \<Longrightarrow> allowed s (advanced_schedule s r next_fire t failed awaiting)"
  by (auto simp: allowed_def advanced_schedule_def Let_def schedule_owner_def state_fits_def ended_def)

lemmas keeps_lift = keeps_same [OF stays_zlift_schedules]
lemmas keeps_event = keeps_same [OF stays_events_schedules(1)]

lemma moves_record_failure:
  assumes "\<not> ended s"
  shows "moves s (record_failure env s r fired next_fire t d reason v inc nb)"
proof -
  have "keeps s (on_schedules (\<lambda>S. occurrence_insert S c))" if "new_occurrence (failed_occurrence i s r fired t d reason v) = Inr c" for i c
    using new_occurrence_Inr [OF that] assms by (auto intro!: keeps_insert simp: failed_occurrence_def)
  then show ?thesis
    unfolding record_failure_def Let_def
    by (intro moves_bind [OF keeps_lift] moves_attempt moves_bind [of s "on_schedules f" for f] moves_bind [OF keeps_event]
        moves_bind [OF keeps_same] moves_then [OF moves_advance [OF allowed_advanced [OF assms]]] lawful.stays_return)
      (auto intro!: schedules_kept_laws stays_notify_schedules)
qed

lemma keeps_start_run:
  assumes "\<not> ended s"
  shows "keeps s (start_run env s r agent authority fired t trigger key instruction given metadata reporting)"
proof -
  have "keeps s (on_schedules (\<lambda>S. occurrence_insert S c))"
    if "new_occurrence (materialized_occurrence i sid run_id s r authority fired t trigger key) = Inr c" for i sid run_id c
    using new_occurrence_Inr [OF that] assms by (auto intro!: keeps_insert simp: materialized_occurrence_def)
  then show ?thesis
    unfolding start_run_def Let_def
    by (intro keeps_bind [OF keeps_lift] keeps_attempt keeps_bind [of s "on_schedules f" for f] keeps_simple) auto
qed

lemma moves_start_scheduled:
  assumes "\<not> ended s"
  shows "moves s (start_scheduled env s r agent authority fired next_fire t step n)"
  unfolding start_scheduled_def Let_def
  by (intro moves_attempt moves_bind [OF keeps_start_run [OF assms]] moves_bind [OF keeps_event]
      moves_then [OF moves_advance [OF allowed_advanced [OF assms]]] lawful.stays_return)

lemma moves_fire_admitted:
  assumes "\<not> ended s"
  shows "moves s (fire_admitted env s r agent authority fired next_fire t)"
  unfolding fire_admitted_def
  by (intro moves_if moves_start_scheduled [OF assms] moves_bind [OF keeps_same [OF stays_events_schedules(4)]]
      moves_bind [OF keeps_simple(3)] moves_option moves_record_failure [OF assms] moves_attempt)

lemma moves_fire_authorized:
  assumes "\<not> ended s"
  shows "moves s (fire_authorized env s r authority fired next_fire t)"
  unfolding fire_authorized_def Let_def
  by (intro moves_if moves_bind [OF keeps_simple(3)] moves_option moves_sum moves_outcome moves_attempt moves_simple
      moves_then [OF moves_record_failure [OF assms]] moves_then [OF moves_fire_admitted [OF assms]] lawful.stays_return)

lemma moves_fire:
  assumes "\<not> ended s"
  shows "moves s (fire env s r fired next_fire t)"
  unfolding fire_def
  by (intro moves_if moves_bind [OF keeps_simple(3)] moves_bind [OF keeps_same [OF stays_events_schedules(3)]] moves_option
      moves_then [OF moves_record_failure [OF assms]] moves_fire_authorized [OF assms] lawful.stays_return)

lemma moves_fire_due:
  assumes "\<not> ended s"
  shows "moves s (fire_due env s r t instant)"
  unfolding fire_due_def
  by (cases instant; cases "sd_next_fire_at s")
    (auto intro!: moves_bind [OF keeps_simple(3)] moves_attempt moves_option
      moves_bind [OF keeps_same [OF stays_events_schedules(2)]] moves_fire [OF assms])

text \<open>A program that first reads a schedule by its identifier.\<close>

lemma stays_reading:
  assumes "\<And>z s. sound (zw_schedules z) \<Longrightarrow> g z = Some s \<Longrightarrow> holds s z \<and> P s"
    and "\<And>s. P s \<Longrightarrow> moves s (f s)" and "stays lawful m"
  shows "stays lawful (pbind (pget g) (\<lambda>found. case found of None \<Rightarrow> m | Some s \<Rightarrow> f s))"
  unfolding stays_def
proof
  fix z
  show "lawful z (snd (pbind (pget g) (\<lambda>found. case found of None \<Rightarrow> m | Some s \<Rightarrow> f s) z))"
  proof (cases "sound (zw_schedules z)")
    case True
    then show ?thesis using assms by (auto simp: moves_def stays_def split: option.splits)
  qed (simp add: lawful_def)
qed

lemma stays_getting:
  assumes "\<And>z s. sound (zw_schedules z) \<Longrightarrow> g z = Inr s \<Longrightarrow> holds s z" and "\<And>s. moves s (f s)"
  shows "stays lawful (pbind (pget g) (\<lambda>found. pbind (zattempt found) f))"
  unfolding stays_def
proof
  fix z
  show "lawful z (snd (pbind (pget g) (\<lambda>found. pbind (zattempt found) f) z))"
  proof (cases "sound (zw_schedules z)")
    case True
    then show ?thesis using assms by (cases "g z") (auto simp: moves_def zattempt_def lawful.R_refl)
  qed (simp add: lawful_def)
qed

lemma holds_stored:
  assumes "sound (zw_schedules z)" and "dget (so_schedules (zw_schedules z)) i = Some s"
  shows "holds s z"
  using assms keyed_dget [of sd_id "so_schedules (zw_schedules z)" i s]
  by (auto simp: holds_def sound_def schedule_repo_ok_def tables_keyed_def)

lemma holds_get: "sound (zw_schedules z) \<Longrightarrow> schedule_get (zw_schedules z) i p = Inr s \<Longrightarrow> holds s z"
  by (rule holds_stored [of _ i]) (auto simp: schedule_get_def split: option.splits if_splits)

lemma holds_due: "sound (zw_schedules z) \<Longrightarrow> lock_due (zw_schedules z) i t = Some s \<Longrightarrow> holds s z \<and> \<not> ended s"
  using holds_stored by (auto simp: lock_due_Some ended_def)

lemma stays_unit:
  assumes "stays lawful body"
  shows "stays lawful (schedule_unit body)"
  unfolding stays_def
proof
  fix z
  obtain r z1 where z1: "body (z\<lparr> zw_world := enter_unit (zw_world z) \<rparr>) = (r, z1)" by fastforce
  have "lawful (z\<lparr> zw_world := enter_unit (zw_world z) \<rparr>) z1" by (rule staysD [OF assms z1])
  then show "lawful z (snd (schedule_unit body z))" using z1 by (cases r) (simp_all add: schedule_unit_def lawful_def)
qed

lemmas lawful_laws = lawful.stays_return lawful.stays_bind stays_lawful_same [OF stays_zlift_schedules]
  stays_lawful_same [OF stays_zattempt_schedules] stays_if stays_case_option stays_case_prod stays_unit

lemma lawful_materialize: "stays lawful (materialize env i)"
  unfolding materialize_def materialize_body_def
  by (intro lawful_laws stays_reading [where P = "\<lambda>s. \<not> ended s"] holds_due moves_bind [OF keeps_simple(3)] moves_attempt
      moves_fire_due)

lemma lawful_fire_each: "lawful z (snd (fire_each env ids z))"
proof (induction ids arbitrary: z)
  case (Cons i ids)
  obtain r z1 where z1: "materialize env i z = (r, z1)" by fastforce
  have "lawful z z1" by (rule staysD [OF lawful_materialize z1])
  then show ?case using z1 Cons.IH [of z1] lawful.R_trans by (cases r) (auto split: prod.splits)
qed (simp add: lawful.R_refl)

lemma lawful_run_once: "stays lawful (run_once env batch)"
proof -
  have "stays lawful (\<lambda>z. case fire_each env ids z of (n, z') \<Rightarrow> (Inr n, z'))" for ids
    using lawful_fire_each by (auto simp: stays_def split: prod.splits) (metis snd_conv)
  then show ?thesis unfolding run_once_def scan_due_def by (intro lawful_laws)
qed

subsection \<open>Runs outside the cadence\<close>

lemma stays_checks_schedules: "stays same_schedules (manual_start_checks env s r t)"
  unfolding manual_start_checks_def refuse_def
  by (auto intro!: schedules_kept_laws split: option.splits sum.splits admission_outcome.splits)

lemma keeps_start_manual: "\<not> ended s \<Longrightarrow> keeps s (start_manual env s r authority agent t key)"
  unfolding start_manual_def by (intro keeps_bind keeps_start_run keeps_event keeps_simple)

lemma moves_manual_checked:
  assumes "\<not> ended s"
  shows "moves s (manual_checked env s r t key)"
  unfolding manual_checked_def
  by (intro moves_if moves_simple moves_bind [OF keeps_simple(3)] moves_bind [OF keeps_same [OF stays_events_schedules(3)]]
      moves_bind [OF keeps_same [OF stays_checks_schedules]] moves_pair moves_bind [OF keeps_start_manual [OF assms]])

lemma not_ended: "\<not> sd_state s \<notin> {Sched_ACTIVE, Sched_PAUSED} \<Longrightarrow> \<not> ended s" "\<not> sd_state s \<noteq> Sched_ACTIVE \<Longrightarrow> \<not> ended s"
  by (auto simp: ended_def)

lemma lawful_manual_body: "stays lawful (manual_body env p i expected key t)"
  unfolding manual_body_def
  by (rule stays_getting [OF holds_get], assumption+)
    (intro moves_bind [OF keeps_simple(3)] moves_option moves_if moves_simple moves_attempt moves_manual_checked not_ended)

lemma lawful_materialize_manual: "stays lawful (materialize_manual env p i expected key)"
  unfolding materialize_manual_def refuse_def by (intro lawful_laws lawful_manual_body)

lemma stays_catch: "stays R m \<Longrightarrow> stays R (catch_refusal m)"
proof -
  have "snd (catch_refusal m z) = snd (m z)" for z
    by (auto simp: catch_refusal_def split: prod.split sum.split submit_exn.split error.split)
  then show "stays R m \<Longrightarrow> stays R (catch_refusal m)" by (simp add: stays_def)
qed

lemma moves_refresh_feed:
  assumes "\<not> ended s"
  shows "moves s (refresh_feed env s r t key)"
  unfolding refresh_feed_def refreshed_def
  by (intro moves_if moves_simple moves_bind [OF keeps_simple(3)] moves_bind [OF keeps_same [OF stays_events_schedules(3)]]
      moves_bind [OF keeps_same [OF stays_catch [OF stays_checks_schedules]]] moves_sum moves_pair
      moves_bind [OF keeps_start_manual [OF assms]])

lemma moves_refresh_body:
  "moves s (if sd_state s \<noteq> Sched_ACTIVE then preturn None
     else pbind (pget (\<lambda>z. get_revision (zw_schedules z) (sd_id s) (sd_current_revision s) (schedule_principal s))) (\<lambda>found.
       pbind (zattempt found) (\<lambda>r. if \<not> keeps_a_feed r then preturn None else refresh_feed env s r t key)))"
  by (intro moves_if moves_simple moves_bind [OF keeps_simple(3)] moves_attempt moves_refresh_feed not_ended)

lemma lawful_refresh_body: "stays lawful (refresh_body env p i t)"
  unfolding stays_def
proof
  fix z
  show "lawful z (snd (refresh_body env p i t z))"
  proof (cases "sound (zw_schedules z)")
    case True
    show ?thesis
    proof (cases "schedule_get (zw_schedules z) i p")
      case (Inl e)
      then show ?thesis by (cases e) (simp_all add: refresh_body_def lawful.R_refl)
    next
      case (Inr s)
      have "holds s z" by (rule holds_get [OF True Inr])
      then show ?thesis using moves_refresh_body Inr by (simp add: refresh_body_def moves_def)
    qed
  qed (simp add: lawful_def)
qed

lemma lawful_refresh_each: "stays lawful (refresh_each env p ids)"
proof (induction ids)
  case (Cons i ids)
  then show ?case unfolding refresh_each.simps refresh_one_def by (intro lawful_laws lawful_refresh_body)
qed (simp only: refresh_each.simps lawful.stays_return)

lemma lawful_refresh_feeds: "stays lawful (refresh_feeds env p)"
  unfolding refresh_feeds_def feed_schedule_ids_def by (intro lawful_laws lawful_refresh_each)

subsection \<open>Accounting\<close>

lemma allowed_accounted: "allowed s (accounted_schedule s r c run t)"
  by (auto simp: allowed_def accounted_schedule_def schedule_owner_def pauses_def state_fits_def ended_def)

lemma moves_settle: "moves s (settle env s r c run owner)"
proof -
  have "stays lawful (if b then pbind (zlift new_id) (\<lambda>k. pbind (zlift now) (\<lambda>u1. pbind (zlift now) (\<lambda>u2.
           append_process (auto_paused_event env k s c (Some (r_id run)) u1 u2)))) else preturn ())" for b
    by (rule stays_lawful_same) (intro schedules_kept_laws)
  moreover have "moves s (on_schedules (\<lambda>S. rbind (schedule_replace S s (accounted_schedule s r c run t) None) (\<lambda>S'. Inr ((), S'))))" for t
    using moves_replace [OF allowed_accounted, of None s r c run t] by (simp add: replace_schedule_def)
  ultimately show ?thesis unfolding settle_def Let_def
    by (intro moves_bind [OF keeps_lift] moves_then moves_if moves_simple lawful.stays_bind lawful.stays_return
        stays_lawful_same [OF stays_zlift_schedules] stays_lawful_same [OF stays_process_schedules]
        stays_lawful_same [OF stays_tell_schedules])
qed

lemma lawful_account: "stays lawful (account env run_id)"
proof -
  have "stays lawful (account_linked env run_id link)" for link
    unfolding account_linked_def Let_def
    by (rule lawful.stays_bind [OF lawful.stays_return(3)], rule stays_if, rule lawful.stays_return, rule stays_getting [OF holds_get],
        assumption+, intro moves_bind [OF keeps_simple(3)] moves_if moves_simple moves_attempt moves_settle)
  then show ?thesis unfolding account_def account_body_def by (intro lawful_laws)
qed

subsection \<open>The owner's service\<close>

lemma stays_service_event: "stays same_schedules (append_service_event env ty p s previous)"
  unfolding append_service_event_def by (intro schedules_kept_laws)

lemma stays_record_of: "stays same_schedules (record_of p i replayed)"
  unfolding record_of_def by (intro schedules_kept_laws)

lemmas service_laws = lawful.stays_bind lawful.stays_return stays_lawful_same [OF stays_service_event]
  stays_lawful_same [OF stays_record_of] stays_lawful_same [OF stays_zattempt_schedules] stays_lawful_same [OF stays_zlift_schedules]

lemma moves_finish_change: "allowed s s' \<Longrightarrow> moves s (finish_change env ty p i s s')"
  unfolding finish_change_def by (rule moves_then [OF moves_replace]) (auto intro!: service_laws)

lemma stays_current:
  assumes "\<And>s. moves s (f s)"
  shows "stays lawful (pbind (current_schedule p i n) f)"
  unfolding stays_def
proof
  fix z
  show "lawful z (snd (pbind (current_schedule p i n) f z))"
  proof (cases "sound (zw_schedules z) \<and> isl (fst (current_schedule p i n z)) = False")
    case True
    obtain s where s: "schedule_get (zw_schedules z) i p = Inr s" "current_schedule p i n z = (Inr s, z)"
      using True by (auto simp: current_schedule_run split: sum.splits)
    then show ?thesis using assms holds_get [of z i p s] True by (simp add: moves_def)
  next
    case False
    then show ?thesis
      by (auto simp: lawful_def pbind_def current_schedule_run split: sum.splits)
  qed
qed

lemma lawful_pause: "stays lawful (pause_schedule env p i n)"
proof -
  have "allowed s (s\<lparr> sd_state := Sched_PAUSED, sd_pause_reason := Some Pause_USER, sd_next_fire_at := None, sd_updated_at := t \<rparr>)"
    if "\<not> sd_state s \<noteq> Sched_ACTIVE" for s t
    using that by (auto simp: allowed_def schedule_owner_def state_fits_def ended_def)
  then show ?thesis
    unfolding pause_schedule_def
    by (intro service_laws stays_unit stays_current moves_if moves_simple moves_bind [OF keeps_lift] moves_finish_change
        moves_keeps [OF keeps_same [OF stays_record_of]])
qed

lemma lawful_resume: "stays lawful (resume_schedule env p i n)"
proof -
  have "allowed s (s\<lparr> sd_state := Sched_ACTIVE, sd_pause_reason := None, sd_next_fire_at := Some f, sd_updated_at := t \<rparr>)"
    if "\<not> sd_state s \<noteq> Sched_PAUSED" for s f t
    using that by (auto simp: allowed_def schedule_owner_def state_fits_def ended_def)
  then show ?thesis
    unfolding resume_schedule_def Let_def no_future_def
    by (intro service_laws stays_unit stays_current moves_if moves_simple moves_bind [OF keeps_lift] moves_attempt moves_option
        moves_bind [OF keeps_simple(3)] moves_then [OF moves_replace] moves_keeps [OF keeps_same [OF stays_record_of]]) simp_all
qed

lemma lawful_cancel: "stays lawful (cancel_schedule env p i n)"
proof -
  have "allowed s (s\<lparr> sd_state := Sched_CANCELLED, sd_pause_reason := None, sd_next_fire_at := None, sd_updated_at := t \<rparr>)"
    if "sd_state s \<noteq> Sched_CANCELLED" "sd_state s \<noteq> Sched_COMPLETED" for s t
    using that by (auto simp: allowed_def schedule_owner_def state_fits_def ended_def)
  then show ?thesis
    unfolding cancel_schedule_def
    by (intro service_laws stays_unit stays_current moves_if moves_simple moves_bind [OF keeps_lift] moves_finish_change
        moves_keeps [OF keeps_same [OF stays_record_of]])
qed

lemma revision_of_Inr: "revision_of s d p t = Inr r \<Longrightarrow> revision_is_consistent r = Inr r"
  by (auto simp: revision_of_def revision_is_consistent_def rbind_Inr_iff split: if_splits)

lemma allowed_revised: "\<not> ended s \<Longrightarrow> allowed s (revised s next_fire t)"
  by (auto simp: allowed_def revised_def schedule_owner_def state_fits_def ended_def)

lemma moves_revise:
  assumes "\<not> ended s" and "revision_of s' d p t = Inr r" and "\<And>a. stays lawful (f a)"
  shows "moves s (pbind (replace_schedule s (revised s next_fire t) (Some r)) f)"
  by (rule moves_then [OF moves_replace [OF allowed_revised [OF assms(1)]] assms(3)]) (use revision_of_Inr [OF assms(2)] in simp)

lemma stays_next_fire: "stays same_schedules (updated_next_fire env s d t m)"
  unfolding updated_next_fire_def no_future_def by (intro schedules_kept_laws)

lemma stays_reject_started: "stays same_schedules (reject_started_call_plan r)"
  unfolding reject_started_call_plan_def refuse_def by (intro schedules_kept_laws)

lemma lawful_update: "stays lawful (update_schedule env p i n d)"
  unfolding update_schedule_def Let_def
  by (intro service_laws stays_unit stays_current moves_if moves_simple moves_bind [OF keeps_lift] moves_attempt
      moves_bind [OF keeps_simple(3)] moves_bind [OF keeps_same [OF stays_reject_started]]
      moves_bind [OF keeps_same [OF stays_next_fire]] moves_revise)

lemma lawful_idempotency: "stays lawful (store_idempotency x)"
  unfolding stays_def
proof
  fix z
  show "lawful z (snd (store_idempotency x z))"
  proof (cases "create_schedule_idempotency (zw_schedules z) x")
    case (Inr res)
    obtain y S' where ins: "create_schedule_idempotency (zw_schedules z) x = Inr (y, S')" using Inr by (cases res) auto
    have "so_schedules S' = so_schedules (zw_schedules z)" "so_revisions S' = so_revisions (zw_schedules z)"
      "so_occurrences S' = so_occurrences (zw_schedules z)"
      "\<And>k x. dget (so_idempotency (zw_schedules z)) k = Some x \<Longrightarrow> dget (so_idempotency S') k = Some x"
      using ins by (auto simp: create_schedule_idempotency_def Let_def split: option.splits if_splits)
    then have "store_evolves (zw_schedules z) S' \<and> (rows_valid (zw_schedules z) \<longrightarrow> rows_valid S')"
      by (simp add: store_evolves_def rows_valid_def)
    then show ?thesis using ins create_schedule_idempotency_ok [OF ins]
      by (simp add: store_idempotency_def on_schedules_def lawful_def sound_def)
  qed (simp add: store_idempotency_def on_schedules_def lawful.R_refl)
qed

lemma moves_stays: "stays lawful m \<Longrightarrow> moves s m"
  by (simp add: stays_def moves_def)

lemma moves_apply_patch:
  assumes "\<not> ended s"
  shows "moves s (apply_patch env p i s prior patch key hash)"
  unfolding apply_patch_def Let_def
  by (intro moves_if moves_bind [OF keeps_lift] moves_attempt moves_bind [OF keeps_simple(3)]
      moves_bind [OF keeps_same [OF stays_next_fire]] moves_revise [OF assms] moves_stays [OF lawful.stays_bind [OF lawful_idempotency]]
      service_laws lawful_idempotency)

lemma lawful_patch_once: "stays lawful (patch_once env p i n patch key hash)"
  unfolding patch_once_def idempotency_mismatch_def
  by (intro service_laws stays_unit stays_case_option stays_if stays_current moves_if moves_simple moves_attempt
      moves_bind [OF keeps_simple(3)] moves_bind [OF keeps_same [OF stays_reject_started]] moves_apply_patch)

lemma stays_on_conflict:
  assumes "stays lawful m" and "\<And>e. stays lawful (h e)"
  shows "stays lawful (on_conflict m h)"
  unfolding stays_def
proof
  fix z
  obtain r z1 where m: "m z = (r, z1)" by fastforce
  have "lawful z z1" by (rule staysD [OF assms(1) m])
  moreover have "lawful z1 (snd (h e z1))" for e using assms(2) by (simp add: stays_def)
  ultimately show "lawful z (snd (on_conflict m h z))"
    using m lawful.R_trans by (auto simp: on_conflict_def split: sum.split submit_exn.split error.split)
qed

lemma lawful_patch: "stays lawful (patch_schedule env p i n patch key)"
  unfolding patch_schedule_def Let_def idempotency_mismatch_def
  by (intro service_laws stays_case_prod stays_on_conflict lawful_patch_once stays_unit stays_case_option stays_if)

lemma lawful_attempt: "(\<And>a. r = Inr a \<Longrightarrow> stays lawful (f a)) \<Longrightarrow> stays lawful (pbind (zattempt r) f)"
  by (cases r) (simp_all add: zattempt_def stays_def lawful.R_refl)

lemma lawful_store_new:
  assumes "state_fits s" and "revision_is_consistent r = Inr r"
  shows "stays lawful (on_schedules (\<lambda>S. rbind (schedule_create S s r) (\<lambda>S'. Inr ((), S'))))"
  unfolding stays_def
proof
  fix z
  show "lawful z (snd (on_schedules (\<lambda>S. rbind (schedule_create S s r) (\<lambda>S'. Inr ((), S'))) z))"
  proof (cases "schedule_create (zw_schedules z) s r")
    case (Inr S')
    have S': "S' = (zw_schedules z)\<lparr> so_schedules := dset (sd_id s) s (so_schedules (zw_schedules z)),
        so_revisions := dset (sd_id s, rv_revision r) r (so_revisions (zw_schedules z)) \<rparr>"
      and new: "dget (so_schedules (zw_schedules z)) (sd_id s) = None"
      using Inr by (auto simp: schedule_create_def dhas_iff split: if_splits)
    have old: "dget (so_revisions (zw_schedules z)) (sd_id s, k) = None" if "sound (zw_schedules z)" for k
      using that new unfolding sound_def schedule_repo_ok_def revisions_linked_def tables_keyed_def
      by (metis fst_conv keyed_dget not_None_eq option.distinct(1))
    have "rows_valid S'" if "rows_valid (zw_schedules z)" using that assms by (auto simp: S' rows_valid_def)
    moreover have "store_evolves (zw_schedules z) S'" if "sound (zw_schedules z)"
      using new old [OF that] by (auto simp: S' store_evolves_def)
    ultimately show ?thesis using Inr schedule_create_ok [OF Inr] by (simp add: on_schedules_def lawful_def sound_def)
  qed (simp add: on_schedules_def lawful.R_refl)
qed

lemma lawful_create_once: "stays lawful (create_once env p d key hash)"
proof -
  have "state_fits (created_schedule i p f t)" for i f t by (simp add: created_schedule_def state_fits_def ended_def)
  then show ?thesis
    unfolding create_once_def Let_def no_future_def idempotency_mismatch_def
    by (intro stays_unit lawful.stays_bind [OF lawful.stays_return(3)] stays_case_option stays_if lawful_attempt
        lawful.stays_bind [OF stays_lawful_same [OF stays_zlift_schedules]] lawful.stays_bind [OF lawful_store_new]
        lawful.stays_bind [OF lawful_idempotency] lawful.stays_bind [OF stays_lawful_same [OF stays_service_event]]
        lawful.stays_return stays_lawful_same [OF stays_record_of] revision_of_Inr)
qed

lemma lawful_create: "stays lawful (create_schedule env p d key)"
  unfolding create_schedule_def Let_def
  by (intro service_laws stays_case_prod stays_on_conflict lawful_create_once stays_unit stays_case_option stays_if)

subsection \<open>All of scheduling\<close>

text \<open>
  The programs that write the schedule store, in any order and with any outcome, and everything else the
  system does in between. Retention (\<open>purge_terminal\<close>) deletes ended schedules and is left out here.
\<close>

inductive scheduling_step :: "service_env \<Rightarrow> schedule_world \<Rightarrow> schedule_world \<Rightarrow> bool" for env where
  step_scan: "run_once (sv_schedules env) batch z = (r, z') \<Longrightarrow> scheduling_step env z z'"
| step_fire: "materialize (sv_schedules env) i z = (r, z') \<Longrightarrow> scheduling_step env z z'"
| step_manual: "materialize_manual (sv_schedules env) p i n key z = (r, z') \<Longrightarrow> scheduling_step env z z'"
| step_refresh: "refresh_feeds (sv_schedules env) p z = (r, z') \<Longrightarrow> scheduling_step env z z'"
| step_account: "account (sv_schedules env) run_id z = (r, z') \<Longrightarrow> scheduling_step env z z'"
| step_create: "create_schedule env p d key z = (r, z') \<Longrightarrow> scheduling_step env z z'"
| step_update: "update_schedule env p i n d z = (r, z') \<Longrightarrow> scheduling_step env z z'"
| step_patch: "patch_schedule env p i n patch key z = (r, z') \<Longrightarrow> scheduling_step env z z'"
| step_pause: "pause_schedule env p i n z = (r, z') \<Longrightarrow> scheduling_step env z z'"
| step_resume: "resume_schedule env p i n z = (r, z') \<Longrightarrow> scheduling_step env z z'"
| step_cancel: "cancel_schedule env p i n z = (r, z') \<Longrightarrow> scheduling_step env z z'"
| step_elsewhere: "zw_schedules z' = zw_schedules z \<Longrightarrow> scheduling_step env z z'"

lemma scheduling_step_lawful: "scheduling_step env z z' \<Longrightarrow> lawful z z'"
  by (induction rule: scheduling_step.induct)
    (blast intro: staysD [OF lawful_run_once] staysD [OF lawful_materialize] staysD [OF lawful_materialize_manual]
      staysD [OF lawful_refresh_feeds] staysD [OF lawful_account] staysD [OF lawful_create] staysD [OF lawful_update]
      staysD [OF lawful_patch] staysD [OF lawful_pause] staysD [OF lawful_resume] staysD [OF lawful_cancel]
      lawful_same [unfolded same_schedules_def])+

lemma scheduling_steps_lawful: "(scheduling_step env)\<^sup>*\<^sup>* z z' \<Longrightarrow> lawful z z'"
  by (induction rule: rtranclp_induct) (blast intro: lawful.R_refl lawful.R_trans scheduling_step_lawful)+

lemma scheduling_sound:
  assumes "(scheduling_step env)\<^sup>*\<^sup>* z0 z" and "zw_schedules z0 = empty_schedule_repo"
  shows "sound (zw_schedules z)"
proof -
  have "sound (zw_schedules z0)"
    by (simp add: assms(2) sound_def rows_valid_def schedule_repo_parts empty_schedule_repo_def)
  then show ?thesis using scheduling_steps_lawful [OF assms(1)] by (simp add: lawful_def)
qed

lemma scheduling_evolves:
  assumes "(scheduling_step env)\<^sup>*\<^sup>* z0 z" and "zw_schedules z0 = empty_schedule_repo" and "(scheduling_step env)\<^sup>*\<^sup>* z z'"
  shows "store_evolves (zw_schedules z) (zw_schedules z')"
  using scheduling_sound [OF assms(1,2)] scheduling_steps_lawful [OF assms(3)] by (simp add: lawful_def)

text \<open>
  C33. An ended schedule stays ended. Whatever the scheduler, the accountant, Run now, refreshes and the
  owner's requests do afterwards, a completed or cancelled schedule keeps its state, its revision and its
  owner, has no next firing, and gains no occurrence.
\<close>

theorem ended_schedule_stays_ended:
  assumes "(scheduling_step env)\<^sup>*\<^sup>* z0 z" and "zw_schedules z0 = empty_schedule_repo"
    and "dget (so_schedules (zw_schedules z)) i = Some s" and "sd_state s \<in> {Sched_COMPLETED, Sched_CANCELLED}"
    and "(scheduling_step env)\<^sup>*\<^sup>* z z'"
  shows "(\<exists>s'. dget (so_schedules (zw_schedules z')) i = Some s' \<and> sd_state s' = sd_state s
        \<and> sd_current_revision s' = sd_current_revision s \<and> schedule_owner s' = schedule_owner s \<and> sd_next_fire_at s' = None)
    \<and> (\<forall>k c. dget (so_occurrences (zw_schedules z')) k = Some c \<longrightarrow> oc_schedule_id c = i \<longrightarrow>
        dget (so_occurrences (zw_schedules z)) k = Some c)"
proof -
  note evolves = scheduling_evolves [OF assms(1,2,5)]
  have s: "ended s" "state_fits s"
    using assms(3,4) scheduling_sound [OF assms(1,2)] by (auto simp: ended_def sound_def rows_valid_def)
  obtain s' where "dget (so_schedules (zw_schedules z')) i = Some s'" "allowed s s'"
    using store_evolvesD(1) [OF evolves assms(3)] by blast
  then have "\<exists>s'. dget (so_schedules (zw_schedules z')) i = Some s' \<and> sd_state s' = sd_state s
      \<and> sd_current_revision s' = sd_current_revision s \<and> schedule_owner s' = schedule_owner s \<and> sd_next_fire_at s' = None"
    using s by (auto simp: allowed_def state_fits_def)
  moreover have "dget (so_occurrences (zw_schedules z)) k = Some c"
    if "dget (so_occurrences (zw_schedules z')) k = Some c" "oc_schedule_id c = i" for k c
    using store_evolvesD(4) [OF evolves that(1)] that(2) assms(3) s(1) by blast
  ultimately show ?thesis by blast
qed


text \<open>
  C35. Stored rows satisfy their models. Schedules are changed with \<open>model_copy\<close>, which runs no validator;
  still, every schedule in every reachable store satisfies \<open>Schedule.state_is_consistent\<close>, up to the
  comparison of two clock readings, which a clock set back can break; every revision and every occurrence
  satisfies its validators.
\<close>

theorem stored_rows_validate:
  assumes "(scheduling_step env)\<^sup>*\<^sup>* z0 z" and "zw_schedules z0 = empty_schedule_repo"
  shows "(\<forall>i s. dget (so_schedules (zw_schedules z)) i = Some s \<longrightarrow>
        state_is_consistent s \<in> {Inr s, Inl (ValueError ''schedule updated_at precedes created_at'')})
    \<and> (\<forall>k r. dget (so_revisions (zw_schedules z)) k = Some r \<longrightarrow> revision_is_consistent r = Inr r)
    \<and> (\<forall>k c. dget (so_occurrences (zw_schedules z)) k = Some c \<longrightarrow> new_occurrence c = Inr c)"
  using scheduling_sound [OF assms] unfolding sound_def rows_valid_def state_fits_iff by blast

subsection \<open>A request key is bound for good\<close>

lemma record_of_Inr:
  "record_of p i b z = (Inr c, z') \<Longrightarrow> z' = z \<and> schedule_get (zw_schedules z) i p = Inr (sc_schedule c) \<and> sc_replayed c = b"
  by (auto simp: record_of_def pbind_Inr_iff)

definition key_bound :: "schedule_repo \<Rightarrow> principal \<Rightarrow> string \<Rightarrow> string \<Rightarrow> uuid \<Rightarrow> bool" where
  "key_bound S p key hash i \<longleftrightarrow> (\<exists>x s. dget (so_idempotency S) (tenant_id p, principal_id p, key) = Some x
     \<and> sx_request_hash x = hash \<and> sx_schedule_id x = i
     \<and> dget (so_schedules S) i = Some s \<and> schedule_owner s = (tenant_id p, principal_id p))"

lemma key_bound_evolves:
  assumes "key_bound S p key hash i" and "store_evolves S S'"
  shows "key_bound S' p key hash i"
proof -
  obtain x s where x: "dget (so_idempotency S) (tenant_id p, principal_id p, key) = Some x" "sx_request_hash x = hash"
      "sx_schedule_id x = i" and s: "dget (so_schedules S) i = Some s" "schedule_owner s = (tenant_id p, principal_id p)"
    using assms(1) unfolding key_bound_def by blast
  obtain s' where "dget (so_schedules S') i = Some s'" "allowed s s'" using store_evolvesD(1) [OF assms(2) s(1)] by blast
  moreover have "dget (so_idempotency S') (tenant_id p, principal_id p, key) = Some x" by (rule store_evolvesD(5) [OF assms(2) x(1)])
  ultimately show ?thesis using x(2,3) s(2) by (simp add: key_bound_def allowed_def)
qed

lemma replay_bound:
  assumes "record_of p (sx_schedule_id x) True z = (Inr c, z')" and "sound (zw_schedules z)"
    and "get_schedule_idempotency (zw_schedules z) (tenant_id p) (principal_id p) key = Some x" "sx_request_hash x = hash"
  shows "key_bound (zw_schedules z') p key hash (sd_id (sc_schedule c))"
proof -
  have z': "z' = z" "schedule_get (zw_schedules z) (sx_schedule_id x) p = Inr (sc_schedule c)"
    using record_of_Inr [OF assms(1)] by simp_all
  have "dget (so_schedules (zw_schedules z)) (sx_schedule_id x) = Some (sc_schedule c)" "owned_by (schedule_owner (sc_schedule c)) p"
    using z'(2) by (auto simp: schedule_get_def split: option.splits if_splits)
  moreover have "sd_id (sc_schedule c) = sx_schedule_id x"
    using calculation(1) assms(2) keyed_dget by (auto simp: sound_def schedule_repo_ok_def tables_keyed_def)
  ultimately show ?thesis
    using assms(3,4) by (auto simp: z'(1) key_bound_def get_schedule_idempotency_def owned_by_def prod_eq_iff)
qed

lemma create_once_bound:
  assumes "create_once env p d key hash z = (Inr c, z1)" and "sound (zw_schedules z)"
  shows "key_bound (zw_schedules z1) p key hash (sd_id (sc_schedule c))"
proof -
  define zb where "zb = z\<lparr> zw_world := enter_unit (zw_world z) \<rparr>"
  have zb: "zw_schedules zb = zw_schedules z" by (simp add: zb_def)
  show ?thesis
  proof (cases "get_schedule_idempotency (zw_schedules z) (tenant_id p) (principal_id p) key")
    case (Some x)
    then obtain z2 where z2: "record_of p (sx_schedule_id x) True zb = (Inr c, z2)" "sx_request_hash x = hash"
        "zw_schedules z1 = zw_schedules z2"
      using assms(1) by (auto simp: create_once_def schedule_unit_Inr zb_def split: if_splits)
    then show ?thesis using replay_bound [OF z2(1) _ _ z2(2)] Some assms(2) by (simp add: zb)
  next
    case None
    then obtain i f s r t S0 S1 S2 y zd zc where s: "s = created_schedule i p f t" and c: "sc_schedule c = s"
      and S1: "schedule_create S0 s r = Inr S1"
      and S2: "create_schedule_idempotency S1 (schedule_key_record p key hash i t) = Inr (y, S2)"
      and ev: "append_service_event env ''schedule.created'' p s None zd = (Inr (), zc)" "zw_schedules zd = S2"
      and z1: "zw_schedules z1 = zw_schedules zc"
      using assms(1)
      by (fastforce simp: create_once_def schedule_unit_Inr pbind_Inr_iff store_idempotency_def rbind_Inr_iff no_future_def Let_def
          split: option.splits)
    have i: "sd_id s = i" "schedule_owner s = (tenant_id p, principal_id p)"
      by (simp_all add: s created_schedule_def schedule_owner_def)
    have "zw_schedules zc = S2" using staysD [OF stays_service_event ev(1)] ev(2) by (simp add: same_schedules_def)
    moreover have "dget (so_schedules S2) (sd_id s) = Some s"
        "dget (so_idempotency S2) (tenant_id p, principal_id p, key) = Some (schedule_key_record p key hash (sd_id s) t)"
      using S1 S2 i(1) by (auto simp: schedule_create_def create_schedule_idempotency_def schedule_key_record_def Let_def
          split: if_splits option.splits)
    ultimately show ?thesis using c z1 i(2) by (simp add: key_bound_def schedule_key_record_def)
  qed
qed

lemma create_bound:
  assumes "create_schedule env p d key z = (Inr c, z1)" and "sound (zw_schedules z)"
  shows "key_bound (zw_schedules z1) p key (sv_definition_hash env d) (sd_id (sc_schedule c))"
proof -
  have key: "idempotency_key_ok key = Inr key"
    using assms(1) by (auto simp: create_schedule_def pbind_Inr_iff idempotency_key_ok_def split: if_splits)
  define handler where "handler = (\<lambda>e. schedule_unit (
       pbind (pget (\<lambda>z. get_schedule_idempotency (zw_schedules z) (tenant_id p) (principal_id p) key)) (\<lambda>existing.
       case existing of
         None \<Rightarrow> praise e
       | Some x \<Rightarrow> if sx_request_hash x \<noteq> sv_definition_hash env d then praise e else record_of p (sx_schedule_id x) True)))"
  have run: "on_conflict (create_once env p d key (sv_definition_hash env d)) handler z = (Inr c, z1)"
    using assms(1) key unfolding handler_def
    by (auto simp: create_schedule_def pbind_Inr_iff Let_def)
  obtain r z2 where once: "create_once env p d key (sv_definition_hash env d) z = (r, z2)" by fastforce
  have sound: "sound (zw_schedules z2)"
    using staysD [OF lawful_create_once once] assms(2) by (simp add: lawful_def)
  show ?thesis
  proof (cases r)
    case (Inr c')
    then show ?thesis using run once create_once_bound [OF _ assms(2)] by (auto simp: on_conflict_def)
  next
    case (Inl e)
    then have "handler e z2 = (Inr c, z1)"
      using run once by (auto simp: on_conflict_def split: submit_exn.splits error.splits)
    then obtain x z3 where "get_schedule_idempotency (zw_schedules z2) (tenant_id p) (principal_id p) key = Some x"
        "sx_request_hash x = sv_definition_hash env d"
        "record_of p (sx_schedule_id x) True (z2\<lparr> zw_world := enter_unit (zw_world z2) \<rparr>) = (Inr c, z3)"
        "zw_schedules z1 = zw_schedules z3"
      by (auto simp: handler_def schedule_unit_Inr split: option.splits if_splits)
    then show ?thesis using replay_bound [of p x "z2\<lparr> zw_world := enter_unit (zw_world z2) \<rparr>" c z3 key] sound by simp
  qed
qed

lemma bound_record:
  assumes "key_bound (zw_schedules z) p key hash i" and "sound (zw_schedules z)"
  obtains x c where "get_schedule_idempotency (zw_schedules z) (tenant_id p) (principal_id p) key = Some x"
    and "sx_request_hash x = hash" and "sd_id (sc_schedule c) = i" "sc_replayed c"
    and "\<And>w. record_of p (sx_schedule_id x) True (z\<lparr> zw_world := w \<rparr>) = (Inr c, z\<lparr> zw_world := w \<rparr>)"
proof -
  obtain x s where x: "get_schedule_idempotency (zw_schedules z) (tenant_id p) (principal_id p) key = Some x"
      "sx_request_hash x = hash" "sx_schedule_id x = i"
    and s: "dget (so_schedules (zw_schedules z)) i = Some s" "schedule_owner s = (tenant_id p, principal_id p)"
    using assms(1) unfolding key_bound_def get_schedule_idempotency_def by blast
  have id: "sd_id s = i" using holds_stored [OF assms(2) s(1)] s(1) assms(2) keyed_dget
    by (auto simp: sound_def schedule_repo_ok_def tables_keyed_def)
  obtain r where r: "dget (so_revisions (zw_schedules z)) (i, sd_current_revision s) = Some r"
    using assms(2) s(1) unfolding sound_def schedule_repo_ok_def revisions_linked_def by blast
  have get: "schedule_get (zw_schedules z) i p = Inr s" using s by (simp add: schedule_get_def owned_by_def)
  show ?thesis
    by (rule that [OF x(1,2), of "\<lparr> sc_schedule = s, sc_revision = r, sc_replayed = True \<rparr>"])
      (simp_all add: id record_of_def x(3) get get_revision_def r dlookup_def zattempt_def pbind_def)
qed


subsection \<open>Witnesses\<close>

lemma cancel_stores:
  assumes "''schedule.cancel'' \<in> scopes p" and "schedule_get (zw_schedules z) i p = Inr s" "sd_id s = i"
    and "sd_state s = Sched_ACTIVE" and "zw_process z = []" and "dget (so_revisions (zw_schedules z)) (i, sd_current_revision s) = Some r"
  shows "\<exists>z' c s'. cancel_schedule env p i (sd_current_revision s) z = (Inr c, z')
     \<and> dget (so_schedules (zw_schedules z')) i = Some s' \<and> sd_state s' = Sched_CANCELLED"
  using assms
  by (auto simp: cancel_schedule_def require_scope_def zattempt_def pbind_def schedule_unit_def current_schedule_run expected_revision_def
      zlift_def now_def new_id_def finish_change_def replace_schedule_def on_schedules_def schedule_replace_def get_revision_def dlookup_def
      append_service_event_def append_process_def process_append_def schedule_get_def schedule_owner_def owned_by_def
      split: option.splits if_splits)

lemma sample_reached:
  obtains z c where "(scheduling_step sample_service_env)\<^sup>*\<^sup>* blank_world z"
    and "create_schedule sample_service_env schedule_user sample_definition ''k1'' blank_world = (Inr c, z)"
    and "sc_schedule c = sample_created" and "dget (so_schedules (zw_schedules z)) 70 = Some sample_created"
    and "dget (so_revisions (zw_schedules z)) (70, 1) = Some (sc_revision c)"
proof -
  obtain z r where z: "create_schedule sample_service_env schedule_user sample_definition ''k1'' blank_world
      = (Inr \<lparr> sc_schedule = sample_created, sc_revision = r, sc_replayed = False \<rparr>, z)"
    and S: "zw_schedules z = empty_schedule_repo\<lparr> so_schedules := [(70, sample_created)], so_revisions := [((70, 1), r)],
      so_idempotency := [((tenant_id schedule_user, principal_id schedule_user, ''k1''),
        schedule_key_record schedule_user ''k1'' ''report'' 70 80000000)] \<rparr>"
    by (rule sample_creates) (rule that)
  show ?thesis by (rule that [OF _ z]) (use step_create [OF z] in \<open>auto simp: S\<close>)
qed

lemma blank_empty: "zw_schedules blank_world = empty_schedule_repo"
  by (simp add: blank_world_def)

text \<open>A schedule is created, the process log is trimmed, and the owner cancels the schedule.\<close>

lemma sample_cancelled:
  obtains z s where "(scheduling_step sample_service_env)\<^sup>*\<^sup>* blank_world z"
    and "dget (so_schedules (zw_schedules z)) 70 = Some s" and "sd_state s = Sched_CANCELLED"
proof -
  obtain z and c :: schedule_record where z: "(scheduling_step sample_service_env)\<^sup>*\<^sup>* blank_world z"
      "dget (so_schedules (zw_schedules z)) 70 = Some sample_created"
      "dget (so_revisions (zw_schedules z)) (70, 1) = Some (sc_revision c)"
    by (rule sample_reached) (rule that)
  have s: "sd_id sample_created = 70" "sd_state sample_created = Sched_ACTIVE" "sd_current_revision sample_created = 1"
      "schedule_get (zw_schedules z) 70 schedule_user = Inr sample_created" "''schedule.cancel'' \<in> scopes schedule_user"
    by (simp_all add: z schedule_get_def sample_created_def created_schedule_def schedule_owner_def owned_by_def schedule_user_def)
  obtain z' c' s' where z': "cancel_schedule sample_service_env schedule_user 70 1 (z\<lparr> zw_process := [] \<rparr>) = (Inr c', z')"
      "dget (so_schedules (zw_schedules z')) 70 = Some s'" "sd_state s' = Sched_CANCELLED"
    using cancel_stores [of schedule_user "z\<lparr> zw_process := [] \<rparr>" 70 sample_created "sc_revision c" sample_service_env] s z(3) by auto
  have "scheduling_step sample_service_env z (z\<lparr> zw_process := [] \<rparr>)" by (rule step_elsewhere) simp
  then have "(scheduling_step sample_service_env)\<^sup>*\<^sup>* blank_world z'"
    using z(1) step_cancel [OF z'(1)] by (meson rtranclp.rtrancl_into_rtrancl)
  then show ?thesis using z'(2,3) that by blast
qed

theorem ended_schedule_stays_ended_witness:
  "\<exists>z r z'. run_once (sv_schedules sample_service_env) 10 z = (r, z')
     \<and> map_option sd_state (dget (so_schedules (zw_schedules z)) 70) = Some Sched_CANCELLED
     \<and> map_option sd_state (dget (so_schedules (zw_schedules z')) 70) = Some Sched_CANCELLED"
proof -
  obtain z s where z: "(scheduling_step sample_service_env)\<^sup>*\<^sup>* blank_world z"
      "dget (so_schedules (zw_schedules z)) 70 = Some s" "sd_state s = Sched_CANCELLED"
    by (rule sample_cancelled) (rule that)
  obtain r z' where z': "run_once (sv_schedules sample_service_env) 10 z = (r, z')" by fastforce
  obtain s' where "dget (so_schedules (zw_schedules z')) 70 = Some s'" "sd_state s' = Sched_CANCELLED"
    using ended_schedule_stays_ended [OF z(1) blank_empty z(2), of z'] z(3) step_scan [OF z'] by auto
  then show ?thesis using z z' by force
qed


theorem stored_rows_validate_witness:
  "\<exists>(z :: schedule_world) s. dget (so_schedules (zw_schedules z)) 70 = Some s \<and> sd_state s = Sched_CANCELLED
     \<and> state_is_consistent s \<in> {Inr s, Inl (ValueError ''schedule updated_at precedes created_at'')}"
proof -
  obtain z s where z: "(scheduling_step sample_service_env)\<^sup>*\<^sup>* blank_world z"
      "dget (so_schedules (zw_schedules z)) 70 = Some s" "sd_state s = Sched_CANCELLED"
    by (rule sample_cancelled) (rule that)
  then show ?thesis using stored_rows_validate [OF z(1) blank_empty] by blast
qed


end
