(* ===== verification/Delegations.thy ===== *)
theory Delegations
  imports Accounting Tool_Calls Artifacts
begin

text \<open>
  Delegation: \<open>domain/delegations.py\<close>, the in-process ledger of \<open>adapters/persistence/delegations.py\<close>, and
  \<open>DelegationMaterializer\<close> of \<open>application/delegations.py\<close>, which turns one tool call of a run into bounded
  child runs. A child works with the tools, scopes and limits derived here and with nothing else.
\<close>

subsection \<open>Values\<close>

datatype delegation_return = Return_SUMMARY | Return_SUMMARY_AND_ARTIFACTS

datatype rejection_reason = TOOLS_NOT_SUBSET | DEPTH_EXCEEDED | FANOUT_EXCEEDED | BUDGET_INSUFFICIENT | TENANT_CAP | BRIEF_INVALID

fun rejection_value :: "rejection_reason \<Rightarrow> string" where
  "rejection_value TOOLS_NOT_SUBSET = ''delegation.tools_not_subset''"
| "rejection_value DEPTH_EXCEEDED = ''delegation.depth_exceeded''"
| "rejection_value FANOUT_EXCEEDED = ''delegation.fanout_exceeded''"
| "rejection_value BUDGET_INSUFFICIENT = ''delegation.budget_insufficient''"
| "rejection_value TENANT_CAP = ''delegation.tenant_cap''"
| "rejection_value BRIEF_INVALID = ''delegation.brief_invalid''"

record delegation_limits =
  dn_max_steps :: "int option"
  dn_max_model_calls :: "int option"
  dn_max_tool_calls :: "int option"
  dn_max_cost :: "rat option"
  dn_wall_seconds :: "int option"

record delegation_brief =
  db_objective :: string
  db_success_condition :: string
  db_context :: "string option"
  db_context_refs :: "uuid list"
  db_allowed_tools :: "string list"
  db_limits :: "delegation_limits option"

record delegation_request =
  dq_briefs :: "delegation_brief list"
  dq_return_shape :: delegation_return

record child_outcome =
  co_child_run_id :: uuid
  co_child_session_id :: uuid
  co_status :: run_status
  co_summary :: "string option"
  co_artifact_refs :: "uuid list"
  co_usage :: run_usage
  co_failure_reason :: "string option"

record delegation_result =
  dx_delegation_id :: uuid
  dx_children :: "child_outcome list"

datatype delegation_status = Delegation_PENDING | Delegation_RUNNING | Delegation_JOINED | Delegation_CANCELLED | Delegation_REJECTED

record delegation_child =
  dc_index :: int
  dc_child_run_id :: "uuid option"
  dc_child_session_id :: "uuid option"
  dc_status :: "run_status option"
  dc_summary :: "string option"
  dc_artifact_refs :: "uuid list"
  dc_usage :: "run_usage option"
  dc_failure_reason :: "string option"

record delegation =
  dg_id :: uuid
  dg_tenant_id :: string
  dg_principal_id :: string
  dg_parent_run_id :: uuid
  dg_parent_session_id :: uuid
  dg_invocation_id :: uuid
  dg_depth :: int
  dg_request :: delegation_request
  dg_derived_limits :: "run_limits list"
  dg_granted_scopes :: "string set list"
  dg_status :: delegation_status
  dg_children :: "delegation_child list"
  dg_result :: "delegation_result option"
  dg_links_erased_at :: "instant option"
  dg_created_at :: instant
  dg_joined_at :: "instant option"

definition status_is_terminal :: "run_status \<Rightarrow> run_status res" where
  "status_is_terminal s = (if s \<notin> TERMINAL_RUN_STATUSES
     then Inl (ValueError ''a child outcome carries a terminal run status'') else Inr s)"

definition one_child_per_brief :: "delegation \<Rightarrow> delegation res" where
  "one_child_per_brief d = (let count = length (dq_briefs (dg_request d)) in
     if length (dg_children d) \<noteq> count \<or> length (dg_derived_limits d) \<noteq> count \<or> length (dg_granted_scopes d) \<noteq> count
     then Inl (ValueError ''a delegation carries one child, one derived limit set, and one granted scope set per brief'')
     else if map dc_index (dg_children d) \<noteq> map int [0..<count]
     then Inl (ValueError ''delegation children are ordered by brief index'')
     else Inr d)"

definition joined_fields_are_consistent :: "delegation \<Rightarrow> delegation res" where
  "joined_fields_are_consistent d = (let joined = (dg_status d = Delegation_JOINED) in
     if joined \<noteq> (dg_joined_at d \<noteq> None) \<or> joined \<noteq> (dg_result d \<noteq> None)
     then Inl (ValueError ''a joined delegation carries its result and join instant'')
     else Inr d)"

definition new_delegation :: "delegation \<Rightarrow> delegation res" where
  "new_delegation d = rbind (one_child_per_brief d) joined_fields_are_consistent"

record delegation_defaults =
  dd_max_steps :: int
  dd_max_model_calls :: int
  dd_max_tool_calls :: int
  dd_max_cost :: rat
  dd_wall_seconds :: int
  dd_synthesis_reserve_steps :: int
  dd_synthesis_reserve_model_calls :: int
  dd_synthesis_reserve_cost :: rat

record delegation_caps =
  dk_max_children_per_call :: int
  dk_max_live_children_per_parent :: int
  dk_max_depth :: int
  dk_max_live_delegated_runs_per_tenant :: int
  dk_summary_max_bytes :: int

subsection \<open>Limits of a child\<close>

definition insufficient :: "string \<Rightarrow> 'a res" where
  "insufficient dimension = Inl (DelegationValidationError (rejection_value BUDGET_INSUFFICIENT)
     (''the parent has no remaining '' @ dimension @ '' to delegate''))"

text \<open>\<open>value or default\<close> for an optional number: nothing and zero both give the default.\<close>

definition num_or :: "'a::zero option \<Rightarrow> 'a \<Rightarrow> 'a" where
  "num_or v d = (case v of None \<Rightarrow> d | Some n \<Rightarrow> if n = 0 then d else n)"

definition no_limits :: delegation_limits where
  "no_limits = \<lparr> dn_max_steps = None, dn_max_model_calls = None, dn_max_tool_calls = None, dn_max_cost = None,
     dn_wall_seconds = None \<rparr>"

definition requested_limits :: "delegation_brief \<Rightarrow> delegation_limits" where
  "requested_limits b = (case db_limits b of None \<Rightarrow> no_limits | Some l \<Rightarrow> l)"

record remaining_budget =
  rb_steps :: int
  rb_model_calls :: int
  rb_tool_calls :: int
  rb_cost :: "rat option"

definition remaining_of :: "run \<Rightarrow> remaining_budget" where
  "remaining_of parent = \<lparr> rb_steps = max_steps (r_limits parent) - r_step_count parent,
     rb_model_calls = max_model_calls (r_limits parent) - r_model_call_count parent,
     rb_tool_calls = max_tool_calls (r_limits parent) - r_tool_call_count parent,
     rb_cost = map_option (\<lambda>c. c - u_cost (r_usage parent)) (max_cost (r_limits parent)) \<rparr>"

definition child_cost :: "remaining_budget \<Rightarrow> rat \<Rightarrow> rat \<Rightarrow> rat res" where
  "child_cost rb reserved requested = (case rb_cost rb of
      None \<Rightarrow> Inr requested
    | Some c \<Rightarrow> if c - reserved \<le> 0 then insufficient ''cost'' else Inr (min requested (c - reserved)))"

definition child_limits ::
    "run \<Rightarrow> delegation_defaults \<Rightarrow> instant \<Rightarrow> remaining_budget \<Rightarrow> rat \<Rightarrow> delegation_brief \<Rightarrow> (run_limits \<times> rat) res" where
  "child_limits parent defaults t rb reserved b =
     (let requested = requested_limits b in
      rbind (child_cost rb reserved (num_or (dn_max_cost requested) (dd_max_cost defaults))) (\<lambda>cost.
      let steps = min (num_or (dn_max_steps requested) (dd_max_steps defaults)) (rb_steps rb);
          calls = min (num_or (dn_max_model_calls requested) (dd_max_model_calls defaults)) (rb_model_calls rb) in
      if steps \<le> dd_synthesis_reserve_steps defaults then insufficient ''steps after reserving final synthesis''
      else if calls \<le> dd_synthesis_reserve_model_calls defaults
      then insufficient ''model calls after reserving final synthesis''
      else if cost \<le> dd_synthesis_reserve_cost defaults then insufficient ''cost after reserving final synthesis''
      else
        let wall = t + seconds (num_or (dn_wall_seconds requested) (dd_wall_seconds defaults));
            deadline = (case r_deadline_at parent of None \<Rightarrow> wall | Some d \<Rightarrow> min d wall) in
        rbind (synthesis_reserve_fits
          \<lparr> max_steps = steps, max_model_calls = calls,
            max_tool_calls = min (num_or (dn_max_tool_calls requested) (dd_max_tool_calls defaults)) (rb_tool_calls rb),
            max_input_tokens = max_input_tokens (r_limits parent), max_output_tokens = max_output_tokens (r_limits parent),
            max_cost = Some cost, limit_deadline_at = Some deadline,
            synthesis_reserve_steps = dd_synthesis_reserve_steps defaults,
            synthesis_reserve_model_calls = dd_synthesis_reserve_model_calls defaults, synthesis_reserve_tool_calls = 0,
            synthesis_reserve_cost = dd_synthesis_reserve_cost defaults, execution_seconds = None \<rparr>) (\<lambda>limits.
        Inr (limits, reserved + cost))))"

fun derive_each ::
    "run \<Rightarrow> delegation_defaults \<Rightarrow> instant \<Rightarrow> remaining_budget \<Rightarrow> rat \<Rightarrow> delegation_brief list \<Rightarrow> run_limits list res" where
  "derive_each parent defaults t rb reserved [] = Inr []"
| "derive_each parent defaults t rb reserved (b # bs) = rbind (child_limits parent defaults t rb reserved b) (\<lambda>(limits, reserved').
     rbind (derive_each parent defaults t rb reserved' bs) (\<lambda>rest. Inr (limits # rest)))"

definition derive_child_limits ::
    "run \<Rightarrow> delegation_brief list \<Rightarrow> delegation_defaults \<Rightarrow> instant \<Rightarrow> run_limits list res" where
  "derive_child_limits parent briefs defaults t =
     (let rb = remaining_of parent in
      if rb_steps rb \<le> 0 then insufficient ''steps''
      else if rb_model_calls rb \<le> 0 then insufficient ''model calls''
      else if rb_tool_calls rb \<le> 0 then insufficient ''tool calls''
      else if (case rb_cost rb of None \<Rightarrow> False | Some c \<Rightarrow> c \<le> 0) then insufficient ''cost''
      else if (case r_deadline_at parent of None \<Rightarrow> False | Some d \<Rightarrow> d \<le> t) then insufficient ''wall time''
      else derive_each parent defaults t rb 0 briefs)"

subsection \<open>What the limits guarantee\<close>

text \<open>One child stays inside the parent's remaining budget and can always write its final answer.\<close>

definition limits_within :: "run \<Rightarrow> remaining_budget \<Rightarrow> run_limits \<Rightarrow> bool" where
  "limits_within parent rb l \<longleftrightarrow> max_steps l \<le> rb_steps rb \<and> max_model_calls l \<le> rb_model_calls rb
     \<and> max_tool_calls l \<le> rb_tool_calls rb
     \<and> synthesis_reserve_steps l < max_steps l \<and> synthesis_reserve_model_calls l < max_model_calls l
     \<and> (\<exists>c. max_cost l = Some c \<and> synthesis_reserve_cost l < c)
     \<and> (\<exists>u. limit_deadline_at l = Some u \<and> (\<forall>d. r_deadline_at parent = Some d \<longrightarrow> u \<le> d))
     \<and> max_input_tokens l = max_input_tokens (r_limits parent) \<and> max_output_tokens l = max_output_tokens (r_limits parent)
     \<and> synthesis_reserve_fits l = Inr l"

definition cost_of :: "run_limits \<Rightarrow> rat" where
  "cost_of l = (case max_cost l of None \<Rightarrow> 0 | Some c \<Rightarrow> c)"

lemma child_cost_Inr:
  assumes "child_cost rb reserved requested = Inr cost"
  shows "cost \<le> requested" and "rb_cost rb = Some c \<Longrightarrow> reserved + cost \<le> c"
  using assms by (auto simp: child_cost_def insufficient_def split: option.splits if_splits)

lemma child_limits_Inr:
  assumes "child_limits parent defaults t rb reserved b = Inr (l, reserved')"
  obtains cost steps calls tools deadline where
    "child_cost rb reserved (num_or (dn_max_cost (requested_limits b)) (dd_max_cost defaults)) = Inr cost"
    and "steps \<le> rb_steps rb" "calls \<le> rb_model_calls rb" "tools \<le> rb_tool_calls rb"
    and "dd_synthesis_reserve_steps defaults < steps" "dd_synthesis_reserve_model_calls defaults < calls"
      "dd_synthesis_reserve_cost defaults < cost"
    and "\<And>d. r_deadline_at parent = Some d \<Longrightarrow> deadline \<le> d"
    and "l = \<lparr> max_steps = steps, max_model_calls = calls, max_tool_calls = tools,
      max_input_tokens = max_input_tokens (r_limits parent), max_output_tokens = max_output_tokens (r_limits parent),
      max_cost = Some cost, limit_deadline_at = Some deadline, synthesis_reserve_steps = dd_synthesis_reserve_steps defaults,
      synthesis_reserve_model_calls = dd_synthesis_reserve_model_calls defaults, synthesis_reserve_tool_calls = 0,
      synthesis_reserve_cost = dd_synthesis_reserve_cost defaults, execution_seconds = None \<rparr>"
    and "reserved' = reserved + cost"
proof -
  define steps where "steps = min (num_or (dn_max_steps (requested_limits b)) (dd_max_steps defaults)) (rb_steps rb)"
  define calls where "calls = min (num_or (dn_max_model_calls (requested_limits b)) (dd_max_model_calls defaults)) (rb_model_calls rb)"
  define tools where "tools = min (num_or (dn_max_tool_calls (requested_limits b)) (dd_max_tool_calls defaults)) (rb_tool_calls rb)"
  define wall where "wall = t + seconds (num_or (dn_wall_seconds (requested_limits b)) (dd_wall_seconds defaults))"
  define deadline where "deadline = (case r_deadline_at parent of None \<Rightarrow> wall | Some d \<Rightarrow> min d wall)"
  obtain cost where cost: "child_cost rb reserved (num_or (dn_max_cost (requested_limits b)) (dd_max_cost defaults)) = Inr cost"
    using assms by (auto simp: child_limits_def Let_def rbind_Inr_iff)
  have big: "dd_synthesis_reserve_steps defaults < steps" "dd_synthesis_reserve_model_calls defaults < calls"
      "dd_synthesis_reserve_cost defaults < cost"
    using assms cost unfolding child_limits_def Let_def steps_def [symmetric] calls_def [symmetric]
    by (auto simp: insufficient_def split: if_splits)
  define made where "made = \<lparr> max_steps = steps, max_model_calls = calls, max_tool_calls = tools,
      max_input_tokens = max_input_tokens (r_limits parent), max_output_tokens = max_output_tokens (r_limits parent),
      max_cost = Some cost, limit_deadline_at = Some deadline, synthesis_reserve_steps = dd_synthesis_reserve_steps defaults,
      synthesis_reserve_model_calls = dd_synthesis_reserve_model_calls defaults, synthesis_reserve_tool_calls = 0,
      synthesis_reserve_cost = dd_synthesis_reserve_cost defaults, execution_seconds = None \<rparr>"
  have fits: "synthesis_reserve_fits made = Inr made" using big by (simp add: synthesis_reserve_fits_def made_def)
  have l: "rbind (synthesis_reserve_fits made) (\<lambda>limits. Inr (limits, reserved + cost)) = Inr (l, reserved')"
    using assms cost big
    unfolding child_limits_def Let_def steps_def [symmetric] calls_def [symmetric] tools_def [symmetric]
      wall_def [symmetric] deadline_def [symmetric]
    by (simp add: made_def split: if_splits)
  have parts: "steps \<le> rb_steps rb" "calls \<le> rb_model_calls rb" "tools \<le> rb_tool_calls rb"
    by (simp_all add: steps_def calls_def tools_def)
  have early: "deadline \<le> d" if "r_deadline_at parent = Some d" for d using that by (simp add: deadline_def)
  have "l = made" "reserved' = reserved + cost" using l fits by simp_all
  then show ?thesis using that [OF cost parts big early] unfolding made_def by blast
qed

lemma child_limits_within:
  assumes "child_limits parent defaults t rb reserved b = Inr (l, reserved')"
  shows "limits_within parent rb l" and "reserved' = reserved + cost_of l"
    and "\<And>c. rb_cost rb = Some c \<Longrightarrow> reserved' \<le> c"
  using assms
  by (rule child_limits_Inr; simp add: limits_within_def synthesis_reserve_fits_def cost_of_def child_cost_Inr)+

lemma derive_each_within:
  assumes "derive_each parent defaults t rb reserved bs = Inr ls"
  shows "length ls = length bs \<and> (\<forall>l \<in> set ls. limits_within parent rb l)
    \<and> (\<forall>c. rb_cost rb = Some c \<longrightarrow> reserved \<le> c \<longrightarrow> reserved + sum_list (map cost_of ls) \<le> c)"
  using assms
proof (induction bs arbitrary: reserved ls)
  case (Cons b bs)
  obtain l reserved' rest where l: "child_limits parent defaults t rb reserved b = Inr (l, reserved')"
    and rest: "derive_each parent defaults t rb reserved' bs = Inr rest" and ls: "ls = l # rest"
    using Cons.prems by (auto simp: rbind_Inr_iff)
  note head = child_limits_within [OF l]
  show ?case using Cons.IH [OF rest] head by (auto simp: ls algebra_simps)
qed simp

text \<open>
  Delegation cannot widen a budget: each child stays within what the parent has left, and so do the costs of
  all children of one call together.
\<close>

lemma derived_within:
  assumes "derive_child_limits parent briefs defaults t = Inr ls"
  shows "length ls = length briefs \<and> (\<forall>l \<in> set ls. limits_within parent (remaining_of parent) l)
    \<and> (\<forall>c. max_cost (r_limits parent) = Some c \<longrightarrow> sum_list (map cost_of ls) \<le> c - u_cost (r_usage parent))"
proof -
  have each: "derive_each parent defaults t (remaining_of parent) 0 briefs = Inr ls"
    and cost: "\<And>c. rb_cost (remaining_of parent) = Some c \<Longrightarrow> 0 \<le> c"
    using assms by (auto simp: derive_child_limits_def Let_def insufficient_def split: if_splits)
  show ?thesis using derive_each_within [OF each] cost by (auto simp: remaining_of_def)
qed

subsection \<open>The ledger\<close>

type_synonym delegation_repo = "(uuid, delegation) dict"

definition LIVE_STATUSES :: "delegation_status set" where
  "LIVE_STATUSES = {Delegation_PENDING, Delegation_RUNNING}"

definition live_children :: "delegation \<Rightarrow> int" where
  "live_children d = (if dg_status d \<notin> LIVE_STATUSES then 0
     else int (length (filter (\<lambda>c. dc_status c = None \<and> dc_child_run_id c \<noteq> None) (dg_children d))))"

abbreviation delegation_missing :: error where
  "delegation_missing \<equiv> NotFoundError ''delegation not found''"

definition delegation_create :: "delegation_repo \<Rightarrow> delegation \<Rightarrow> delegation_repo res" where
  "delegation_create L d =
     (if dhas L (dg_id d) then Inl (ConflictError ''delegation already exists'' None)
      else if (\<exists>row \<in> set (dvals L). dg_invocation_id row = dg_invocation_id d)
      then Inl (ConflictError ''delegation invocation already recorded'' None)
      else Inr (dset (dg_id d) d L))"

definition delegation_owner :: "delegation \<Rightarrow> string \<times> string" where
  "delegation_owner d = (dg_tenant_id d, dg_principal_id d)"

definition delegation_get :: "delegation_repo \<Rightarrow> uuid \<Rightarrow> principal \<Rightarrow> delegation res" where
  "delegation_get L i p = (case dget L i of
      None \<Rightarrow> Inl delegation_missing
    | Some d \<Rightarrow> if owned_by (delegation_owner d) p then Inr d else Inl delegation_missing)"

definition get_by_invocation :: "delegation_repo \<Rightarrow> uuid \<Rightarrow> delegation option" where
  "get_by_invocation L i = find (\<lambda>d. dg_invocation_id d = i) (dvals L)"

definition get_for_parent_run :: "delegation_repo \<Rightarrow> uuid \<Rightarrow> delegation list" where
  "get_for_parent_run L i = sort_key (\<lambda>d. (dg_created_at d, dg_id d)) (filter (\<lambda>d. dg_parent_run_id d = i) (dvals L))"

definition live_children_for_parent :: "delegation_repo \<Rightarrow> uuid \<Rightarrow> int" where
  "live_children_for_parent L i = sum_list (map live_children (filter (\<lambda>d. dg_parent_run_id d = i) (dvals L)))"

definition live_children_for_tenant :: "delegation_repo \<Rightarrow> string \<Rightarrow> int" where
  "live_children_for_tenant L t = sum_list (map live_children (filter (\<lambda>d. dg_tenant_id d = t) (dvals L)))"

definition delegation_transition ::
    "delegation_repo \<Rightarrow> uuid \<Rightarrow> delegation_status \<Rightarrow> delegation \<Rightarrow> delegation_repo res" where
  "delegation_transition L i expected updated = (case dget L i of
      None \<Rightarrow> Inl delegation_missing
    | Some row \<Rightarrow>
        if dg_id updated \<noteq> i then Inl (ConflictError ''delegation transition must keep its identity'' None)
        else if dg_status row \<noteq> expected
        then Inl (ConflictError ''delegation status changed'' (Some ''delegation_status_conflict''))
        else Inr (dset i updated L))"

interpretation owned_delegations: owner_scoped "\<lambda>L. dget L" delegation_owner "\<lambda>_. delegation_missing" delegation_get
  by unfold_locales (auto simp: delegation_get_def split: option.splits)

subsection \<open>Text checks\<close>

text \<open>\<open>str.lower\<close> on the characters of the model.\<close>

definition py_lower_char :: "char \<Rightarrow> char" where
  "py_lower_char c = (let n = of_char c :: nat in
     if 65 \<le> n \<and> n \<le> 90 \<or> 192 \<le> n \<and> n \<le> 222 \<and> n \<noteq> 215 then char_of (n + 32) else c)"

fun contains_text :: "string \<Rightarrow> string \<Rightarrow> bool" where
  "contains_text needle [] \<longleftrightarrow> needle = []"
| "contains_text needle (c # cs) \<longleftrightarrow> starts_with (c # cs) needle \<or> contains_text needle cs"

definition FORBIDDEN_CHILD_TOOLS :: "string set" where
  "FORBIDDEN_CHILD_TOOLS = {''delegate.run'', ''skill.manage'', ''device.sms.send'', ''cockpit.widget.write'',
     ''code.draft'', ''code.test'', ''code.propose''}"

definition BRIEF_ENVELOPE_DELIMITER :: string where
  "BRIEF_ENVELOPE_DELIMITER = ''delegation_brief''"

definition reject_delegation :: "rejection_reason \<Rightarrow> string \<Rightarrow> 'a res" where
  "reject_delegation reason m = Inl (DelegationValidationError (rejection_value reason) m)"

fun check_texts :: "(string \<Rightarrow> bool) \<Rightarrow> string list \<Rightarrow> unit res" where
  "check_texts credential [] = Inr ()"
| "check_texts credential (x # xs) =
     (if credential x then reject_delegation BRIEF_INVALID ''a brief failed credential validation''
      else if contains_text BRIEF_ENVELOPE_DELIMITER (map py_lower_char x)
      then reject_delegation BRIEF_INVALID ''a brief may not name the seed envelope delimiter''
      else check_texts credential xs)"

fun check_briefs :: "(string \<Rightarrow> bool) \<Rightarrow> string set \<Rightarrow> delegation_brief list \<Rightarrow> unit res" where
  "check_briefs credential allowed [] = Inr ()"
| "check_briefs credential allowed (b # bs) =
     (if \<not> set (db_allowed_tools b) \<subseteq> allowed
      then reject_delegation TOOLS_NOT_SUBSET ''a brief requests tools outside the parent's pinned set''
      else rbind (check_texts credential [db_objective b, db_success_condition b, case db_context b of None \<Rightarrow> [] | Some x \<Rightarrow> x])
        (\<lambda>_. check_briefs credential allowed bs))"

definition validate_request ::
    "(string \<Rightarrow> bool) \<Rightarrow> delegation_caps \<Rightarrow> delegation_request \<Rightarrow> run \<Rightarrow> (string, string set) dict \<Rightarrow> unit res" where
  "validate_request credential caps request run pinned =
     (if r_kind run = DELEGATED then reject_delegation DEPTH_EXCEEDED ''a delegated child cannot delegate further''
      else if int (length (dq_briefs request)) > dk_max_children_per_call caps
      then reject_delegation FANOUT_EXCEEDED ''the request exceeds the per-call brief cap''
      else check_briefs credential (fst ` set pinned - FORBIDDEN_CHILD_TOOLS) (dq_briefs request))"

text \<open>The scopes of the child's tools, as far as the parent run holds them; \<open>pinned\<close> maps a tool to its required scopes.\<close>

definition granted_scopes :: "run \<Rightarrow> (string, string set) dict \<Rightarrow> delegation_brief \<Rightarrow> string set" where
  "granted_scopes run pinned b = {scope \<in> (\<Union>tool \<in> set (db_allowed_tools b). case dget pinned tool of None \<Rightarrow> {} | Some ss \<Rightarrow> ss).
     scope \<in> r_principal_scopes run}"

definition admit_children :: "delegation_caps \<Rightarrow> delegation_repo \<Rightarrow> run \<Rightarrow> delegation_request \<Rightarrow> unit res" where
  "admit_children caps L run request = (let requested = int (length (dq_briefs request)) in
     if live_children_for_parent L (r_id run) + requested > dk_max_live_children_per_parent caps
     then reject_delegation FANOUT_EXCEEDED ''the request exceeds the live-children-per-parent cap''
     else if live_children_for_tenant L (r_tenant_id run) + requested > dk_max_live_delegated_runs_per_tenant caps
     then reject_delegation TENANT_CAP ''the request exceeds the tenant's live delegated-run cap''
     else Inr ())"

end
