(* ===== verification/Delegation_Join.thy ===== *)
theory Delegation_Join
  imports Delegated_Runs
begin

text \<open>
  \<open>DelegationJoin\<close> of \<open>application/delegations.py\<close>: when the last child of a delegation ends, the suspended
  tool call is completed, the children's usage is charged to the parent and the parent is woken. The two
  callbacks it is built with are those of \<open>runtime/executor.py\<close>; the serialized forms of a result, an
  outcome and a failure, and the truncation mark, are fields of \<open>join_env\<close>.
\<close>

subsection \<open>Values\<close>

record tool_outcome =
  to_failed :: bool
  to_action :: string
  to_reason_code :: string
  to_message :: string
  to_retryable :: bool
  to_remediation :: string

record tool_result_item =
  tt_call_id :: string
  tt_content :: "string list"
  tt_is_error :: bool
  tt_trust :: trust_level

record join_env =
  je_submit :: submit_env
  je_principal :: principal
  je_summary_max_bytes :: int
  je_truncated :: string
  je_isoformat :: "instant \<Rightarrow> string"
  je_dump_result :: "delegation_result \<Rightarrow> document"
  je_dump_outcome :: "tool_outcome \<Rightarrow> json"
  je_dump_item :: "tool_result_item \<Rightarrow> json"
  je_dump_failure :: "run_failure \<Rightarrow> json"

definition JOIN_SUCCEEDED_MESSAGE :: string where
  "JOIN_SUCCEEDED_MESSAGE = ''The delegated children completed; their summaries follow.''"

definition JOIN_CHILD_FAILED_MESSAGE :: string where
  "JOIN_CHILD_FAILED_MESSAGE = ''A delegated child run failed or was cancelled; its reason is in the result.''"

text \<open>\<open>reasoning_tokens\<close> stays unknown while it is unknown on both sides.\<close>

definition add_usage :: "run_usage \<Rightarrow> run_usage \<Rightarrow> run_usage" where
  "add_usage sofar addition =
     (let reasoning = (if u_reasoning_tokens sofar = None \<and> u_reasoning_tokens addition = None then None
        else Some ((case u_reasoning_tokens sofar of None \<Rightarrow> 0 | Some n \<Rightarrow> n)
          + (case u_reasoning_tokens addition of None \<Rightarrow> 0 | Some n \<Rightarrow> n))) in
      \<lparr> u_input_tokens = u_input_tokens sofar + u_input_tokens addition,
        u_cached_input_tokens = u_cached_input_tokens sofar + u_cached_input_tokens addition,
        u_cache_write_input_tokens = u_cache_write_input_tokens sofar + u_cache_write_input_tokens addition,
        u_output_tokens = u_output_tokens sofar + u_output_tokens addition,
        u_reasoning_tokens = reasoning,
        u_model_calls = u_model_calls sofar + u_model_calls addition,
        u_tool_calls = u_tool_calls sofar + u_tool_calls addition,
        u_cost = u_cost sofar + u_cost addition \<rparr>)"

text \<open>UTF-8 length, and the characters whose encoding fits a number of bytes (an incomplete last one is dropped).\<close>

definition utf8_size :: "char \<Rightarrow> nat" where
  "utf8_size c = (if (of_char c :: nat) < 128 then 1 else 2)"

fun utf8_prefix :: "nat \<Rightarrow> string \<Rightarrow> string" where
  "utf8_prefix n [] = []"
| "utf8_prefix n (c # cs) = (if utf8_size c \<le> n then c # utf8_prefix (n - utf8_size c) cs else [])"

definition bounded_summary :: "string \<Rightarrow> string option \<Rightarrow> int \<Rightarrow> string option" where
  "bounded_summary mark final_message bytes = (case final_message of
      None \<Rightarrow> None
    | Some m \<Rightarrow> if int (sum_list (map utf8_size m)) \<le> bytes then Some m else Some (utf8_prefix (nat bytes) m @ mark))"

text \<open>
  The kept part of a long message fits the given number of bytes; the mark comes on top, so a shortened
  summary is longer than that.
\<close>

lemma utf8_prefix_fits: "sum_list (map utf8_size (utf8_prefix n m)) \<le> n"
  by (induction n m rule: utf8_prefix.induct) auto

lemma shortened_summary_exceeds:
  assumes "mark \<noteq> []"
  shows "\<exists>s. bounded_summary mark (Some ''abcd'') 3 = Some s \<and> 3 < int (sum_list (map utf8_size s))"
proof -
  have "bounded_summary mark (Some ''abcd'') 3 = Some (''abc'' @ mark)"
    by (simp add: bounded_summary_def utf8_size_def numeral_eq_Suc)
  moreover have "0 < sum_list (map utf8_size mark)" using assms by (cases mark) (simp_all add: utf8_size_def)
  ultimately show ?thesis by (simp add: utf8_size_def)
qed

subsection \<open>The finished children\<close>

definition find_delegation :: "delegation_repo \<Rightarrow> uuid \<Rightarrow> uuid \<Rightarrow> delegation option" where
  "find_delegation L parent child =
     find (\<lambda>row. \<exists>c \<in> set (dg_children row). dc_child_run_id c = Some child) (get_for_parent_run L parent)"

text \<open>The runs of all children by index, or nothing when one is erased or has not ended.\<close>

fun finished_children ::
    "session_repo \<Rightarrow> run_repo \<Rightarrow> principal \<Rightarrow> delegation_child list \<Rightarrow> (int, run) dict \<Rightarrow> (int, run) dict option res" where
  "finished_children S R p [] runs = Inr (Some runs)"
| "finished_children S R p (c # cs) runs = (case dc_child_run_id c of
      None \<Rightarrow> Inr None
    | Some i \<Rightarrow> rbind (run_get S R i p) (\<lambda>sibling.
        if r_status sibling \<notin> TERMINAL_RUN_STATUSES then Inr None
        else finished_children S R p cs (dset (dc_index c) sibling runs)))"

definition failure_text :: "run \<Rightarrow> string option" where
  "failure_text r = map_option (\<lambda>f. failure_reason_value (fail_reason f)) (r_failure r)"

definition child_artifacts :: "join_env \<Rightarrow> artifact_repo \<Rightarrow> delegation_return \<Rightarrow> run \<Rightarrow> uuid list" where
  "child_artifacts env A shape sibling = (if shape = Return_SUMMARY_AND_ARTIFACTS
     then map ar_id (artifact_list_for_run A (r_id sibling) (je_principal env)) else [])"

definition recorded_child :: "join_env \<Rightarrow> artifact_repo \<Rightarrow> delegation_return \<Rightarrow> delegation_child \<Rightarrow> run \<Rightarrow> delegation_child" where
  "recorded_child env A shape c sibling = c\<lparr> dc_status := Some (r_status sibling),
     dc_summary := bounded_summary (je_truncated env) (r_final_message sibling) (je_summary_max_bytes env),
     dc_artifact_refs := child_artifacts env A shape sibling, dc_usage := Some (r_usage sibling),
     dc_failure_reason := failure_text sibling \<rparr>"

definition outcome_of :: "join_env \<Rightarrow> artifact_repo \<Rightarrow> delegation_return \<Rightarrow> uuid \<Rightarrow> run \<Rightarrow> child_outcome res" where
  "outcome_of env A shape session_id sibling = rbind (status_is_terminal (r_status sibling)) (\<lambda>status.
     Inr \<lparr> co_child_run_id = r_id sibling, co_child_session_id = session_id, co_status = status,
       co_summary = bounded_summary (je_truncated env) (r_final_message sibling) (je_summary_max_bytes env),
       co_artifact_refs = child_artifacts env A shape sibling, co_usage = r_usage sibling,
       co_failure_reason = failure_text sibling \<rparr>)"

fun join_children ::
    "join_env \<Rightarrow> artifact_repo \<Rightarrow> delegation_return \<Rightarrow> (int, run) dict \<Rightarrow> delegation_child list \<Rightarrow>
       (delegation_child \<times> child_outcome) list res" where
  "join_children env A shape runs [] = Inr []"
| "join_children env A shape runs (c # cs) = rbind (dlookup KeyError runs (dc_index c)) (\<lambda>sibling.
     case dc_child_session_id c of
       None \<Rightarrow> Inl AssertionError
     | Some session_id \<Rightarrow> rbind (outcome_of env A shape session_id sibling) (\<lambda>outcome.
         rbind (join_children env A shape runs cs) (\<lambda>rest. Inr ((recorded_child env A shape c sibling, outcome) # rest))))"

definition joined_delegation :: "delegation \<Rightarrow> (delegation_child \<times> child_outcome) list \<Rightarrow> instant \<Rightarrow> delegation" where
  "joined_delegation g joined t = g\<lparr> dg_status := Delegation_JOINED, dg_children := map fst joined,
     dg_result := Some \<lparr> dx_delegation_id = dg_id g, dx_children = map snd joined \<rparr>, dg_joined_at := Some t \<rparr>"

subsection \<open>The suspended tool call\<close>

definition any_child_failed :: "delegation_result \<Rightarrow> bool" where
  "any_child_failed r \<longleftrightarrow> (\<exists>c \<in> set (dx_children r). co_status c \<noteq> Run_COMPLETED)"

definition join_outcome :: "tool_invocation \<Rightarrow> bool \<Rightarrow> tool_outcome" where
  "join_outcome call failed = \<lparr> to_failed = failed, to_action = ti_tool_name call,
     to_reason_code = (if failed then ''delegation.child_failed'' else ''tool.succeeded''),
     to_message = (if failed then JOIN_CHILD_FAILED_MESSAGE else JOIN_SUCCEEDED_MESSAGE),
     to_retryable = False, to_remediation = ''none'' \<rparr>"

definition child_text :: "child_outcome \<Rightarrow> string" where
  "child_text c = (case co_summary c of
      Some x \<Rightarrow> x
    | None \<Rightarrow> ''The delegated child ended '' @ map py_lower_char (run_status_value (co_status c))
        @ (case co_failure_reason c of None \<Rightarrow> ''.'' | Some r \<Rightarrow> if r = [] then ''.'' else '' ('' @ r @ '').''))"

definition join_item :: "tool_invocation \<Rightarrow> delegation_result \<Rightarrow> bool \<Rightarrow> tool_result_item" where
  "join_item call r failed = \<lparr> tt_call_id = ti_call_id call, tt_content = map child_text (dx_children r), tt_is_error = failed,
     tt_trust = Trust_EXTERNAL_UNTRUSTED \<rparr>"

definition completed_call :: "join_env \<Rightarrow> tool_invocation \<Rightarrow> delegation_result \<Rightarrow> instant \<Rightarrow> tool_invocation" where
  "completed_call env call r t = (let failed = any_child_failed r in
     call\<lparr> ti_status := (if failed then Tool_FAILED else Tool_SUCCEEDED), ti_suspended_kind := None, ti_suspended_ref := None,
       ti_outcome := Some (je_dump_outcome env (join_outcome call failed)),
       ti_result_item := Some (je_dump_item env (join_item call r failed)),
       ti_structured_result := Some (je_dump_result env r), ti_updated_at := t \<rparr>)"

definition completed_event :: "join_env \<Rightarrow> delegation \<Rightarrow> tool_invocation \<Rightarrow> delegation_result \<Rightarrow> new_event" where
  "completed_event env g call r = (let failed = any_child_failed r in
     plain_event (dg_parent_session_id g) (Some (dg_parent_run_id g)) ''tool.call.completed'' ''runtime'' None
       [(''name'', JStr (ti_tool_name call)), (''call_id'', JStr (ti_call_id call)),
        (''reason_code'', JStr (to_reason_code (join_outcome call failed))),
        (''result_item'', je_dump_item env (join_item call r failed)), (''delegation_id'', JStr (uuid_str (dg_id g)))])"

definition waits_for_children :: "tool_invocation \<Rightarrow> bool" where
  "waits_for_children call \<longleftrightarrow> ti_status call = Tool_RUNNING \<and> ti_suspended_kind call = Some ''child_run''"

definition complete_invocation :: "join_env \<Rightarrow> delegation \<Rightarrow> instant \<Rightarrow> unit delegating" where
  "complete_invocation env g t =
     pbind (pget (\<lambda>d. tool_list_for_run (w_sessions (zw_world (dw_base d))) (w_runs (zw_world (dw_base d))) (dw_tools d)
       (dg_parent_run_id g) (je_principal env))) (\<lambda>found. pbind (try_res found) (\<lambda>calls.
     case find (\<lambda>call. ti_id call = dg_invocation_id g) calls of
       None \<Rightarrow> preturn ()
     | Some call \<Rightarrow>
         if \<not> waits_for_children call then preturn ()
         else (case dg_result g of
             None \<Rightarrow> praise (Raised AssertionError)
           | Some r \<Rightarrow>
               pbind (on_tools (\<lambda>T. tool_transition T (ti_id call) Tool_RUNNING (completed_call env call r t) None)) (\<lambda>_.
               pbind (on_world (append_event (je_submit env) (completed_event env g call r) None)) (\<lambda>_. preturn ())))))"

subsection \<open>The parent\<close>

text \<open>\<open>RunExecutor.requeue_after_child\<close> and \<open>fail_suspended_on_budget\<close>.\<close>

definition move_run :: "uuid \<Rightarrow> run_status \<Rightarrow> run_status \<Rightarrow> run_failure option \<Rightarrow> run service" where
  "move_run i expected new_status failure = pbind now (\<lambda>t. on_store (\<lambda>w.
     rbind (run_transition (w_runs w) i expected new_status failure None None t) (\<lambda>(r, R). Inr (r, w\<lparr> w_runs := R \<rparr>))))"

definition requeue_after_child :: "run \<Rightarrow> run service" where
  "requeue_after_child parent = move_run (r_id parent) Run_WAITING_FOR_APPROVAL Run_QUEUED None"

definition budget_failure :: "run \<Rightarrow> string \<Rightarrow> instant \<Rightarrow> run_failure" where
  "budget_failure parent m t = \<lparr> fail_reason = BUDGET_EXCEEDED, fail_error_class = ''BudgetExceededError'', fail_message = m,
     fail_step_number = (if r_step_count parent = 0 then None else Some (r_step_count parent)), fail_attempt_number = None,
     fail_occurred_at = t, fail_details = [] \<rparr>"

definition failed_event :: "join_env \<Rightarrow> run \<Rightarrow> run_failure \<Rightarrow> new_event" where
  "failed_event env parent failure = plain_event (r_session_id parent) (Some (r_id parent)) ''run.failed'' ''runtime'' None
     [(''failure'', je_dump_failure env failure)]"

definition fail_suspended_on_budget :: "join_env \<Rightarrow> run \<Rightarrow> string \<Rightarrow> run service" where
  "fail_suspended_on_budget env parent m = pbind now (\<lambda>t. let failure = budget_failure parent m t in
     pbind (move_run (r_id parent) Run_WAITING_FOR_APPROVAL Run_FAILED (Some failure)) (\<lambda>failed.
     pbind (append_event (je_submit env) (failed_event env parent failure) None) (\<lambda>_. preturn failed)))"

text \<open>\<open>except ConflictError: return False\<close>\<close>

definition unless_conflict :: "'a \<Rightarrow> 'a delegating \<Rightarrow> 'a delegating" where
  "unless_conflict fallback m d = (case m d of
      (Inl (Raised (ConflictError msg reason)), d') \<Rightarrow> (Inr fallback, d')
    | other \<Rightarrow> other)"

definition over_budget :: "run \<Rightarrow> bool" where
  "over_budget parent \<longleftrightarrow> (case max_cost (r_limits parent) of None \<Rightarrow> False | Some c \<Rightarrow> u_cost (r_usage parent) > c)"

definition wake_parent :: "join_env \<Rightarrow> run \<Rightarrow> bool delegating" where
  "wake_parent env parent = unless_conflict False
     (if over_budget parent
      then pbind (on_world (fail_suspended_on_budget env parent ''delegated children exceeded the parent's remaining cost''))
        (\<lambda>_. preturn False)
      else pbind (on_world (requeue_after_child parent)) (\<lambda>_. preturn True))"

definition resume_parent :: "join_env \<Rightarrow> uuid \<Rightarrow> unit delegating" where
  "resume_parent env i = unless_conflict () (on_world (dispatch_resume (je_submit env) i))"

subsection \<open>The join\<close>

definition child_terminal_event :: "join_env \<Rightarrow> uuid \<Rightarrow> delegation \<Rightarrow> uuid \<Rightarrow> run \<Rightarrow> instant \<Rightarrow> process_event" where
  "child_terminal_event env i g parent child t = runtime_event i ''delegation.child_terminal'' None
     [(''delegation_id'', JStr (uuid_str (dg_id g))), (''tenant_id'', JStr (dg_tenant_id g)),
      (''parent_run_id'', JStr (uuid_str parent)), (''child_run_id'', JStr (uuid_str (r_id child))),
      (''status'', JStr (run_status_value (r_status child))), (''failure_reason'', opt_str (failure_text child)),
      (''event_time'', JStr (je_isoformat env t))]
     (''delegation.child_terminal:'' @ uuid_str (r_id child)) t"

definition outcome_json :: "child_outcome \<Rightarrow> json" where
  "outcome_json c = JObj [(''child_run_id'', JStr (uuid_str (co_child_run_id c))),
     (''status'', JStr (run_status_value (co_status c))), (''failure_reason'', opt_str (co_failure_reason c))]"

definition joined_event :: "join_env \<Rightarrow> uuid \<Rightarrow> delegation \<Rightarrow> uuid \<Rightarrow> child_outcome list \<Rightarrow> instant \<Rightarrow> process_event" where
  "joined_event env i g parent outcomes t = runtime_event i ''delegation.joined'' None
     [(''delegation_id'', JStr (uuid_str (dg_id g))), (''tenant_id'', JStr (dg_tenant_id g)),
      (''parent_run_id'', JStr (uuid_str parent)), (''invocation_id'', JStr (uuid_str (dg_invocation_id g))),
      (''children'', JArr (map outcome_json outcomes)), (''event_time'', JStr (je_isoformat env t))]
     (''delegation.joined:'' @ uuid_str (dg_id g)) t"

text \<open>\<open>try: transition except ConflictError: return\<close>\<close>

definition mark_joined :: "delegation \<Rightarrow> delegation \<Rightarrow> bool delegating" where
  "mark_joined g updated = unless_conflict False
     (on_ledger (\<lambda>L. rbind (delegation_transition L (dg_id g) Delegation_RUNNING updated) (\<lambda>L'. Inr (True, L'))))"

definition charge_parent :: "join_env \<Rightarrow> uuid \<Rightarrow> child_outcome list \<Rightarrow> instant \<Rightarrow> run delegating" where
  "charge_parent env i outcomes t =
     pbind (pget (\<lambda>d. run_get (w_sessions (zw_world (dw_base d))) (w_runs (zw_world (dw_base d))) i (je_principal env))) (\<lambda>found.
     pbind (try_res found) (\<lambda>parent.
     let charged = parent\<lparr> r_usage := foldl add_usage (r_usage parent) (map co_usage outcomes), r_updated_at := t \<rparr> in
     pbind (on_world (on_store (\<lambda>w. rbind (update_counters (w_runs w) charged None) (\<lambda>R. Inr ((), w\<lparr> w_runs := R \<rparr>))))) (\<lambda>_.
       preturn charged)))"

definition finish_join :: "join_env \<Rightarrow> delegation \<Rightarrow> delegation \<Rightarrow> uuid \<Rightarrow> child_outcome list \<Rightarrow> instant \<Rightarrow> bool delegating" where
  "finish_join env g updated i outcomes t =
     pbind (complete_invocation env updated t) (\<lambda>_.
     pbind (charge_parent env i outcomes t) (\<lambda>parent.
     pbind (on_world new_id) (\<lambda>k.
     pbind (on_base (append_process (joined_event env k g i outcomes t))) (\<lambda>_.
       if r_status parent = Run_WAITING_FOR_APPROVAL then wake_parent env parent else preturn False))))"

definition join_body :: "join_env \<Rightarrow> delegation \<Rightarrow> uuid \<Rightarrow> instant \<Rightarrow> bool delegating" where
  "join_body env g i t =
     pbind (pget (\<lambda>d. finished_children (w_sessions (zw_world (dw_base d))) (w_runs (zw_world (dw_base d))) (je_principal env)
       (dg_children g) [])) (\<lambda>found. pbind (try_res found) (\<lambda>finished. case finished of
       None \<Rightarrow> preturn False
     | Some runs \<Rightarrow>
         pbind (pget (\<lambda>d. join_children env (dw_artifacts d) (dq_return_shape (dg_request g)) runs (dg_children g))) (\<lambda>made.
         pbind (try_res made) (\<lambda>joined.
         let updated = joined_delegation g joined t in
         pbind (mark_joined g updated) (\<lambda>first.
           if \<not> first then preturn False else finish_join env g updated i (map snd joined) t)))))"

definition note_terminal :: "join_env \<Rightarrow> uuid \<Rightarrow> run \<Rightarrow> instant \<Rightarrow> delegation option delegating" where
  "note_terminal env i child t =
     pbind (pget (\<lambda>d. find_delegation (dw_ledger d) i (r_id child))) (\<lambda>found. case found of
       None \<Rightarrow> preturn None
     | Some g \<Rightarrow> pbind (on_world new_id) (\<lambda>k.
         pbind (on_base (append_process (child_terminal_event env k g i child t))) (\<lambda>_. preturn (Some g))))"

definition child_terminal :: "join_env \<Rightarrow> run \<Rightarrow> unit delegating" where
  "child_terminal env child =
     pbind (on_world now) (\<lambda>t. case r_parent_run_id child of
       None \<Rightarrow> praise (Raised AssertionError)
     | Some i \<Rightarrow> pbind (delegation_unit (note_terminal env i child t)) (\<lambda>found. case found of
         None \<Rightarrow> preturn ()
       | Some g \<Rightarrow>
           if dg_status g \<noteq> Delegation_RUNNING then preturn ()
           else pbind (delegation_unit (join_body env g i t)) (\<lambda>resumed.
             if resumed then resume_parent env i else preturn ())))"

definition read_run :: "join_env \<Rightarrow> uuid \<Rightarrow> run delegating" where
  "read_run env i = pbind (pget (\<lambda>d. run_get (w_sessions (zw_world (dw_base d))) (w_runs (zw_world (dw_base d))) i (je_principal env)))
     try_res"

definition after_child_run :: "join_env \<Rightarrow> uuid \<Rightarrow> unit delegating" where
  "after_child_run env i = pbind (delegation_unit (read_run env i)) (\<lambda>run.
     if r_kind run \<noteq> DELEGATED \<or> r_parent_run_id run = None \<or> r_status run \<notin> TERMINAL_RUN_STATUSES then preturn ()
     else child_terminal env run)"

text \<open>\<open>except Exception: logger.exception(...)\<close>\<close>

definition contained :: "unit delegating \<Rightarrow> unit delegating" where
  "contained m d = (case m d of (_, d') \<Rightarrow> (Inr (), d'))"

definition after_run :: "join_env \<Rightarrow> uuid \<Rightarrow> unit delegating" where
  "after_run env i = contained (after_child_run env i)"

subsection \<open>The parked parent\<close>

fun dispatch_children :: "join_env \<Rightarrow> delegation_child list \<Rightarrow> unit delegating" where
  "dispatch_children env [] = preturn ()"
| "dispatch_children env (c # cs) = (case dc_child_run_id c of
      None \<Rightarrow> dispatch_children env cs
    | Some i \<Rightarrow> pbind (on_world (dispatch (je_submit env) i)) (\<lambda>_. dispatch_children env cs))"

definition read_delegation :: "join_env \<Rightarrow> uuid \<Rightarrow> delegation delegating" where
  "read_delegation env i = delegation_unit (pbind (pget (\<lambda>d. delegation_get (dw_ledger d) i (je_principal env))) try_res)"

definition parked_body :: "join_env \<Rightarrow> uuid \<Rightarrow> uuid \<Rightarrow> unit delegating" where
  "parked_body env parent_id i =
     pbind (read_delegation env i) (\<lambda>g0.
     pbind (if dg_status g0 \<in> LIVE_STATUSES
       then pbind (dispatch_children env (dg_children g0)) (\<lambda>_. read_delegation env i) else preturn g0) (\<lambda>g.
     if dg_status g \<noteq> Delegation_JOINED then preturn ()
     else pbind (delegation_unit (pbind (read_run env parent_id) (\<lambda>parent.
         if r_status parent = Run_WAITING_FOR_APPROVAL then wake_parent env parent else preturn False))) (\<lambda>resumed.
       if resumed then resume_parent env parent_id else preturn ())))"

definition parent_parked :: "join_env \<Rightarrow> uuid \<Rightarrow> uuid \<Rightarrow> unit delegating" where
  "parent_parked env parent_id i = contained (parked_body env parent_id i)"

subsection \<open>What the steps leave alone\<close>

definition runs_of :: "delegation_world \<Rightarrow> (uuid, run) dict" where
  "runs_of d = rr_runs (w_runs (zw_world (dw_base d)))"

definition usage_of :: "delegation_world \<Rightarrow> uuid \<Rightarrow> run_usage option" where
  "usage_of d i = map_option r_usage (dget (runs_of d) i)"

text \<open>Neither the ledger nor any run changes.\<close>

definition same_rows :: "delegation_world \<Rightarrow> delegation_world \<Rightarrow> bool" where
  "same_rows d d' \<longleftrightarrow> dw_ledger d' = dw_ledger d \<and> w_runs (zw_world (dw_base d')) = w_runs (zw_world (dw_base d))"

text \<open>The ledger and every run's usage stay; runs may move.\<close>

definition same_usage :: "delegation_world \<Rightarrow> delegation_world \<Rightarrow> bool" where
  "same_usage d d' \<longleftrightarrow> dw_ledger d' = dw_ledger d \<and> (\<forall>i. usage_of d' i = usage_of d i)"

interpretation rows_same: evolution same_rows
  by unfold_locales (auto simp: same_rows_def)

interpretation usage_same: evolution same_usage
  by unfold_locales (auto simp: same_usage_def)

lemma same_rows_usage: "same_rows d d' \<Longrightarrow> same_usage d d'"
  by (simp add: same_rows_def same_usage_def usage_of_def runs_of_def)

lemma stays_rows_usage: "stays same_rows m \<Longrightarrow> stays same_usage m"
  unfolding stays_def using same_rows_usage by blast

lemma stays_rows_world: "stays same_runs m \<Longrightarrow> stays same_rows (on_world m)"
  by (simp add: stays_def same_runs_def same_rows_def on_base_def zlift_def case_prod_beta)

lemma stays_rows_process: "stays same_rows (on_base (append_process e))"
  by (auto simp: stays_def same_rows_def on_base_def append_process_def split: sum.splits)

lemma stays_rows_basic: "stays same_rows (try_res r)" "stays same_rows (on_tools f)"
  by (auto simp: stays_def same_rows_def try_res_def on_tools_def split: sum.splits prod.splits)

text \<open>A unit of work changes neither runs nor ledger of its own.\<close>

lemma unit_snd:
  assumes "\<And>d d' d''. R (entered d) d' \<Longrightarrow> dw_ledger d'' = dw_ledger d' \<Longrightarrow>
      w_runs (zw_world (dw_base d'')) = w_runs (zw_world (dw_base d')) \<Longrightarrow> R d d''" and "stays R m"
  shows "stays R (delegation_unit m)"
  unfolding stays_def
proof
  fix d
  obtain r d1 where m: "m (entered d) = (r, d1)" by (cases "m (entered d)")
  have "dw_ledger (snd (delegation_unit m d)) = dw_ledger d1"
      "w_runs (zw_world (dw_base (snd (delegation_unit m d)))) = w_runs (zw_world (dw_base d1))"
    using m by (cases r; simp add: delegation_unit_def Let_def entered_def commit_unit_def abort_unit_def)+
  then show "R d (snd (delegation_unit m d))" using assms(1) staysD [OF assms(2) m] by blast
qed

lemma entered_runs [simp]: "w_runs (zw_world (dw_base (entered d))) = w_runs (zw_world (dw_base d))"
  by (simp add: entered_def enter_unit_def)

lemma stays_rows_unit: "stays same_rows m \<Longrightarrow> stays same_rows (delegation_unit m)"
  by (rule unit_snd) (auto simp: same_rows_def)

lemma stays_usage_unit: "stays same_usage m \<Longrightarrow> stays same_usage (delegation_unit m)"
  by (rule unit_snd) (auto simp: same_usage_def usage_of_def runs_of_def)

lemma unless_conflict_snd [simp]: "snd (unless_conflict x m d) = snd (m d)"
  by (auto simp: unless_conflict_def split: prod.splits sum.splits submit_exn.splits error.splits)

lemma stays_unless: "stays R m \<Longrightarrow> stays R (unless_conflict x m)"
  by (simp add: stays_def)

lemma stays_contained: "stays R m \<Longrightarrow> stays R (contained m)"
  by (simp add: stays_def contained_def case_prod_beta)

lemmas rows_same_laws = rows_same.stays_return rows_same.stays_bind stays_rows_process stays_rows_basic stays_rows_unit
  stays_rows_world stays_if stays_case_option stays_unless

lemma stays_rows_complete: "stays same_rows (complete_invocation env g t)"
  unfolding complete_invocation_def by (intro rows_same_laws stays_runs_append)

lemma stays_runs_new_id: "stays same_runs new_id"
  by (simp add: stays_def same_runs_def new_id_def)

lemma stays_rows_note: "stays same_rows (note_terminal env i child t)"
  unfolding note_terminal_def by (intro rows_same_laws stays_runs_new_id)

lemma stays_runs_dispatch: "stays same_runs (dispatch_resume env i)" "stays same_runs (dispatch env i)"
  unfolding dispatch_resume_def dispatch_def run_now_def record_call_def pmodify_def pbind_def praise_def preturn_def pget_def
  by (auto simp: stays_def same_runs_def split: option.splits sum.splits)

lemma stays_rows_resume: "stays same_rows (resume_parent env i)"
  unfolding resume_parent_def by (intro rows_same_laws stays_runs_dispatch)

lemma stays_usage_move: "stays same_usage (on_world (move_run i expected s failure))"
proof -
  have "map_option r_usage (dget (rr_runs (w_runs (snd (move_run i expected s failure w)))) j) = map_option r_usage (dget (rr_runs (w_runs w)) j)"
    for w j
    by (auto simp: move_run_def pbind_def now_def on_store_def run_transition_def rbind_def dlookup_def Let_def
        split: sum.splits prod.splits option.splits if_splits)
  then show ?thesis
    by (simp add: stays_def same_usage_def usage_of_def runs_of_def on_base_def zlift_def case_prod_beta)
qed

lemma stays_usage_wake: "stays same_usage (wake_parent env parent)"
proof -
  have fail: "stays same_usage (on_world (fail_suspended_on_budget env parent m))" for m
  proof -
    have "snd (on_world (fail_suspended_on_budget env parent m) d) = snd (pbind (on_world now) (\<lambda>t. let failure = budget_failure parent m t in
       pbind (on_world (move_run (r_id parent) Run_WAITING_FOR_APPROVAL Run_FAILED (Some failure))) (\<lambda>failed.
       pbind (on_world (append_event (je_submit env) (failed_event env parent failure) None)) (\<lambda>_. preturn failed))) d)" for d
      by (simp add: fail_suspended_on_budget_def on_base_def zlift_def pbind_def preturn_def now_def Let_def case_prod_beta split: sum.splits)
    moreover have "stays same_usage (pbind (on_world now) (\<lambda>t. let failure = budget_failure parent m t in
       pbind (on_world (move_run (r_id parent) Run_WAITING_FOR_APPROVAL Run_FAILED (Some failure))) (\<lambda>failed.
       pbind (on_world (append_event (je_submit env) (failed_event env parent failure) None)) (\<lambda>_. preturn failed))))"
      unfolding Let_def
      by (intro usage_same.stays_bind usage_same.stays_return stays_usage_move stays_rows_usage [OF stays_rows_world]
          stays_runs_append stays_runs_basic)
    ultimately show ?thesis by (simp add: stays_def)
  qed
  show ?thesis
    unfolding wake_parent_def requeue_after_child_def
    by (intro stays_unless stays_if usage_same.stays_bind usage_same.stays_return fail stays_usage_move)
qed

subsection \<open>What a join does\<close>

text \<open>A valid ledger: rows under their identifiers, children numbered in order.\<close>

definition ledger_ok :: "delegation_repo \<Rightarrow> bool" where
  "ledger_ok L \<longleftrightarrow> keyed dg_id L \<and> (\<forall>g \<in> set (dvals L). map dc_index (dg_children g) = map int [0..<length (dg_children g)])"

text \<open>\<open>rs\<close> are the runs of the children, all ended.\<close>

definition ended_children :: "(uuid, run) dict \<Rightarrow> delegation \<Rightarrow> run list \<Rightarrow> bool" where
  "ended_children R g rs \<longleftrightarrow> list_all2 (\<lambda>c r. \<exists>i. dc_child_run_id c = Some i \<and> dget R i = Some r
     \<and> r_status r \<in> TERMINAL_RUN_STATUSES) (dg_children g) rs"

lemma run_get_Inr: "run_get S R i p = Inr r \<Longrightarrow> dget (rr_runs R) i = Some r"
  by (auto simp: run_get_def rbind_Inr_iff)

lemma finished_children_Some:
  assumes "finished_children S R p cs acc = Inr (Some runs)" and "distinct (map dc_index cs)"
  shows "\<exists>rs. list_all2 (\<lambda>c r. \<exists>i. dc_child_run_id c = Some i \<and> dget (rr_runs R) i = Some r \<and> r_status r \<in> TERMINAL_RUN_STATUSES
      \<and> dget runs (dc_index c) = Some r) cs rs \<and> (\<forall>k. k \<notin> set (map dc_index cs) \<longrightarrow> dget runs k = dget acc k)"
  using assms
proof (induction cs arbitrary: acc)
  case (Cons c cs)
  obtain i r where i: "dc_child_run_id c = Some i" and r: "run_get S R i p = Inr r" "r_status r \<in> TERMINAL_RUN_STATUSES"
    and rest: "finished_children S R p cs (dset (dc_index c) r acc) = Inr (Some runs)"
    using Cons.prems(1) by (auto simp: rbind_Inr_iff split: option.splits if_splits)
  obtain rs where rs: "list_all2 (\<lambda>c r. \<exists>i. dc_child_run_id c = Some i \<and> dget (rr_runs R) i = Some r \<and> r_status r \<in> TERMINAL_RUN_STATUSES
      \<and> dget runs (dc_index c) = Some r) cs rs" "\<forall>k. k \<notin> set (map dc_index cs) \<longrightarrow> dget runs k = dget (dset (dc_index c) r acc) k"
    using Cons.IH [OF rest] Cons.prems(2) by auto
  have "dget runs (dc_index c) = Some r" using rs(2) Cons.prems(2) by simp
  then show ?case using rs i r run_get_Inr [OF r(1)] by (intro exI [of _ "r # rs"]) auto
qed simp

lemma join_children_Inr:
  assumes "join_children env A shape runs cs = Inr joined"
    and "list_all2 (\<lambda>c r. dget runs (dc_index c) = Some r) cs rs"
  shows "map (\<lambda>x. co_usage (snd x)) joined = map r_usage rs \<and> map (\<lambda>x. dc_index (fst x)) joined = map dc_index cs
    \<and> length joined = length cs"
  using assms
proof (induction cs arbitrary: joined rs)
  case (Cons c cs)
  obtain r rest where rs: "rs = r # rest" "dget runs (dc_index c) = Some r" "list_all2 (\<lambda>c r. dget runs (dc_index c) = Some r) cs rest"
    using Cons.prems(2) by (auto simp: list_all2_Cons1)
  obtain o' tl where joined: "joined = (recorded_child env A shape c r, o') # tl" "co_usage o' = r_usage r"
      "join_children env A shape runs cs = Inr tl"
    using Cons.prems(1) rs(2) by (auto simp: rbind_Inr_iff dlookup_def outcome_of_def split: option.splits)
  show ?case using Cons.IH [OF joined(3) rs(3)] joined rs by (simp add: recorded_child_def)
qed simp

lemma charge_parent_effect:
  assumes "charge_parent env i outcomes t d = (Inr parent, d')" and "keyed r_id (runs_of d)"
  shows "dw_ledger d' = dw_ledger d \<and> (\<exists>u. usage_of d i = Some u
    \<and> usage_of d' i = Some (foldl add_usage u (map co_usage outcomes)))"
proof -
  obtain r w' where r: "run_get (w_sessions (zw_world (dw_base d))) (w_runs (zw_world (dw_base d))) i (je_principal env) = Inr r"
    and R: "update_counters (w_runs (zw_world (dw_base d))) (r\<lparr> r_usage := foldl add_usage (r_usage r) (map co_usage outcomes),
        r_updated_at := t \<rparr>) None = Inr w'"
    and d': "d' = d\<lparr> dw_base := (dw_base d)\<lparr> zw_world := (zw_world (dw_base d))\<lparr> w_runs := w' \<rparr> \<rparr> \<rparr>"
    using assms(1) by (auto simp: charge_parent_def pbind_Inr_iff rbind_Inr_iff Let_def)
  have stored: "dget (runs_of d) i = Some r" using run_get_Inr [OF r] by (simp add: runs_of_def)
  then have id: "r_id r = i" using keyed_dget [OF assms(2)] by blast
  have "map_option r_usage (dget (rr_runs w') i) = Some (foldl add_usage (r_usage r) (map co_usage outcomes))"
    using R id by (auto simp: update_counters_def rbind_Inr_iff Let_def split: if_splits)
  then show ?thesis using stored d' by (simp add: usage_of_def runs_of_def)
qed

lemma transition_Inr:
  "delegation_transition L i e u = Inr L' \<Longrightarrow> (\<exists>row. dget L i = Some row \<and> dg_status row = e) \<and> L' = dset i u L \<and> dg_id u = i"
  by (auto simp: delegation_transition_def split: option.splits if_splits)

text \<open>What the second unit of work did, if it finished.\<close>

definition joins_now :: "delegation \<Rightarrow> uuid \<Rightarrow> delegation_world \<Rightarrow> delegation_world \<Rightarrow> bool" where
  "joins_now g i d d' \<longleftrightarrow> (\<exists>rs updated u. ended_children (runs_of d) g rs \<and> usage_of d i = Some u
     \<and> usage_of d' i = Some (foldl add_usage u (map r_usage rs)) \<and> dg_status updated = Delegation_JOINED
     \<and> (\<exists>row. dget (dw_ledger d) (dg_id g) = Some row \<and> dg_status row = Delegation_RUNNING)
     \<and> dw_ledger d' = dset (dg_id g) updated (dw_ledger d))"

lemma joins_now_cong:
  assumes "joins_now g i d1 d2" and "runs_of d1 = runs_of d" "dw_ledger d1 = dw_ledger d" and "same_usage d2 d'"
  shows "joins_now g i d d'"
proof -
  have "usage_of d1 i = usage_of d i" "usage_of d' i = usage_of d2 i" "dw_ledger d' = dw_ledger d2"
    using assms(2,4) by (simp_all add: same_usage_def usage_of_def)
  then show ?thesis using assms(1-3) unfolding joins_now_def by simp
qed

lemma finish_join_effect:
  assumes "finish_join env g updated i outcomes t d = (Inr b, d')" and "keyed r_id (runs_of d)"
  shows "dw_ledger d' = dw_ledger d \<and> (\<exists>u. usage_of d i = Some u
    \<and> usage_of d' i = Some (foldl add_usage u (map co_usage outcomes)))"
proof -
  obtain d1 parent d2 k d3 d4 where
      one: "complete_invocation env updated t d = (Inr (), d1)"
    and two: "charge_parent env i outcomes t d1 = (Inr parent, d2)"
    and three: "on_world new_id d2 = (Inr k, d3)"
    and four: "on_base (append_process (joined_event env k g i outcomes t)) d3 = (Inr (), d4)"
    and five: "(if r_status parent = Run_WAITING_FOR_APPROVAL then wake_parent env parent else preturn False) d4 = (Inr b, d')"
    using assms(1) unfolding finish_join_def by (auto simp: pbind_Inr_iff simp del: on_base_Inr)
  have d1: "same_rows d d1" using staysD [OF stays_rows_complete one] .
  have "keyed r_id (runs_of d1)" using assms(2) d1 by (simp add: same_rows_def runs_of_def)
  note charged = charge_parent_effect [OF two this]
  have "same_usage d2 d'"
    using staysD [OF stays_rows_world [OF stays_runs_new_id] three] staysD [OF stays_rows_process four]
      staysD [OF stays_if [OF stays_usage_wake usage_same.stays_return(1)] five]
    by (meson same_rows_usage usage_same.R_trans)
  moreover have "same_usage d d1" using d1 by (rule same_rows_usage)
  ultimately show ?thesis using charged by (simp add: same_usage_def)
qed

lemma join_body_effect:
  assumes body: "join_body env g i t d = (Inr b, d')" and keys: "keyed r_id (runs_of d)" and order: "distinct (map dc_index (dg_children g))"
  shows "same_usage d d' \<or> joins_now g i d d'"
proof -
  let ?S = "w_sessions (zw_world (dw_base d))" and ?R = "w_runs (zw_world (dw_base d))"
  obtain finished where finished: "finished_children ?S ?R (je_principal env) (dg_children g) [] = Inr finished"
    using body by (auto simp: join_body_def pbind_Inr_iff)
  show ?thesis
  proof (cases finished)
    case None
    then show ?thesis using body finished by (auto simp: join_body_def pbind_Inr_iff same_usage_def)
  next
    case (Some runs)
    obtain joined first d1 where joined: "join_children env (dw_artifacts d) (dq_return_shape (dg_request g)) runs (dg_children g) = Inr joined"
      and mark: "mark_joined g (joined_delegation g joined t) d = (Inr first, d1)"
      and fin: "(if \<not> first then preturn False else finish_join env g (joined_delegation g joined t) i (map snd joined) t) d1 = (Inr b, d')"
      using body finished Some by (auto simp: join_body_def pbind_Inr_iff Let_def)
    obtain rs where rs: "list_all2 (\<lambda>c r. \<exists>i. dc_child_run_id c = Some i \<and> dget (rr_runs ?R) i = Some r
        \<and> r_status r \<in> TERMINAL_RUN_STATUSES \<and> dget runs (dc_index c) = Some r) (dg_children g) rs"
      using finished_children_Some [OF finished [unfolded Some] order] by blast
    have ended: "ended_children (runs_of d) g rs"
      unfolding ended_children_def runs_of_def by (rule list.rel_mono_strong [OF rs]) blast
    have "list_all2 (\<lambda>c r. dget runs (dc_index c) = Some r) (dg_children g) rs" by (rule list.rel_mono_strong [OF rs]) blast
    then have usages: "map co_usage (map snd joined) = map r_usage rs" using join_children_Inr [OF joined] by (simp add: comp_def)
    show ?thesis
    proof (cases first)
      case False
      have "dw_ledger d1 = dw_ledger d \<and> dw_base d1 = dw_base d"
        using mark False by (auto simp: mark_joined_def unless_conflict_def on_ledger_def rbind_def
            split: sum.splits prod.splits submit_exn.splits error.splits)
      then show ?thesis using fin False by (simp add: same_usage_def usage_of_def runs_of_def)
    next
      case True
      obtain L where L: "delegation_transition (dw_ledger d) (dg_id g) Delegation_RUNNING (joined_delegation g joined t) = Inr L"
        and d1: "d1 = d\<lparr> dw_ledger := L \<rparr>"
        using mark True by (auto simp: mark_joined_def unless_conflict_def on_ledger_def rbind_def
            split: sum.splits prod.splits submit_exn.splits error.splits)
      have "keyed r_id (runs_of d1)" using keys by (simp add: d1 runs_of_def)
      moreover have "finish_join env g (joined_delegation g joined t) i (map snd joined) t d1 = (Inr b, d')" using fin True by simp
      ultimately have "dw_ledger d' = L \<and> (\<exists>u. usage_of d i = Some u \<and> usage_of d' i = Some (foldl add_usage u (map r_usage rs)))"
        using finish_join_effect usages by (fastforce simp: d1 usage_of_def runs_of_def)
      then have "joins_now g i d d'"
        unfolding joins_now_def using ended transition_Inr [OF L]
        by (intro exI [of _ rs] exI [of _ "joined_delegation g joined t"]) (auto simp: joined_delegation_def)
      then show ?thesis ..
    qed
  qed
qed

lemma find_Some_in: "find P xs = Some x \<Longrightarrow> x \<in> set xs \<and> P x"
  by (induction xs) (auto split: if_splits)

lemma find_delegation_Some:
  assumes "find_delegation L i child = Some g"
  shows "g \<in> set (dvals L)" and "dg_parent_run_id g = i"
  using find_Some_in [OF assms [unfolded find_delegation_def]] by (auto simp: get_for_parent_run_def)


subsection \<open>The ledger over time\<close>

text \<open>Every stored row satisfies the validators of its model, which updates by copy do not run.\<close>

definition ledger_valid :: "delegation_repo \<Rightarrow> bool" where
  "ledger_valid L \<longleftrightarrow> keyed dg_id L \<and> (\<forall>g \<in> set (dvals L). new_delegation g = Inr g)"

definition settled_kept :: "delegation_repo \<Rightarrow> delegation_repo \<Rightarrow> bool" where
  "settled_kept L L' \<longleftrightarrow> (ledger_valid L \<longrightarrow> ledger_valid L'
     \<and> (\<forall>i g. dget L i = Some g \<longrightarrow> dg_status g \<noteq> Delegation_RUNNING \<longrightarrow> dget L' i = Some g))"

lemma settled_refl: "settled_kept L L"
  by (simp add: settled_kept_def)

lemma settled_trans: "settled_kept L L' \<Longrightarrow> settled_kept L' L'' \<Longrightarrow> settled_kept L L''"
  by (simp add: settled_kept_def)

interpretation ledger_settles: evolution "between settled_kept"
  by unfold_locales (auto simp: between_def settled_refl intro: settled_trans)

lemma new_delegation_iff: "new_delegation g = Inr x \<longleftrightarrow> x = g \<and> length (dg_children g) = length (dq_briefs (dg_request g))
    \<and> length (dg_derived_limits g) = length (dq_briefs (dg_request g)) \<and> length (dg_granted_scopes g) = length (dq_briefs (dg_request g))
    \<and> map dc_index (dg_children g) = map int [0..<length (dq_briefs (dg_request g))]
    \<and> (dg_status g = Delegation_JOINED \<longleftrightarrow> dg_joined_at g \<noteq> None) \<and> (dg_status g = Delegation_JOINED \<longleftrightarrow> dg_result g \<noteq> None)"
  by (auto simp: new_delegation_def one_child_per_brief_def joined_fields_are_consistent_def Let_def)

lemma stays_usage_ledger: "stays same_usage m \<Longrightarrow> stays same_ledger m"
  by (simp add: stays_def same_usage_def same_ledger_def)

lemma stays_same_settled: "stays same_ledger m \<Longrightarrow> stays (between settled_kept) m"
  by (simp add: stays_def same_ledger_def between_def settled_refl)

lemmas rows_settled = stays_same_settled [OF stays_usage_ledger [OF stays_rows_usage]]
lemmas usage_settled = stays_same_settled [OF stays_usage_ledger]

lemma valid_row_keyed: "ledger_valid L \<Longrightarrow> g \<in> set (dvals L) \<Longrightarrow> new_delegation g = Inr g \<and> dget L (dg_id g) = Some g"
  using keyed_vals [of dg_id L g] unfolding ledger_valid_def by blast

lemma ledger_valid_dset:
  assumes "ledger_valid L" and "new_delegation g = Inr g" and "k = dg_id g"
  shows "ledger_valid (dset k g L)"
proof -
  have keyed: "keyed dg_id L" using assms(1) by (simp add: ledger_valid_def)
  have "set (dvals (dset k g L)) = insert g {w \<in> set (dvals L). dg_id w \<noteq> k}"
    by (rule keyed_set_dset [OF keyed]) (simp add: assms(3))
  then have "\<forall>w \<in> set (dvals (dset k g L)). w = g \<or> w \<in> set (dvals L)" by simp
  then show ?thesis
    using assms keyed_dset [OF keyed, of g k] unfolding ledger_valid_def by metis
qed

lemma mark_joined_settles:
  assumes "new_delegation u = Inr u" and "dg_id u = dg_id g"
  shows "stays (between settled_kept) (mark_joined g u)"
proof -
  have "settled_kept (dw_ledger d) (dw_ledger (snd (mark_joined g u d)))" for d
    using assms ledger_valid_dset [of "dw_ledger d" u "dg_id g"] transition_Inr [of "dw_ledger d" "dg_id g" Delegation_RUNNING u]
    by (cases "delegation_transition (dw_ledger d) (dg_id g) Delegation_RUNNING u")
      (auto simp: mark_joined_def on_ledger_def settled_refl, auto simp: settled_kept_def)
  then show ?thesis by (simp add: stays_def between_def)
qed

lemma note_terminal_found:
  assumes "delegation_unit (note_terminal env i child t) d = (Inr (Some g), d')"
  shows "g \<in> set (dvals (dw_ledger d))"
  using assms find_delegation_Some(1) [of "dw_ledger d"]
  by (auto simp: delegation_unit_Inr note_terminal_def pbind_Inr_iff split: option.splits)

lemma joined_valid:
  assumes "new_delegation g = Inr g" and made: "join_children env A shape runs (dg_children g) = Inr joined"
    and rs: "list_all2 (\<lambda>c r. dget runs (dc_index c) = Some r) (dg_children g) rs"
  shows "new_delegation (joined_delegation g joined t) = Inr (joined_delegation g joined t)"
  using assms(1) join_children_Inr [OF made rs] by (auto simp: new_delegation_iff joined_delegation_def comp_def)

lemma stays_ledger_finish: "stays same_ledger (finish_join env g u i outcomes t)"
proof -
  have "stays same_ledger (charge_parent env i outcomes t)"
    unfolding charge_parent_def Let_def by (intro ledger_same_laws)
  then show ?thesis
    unfolding finish_join_def
    by (intro ledger_same.stays_bind ledger_same.stays_return stays_if stays_usage_ledger [OF stays_usage_wake]
        stays_usage_ledger [OF stays_rows_usage [OF stays_rows_complete]] ledger_same_laws)
qed

lemma join_body_settles:
  assumes valid: "new_delegation g = Inr g"
  shows "stays (between settled_kept) (join_body env g i t)"
  unfolding stays_def
proof
  fix d :: delegation_world
  let ?S = "w_sessions (zw_world (dw_base d))" and ?R = "w_runs (zw_world (dw_base d))"
  let ?kids = "dg_children g" and ?goal = "between settled_kept d (snd (join_body env g i t d))"
  have quiet: ?goal if "snd (join_body env g i t d) = d" using that by (simp add: between_def settled_refl)
  have distinct: "distinct (map dc_index ?kids)"
  proof -
    have numbered: "map dc_index ?kids = map int [0..<length (dq_briefs (dg_request g))]" using valid by (simp add: new_delegation_iff)
    show ?thesis unfolding numbered by (simp add: distinct_map inj_on_def)
  qed
  show ?goal
  proof (cases "\<exists>runs joined. finished_children ?S ?R (je_principal env) ?kids [] = Inr (Some runs)
      \<and> join_children env (dw_artifacts d) (dq_return_shape (dg_request g)) runs ?kids = Inr joined")
    case False
    then have "snd (join_body env g i t d) = d"
      by (auto simp: join_body_def try_res_def split: sum.splits option.splits)
    then show ?thesis by (rule quiet)
  next
    case True
    then obtain runs joined where made: "finished_children ?S ?R (je_principal env) ?kids [] = Inr (Some runs)"
        "join_children env (dw_artifacts d) (dq_return_shape (dg_request g)) runs ?kids = Inr joined" by blast
    obtain rs where "list_all2 (\<lambda>c r. \<exists>i. dc_child_run_id c = Some i \<and> dget (rr_runs ?R) i = Some r
        \<and> r_status r \<in> TERMINAL_RUN_STATUSES \<and> dget runs (dc_index c) = Some r) ?kids rs"
      using finished_children_Some [OF made(1) distinct] by blast
    then have rs: "list_all2 (\<lambda>c r. dget runs (dc_index c) = Some r) ?kids rs" by (rule list.rel_mono_strong) blast
    define u where "u = joined_delegation g joined t"
    have body: "join_body env g i t d = pbind (mark_joined g u) (\<lambda>first.
        if \<not> first then preturn False else finish_join env g u i (map snd joined) t) d"
      unfolding u_def using made by (simp add: join_body_def try_res_def Let_def)
    have "new_delegation u = Inr u" unfolding u_def by (rule joined_valid [OF valid made(2) rs])
    then have "stays (between settled_kept) (mark_joined g u)"
      by (rule mark_joined_settles) (simp add: u_def joined_delegation_def)
    then have "stays (between settled_kept) (pbind (mark_joined g u) (\<lambda>first.
        if \<not> first then preturn False else finish_join env g u i (map snd joined) t))"
      by (intro between_before stays_if ledger_same.stays_return stays_ledger_finish)
    then show ?thesis unfolding body by (simp add: stays_def)
  qed
qed

lemma child_terminal_settles: "stays (between settled_kept) (child_terminal env child)"
proof -
  have rest: "stays (between settled_kept) (delegation_unit (join_body env g i t))" if "new_delegation g = Inr g" for g i t
    by (rule between_unit [OF join_body_settles [OF that]])
  have "between settled_kept d (snd (pbind (delegation_unit (note_terminal env i child t)) (\<lambda>found. case found of
         None \<Rightarrow> preturn ()
       | Some g \<Rightarrow> if dg_status g \<noteq> Delegation_RUNNING then preturn ()
           else pbind (delegation_unit (join_body env g i t)) (\<lambda>resumed.
             if resumed then resume_parent env i else preturn ())) d))" (is "between settled_kept d (snd (pbind ?m ?f d))")
    for i t d
  proof (cases "ledger_valid (dw_ledger d)")
    case False
    then show ?thesis by (simp add: between_def settled_kept_def)
  next
    case True
    obtain r d1 where m: "?m d = (r, d1)" by (cases "?m d")
    have first: "between settled_kept d d1" using staysD [OF rows_settled [OF stays_rows_unit [OF stays_rows_note]] m] .
    show ?thesis
    proof (cases "\<exists>g. r = Inr (Some g)")
      case False
      then have "snd (pbind ?m ?f d) = d1" using m by (cases r) auto
      then show ?thesis using first by simp
    next
      case True
      then obtain g where r: "r = Inr (Some g)" by blast
      have "new_delegation g = Inr g"
        using note_terminal_found [OF m [unfolded r]] valid_row_keyed [OF \<open>ledger_valid (dw_ledger d)\<close>] by blast
      then have "stays (between settled_kept) (?f (Some g))"
        by (simp only: option.case)
          (intro stays_if ledger_settles.stays_return ledger_settles.stays_bind rest rows_settled [OF stays_rows_resume])
      then have "between settled_kept d1 (snd (?f (Some g) d1))" by (simp add: stays_def)
      moreover have "snd (pbind ?m ?f d) = snd (?f (Some g) d1)" using m r by simp
      ultimately show ?thesis using ledger_settles.R_trans [OF first] by simp
    qed
  qed
  then have tail: "stays (between settled_kept) (pbind (delegation_unit (note_terminal env i child t)) (\<lambda>found. case found of
         None \<Rightarrow> preturn ()
       | Some g \<Rightarrow> if dg_status g \<noteq> Delegation_RUNNING then preturn ()
           else pbind (delegation_unit (join_body env g i t)) (\<lambda>resumed.
             if resumed then resume_parent env i else preturn ())))" for i t
    by (simp add: stays_def)
  show ?thesis
    unfolding child_terminal_def
    by (intro ledger_settles.stays_bind stays_case_option ledger_settles.stays_return tail
        rows_settled [OF stays_rows_world [OF stays_runs_basic(1)]])
qed

lemma stays_rows_read: "stays same_rows (read_run env i)" "stays same_rows (read_delegation env i)"
  unfolding read_run_def read_delegation_def by (intro rows_same_laws)+

lemma stays_rows_children: "stays same_rows (dispatch_children env cs)"
proof (induction cs)
  case (Cons c cs)
  show ?case
    unfolding dispatch_children.simps
    by (intro stays_case_option rows_same.stays_bind Cons stays_rows_world [OF stays_runs_dispatch(2)])
qed (simp add: stays_def same_rows_def)

lemma after_run_settles: "stays (between settled_kept) (after_run env i)"
  unfolding after_run_def after_child_run_def
  by (intro stays_contained ledger_settles.stays_bind stays_if ledger_settles.stays_return child_terminal_settles
      rows_settled [OF stays_rows_unit [OF stays_rows_read(1)]])

lemma parent_parked_settles: "stays (between settled_kept) (parent_parked env parent_id i)"
  unfolding parent_parked_def parked_body_def
  by (intro stays_contained ledger_settles.stays_bind stays_if ledger_settles.stays_return
      rows_settled [OF stays_rows_read(2)] rows_settled [OF stays_rows_children] rows_settled [OF stays_rows_resume]
      between_unit rows_settled [OF stays_rows_read(1)] usage_settled [OF stays_usage_wake])

lemma delegate_settles: "stays (between settled_kept) (delegate env request run agent p call pinned lease)"
proof -
  have "settled_kept L L'" if gained: "gains_row run request L L'" for L L'
  proof (cases "L' = L")
    case False
    then obtain row where row: "delegation_create L row = Inr L'" "new_delegation row = Inr row"
      using gained by (auto simp: gains_row_def)
    note made = delegation_create_Inr [OF row(1)]
    then show ?thesis using ledger_valid_dset [of L row "dg_id row"] row(2) by (auto simp: settled_kept_def)
  qed (simp add: settled_refl)
  then show ?thesis
    using stays_delegate_gains [of env run request agent p call pinned lease]
    by (simp add: stays_def between_def gains_admitted_def)
qed

text \<open>A step of delegation: a delegate call, the end of a child's run, or a parent that parks.\<close>

inductive delegation_step :: "delegation_world \<Rightarrow> delegation_world \<Rightarrow> bool" where
  dstep_delegate: "delegate env request run agent p call pinned lease d = (r, d') \<Longrightarrow> delegation_step d d'"
| dstep_after: "after_run join i d = (r, d') \<Longrightarrow> delegation_step d d'"
| dstep_parked: "parent_parked join parent_id i d = (r, d') \<Longrightarrow> delegation_step d d'"

lemma delegation_step_settles: "delegation_step d d' \<Longrightarrow> between settled_kept d d'"
  by (induction rule: delegation_step.induct)
    (blast dest: staysD [OF delegate_settles] staysD [OF after_run_settles] staysD [OF parent_parked_settles])+


subsection \<open>Witnesses\<close>

definition sample_join_env :: join_env where
  "sample_join_env = \<lparr> je_submit = sample_env, je_principal = alice, je_summary_max_bytes = 100, je_truncated = ''...'',
     je_isoformat = str_int, je_dump_result = (\<lambda>_. []), je_dump_outcome = (\<lambda>_. JNull), je_dump_item = (\<lambda>_. JNull),
     je_dump_failure = (\<lambda>_. JNull) \<rparr>"

definition sample_ended_child :: run where
  "sample_ended_child = (sample_run 2 Run_COMPLETED)\<lparr> r_kind := DELEGATED, r_parent_run_id := Some 1,
     r_usage := zero_usage\<lparr> u_cost := 2, u_tool_calls := 3 \<rparr> \<rparr>"

definition sample_running_delegation :: delegation where
  "sample_running_delegation = ledger_row 5 (sample_run 1 Run_RUNNING) alice 21 sample_delegation_request [default_run_limits] [{}]
     [\<lparr> dc_index = 0, dc_child_run_id = Some 2, dc_child_session_id = Some 2, dc_status = None, dc_summary = None,
        dc_artifact_refs = [], dc_usage = None, dc_failure_reason = None \<rparr>] 10"

definition sample_join_world :: delegation_world where
  "sample_join_world = \<lparr> dw_base = \<lparr> zw_world = sample_world\<lparr> w_runs := \<lparr> rr_runs = [(1, sample_run 1 Run_RUNNING), (2, sample_ended_child)],
       rr_people_erased = [] \<rparr> \<rparr>, zw_schedules = empty_schedule_repo, zw_process = [], zw_notices = [] \<rparr>,
     dw_ledger = [(5, sample_running_delegation)], dw_tools = empty_tool_repo, dw_artifacts = sample_artifacts \<rparr>"

lemma sample_running_valid: "new_delegation sample_running_delegation = Inr sample_running_delegation"
  by (simp add: new_delegation_iff sample_running_delegation_def ledger_row_def sample_delegation_request_def)

lemma sample_join_ledger: "ledger_valid (dw_ledger sample_join_world)" "ledger_ok (dw_ledger sample_join_world)"
  using sample_running_valid
  by (simp_all add: ledger_valid_def ledger_ok_def keyed_def sample_join_world_def)
    (simp_all add: sample_running_delegation_def ledger_row_def)


lemma sample_joins:
  "\<exists>d'. child_terminal sample_join_env sample_ended_child sample_join_world = (Inr (), d')
     \<and> dw_ledger d' \<noteq> dw_ledger sample_join_world"
proof -
  let ?env = sample_join_env and ?g = sample_running_delegation
  define d1 where "d1 = sample_join_world\<lparr> dw_base := (dw_base sample_join_world)\<lparr> zw_world := (zw_world (dw_base sample_join_world))\<lparr> w_ticks := 1 \<rparr> \<rparr> \<rparr>"
  have now: "on_world now sample_join_world = (Inr 1000, d1)"
    by (simp add: d1_def on_base_def zlift_def now_def sample_join_world_def sample_world_def)
  have "find_delegation (dw_ledger (entered d1)) 1 (r_id sample_ended_child) = Some ?g"
    by (simp add: d1_def find_delegation_def get_for_parent_run_def sample_join_world_def sample_running_delegation_def ledger_row_def
      sample_run_def sample_ended_child_def)
  moreover have "zw_process (dw_base (entered d1)) = []" by (simp add: d1_def entered_def sample_join_world_def)
  ultimately obtain d2 e where note_ok: "note_terminal ?env 1 sample_ended_child 1000 (entered d1) = (Inr (Some ?g), d2)"
    and d2: "dw_ledger d2 = dw_ledger d1" "dw_tools d2 = dw_tools d1" "zw_process (dw_base d2) = [(pe_derivation_key e, e)]"
      "w_sessions (zw_world (dw_base d2)) = w_sessions (zw_world (dw_base d1))"
      "w_runs (zw_world (dw_base d2)) = w_runs (zw_world (dw_base d1))"
      "pe_derivation_key e = ''delegation.child_terminal:'' @ uuid_str (r_id sample_ended_child)"
    by (simp add: note_terminal_def pbind_def on_base_def zlift_def new_id_def append_process_def process_append_def
        child_terminal_event_def runtime_event_def) (simp add: entered_def enter_unit_def)
  define d3 where "d3 = entered (left d1 d2)"
  have d3: "dw_ledger d3 = [(5, ?g)]" "dw_tools d3 = empty_tool_repo" "zw_process (dw_base d3) = [(pe_derivation_key e, e)]"
      "w_sessions (zw_world (dw_base d3)) = sample_sessions"
      "w_runs (zw_world (dw_base d3)) = \<lparr> rr_runs = [(1, sample_run 1 Run_RUNNING), (2, sample_ended_child)], rr_people_erased = [] \<rparr>"
    by (simp_all add: d3_def d2 entered_def left_def enter_unit_def commit_unit_def d1_def)
      (simp_all add: sample_join_world_def sample_world_def)
  let ?kid = "\<lparr> dc_index = 0, dc_child_run_id = Some 2, dc_child_session_id = Some 2, dc_status = None, dc_summary = None,
        dc_artifact_refs = [], dc_usage = None, dc_failure_reason = None \<rparr>"
  let ?S = "w_sessions (zw_world (dw_base d3))" and ?R = "w_runs (zw_world (dw_base d3))"
  have kids: "dg_children ?g = [?kid]" "dg_id ?g = 5" "dg_parent_run_id ?g = 1" "dg_status ?g = Delegation_RUNNING" "dg_result ?g = None"
    by (simp_all add: sample_running_delegation_def ledger_row_def sample_run_def)
  have parent: "run_get ?S ?R 1 alice = Inr (sample_run 1 Run_RUNNING)"
    by (simp add: run_get_def d3 dlookup_def session_get_def sample_session_defs sample_run_def)
  have "run_get ?S ?R 2 alice = Inr sample_ended_child"
    by (simp add: run_get_def d3 dlookup_def session_get_def sample_session_defs sample_run_def sample_ended_child_def)
  moreover have "r_status sample_ended_child \<in> TERMINAL_RUN_STATUSES"
    by (simp add: sample_ended_child_def sample_run_def TERMINAL_RUN_STATUSES_def)
  ultimately have finished: "finished_children ?S ?R (je_principal ?env) (dg_children ?g) [] = Inr (Some [(0, sample_ended_child)])"
    by (simp add: kids sample_join_env_def)
  obtain c o' where made: "join_children ?env (dw_artifacts d3) (dq_return_shape (dg_request ?g)) [(0, sample_ended_child)] (dg_children ?g)
      = Inr [(c, o')]"
    using \<open>r_status sample_ended_child \<in> TERMINAL_RUN_STATUSES\<close> by (simp add: kids dlookup_def outcome_of_def status_is_terminal_def)
  define u where "u = joined_delegation ?g [(c, o')] 1000"
  have u: "dg_id u = 5" "dg_status u = Delegation_JOINED" "dg_parent_run_id u = 1"
    by (simp_all add: u_def joined_delegation_def kids)
  define d4 where "d4 = d3\<lparr> dw_ledger := [(5, u)] \<rparr>"
  have mark: "mark_joined ?g u d3 = (Inr True, d4)"
    by (simp add: mark_joined_def unless_conflict_def on_ledger_def d3 delegation_transition_def kids u d4_def)
  have complete: "complete_invocation ?env u 1000 d4 = (Inr (), d4)"
    using parent by (simp add: complete_invocation_def tool_list_for_run_def d4_def u sample_join_env_def d3 empty_tool_repo_def try_res_def)
  define p where "p = (sample_run 1 Run_RUNNING)\<lparr> r_usage := foldl add_usage (r_usage (sample_run 1 Run_RUNNING)) (map co_usage [o']), r_updated_at := 1000 \<rparr>"
  have "\<exists>R. update_counters ?R p None = Inr R"
    by (simp add: update_counters_def d3 p_def sample_run_def dlookup_def Let_def)
  then obtain R where R: "update_counters ?R p None = Inr R" ..
  define d5 where "d5 = d4\<lparr> dw_base := (dw_base d4)\<lparr> zw_world := (zw_world (dw_base d4))\<lparr> w_runs := R \<rparr> \<rparr> \<rparr>"
  have charge: "charge_parent ?env 1 [o'] 1000 d4 = (Inr p, d5)"
    using parent R by (simp add: charge_parent_def d4_def sample_join_env_def try_res_def on_base_def zlift_def on_store_def p_def Let_def
        pbind_def d5_def)
  define k where "k = w_ids (zw_world (dw_base d5)) (w_ids_used (zw_world (dw_base d5)))"
  define d6 where "d6 = d5\<lparr> dw_base := (dw_base d5)\<lparr> zw_world := (zw_world (dw_base d5))\<lparr> w_ids_used := Suc (w_ids_used (zw_world (dw_base d5))) \<rparr> \<rparr> \<rparr>"
  have id: "on_world new_id d5 = (Inr k, d6)" by (simp add: on_base_def zlift_def new_id_def d6_def k_def)
  define e' where "e' = joined_event ?env k ?g 1 [o'] 1000"
  have "zw_process (dw_base d6) = [(pe_derivation_key e, e)]" by (simp add: d6_def d5_def d4_def d3(3))
  moreover have "pe_derivation_key e' \<noteq> pe_derivation_key e" by (simp add: e'_def joined_event_def runtime_event_def d2(6))
  ultimately obtain d7 where joined: "on_base (append_process e') d6 = (Inr (), d7)" and d7: "dw_ledger d7 = dw_ledger d6"
    by (simp add: on_base_def append_process_fresh)
  have running: "r_status p \<noteq> Run_WAITING_FOR_APPROVAL" by (simp add: p_def sample_run_def)
  have finish: "finish_join ?env ?g u 1 [o'] 1000 d4 = (Inr False, d7)"
    unfolding finish_join_def
    apply (rule pbind_runs, rule complete)
    apply (rule pbind_runs, rule charge)
    apply (rule pbind_runs, rule id)
    apply (rule pbind_runs, rule joined [unfolded e'_def])
    apply (simp add: running)
    done
  have body: "join_body ?env ?g 1 1000 d3 = (Inr False, d7)"
    using finished made mark finish by (simp add: join_body_def try_res_def u_def Let_def)
  have "dw_ledger d7 = [(5, u)]" by (simp add: d7 d6_def d5_def d4_def)
  then have changed: "dw_ledger (left (left d1 d2) d7) \<noteq> dw_ledger sample_join_world"
    using u(2) kids(4) by (auto simp: sample_join_world_def)
  have "child_terminal ?env sample_ended_child sample_join_world = (Inr (), left (left d1 d2) d7)"
  proof -
    have "r_parent_run_id sample_ended_child = Some 1" by (simp add: sample_ended_child_def)
    moreover have "delegation_unit (note_terminal ?env 1 sample_ended_child 1000) d1 = (Inr (Some ?g), left d1 d2)"
      using note_ok by (simp add: delegation_unit_Inr)
    moreover have "delegation_unit (join_body ?env ?g 1 1000) (left d1 d2) = (Inr False, left (left d1 d2) d7)"
      using body by (simp add: delegation_unit_Inr d3_def)
    then have "pbind (delegation_unit (join_body ?env ?g 1 1000)) (\<lambda>resumed. if resumed then resume_parent ?env 1 else preturn ())
        (left d1 d2) = (Inr (), left (left d1 d2) d7)" by (rule pbind_runs) simp
    ultimately show ?thesis using now kids(4) by (simp add: child_terminal_def pbind_runs del: on_base_Inr One_nat_def)
  qed
  then show ?thesis using changed by blast
qed


end
