(* ===== verification/Spec2Isabelle.thy ===== *)
theory Spec2Isabelle
  imports Sessions Run_Repo Budgets Events Policy_Loader Tool_Calls Approvals Artifacts
    Recurrence_Counts Journal Submission Schedule_Laws Delegation_Join
begin

text \<open>
  A verification library for the core of the veetbot agent platform (Python, \<open>src/src/agent_core\<close>).

  \<^bold>\<open>The program.\<close> A principal talks to an agent in a session. Every message starts a run; a worker
  drives the run through model calls and tool calls. Each proposed tool call is judged by the policy
  engine: denied, allowed, or parked until the principal resolves an approval. Everything that happens
  is appended to the session's event log, from which the conversation history and the trajectory are
  projected. Runs are bounded by budgets, saved as checkpoints, and may produce artifacts. Repositories
  keep all of this; they exist in two tiers, PostgreSQL and in-process, behind the same ports. The
  in-process tier (\<open>adapters/persistence/memory.py\<close>) is the executable reference of those ports and is
  what this library models, together with the pure domain and policy code both tiers share.

  \<^bold>\<open>Theories and sources.\<close> Paths are relative to \<open>src/src/agent_core\<close>.

  \<^item> Prelude: errors as values, Python dictionaries, slices, stable sorting, principals, and the
    interfaces \<open>owner_scoped\<close> (a getter that hides foreign records), \<open>lifecycle\<close>, \<open>status_store\<close> and
    \<open>retaining_store\<close> (stores whose records follow a status diagram). Py_Strings: the string methods,
    path normalisation and number texts the code uses.
  \<^item> Runs: \<open>domain/runs.py\<close> and \<open>runtime/state_machine.py\<close> (statuses, limits, usage, the transition
    diagram). Run_Repo: \<open>InMemoryRunRepository\<close>.
  \<^item> Sessions: \<open>domain/sessions.py\<close> and \<open>InMemorySessionRepository\<close>.
  \<^item> Budgets: \<open>runtime/budgets.py\<close>, the usage repository and rollups, the cancellation token. Interface
    \<open>counter_store\<close> (what charging needs of a run store).
  \<^item> Events: \<open>domain/events.py\<close>, redaction in \<open>adapters/persistence/people_erasure.py\<close>,
    \<open>domain/memory_sources.py\<close>, the event and process-event repositories, the history and trajectory
    projections.
  \<^item> Policy: \<open>domain/policies.py\<close>, \<open>policy/engine.py\<close>, \<open>policy/hardline.py\<close>, \<open>policy/advised.py\<close>,
    \<open>policy/jobs.py\<close>, \<open>policy/scopes.py\<close> and the mail predicates of \<open>mcp/configuration.py\<close>. Interface
    \<open>escalating_layer\<close> (a layer that may only tighten a decision). Policy_Loader: \<open>policy/loader.py\<close>.
  \<^item> Tool_Calls: \<open>domain/tools.py\<close> and \<open>InMemoryToolInvocationRepository\<close>.
  \<^item> Approvals: \<open>domain/approvals.py\<close>, \<open>policy/revalidation.py\<close> and \<open>InMemoryApprovalRepository\<close>.
  \<^item> Checkpoints: run checkpoints, idempotency records and policy versions with their repositories, and
    what people erasure does to checkpoints. Interface \<open>first_writer_wins\<close>.
  \<^item> Artifacts: \<open>domain/artifacts.py\<close>, \<open>domain/trajectory.py\<close>, the artifact, export and consent
    repositories, what people erasure does to them, and the files of a final reply
    (\<open>complete_reply\<close> in \<open>runtime/loop.py\<close>). Interface \<open>erasure_fence\<close>, interpreted twice.
  \<^item> Calendar: proleptic Gregorian dates, the civil arithmetic of the standard library. Recurrence:
    the cadences of \<open>domain/schedules.py\<close> and the calculator of \<open>domain/recurrence.py\<close>.
    Recurrence_Counts: its closed-form counts against enumeration.
  \<^item> Journal: \<open>adapters/memory/transactions.py\<close>, the owner locks, savepoints and undo journal of the
    in-process memory stores, with interleaved tasks.
  \<^item> Effects: programs that may raise after having changed the state, and the interface \<open>evolution\<close>
    (what a program may do to the state), interpreted wherever a later theory shows that a step leaves
    something alone (\<open>schedules_kept\<close>, \<open>runs_same\<close>, \<open>agents_same\<close>, \<open>ledger_same\<close>, \<open>usage_same\<close> and others).
    Submission: \<open>application/run_service.py\<close>, \<open>application/session_service.py\<close>,
    \<open>runtime/checkpoints.py\<close>, \<open>adapters/dispatch/inline.py\<close>, the agents of \<open>domain/agents.py\<close> and the
    in-process \<open>adapters/persistence/unit_of_work.py\<close>, over the session, run, event, checkpoint,
    idempotency and consent repositories.
  \<^item> Call_Authorization: \<open>application/call_authorization.py\<close>, the owner's standing authorization of calls.
    Call_Plans: \<open>domain/call_plans.py\<close>, what a scheduled plan of calls does next.
  \<^item> Schedules: the schedule, revision and occurrence values of \<open>domain/schedules.py\<close> with their
    validators, and the in-process repository of \<open>adapters/persistence/schedules.py\<close>. Materializer:
    \<open>scheduling/materializer.py\<close> (the cadence path), \<open>adapters/identity.py\<close> and \<open>scheduling/worker.py\<close>.
    Firing: what one firing does, and that a ready schedule does fire. Accounting:
    \<open>scheduling/accounting.py\<close>. Manual_Runs: the owner's runs outside the cadence and the refresh of
    feeds. Schedule_Service: \<open>application/schedule_service.py\<close> (create, update, patch, pause, resume,
    cancel, get). Schedule_Requests: its round trip and its revision guard. Schedule_Laws: the three
    writers of the schedule tables together, as one step relation \<open>scheduling_step\<close>.
  \<^item> Delegations: \<open>domain/delegations.py\<close> and the in-process ledger of
    \<open>adapters/persistence/delegations.py\<close>, with the limits of a child. Delegated_Runs:
    \<open>DelegationMaterializer\<close> of \<open>application/delegations.py\<close>, which turns a tool call into child runs.
    Delegation_Join: \<open>DelegationJoin\<close> of the same file and the two resume edges of
    \<open>runtime/executor.py\<close> it calls; the inductive \<open>delegation_step\<close> ranges over all three entry points.

  \<^bold>\<open>How the parts call each other.\<close> Submission, the schedule materializer and the delegation
  materializer all end in the same writes (session, first message, run, seed, queueing event, first
  checkpoint), each through the repositories above; the last two share \<open>launch_work\<close>. The materializer
  asks Recurrence for the next instant, Call_Plans for the next call and the schedule repository for
  the due rows; Accounting and the join react to a finished run; the schedule service writes the rows
  the materializer reads. The composed worlds are nested records: \<open>world\<close> (the common stores),
  \<open>schedule_world\<close> (with the schedule tables and process events), \<open>delegation_world\<close> (with the ledger,
  the tool calls and the artifacts).

  \<^bold>\<open>How state and operations correspond.\<close> A repository class is a record with one field per attribute
  (\<open>_runs\<close> is \<open>rr_runs\<close>, \<open>_people_erased_runs\<close> is \<open>rr_people_erased\<close>, and so on); a method is a function
  from the record to its result and the new record. Methods hold the repository's lock for their whole
  body, so one method is one atomic step and an interleaving of callers is a sequence of steps: each
  repository theory has an inductive step relation over its mutating methods, and statements about all
  histories quantify over its reflexive transitive closure. A raised exception is \<open>Inl\<close> with the error
  and leaves the state as it was at the call, which is what the modelled methods do. A service is a
  program of Effects instead: an exception leaves the state its earlier writes made, and a unit of
  work undoes what the in-process unit of work undoes, which is not all of it. Each reading of the
  clock and each new identifier is an argument of a method; a program draws them from the streams of
  its world. Deep copies are the identity.

  \<^bold>\<open>Abstractions.\<close> Instants are integers (microseconds since 1970 UTC), UUIDs are natural numbers,
  \<open>Decimal\<close> amounts are rationals, Python's unbounded integers are \<open>int\<close>. Validation by pydantic is
  modelled where a validator is written in the source; field types hold by typing. Code outside the
  repository and text scanners are parameters of the definitions that use them: regular-expression
  search and network-range tests (\<open>policy_env\<close>), SHA-256 and the secret and risk scanners
  (\<open>text_detectors\<close>), the message validators (\<open>message_adapters\<close>), the validator of a hardline rule,
  \<open>datetime.fromisoformat\<close>, the time zone database, and the serialisers and injected services of
  submission (\<open>submit_env\<close>), of the materializer (\<open>schedule_env\<close>: zones, admission, digests, notices), of the
  schedule service (\<open>service_env\<close>), of delegation (\<open>delegation_env\<close>, \<open>join_env\<close>: decimal and JSON texts, the
  child agent's digest, dumps of results). Characters are those below 256; what lies outside, such as
  the first character of the mark of a shortened summary, is part of a parameter. Running a dispatched
  run in process is a recorded call. No statement assumes more of them than it says.

  \<^bold>\<open>Termination and fuel.\<close> All definitions are total; no fuel is used. The recursions are structural,
  except for decimal digits, which decrease the number, the search for a civil time that exists in its
  zone and the scan for phone numbers, which have measures, and the paged scan for feeds
  (\<open>feed_pages\<close>), whose measure is the number of rows behind the cursor. The bounded searches of the
  calculator keep the code's bounds, and a theorem shows that they are wide enough. That every call
  plan ends in its report is a theorem of its own.

  \<^bold>\<open>What the properties show.\<close> The manifest names forty of the theorems; the others of the same kind
  remain lemmas of their theories.
  \<^item> Policy: hardline denials, the approval floor and the untrusted-origin escalation cannot be
    bypassed by rules, advice or job grants; layers only tighten; a loaded ruleset is total; protected
    paths match by components, except for a path written with two leading slashes.
  \<^item> Runs and sessions: the status diagram holds for every history, terminal statuses and cancellation
    requests are final, at most one active run exists per session, owners are isolated, pages continue
    where the previous page ended.
  \<^item> Budgets: charging is all-or-nothing, limits are respected by every interleaving of charges and
    refunds, rollups agree with the records.
  \<^item> Events: the log is append-only, gap-free and idempotent under derivation keys; history reads are
    reproducible; erased runs only gain redacted events.
  \<^item> Tool calls and approvals: idempotency keys identify one call, finished calls are frozen, an approval
    is resolved once, the action index is exact, expiry is complete, revalidation accepts exactly the
    unchanged action.
  \<^item> Checkpoints and artifacts: pruning keeps the resume point, erased runs never regain checkpoints or
    live files, idempotency keys and policy versions keep their first record, a reply carries every
    file the run produced.
  \<^item> Recurrence: the bounded searches always find the neighbouring instants of a recurring cadence, and
    the closed-form counts equal enumeration.
  \<^item> Journal: an aborted transaction leaves no trace under any interleaving and at any nesting, and
    leaving a transaction never raises.
  \<^item> Submission: what an accepted request stores, that it is carried out once, when it is accepted and
    when refused, and that no branch breaks a store's invariant.
  \<^item> Calls: without an approval only a number the owner wrote is dialled; a call plan stays within its
    bounds, ends, and its note adds no number.
  \<^item> Schedules: the tables are well formed in every reachable state; one instant fires at most once and
    exactly at an instant of the cadence; a scheduled run stays within its owner's authority; a ready
    schedule does start its run; finished runs are counted once; manual runs are bounded per day and
    replayed under their key; the paged feed listing is complete; the overlap check can be passed when
    a firing is late; a revision gives back the definition it was made from; a stale revision is
    refused; an ended schedule stays ended, revisions and occurrences are never changed, stored rows
    satisfy their validators, and a creation key stays bound to its first request, whatever the worker,
    the accountant and the service do.
  \<^item> Delegation: a child run gets only tools, scopes and limits its parent has, never the forbidden
    tools, and cannot delegate; live children stay capped whatever fails; a parent is charged exactly
    when its delegation joins, by the usage of its ended children; a settled delegation is final and
    every ledger row stays valid.

  \<^bold>\<open>Not modelled.\<close> The PostgreSQL tier (SQL and leases), HTTP API, command line, surfaces and clients,
  browser and sandbox execution, model gateways, retrieval and memory formation, knowledge, skills,
  mail, call placement and people services, evaluation and operations code: input and output, provider
  glue, or services over the stores modelled here. Of the schedules, the drafts and the paged lists of
  the service and the worker's stop signal; of delegation, the cascade of a parent's cancellation.

  \<^bold>\<open>Plan.\<close> What would come next: cancelling a parked run with its children; folders, personas and
  model settings; the whole of people erasure over all stores; the job stores.
\<close>

end
